(* ===== verification/Kernel_Prelude.thy ===== *)
theory Kernel_Prelude
  imports Main "HOL-Library.Word"
begin

text \<open>
  Shared vocabulary of the development: the names of the C integer types that the
  sources use (\<^verbatim>\<open>kernel/rhino/core/include/k_sys.h\<close>,
  \<^verbatim>\<open>platform/arch/arm/armv6m/gcc/m0/k_types.h\<close>), and the generic facts about lists,
  sorted insertion and words which the component theories use.  The collections
  \<open>klist_simps\<close> and \<open>kword_simps\<close> gather the rewrite rules that the component
  proofs pass to \<open>simp add:\<close> and \<open>auto simp:\<close>.
\<close>

unbundle bit_operations_syntax

named_theorems klist_simps
named_theorems kword_simps

type_synonym u8 = "8 word"
type_synonym u32 = "32 word"
type_synonym u64 = "64 word"
type_synonym byte = "8 word"

text \<open>\<open>tick_t\<close> and \<open>sys_time_t\<close> are \<^verbatim>\<open>uint64_t\<close>.\<close>

type_synonym tick_t = "64 word"
type_synonym sys_time_t = "64 word"
type_synonym sem_count_t = "32 word"
type_synonym mutex_nested_t = "32 word"
type_synonym suspend_nested_t = "8 word"

section \<open>Removing an element from a list\<close>

lemma set_remove1_distinct [klist_simps]: "distinct xs \<Longrightarrow> set (remove1 x xs) = set xs - {x}"
  by (rule set_remove1_eq)

lemma remove1_singleton_iff:
  "distinct xs \<Longrightarrow> x \<in> set xs \<Longrightarrow> (remove1 x xs = []) = (xs = [x])"
  by (cases xs) (auto simp: remove1_idem)

lemma remove1_hd: "remove1 (hd xs) xs = tl xs"
  by (cases xs) auto

lemma remove1_nonempty:
  "distinct xs \<Longrightarrow> x \<in> set xs \<Longrightarrow> xs \<noteq> [x] \<Longrightarrow> remove1 x xs \<noteq> []"
  by (simp add: remove1_singleton_iff)

lemma sorted_wrt_remove1: "sorted_wrt R xs \<Longrightarrow> sorted_wrt R (remove1 x xs)"
proof (induction xs)
  case (Cons y ys)
  then show ?case using set_remove1_subset [of x ys] by auto
qed simp

section \<open>Insertion before the first element that satisfies a test\<close>

text \<open>
  The kernel's three sorted lists (pend lists, the tick list, the timer list) are all
  filled by the same loop: walk from the head to the first element with a key
  \<open>>\<close> the new one's, and link the new element in front of it.
\<close>

primrec insert_before :: "('a \<Rightarrow> bool) \<Rightarrow> 'a \<Rightarrow> 'a list \<Rightarrow> 'a list" where
  "insert_before P x [] = [x]"
| "insert_before P x (y # ys) = (if P y then x # y # ys else y # insert_before P x ys)"

lemma set_insert_before [simp]: "set (insert_before P x xs) = insert x (set xs)"
  by (induction xs) auto

lemma length_insert_before [simp]: "length (insert_before P x xs) = Suc (length xs)"
  by (induction xs) auto

lemma distinct_insert_before [simp]:
  "distinct (insert_before P x xs) = (x \<notin> set xs \<and> distinct xs)"
  by (induction xs) auto

lemma insert_before_not_Nil [simp]: "insert_before P x xs \<noteq> []"
  by (cases xs) auto

lemma insert_before_cong:
  "(\<And>y. y \<in> set xs \<Longrightarrow> P y = Q y) \<Longrightarrow> insert_before P x xs = insert_before Q x xs"
  by (induction xs) auto

lemma insert_before_append:
  "insert_before P x xs = takeWhile (\<lambda>y. \<not> P y) xs @ x # dropWhile (\<lambda>y. \<not> P y) xs"
  by (induction xs) auto

lemma sorted_key_insert_before:
  fixes f :: "'a \<Rightarrow> 'b::linorder"
  assumes "sorted (map f xs)"
  shows "sorted (map f (insert_before (\<lambda>y. f x < f y) x xs))"
  using assms by (induction xs) (auto simp: less_imp_le intro: order.trans)

section \<open>Words\<close>

lemma ucast_minus_down:
  fixes a b :: "64 word"
  shows "ucast a - ucast b = (ucast (a - b) :: 32 word)"
proof transfer
  fix a b :: int
  have "take_bit 32 (take_bit 64 a - take_bit 64 b) =
      take_bit 32 (take_bit 32 (take_bit 64 a) - take_bit 32 (take_bit 64 b))"
    by (simp only: take_bit_diff)
  also have "\<dots> = take_bit 32 (a - b)"
    by (simp add: take_bit_diff)
  finally show "take_bit LENGTH(32) (take_bit LENGTH(64) a - take_bit LENGTH(64) b) = take_bit LENGTH(32) (take_bit LENGTH(64) (a - b))"
    by simp
qed
lemma sint_ucast_small:
  fixes a :: "64 word"
  assumes "a < 2 ^ 31"
  shows "sint (ucast a :: 32 word) = int (unat a)"
proof -
  have "uint a < 2 ^ 31" using assms by (simp add: word_less_alt)
  then have "take_bit 31 (uint a) = uint a"
    by (simp add: take_bit_int_eq_self)
  then have "signed_take_bit 31 (uint a) = uint a"
    by (metis bit_take_bit_iff less_irrefl signed_take_bit_eq_if_positive)
  then show ?thesis
    by (simp add: signed_ucast_eq)
qed
lemma sint_diff_ucast_small:
  fixes a b :: "64 word"
  assumes "a - b < 2 ^ 31"
  shows "sint (ucast a - ucast b :: 32 word) = int (unat (a - b))"
  using sint_ucast_small [OF assms] by (simp add: ucast_minus_down)

section \<open>Invariants of a transition system\<close>

text \<open>
  The interface between the operations and the properties of whole runs: an invariant holds in every
  state that can be reached.
\<close>

locale invariant_system =
  fixes init :: "'s \<Rightarrow> bool" and step :: "'s \<Rightarrow> 's \<Rightarrow> bool" and inv :: "'s \<Rightarrow> bool"
  assumes init_inv: "init s \<Longrightarrow> inv s" and step_inv: "step s s' \<Longrightarrow> inv s \<Longrightarrow> inv s'"
begin

lemma steps_inv: "step\<^sup>*\<^sup>* s s' \<Longrightarrow> inv s \<Longrightarrow> inv s'"
  by (induction rule: rtranclp_induct) (auto intro: step_inv)

lemma reach_inv: "init s0 \<Longrightarrow> step\<^sup>*\<^sup>* s0 s \<Longrightarrow> inv s"
  using init_inv steps_inv by blast

end

end
