(* ===== verification/Bitmap.thy ===== *)
theory Bitmap
  imports Kernel_Prelude
begin

text \<open>
  \<^verbatim>\<open>kernel/rhino/core/include/k_bitmap.h\<close>: the priority bitmap.  A bitmap is an array of
  32-bit units (\<open>u32 list\<close>); bit \<open>nr\<close> is stored most significant bit first.
\<close>

section \<open>The operations of k\_bitmap.h\<close>

definition BITMAP_MASK :: "nat \<Rightarrow> u32" where
  "BITMAP_MASK nr = push_bit (31 - nr mod 32) 1"

definition BITMAP_WORD :: "nat \<Rightarrow> nat" where
  "BITMAP_WORD nr = nr div 32"

definition krhino_bitmap_set :: "u32 list \<Rightarrow> nat \<Rightarrow> u32 list" where
  "krhino_bitmap_set bm nr =
     bm[BITMAP_WORD nr := (bm ! BITMAP_WORD nr) OR BITMAP_MASK nr]"

definition krhino_bitmap_clear :: "u32 list \<Rightarrow> nat \<Rightarrow> u32 list" where
  "krhino_bitmap_clear bm nr =
     bm[BITMAP_WORD nr := (bm ! BITMAP_WORD nr) AND NOT (BITMAP_MASK nr)]"

text \<open>One halving step of the binary search for the leading one: skip \<open>k\<close> bits when the masked part is 0.\<close>

definition clz_step :: "u32 \<Rightarrow> nat \<Rightarrow> u32 \<times> nat \<Rightarrow> u32 \<times> nat" where
  "clz_step m k xn = (case xn of (x, n) \<Rightarrow> if x AND m = 0 then (push_bit k x, n + k) else (x, n))"

definition clz_search :: "u32 \<Rightarrow> nat \<Rightarrow> nat" where
  "clz_search x nr =
     (let s = clz_step 0xFFFF0000 16 (x, nr);
          s = clz_step 0xFF000000 8 s;
          s = clz_step 0xF0000000 4 s;
          s = clz_step 0xC0000000 2 s
      in (if fst s AND 0x80000000 = 0 then snd s + 1 else snd s))"

definition krhino_clz32 :: "u32 \<Rightarrow> nat" where
  "krhino_clz32 x = (if x = 0 then 32 else clz_search x 0)"

text \<open>
  The scan \<^verbatim>\<open>while (*bitmap == 0UL)\<close> has no bound: on an all-zero bitmap it reads past the
  array, which is the value \<open>None\<close>.  \<open>nr\<close> is the accumulator of the loop.
\<close>

fun find_first_bit_from :: "nat \<Rightarrow> u32 list \<Rightarrow> nat option" where
  "find_first_bit_from nr [] = None"
| "find_first_bit_from nr (w # ws) =
     (if w = 0 then find_first_bit_from (nr + 32) ws
      else Some (clz_search w nr))"

definition krhino_find_first_bit :: "u32 list \<Rightarrow> nat option" where
  "krhino_find_first_bit bm = find_first_bit_from 0 bm"

section \<open>Reading a bitmap\<close>

definition bitmap_test :: "u32 list \<Rightarrow> nat \<Rightarrow> bool" where
  "bitmap_test bm nr \<longleftrightarrow> nr div 32 < length bm \<and> bit (bm ! (nr div 32)) (31 - nr mod 32)"

lemma length_bitmap_set [simp]: "length (krhino_bitmap_set bm nr) = length bm"
  by (simp add: krhino_bitmap_set_def)

lemma length_bitmap_clear [simp]: "length (krhino_bitmap_clear bm nr) = length bm"
  by (simp add: krhino_bitmap_clear_def)

lemma bit_BITMAP_MASK: "bit (BITMAP_MASK nr) i \<longleftrightarrow> i = 31 - nr mod 32"
  by (auto simp: BITMAP_MASK_def bit_simps)

lemma bit_index_inj:
  assumes "a div 32 = b div 32"
  shows "(31 - a mod 32 = 31 - b mod 32) = (a = (b::nat))"
proof
  assume "31 - a mod 32 = 31 - b mod 32"
  moreover have "a mod 32 < 32" "b mod 32 < 32" by simp_all
  ultimately have "a mod 32 = b mod 32" by linarith
  then show "a = b" using assms by (metis div_mult_mod_eq)
qed simp

lemma bitmap_test_set:
  "nr div 32 < length bm \<Longrightarrow>
   bitmap_test (krhino_bitmap_set bm nr) i = (i = nr \<or> bitmap_test bm i)"
  by (auto simp: bitmap_test_def krhino_bitmap_set_def BITMAP_WORD_def nth_list_update
      bit_or_iff bit_BITMAP_MASK bit_index_inj)

lemma bitmap_test_clear:
  "nr div 32 < length bm \<Longrightarrow>
   bitmap_test (krhino_bitmap_clear bm nr) i = (i \<noteq> nr \<and> bitmap_test bm i)"
  by (auto simp: bitmap_test_def krhino_bitmap_clear_def BITMAP_WORD_def nth_list_update
      bit_and_iff bit_not_iff bit_BITMAP_MASK bit_index_inj)

section \<open>Counting leading zeros\<close>

text \<open>\<open>top_set k x\<close>: one of the \<open>k\<close> most significant bits is set.\<close>

definition top_set :: "nat \<Rightarrow> u32 \<Rightarrow> bool" where
  "top_set k x \<longleftrightarrow> (\<exists>i. 32 - k \<le> i \<and> i < 32 \<and> bit x i)"

definition leads :: "u32 \<Rightarrow> nat \<Rightarrow> bool" where
  "leads x n \<longleftrightarrow> n < 32 \<and> bit x (31 - n) \<and> (\<forall>i. 31 - n < i \<longrightarrow> \<not> bit x i)"

lemma leads_not_less: "leads x m \<Longrightarrow> leads x n \<Longrightarrow> \<not> m < n"
  by (auto simp: leads_def)

lemma leads_unique: "leads x m \<Longrightarrow> leads x n \<Longrightarrow> m = n"
  using leads_not_less by (metis linorder_neqE_nat)

lemma top_set_32: "x \<noteq> 0 \<Longrightarrow> top_set 32 x"
  unfolding top_set_def using bit_eq_iff [of x 0] by (auto dest: bit_imp_le_length)

lemma mask_zero_iff:
  assumes "k \<le> 32" and "m = push_bit (32 - k) (mask k)"
  shows "(x AND m = 0) = (\<not> top_set k x)"
proof -
  have "bit m i \<longleftrightarrow> 32 - k \<le> i \<and> i < 32" for i
    using assms by (auto simp: bit_simps)
  then show ?thesis
    by (auto simp: bit_eq_iff bit_and_iff top_set_def)
qed

lemma leads_push:
  assumes none: "\<not> top_set k x" and k: "k \<le> 32" and lead: "leads (push_bit k x) n"
  shows "leads x (n + k)"
proof -
  have nk: "n < 32" "k \<le> 31 - n" "bit x (31 - n - k)"
    using lead by (auto simp: leads_def bit_simps)
  have "\<not> bit x i" if "31 - (n + k) < i" for i
  proof (cases "i < 32 - k")
    case True
    then have "\<not> bit (push_bit k x) (i + k)"
      using lead that nk by (auto simp: leads_def)
    with True k show ?thesis by (auto simp: bit_simps)
  next
    case False
    then show ?thesis
      using none bit_imp_le_length [of x i] by (auto simp: top_set_def not_less)
  qed
  with nk show ?thesis by (auto simp: leads_def)
qed

lemma top_set_push:
  assumes "\<not> top_set k x" and "top_set (k + j) x" and "k + j \<le> 32"
  shows "top_set j (push_bit k x)"
proof -
  obtain i where i: "32 - (k + j) \<le> i" "i < 32" "bit x i"
    using assms(2) by (auto simp: top_set_def)
  have "i < 32 - k" using assms(1) i by (auto simp: top_set_def)
  then have "bit (push_bit k x) (i + k)" using i by (auto simp: bit_simps)
  moreover have "32 - j \<le> i + k" "i + k < 32" using i \<open>i < 32 - k\<close> assms(3) by auto
  ultimately show ?thesis unfolding top_set_def by blast
qed

text \<open>What a state of the search says about the word \<open>x\<close> it started from.\<close>

definition clz_inv :: "u32 \<Rightarrow> nat \<Rightarrow> nat \<Rightarrow> u32 \<times> nat \<Rightarrow> bool" where
  "clz_inv x nr k s \<longleftrightarrow> top_set k (fst s) \<and>
     (\<exists>d. snd s = nr + d \<and> (\<forall>q. leads (fst s) q \<longrightarrow> leads x (q + d)))"

lemma clz_inv_start: "x \<noteq> 0 \<Longrightarrow> clz_inv x nr 32 (x, nr)"
  by (auto simp: clz_inv_def top_set_32 intro: exI [of _ 0])

lemma clz_inv_step:
  assumes "clz_inv x nr (k + k) s" and "k + k \<le> 32" and "m = push_bit (32 - k) (mask k)"
  shows "clz_inv x nr k (clz_step m k s)"
proof -
  obtain y n d where s: "s = (y, n)" and y: "top_set (k + k) y" and n: "n = nr + d"
    and lead: "\<And>q. leads y q \<Longrightarrow> leads x (q + d)"
    using assms(1) by (cases s) (auto simp: clz_inv_def)
  show ?thesis
  proof (cases "top_set k y")
    case True
    then have "clz_step m k s = (y, n)"
      using mask_zero_iff [OF _ assms(3)] assms(2) by (simp add: clz_step_def s)
    with True n lead show ?thesis by (auto simp: clz_inv_def)
  next
    case False
    then have st: "clz_step m k s = (push_bit k y, n + k)"
      using mask_zero_iff [OF _ assms(3)] assms(2) by (simp add: clz_step_def s)
    have "leads x (q + (d + k))" if "leads (push_bit k y) q" for q
      using lead [OF leads_push [OF False _ that]] assms(2) by (simp add: ac_simps)
    moreover have "top_set k (push_bit k y)"
      using top_set_push [OF False y assms(2)] .
    ultimately show ?thesis
      using st n by (auto simp: clz_inv_def intro!: exI [of _ "d + k"])
  qed
qed

lemma clz_inv_final:
  assumes "clz_inv x nr 2 s"
  shows "leads x ((if fst s AND 0x80000000 = 0 then snd s + 1 else snd s) - nr)"
    and "nr \<le> (if fst s AND 0x80000000 = 0 then snd s + 1 else snd s)"
proof -
  obtain y n d where s: "s = (y, n)" and y: "top_set 2 y" and n: "n = nr + d"
    and lead: "\<And>q. leads y q \<Longrightarrow> leads x (q + d)"
    using assms by (cases s) (auto simp: clz_inv_def)
  have m: "(y AND 0x80000000 = 0) = (\<not> top_set 1 y)"
    by (rule mask_zero_iff) (simp_all add: mask_eq_exp_minus_1 push_bit_eq_mult)
  have top: "top_set 1 y = bit y 31"
  proof
    assume "top_set 1 y"
    then obtain i where i: "31 \<le> i" "i < 32" "bit y i" by (auto simp: top_set_def)
    then have "i = 31" by linarith
    with i show "bit y 31" by simp
  qed (auto simp: top_set_def)
  have high: "\<not> bit y j" if "31 < j" for j
    using that bit_imp_le_length [of y j] by auto
  have "leads y (if bit y 31 then 0 else 1)"
  proof (cases "bit y 31")
    case True
    then show ?thesis by (simp add: leads_def high)
  next
    case False
    obtain i where "30 \<le> i" "i < 32" "bit y i" using y by (auto simp: top_set_def)
    moreover from this False have "i \<noteq> 31" by metis
    ultimately have "i = 30" by linarith
    moreover have "\<not> bit y j" if "30 < j" for j
      using False that high [of j] by (cases "j = 31") auto
    ultimately show ?thesis using False \<open>bit y i\<close> by (simp add: leads_def)
  qed
  from lead [OF this] show "leads x ((if fst s AND 0x80000000 = 0 then snd s + 1 else snd s) - nr)"
    by (simp add: s n m top add.commute del: One_nat_def split: if_splits)
  show "nr \<le> (if fst s AND 0x80000000 = 0 then snd s + 1 else snd s)"
    by (simp add: s n)
qed

lemma clz_search_leads:
  assumes "x \<noteq> 0"
  shows "leads x (clz_search x nr - nr) \<and> nr \<le> clz_search x nr"
proof -
  let ?s1 = "clz_step 0xFFFF0000 16 (x, nr)"
  let ?s2 = "clz_step 0xFF000000 8 ?s1"
  let ?s3 = "clz_step 0xF0000000 4 ?s2"
  let ?s4 = "clz_step 0xC0000000 2 ?s3"
  note masks = mask_eq_exp_minus_1 push_bit_eq_mult
  have "clz_inv x nr 16 ?s1"
    by (rule clz_inv_step) (simp_all add: masks clz_inv_start assms)
  then have "clz_inv x nr 8 ?s2"
    by (intro clz_inv_step) (simp_all add: masks)
  then have "clz_inv x nr 4 ?s3"
    by (intro clz_inv_step) (simp_all add: masks)
  then have "clz_inv x nr 2 ?s4"
    by (intro clz_inv_step) (simp_all add: masks)
  from clz_inv_final [OF this] show ?thesis
    by (simp add: clz_search_def Let_def)
qed

lemma leads_bitmap:
  assumes "leads w n"
  shows "n < 32" "bitmap_test (w # ws) n" "m < n \<Longrightarrow> \<not> bitmap_test (w # ws) m"
  using assms by (auto simp: leads_def bitmap_test_def)

lemma bitmap_test_Cons_shift: "bitmap_test (w # ws) (32 + n) = bitmap_test ws n"
  by (simp add: bitmap_test_def div_add_self1)

lemma bitmap_test_zero_word: "m < 32 \<Longrightarrow> \<not> bitmap_test (0 # ws) m"
  by (simp add: bitmap_test_def)

definition is_first_bit :: "u32 list \<Rightarrow> nat \<Rightarrow> bool" where
  "is_first_bit bm n \<longleftrightarrow> bitmap_test bm n \<and> (\<forall>m < n. \<not> bitmap_test bm m)"

lemma is_first_bit_unique: "is_first_bit bm m \<Longrightarrow> is_first_bit bm n \<Longrightarrow> m = n"
  unfolding is_first_bit_def by (metis linorder_neqE_nat)

lemma is_first_bit_zero_word: "is_first_bit ws n \<Longrightarrow> is_first_bit (0 # ws) (32 + n)"
proof -
  assume first: "is_first_bit ws n"
  have "\<not> bitmap_test (0 # ws) m" if "m < 32 + n" for m
  proof (cases "m < 32")
    case False
    then obtain k where "m = 32 + k" by (metis le_Suc_ex not_less)
    with that first show ?thesis
      by (simp add: is_first_bit_def bitmap_test_Cons_shift del: add_numeral_left)
  qed (simp add: bitmap_test_zero_word)
  with first show ?thesis
    by (simp add: is_first_bit_def bitmap_test_Cons_shift)
qed

lemma find_first_bit_from_first:
  "find_first_bit_from nr bm = Some n \<Longrightarrow> nr \<le> n \<and> is_first_bit bm (n - nr)"
proof (induction nr bm rule: find_first_bit_from.induct)
  case (2 nr w ws)
  show ?case
  proof (cases "w = 0")
    case True
    with 2 have IH: "nr + 32 \<le> n" "is_first_bit ws (n - (nr + 32))" by auto
    then have "is_first_bit (0 # ws) (32 + (n - (nr + 32)))"
      by (intro is_first_bit_zero_word)
    moreover have "32 + (n - (nr + 32)) = n - nr" using IH(1) by simp
    ultimately show ?thesis using True IH(1) by simp
  next
    case False
    with 2 have n: "n = clz_search w nr" by simp
    from clz_search_leads [OF False, of nr] show ?thesis
      unfolding n is_first_bit_def using leads_bitmap by blast
  qed
qed simp

lemma find_first_bit_from_None:
  "find_first_bit_from nr bm = None \<longleftrightarrow> (\<forall>w \<in> set bm. w = 0)"
  by (induction nr bm rule: find_first_bit_from.induct) auto

lemma bitmap_test_nonzero: "bitmap_test bm n \<Longrightarrow> \<exists>w \<in> set bm. w \<noteq> 0"
  unfolding bitmap_test_def by (metis bit_0_eq bot_apply bot_bool_def nth_mem)

lemma krhino_find_first_bit_eq:
  "krhino_find_first_bit bm = Some n \<longleftrightarrow> is_first_bit bm n"
proof
  assume "krhino_find_first_bit bm = Some n"
  then show "is_first_bit bm n"
    using find_first_bit_from_first [of 0 bm n] by (simp add: krhino_find_first_bit_def)
next
  assume first: "is_first_bit bm n"
  then have "find_first_bit_from 0 bm \<noteq> None"
    unfolding find_first_bit_from_None using bitmap_test_nonzero
    by (metis is_first_bit_def)
  then obtain m where m: "find_first_bit_from 0 bm = Some m" by blast
  with find_first_bit_from_first [OF m] first show "krhino_find_first_bit bm = Some n"
    using is_first_bit_unique by (simp add: krhino_find_first_bit_def)
qed

section \<open>Correctness of the search\<close>

text \<open>
  \<^verbatim>\<open>krhino_find_first_bit\<close> returns exactly the least position whose bit is set, and it runs
  off the end of the array exactly when every unit of the bitmap is zero.
\<close>

theorem find_first_bit_correct:
  "(krhino_find_first_bit bm = Some n \<longleftrightarrow> is_first_bit bm n) \<and>
   (krhino_find_first_bit bm = None \<longleftrightarrow> set bm \<subseteq> {0})"
  using find_first_bit_from_None [of 0 bm] krhino_find_first_bit_eq [of bm n]
  by (auto simp: krhino_find_first_bit_def)

end
