(* ===== verification/KList.thy ===== *)
theory KList
  imports Kernel_Prelude
begin

text \<open>
  \<^verbatim>\<open>kernel/rhino/core/include/k_list.h\<close>: the kernel's intrusive doubly linked rings, at the
  level of their pointers.  The heap maps an address of a \<^verbatim>\<open>klist_t\<close> to its two fields; the
  assignments of each operation are done one after the other, in the order of the source.
  The relation \<open>ring h a xs\<close> says that the ring entered at \<open>a\<close> (a list head, or the current
  item of a ready list) holds the nodes \<open>xs\<close> in the order of the \<open>next\<close> pointers.
  The other theories work with the list \<open>xs\<close>; the lemmas here show that the pointer
  code does to the ring what those list functions do to \<open>xs\<close>.
\<close>

section \<open>The pointer operations\<close>

type_synonym addr = nat

record klist_heap =
  nxt :: "addr \<Rightarrow> addr"
  prv :: "addr \<Rightarrow> addr"

definition klist_init :: "klist_heap \<Rightarrow> addr \<Rightarrow> klist_heap" where
  "klist_init h a =
     (let h = h\<lparr>nxt := (nxt h)(a := a)\<rparr>
      in h\<lparr>prv := (prv h)(a := a)\<rparr>)"

definition is_klist_empty :: "klist_heap \<Rightarrow> addr \<Rightarrow> bool" where
  "is_klist_empty h a \<longleftrightarrow> nxt h a = a"

definition klist_insert :: "klist_heap \<Rightarrow> addr \<Rightarrow> addr \<Rightarrow> klist_heap" where
  "klist_insert h head e =
     (let h = h\<lparr>prv := (prv h)(e := prv h head)\<rparr>;
          h = h\<lparr>nxt := (nxt h)(e := head)\<rparr>;
          h = h\<lparr>nxt := (nxt h)(prv h head := e)\<rparr>
      in h\<lparr>prv := (prv h)(head := e)\<rparr>)"

definition klist_add :: "klist_heap \<Rightarrow> addr \<Rightarrow> addr \<Rightarrow> klist_heap" where
  "klist_add h head e =
     (let h = h\<lparr>prv := (prv h)(e := head)\<rparr>;
          h = h\<lparr>nxt := (nxt h)(e := nxt h head)\<rparr>;
          h = h\<lparr>prv := (prv h)(nxt h head := e)\<rparr>
      in h\<lparr>nxt := (nxt h)(head := e)\<rparr>)"

definition klist_rm :: "klist_heap \<Rightarrow> addr \<Rightarrow> klist_heap" where
  "klist_rm h e =
     (let h = h\<lparr>nxt := (nxt h)(prv h e := nxt h e)\<rparr>
      in h\<lparr>prv := (prv h)(nxt h e := prv h e)\<rparr>)"

definition klist_rm_init :: "klist_heap \<Rightarrow> addr \<Rightarrow> klist_heap" where
  "klist_rm_init h e =
     (let h = klist_rm h e;
          h = h\<lparr>prv := (prv h)(e := e)\<rparr>
      in h\<lparr>nxt := (nxt h)(e := e)\<rparr>)"

text \<open>
  The search loop of the three sorted insertions,
  \<^verbatim>\<open>for (q = head->next; q != head; q = q->next) if (P q) break;\<close>
  with a bound on the number of iterations; \<open>None\<close> when the bound is used up.
\<close>

fun klist_find :: "nat \<Rightarrow> klist_heap \<Rightarrow> addr \<Rightarrow> (addr \<Rightarrow> bool) \<Rightarrow> addr \<Rightarrow> addr option" where
  "klist_find fuel h head P q =
     (if q = head then Some q
      else if P q then Some q
      else case fuel of 0 \<Rightarrow> None | Suc n \<Rightarrow> klist_find n h head P (nxt h q))"

definition klist_insert_sorted :: "nat \<Rightarrow> klist_heap \<Rightarrow> addr \<Rightarrow> (addr \<Rightarrow> bool) \<Rightarrow> addr \<Rightarrow> klist_heap option" where
  "klist_insert_sorted fuel h head P e =
     (case klist_find fuel h head P (nxt h head) of
        None \<Rightarrow> None | Some q \<Rightarrow> Some (klist_insert h q e))"

section \<open>Rings\<close>

primrec links :: "klist_heap \<Rightarrow> addr \<Rightarrow> addr list \<Rightarrow> addr \<Rightarrow> bool" where
  "links h u [] v \<longleftrightarrow> nxt h u = v \<and> prv h v = u"
| "links h u (x # xs) v \<longleftrightarrow> nxt h u = x \<and> prv h x = u \<and> links h x xs v"

definition ring :: "klist_heap \<Rightarrow> addr \<Rightarrow> addr list \<Rightarrow> bool" where
  "ring h a xs \<longleftrightarrow> distinct (a # xs) \<and> links h a xs a"

lemma links_append:
  "links h u (xs @ y # ys) v \<longleftrightarrow> links h u xs y \<and> links h y ys v"
  by (induction xs arbitrary: u) auto

lemma links_nxt: "links h u xs v \<Longrightarrow> nxt h u = hd (xs @ [v])"
  by (cases xs) auto

lemma links_prv: "links h u xs v \<Longrightarrow> prv h v = last (u # xs)"
  by (induction xs arbitrary: u) auto

text \<open>A path only depends on the \<open>next\<close> of all nodes but the last, the \<open>prev\<close> of all but the first.\<close>

lemma links_frame:
  assumes "\<And>x. x \<in> set (u # xs) \<Longrightarrow> nxt h' x = nxt h x"
    and "\<And>x. x \<in> set (xs @ [v]) \<Longrightarrow> prv h' x = prv h x"
  shows "links h' u xs v = links h u xs v"
  using assms by (induction xs arbitrary: u) auto

lemma ring_rotate: "ring h a (x # xs) \<longleftrightarrow> ring h x (xs @ [a])"
  by (auto simp: ring_def links_append)

lemma ring_init: "ring (klist_init h a) a []"
  by (simp add: ring_def klist_init_def)

lemma ring_is_empty: "ring h a xs \<Longrightarrow> is_klist_empty h a = (xs = [])"
  by (cases xs) (auto simp: ring_def is_klist_empty_def)

lemma ring_nxt: "ring h a xs \<Longrightarrow> nxt h a = hd (xs @ [a])"
  by (simp add: ring_def links_nxt)

text \<open>Linking \<open>e\<close> between two neighbours \<open>p\<close> and \<open>q\<close> of a path, and unlinking it.\<close>

definition splice :: "klist_heap \<Rightarrow> addr \<Rightarrow> addr \<Rightarrow> addr \<Rightarrow> klist_heap" where
  "splice h p e q = h\<lparr>nxt := (nxt h)(e := q, p := e), prv := (prv h)(e := p, q := e)\<rparr>"

lemma ring_splice_tail:
  assumes "ring h a xs" and "e \<notin> set (a # xs)"
  shows "ring (splice h (last (a # xs)) e a) a (xs @ [e])"
proof -
  let ?h = "splice h (last (a # xs)) e a"
  have prv_a: "prv h a = last (a # xs)"
    using assms(1) links_prv [of h a xs a] by (simp add: ring_def)
  show ?thesis
  proof (cases xs rule: rev_cases)
    case Nil
    with assms show ?thesis by (auto simp: ring_def splice_def)
  next
    case (snoc ys y)
    have "links ?h a ys y = links h a ys y"
      by (rule links_frame) (use assms snoc in \<open>auto simp: splice_def ring_def\<close>)
    then show ?thesis
      using assms snoc by (auto simp: ring_def links_append splice_def)
  qed
qed

lemma klist_insert_splice:
  assumes "prv h q = p" and "e \<noteq> p" and "e \<noteq> q"
  shows "klist_insert h q e = splice h p e q"
  using assms by (auto simp: klist_insert_def splice_def Let_def fun_upd_twist)

lemma klist_add_splice:
  assumes "nxt h p = q" and "e \<noteq> p" and "e \<noteq> q"
  shows "klist_add h p e = splice h p e q"
  using assms by (auto simp: klist_add_def splice_def Let_def fun_upd_twist)

lemma ring_klist_insert_tail:
  assumes "ring h a xs" and "e \<notin> set (a # xs)"
  shows "ring (klist_insert h a e) a (xs @ [e])"
proof -
  have "prv h a = last (a # xs)" using assms(1) links_prv [of h a xs a] by (simp add: ring_def)
  then have "klist_insert h a e = splice h (last (a # xs)) e a"
    using assms(2) by (intro klist_insert_splice) (auto split: if_splits)
  with ring_splice_tail [OF assms] show ?thesis by simp
qed

text \<open>The same ring entered at any of its nodes.\<close>

lemma ring_enter: "ring h a (us @ q # vs) \<longleftrightarrow> ring h q (vs @ a # us)"
proof (induction us arbitrary: a vs)
  case Nil
  then show ?case by (simp add: ring_rotate)
next
  case (Cons u us)
  have "ring h a ((u # us) @ q # vs) = ring h u (us @ q # (vs @ [a]))"
    by (simp add: ring_rotate)
  also have "\<dots> = ring h q ((vs @ [a]) @ u # us)"
    by (rule Cons.IH)
  finally show ?case by simp
qed

lemma ring_klist_insert_before:
  assumes "ring h a (us @ q # vs)" and "e \<notin> set (a # us @ q # vs)"
  shows "ring (klist_insert h q e) a (us @ e # q # vs)"
proof -
  have "ring h q (vs @ a # us)" using assms(1) by (simp add: ring_enter)
  then have "ring (klist_insert h q e) q ((vs @ a # us) @ [e])"
    by (rule ring_klist_insert_tail) (use assms(2) in auto)
  then have "ring (klist_insert h q e) q (vs @ a # (us @ [e]))" by simp
  then have "ring (klist_insert h q e) a ((us @ [e]) @ q # vs)"
    using ring_enter [of "klist_insert h q e" a "us @ [e]" q vs] by simp
  then show ?thesis by simp
qed

lemma ring_klist_add:
  assumes "ring h a xs" and "e \<notin> set (a # xs)"
  shows "ring (klist_add h a e) a (e # xs)"
proof (cases xs)
  case Nil
  with assms show ?thesis by (auto simp: ring_def klist_add_def Let_def)
next
  case (Cons x ys)
  with assms have r: "ring h a ([] @ x # ys)" by simp
  then have n: "nxt h a = x" "prv h x = a" by (auto simp: ring_def)
  have "klist_add h a e = klist_insert h x e"
    using n assms Cons by (simp add: klist_add_splice [of h a x e] klist_insert_splice [of h x a e])
  with ring_klist_insert_before [OF r, of e] assms(2) Cons show ?thesis by simp
qed

lemma ring_klist_rm_next:
  assumes "ring h a (e # xs)"
  shows "ring (klist_rm h e) a xs"
proof -
  have e: "nxt h a = e" "prv h e = a" "links h e xs a" and d: "distinct (a # e # xs)"
    using assms by (auto simp: ring_def)
  have nxt_e: "nxt h e = hd (xs @ [a])" using e(3) by (rule links_nxt)
  show ?thesis
  proof (cases xs)
    case Nil
    with e nxt_e d show ?thesis by (simp add: ring_def klist_rm_def)
  next
    case (Cons x ys)
    have "links (klist_rm h e) x ys a = links h x ys a"
      by (rule links_frame) (use e nxt_e d Cons in \<open>auto simp: klist_rm_def\<close>)
    with e nxt_e d Cons show ?thesis by (simp add: ring_def klist_rm_def)
  qed
qed

lemma ring_klist_rm:
  assumes "ring h a (us @ e # vs)"
  shows "ring (klist_rm h e) a (us @ vs)"
proof (cases us rule: rev_cases)
  case Nil
  with assms ring_klist_rm_next show ?thesis by simp
next
  case (snoc ws u)
  with assms have "ring h a (ws @ u # (e # vs))" by simp
  then have "ring h u (e # vs @ a # ws)" using ring_enter [of h a ws u "e # vs"] by simp
  then have "ring (klist_rm h e) u (vs @ a # ws)" by (rule ring_klist_rm_next)
  then have "ring (klist_rm h e) a (ws @ u # vs)"
    using ring_enter [of "klist_rm h e" a ws u vs] by simp
  with snoc show ?thesis by simp
qed

text \<open>An operation on one ring leaves every ring that shares no node with it as it is.\<close>

lemma ring_frame:
  assumes "\<And>x. x \<in> set (b # ys) \<Longrightarrow> nxt h' x = nxt h x \<and> prv h' x = prv h x"
  shows "ring h' b ys = ring h b ys"
  unfolding ring_def using assms links_frame [of b ys h' h b] by auto

lemma ring_neighbours:
  assumes "ring h a xs" and "e \<in> set xs"
  shows "nxt h e \<in> set (a # xs) \<and> prv h e \<in> set (a # xs)"
proof -
  obtain us vs where xs: "xs = us @ e # vs" using assms(2) by (meson split_list)
  then have "links h a us e" "links h e vs a" using assms(1) by (auto simp: ring_def links_append)
  from links_prv [OF this(1)] links_nxt [OF this(2)]
  have "prv h e = last (a # us)" "nxt h e = hd (vs @ [a])" by blast+
  then show ?thesis using xs by (cases vs) (auto split: if_splits)
qed

lemma klist_rm_frame:
  assumes "ring h a xs" and "e \<in> set xs" and "set (b # ys) \<inter> set (a # xs) = {}"
  shows "ring (klist_rm h e) b ys = ring h b ys"
proof (rule ring_frame)
  fix x assume "x \<in> set (b # ys)"
  with assms ring_neighbours [OF assms(1,2)] have "x \<noteq> nxt h e" "x \<noteq> prv h e" by auto
  moreover have "nxt (h\<lparr>nxt := (nxt h)(prv h e := nxt h e)\<rparr>) e = nxt h e" by simp
  ultimately show "nxt (klist_rm h e) x = nxt h x \<and> prv (klist_rm h e) x = prv h x"
    by (simp add: klist_rm_def Let_def)
qed

section \<open>The interface the kernel relies on\<close>

text \<open>
  What a user of the rings needs: \<open>ins\<close> links a new node in front of a node of the ring or,
  given the entry point itself, at the end; \<open>del\<close> unlinks a node.
\<close>

locale intrusive_list =
  fixes rep :: "'h \<Rightarrow> 'a \<Rightarrow> 'a list \<Rightarrow> bool"
    and ins :: "'h \<Rightarrow> 'a \<Rightarrow> 'a \<Rightarrow> 'h"
    and del :: "'h \<Rightarrow> 'a \<Rightarrow> 'h"
  assumes rep_distinct: "rep h a xs \<Longrightarrow> distinct (a # xs)"
    and rep_ins_tail: "rep h a xs \<Longrightarrow> e \<notin> set (a # xs) \<Longrightarrow> rep (ins h a e) a (xs @ [e])"
    and rep_ins_before: "rep h a (us @ q # vs) \<Longrightarrow> e \<notin> set (a # us @ q # vs) \<Longrightarrow>
      rep (ins h q e) a (us @ e # q # vs)"
    and rep_del_split: "rep h a (us @ e # vs) \<Longrightarrow> rep (del h e) a (us @ vs)"
begin

lemma rep_del:
  assumes "rep h a xs" and "e \<in> set xs"
  shows "rep (del h e) a (remove1 e xs)"
proof -
  obtain us vs where xs: "xs = us @ e # vs" and "e \<notin> set us"
    using assms(2) by (meson split_list_first)
  then have "remove1 e xs = us @ vs" by (simp add: remove1_append)
  with assms(1) xs rep_del_split show ?thesis by simp
qed

lemma rep_ins_sorted:
  assumes "rep h a xs" and "e \<notin> set (a # xs)"
    and "q = hd (dropWhile (\<lambda>y. \<not> P y) xs @ [a])"
  shows "rep (ins h q e) a (insert_before P e xs)"
proof (cases "dropWhile (\<lambda>y. \<not> P y) xs")
  case Nil
  then have "takeWhile (\<lambda>y. \<not> P y) xs = xs"
    by (metis append_Nil2 takeWhile_dropWhile_id)
  then have "insert_before P e xs = xs @ [e]" and "q = a"
    using Nil assms(3) by (simp_all only: insert_before_append append_Nil list.sel)
  with rep_ins_tail [OF assms(1,2)] show ?thesis by simp
next
  case (Cons y ys)
  then have xs: "xs = takeWhile (\<lambda>y. \<not> P y) xs @ y # ys"
    by (metis takeWhile_dropWhile_id)
  with Cons assms rep_ins_before [of h a "takeWhile (\<lambda>y. \<not> P y) xs" y ys e] show ?thesis
    by (simp add: insert_before_append)
qed

end

interpretation kl: intrusive_list ring klist_insert klist_rm
proof
  show "distinct (a # xs)" if "ring h a xs" for h a xs
    using that by (simp add: ring_def)
qed (simp_all add: ring_klist_insert_tail ring_klist_insert_before ring_klist_rm)

section \<open>The sorted insertion loop refines insertion into the list\<close>

lemma klist_find_enough:
  assumes "links h u xs head" and "head \<notin> set xs" and "length xs \<le> fuel"
  shows "klist_find fuel h head P (nxt h u) = Some (hd (dropWhile (\<lambda>y. \<not> P y) xs @ [head]))"
  using assms
proof (induction xs arbitrary: u fuel)
  case Nil
  then show ?case by simp
next
  case (Cons x xs)
  from Cons.prems(3) obtain n where fuel: "fuel = Suc n" and "length xs \<le> n"
    by (cases fuel) auto
  with Cons.IH [of x n] Cons.prems show ?case by auto
qed

lemma klist_insert_sorted_refines:
  assumes "ring h head xs" and "e \<notin> set (head # xs)" and "length xs \<le> fuel"
  shows "\<exists>h'. klist_insert_sorted fuel h head P e = Some h' \<and>
           ring h' head (insert_before P e xs)"
proof -
  let ?q = "hd (dropWhile (\<lambda>y. \<not> P y) xs @ [head])"
  have "klist_find fuel h head P (nxt h head) = Some ?q"
    using assms by (intro klist_find_enough) (auto simp: ring_def)
  then have "klist_insert_sorted fuel h head P e = Some (klist_insert h ?q e)"
    by (simp add: klist_insert_sorted_def del: klist_find.simps)
  with kl.rep_ins_sorted [OF assms(1,2) refl] show ?thesis by blast
qed

text \<open>
  The sorted insertion loop of the kernel (walk from the head to the first element that
  passes the test, link the new element before it) implements insertion into the abstract list:
  the loop stops, and the resulting pointer ring is well-linked and holds the new list.
\<close>

theorem klist_sorted_insertion:
  assumes "ring h head xs" and "e \<notin> set (head # xs)" and "length xs \<le> fuel"
  shows "\<exists>h'. klist_insert_sorted fuel h head P e = Some h' \<and>
           ring h' head (takeWhile (\<lambda>y. \<not> P y) xs @ e # dropWhile (\<lambda>y. \<not> P y) xs)"
  using klist_insert_sorted_refines [OF assms] by (simp only: insert_before_append)

theorem klist_sorted_insertion_witness:
  "\<exists>h'. klist_insert_sorted 1 (klist_insert (klist_init \<lparr>nxt = id, prv = id\<rparr> 0) 0 5) 0 (\<lambda>y. 3 < y) 3 = Some h' \<and>
     ring h' 0 [3, 5]"
proof -
  have "ring (klist_insert (klist_init \<lparr>nxt = id, prv = id\<rparr> 0) 0 5) 0 [5]"
    using ring_klist_insert_tail [OF ring_init, of 5 0] by simp
  from klist_sorted_insertion [OF this, of 3 1 "\<lambda>y. 3 < y"] show ?thesis by simp
qed

end
