(* ===== verification/Kernel_Types.thy ===== *)
theory Kernel_Types
  imports Kernel_Prelude
begin

text \<open>
  The enumerations and constants that all kernel components share:
  \<^verbatim>\<open>k_err.h\<close> (return codes), \<^verbatim>\<open>k_obj.h\<close> (blocking policies, wake-up reasons, object
  types), \<^verbatim>\<open>k_task.h\<close> (task states) and the configuration of the TG7100B board
  (\<^verbatim>\<open>board/tg7100b/k_config.h\<close>).
\<close>

datatype kstat =
    RHINO_SUCCESS | RHINO_SYS_FATAL_ERR | RHINO_SYS_SP_ERR | RHINO_RUNNING | RHINO_STOPPED
  | RHINO_INV_PARAM | RHINO_NULL_PTR | RHINO_INV_ALIGN | RHINO_KOBJ_TYPE_ERR | RHINO_KOBJ_DEL_ERR
  | RHINO_KOBJ_DOCKER_EXIST | RHINO_KOBJ_BLK | RHINO_KOBJ_SET_FULL | RHINO_NOTIFY_FUNC_EXIST
  | RHINO_MM_POOL_SIZE_ERR | RHINO_MM_ALLOC_SIZE_ERR | RHINO_MM_FREE_ADDR_ERR | RHINO_MM_CORRUPT_ERR
  | RHINO_DYN_MEM_PROC_ERR | RHINO_NO_MEM | RHINO_RINGBUF_FULL | RHINO_RINGBUF_EMPTY
  | RHINO_SCHED_DISABLE | RHINO_SCHED_ALREADY_ENABLED | RHINO_SCHED_LOCK_COUNT_OVF | RHINO_INV_SCHED_WAY
  | RHINO_TASK_INV_STACK_SIZE | RHINO_TASK_NOT_SUSPENDED | RHINO_TASK_DEL_NOT_ALLOWED
  | RHINO_TASK_SUSPEND_NOT_ALLOWED | RHINO_SUSPENDED_COUNT_OVF | RHINO_BEYOND_MAX_PRI
  | RHINO_PRI_CHG_NOT_ALLOWED | RHINO_INV_TASK_STATE | RHINO_IDLE_TASK_EXIST
  | RHINO_NO_PEND_WAIT | RHINO_BLK_ABORT | RHINO_BLK_TIMEOUT | RHINO_BLK_DEL | RHINO_BLK_INV_STATE
  | RHINO_BLK_POOL_SIZE_ERR | RHINO_TIMER_STATE_INV | RHINO_NO_THIS_EVENT_OPT
  | RHINO_BUF_QUEUE_INV_SIZE | RHINO_BUF_QUEUE_SIZE_ZERO | RHINO_BUF_QUEUE_FULL
  | RHINO_BUF_QUEUE_MSG_SIZE_OVERFLOW | RHINO_QUEUE_FULL | RHINO_QUEUE_NOT_FULL
  | RHINO_SEM_OVF | RHINO_SEM_TASK_WAITING
  | RHINO_MUTEX_NOT_RELEASED_BY_OWNER | RHINO_MUTEX_OWNER_NESTED | RHINO_MUTEX_NESTED_OVF
  | RHINO_NOT_CALLED_BY_INTRPT | RHINO_TRY_AGAIN
  | RHINO_WORKQUEUE_EXIST | RHINO_WORKQUEUE_NOT_EXIST | RHINO_WORKQUEUE_WORK_EXIST
  | RHINO_WORKQUEUE_BUSY | RHINO_WORKQUEUE_WORK_RUNNING
  | RHINO_TASK_STACK_OVF | RHINO_INTRPT_STACK_OVF

datatype task_stat =
  K_SEED | K_RDY | K_PEND | K_SUSPENDED | K_PEND_SUSPENDED | K_SLEEP | K_SLEEP_SUSPENDED | K_DELETED

datatype blk_policy_t = BLK_POLICY_PRI | BLK_POLICY_FIFO

datatype blk_state_t = BLK_FINISH | BLK_ABORT | BLK_TIMEOUT | BLK_DEL | BLK_INVALID

datatype kobj_type =
    RHINO_OBJ_TYPE_NONE | RHINO_SEM_OBJ_TYPE | RHINO_MUTEX_OBJ_TYPE | RHINO_QUEUE_OBJ_TYPE
  | RHINO_BUF_QUEUE_OBJ_TYPE | RHINO_TIMER_OBJ_TYPE | RHINO_EVENT_OBJ_TYPE | RHINO_MM_OBJ_TYPE

text \<open>\<open>mm_alloc_flag\<close>: 0 after \<^verbatim>\<open>memset\<close>, \<open>K_OBJ_STATIC_ALLOC\<close> or \<open>K_OBJ_DYN_ALLOC\<close>.\<close>

datatype alloc_flag = K_OBJ_NO_ALLOC | K_OBJ_STATIC_ALLOC | K_OBJ_DYN_ALLOC

datatype sched_policy_t = KSCHED_FIFO | KSCHED_RR

text \<open>Addresses of task control blocks and of kernel objects.\<close>

type_synonym tid = nat
type_synonym oid = nat

abbreviation (input) RHINO_CONFIG_PRI_MAX :: nat where "RHINO_CONFIG_PRI_MAX \<equiv> 62"
abbreviation (input) RHINO_IDLE_PRI :: nat where "RHINO_IDLE_PRI \<equiv> 61"
abbreviation (input) SCHED_MAX_LOCK_COUNT :: u8 where "SCHED_MAX_LOCK_COUNT \<equiv> 200"
abbreviation (input) RHINO_CONFIG_TIME_SLICE_DEFAULT :: u32 where "RHINO_CONFIG_TIME_SLICE_DEFAULT \<equiv> 50"
abbreviation (input) RHINO_CONFIG_TICKS_PER_SECOND :: u64 where "RHINO_CONFIG_TICKS_PER_SECOND \<equiv> 1000"
abbreviation (input) RHINO_NO_WAIT :: tick_t where "RHINO_NO_WAIT \<equiv> 0"
abbreviation (input) RHINO_WAIT_FOREVER :: tick_t where "RHINO_WAIT_FOREVER \<equiv> - 1"
abbreviation (input) RHINO_CONFIG_TASK_INFO_NUM :: nat where "RHINO_CONFIG_TASK_INFO_NUM \<equiv> 2"

end
