(* ===== verification/Ready_Queue.thy ===== *)
theory Ready_Queue
  imports Kernel_Types Bitmap
begin

text \<open>
  The ready queue of \<^verbatim>\<open>kernel/rhino/core/k_sched.c\<close>.  \<open>cur_list_item rq p\<close> is the ring of
  ready tasks of priority \<open>p\<close>, read from the task that \<^verbatim>\<open>cur_list_item[p]\<close> points to
  (the empty list is the NULL pointer); \<open>KList\<close> relates the two views.  An operation that
  would dereference NULL, or that would run past the end of the bitmap, is \<open>None\<close>.
\<close>

section \<open>The operations\<close>

record runqueue =
  cur_list_item :: "nat \<Rightarrow> tid list"
  task_bit_map :: "u32 list"
  highest_pri :: nat

text \<open>
  \<^verbatim>\<open>runqueue_init\<close> does not touch the bitmap: \<^verbatim>\<open>g_ready_queue\<close> is a zero-initialised global.
\<close>

definition runqueue_init :: "runqueue \<Rightarrow> runqueue" where
  "runqueue_init rq = rq\<lparr>highest_pri := RHINO_CONFIG_PRI_MAX,
     cur_list_item := (\<lambda>p. if p < RHINO_CONFIG_PRI_MAX then [] else cur_list_item rq p)\<rparr>"

definition ready_list_init :: "runqueue \<Rightarrow> tid \<Rightarrow> nat \<Rightarrow> runqueue" where
  "ready_list_init rq t prio =
     (let rq = rq\<lparr>cur_list_item := (cur_list_item rq)(prio := [t])\<rparr>;
          rq = rq\<lparr>task_bit_map := krhino_bitmap_set (task_bit_map rq) prio\<rparr>
      in if prio < highest_pri rq then rq\<lparr>highest_pri := prio\<rparr> else rq)"

definition is_ready_list_empty :: "runqueue \<Rightarrow> nat \<Rightarrow> bool" where
  "is_ready_list_empty rq prio \<longleftrightarrow> cur_list_item rq prio = []"

definition ready_list_add_tail :: "runqueue \<Rightarrow> tid \<Rightarrow> nat \<Rightarrow> runqueue" where
  "ready_list_add_tail rq t prio =
     (if is_ready_list_empty rq prio then ready_list_init rq t prio
      else rq\<lparr>cur_list_item := (cur_list_item rq)(prio := cur_list_item rq prio @ [t])\<rparr>)"

definition ready_list_add_head :: "runqueue \<Rightarrow> tid \<Rightarrow> nat \<Rightarrow> runqueue" where
  "ready_list_add_head rq t prio =
     (if is_ready_list_empty rq prio then ready_list_init rq t prio
      else rq\<lparr>cur_list_item := (cur_list_item rq)(prio := t # cur_list_item rq prio)\<rparr>)"

text \<open>\<open>act_prio\<close> is the priority of the running task.\<close>

definition ready_list_add :: "nat \<Rightarrow> runqueue \<Rightarrow> tid \<Rightarrow> nat \<Rightarrow> runqueue" where
  "ready_list_add act_prio rq t prio =
     (if prio = act_prio then ready_list_add_tail rq t prio else ready_list_add_head rq t prio)"

definition ready_list_rm :: "runqueue \<Rightarrow> tid \<Rightarrow> nat \<Rightarrow> runqueue option" where
  "ready_list_rm rq t pri =
     (case cur_list_item rq pri of
        [] \<Rightarrow> None
      | [x] \<Rightarrow>
          let rq = rq\<lparr>cur_list_item := (cur_list_item rq)(pri := [])\<rparr>;
              rq = rq\<lparr>task_bit_map := krhino_bitmap_clear (task_bit_map rq) pri\<rparr>
          in if pri \<noteq> highest_pri rq then Some rq
             else (case krhino_find_first_bit (task_bit_map rq) of
                     None \<Rightarrow> None
                   | Some i \<Rightarrow> Some (rq\<lparr>highest_pri := i\<rparr>))
      | x # y # zs \<Rightarrow>
          Some (rq\<lparr>cur_list_item := (cur_list_item rq)(pri := remove1 t (x # y # zs))\<rparr>))"

definition ready_list_head_to_tail :: "runqueue \<Rightarrow> nat \<Rightarrow> runqueue option" where
  "ready_list_head_to_tail rq prio =
     (case cur_list_item rq prio of
        [] \<Rightarrow> None
      | x # xs \<Rightarrow> Some (rq\<lparr>cur_list_item := (cur_list_item rq)(prio := xs @ [x])\<rparr>))"

definition preferred_cpu_ready_task_get :: "runqueue \<Rightarrow> tid option" where
  "preferred_cpu_ready_task_get rq =
     (case cur_list_item rq (highest_pri rq) of [] \<Rightarrow> None | x # xs \<Rightarrow> Some x)"

section \<open>Well-formed ready queues\<close>

definition rq_wf :: "runqueue \<Rightarrow> bool" where
  "rq_wf rq \<longleftrightarrow>
     length (task_bit_map rq) = 2 \<and>
     (\<forall>p. bitmap_test (task_bit_map rq) p \<longleftrightarrow> cur_list_item rq p \<noteq> []) \<and>
     (\<forall>p \<ge> RHINO_CONFIG_PRI_MAX. cur_list_item rq p = []) \<and>
     highest_pri rq \<le> RHINO_CONFIG_PRI_MAX \<and>
     (\<forall>p < highest_pri rq. cur_list_item rq p = []) \<and>
     (highest_pri rq < RHINO_CONFIG_PRI_MAX \<longrightarrow> cur_list_item rq (highest_pri rq) \<noteq> [])"

lemma rq_wfD:
  assumes "rq_wf rq"
  shows "length (task_bit_map rq) = 2"
    and "bitmap_test (task_bit_map rq) p = (cur_list_item rq p \<noteq> [])"
    and "RHINO_CONFIG_PRI_MAX \<le> p \<Longrightarrow> cur_list_item rq p = []"
    and "highest_pri rq \<le> RHINO_CONFIG_PRI_MAX"
    and "p < highest_pri rq \<Longrightarrow> cur_list_item rq p = []"
    and "highest_pri rq < RHINO_CONFIG_PRI_MAX \<Longrightarrow> cur_list_item rq (highest_pri rq) \<noteq> []"
  using assms by (auto simp: rq_wf_def)

lemma rq_wf_nonempty_bounds:
  assumes "rq_wf rq" and "cur_list_item rq p \<noteq> []"
  shows "p < RHINO_CONFIG_PRI_MAX" and "highest_pri rq \<le> p"
  using assms by (meson not_le rq_wfD(3,5))+

lemma rq_wf_init:
  assumes "rq_wf rq" and "p < RHINO_CONFIG_PRI_MAX" and "cur_list_item rq p = []"
  shows "rq_wf (ready_list_init rq t p)"
proof -
  have "p div 32 < 2" using assms(2) by simp
  with assms show ?thesis
    unfolding rq_wf_def ready_list_init_def Let_def by (auto simp: bitmap_test_set)
qed

lemma rq_wf_same_shape:
  assumes "rq_wf rq" and "\<And>q. (f q = []) = (cur_list_item rq q = [])"
  shows "rq_wf (rq\<lparr>cur_list_item := f\<rparr>)"
  using assms by (simp add: rq_wf_def)

lemma level_ready_list_add_tail:
  "cur_list_item (ready_list_add_tail rq t p) = (cur_list_item rq)(p := cur_list_item rq p @ [t])"
  by (auto simp: ready_list_add_tail_def is_ready_list_empty_def ready_list_init_def Let_def)

lemma level_ready_list_add_head:
  "cur_list_item (ready_list_add_head rq t p) = (cur_list_item rq)(p := t # cur_list_item rq p)"
  by (auto simp: ready_list_add_head_def is_ready_list_empty_def ready_list_init_def Let_def)

lemma rq_wf_add_tail:
  "rq_wf rq \<Longrightarrow> p < RHINO_CONFIG_PRI_MAX \<Longrightarrow> rq_wf (ready_list_add_tail rq t p)"
  by (auto simp: ready_list_add_tail_def is_ready_list_empty_def rq_wf_init
      intro!: rq_wf_same_shape split: if_splits)

lemma rq_wf_add_head:
  "rq_wf rq \<Longrightarrow> p < RHINO_CONFIG_PRI_MAX \<Longrightarrow> rq_wf (ready_list_add_head rq t p)"
  by (auto simp: ready_list_add_head_def is_ready_list_empty_def rq_wf_init
      intro!: rq_wf_same_shape split: if_splits)

lemma rq_first_bit:
  assumes "rq_wf rq" and "\<exists>p. cur_list_item rq p \<noteq> []"
  shows "is_first_bit (task_bit_map rq) (highest_pri rq)"
proof -
  obtain p where "cur_list_item rq p \<noteq> []" using assms(2) by blast
  then have "highest_pri rq < RHINO_CONFIG_PRI_MAX"
    using rq_wf_nonempty_bounds [OF assms(1)] by (meson le_less_trans)
  then show ?thesis
    using rq_wfD [OF assms(1)] by (simp add: is_first_bit_def)
qed

lemma ready_list_rm_last:
  assumes wf: "rq_wf rq" and single: "cur_list_item rq p = [x]"
    and other: "q \<noteq> p" "cur_list_item rq q \<noteq> []"
  shows "\<exists>rq'. ready_list_rm rq t p = Some rq' \<and> rq_wf rq' \<and>
           cur_list_item rq' = (cur_list_item rq)(p := [])"
proof -
  let ?bm = "krhino_bitmap_clear (task_bit_map rq) p"
  have p: "p < RHINO_CONFIG_PRI_MAX" "highest_pri rq \<le> p"
    using rq_wf_nonempty_bounds [OF wf] single by auto
  have q: "q < RHINO_CONFIG_PRI_MAX" "highest_pri rq \<le> q"
    using rq_wf_nonempty_bounds [OF wf other(2)] .
  have bm: "bitmap_test ?bm i = (i \<noteq> p \<and> cur_list_item rq i \<noteq> [])" for i
    using rq_wfD(1,2) [OF wf] p(1) by (simp add: bitmap_test_clear)
  show ?thesis
  proof (cases "p = highest_pri rq")
    case False
    then show ?thesis
      using single wf p bm by (auto simp: ready_list_rm_def rq_wf_def)
  next
    case True
    define i where "i = (LEAST i. bitmap_test ?bm i)"
    have "bitmap_test ?bm q" using bm other by simp
    then have "is_first_bit ?bm i"
      unfolding is_first_bit_def i_def by (metis LeastI not_less_Least)
    moreover from this have "krhino_find_first_bit ?bm = Some i"
      by (simp add: krhino_find_first_bit_eq)
    moreover have "i < RHINO_CONFIG_PRI_MAX"
      using \<open>is_first_bit ?bm i\<close> bm rq_wfD(3) [OF wf] by (meson is_first_bit_def not_le)
    ultimately show ?thesis
      using single wf bm True
      by (auto simp: ready_list_rm_def rq_wf_def is_first_bit_def)
  qed
qed

lemma ready_list_rm_ok:
  assumes wf: "rq_wf rq" and d: "distinct (cur_list_item rq p)" and x: "x \<in> set (cur_list_item rq p)"
    and other: "\<exists>q y. y \<in> set (cur_list_item rq q) \<and> (y, q) \<noteq> (x, p)"
  shows "\<exists>rq'. ready_list_rm rq x p = Some rq' \<and> rq_wf rq' \<and>
           cur_list_item rq' = (cur_list_item rq)(p := remove1 x (cur_list_item rq p))"
proof (cases "cur_list_item rq p = [x]")
  case True
  obtain q y where "y \<in> set (cur_list_item rq q)" "(y, q) \<noteq> (x, p)" using other by blast
  moreover from this True have "q \<noteq> p" by auto
  ultimately have "q \<noteq> p" "y \<in> set (cur_list_item rq q)" by simp_all
  then have "cur_list_item rq q \<noteq> []" by auto
  with ready_list_rm_last [OF wf True \<open>q \<noteq> p\<close>] True show ?thesis by simp
next
  case False
  then obtain a b cs where l: "cur_list_item rq p = a # b # cs"
    using x by (cases "cur_list_item rq p" rule: remdups_adj.cases) auto
  have "remove1 x (cur_list_item rq p) \<noteq> []"
    using remove1_nonempty [OF d x False] .
  then have "rq_wf (rq\<lparr>cur_list_item := (cur_list_item rq)(p := remove1 x (cur_list_item rq p))\<rparr>)"
    using l by (intro rq_wf_same_shape [OF wf]) auto
  with l show ?thesis by (simp add: ready_list_rm_def)
qed

lemma ready_list_rotate_ok:
  assumes "rq_wf rq" and "cur_list_item rq p \<noteq> []"
  shows "\<exists>rq'. ready_list_head_to_tail rq p = Some rq' \<and> rq_wf rq' \<and>
           cur_list_item rq' = (cur_list_item rq)(p := rotate1 (cur_list_item rq p))"
  using assms
  by (auto simp: ready_list_head_to_tail_def neq_Nil_conv intro!: rq_wf_same_shape
      split: if_splits)

lemma preferred_ok:
  assumes "rq_wf rq" and "cur_list_item rq q \<noteq> []"
  shows "\<exists>p x xs. preferred_cpu_ready_task_get rq = Some x \<and> cur_list_item rq p = x # xs \<and>
           (\<forall>r. cur_list_item rq r \<noteq> [] \<longrightarrow> p \<le> r)"
proof -
  have "highest_pri rq < RHINO_CONFIG_PRI_MAX"
    using rq_wf_nonempty_bounds [OF assms] by simp
  then obtain x xs where "cur_list_item rq (highest_pri rq) = x # xs"
    using rq_wfD(6) [OF assms(1)] by (auto simp: neq_Nil_conv)
  then show ?thesis
    using rq_wf_nonempty_bounds(2) [OF assms(1)]
    by (auto simp: preferred_cpu_ready_task_get_def)
qed

section \<open>The contract of a priority ready queue\<close>

text \<open>
  What the kernel relies on: \<open>level q p\<close> is the FIFO list of priority \<open>p\<close>, and the
  operations change one level and keep the representation well-formed.  A \<^emph>\<open>view\<close> \<open>v\<close>
  says which tasks are ready and at which priority; the client lemmas restate the
  operations as updates of the view, which is how the scheduler uses them.
\<close>

locale priority_ready_queue =
  fixes wf :: "'q \<Rightarrow> bool" and level :: "'q \<Rightarrow> nat \<Rightarrow> 'a list"
    and add_tail add_head :: "'q \<Rightarrow> 'a \<Rightarrow> nat \<Rightarrow> 'q"
    and rm :: "'q \<Rightarrow> 'a \<Rightarrow> nat \<Rightarrow> 'q option"
    and rotate :: "'q \<Rightarrow> nat \<Rightarrow> 'q option"
    and top :: "'q \<Rightarrow> 'a option"
    and n :: nat
  assumes level_bound: "wf q \<Longrightarrow> level q p \<noteq> [] \<Longrightarrow> p < n"
    and add_tail: "wf q \<Longrightarrow> p < n \<Longrightarrow> wf (add_tail q x p)"
      "level (add_tail q x p) = (level q)(p := level q p @ [x])"
    and add_head: "wf q \<Longrightarrow> p < n \<Longrightarrow> wf (add_head q x p)"
      "level (add_head q x p) = (level q)(p := x # level q p)"
    and rm: "wf q \<Longrightarrow> distinct (level q p) \<Longrightarrow> x \<in> set (level q p) \<Longrightarrow>
        \<exists>r y. y \<in> set (level q r) \<and> (y, r) \<noteq> (x, p) \<Longrightarrow>
        \<exists>q'. rm q x p = Some q' \<and> wf q' \<and> level q' = (level q)(p := remove1 x (level q p))"
    and rotate: "wf q \<Longrightarrow> level q p \<noteq> [] \<Longrightarrow>
        \<exists>q'. rotate q p = Some q' \<and> wf q' \<and> level q' = (level q)(p := rotate1 (level q p))"
    and top: "wf q \<Longrightarrow> level q r \<noteq> [] \<Longrightarrow>
        \<exists>p x xs. top q = Some x \<and> level q p = x # xs \<and> (\<forall>r. level q r \<noteq> [] \<longrightarrow> p \<le> r)"
begin

definition holds :: "'q \<Rightarrow> ('a \<Rightarrow> nat option) \<Rightarrow> bool" where
  "holds q v \<longleftrightarrow> wf q \<and> (\<forall>p. distinct (level q p) \<and> (\<forall>x. x \<in> set (level q p) \<longleftrightarrow> v x = Some p))"

lemma holdsD:
  assumes "holds q v"
  shows "wf q" and "distinct (level q p)" and "x \<in> set (level q p) \<longleftrightarrow> v x = Some p"
  using assms by (auto simp: holds_def)

lemma holds_bound: "holds q v \<Longrightarrow> v x = Some p \<Longrightarrow> p < n"
  using level_bound [of q p] holdsD(1) [of q v] holdsD(3) [of q v x p]
  by (cases "level q p = []") simp_all

lemma holds_add_tail:
  "holds q v \<Longrightarrow> p < n \<Longrightarrow> v x = None \<Longrightarrow> holds (add_tail q x p) (v(x \<mapsto> p))"
  unfolding holds_def by (auto simp: add_tail)

lemma holds_add_head:
  "holds q v \<Longrightarrow> p < n \<Longrightarrow> v x = None \<Longrightarrow> holds (add_head q x p) (v(x \<mapsto> p))"
  unfolding holds_def by (auto simp: add_head)

lemma holds_rm:
  assumes h: "holds q v" and x: "v x = Some p" and y: "y \<noteq> x" "v y \<noteq> None"
  shows "\<exists>q'. rm q x p = Some q' \<and> holds q' (v(x := None)) \<and>
           level q' = (level q)(p := remove1 x (level q p))"
proof -
  obtain r where "v y = Some r" using y(2) by blast
  then have "y \<in> set (level q r)" using holdsD(3) [OF h] by simp
  then have "\<exists>r y. y \<in> set (level q r) \<and> (y, r) \<noteq> (x, p)" using y(1) by blast
  moreover have "x \<in> set (level q p)" using holdsD(3) [OF h] x by simp
  ultimately obtain q' where q': "rm q x p = Some q'" "wf q'"
      "level q' = (level q)(p := remove1 x (level q p))"
    using rm [OF holdsD(1,2) [OF h]] by blast
  have "holds q' (v(x := None))"
    using h q'(2) x unfolding holds_def q'(3) by (auto simp: set_remove1_distinct)
  with q' show ?thesis by blast
qed

lemma holds_rotate:
  assumes h: "holds q v" and x: "v x = Some p"
  shows "\<exists>q'. rotate q p = Some q' \<and> holds q' v \<and> level q' = (level q)(p := rotate1 (level q p))"
proof -
  have "level q p \<noteq> []" using holdsD(3) [OF h, of x p] x by auto
  then show ?thesis using rotate [OF holdsD(1) [OF h]] h by (fastforce simp: holds_def)
qed

lemma holds_top:
  assumes h: "holds q v" and x: "v x \<noteq> None"
  shows "\<exists>t p. top q = Some t \<and> v t = Some p \<and> (\<forall>y r. v y = Some r \<longrightarrow> p \<le> r) \<and>
           level q p \<noteq> [] \<and> hd (level q p) = t"
proof -
  obtain r where "x \<in> set (level q r)" using holdsD(3) [OF h] x by blast
  then have "level q r \<noteq> []" by auto
  then obtain p t ts where t: "top q = Some t" "level q p = t # ts" "\<forall>r. level q r \<noteq> [] \<longrightarrow> p \<le> r"
    using top [OF holdsD(1) [OF h]] by blast
  moreover have "p \<le> s" if "v y = Some s" for y s
    using t(3) that holdsD(3) [OF h, of y s] by (cases "level q s = []") simp_all
  moreover have "v t = Some p" using holdsD(3) [OF h, of t p] t(2) by simp
  ultimately show ?thesis by auto
qed

end

interpretation rq: priority_ready_queue rq_wf cur_list_item ready_list_add_tail ready_list_add_head
  ready_list_rm ready_list_head_to_tail preferred_cpu_ready_task_get RHINO_CONFIG_PRI_MAX
proof (unfold_locales, goal_cases)
  case (1 q p)
  then show ?case by (rule rq_wf_nonempty_bounds)
next
  case (7 q p)
  then show ?case by (rule ready_list_rotate_ok)
qed (simp_all only: rq_wf_add_tail level_ready_list_add_tail rq_wf_add_head level_ready_list_add_head
    ready_list_rm_ok preferred_ok)

end
