(* ===== verification/Ringbuf.thy ===== *)
theory Ringbuf
  imports Kernel_Types "HOL-Library.Monad_Syntax"
begin

text \<open>
  \<^verbatim>\<open>kernel/rhino/core/k_ringbuf.c\<close>: the byte ring under message queues and buffer queues.
  The pointers \<open>head\<close>, \<open>tail\<close> and \<open>end\<close> are offsets from \<^verbatim>\<open>p_ringbuf->buf\<close>, so \<open>end\<close> is the
  length of the array.  A \<^verbatim>\<open>memcpy\<close> that would leave the array it reads or writes is \<open>None\<close>.
\<close>

section \<open>The operations of k\_ringbuf.c\<close>

datatype ringbuf_type = RINGBUF_TYPE_FIX | RINGBUF_TYPE_DYN

record k_ringbuf =
  buf :: "byte list"
  head :: nat
  tail :: nat
  freesize :: nat
  rb_type :: ringbuf_type
  blk_size :: nat

definition memcpy_to :: "byte list \<Rightarrow> nat \<Rightarrow> byte list \<Rightarrow> byte list option" where
  "memcpy_to b off src =
     (if off + length src \<le> length b then Some (take off b @ src @ drop (off + length src) b) else None)"

definition memcpy_from :: "byte list \<Rightarrow> nat \<Rightarrow> nat \<Rightarrow> byte list option" where
  "memcpy_from b off n = (if off + n \<le> length b then Some (take n (drop off b)) else None)"

text \<open>\<open>size_t\<close> has 4 bytes, stored least significant byte first.\<close>

abbreviation (input) RING_BUF_LEN :: nat where "RING_BUF_LEN \<equiv> 4"

definition size_bytes :: "nat \<Rightarrow> byte list" where
  "size_bytes n = map (\<lambda>i. word_of_nat (n div 256 ^ i)) [0..<RING_BUF_LEN]"

primrec bytes_size :: "byte list \<Rightarrow> nat" where
  "bytes_size [] = 0"
| "bytes_size (b # bs) = unat b + 256 * bytes_size bs"

definition ringbuf_reset :: "k_ringbuf \<Rightarrow> k_ringbuf" where
  "ringbuf_reset r = r\<lparr>head := 0, tail := 0, freesize := length (buf r)\<rparr>"

definition ringbuf_init :: "byte list \<Rightarrow> ringbuf_type \<Rightarrow> nat \<Rightarrow> k_ringbuf" where
  "ringbuf_init b type block_size =
     ringbuf_reset \<lparr>buf = b, head = 0, tail = 0, freesize = 0, rb_type = type, blk_size = block_size\<rparr>"

definition ringbuf_is_empty :: "k_ringbuf \<Rightarrow> bool" where
  "ringbuf_is_empty r \<longleftrightarrow> freesize r = length (buf r)"

definition ringbuf_is_full :: "k_ringbuf \<Rightarrow> bool" where
  "ringbuf_is_full r \<longleftrightarrow>
     rb_type r = RINGBUF_TYPE_DYN \<and> freesize r < RING_BUF_LEN + 1 \<or>
     rb_type r = RINGBUF_TYPE_FIX \<and> freesize r < blk_size r"

text \<open>The two pointer moves that push and pop repeat.\<close>

definition tail_wrap :: "k_ringbuf \<Rightarrow> k_ringbuf" where
  "tail_wrap r = (if tail r = length (buf r) then r\<lparr>tail := 0\<rparr> else r)"

definition head_wrap :: "k_ringbuf \<Rightarrow> k_ringbuf" where
  "head_wrap r = (if head r = length (buf r) then r\<lparr>head := 0\<rparr> else r)"

definition rb_put :: "k_ringbuf \<Rightarrow> byte list \<Rightarrow> k_ringbuf option" where
  "rb_put r src = do {
     b \<leftarrow> memcpy_to (buf r) (tail r) src;
     Some (r\<lparr>buf := b, tail := tail r + length src, freesize := freesize r - length src\<rparr>)
   }"

definition rb_get :: "k_ringbuf \<Rightarrow> nat \<Rightarrow> (byte list \<times> k_ringbuf) option" where
  "rb_get r n = do {
     d \<leftarrow> memcpy_from (buf r) (head r) n;
     Some (d, r\<lparr>head := head r + n, freesize := freesize r + n\<rparr>)
   }"

text \<open>
  Writing \<open>src\<close> at the tail, in two pieces when the array ends inside it
  (the tail is then moved to the start of the array).
\<close>

definition rb_put_split :: "k_ringbuf \<Rightarrow> byte list \<Rightarrow> k_ringbuf option" where
  "rb_put_split r src =
     (let split_len = length (buf r) - tail r in
      if head r \<le> tail r \<and> split_len < length src \<and> 0 < split_len then do {
        r \<leftarrow> rb_put r (take split_len src);
        rb_put (r\<lparr>tail := 0\<rparr>) (drop split_len src)
      } else rb_put r src)"

definition ringbuf_push :: "k_ringbuf \<Rightarrow> byte list \<Rightarrow> nat \<Rightarrow> (kstat \<times> k_ringbuf) option" where
  "ringbuf_push r data len =
     (case rb_type r of
        RINGBUF_TYPE_FIX \<Rightarrow>
          if freesize r < blk_size r then Some (RHINO_RINGBUF_FULL, r)
          else do {
            d \<leftarrow> memcpy_from data 0 (blk_size r);
            r \<leftarrow> rb_put (tail_wrap r) d;
            Some (RHINO_SUCCESS, r)
          }
      | RINGBUF_TYPE_DYN \<Rightarrow>
          if len = 0 \<or> 2 ^ 32 - 1 \<le> len then Some (RHINO_INV_PARAM, r)
          else if freesize r < (RING_BUF_LEN + len) mod 2 ^ 32 then Some (RHINO_RINGBUF_FULL, r)
          else do {
            r \<leftarrow> rb_put_split (tail_wrap r) (size_bytes len);
            d \<leftarrow> memcpy_from data 0 len;
            r \<leftarrow> rb_put_split (tail_wrap r) d;
            Some (RHINO_SUCCESS, r)
          })"

text \<open>Reading \<open>n\<close> bytes at the head, in two pieces when \<open>cross\<close> holds.\<close>

definition rb_get_split :: "k_ringbuf \<Rightarrow> bool \<Rightarrow> nat \<Rightarrow> (byte list \<times> k_ringbuf) option" where
  "rb_get_split r cross n =
     (let split_len = length (buf r) - head r in
      if cross then do {
        (d1, r) \<leftarrow> rb_get r split_len;
        (d2, r) \<leftarrow> rb_get (r\<lparr>head := 0\<rparr>) (n - split_len);
        Some (d1 @ d2, r)
      } else rb_get r n)"

text \<open>
  \<open>ringbuf_pop\<close> returns the bytes copied to \<^verbatim>\<open>pdata\<close> and the length stored in \<^verbatim>\<open>*plen\<close>.  The
  length field is read in two pieces when it crosses the end of the array; the payload when in
  addition the head is behind the tail.
\<close>

definition ringbuf_pop :: "k_ringbuf \<Rightarrow> (kstat \<times> byte list \<times> nat \<times> k_ringbuf) option" where
  "ringbuf_pop r =
     (if ringbuf_is_empty r then Some (RHINO_RINGBUF_EMPTY, [], 0, r)
      else case rb_type r of
        RINGBUF_TYPE_FIX \<Rightarrow> do {
          (d, r) \<leftarrow> rb_get (head_wrap r) (blk_size r);
          Some (RHINO_SUCCESS, d, blk_size r, r)
        }
      | RINGBUF_TYPE_DYN \<Rightarrow> do {
          let r = head_wrap r;
          let split_len = length (buf r) - head r;
          (c, r) \<leftarrow> rb_get_split r (split_len < RING_BUF_LEN \<and> 0 < split_len) RING_BUF_LEN;
          let len = bytes_size c;
          let r = head_wrap r;
          let split_len = length (buf r) - head r;
          (d, r) \<leftarrow> rb_get_split r (tail r < head r \<and> split_len < len) len;
          Some (RHINO_SUCCESS, d, len, r)
        })"

abbreviation (input) RINGBUF_LEN_3BYTES_MAXVALUE :: nat where "RINGBUF_LEN_3BYTES_MAXVALUE \<equiv> 0x3fffff"

text \<open>The checked API (\<^verbatim>\<open>RHINO_CONFIG_RINGBUF_VENDOR\<close>); \<open>None\<close> arguments are NULL pointers.\<close>

definition krhino_ringbuf_init ::
  "byte list option \<Rightarrow> nat \<Rightarrow> ringbuf_type option \<Rightarrow> nat \<Rightarrow> kstat \<times> k_ringbuf option" where
  "krhino_ringbuf_init b len type block_size =
     (case b of
        None \<Rightarrow> (RHINO_NULL_PTR, None)
      | Some b \<Rightarrow>
          (case type of
             None \<Rightarrow> (RHINO_INV_PARAM, None)
           | Some type \<Rightarrow>
               if len = 0 then (RHINO_INV_PARAM, None)
               else if type = RINGBUF_TYPE_FIX \<and> (block_size = 0 \<or> len mod block_size \<noteq> 0)
               then (RHINO_INV_PARAM, None)
               else (RHINO_SUCCESS, Some (ringbuf_init (take len b) type block_size))))"

definition krhino_ringbuf_push :: "k_ringbuf \<Rightarrow> byte list \<Rightarrow> nat \<Rightarrow> (kstat \<times> k_ringbuf) option" where
  "krhino_ringbuf_push r data len =
     (if len \<le> 0 \<or> RINGBUF_LEN_3BYTES_MAXVALUE < len \<or> rb_type r = RINGBUF_TYPE_FIX \<and> len \<noteq> blk_size r
      then Some (RHINO_INV_PARAM, r)
      else ringbuf_push r data len)"

section \<open>The bytes in the ring\<close>

abbreviation rb_len :: "k_ringbuf \<Rightarrow> nat" where "rb_len r \<equiv> length (buf r)"
abbreviation used :: "k_ringbuf \<Rightarrow> nat" where "used r \<equiv> rb_len r - freesize r"

definition content :: "k_ringbuf \<Rightarrow> byte list" where
  "content r = map (\<lambda>i. buf r ! ((head r + i) mod rb_len r)) [0..<used r]"

definition rb_wf :: "k_ringbuf \<Rightarrow> bool" where
  "rb_wf r \<longleftrightarrow> 0 < rb_len r \<and> head r \<le> rb_len r \<and> tail r \<le> rb_len r \<and> freesize r \<le> rb_len r \<and>
     tail r mod rb_len r = (head r + used r) mod rb_len r"

lemma length_content [simp]: "length (content r) = used r"
  by (simp add: content_def)

lemma content_nth: "i < used r \<Longrightarrow> content r ! i = buf r ! ((head r + i) mod rb_len r)"
  by (simp add: content_def)

lemma mod_add_inj:
  fixes i j L :: nat
  assumes "(a + i) mod L = (a + j) mod L" and "i < L" and "j < L"
  shows "i = j"
proof (cases "i \<le> j")
  case True
  then have "L dvd a + j - (a + i)"
    using assms(1) by (metis add_le_cancel_left mod_eq_dvd_iff_nat)
  with True assms(3) show ?thesis by (auto dest: dvd_imp_le)
next
  case False
  then have "L dvd a + i - (a + j)"
    using assms(1) by (metis add_le_cancel_left mod_eq_dvd_iff_nat nat_le_linear)
  with False assms(2) show ?thesis by (auto dest: dvd_imp_le)
qed

lemma memcpy_to_nth:
  assumes "memcpy_to b off src = Some b'" and "i < length b"
  shows "b' ! i = (if off \<le> i \<and> i < off + length src then src ! (i - off) else b ! i)"
  using assms by (auto simp: memcpy_to_def nth_append split: if_splits)

lemma memcpy_to_length: "memcpy_to b off src = Some b' \<Longrightarrow> length b' = length b"
  by (auto simp: memcpy_to_def split: if_splits)

text \<open>What a step leaves alone.\<close>

definition same_shape :: "k_ringbuf \<Rightarrow> k_ringbuf \<Rightarrow> bool" where
  "same_shape r r' \<longleftrightarrow> rb_len r' = rb_len r \<and> rb_type r' = rb_type r \<and> blk_size r' = blk_size r"

lemma same_shape_trans: "same_shape a b \<Longrightarrow> same_shape b c \<Longrightarrow> same_shape a c"
  by (simp add: same_shape_def)

lemma rb_put_ok:
  assumes wf: "rb_wf r" and fit: "tail r + length d \<le> rb_len r" and free: "length d \<le> freesize r"
    and t: "tail r < rb_len r"
  shows "\<exists>r'. rb_put r d = Some r' \<and> rb_wf r' \<and> content r' = content r @ d \<and> same_shape r r' \<and>
           freesize r' = freesize r - length d \<and> head r' = head r \<and> tail r' = tail r + length d"
proof -
  let ?L = "rb_len r"
  obtain b where b: "memcpy_to (buf r) (tail r) d = Some b"
    using fit by (simp add: memcpy_to_def)
  define r' where "r' = r\<lparr>buf := b, tail := tail r + length d, freesize := freesize r - length d\<rparr>"
  have L: "length b = ?L" using memcpy_to_length [OF b] .
  have used': "used r' = used r + length d"
    using free wf by (simp add: r'_def L rb_wf_def)
  have tl: "tail r = (head r + used r) mod ?L" using wf t by (simp add: rb_wf_def)
  have "rb_wf r'"
  proof -
    have "(tail r + length d) mod ?L = (head r + (used r + length d)) mod ?L"
      using tl by (metis add.assoc mod_add_left_eq)
    moreover have "freesize r' \<le> rb_len r'" using wf by (auto simp: r'_def L rb_wf_def)
    ultimately show ?thesis using wf fit used' unfolding rb_wf_def by (simp add: r'_def L)
  qed
  moreover have "content r' = content r @ d"
  proof (rule nth_equalityI)
    show "length (content r') = length (content r @ d)" using used' by simp
    fix i assume "i < length (content r')"
    then have i: "i < used r + length d" using used' by simp
    have iL: "i < ?L" using i free wf by (auto simp: rb_wf_def)
    have nth': "content r' ! i = b ! ((head r + i) mod ?L)"
      using content_nth [of i r'] i used' by (simp add: r'_def L)
    have bnd: "(head r + i) mod ?L < ?L" using t by (intro mod_less_divisor) linarith
    show "content r' ! i = (content r @ d) ! i"
    proof (cases "i < used r")
      case True
      have "\<not> (tail r \<le> (head r + i) mod ?L \<and> (head r + i) mod ?L < tail r + length d)"
      proof
        assume in_d: "tail r \<le> (head r + i) mod ?L \<and> (head r + i) mod ?L < tail r + length d"
        define j where "j = (head r + i) mod ?L - tail r"
        have j: "(head r + i) mod ?L = tail r + j" "j < length d" using in_d by (auto simp: j_def)
        have "used r + j < ?L" using j(2) free wf by (auto simp: rb_wf_def)
        moreover have "(head r + i) mod ?L = (head r + (used r + j)) mod ?L"
        proof -
          have "(head r + (used r + j)) mod ?L = ((head r + used r) mod ?L + j) mod ?L"
            by (simp add: mod_add_left_eq add.assoc)
          also have "\<dots> = (head r + i) mod ?L mod ?L" by (simp only: tl [symmetric] j(1))
          finally show ?thesis by simp
        qed
        ultimately have "i = used r + j" using mod_add_inj [OF _ iL] by blast
        then show False using True by simp
      qed
      then have "b ! ((head r + i) mod ?L) = buf r ! ((head r + i) mod ?L)"
        unfolding memcpy_to_nth [OF b bnd] by (rule if_not_P)
      with True nth' show ?thesis by (simp add: nth_append content_def)
    next
      case False
      define j where "j = i - used r"
      have j: "i = used r + j" "j < length d" using False i by (auto simp: j_def)
      have "(head r + i) mod ?L = (tail r + j) mod ?L"
        using tl j(1) by (metis add.assoc mod_add_left_eq)
      also have "\<dots> = tail r + j" using fit j(2) by simp
      finally have "b ! ((head r + i) mod ?L) = d ! j"
        using memcpy_to_nth [OF b bnd] j(2) by simp
      with False nth' show ?thesis by (simp add: nth_append j_def)
    qed
  qed
  moreover have "rb_put r d = Some r'" by (simp add: rb_put_def b r'_def)
  ultimately show ?thesis by (auto simp: r'_def same_shape_def L)
qed

lemma rb_get_ok:
  assumes wf: "rb_wf r" and fit: "head r + n \<le> rb_len r" and use: "n \<le> used r"
    and h: "head r < rb_len r"
  shows "\<exists>r'. rb_get r n = Some (take n (content r), r') \<and> rb_wf r' \<and> content r' = drop n (content r) \<and>
           same_shape r r' \<and> freesize r' = freesize r + n \<and> head r' = head r + n \<and> tail r' = tail r"
proof -
  let ?L = "rb_len r"
  define r' where "r' = r\<lparr>head := head r + n, freesize := freesize r + n\<rparr>"
  have used': "used r' = used r - n" by (simp add: r'_def)
  have "take n (drop (head r) (buf r)) = take n (content r)"
    using fit use by (intro nth_equalityI) (auto simp: content_def)
  then have get: "rb_get r n = Some (take n (content r), r')"
    using fit by (simp add: rb_get_def memcpy_from_def r'_def)
  have "head r + n + (used r - n) = head r + used r" using use by simp
  then have "rb_wf r'"
    using wf fit use unfolding rb_wf_def used' by (auto simp: r'_def)
  moreover have "content r' = drop n (content r)"
    using use by (intro nth_equalityI) (auto simp: content_def r'_def add.assoc)
  ultimately show ?thesis using get by (auto simp: r'_def same_shape_def)
qed

lemma tail_wrap_props:
  assumes "rb_wf r"
  shows "rb_wf (tail_wrap r)" "content (tail_wrap r) = content r" "same_shape r (tail_wrap r)"
    "freesize (tail_wrap r) = freesize r" "head (tail_wrap r) = head r"
    "tail (tail_wrap r) < rb_len r" "rb_len (tail_wrap r) = rb_len r"
  using assms by (auto simp: tail_wrap_def rb_wf_def content_def same_shape_def)

lemma head_wrap_props:
  assumes "rb_wf r"
  shows "rb_wf (head_wrap r)" "content (head_wrap r) = content r" "same_shape r (head_wrap r)"
    "freesize (head_wrap r) = freesize r" "tail (head_wrap r) = tail r"
    "head (head_wrap r) < rb_len r" "rb_len (head_wrap r) = rb_len r"
proof -
  have "(rb_len r + used r) mod rb_len r = used r mod rb_len r" by (rule mod_add_self1)
  then show "rb_wf (head_wrap r)"
    using assms unfolding rb_wf_def by (auto simp: head_wrap_def)
qed (use assms in \<open>auto simp: head_wrap_def rb_wf_def content_def same_shape_def\<close>)

lemma free_contiguous:
  assumes wf: "rb_wf r" and lt: "tail r < head r"
  shows "tail r + freesize r \<le> head r"
proof -
  let ?L = "rb_len r"
  have w: "head r \<le> ?L" "freesize r \<le> ?L" "tail r = (head r + used r) mod ?L"
    using wf lt by (auto simp: rb_wf_def)
  consider "head r + used r < ?L" | "?L \<le> head r + used r" "head r + used r < 2 * ?L" | "used r = ?L"
    using w by linarith
  then show ?thesis
  proof cases
    case 1
    then show ?thesis using w lt by simp
  next
    case 2
    then have "head r + used r - ?L < ?L" by linarith
    then have "tail r = head r + used r - ?L" using w(3) 2(1) by (simp add: le_mod_geq)
    then show ?thesis using 2 w by linarith
  next
    case 3
    then show ?thesis using w lt by simp
  qed
qed

lemma used_contiguous:
  assumes wf: "rb_wf r" and ge: "head r \<le> tail r" and h: "head r < rb_len r" and u: "used r < rb_len r"
  shows "head r + used r \<le> rb_len r"
proof (rule ccontr)
  let ?L = "rb_len r"
  assume "\<not> head r + used r \<le> ?L"
  then have gt: "?L < head r + used r" "head r + used r < 2 * ?L" using h u by auto
  then have "head r + used r - ?L < ?L" by linarith
  then have m: "(head r + used r) mod ?L = head r + used r - ?L" using gt by (simp add: le_mod_geq)
  have "tail r mod ?L = head r + used r - ?L" using wf m by (simp add: rb_wf_def)
  moreover have "tail r mod ?L = (if tail r = ?L then 0 else tail r)"
    using wf by (auto simp: rb_wf_def)
  ultimately show False using gt ge h u by (auto split: if_splits)
qed

lemma rb_put_split_ok:
  assumes wf: "rb_wf r" and t: "tail r < rb_len r" and free: "length d \<le> freesize r"
  shows "\<exists>r'. rb_put_split r d = Some r' \<and> rb_wf r' \<and> content r' = content r @ d \<and> same_shape r r' \<and>
           freesize r' = freesize r - length d"
proof (cases "head r \<le> tail r \<and> rb_len r - tail r < length d")
  case True
  let ?n = "rb_len r - tail r"
  obtain r1 where r1: "rb_put r (take ?n d) = Some r1" "rb_wf r1" "content r1 = content r @ take ?n d"
      "same_shape r r1" "freesize r1 = freesize r - ?n" "tail r1 = rb_len r"
    using rb_put_ok [OF wf, of "take ?n d"] t True free by auto
  have L: "rb_len r1 = rb_len r" using r1(4) by (simp add: same_shape_def)
  have eq: "r1\<lparr>tail := 0\<rparr> = tail_wrap r1" using r1(6) L by (simp add: tail_wrap_def)
  note tw = tail_wrap_props [OF r1(2)]
  have "freesize r \<le> rb_len r" using wf by (simp add: rb_wf_def)
  then have "tail (tail_wrap r1) + length (drop ?n d) \<le> rb_len (tail_wrap r1)"
      "length (drop ?n d) \<le> freesize (tail_wrap r1)" "tail (tail_wrap r1) < rb_len (tail_wrap r1)"
    using r1(5,6) t True free tw L by (auto simp: tail_wrap_def)
  then have "\<exists>r'. rb_put (tail_wrap r1) (drop ?n d) = Some r' \<and> rb_wf r' \<and>
      content r' = content (tail_wrap r1) @ drop ?n d \<and> same_shape (tail_wrap r1) r' \<and>
      freesize r' = freesize (tail_wrap r1) - length (drop ?n d)"
    using rb_put_ok [OF tw(1)] by blast
  with r1 tw True t show ?thesis
    by (auto simp: rb_put_split_def Let_def eq same_shape_def)
next
  case False
  have "tail r + length d \<le> rb_len r"
  proof (cases "head r \<le> tail r")
    case True
    then show ?thesis using False t by auto
  next
    case lt: False
    then show ?thesis
      using free_contiguous [OF wf] free wf by (auto simp: rb_wf_def)
  qed
  from rb_put_ok [OF wf this free t] False show ?thesis
    by (auto simp: rb_put_split_def Let_def)
qed

lemma rb_get_split_ok:
  assumes wf: "rb_wf r" and h: "head r < rb_len r" and use: "n \<le> used r"
    and c: "c \<Longrightarrow> rb_len r - head r < n" and nc: "\<not> c \<Longrightarrow> head r + n \<le> rb_len r"
  shows "\<exists>r'. rb_get_split r c n = Some (take n (content r), r') \<and> rb_wf r' \<and>
            content r' = drop n (content r) \<and> same_shape r r' \<and> freesize r' = freesize r + n"
proof (cases c)
  case True
  let ?n = "rb_len r - head r"
  obtain r1 where r1: "rb_get r ?n = Some (take ?n (content r), r1)" "rb_wf r1"
      "content r1 = drop ?n (content r)" "same_shape r r1" "freesize r1 = freesize r + ?n"
      "head r1 = rb_len r"
    using rb_get_ok [OF wf, of ?n] h use c [OF True] by auto
  have L: "rb_len r1 = rb_len r" using r1(4) by (simp add: same_shape_def)
  have eq: "r1\<lparr>head := 0\<rparr> = head_wrap r1" using r1(6) L by (simp add: head_wrap_def)
  note hw = head_wrap_props [OF r1(2)]
  have "head (head_wrap r1) + (n - ?n) \<le> rb_len (head_wrap r1)" "n - ?n \<le> used (head_wrap r1)"
      "head (head_wrap r1) < rb_len (head_wrap r1)"
    using r1(5,6) h use hw L by (auto simp: head_wrap_def)
  then obtain r2 where r2: "rb_get (head_wrap r1) (n - ?n) = Some (take (n - ?n) (content r1), r2)"
      "rb_wf r2" "content r2 = drop (n - ?n) (content r1)" "same_shape (head_wrap r1) r2"
      "freesize r2 = freesize r1 + (n - ?n)"
    using rb_get_ok [OF hw(1)] unfolding hw(2,4) by blast
  have "take ?n (content r) @ take (n - ?n) (drop ?n (content r)) = take n (content r)"
    using c [OF True] by (metis le_add_diff_inverse less_imp_le take_add)
  moreover have "drop (n - ?n) (drop ?n (content r)) = drop n (content r)"
    using c [OF True] by simp
  moreover have "freesize r2 = freesize r + n" using r1(5) r2(5) c [OF True] by simp
  ultimately show ?thesis
    using True r1 r2 hw by (auto simp: rb_get_split_def eq same_shape_def)
next
  case False
  from rb_get_ok [OF wf nc [OF False] use h] False show ?thesis
    by (auto simp: rb_get_split_def)
qed

section \<open>The message FIFO a ring represents\<close>

lemma length_size_bytes [simp]: "length (size_bytes n) = 4"
  by (simp add: size_bytes_def)

lemma upt_4: "[0..<4] = [0, Suc 0, 2, 3]"
  by (simp add: upt_rec)

lemma bytes_size_size_bytes:
  assumes "n < 2 ^ 32"
  shows "bytes_size (size_bytes n) = n"
proof -
  have u: "unat (word_of_nat m :: byte) = m mod 256" for m
    by (simp add: unat_of_nat)
  have d: "n div 65536 = n div 256 div 256" "n div 16777216 = n div 256 div 256 div 256"
    by (simp_all add: div_mult2_eq [symmetric])
  have "n div 256 div 256 div 256 < 256" using assms by (simp add: div_mult2_eq [symmetric])
  then have "n div 256 div 256 div 256 mod 256 = n div 256 div 256 div 256" by simp
  then have "unat (word_of_nat n :: byte) + 256 * (unat (word_of_nat (n div 256) :: byte) +
      256 * (unat (word_of_nat (n div 65536) :: byte) + 256 * unat (word_of_nat (n div 16777216) :: byte))) = n"
    unfolding u d by (simp only: mod_mult_div_eq)
  then show ?thesis by (simp add: size_bytes_def upt_4)
qed

text \<open>The bytes one message occupies.\<close>

definition frame :: "ringbuf_type \<Rightarrow> byte list \<Rightarrow> byte list" where
  "frame ty m = (case ty of RINGBUF_TYPE_FIX \<Rightarrow> m | RINGBUF_TYPE_DYN \<Rightarrow> size_bytes (length m) @ m)"

definition msg_ok :: "k_ringbuf \<Rightarrow> byte list \<Rightarrow> bool" where
  "msg_ok r m \<longleftrightarrow>
     (case rb_type r of
        RINGBUF_TYPE_FIX \<Rightarrow> length m = blk_size r
      | RINGBUF_TYPE_DYN \<Rightarrow> 0 < length m \<and> length m + 4 < 2 ^ 32)"

definition rb_fifo :: "k_ringbuf \<Rightarrow> byte list list \<Rightarrow> bool" where
  "rb_fifo r ms \<longleftrightarrow> rb_wf r \<and> content r = concat (map (frame (rb_type r)) ms) \<and>
     (\<forall>m \<in> set ms. msg_ok r m) \<and>
     (rb_type r = RINGBUF_TYPE_FIX \<longrightarrow>
        0 < blk_size r \<and> blk_size r dvd rb_len r \<and> blk_size r dvd head r \<and> blk_size r dvd tail r)"

definition frame_size :: "k_ringbuf \<Rightarrow> byte list \<Rightarrow> nat" where
  "frame_size r m = length (frame (rb_type r) m)"

lemma same_shape_msg: "same_shape r r' \<Longrightarrow> msg_ok r' m = msg_ok r m"
  by (simp add: same_shape_def msg_ok_def split: ringbuf_type.splits)

lemma dvd_room:
  fixes k L t :: nat
  assumes "k dvd L" and "k dvd t" and "t < L"
  shows "t + k \<le> L"
proof -
  have "k dvd L - t" using assms by simp
  then have "k \<le> L - t" using assms(3) by (intro dvd_imp_le) auto
  then show ?thesis using assms(3) by simp
qed

lemma rb_fifo_free: "rb_fifo r ms \<Longrightarrow> freesize r = rb_len r - sum_list (map (frame_size r) ms)"
proof -
  assume f: "rb_fifo r ms"
  then have "length (content r) = sum_list (map (frame_size r) ms)"
    by (simp add: rb_fifo_def length_concat frame_size_def [abs_def] comp_def)
  then show ?thesis using f by (auto simp: rb_fifo_def rb_wf_def)
qed

lemma ringbuf_push_fix:
  assumes f: "rb_fifo r ms" and ty: "rb_type r = RINGBUF_TYPE_FIX" and m: "msg_ok r m"
    and room: "frame_size r m \<le> freesize r"
  shows "\<exists>r'. ringbuf_push r m (length m) = Some (RHINO_SUCCESS, r') \<and> rb_fifo r' (ms @ [m]) \<and>
           same_shape r r'"
proof -
  have wf: "rb_wf r" and len: "length m = blk_size r" and b: "0 < blk_size r" "blk_size r dvd rb_len r"
      "blk_size r dvd head r" "blk_size r dvd tail r"
    using f m ty by (auto simp: rb_fifo_def msg_ok_def)
  note tw = tail_wrap_props [OF wf]
  have bt: "blk_size r dvd tail (tail_wrap r)" using b by (simp add: tail_wrap_def)
  then have "tail (tail_wrap r) + length m \<le> rb_len (tail_wrap r)"
    using dvd_room [OF b(2)] tw(6,7) len by simp
  moreover have "length m \<le> freesize (tail_wrap r)" using room tw(4) by (simp add: frame_size_def frame_def ty)
  ultimately obtain r' where r': "rb_put (tail_wrap r) m = Some r'" "rb_wf r'"
      "content r' = content r @ m" "same_shape (tail_wrap r) r'" "head r' = head r"
      "tail r' = tail (tail_wrap r) + length m"
    using rb_put_ok [OF tw(1), of m] tw by auto
  have sh: "same_shape r r'" using same_shape_trans [OF tw(3) r'(4)] .
  moreover have "\<not> freesize r < blk_size r" using room len by (simp add: frame_size_def frame_def ty)
  ultimately have "ringbuf_push r m (length m) = Some (RHINO_SUCCESS, r')"
    using r'(1) len by (simp add: ringbuf_push_def ty memcpy_from_def)
  moreover have "rb_fifo r' (ms @ [m])"
    using f r' sh m b bt len unfolding rb_fifo_def same_shape_msg [OF sh]
    by (simp add: same_shape_def frame_def ty)
  ultimately show ?thesis using sh by blast
qed

lemma ringbuf_push_dyn:
  assumes f: "rb_fifo r ms" and ty: "rb_type r = RINGBUF_TYPE_DYN" and m: "msg_ok r m"
    and room: "frame_size r m \<le> freesize r"
  shows "\<exists>r'. ringbuf_push r m (length m) = Some (RHINO_SUCCESS, r') \<and> rb_fifo r' (ms @ [m]) \<and>
           same_shape r r'"
proof -
  have wf: "rb_wf r" using f by (simp add: rb_fifo_def)
  have len: "0 < length m" "length m + 4 < 2 ^ 32" using m by (auto simp: msg_ok_def ty)
  have room': "4 + length m \<le> freesize r" using room by (simp add: frame_size_def frame_def ty)
  note tw = tail_wrap_props [OF wf]
  obtain r1 where r1: "rb_put_split (tail_wrap r) (size_bytes (length m)) = Some r1" "rb_wf r1"
      "content r1 = content r @ size_bytes (length m)" "same_shape (tail_wrap r) r1"
      "freesize r1 = freesize r - 4"
    using rb_put_split_ok [OF tw(1), of "size_bytes (length m)"] tw room' by auto
  note tw1 = tail_wrap_props [OF r1(2)]
  have "length m \<le> freesize (tail_wrap r1)" using room' r1(5) tw1(4) by simp
  then obtain r2 where r2: "rb_put_split (tail_wrap r1) m = Some r2" "rb_wf r2"
      "content r2 = content r1 @ m" "same_shape (tail_wrap r1) r2"
    using rb_put_split_ok [OF tw1(1), of m] tw1(2,6,7) by auto
  have sh: "same_shape r r2"
    using tw(3) r1(4) tw1(3) r2(4) by (simp add: same_shape_def)
  have "\<not> freesize r < (4 + length m) mod 2 ^ 32" using room' len by simp
  then have "ringbuf_push r m (length m) = Some (RHINO_SUCCESS, r2)"
    using r1(1) r2(1) len by (simp add: ringbuf_push_def ty memcpy_from_def)
  moreover have "rb_fifo r2 (ms @ [m])"
    using f r1(3) r2(2,3) sh m unfolding rb_fifo_def same_shape_msg [OF sh]
    by (simp add: same_shape_def frame_def ty)
  ultimately show ?thesis using sh by blast
qed

lemma ringbuf_push_ok:
  assumes "rb_fifo r ms" and "msg_ok r m" and "frame_size r m \<le> freesize r"
  shows "\<exists>r'. ringbuf_push r m (length m) = Some (RHINO_SUCCESS, r') \<and> rb_fifo r' (ms @ [m]) \<and>
           same_shape r r'"
  using assms ringbuf_push_fix ringbuf_push_dyn by (cases "rb_type r") blast+

lemma ringbuf_push_full:
  assumes "rb_fifo r ms" and "msg_ok r m" and "freesize r < frame_size r m"
  shows "ringbuf_push r m (length m) = Some (RHINO_RINGBUF_FULL, r)"
  using assms by (auto simp: ringbuf_push_def msg_ok_def frame_size_def frame_def split: ringbuf_type.splits)

lemma rb_fifo_empty: "rb_fifo r ms \<Longrightarrow> ringbuf_is_empty r \<longleftrightarrow> ms = []"
proof -
  assume f: "rb_fifo r ms"
  have "0 < length (frame (rb_type r) m)" if "m \<in> set ms" for m
    using f that by (auto simp: rb_fifo_def msg_ok_def frame_def split: ringbuf_type.splits)
  then have "concat (map (frame (rb_type r)) ms) = [] \<longleftrightarrow> ms = []"
    by (cases ms) auto
  moreover have "content r = [] \<longleftrightarrow> freesize r = rb_len r"
  proof -
    have "freesize r \<le> rb_len r" using f by (simp add: rb_fifo_def rb_wf_def)
    then show ?thesis using length_0_conv [of "content r"] by auto
  qed
  ultimately show ?thesis using f by (simp add: ringbuf_is_empty_def rb_fifo_def)
qed

lemma ringbuf_pop_fix:
  assumes f: "rb_fifo r (m # ms)" and ty: "rb_type r = RINGBUF_TYPE_FIX"
  shows "\<exists>r'. ringbuf_pop r = Some (RHINO_SUCCESS, m, length m, r') \<and> rb_fifo r' ms \<and> same_shape r r'"
proof -
  have wf: "rb_wf r" and len: "length m = blk_size r" and b: "0 < blk_size r" "blk_size r dvd rb_len r"
      "blk_size r dvd head r" "blk_size r dvd tail r" and c: "content r = m @ concat (map (frame (rb_type r)) ms)"
    using f ty by (auto simp: rb_fifo_def msg_ok_def frame_def)
  note hw = head_wrap_props [OF wf]
  have bh: "blk_size r dvd head (head_wrap r)" using b by (simp add: head_wrap_def)
  then have "head (head_wrap r) + length m \<le> rb_len (head_wrap r)"
    using dvd_room [OF b(2)] hw(6,7) len by simp
  moreover have "length m \<le> used (head_wrap r)"
    using arg_cong [OF c, of length] hw(4,7) by simp
  ultimately obtain r' where r': "rb_get (head_wrap r) (length m) = Some (m, r')" "rb_wf r'"
      "content r' = concat (map (frame (rb_type r)) ms)" "same_shape (head_wrap r) r'" "tail r' = tail r"
      "head r' = head (head_wrap r) + length m"
    using rb_get_ok [OF hw(1), of "length m"] hw c by auto
  have sh: "same_shape r r'" using same_shape_trans [OF hw(3) r'(4)] .
  have "ringbuf_pop r = Some (RHINO_SUCCESS, m, length m, r')"
    using r'(1) len sh rb_fifo_empty [OF f] by (simp add: ringbuf_pop_def ty same_shape_def)
  moreover have "rb_fifo r' ms"
    using f r' sh b bh len unfolding rb_fifo_def same_shape_msg [OF sh]
    by (simp add: same_shape_def frame_def ty)
  ultimately show ?thesis using sh by blast
qed

lemma ringbuf_pop_dyn:
  assumes f: "rb_fifo r (m # ms)" and ty: "rb_type r = RINGBUF_TYPE_DYN"
  shows "\<exists>r'. ringbuf_pop r = Some (RHINO_SUCCESS, m, length m, r') \<and> rb_fifo r' ms \<and> same_shape r r'"
proof -
  let ?rest = "concat (map (frame (rb_type r)) ms)"
  have wf: "rb_wf r" and len: "0 < length m" "length m + 4 < 2 ^ 32"
    and c: "content r = size_bytes (length m) @ m @ ?rest"
    using f ty by (auto simp: rb_fifo_def msg_ok_def frame_def)
  have u: "4 + length m \<le> used r" using arg_cong [OF c, of length] by simp
  define h where "h = head_wrap r"
  note hw = head_wrap_props [OF wf, folded h_def]
  let ?c = "rb_len h - head h < 4 \<and> 0 < rb_len h - head h"
  obtain r1 where r1: "rb_get_split h ?c 4 = Some (size_bytes (length m), r1)" "rb_wf r1"
      "content r1 = m @ ?rest" "same_shape h r1" "freesize r1 = freesize r + 4"
    using rb_get_split_ok [OF hw(1), of 4 ?c] hw(6,7) u hw(2,4) c by fastforce
  define h1 where "h1 = head_wrap r1"
  note hw1 = head_wrap_props [OF r1(2), folded h1_def]
  let ?d = "tail h1 < head h1 \<and> rb_len h1 - head h1 < length m"
  have L: "rb_len r1 = rb_len r" using r1(4) hw(7) by (simp add: same_shape_def)
  have u1: "length m \<le> used h1" "used h1 < rb_len h1"
    using u hw1(4,7) r1(5) L len by auto
  have "head h1 + length m \<le> rb_len h1" if "\<not> ?d"
  proof (cases "tail h1 < head h1")
    case False
    then have "head h1 + used h1 \<le> rb_len h1"
      using used_contiguous [OF hw1(1)] hw1(6,7) u1 by simp
    then show ?thesis using u1 by linarith
  next
    case True
    then show ?thesis using that hw1(6,7) by auto
  qed
  then obtain r2 where r2: "rb_get_split h1 ?d (length m) = Some (m, r2)" "rb_wf r2"
      "content r2 = ?rest" "same_shape h1 r2"
    using rb_get_split_ok [OF hw1(1), of "length m" ?d] hw1(2,6,7) u1 r1(3) by auto
  have sh: "same_shape r r2"
    using hw(3) r1(4) hw1(3) r2(4) by (simp add: same_shape_def)
  have "bytes_size (size_bytes (length m)) = length m"
    using len by (intro bytes_size_size_bytes) simp
  then have "ringbuf_pop r = Some (RHINO_SUCCESS, m, length m, r2)"
    using r1(1) r2(1) rb_fifo_empty [OF f]
    by (simp add: ringbuf_pop_def ty Let_def h_def [symmetric] h1_def [symmetric])
  moreover have "rb_fifo r2 ms"
    using f r2(2,3) sh unfolding rb_fifo_def same_shape_msg [OF sh]
    by (simp add: same_shape_def ty)
  ultimately show ?thesis using sh by blast
qed

lemma ringbuf_pop_ok:
  assumes "rb_fifo r (m # ms)"
  shows "\<exists>r'. ringbuf_pop r = Some (RHINO_SUCCESS, m, length m, r') \<and> rb_fifo r' ms \<and> same_shape r r'"
  using assms ringbuf_pop_fix ringbuf_pop_dyn by (cases "rb_type r") blast+

lemma ringbuf_pop_empty:
  "rb_fifo r [] \<Longrightarrow> ringbuf_pop r = Some (RHINO_RINGBUF_EMPTY, [], 0, r)"
  using rb_fifo_empty [of r "[]"] by (simp add: ringbuf_pop_def)

lemma rb_fifo_reset: "rb_fifo r ms \<Longrightarrow> rb_fifo (ringbuf_reset r) [] \<and> same_shape r (ringbuf_reset r)"
  by (auto simp: rb_fifo_def ringbuf_reset_def rb_wf_def content_def same_shape_def)

lemma rb_fifo_init:
  assumes "b \<noteq> []" and "ty = RINGBUF_TYPE_FIX \<Longrightarrow> 0 < k \<and> k dvd length b"
  shows "rb_fifo (ringbuf_init b ty k) []"
  using assms by (auto simp: rb_fifo_def ringbuf_init_def ringbuf_reset_def rb_wf_def content_def)

section \<open>The contract of a bounded message FIFO\<close>

text \<open>
  What the queues need: a ring represents a list of messages; a push appends or reports
  \<open>full\<close> and then changes nothing; a pop returns the oldest message.
\<close>

locale message_fifo =
  fixes fifo :: "'r \<Rightarrow> 'm list \<Rightarrow> bool" and fits :: "'r \<Rightarrow> 'm \<Rightarrow> bool" and room :: "'r \<Rightarrow> 'm \<Rightarrow> bool"
    and push :: "'r \<Rightarrow> 'm \<Rightarrow> 'r option" and pop :: "'r \<Rightarrow> ('m \<times> 'r) option"
    and shape :: "'r \<Rightarrow> 'r \<Rightarrow> bool"
  assumes push_ok: "fifo r ms \<Longrightarrow> fits r m \<Longrightarrow> room r m \<Longrightarrow>
      \<exists>r'. push r m = Some r' \<and> fifo r' (ms @ [m]) \<and> shape r r'"
    and push_full: "fifo r ms \<Longrightarrow> fits r m \<Longrightarrow> \<not> room r m \<Longrightarrow> push r m = None"
    and pop_ok: "fifo r (m # ms) \<Longrightarrow> \<exists>r'. pop r = Some (m, r') \<and> fifo r' ms \<and> shape r r'"
    and pop_empty: "fifo r [] \<Longrightarrow> pop r = None"
    and shape_fits: "shape r r' \<Longrightarrow> fits r' m = fits r m"
begin

primrec push_all :: "'r \<Rightarrow> 'm list \<Rightarrow> 'r option" where
  "push_all r [] = Some r"
| "push_all r (m # ms) = (case push r m of None \<Rightarrow> None | Some r' \<Rightarrow> push_all r' ms)"

primrec pop_n :: "nat \<Rightarrow> 'r \<Rightarrow> ('m list \<times> 'r) option" where
  "pop_n 0 r = Some ([], r)"
| "pop_n (Suc k) r =
     (case pop r of None \<Rightarrow> None
      | Some (m, r') \<Rightarrow> (case pop_n k r' of None \<Rightarrow> None | Some (ms, r'') \<Rightarrow> Some (m # ms, r'')))"

lemma push_all_fifo:
  "fifo r xs \<Longrightarrow> \<forall>m \<in> set ms. fits r m \<Longrightarrow> push_all r ms = Some r' \<Longrightarrow> fifo r' (xs @ ms)"
proof (induction ms arbitrary: r xs)
  case (Cons m ms)
  then obtain r1 where r1: "push r m = Some r1" "push_all r1 ms = Some r'"
    by (auto split: option.splits)
  have room: "room r m" using push_full [of r xs m] Cons.prems(1,2) r1(1) by auto
  then have "fifo r1 (xs @ [m])" "shape r r1"
    using push_ok [OF Cons.prems(1) _ room] Cons.prems(2) r1(1) by auto
  then show ?case
    using Cons.IH [of r1 "xs @ [m]"] r1(2) Cons.prems(2) shape_fits by auto
qed simp

lemma pop_n_fifo: "fifo r (ms @ xs) \<Longrightarrow> \<exists>r'. pop_n (length ms) r = Some (ms, r') \<and> fifo r' xs"
proof (induction ms arbitrary: r)
  case (Cons m ms)
  then obtain r1 where "pop r = Some (m, r1)" "fifo r1 (ms @ xs)"
    using pop_ok [of r m "ms @ xs"] by auto
  with Cons.IH [of r1] show ?case by auto
qed simp

lemma push_pop_roundtrip:
  assumes "fifo r []" and "\<forall>m \<in> set ms. fits r m" and "push_all r ms = Some r'"
  shows "\<exists>r''. pop_n (length ms) r' = Some (ms, r'') \<and> pop r'' = None"
  using pop_n_fifo [of r' ms "[]"] push_all_fifo [OF assms] pop_empty by auto

end

definition rb_push :: "k_ringbuf \<Rightarrow> byte list \<Rightarrow> k_ringbuf option" where
  "rb_push r m = (case ringbuf_push r m (length m) of Some (RHINO_SUCCESS, r') \<Rightarrow> Some r' | _ \<Rightarrow> None)"

definition rb_pop :: "k_ringbuf \<Rightarrow> (byte list \<times> k_ringbuf) option" where
  "rb_pop r = (case ringbuf_pop r of Some (RHINO_SUCCESS, m, n, r') \<Rightarrow> Some (m, r') | _ \<Rightarrow> None)"

interpretation ring: message_fifo rb_fifo msg_ok "\<lambda>r m. frame_size r m \<le> freesize r" rb_push rb_pop same_shape
proof (unfold_locales, goal_cases)
  case (1 r ms m)
  then show ?case using ringbuf_push_ok [of r ms m] by (auto simp: rb_push_def)
next
  case (2 r ms m)
  then show ?case using ringbuf_push_full [of r ms m] by (auto simp: rb_push_def)
next
  case (3 r m ms)
  then show ?case using ringbuf_pop_ok [of r m ms] by (auto simp: rb_pop_def)
next
  case (4 r)
  then show ?case using ringbuf_pop_empty [of r] by (auto simp: rb_pop_def)
next
  case (5 r r' m)
  then show ?case by (rule same_shape_msg)
qed

section \<open>Correctness of push and pop\<close>

text \<open>
  Pushing a message onto a ring that represents the messages \<open>ms\<close> either appends it (when
  its frame fits into the free bytes), with no access outside the array even when the
  frame wraps around the end, or reports \<open>RHINO_RINGBUF_FULL\<close> and leaves the ring alone.
\<close>

theorem ringbuf_push_appends:
  assumes "rb_fifo r ms" and "msg_ok r m"
  shows "if frame_size r m \<le> freesize r
         then \<exists>r'. ringbuf_push r m (length m) = Some (RHINO_SUCCESS, r') \<and> rb_fifo r' (ms @ [m])
         else ringbuf_push r m (length m) = Some (RHINO_RINGBUF_FULL, r)"
  using ringbuf_push_ok [OF assms] ringbuf_push_full [OF assms] by auto

theorem ringbuf_push_appends_witness:
  "\<exists>r'. ringbuf_push (ringbuf_init (replicate 16 0) RINGBUF_TYPE_DYN 0) [1, 2, 3] 3 = Some (RHINO_SUCCESS, r') \<and>
     rb_fifo r' [[1, 2, 3]]"
proof -
  let ?r = "ringbuf_init (replicate 16 0) RINGBUF_TYPE_DYN 0"
  have "rb_fifo ?r []" by (rule rb_fifo_init) simp_all
  moreover have "msg_ok ?r [1, 2, 3]" by (simp add: msg_ok_def ringbuf_init_def ringbuf_reset_def)
  moreover have "frame_size ?r [1, 2, 3] \<le> freesize ?r"
    by (simp add: frame_size_def frame_def ringbuf_init_def ringbuf_reset_def)
  ultimately show ?thesis using ringbuf_push_appends [of ?r "[]" "[1, 2, 3]"] by (simp add: numeral_3_eq_3)
qed

text \<open>
  Popping returns the oldest message with its length, again without leaving the
  array, and the ring then represents the remaining messages in order.
\<close>

theorem ringbuf_pop_oldest:
  assumes "rb_fifo r (m # ms)"
  shows "\<exists>r'. ringbuf_pop r = Some (RHINO_SUCCESS, m, length m, r') \<and> rb_fifo r' ms"
  using ringbuf_pop_ok [OF assms] by blast

theorem ringbuf_pop_oldest_witness:
  "\<exists>r r'. rb_fifo r [[1, 2, 3]] \<and> ringbuf_pop r = Some (RHINO_SUCCESS, [1, 2, 3], 3, r') \<and> rb_fifo r' []"
proof -
  let ?r = "ringbuf_init (replicate 16 0) RINGBUF_TYPE_DYN 0"
  have "rb_fifo ?r []" by (rule rb_fifo_init) simp_all
  moreover have "msg_ok ?r [1, 2, 3]" by (simp add: msg_ok_def ringbuf_init_def ringbuf_reset_def)
  moreover have "frame_size ?r [1, 2, 3] \<le> freesize ?r"
    by (simp add: frame_size_def frame_def ringbuf_init_def ringbuf_reset_def)
  ultimately obtain r where "rb_fifo r [[1, 2, 3]]"
    using ringbuf_push_ok [of ?r "[]" "[1, 2, 3]"] by auto
  from ringbuf_pop_oldest [OF this] this show ?thesis by (auto simp: numeral_3_eq_3)
qed

end
