(* ===== verification/Kernel_State.thy ===== *)
theory Kernel_State
  imports Ready_Queue Ringbuf
begin

text \<open>
  The state of the kernel: the task control block (\<^verbatim>\<open>k_task.h\<close>), the blocking part that every
  kernel object starts with (\<^verbatim>\<open>k_obj.h\<close>), the objects, and the globals of \<^verbatim>\<open>k_obj.c\<close>.

  Objects live in total maps from addresses to contents.  An intrusive list is the list of the
  addresses linked in it (\<open>KList\<close> proves that the pointer operations implement this view).
  Two fields are not in the code: \<open>fault\<close> records that an operation dereferenced NULL, left
  an array or did not terminate; \<open>errs\<close> is the sequence of calls of the error hook
  \<^verbatim>\<open>k_err_proc\<close>, and \<open>freed\<close> the sequence of calls of \<^verbatim>\<open>krhino_mm_free\<close>.
\<close>

section \<open>Objects\<close>

record ktask =
  task_state :: task_stat
  blk_state :: blk_state_t
  blk_obj :: "oid option"
  prio :: nat
  b_prio :: nat
  suspend_count :: suspend_nested_t
  mutex_list :: "oid option"
  tick_match :: tick_t
  tick_remain :: tick_t
  tick_head :: bool \<comment> \<open>\<^verbatim>\<open>tick_head != NULL\<close>\<close>
  msg :: u32
  msg_buf :: "byte list" \<comment> \<open>the receiver's buffer that \<^verbatim>\<open>msg\<close> points to\<close>
  bq_msg_size :: nat
  task_sem_obj :: "oid option"
  t_slice :: u32 \<comment> \<open>\<^verbatim>\<open>time_slice\<close>\<close>
  time_total :: u32
  pend_flags :: u32
  pend_info :: u32 \<comment> \<open>the variable that \<^verbatim>\<open>pend_info\<close> points to\<close>
  pend_option :: u8
  sched_policy :: sched_policy_t
  user_info :: "u32 list"
  stack_size :: nat
  task_alloc :: alloc_flag

record blk_obj_t =
  blk_list :: "tid list"
  blk_policy :: blk_policy_t
  obj_type :: kobj_type

record ksem =
  count :: sem_count_t
  peak_count :: sem_count_t
  sem_alloc :: alloc_flag

record kmutex =
  mutex_task :: "tid option"
  mutex_next :: "oid option" \<comment> \<open>\<^verbatim>\<open>mutex_list\<close> in the code\<close>
  owner_nested :: mutex_nested_t
  mutex_alloc :: alloc_flag

record kqueue =
  q_ringbuf :: k_ringbuf
  q_size :: nat
  q_cur_num :: nat
  q_peak_num :: nat
  q_alloc :: alloc_flag

record kevent =
  flags :: u32
  event_alloc :: alloc_flag

record kbuf_queue =
  bq_ringbuf :: k_ringbuf
  bq_cur_num :: nat
  bq_peak_num :: nat
  max_msg_size :: nat
  min_free_buf_size :: nat
  bq_alloc :: alloc_flag

record kobj_list_t =
  task_head :: "tid list"
  mutex_head :: "oid list"
  sem_head :: "oid list"
  queue_head :: "oid list"
  event_head :: "oid list"
  buf_queue_head :: "oid list"

text \<open>Memory that is handed back to \<^verbatim>\<open>krhino_mm_free\<close>.\<close>

datatype kmem = Mem_tcb tid | Mem_stack tid | Mem_obj oid | Mem_buf oid

record kstate =
  tasks :: "tid \<Rightarrow> ktask"
  blks :: "oid \<Rightarrow> blk_obj_t"
  sems :: "oid \<Rightarrow> ksem"
  mutexes :: "oid \<Rightarrow> kmutex"
  queues :: "oid \<Rightarrow> kqueue"
  events :: "oid \<Rightarrow> kevent"
  buf_queues :: "oid \<Rightarrow> kbuf_queue"
  g_ready_queue :: runqueue
  g_active_task :: tid
  g_preferred_ready_task :: tid
  g_sched_lock :: u8
  g_intrpt_nested_level :: u8
  g_sys_stat :: kstat
  g_idle_task_spawned :: bool
  g_idle_count :: u32
  g_tick_count :: tick_t
  g_tick_head :: "tid list"
  g_kobj_list :: kobj_list_t
  g_res_list :: "kmem list list"
  errs :: "kstat list"
  freed :: "kmem list"
  fault :: bool

text \<open>Addresses of the kernel's own static objects.\<close>

definition g_idle_task :: tid where "g_idle_task = 0"
definition g_dyn_task :: tid where "g_dyn_task = 1"
definition g_timer_task :: tid where "g_timer_task = 2"
definition g_res_sem :: oid where "g_res_sem = 0"
definition g_timer_queue :: oid where "g_timer_queue = 1"

section \<open>Access\<close>

abbreviation tcb :: "kstate \<Rightarrow> tid \<Rightarrow> ktask" where "tcb s t \<equiv> tasks s t"

definition upd_task :: "tid \<Rightarrow> (ktask \<Rightarrow> ktask) \<Rightarrow> kstate \<Rightarrow> kstate" where
  "upd_task t f s = s\<lparr>tasks := (tasks s)(t := f (tasks s t))\<rparr>"

definition upd_blk :: "oid \<Rightarrow> (blk_obj_t \<Rightarrow> blk_obj_t) \<Rightarrow> kstate \<Rightarrow> kstate" where
  "upd_blk b f s = s\<lparr>blks := (blks s)(b := f (blks s b))\<rparr>"

definition upd_sem :: "oid \<Rightarrow> (ksem \<Rightarrow> ksem) \<Rightarrow> kstate \<Rightarrow> kstate" where
  "upd_sem b f s = s\<lparr>sems := (sems s)(b := f (sems s b))\<rparr>"

definition upd_mutex :: "oid \<Rightarrow> (kmutex \<Rightarrow> kmutex) \<Rightarrow> kstate \<Rightarrow> kstate" where
  "upd_mutex b f s = s\<lparr>mutexes := (mutexes s)(b := f (mutexes s b))\<rparr>"

definition upd_queue :: "oid \<Rightarrow> (kqueue \<Rightarrow> kqueue) \<Rightarrow> kstate \<Rightarrow> kstate" where
  "upd_queue b f s = s\<lparr>queues := (queues s)(b := f (queues s b))\<rparr>"

definition upd_event :: "oid \<Rightarrow> (kevent \<Rightarrow> kevent) \<Rightarrow> kstate \<Rightarrow> kstate" where
  "upd_event b f s = s\<lparr>events := (events s)(b := f (events s b))\<rparr>"

definition upd_buf_queue :: "oid \<Rightarrow> (kbuf_queue \<Rightarrow> kbuf_queue) \<Rightarrow> kstate \<Rightarrow> kstate" where
  "upd_buf_queue b f s = s\<lparr>buf_queues := (buf_queues s)(b := f (buf_queues s b))\<rparr>"

lemmas upd_defs = upd_task_def upd_blk_def upd_sem_def upd_mutex_def upd_queue_def upd_event_def
  upd_buf_queue_def

definition k_err_proc :: "kstat \<Rightarrow> kstate \<Rightarrow> kstate" where
  "k_err_proc e s = s\<lparr>errs := errs s @ [e]\<rparr>"

definition raise_fault :: "kstate \<Rightarrow> kstate" where
  "raise_fault s = s\<lparr>fault := True\<rparr>"

definition krhino_mm_free :: "kmem \<Rightarrow> kstate \<Rightarrow> kstate" where
  "krhino_mm_free m s = s\<lparr>freed := freed s @ [m]\<rparr>"

text \<open>\<^verbatim>\<open>klist_rm(&task->task_list)\<close> for a task on a blocking list: it leaves whichever list it is in.\<close>

definition blk_list_rm :: "tid \<Rightarrow> (oid \<Rightarrow> blk_obj_t) \<Rightarrow> oid \<Rightarrow> blk_obj_t" where
  "blk_list_rm t bs = (\<lambda>b. (bs b)\<lparr>blk_list := remove1 t (blk_list (bs b))\<rparr>)"

definition task_list_rm :: "tid \<Rightarrow> kstate \<Rightarrow> kstate" where
  "task_list_rm t s = s\<lparr>blks := blk_list_rm t (blks s)\<rparr>"

text \<open>The ready queue operations on the global ready queue.\<close>

definition rdy_add_tail :: "tid \<Rightarrow> kstate \<Rightarrow> kstate" where
  "rdy_add_tail t s = s\<lparr>g_ready_queue := ready_list_add_tail (g_ready_queue s) t (prio (tcb s t))\<rparr>"

definition rdy_add_head :: "tid \<Rightarrow> kstate \<Rightarrow> kstate" where
  "rdy_add_head t s = s\<lparr>g_ready_queue := ready_list_add_head (g_ready_queue s) t (prio (tcb s t))\<rparr>"

definition rdy_add :: "tid \<Rightarrow> kstate \<Rightarrow> kstate" where
  "rdy_add t s = s\<lparr>g_ready_queue :=
     ready_list_add (prio (tcb s (g_active_task s))) (g_ready_queue s) t (prio (tcb s t))\<rparr>"

definition rdy_rm :: "tid \<Rightarrow> kstate \<Rightarrow> kstate" where
  "rdy_rm t s =
     (case ready_list_rm (g_ready_queue s) t (prio (tcb s t)) of
        None \<Rightarrow> raise_fault s
      | Some q \<Rightarrow> s\<lparr>g_ready_queue := q\<rparr>)"

definition rdy_head_to_tail :: "tid \<Rightarrow> kstate \<Rightarrow> kstate" where
  "rdy_head_to_tail t s =
     (case ready_list_head_to_tail (g_ready_queue s) (prio (tcb s t)) of
        None \<Rightarrow> raise_fault s
      | Some q \<Rightarrow> s\<lparr>g_ready_queue := q\<rparr>)"

text \<open>
  The outcome of a call that may block: it returns, or the caller is switched out inside it; then
  the rest of the call runs when the task is scheduled again.
\<close>

datatype kres = Returned kstat | Blocked

end
