(* ===== verification/Sched.thy ===== *)
theory Sched
  imports Kernel_State
begin

text \<open>
  The scheduler (\<^verbatim>\<open>k_sched.c\<close>), the interrupt entry and exit (\<^verbatim>\<open>k_sys.c\<close>), the tick list and the
  blocking lists (\<^verbatim>\<open>k_tick.c\<close>, \<^verbatim>\<open>k_pend.c\<close>).
\<close>

section \<open>Scheduling\<close>

definition krhino_sched_disable :: "kstate \<Rightarrow> kstat \<times> kstate" where
  "krhino_sched_disable s =
     (if g_intrpt_nested_level s > 0 then (RHINO_NOT_CALLED_BY_INTRPT, s)
      else if SCHED_MAX_LOCK_COUNT \<le> g_sched_lock s then (RHINO_SCHED_LOCK_COUNT_OVF, s)
      else (RHINO_SUCCESS, s\<lparr>g_sched_lock := g_sched_lock s + 1\<rparr>))"

text \<open>
  \<^verbatim>\<open>cpu_task_switch\<close> and \<^verbatim>\<open>cpu_intrpt_switch\<close> raise PendSV, whose handler makes the preferred
  task the active one.  The preferred task is read from the ready queue; an empty
  queue is a NULL pointer.
\<close>

definition cpu_task_switch :: "kstate \<Rightarrow> kstate" where
  "cpu_task_switch s = s\<lparr>g_active_task := g_preferred_ready_task s\<rparr>"

definition core_sched :: "kstate \<Rightarrow> kstate" where
  "core_sched s =
     (if g_intrpt_nested_level s > 0 then s
      else if g_sched_lock s > 0 then s
      else case preferred_cpu_ready_task_get (g_ready_queue s) of
             None \<Rightarrow> raise_fault s
           | Some preferred_task \<Rightarrow>
               if preferred_task = g_active_task s then s
               else cpu_task_switch (s\<lparr>g_preferred_ready_task := preferred_task\<rparr>))"

definition krhino_sched_enable :: "kstate \<Rightarrow> kstat \<times> kstate" where
  "krhino_sched_enable s =
     (if g_intrpt_nested_level s > 0 then (RHINO_NOT_CALLED_BY_INTRPT, s)
      else if g_sched_lock s = 0 then (RHINO_SCHED_ALREADY_ENABLED, s)
      else let s = s\<lparr>g_sched_lock := g_sched_lock s - 1\<rparr>
           in if g_sched_lock s > 0 then (RHINO_SCHED_DISABLE, s)
              else (RHINO_SUCCESS, core_sched s))"

definition krhino_intrpt_enter :: "kstate \<Rightarrow> kstat \<times> kstate" where
  "krhino_intrpt_enter s = (RHINO_SUCCESS, s\<lparr>g_intrpt_nested_level := g_intrpt_nested_level s + 1\<rparr>)"

definition krhino_intrpt_exit :: "kstate \<Rightarrow> kstate" where
  "krhino_intrpt_exit s =
     (let s = s\<lparr>g_intrpt_nested_level := g_intrpt_nested_level s - 1\<rparr>
      in if g_intrpt_nested_level s > 0 then s
         else if g_sched_lock s > 0 then s
         else case preferred_cpu_ready_task_get (g_ready_queue s) of
                None \<Rightarrow> raise_fault s
              | Some preferred_task \<Rightarrow>
                  if preferred_task = g_active_task s then s
                  else cpu_task_switch (s\<lparr>g_preferred_ready_task := preferred_task\<rparr>))"

text \<open>The ring of the active task's priority is looked at through its first task.\<close>

definition time_slice_update :: "kstate \<Rightarrow> kstate" where
  "time_slice_update s =
     (let task_pri = prio (tcb s (g_active_task s)) in
      case cur_list_item (g_ready_queue s) task_pri of
        [] \<Rightarrow> s
      | task # rest \<Rightarrow>
          if sched_policy (tcb s task) = KSCHED_FIFO then s
          else if rest = [] then s
          else let s = (if t_slice (tcb s task) > 0
                        then upd_task task (\<lambda>k. k\<lparr>t_slice := t_slice k - 1\<rparr>) s else s)
               in if t_slice (tcb s task) > 0 then s
                  else let s = rdy_head_to_tail task s
                       in upd_task task (\<lambda>k. k\<lparr>t_slice := time_total k\<rparr>) s)"

section \<open>The tick list\<close>

definition tick_list_init :: "kstate \<Rightarrow> kstate" where
  "tick_list_init s = s\<lparr>g_tick_head := []\<rparr>"

definition tick_list_pri_insert :: "tid \<Rightarrow> kstate \<Rightarrow> kstate" where
  "tick_list_pri_insert t s =
     (let val = tick_remain (tcb s t)
      in s\<lparr>g_tick_head := insert_before (\<lambda>u. tick_match (tcb s u) - g_tick_count s > val) t (g_tick_head s)\<rparr>)"

definition tick_list_insert :: "tid \<Rightarrow> tick_t \<Rightarrow> kstate \<Rightarrow> kstate" where
  "tick_list_insert t time s =
     (if time > 0 then
        let s = upd_task t (\<lambda>k. k\<lparr>tick_match := g_tick_count s + time, tick_remain := time\<rparr>) s;
            s = tick_list_pri_insert t s
        in upd_task t (\<lambda>k. k\<lparr>tick_head := True\<rparr>) s
      else s)"

definition tick_list_rm :: "tid \<Rightarrow> kstate \<Rightarrow> kstate" where
  "tick_list_rm t s =
     (if tick_head (tcb s t) then
        let s = s\<lparr>g_tick_head := remove1 t (g_tick_head s)\<rparr>
        in upd_task t (\<lambda>k. k\<lparr>tick_head := False\<rparr>) s
      else s)"

section \<open>Blocking and waking\<close>

definition pend_list_add :: "oid \<Rightarrow> tid \<Rightarrow> kstate \<Rightarrow> kstate" where
  "pend_list_add b t s =
     upd_blk b (\<lambda>o'. o'\<lparr>blk_list :=
       insert_before (\<lambda>u. prio (tcb s u) > prio (tcb s t)) t (blk_list o')\<rparr>) s"

text \<open>The state switch that the two wake-up functions share.\<close>

definition pend_unlink :: "tid \<Rightarrow> kstate \<Rightarrow> kstate" where
  "pend_unlink t s =
     (case task_state (tcb s t) of
        K_PEND \<Rightarrow>
          let s = task_list_rm t s; s = rdy_add t s
          in upd_task t (\<lambda>k. k\<lparr>task_state := K_RDY\<rparr>) s
      | K_PEND_SUSPENDED \<Rightarrow>
          let s = task_list_rm t s in upd_task t (\<lambda>k. k\<lparr>task_state := K_SUSPENDED\<rparr>) s
      | _ \<Rightarrow> k_err_proc RHINO_SYS_FATAL_ERR s)"

definition pend_task_wakeup :: "tid \<Rightarrow> kstate \<Rightarrow> kstate" where
  "pend_task_wakeup t s =
     (let s = pend_unlink t s;
          s = tick_list_rm t s
      in upd_task t (\<lambda>k. k\<lparr>blk_state := BLK_FINISH, blk_obj := None\<rparr>) s)"

definition pend_task_rm :: "tid \<Rightarrow> kstate \<Rightarrow> kstate" where
  "pend_task_rm t s =
     (let s = pend_unlink t s;
          s = tick_list_rm t s
      in upd_task t (\<lambda>k. k\<lparr>blk_state := BLK_DEL, blk_obj := None\<rparr>) s)"

definition pend_to_blk_obj :: "oid \<Rightarrow> tid \<Rightarrow> tick_t \<Rightarrow> kstate \<Rightarrow> kstate" where
  "pend_to_blk_obj b t timeout s =
     (let s = upd_task t (\<lambda>k. k\<lparr>blk_obj := Some b\<rparr>) s;
          s = (if timeout \<noteq> RHINO_WAIT_FOREVER then tick_list_insert t timeout s else s);
          s = upd_task t (\<lambda>k. k\<lparr>task_state := K_PEND\<rparr>) s;
          s = rdy_rm t s
      in if blk_policy (blks s b) = BLK_POLICY_FIFO
         then upd_blk b (\<lambda>o'. o'\<lparr>blk_list := blk_list o' @ [t]\<rparr>) s
         else pend_list_add b t s)"

definition pend_list_reorder :: "tid \<Rightarrow> kstate \<Rightarrow> kstate" where
  "pend_list_reorder t s =
     (case blk_obj (tcb s t) of
        None \<Rightarrow> raise_fault s
      | Some b \<Rightarrow>
          if blk_policy (blks s b) = BLK_POLICY_PRI then pend_list_add b t (task_list_rm t s) else s)"

definition pend_state_end_proc :: "tid \<Rightarrow> kstate \<Rightarrow> kstat \<times> kstate" where
  "pend_state_end_proc t s =
     (case blk_state (tcb s t) of
        BLK_FINISH \<Rightarrow> (RHINO_SUCCESS, s)
      | BLK_ABORT \<Rightarrow> (RHINO_BLK_ABORT, s)
      | BLK_TIMEOUT \<Rightarrow> (RHINO_BLK_TIMEOUT, s)
      | BLK_DEL \<Rightarrow> (RHINO_BLK_DEL, s)
      | BLK_INVALID \<Rightarrow> (RHINO_BLK_INV_STATE, k_err_proc RHINO_BLK_INV_STATE s))"

text \<open>
  \<^verbatim>\<open>while (!is_klist_empty(head)) f(first)\<close>, the loop with which objects wake all their
  waiters.  It does not return (\<open>None\<close>) if \<open>f\<close> never empties the list.
\<close>

partial_function (option) drain_loop ::
  "(tid \<Rightarrow> kstate \<Rightarrow> kstate) \<Rightarrow> oid \<Rightarrow> kstate \<Rightarrow> kstate option" where
  "drain_loop f b s =
     (case blk_list (blks s b) of [] \<Rightarrow> Some s | t # ts \<Rightarrow> drain_loop f b (f t s))"

definition drain :: "(tid \<Rightarrow> kstate \<Rightarrow> kstate) \<Rightarrow> oid \<Rightarrow> kstate \<Rightarrow> kstate" where
  "drain f b s = (case drain_loop f b s of None \<Rightarrow> raise_fault s | Some s' \<Rightarrow> s')"

declare drain_loop.simps [code]

end
