(* ===== verification/Mutex.thy ===== *)
theory Mutex
  imports Sched
begin

text \<open>
  Mutexes with priority inheritance (\<^verbatim>\<open>k_mutex.c\<close>) and the priority change that carries the
  inheritance along chains of blocked owners (\<^verbatim>\<open>task_pri_change\<close> of \<^verbatim>\<open>k_task.c\<close>).
\<close>

section \<open>The chain of mutexes a task holds\<close>

definition is_mutex :: "blk_obj_t \<Rightarrow> bool" where
  "is_mutex o' \<longleftrightarrow> obj_type o' = RHINO_MUTEX_OBJ_TYPE"

text \<open>
  \<^verbatim>\<open>kmutex_t **prev\<close>: the place of a chain pointer, the field \<^verbatim>\<open>mutex_list\<close> of a task or of a mutex.
\<close>

datatype chain_slot = Task_slot tid | Mutex_slot oid

definition slot_get :: "kstate \<Rightarrow> chain_slot \<Rightarrow> oid option" where
  "slot_get s p = (case p of Task_slot t \<Rightarrow> mutex_list (tcb s t) | Mutex_slot m \<Rightarrow> mutex_next (mutexes s m))"

definition slot_set :: "chain_slot \<Rightarrow> oid option \<Rightarrow> kstate \<Rightarrow> kstate" where
  "slot_set p v s =
     (case p of
        Task_slot t \<Rightarrow> upd_task t (\<lambda>k. k\<lparr>mutex_list := v\<rparr>) s
      | Mutex_slot m \<Rightarrow> upd_mutex m (\<lambda>x. x\<lparr>mutex_next := v\<rparr>) s)"

text \<open>The priority of the first waiter of \<open>m\<close>, or \<open>pri\<close> when nobody waits.\<close>

definition first_waiter_pri :: "kstate \<Rightarrow> oid \<Rightarrow> nat \<Rightarrow> nat" where
  "first_waiter_pri s m pri = (case blk_list (blks s m) of [] \<Rightarrow> pri | t # ts \<Rightarrow> prio (tcb s t))"

partial_function (option) mutex_pri_limit_loop :: "kstate \<Rightarrow> oid option \<Rightarrow> nat \<Rightarrow> nat \<Rightarrow> nat option" where
  "mutex_pri_limit_loop s p pri high_pri =
     (case p of
        None \<Rightarrow> Some high_pri
      | Some m \<Rightarrow>
          let pri = first_waiter_pri s m pri
          in mutex_pri_limit_loop s (mutex_next (mutexes s m)) pri (if pri < high_pri then pri else high_pri))"

definition mutex_pri_limit :: "kstate \<Rightarrow> tid \<Rightarrow> nat \<Rightarrow> nat option" where
  "mutex_pri_limit s t pri = mutex_pri_limit_loop s (mutex_list (tcb s t)) pri pri"

partial_function (option) mutex_pri_look_loop ::
  "oid option \<Rightarrow> chain_slot \<Rightarrow> nat \<Rightarrow> nat \<Rightarrow> kstate \<Rightarrow> (nat \<times> kstate) option" where
  "mutex_pri_look_loop mutex_rel prev pri new_pri s =
     (case slot_get s prev of
        None \<Rightarrow> Some (new_pri, s)
      | Some m \<Rightarrow>
          if Some m = mutex_rel
          then mutex_pri_look_loop mutex_rel prev pri new_pri (slot_set prev (mutex_next (mutexes s m)) s)
          else let pri = first_waiter_pri s m pri
               in mutex_pri_look_loop mutex_rel (Mutex_slot m) pri (if new_pri > pri then pri else new_pri) s)"

definition mutex_pri_look :: "tid \<Rightarrow> oid option \<Rightarrow> kstate \<Rightarrow> (nat \<times> kstate) option" where
  "mutex_pri_look t mutex_rel s =
     (let new_pri = b_prio (tcb s t) in mutex_pri_look_loop mutex_rel (Task_slot t) new_pri new_pri s)"

section \<open>Changing a priority\<close>

text \<open>
  The body of the loop of \<^verbatim>\<open>task_pri_change\<close>.  \<open>Stop\<close> ends it with a status; \<open>Next t pri\<close>
  continues with the owner of the mutex that the task is waiting for.
\<close>

datatype pri_step = Stop kstat | Next tid nat

definition task_pri_change_step :: "tid \<Rightarrow> nat \<Rightarrow> kstate \<Rightarrow> (pri_step \<times> kstate) option" where
  "task_pri_change_step t new_pri s =
     (if prio (tcb s t) = new_pri then Some (Stop RHINO_SUCCESS, s)
      else case task_state (tcb s t) of
        K_RDY \<Rightarrow>
          let s = rdy_rm t s;
              s = upd_task t (\<lambda>k. k\<lparr>prio := new_pri\<rparr>) s
          in Some (Stop RHINO_SUCCESS, if t = g_active_task s then rdy_add_head t s else rdy_add_tail t s)
      | K_SLEEP \<Rightarrow> Some (Stop RHINO_SUCCESS, upd_task t (\<lambda>k. k\<lparr>prio := new_pri\<rparr>) s)
      | K_SUSPENDED \<Rightarrow> Some (Stop RHINO_SUCCESS, upd_task t (\<lambda>k. k\<lparr>prio := new_pri\<rparr>) s)
      | K_SLEEP_SUSPENDED \<Rightarrow> Some (Stop RHINO_SUCCESS, upd_task t (\<lambda>k. k\<lparr>prio := new_pri\<rparr>) s)
      | K_SEED \<Rightarrow> Some (Stop RHINO_INV_TASK_STATE, k_err_proc RHINO_INV_TASK_STATE s)
      | K_DELETED \<Rightarrow> Some (Stop RHINO_INV_TASK_STATE, k_err_proc RHINO_INV_TASK_STATE s)
      | _ \<Rightarrow>
          let old_pri = prio (tcb s t);
              s = upd_task t (\<lambda>k. k\<lparr>prio := new_pri\<rparr>) s;
              s = pend_list_reorder t s
          in case blk_obj (tcb s t) of
               None \<Rightarrow> Some (Stop RHINO_SUCCESS, raise_fault s)
             | Some b \<Rightarrow>
                 if is_mutex (blks s b) then
                   case mutex_task (mutexes s b) of
                     None \<Rightarrow> Some (Stop RHINO_SUCCESS, raise_fault s)
                   | Some u \<Rightarrow>
                       if prio (tcb s u) > prio (tcb s t) then Some (Next u new_pri, s)
                       else if prio (tcb s u) = old_pri then
                         case mutex_pri_look u None s of
                           None \<Rightarrow> None
                         | Some (new_pri, s) \<Rightarrow>
                             if new_pri \<noteq> prio (tcb s u) then Some (Next u new_pri, s)
                             else Some (Stop RHINO_SUCCESS, s)
                       else Some (Stop RHINO_SUCCESS, s)
                 else Some (Stop RHINO_SUCCESS, s))"

partial_function (option) task_pri_change :: "tid \<Rightarrow> nat \<Rightarrow> kstate \<Rightarrow> (kstat \<times> kstate) option" where
  "task_pri_change t new_pri s =
     (case task_pri_change_step t new_pri s of
        None \<Rightarrow> None
      | Some (Stop st, s) \<Rightarrow> Some (st, s)
      | Some (Next u pri, s) \<Rightarrow> task_pri_change u pri s)"

section \<open>The mutex operations\<close>

definition mutex_create :: "oid option \<Rightarrow> bool \<Rightarrow> alloc_flag \<Rightarrow> kstate \<Rightarrow> kstat \<times> kstate" where
  "mutex_create mutex name_ok mm_alloc_flag s =
     (case mutex of
        None \<Rightarrow> (RHINO_NULL_PTR, s)
      | Some m \<Rightarrow>
          if \<not> name_ok then (RHINO_NULL_PTR, s)
          else
            let s = upd_blk m (\<lambda>o'. o'\<lparr>blk_list := [], blk_policy := BLK_POLICY_PRI\<rparr>) s;
                s = upd_mutex m (\<lambda>x. x\<lparr>mutex_task := None, mutex_next := None, mutex_alloc := mm_alloc_flag\<rparr>) s;
                s = s\<lparr>g_kobj_list := (g_kobj_list s)\<lparr>mutex_head := mutex_head (g_kobj_list s) @ [m]\<rparr>\<rparr>;
                s = upd_blk m (\<lambda>o'. o'\<lparr>obj_type := RHINO_MUTEX_OBJ_TYPE\<rparr>) s
            in (RHINO_SUCCESS, s))"

definition krhino_mutex_create :: "oid option \<Rightarrow> bool \<Rightarrow> kstate \<Rightarrow> kstat \<times> kstate" where
  "krhino_mutex_create mutex name_ok s = mutex_create mutex name_ok K_OBJ_STATIC_ALLOC s"

definition mutex_release :: "tid \<Rightarrow> oid option \<Rightarrow> kstate \<Rightarrow> kstate" where
  "mutex_release t mutex_rel s =
     (case mutex_pri_look t mutex_rel s of
        None \<Rightarrow> raise_fault s
      | Some (new_pri, s) \<Rightarrow>
          if new_pri \<noteq> prio (tcb s t) then
            (case task_pri_change t new_pri s of None \<Rightarrow> raise_fault s | Some (st, s) \<Rightarrow> s)
          else s)"

text \<open>\<open>krhino_mutex_del\<close> and \<open>krhino_mutex_dyn_del\<close> differ in the allocation flag they accept.\<close>

definition mutex_del :: "alloc_flag \<Rightarrow> oid option \<Rightarrow> kstate \<Rightarrow> kstat \<times> kstate" where
  "mutex_del alloc mutex s =
     (case mutex of
        None \<Rightarrow> (RHINO_NULL_PTR, s)
      | Some m \<Rightarrow>
          if g_intrpt_nested_level s > 0 then (RHINO_NOT_CALLED_BY_INTRPT, s)
          else if obj_type (blks s m) \<noteq> RHINO_MUTEX_OBJ_TYPE then (RHINO_KOBJ_TYPE_ERR, s)
          else if mutex_alloc (mutexes s m) \<noteq> alloc then (RHINO_KOBJ_DEL_ERR, s)
          else
            let s = upd_blk m (\<lambda>o'. o'\<lparr>obj_type := RHINO_OBJ_TYPE_NONE\<rparr>) s;
                s = (case mutex_task (mutexes s m) of None \<Rightarrow> s | Some t \<Rightarrow> mutex_release t (Some m) s);
                s = drain pend_task_rm m s;
                s = s\<lparr>g_kobj_list := (g_kobj_list s)\<lparr>mutex_head := remove1 m (mutex_head (g_kobj_list s))\<rparr>\<rparr>
            in (RHINO_SUCCESS, core_sched s))"

definition krhino_mutex_del :: "oid option \<Rightarrow> kstate \<Rightarrow> kstat \<times> kstate" where
  "krhino_mutex_del mutex s = mutex_del K_OBJ_STATIC_ALLOC mutex s"

definition krhino_mutex_dyn_del :: "oid option \<Rightarrow> kstate \<Rightarrow> kstat \<times> kstate" where
  "krhino_mutex_dyn_del mutex s =
     (case mutex_del K_OBJ_DYN_ALLOC mutex s of
        (st, s) \<Rightarrow>
          (case mutex of
             Some m \<Rightarrow> if st = RHINO_SUCCESS then (st, krhino_mm_free (Mem_obj m) s) else (st, s)
           | None \<Rightarrow> (st, s)))"

text \<open>\<open>mem\<close> is the result of \<^verbatim>\<open>krhino_mm_alloc\<close>; the second result is \<^verbatim>\<open>*mutex\<close>.\<close>

definition krhino_mutex_dyn_create ::
  "bool \<Rightarrow> bool \<Rightarrow> oid option \<Rightarrow> kstate \<Rightarrow> kstat \<times> oid option \<times> kstate" where
  "krhino_mutex_dyn_create ptr_ok name_ok mem s =
     (if \<not> ptr_ok then (RHINO_NULL_PTR, None, s)
      else case mem of
             None \<Rightarrow> (RHINO_NO_MEM, None, s)
           | Some m \<Rightarrow>
               (case mutex_create (Some m) name_ok K_OBJ_DYN_ALLOC s of
                  (stat, s) \<Rightarrow>
                    if stat \<noteq> RHINO_SUCCESS then (stat, None, krhino_mm_free (Mem_obj m) s)
                    else (stat, Some m, s)))"

definition mutex_task_pri_reset :: "tid \<Rightarrow> kstate \<Rightarrow> kstate" where
  "mutex_task_pri_reset t s =
     (case blk_obj (tcb s t) of
        None \<Rightarrow> raise_fault s
      | Some b \<Rightarrow>
          if is_mutex (blks s b) then
            (case mutex_task (mutexes s b) of
               None \<Rightarrow> raise_fault s
             | Some u \<Rightarrow> if prio (tcb s u) = prio (tcb s t) then mutex_release u None s else s)
          else s)"

text \<open>Making \<open>t\<close> the owner: the mutex becomes the first of the chain of \<open>t\<close>.\<close>

definition mutex_own :: "oid \<Rightarrow> tid \<Rightarrow> kstate \<Rightarrow> kstate" where
  "mutex_own m t s =
     (let s = upd_mutex m (\<lambda>x. x\<lparr>mutex_task := Some t, mutex_next := mutex_list (tcb s t)\<rparr>) s
      in upd_task t (\<lambda>k. k\<lparr>mutex_list := Some m\<rparr>) s)"

definition krhino_mutex_lock :: "oid option \<Rightarrow> tick_t \<Rightarrow> kstate \<Rightarrow> kres \<times> kstate" where
  "krhino_mutex_lock mutex ticks s =
     (case mutex of
        None \<Rightarrow> (Returned RHINO_NULL_PTR, s)
      | Some m \<Rightarrow>
          if g_sys_stat s = RHINO_STOPPED then (Returned RHINO_SUCCESS, s)
          else if g_intrpt_nested_level s > 0 then (Returned RHINO_NOT_CALLED_BY_INTRPT, s)
          else if obj_type (blks s m) \<noteq> RHINO_MUTEX_OBJ_TYPE then (Returned RHINO_KOBJ_TYPE_ERR, s)
          else
            let cur = g_active_task s in
            if Some cur = mutex_task (mutexes s m) then
              if owner_nested (mutexes s m) = - 1
              then (Returned RHINO_MUTEX_NESTED_OVF, k_err_proc RHINO_MUTEX_NESTED_OVF s)
              else (Returned RHINO_MUTEX_OWNER_NESTED,
                    upd_mutex m (\<lambda>x. x\<lparr>owner_nested := owner_nested x + 1\<rparr>) s)
            else
              (case mutex_task (mutexes s m) of
                 None \<Rightarrow>
                   (Returned RHINO_SUCCESS,
                    upd_mutex m (\<lambda>x. x\<lparr>owner_nested := 1\<rparr>) (mutex_own m cur s))
               | Some owner \<Rightarrow>
                   if ticks = RHINO_NO_WAIT then (Returned RHINO_NO_PEND_WAIT, s)
                   else if g_sched_lock s > 0 then (Returned RHINO_SCHED_DISABLE, s)
                   else
                     let s = (if prio (tcb s cur) < prio (tcb s owner) then
                                (case task_pri_change owner (prio (tcb s cur)) s of
                                   None \<Rightarrow> raise_fault s | Some (st, s) \<Rightarrow> s)
                              else s);
                         s = pend_to_blk_obj m cur ticks s
                     in (Blocked, core_sched s)))"

text \<open>The rest of a blocked \<open>krhino_mutex_lock\<close>, run when the task is active again.\<close>

definition krhino_mutex_lock_end :: "kstate \<Rightarrow> kstat \<times> kstate" where
  "krhino_mutex_lock_end s = pend_state_end_proc (g_active_task s) s"

definition krhino_mutex_unlock :: "oid option \<Rightarrow> kstate \<Rightarrow> kstat \<times> kstate" where
  "krhino_mutex_unlock mutex s =
     (case mutex of
        None \<Rightarrow> (RHINO_NULL_PTR, s)
      | Some m \<Rightarrow>
          if g_sys_stat s = RHINO_STOPPED then (RHINO_SUCCESS, s)
          else if g_intrpt_nested_level s > 0 then (RHINO_NOT_CALLED_BY_INTRPT, s)
          else if obj_type (blks s m) \<noteq> RHINO_MUTEX_OBJ_TYPE then (RHINO_KOBJ_TYPE_ERR, s)
          else if Some (g_active_task s) \<noteq> mutex_task (mutexes s m)
          then (RHINO_MUTEX_NOT_RELEASED_BY_OWNER, s)
          else
            let s = upd_mutex m (\<lambda>x. x\<lparr>owner_nested := owner_nested x - 1\<rparr>) s in
            if owner_nested (mutexes s m) > 0 then (RHINO_MUTEX_OWNER_NESTED, s)
            else
              let s = mutex_release (g_active_task s) (Some m) s in
              (case blk_list (blks s m) of
                 [] \<Rightarrow> (RHINO_SUCCESS, upd_mutex m (\<lambda>x. x\<lparr>mutex_task := None\<rparr>) s)
               | t # ts \<Rightarrow>
                   let s = pend_task_wakeup t s;
                       s = mutex_own m t s;
                       s = upd_mutex m (\<lambda>x. x\<lparr>owner_nested := 1\<rparr>) s
                   in (RHINO_SUCCESS, core_sched s)))"

end
