(* ===== verification/Kernel_Inv.thy ===== *)
theory Kernel_Inv
  imports Mutex
begin

text \<open>
  The invariants of the kernel state, one per list structure, each a predicate on the components of
  the state it speaks about; for each the effect of the primitive updates (a task is linked,
  unlinked, or changed in a field that does not matter).
\<close>

section \<open>Classes of task states\<close>

definition is_pend :: "ktask \<Rightarrow> bool" where
  "is_pend k \<longleftrightarrow> task_state k = K_PEND \<or> task_state k = K_PEND_SUSPENDED"

definition is_sleep :: "ktask \<Rightarrow> bool" where
  "is_sleep k \<longleftrightarrow> task_state k = K_SLEEP \<or> task_state k = K_SLEEP_SUSPENDED"

definition is_susp :: "ktask \<Rightarrow> bool" where
  "is_susp k \<longleftrightarrow> task_state k = K_SUSPENDED \<or> task_state k = K_SLEEP_SUSPENDED \<or> task_state k = K_PEND_SUSPENDED"

definition is_live :: "ktask \<Rightarrow> bool" where
  "is_live k \<longleftrightarrow> task_state k \<noteq> K_SEED \<and> task_state k \<noteq> K_DELETED"

lemmas state_classes = is_pend_def is_sleep_def is_susp_def is_live_def

section \<open>Ready tasks\<close>

definition rdy_view :: "ktask \<Rightarrow> nat option" where
  "rdy_view k = (if task_state k = K_RDY then Some (prio k) else None)"

definition rdy_ok :: "(tid \<Rightarrow> ktask) \<Rightarrow> runqueue \<Rightarrow> bool" where
  "rdy_ok T q \<longleftrightarrow> rq.holds q (rdy_view \<circ> T)"

lemma rdy_view_upd: "rdy_view \<circ> T(t := k) = (rdy_view \<circ> T)(t := rdy_view k)"
  by auto

lemma rdy_ok_frame: "rdy_ok T q \<Longrightarrow> rdy_view k = rdy_view (T t) \<Longrightarrow> rdy_ok (T(t := k)) q"
  unfolding rdy_ok_def rdy_view_upd by (metis comp_apply fun_upd_triv)

lemma rdy_ok_add_tail:
  "rdy_ok T q \<Longrightarrow> task_state (T t) \<noteq> K_RDY \<Longrightarrow> task_state k = K_RDY \<Longrightarrow> prio k = p \<Longrightarrow> p < 62 \<Longrightarrow>
   rdy_ok (T(t := k)) (ready_list_add_tail q t p)"
  unfolding rdy_ok_def rdy_view_upd
  using rq.holds_add_tail [of q "rdy_view \<circ> T" p t] by (simp add: rdy_view_def)

lemma rdy_ok_add_head:
  "rdy_ok T q \<Longrightarrow> task_state (T t) \<noteq> K_RDY \<Longrightarrow> task_state k = K_RDY \<Longrightarrow> prio k = p \<Longrightarrow> p < 62 \<Longrightarrow>
   rdy_ok (T(t := k)) (ready_list_add_head q t p)"
  unfolding rdy_ok_def rdy_view_upd
  using rq.holds_add_head [of q "rdy_view \<circ> T" p t] by (simp add: rdy_view_def)

lemma rdy_ok_add:
  "rdy_ok T q \<Longrightarrow> task_state (T t) \<noteq> K_RDY \<Longrightarrow> task_state k = K_RDY \<Longrightarrow> prio k = p \<Longrightarrow> p < 62 \<Longrightarrow>
   rdy_ok (T(t := k)) (ready_list_add a q t p)"
  by (simp add: ready_list_add_def rdy_ok_add_tail rdy_ok_add_head)

lemma rdy_ok_rm:
  assumes "rdy_ok T q" and "task_state (T t) = K_RDY" and "u \<noteq> t" and "task_state (T u) = K_RDY"
    and "task_state k \<noteq> K_RDY"
  shows "\<exists>q'. ready_list_rm q t (prio (T t)) = Some q' \<and> rdy_ok (T(t := k)) q'"
  using rq.holds_rm [of q "rdy_view \<circ> T" t "prio (T t)" u] assms
  by (auto simp: rdy_ok_def rdy_view_upd rdy_view_def)

lemma rdy_ok_rotate:
  assumes "rdy_ok T q" and "task_state (T t) = K_RDY" and "prio (T t) = p"
  shows "\<exists>q'. ready_list_head_to_tail q p = Some q' \<and> rdy_ok T q'"
  using rq.holds_rotate [of q "rdy_view \<circ> T" t "prio (T t)"] assms
  by (auto simp: rdy_ok_def rdy_view_def)

lemma rdy_ok_prio: "rdy_ok T q \<Longrightarrow> task_state (T t) = K_RDY \<Longrightarrow> prio (T t) < 62"
  using rq.holds_bound [of q "rdy_view \<circ> T" t "prio (T t)"] by (simp add: rdy_ok_def rdy_view_def)

lemma rdy_ok_member:
  "rdy_ok T q \<Longrightarrow> t \<in> set (cur_list_item q p) \<longleftrightarrow> task_state (T t) = K_RDY \<and> prio (T t) = p"
  using rq.holdsD(3) [of q "rdy_view \<circ> T" t p] by (auto simp: rdy_ok_def rdy_view_def)

text \<open>The task the scheduler picks: ready, and of the highest priority among the ready tasks.\<close>

lemma rdy_ok_top:
  assumes "rdy_ok T q" and "task_state (T u) = K_RDY"
  shows "\<exists>t. preferred_cpu_ready_task_get q = Some t \<and> task_state (T t) = K_RDY \<and>
           (\<forall>v. task_state (T v) = K_RDY \<longrightarrow> prio (T t) \<le> prio (T v)) \<and>
           cur_list_item q (prio (T t)) \<noteq> [] \<and> hd (cur_list_item q (prio (T t))) = t"
proof -
  have "(rdy_view \<circ> T) u \<noteq> None" using assms(2) by (simp add: rdy_view_def)
  from rq.holds_top [OF assms(1) [unfolded rdy_ok_def] this]
  obtain t p where t: "preferred_cpu_ready_task_get q = Some t" "rdy_view (T t) = Some p"
      "\<forall>y r. rdy_view (T y) = Some r \<longrightarrow> p \<le> r" "cur_list_item q p \<noteq> []" "hd (cur_list_item q p) = t"
    by auto
  from t(2) have p: "task_state (T t) = K_RDY" "p = prio (T t)"
    by (auto simp: rdy_view_def split: if_splits)
  have "prio (T t) \<le> prio (T v)" if "task_state (T v) = K_RDY" for v
    using t(3) [rule_format, of v "prio (T v)"] that p by (simp add: rdy_view_def)
  with t p show ?thesis by auto
qed

section \<open>Blocked tasks\<close>

definition pend_view :: "ktask \<Rightarrow> (oid option \<times> nat) option" where
  "pend_view k = (if is_pend k then Some (blk_obj k, prio k) else None)"

definition blk_ok :: "(tid \<Rightarrow> ktask) \<Rightarrow> (oid \<Rightarrow> blk_obj_t) \<Rightarrow> bool" where
  "blk_ok T B \<longleftrightarrow>
     (\<forall>b. distinct (blk_list (B b))) \<and>
     (\<forall>b t. t \<in> set (blk_list (B b)) \<longleftrightarrow> is_pend (T t) \<and> blk_obj (T t) = Some b) \<and>
     (\<forall>t. is_pend (T t) \<longrightarrow> blk_obj (T t) \<noteq> None) \<and>
     (\<forall>b. blk_policy (B b) = BLK_POLICY_PRI \<longrightarrow> sorted (map (\<lambda>t. prio (T t)) (blk_list (B b))))"

lemma blk_okD:
  assumes "blk_ok T B"
  shows "distinct (blk_list (B b))"
    and "t \<in> set (blk_list (B b)) \<longleftrightarrow> is_pend (T t) \<and> blk_obj (T t) = Some b"
    and "is_pend (T t) \<Longrightarrow> blk_obj (T t) \<noteq> None"
    and "blk_policy (B b) = BLK_POLICY_PRI \<Longrightarrow> sorted (map (\<lambda>t. prio (T t)) (blk_list (B b)))"
  using assms by (auto simp: blk_ok_def)

lemma blk_list_rm_simps [simp]:
  "blk_list (blk_list_rm t B b) = remove1 t (blk_list (B b))"
  "blk_policy (blk_list_rm t B b) = blk_policy (B b)"
  "obj_type (blk_list_rm t B b) = obj_type (B b)"
  "is_mutex (blk_list_rm t B b) = is_mutex (B b)"
  by (simp_all add: blk_list_rm_def is_mutex_def)

lemma map_prio_upd_notin:
  "t \<notin> set xs \<Longrightarrow> map (\<lambda>u. prio ((T(t := k)) u)) xs = map (\<lambda>u. prio (T u)) xs"
  by (induction xs) auto

lemma pend_view_eqD:
  assumes "pend_view k = pend_view k'"
  shows "is_pend k = is_pend k'" and "is_pend k' \<Longrightarrow> blk_obj k = blk_obj k'"
    and "is_pend k' \<Longrightarrow> prio k = prio k'"
  using assms by (auto simp: pend_view_def split: if_splits)

lemma blk_ok_frame:
  assumes ok: "blk_ok T B" and eq: "pend_view k = pend_view (T t)"
  shows "blk_ok (T(t := k)) B"
proof -
  note e = pend_view_eqD [OF eq]
  have m: "map (\<lambda>u. prio ((T(t := k)) u)) (blk_list (B b)) = map (\<lambda>u. prio (T u)) (blk_list (B b))" for b
  proof (rule map_cong [OF refl])
    fix u assume "u \<in> set (blk_list (B b))"
    then have "is_pend (T u)" using blk_okD(2) [OF ok] by blast
    then show "prio ((T(t := k)) u) = prio (T u)" using e by (cases "u = t") auto
  qed
  show ?thesis
    unfolding blk_ok_def m using ok e by (auto simp: blk_ok_def)
qed

lemma blk_ok_rm:
  assumes ok: "blk_ok T B" and np: "\<not> is_pend k"
  shows "blk_ok (T(t := k)) (blk_list_rm t B)"
proof -
  have d: "distinct (blk_list (B b))" for b using blk_okD(1) [OF ok] .
  have m: "map (\<lambda>u. prio ((T(t := k)) u)) (remove1 t (blk_list (B b))) =
      map (\<lambda>u. prio (T u)) (remove1 t (blk_list (B b)))" for b
    using d by (intro map_prio_upd_notin) simp
  have "sorted (map (\<lambda>u. prio (T u)) (remove1 t (blk_list (B b))))"
    if "blk_policy (B b) = BLK_POLICY_PRI" for b
    using blk_okD(4) [OF ok that] by (simp add: sorted_map sorted_wrt_remove1)
  then show ?thesis
    unfolding blk_ok_def blk_list_rm_simps m
    using ok np d by (auto simp: blk_ok_def set_remove1_distinct)
qed

definition blk_enter :: "(tid \<Rightarrow> ktask) \<Rightarrow> tid \<Rightarrow> blk_obj_t \<Rightarrow> blk_obj_t" where
  "blk_enter T t o' = o'\<lparr>blk_list :=
     (if blk_policy o' = BLK_POLICY_FIFO then blk_list o' @ [t]
      else insert_before (\<lambda>u. prio (T u) > prio (T t)) t (blk_list o'))\<rparr>"

lemma blk_enter_simps [simp]:
  "set (blk_list (blk_enter T t o')) = insert t (set (blk_list o'))"
  "distinct (blk_list (blk_enter T t o')) = (t \<notin> set (blk_list o') \<and> distinct (blk_list o'))"
  "blk_list (blk_enter T t o') \<noteq> []"
  "blk_policy (blk_enter T t o') = blk_policy o'"
  "obj_type (blk_enter T t o') = obj_type o'"
  "is_mutex (blk_enter T t o') = is_mutex o'"
  by (auto simp: blk_enter_def is_mutex_def)

lemma blk_ok_enter:
  assumes ok: "blk_ok T B" and out: "\<not> is_pend (T t)" and k: "is_pend k" "blk_obj k = Some b"
  shows "blk_ok (T(t := k)) (B(b := blk_enter (T(t := k)) t (B b)))"
proof -
  let ?T = "T(t := k)" and ?B = "B(b := blk_enter (T(t := k)) t (B b))"
  have t: "t \<notin> set (blk_list (B c))" for c using blk_okD(2) [OF ok] out by simp
  have m: "map (\<lambda>u. prio (?T u)) (blk_list (B c)) = map (\<lambda>u. prio (T u)) (blk_list (B c))" for c
    by (rule map_prio_upd_notin [OF t])
  have s: "sorted (map (\<lambda>u. prio (?T u)) (blk_list (?B c)))" if "blk_policy (?B c) = BLK_POLICY_PRI" for c
  proof (cases "c = b")
    case True
    have "sorted (map (\<lambda>u. prio (?T u)) (blk_list (B b)))"
      using blk_okD(4) [OF ok, of b] that True unfolding m by simp
    from sorted_key_insert_before [OF this, of t] show ?thesis
      using that True by (simp add: blk_enter_def)
  next
    case False
    then have "?B c = B c" by simp
    then show ?thesis using blk_okD(4) [OF ok, of c] that by (simp only: m)
  qed
  have "distinct (blk_list (?B c))" for c using t blk_okD(1) [OF ok] by simp
  moreover have "u \<in> set (blk_list (?B c)) \<longleftrightarrow> is_pend (?T u) \<and> blk_obj (?T u) = Some c" for u c
    using blk_okD(2) [OF ok, of u c] out k by (cases "u = t"; cases "c = b") auto
  ultimately show ?thesis
    using s k blk_okD(3) [OF ok] unfolding blk_ok_def by simp
qed

section \<open>Tasks with a timeout\<close>

definition tick_ok :: "(tid \<Rightarrow> ktask) \<Rightarrow> tid list \<Rightarrow> tick_t \<Rightarrow> bool" where
  "tick_ok T H c \<longleftrightarrow>
     distinct H \<and> (\<forall>t. t \<in> set H \<longleftrightarrow> tick_head (T t)) \<and>
     (\<forall>t. tick_head (T t) \<longrightarrow> is_pend (T t) \<or> is_sleep (T t)) \<and>
     (\<forall>t. is_sleep (T t) \<longrightarrow> tick_head (T t)) \<and>
     sorted (map (\<lambda>t. tick_match (T t) - c) H)"

definition tick_view :: "ktask \<Rightarrow> tick_t option \<times> bool \<times> bool" where
  "tick_view k = (if tick_head k then Some (tick_match k) else None, is_pend k \<or> is_sleep k, is_sleep k)"

lemma tick_okD:
  assumes "tick_ok T H c"
  shows "distinct H" and "t \<in> set H \<longleftrightarrow> tick_head (T t)"
    and "tick_head (T t) \<Longrightarrow> is_pend (T t) \<or> is_sleep (T t)"
    and "is_sleep (T t) \<Longrightarrow> tick_head (T t)"
    and "sorted (map (\<lambda>t. tick_match (T t) - c) H)"
  using assms by (auto simp: tick_ok_def)

lemma map_tick_upd_notin:
  "t \<notin> set xs \<Longrightarrow> map (\<lambda>u. tick_match ((T(t := k)) u) - c) xs = map (\<lambda>u. tick_match (T u) - c) xs"
  by (induction xs) auto

lemma tick_view_eqD:
  assumes "tick_view k = tick_view k'"
  shows "tick_head k = tick_head k'" and "tick_head k' \<Longrightarrow> tick_match k = tick_match k'"
    and "(is_pend k \<or> is_sleep k) = (is_pend k' \<or> is_sleep k')" and "is_sleep k = is_sleep k'"
  using assms by (auto simp: tick_view_def split: if_splits)

lemma tick_ok_frame:
  assumes ok: "tick_ok T H c" and eq: "tick_view k = tick_view (T t)"
  shows "tick_ok (T(t := k)) H c"
proof -
  note e = tick_view_eqD [OF eq]
  have m: "map (\<lambda>u. tick_match ((T(t := k)) u) - c) H = map (\<lambda>u. tick_match (T u) - c) H"
  proof (rule map_cong [OF refl])
    fix u assume "u \<in> set H"
    then have "tick_head (T u)" using tick_okD(2) [OF ok] by blast
    then show "tick_match ((T(t := k)) u) - c = tick_match (T u) - c" using e by (cases "u = t") auto
  qed
  show ?thesis
    unfolding tick_ok_def m using ok e by (auto simp: tick_ok_def)
qed

lemma tick_ok_rm:
  assumes ok: "tick_ok T H c" and k: "\<not> tick_head k" "\<not> is_sleep k"
  shows "tick_ok (T(t := k)) (remove1 t H) c"
proof -
  have d: "distinct H" using tick_okD(1) [OF ok] .
  have m: "map (\<lambda>u. tick_match ((T(t := k)) u) - c) (remove1 t H) = map (\<lambda>u. tick_match (T u) - c) (remove1 t H)"
    using d by (intro map_tick_upd_notin) simp
  have "sorted (map (\<lambda>u. tick_match (T u) - c) (remove1 t H))"
    using tick_okD(5) [OF ok] by (simp add: sorted_map sorted_wrt_remove1)
  then show ?thesis
    unfolding tick_ok_def m using ok k d by (auto simp: tick_ok_def set_remove1_distinct)
qed

lemma tick_ok_insert:
  assumes ok: "tick_ok T H c" and out: "\<not> tick_head (T t)"
    and k: "tick_head k" "tick_match k = c + time" "is_pend k \<or> is_sleep k"
  shows "tick_ok (T(t := k)) (insert_before (\<lambda>u. tick_match (T u) - c > time) t H) c"
proof -
  let ?T = "T(t := k)"
  have t: "t \<notin> set H" using tick_okD(2) [OF ok] out by simp
  have eq: "insert_before (\<lambda>u. tick_match (T u) - c > time) t H =
      insert_before (\<lambda>u. tick_match (?T t) - c < tick_match (?T u) - c) t H"
    using t k(2) by (intro insert_before_cong) (auto simp: fun_upd_def)
  have "sorted (map (\<lambda>u. tick_match (?T u) - c) H)"
    using tick_okD(5) [OF ok] by (simp only: map_tick_upd_notin [OF t])
  then have "sorted (map (\<lambda>u. tick_match (?T u) - c) (insert_before (\<lambda>u. tick_match (T u) - c > time) t H))"
    unfolding eq by (rule sorted_key_insert_before)
  then show ?thesis
    using ok k t out unfolding tick_ok_def by auto
qed

text \<open>Between two ticks no timeout is due.\<close>

definition tick_pos :: "(tid \<Rightarrow> ktask) \<Rightarrow> tick_t \<Rightarrow> bool" where
  "tick_pos T c \<longleftrightarrow> (\<forall>t. tick_head (T t) \<longrightarrow> tick_match (T t) \<noteq> c)"

lemma tick_pos_upd:
  "tick_pos T c \<Longrightarrow> (tick_head k \<Longrightarrow> tick_match k \<noteq> c) \<Longrightarrow> tick_pos (T(t := k)) c"
  by (simp add: tick_pos_def)

section \<open>Mutexes\<close>

fun mchain :: "(oid \<Rightarrow> kmutex) \<Rightarrow> oid option \<Rightarrow> oid list \<Rightarrow> bool" where
  "mchain M p [] \<longleftrightarrow> p = None"
| "mchain M p (m # ms) \<longleftrightarrow> p = Some m \<and> mchain M (mutex_next (M m)) ms"

definition holds_mutex :: "(oid \<Rightarrow> blk_obj_t) \<Rightarrow> (oid \<Rightarrow> kmutex) \<Rightarrow> tid \<Rightarrow> oid \<Rightarrow> bool" where
  "holds_mutex B M t m \<longleftrightarrow> is_mutex (B m) \<and> mutex_task (M m) = Some t"

definition mtx_ok :: "(tid \<Rightarrow> ktask) \<Rightarrow> (oid \<Rightarrow> blk_obj_t) \<Rightarrow> (oid \<Rightarrow> kmutex) \<Rightarrow> bool" where
  "mtx_ok T B M \<longleftrightarrow>
     (\<forall>t. is_live (T t) \<longrightarrow>
        (\<exists>ms. mchain M (mutex_list (T t)) ms \<and> distinct ms \<and> (\<forall>m. m \<in> set ms \<longleftrightarrow> holds_mutex B M t m))) \<and>
     (\<forall>t m. holds_mutex B M t m \<longrightarrow> is_live (T t) \<and> t \<noteq> g_idle_task) \<and>
     (\<forall>m. is_mutex (B m) \<longrightarrow> blk_policy (B m) = BLK_POLICY_PRI \<and>
        (blk_list (B m) \<noteq> [] \<longrightarrow> mutex_task (M m) \<noteq> None))"

lemma mtx_okD:
  assumes "mtx_ok T B M"
  shows "is_live (T t) \<Longrightarrow>
      \<exists>ms. mchain M (mutex_list (T t)) ms \<and> distinct ms \<and> (\<forall>m. m \<in> set ms \<longleftrightarrow> holds_mutex B M t m)"
    and "holds_mutex B M t m \<Longrightarrow> is_live (T t)" and "holds_mutex B M t m \<Longrightarrow> t \<noteq> g_idle_task"
    and "is_mutex (B m) \<Longrightarrow> blk_policy (B m) = BLK_POLICY_PRI"
    and "is_mutex (B m) \<Longrightarrow> blk_list (B m) \<noteq> [] \<Longrightarrow> mutex_task (M m) \<noteq> None"
  using assms by (auto simp: mtx_ok_def)

lemma mtx_ok_frame:
  "mtx_ok T B M \<Longrightarrow> is_live k = is_live (T t) \<Longrightarrow> mutex_list k = mutex_list (T t) \<Longrightarrow> mtx_ok (T(t := k)) B M"
  by (auto simp: mtx_ok_def)

text \<open>The chain and the owners do not depend on who waits, as long as a mutex with waiters has an owner.\<close>

lemma mtx_ok_blks:
  assumes "mtx_ok T B M" and "\<And>m. is_mutex (B' m) = is_mutex (B m)"
    and "\<And>m. is_mutex (B m) \<Longrightarrow> blk_policy (B' m) = blk_policy (B m)"
    and "\<And>m. is_mutex (B m) \<Longrightarrow> blk_list (B' m) \<noteq> [] \<Longrightarrow> mutex_task (M m) \<noteq> None"
  shows "mtx_ok T B' M"
  using assms unfolding mtx_ok_def holds_mutex_def by simp

section \<open>Priorities\<close>

definition prio_ok :: "(tid \<Rightarrow> ktask) \<Rightarrow> bool" where
  "prio_ok T \<longleftrightarrow> task_state (T g_idle_task) = K_RDY \<and> prio (T g_idle_task) = 61 \<and>
     (\<forall>t. is_live (T t) \<and> t \<noteq> g_idle_task \<longrightarrow> prio (T t) < 61 \<and> b_prio (T t) < 61) \<and>
     (\<forall>t. is_susp (T t) \<longrightarrow> suspend_count (T t) \<noteq> 0)"

lemma prio_okD:
  assumes "prio_ok T"
  shows "task_state (T g_idle_task) = K_RDY" and "prio (T g_idle_task) = 61"
    and "is_live (T t) \<Longrightarrow> t \<noteq> g_idle_task \<Longrightarrow> prio (T t) < 61"
    and "is_live (T t) \<Longrightarrow> t \<noteq> g_idle_task \<Longrightarrow> b_prio (T t) < 61"
    and "is_susp (T t) \<Longrightarrow> suspend_count (T t) \<noteq> 0"
    and "is_live (T t) \<Longrightarrow> prio (T t) < 62"
proof -
  show "prio (T t) < 62" if "is_live (T t)"
    using assms that by (cases "t = g_idle_task") (force simp: prio_ok_def)+
qed (use assms in \<open>auto simp: prio_ok_def\<close>)

lemma prio_ok_upd:
  assumes "prio_ok T" and "t \<noteq> g_idle_task" and "is_live k \<Longrightarrow> prio k < 61 \<and> b_prio k < 61"
    and "is_susp k \<Longrightarrow> suspend_count k \<noteq> 0"
  shows "prio_ok (T(t := k))"
  using assms by (auto simp: prio_ok_def)

text \<open>
  Exact priority inheritance at task \<open>t\<close>: its priority is the highest of its own base priority and
  of the priorities of the tasks that wait for a mutex it holds.
\<close>

definition waits_mutex :: "(tid \<Rightarrow> ktask) \<Rightarrow> tid \<Rightarrow> oid \<Rightarrow> bool" where
  "waits_mutex T w m \<longleftrightarrow> is_pend (T w) \<and> blk_obj (T w) = Some m"

definition pi_val :: "(tid \<Rightarrow> ktask) \<Rightarrow> (oid \<Rightarrow> blk_obj_t) \<Rightarrow> (oid \<Rightarrow> kmutex) \<Rightarrow> tid \<Rightarrow> nat \<Rightarrow> bool" where
  "pi_val T B M t p \<longleftrightarrow> p \<le> b_prio (T t) \<and>
     (\<forall>m w. holds_mutex B M t m \<longrightarrow> waits_mutex T w m \<longrightarrow> p \<le> prio (T w)) \<and>
     (p = b_prio (T t) \<or> (\<exists>m w. holds_mutex B M t m \<and> waits_mutex T w m \<and> prio (T w) = p))"

definition pi_ok :: "(tid \<Rightarrow> ktask) \<Rightarrow> (oid \<Rightarrow> blk_obj_t) \<Rightarrow> (oid \<Rightarrow> kmutex) \<Rightarrow> bool" where
  "pi_ok T B M \<longleftrightarrow> (\<forall>t. is_live (T t) \<longrightarrow> pi_val T B M t (prio (T t)))"

lemma pi_val_unique: "pi_val T B M t p \<Longrightarrow> pi_val T B M t q \<Longrightarrow> p = q"
  unfolding pi_val_def by (metis order_antisym)

lemma pi_val_cong:
  assumes "b_prio (T' u) = b_prio (T u)" and h: "\<And>m. holds_mutex B' M' u m = holds_mutex B M u m"
    and w: "\<And>m w. holds_mutex B M u m \<Longrightarrow> waits_mutex T' w m = waits_mutex T w m"
    and p: "\<And>m w. holds_mutex B M u m \<Longrightarrow> waits_mutex T w m \<Longrightarrow> prio (T' w) = prio (T w)"
  shows "pi_val T' B' M' u q = pi_val T B M u q"
proof -
  have "(holds_mutex B M u m \<longrightarrow> waits_mutex T' v m \<longrightarrow> q \<le> prio (T' v)) =
      (holds_mutex B M u m \<longrightarrow> waits_mutex T v m \<longrightarrow> q \<le> prio (T v))" for m v
    using w [of m v] p [of m v] by auto
  moreover have "(holds_mutex B M u m \<and> waits_mutex T' v m \<and> prio (T' v) = q) =
      (holds_mutex B M u m \<and> waits_mutex T v m \<and> prio (T v) = q)" for m v
    using w [of m v] p [of m v] by auto
  ultimately show ?thesis unfolding pi_val_def h assms(1) by presburger
qed

text \<open>Who waits for whom; the relation is well-founded exactly when there is no deadlock.\<close>

definition waits_for :: "(tid \<Rightarrow> ktask) \<Rightarrow> (oid \<Rightarrow> blk_obj_t) \<Rightarrow> (oid \<Rightarrow> kmutex) \<Rightarrow> (tid \<times> tid) set" where
  "waits_for T B M = {(u, t). \<exists>m. waits_mutex T t m \<and> holds_mutex B M u m}"

section \<open>The list structures together\<close>

definition kbase :: "kstate \<Rightarrow> bool" where
  "kbase s \<longleftrightarrow> rdy_ok (tasks s) (g_ready_queue s) \<and> blk_ok (tasks s) (blks s) \<and>
     tick_ok (tasks s) (g_tick_head s) (g_tick_count s) \<and> prio_ok (tasks s) \<and> \<not> fault s"

lemma kbaseD:
  assumes "kbase s"
  shows "rdy_ok (tasks s) (g_ready_queue s)" and "blk_ok (tasks s) (blks s)"
    and "tick_ok (tasks s) (g_tick_head s) (g_tick_count s)" and "prio_ok (tasks s)" and "\<not> fault s"
  using assms by (auto simp: kbase_def)

lemma kbaseI:
  assumes "rdy_ok (tasks s) (g_ready_queue s)" and "blk_ok (tasks s) (blks s)"
    and "tick_ok (tasks s) (g_tick_head s) (g_tick_count s)" and "prio_ok (tasks s)" and "\<not> fault s"
  shows "kbase s"
  using assms by (simp add: kbase_def)

text \<open>Fields of the state that \<open>kbase\<close> does not read.\<close>

lemma kbase_cong:
  assumes "tasks s' = tasks s" and "blks s' = blks s" and "g_ready_queue s' = g_ready_queue s"
    and "g_tick_head s' = g_tick_head s" and "g_tick_count s' = g_tick_count s" and "fault s' = fault s"
  shows "kbase s' = kbase s"
  using assms by (simp add: kbase_def)

lemma pend_not_idle: "prio_ok T \<Longrightarrow> is_pend (T t) \<Longrightarrow> t \<noteq> g_idle_task"
  using prio_okD(1) by (fastforce simp: is_pend_def)

subsection \<open>Waking a task\<close>

definition wake_tcb :: "blk_state_t \<Rightarrow> ktask \<Rightarrow> ktask" where
  "wake_tcb st k = k\<lparr>task_state := (if task_state k = K_PEND then K_RDY else K_SUSPENDED),
     tick_head := False, blk_state := st, blk_obj := None\<rparr>"

definition wake :: "blk_state_t \<Rightarrow> tid \<Rightarrow> kstate \<Rightarrow> kstate" where
  "wake st t s = s\<lparr>tasks := (tasks s)(t := wake_tcb st (tcb s t)), blks := blk_list_rm t (blks s),
     g_tick_head := remove1 t (g_tick_head s),
     g_ready_queue := (if task_state (tcb s t) = K_PEND
       then ready_list_add (prio (tcb s (g_active_task s))) (g_ready_queue s) t (prio (tcb s t))
       else g_ready_queue s)\<rparr>"

lemma tick_head_idem:
  "tick_ok T H c \<Longrightarrow> (if tick_head (T t) then remove1 t H else H) = remove1 t H"
  using tick_okD(2) by (simp add: remove1_idem)

lemma pend_task_wakeup_eq:
  assumes "tick_ok (tasks s) (g_tick_head s) (g_tick_count s)" and "is_pend (tcb s t)"
  shows "pend_task_wakeup t s = wake BLK_FINISH t s" and "pend_task_rm t s = wake BLK_DEL t s"
  using assms(2) tick_head_idem [OF assms(1), of t]
  by (auto simp: pend_task_wakeup_def pend_task_rm_def pend_unlink_def wake_def wake_tcb_def is_pend_def
      tick_list_rm_def task_list_rm_def rdy_add_def upd_task_def Let_def
      intro!: kstate.equality split: if_splits)

lemma wake_tcb_simps [simp]:
  "prio (wake_tcb st k) = prio k" "b_prio (wake_tcb st k) = b_prio k"
  "mutex_list (wake_tcb st k) = mutex_list k" "tick_head (wake_tcb st k) = False"
  "blk_state (wake_tcb st k) = st" "blk_obj (wake_tcb st k) = None"
  "suspend_count (wake_tcb st k) = suspend_count k"
  "\<not> is_pend (wake_tcb st k)" "\<not> is_sleep (wake_tcb st k)" "is_live (wake_tcb st k)"
  "task_state (wake_tcb st k) = (if task_state k = K_PEND then K_RDY else K_SUSPENDED)"
  by (auto simp: wake_tcb_def state_classes)

lemma kbase_wake:
  assumes s: "kbase s" and t: "is_pend (tcb s t)"
  shows "kbase (wake st t s)"
proof -
  note d = kbaseD [OF s]
  have idle: "t \<noteq> g_idle_task" using pend_not_idle [OF d(4) t] .
  have live: "is_live (tcb s t)" using t by (auto simp: state_classes)
  have p: "prio (tcb s t) < 61" "b_prio (tcb s t) < 61" using prio_okD(3,4) [OF d(4) live idle] .
  have nr: "task_state (tcb s t) \<noteq> K_RDY" using t by (auto simp: is_pend_def)
  show ?thesis
  proof (rule kbaseI)
    show "rdy_ok (tasks (wake st t s)) (g_ready_queue (wake st t s))"
      using rdy_ok_add [OF d(1) nr, of "wake_tcb st (tcb s t)" "prio (tcb s t)"]
        rdy_ok_frame [OF d(1), of "wake_tcb st (tcb s t)" t] nr p
      by (simp add: wake_def rdy_view_def)
    show "blk_ok (tasks (wake st t s)) (blks (wake st t s))"
      using blk_ok_rm [OF d(2)] by (simp add: wake_def)
    show "tick_ok (tasks (wake st t s)) (g_tick_head (wake st t s)) (g_tick_count (wake st t s))"
      using tick_ok_rm [OF d(3)] by (simp add: wake_def)
    show "prio_ok (tasks (wake st t s))"
      using prio_ok_upd [OF d(4) idle, of "wake_tcb st (tcb s t)"] p prio_okD(5) [OF d(4), of t] t
      by (auto simp: wake_def state_classes split: if_splits)
    show "\<not> fault (wake st t s)" using d(5) by (simp add: wake_def)
  qed
qed

subsection \<open>Blocking a task\<close>

definition pend_tcb :: "oid \<Rightarrow> tick_t \<Rightarrow> tick_t \<Rightarrow> ktask \<Rightarrow> ktask" where
  "pend_tcb b timeout now k =
     (if timeout \<noteq> RHINO_WAIT_FOREVER \<and> 0 < timeout
      then k\<lparr>blk_obj := Some b, tick_match := now + timeout, tick_remain := timeout, tick_head := True,
        task_state := K_PEND\<rparr>
      else k\<lparr>blk_obj := Some b, task_state := K_PEND\<rparr>)"

definition block :: "oid \<Rightarrow> tid \<Rightarrow> tick_t \<Rightarrow> runqueue \<Rightarrow> kstate \<Rightarrow> kstate" where
  "block b t timeout q s =
     (let T = (tasks s)(t := pend_tcb b timeout (g_tick_count s) (tcb s t))
      in s\<lparr>tasks := T, blks := (blks s)(b := blk_enter T t (blks s b)), g_ready_queue := q,
        g_tick_head := (if timeout \<noteq> RHINO_WAIT_FOREVER \<and> 0 < timeout
          then insert_before (\<lambda>u. tick_match (tcb s u) - g_tick_count s > timeout) t (g_tick_head s)
          else g_tick_head s)\<rparr>)"

lemma pend_tcb_simps [simp]:
  "prio (pend_tcb b d c k) = prio k" "b_prio (pend_tcb b d c k) = b_prio k"
  "mutex_list (pend_tcb b d c k) = mutex_list k" "blk_obj (pend_tcb b d c k) = Some b"
  "task_state (pend_tcb b d c k) = K_PEND" "is_pend (pend_tcb b d c k)" "is_live (pend_tcb b d c k)"
  "\<not> is_susp (pend_tcb b d c k)" "\<not> is_sleep (pend_tcb b d c k)"
  by (auto simp: pend_tcb_def state_classes Let_def)

lemma pend_to_blk_obj_eq:
  assumes q: "ready_list_rm (g_ready_queue s) t (prio (tcb s t)) = Some q"
    and t: "t \<notin> set (g_tick_head s)"
  shows "pend_to_blk_obj b t timeout s = block b t timeout q s"
proof -
  have ins: "insert_before (\<lambda>u. timeout < tick_match (if u = t then k else tcb s u) - g_tick_count s) t (g_tick_head s) =
      insert_before (\<lambda>u. timeout < tick_match (tcb s u) - g_tick_count s) t (g_tick_head s)" for k
    using t by (intro insert_before_cong) auto
  show ?thesis
    using q by (auto simp: pend_to_blk_obj_def block_def pend_tcb_def tick_list_insert_def
        tick_list_pri_insert_def rdy_rm_def pend_list_add_def blk_enter_def upd_task_def upd_blk_def
        ins Let_def fun_upd_def cong: if_cong intro!: kstate.equality)
qed

lemma kbase_block:
  assumes s: "kbase s" and t: "task_state (tcb s t) = K_RDY" "t \<noteq> g_idle_task"
  shows "\<exists>q. pend_to_blk_obj b t timeout s = block b t timeout q s \<and> kbase (block b t timeout q s)"
proof -
  let ?k = "pend_tcb b timeout (g_tick_count s) (tcb s t)"
  note d = kbaseD [OF s]
  have nth: "\<not> tick_head (tcb s t)" "\<not> is_pend (tcb s t)" "\<not> is_sleep (tcb s t)"
    using t(1) tick_okD(3) [OF d(3), of t] by (auto simp: state_classes)
  then have nt: "t \<notin> set (g_tick_head s)" using tick_okD(2) [OF d(3)] by simp
  obtain q where q: "ready_list_rm (g_ready_queue s) t (prio (tcb s t)) = Some q"
      "rdy_ok ((tasks s)(t := ?k)) q"
    using rdy_ok_rm [OF d(1) t(1) t(2) [symmetric] prio_okD(1) [OF d(4)], of ?k] by auto
  have live: "is_live (tcb s t)" using t by (simp add: state_classes)
  have "kbase (block b t timeout q s)"
  proof (rule kbaseI)
    show "tick_ok (tasks (block b t timeout q s)) (g_tick_head (block b t timeout q s))
        (g_tick_count (block b t timeout q s))"
    proof (cases "timeout \<noteq> RHINO_WAIT_FOREVER \<and> 0 < timeout")
      case True
      with tick_ok_insert [OF d(3) nth(1), of ?k timeout] show ?thesis
        by (simp add: block_def pend_tcb_def Let_def is_pend_def)
    next
      case False
      have "tick_ok ((tasks s)(t := ?k)) (remove1 t (g_tick_head s)) (g_tick_count s)"
        using False nth(1) by (intro tick_ok_rm [OF d(3)]) (auto simp: pend_tcb_def is_sleep_def)
      with False nt show ?thesis by (auto simp: block_def remove1_idem Let_def)
    qed
    show "prio_ok (tasks (block b t timeout q s))"
      using prio_ok_upd [OF d(4) t(2), of ?k] prio_okD(3,4) [OF d(4) live t(2)] by (simp add: block_def Let_def)
  qed (use q(2) blk_ok_enter [OF d(2) nth(2), of ?k b] d(5) in \<open>simp_all add: block_def Let_def\<close>)
  with pend_to_blk_obj_eq [OF q(1) nt] show ?thesis by blast
qed

lemma tick_pos_wake: "tick_pos (tasks s) c \<Longrightarrow> tick_pos (tasks (wake st t s)) c"
  by (simp add: wake_def tick_pos_def)

lemma tick_pos_block:
  assumes "tick_pos (tasks s) (g_tick_count s)"
  shows "tick_pos (tasks (block b t timeout q s)) (g_tick_count s)"
proof -
  have "tick_match (pend_tcb b timeout (g_tick_count s) (tcb s t)) \<noteq> g_tick_count s"
    if "tick_head (pend_tcb b timeout (g_tick_count s) (tcb s t))"
    using that assms by (auto simp: pend_tcb_def tick_pos_def split: if_splits)
  then show ?thesis using assms by (simp add: block_def Let_def tick_pos_def)
qed

section \<open>The mutex side of the state\<close>

definition mside :: "(tid \<Rightarrow> ktask) \<Rightarrow> (oid \<Rightarrow> blk_obj_t) \<Rightarrow> (oid \<Rightarrow> kmutex) \<Rightarrow> bool" where
  "mside T B M \<longleftrightarrow> mtx_ok T B M \<and> pi_ok T B M \<and> wf (waits_for T B M)"

lemma mside_frame:
  assumes ok: "mside T B M"
    and live: "\<And>t. is_live (T' t) = is_live (T t)"
    and same: "\<And>t. is_live (T t) \<Longrightarrow>
      mutex_list (T' t) = mutex_list (T t) \<and> prio (T' t) = prio (T t) \<and> b_prio (T' t) = b_prio (T t)"
    and mtx: "\<And>m. is_mutex (B' m) = is_mutex (B m)"
    and pol: "\<And>m. is_mutex (B m) \<Longrightarrow> blk_policy (B' m) = blk_policy (B m)"
    and wait: "\<And>m. is_mutex (B m) \<Longrightarrow> blk_list (B' m) \<noteq> [] \<Longrightarrow> mutex_task (M m) \<noteq> None"
    and waits: "\<And>w m. is_mutex (B m) \<Longrightarrow> waits_mutex T' w m = waits_mutex T w m"
  shows "mside T' B' M"
proof -
  have h: "holds_mutex B' M t m = holds_mutex B M t m" for t m by (simp add: holds_mutex_def mtx)
  have w: "holds_mutex B M t m \<Longrightarrow> waits_mutex T' w m = waits_mutex T w m" for t m w
    using waits by (simp add: holds_mutex_def)
  have lw: "waits_mutex T w m \<Longrightarrow> prio (T' w) = prio (T w)" for w m
    using same [of w] by (auto simp: waits_mutex_def state_classes)
  have "mtx_ok T' B' M"
    using ok same pol wait unfolding mside_def mtx_ok_def live h mtx by auto
  moreover have "pi_val T' B' M t p = pi_val T B M t p" if "is_live (T t)" for t p
    using same [OF that] h w lw by (intro pi_val_cong) auto
  then have "pi_ok T' B' M" using ok same unfolding mside_def pi_ok_def live by simp
  moreover have "waits_for T' B' M = waits_for T B M"
    using w unfolding waits_for_def h by blast
  ultimately show ?thesis using ok by (simp add: mside_def)
qed

lemma waits_mutex_fun_upd:
  "waits_mutex (T(t := k)) w m = (if w = t then is_pend k \<and> blk_obj k = Some m else waits_mutex T w m)"
  by (simp add: waits_mutex_def)

abbreviation kmside :: "kstate \<Rightarrow> bool" where
  "kmside s \<equiv> mside (tasks s) (blks s) (mutexes s)"

lemma mside_mtx: "mside T B M \<Longrightarrow> mtx_ok T B M"
  by (simp add: mside_def)

lemma mside_wake:
  assumes s: "kbase s" and m: "kmside s" and t: "is_pend (tcb s t)" "blk_obj (tcb s t) = Some b"
    and b: "\<not> is_mutex (blks s b)"
  shows "kmside (wake st t s)"
proof -
  have "mside (tasks (wake st t s)) (blks (wake st t s)) (mutexes s)"
  proof (rule mside_frame [OF m])
  have live: "is_live (tcb s t)" using t by (auto simp: state_classes)
  then show "is_live (tcb (wake st t s) u) = is_live (tcb s u)" for u by (simp add: wake_def)
  show "waits_mutex (tasks (wake st t s)) w c = waits_mutex (tasks s) w c" if "is_mutex (blks s c)" for w c
    using that b t by (auto simp: wake_def waits_mutex_def)
  show "mutex_task (mutexes s c) \<noteq> None"
    if "is_mutex (blks s c)" "blk_list (blks (wake st t s) c) \<noteq> []" for c
    using that mtx_okD(5) [OF mside_mtx [OF m], of c] by (cases "blk_list (blks s c) = []") (auto simp: wake_def)
  qed (simp_all add: wake_def)
  then show ?thesis by (simp add: wake_def)
qed

lemma mside_block:
  assumes s: "kbase s" and m: "kmside s" and t: "task_state (tcb s t) = K_RDY" and b: "\<not> is_mutex (blks s b)"
  shows "kmside (block b t timeout q s)"
proof -
  have "mside (tasks (block b t timeout q s)) (blks (block b t timeout q s)) (mutexes s)"
  proof (rule mside_frame [OF m])
  show "is_live (tcb (block b t timeout q s) u) = is_live (tcb s u)" for u
    using t by (simp add: block_def Let_def) (simp add: state_classes)
  show "waits_mutex (tasks (block b t timeout q s)) w c = waits_mutex (tasks s) w c"
    if "is_mutex (blks s c)" for w c
    using that b t by (auto simp: block_def Let_def waits_mutex_def) (auto simp: is_pend_def)
  show "mutex_task (mutexes s c) \<noteq> None"
    if "is_mutex (blks s c)" "blk_list (blks (block b t timeout q s) c) \<noteq> []" for c
    using that b mtx_okD(5) [OF mside_mtx [OF m], of c] by (auto simp: block_def Let_def split: if_splits)
  qed (use b in \<open>auto simp: block_def Let_def\<close>)
  then show ?thesis by (simp add: block_def Let_def)
qed

section \<open>The running task\<close>

definition run_ok :: "kstate \<Rightarrow> bool" where
  "run_ok s \<longleftrightarrow>
     (g_intrpt_nested_level s = 0 \<or> g_sched_lock s > 0 \<longrightarrow> task_state (tcb s (g_active_task s)) = K_RDY) \<and>
     (g_intrpt_nested_level s = 0 \<and> g_sched_lock s = 0 \<longrightarrow>
        preferred_cpu_ready_task_get (g_ready_queue s) = Some (g_active_task s))"

text \<open>What an operation must keep of \<open>run_ok\<close> before it calls the scheduler.\<close>

definition lock_ok :: "kstate \<Rightarrow> bool" where
  "lock_ok s \<longleftrightarrow> (g_sched_lock s > 0 \<longrightarrow> task_state (tcb s (g_active_task s)) = K_RDY)"

lemma core_sched_keeps [simp]:
  "tasks (core_sched s) = tasks s" "blks (core_sched s) = blks s" "sems (core_sched s) = sems s"
  "mutexes (core_sched s) = mutexes s" "queues (core_sched s) = queues s" "events (core_sched s) = events s"
  "buf_queues (core_sched s) = buf_queues s" "g_ready_queue (core_sched s) = g_ready_queue s"
  "g_tick_head (core_sched s) = g_tick_head s" "g_tick_count (core_sched s) = g_tick_count s"
  "g_sched_lock (core_sched s) = g_sched_lock s" "errs (core_sched s) = errs s"
  "g_intrpt_nested_level (core_sched s) = g_intrpt_nested_level s" "g_sys_stat (core_sched s) = g_sys_stat s"
  "g_kobj_list (core_sched s) = g_kobj_list s" "g_res_list (core_sched s) = g_res_list s"
  "freed (core_sched s) = freed s" "g_idle_task_spawned (core_sched s) = g_idle_task_spawned s"
  by (auto simp: core_sched_def raise_fault_def cpu_task_switch_def split: option.splits)

lemma core_sched_run:
  assumes s: "kbase s" and l: "lock_ok s"
  shows "kbase (core_sched s) \<and> run_ok (core_sched s)"
proof -
  note d = kbaseD [OF s]
  obtain t where t: "preferred_cpu_ready_task_get (g_ready_queue s) = Some t" "task_state (tcb s t) = K_RDY"
    using rdy_ok_top [OF d(1) prio_okD(1) [OF d(4)]] by blast
  then have f: "fault (core_sched s) = fault s"
    by (auto simp: core_sched_def cpu_task_switch_def)
  have "kbase (core_sched s)" using s kbase_cong [of "core_sched s" s] f by simp
  moreover have "run_ok (core_sched s)"
    using t l by (auto simp: core_sched_def cpu_task_switch_def run_ok_def lock_ok_def word_gt_0)
  ultimately show ?thesis by blast
qed

text \<open>The active task is ready when a task-level operation starts.\<close>

lemma run_ok_active: "run_ok s \<Longrightarrow> g_intrpt_nested_level s = 0 \<Longrightarrow> task_state (tcb s (g_active_task s)) = K_RDY"
  by (simp add: run_ok_def)

lemma run_ok_lock_ok: "run_ok s \<Longrightarrow> lock_ok s"
  by (simp add: run_ok_def lock_ok_def)

lemma run_ok_cong:
  assumes "run_ok s" and "tasks s' = tasks s" and "g_ready_queue s' = g_ready_queue s"
    and "g_active_task s' = g_active_task s" and "g_sched_lock s' = g_sched_lock s"
    and "g_intrpt_nested_level s' = g_intrpt_nested_level s"
  shows "run_ok s'"
  using assms by (simp add: run_ok_def)

end
