(* ===== verification/Mutex_Chain.thy ===== *)
theory Mutex_Chain
  imports Kernel_Inv
begin

text \<open>
  The loops of \<^verbatim>\<open>k_mutex.c\<close> over the chain of held mutexes: they terminate, compute the
  inherited priority, and unlink exactly the released mutex.
\<close>

section \<open>Walking the chain of held mutexes\<close>

definition look_min :: "kstate \<Rightarrow> oid list \<Rightarrow> nat \<Rightarrow> nat" where
  "look_min s ms p = fold (\<lambda>m p. min p (first_waiter_pri s m p)) ms p"

lemma look_min_simps [simp]:
  "look_min s [] p = p"
  "look_min s (m # ms) p = look_min s ms (min p (first_waiter_pri s m p))"
  by (simp_all add: look_min_def)

text \<open>The running value \<open>pri\<close> of the code never undercuts \<open>new_pri\<close>.\<close>

lemma min_first_waiter:
  "new \<le> pri \<Longrightarrow> min new (first_waiter_pri s m pri) = min new (first_waiter_pri s m new)"
  by (auto simp: first_waiter_pri_def min_def split: list.splits)

lemma mutex_pri_limit_loop_eq:
  assumes "mchain (mutexes s) p ms" and "high \<le> pri"
  shows "mutex_pri_limit_loop s p pri high = Some (look_min s ms high)"
  using assms
proof (induction ms arbitrary: p pri high)
  case Nil
  then show ?case by (simp add: mutex_pri_limit_loop.simps)
next
  case (Cons m ms)
  let ?pri = "first_waiter_pri s m pri"
  have "mutex_pri_limit_loop s p pri high =
      mutex_pri_limit_loop s (mutex_next (mutexes s m)) ?pri (min high ?pri)"
    using Cons.prems by (subst mutex_pri_limit_loop.simps) (simp add: Let_def min_def)
  also have "\<dots> = Some (look_min s ms (min high ?pri))"
    using Cons.prems by (intro Cons.IH) auto
  finally show ?case using min_first_waiter [OF Cons.prems(2)] by simp
qed

lemma mutex_pri_look_loop_step:
  assumes "slot_get s prev = Some m" and "Some m \<noteq> rel" and "new \<le> pri"
  shows "mutex_pri_look_loop rel prev pri new s =
    mutex_pri_look_loop rel (Mutex_slot m) (first_waiter_pri s m pri) (min new (first_waiter_pri s m new)) s"
proof -
  let ?p = "first_waiter_pri s m pri"
  have "(if new > ?p then ?p else new) = min new (first_waiter_pri s m new)"
    using min_first_waiter [OF assms(3), of s m] by (auto simp: min_def split: if_splits)
  with assms(1,2) show ?thesis
    by (subst mutex_pri_look_loop.simps) (simp only: option.case Let_def if_False)
qed

lemma mutex_pri_look_loop_keep:
  assumes "mchain (mutexes s) (slot_get s prev) ms" and "rel \<notin> Some ` set ms" and "new \<le> pri"
  shows "mutex_pri_look_loop rel prev pri new s = Some (look_min s ms new, s)"
  using assms
proof (induction ms arbitrary: prev pri new)
  case Nil
  then show ?case by (simp add: mutex_pri_look_loop.simps)
next
  case (Cons m ms)
  have "mutex_pri_look_loop rel (Mutex_slot m) (first_waiter_pri s m pri) (min new (first_waiter_pri s m new)) s =
      Some (look_min s ms (min new (first_waiter_pri s m new)), s)"
    using Cons.prems min_first_waiter [OF Cons.prems(3), of s m]
    by (intro Cons.IH) (auto simp: slot_get_def)
  with Cons.prems mutex_pri_look_loop_step [of s prev m rel new pri] show ?case by auto
qed

lemma slot_set_keeps [simp]:
  "blks (slot_set p v s) = blks s" "prio (tcb (slot_set p v s) t) = prio (tcb s t)"
  by (auto simp: slot_set_def upd_task_def upd_mutex_def split: chain_slot.splits)

lemma look_min_slot_set [simp]: "look_min (slot_set p v s) ms n = look_min s ms n"
  by (simp add: look_min_def first_waiter_pri_def cong: list.case_cong)

lemma mchain_slot_set:
  assumes "mchain (mutexes s) q ms" and "\<And>m. p = Mutex_slot m \<Longrightarrow> m \<notin> set ms"
  shows "mchain (mutexes (slot_set p v s)) q ms"
  using assms
  by (induction ms arbitrary: q) (auto simp: slot_set_def upd_task_def upd_mutex_def split: chain_slot.splits)

lemma slot_get_set [simp]: "slot_get (slot_set p v s) p = v"
  by (auto simp: slot_get_def slot_set_def upd_task_def upd_mutex_def split: chain_slot.splits)

lemma slot_get_set_other [simp]: "p \<noteq> q \<Longrightarrow> slot_get (slot_set p v s) q = slot_get s q"
  by (auto simp: slot_get_def slot_set_def upd_task_def upd_mutex_def split: chain_slot.splits)

text \<open>The slot that points to the released mutex, when the mutexes \<open>xs\<close> come before it.\<close>

definition slot_before :: "chain_slot \<Rightarrow> oid list \<Rightarrow> chain_slot" where
  "slot_before prev xs = (if xs = [] then prev else Mutex_slot (last xs))"

lemma mutex_pri_look_loop_unlink:
  assumes "mchain (mutexes s) (slot_get s prev) (xs @ r # ys)" and "distinct (xs @ r # ys)"
    and "\<And>m. prev = Mutex_slot m \<Longrightarrow> m \<notin> set (xs @ r # ys)" and "new \<le> pri"
  shows "mutex_pri_look_loop (Some r) prev pri new s =
    Some (look_min s (xs @ ys) new, slot_set (slot_before prev xs) (mutex_next (mutexes s r)) s)"
  using assms
proof (induction xs arbitrary: prev pri new)
  case Nil
  let ?s = "slot_set prev (mutex_next (mutexes s r)) s"
  have "mchain (mutexes ?s) (slot_get ?s prev) ys"
    using Nil.prems mchain_slot_set [of s "mutex_next (mutexes s r)" ys prev] by auto
  then have "mutex_pri_look_loop (Some r) prev pri new ?s = Some (look_min ?s ys new, ?s)"
    using Nil.prems by (intro mutex_pri_look_loop_keep) auto
  with Nil.prems show ?case
    by (subst mutex_pri_look_loop.simps) (simp add: slot_before_def)
next
  case (Cons m xs)
  have "mutex_pri_look_loop (Some r) (Mutex_slot m) (first_waiter_pri s m pri)
      (min new (first_waiter_pri s m new)) s =
    Some (look_min s (xs @ ys) (min new (first_waiter_pri s m new)),
      slot_set (slot_before (Mutex_slot m) xs) (mutex_next (mutexes s r)) s)"
    using Cons.prems min_first_waiter [OF Cons.prems(4), of s m]
    by (intro Cons.IH) (auto simp: slot_get_def)
  moreover have "slot_before (Mutex_slot m) xs = slot_before prev (m # xs)"
    by (simp add: slot_before_def)
  ultimately show ?case
    using Cons.prems mutex_pri_look_loop_step [of s prev m "Some r" new pri] by auto
qed

lemma mchain_unlink:
  assumes "mchain (mutexes s) (slot_get s prev) (xs @ r # ys)" and "distinct (xs @ r # ys)"
    and "\<And>m. prev = Mutex_slot m \<Longrightarrow> m \<notin> set (xs @ r # ys)"
  shows "mchain (mutexes (slot_set (slot_before prev xs) (mutex_next (mutexes s r)) s))
    (slot_get (slot_set (slot_before prev xs) (mutex_next (mutexes s r)) s) prev) (xs @ ys)"
  using assms
proof (induction xs arbitrary: prev)
  case Nil
  then show ?case
    using mchain_slot_set [of s "mutex_next (mutexes s r)" ys prev] by (auto simp: slot_before_def)
next
  case (Cons m xs)
  let ?p = "slot_before (Mutex_slot m) xs"
  let ?s = "slot_set ?p (mutex_next (mutexes s r)) s"
  have p: "slot_before prev (m # xs) = ?p" by (simp add: slot_before_def)
  have "mchain (mutexes ?s) (slot_get ?s (Mutex_slot m)) (xs @ ys)"
    using Cons.prems by (intro Cons.IH) (auto simp: slot_get_def)
  moreover have "?p \<noteq> prev"
    using Cons.prems(3) by (auto simp: slot_before_def split: if_splits)
  then have "slot_get ?s prev = Some m" using Cons.prems(1) by simp
  moreover have "slot_get ?s (Mutex_slot m) = mutex_next (mutexes ?s m)"
    by (simp add: slot_get_def)
  ultimately show ?case unfolding p by simp
qed

section \<open>The walk computes the inherited priority\<close>

text \<open>The value of exact inheritance when the held mutexes are \<open>ms\<close>.\<close>

definition pi_of :: "(tid \<Rightarrow> ktask) \<Rightarrow> tid \<Rightarrow> oid set \<Rightarrow> nat \<Rightarrow> bool" where
  "pi_of T t ms p \<longleftrightarrow> p \<le> b_prio (T t) \<and> (\<forall>m \<in> ms. \<forall>w. waits_mutex T w m \<longrightarrow> p \<le> prio (T w)) \<and>
     (p = b_prio (T t) \<or> (\<exists>m \<in> ms. \<exists>w. waits_mutex T w m \<and> prio (T w) = p))"

lemma pi_val_pi_of: "pi_val T B M t p \<longleftrightarrow> pi_of T t {m. holds_mutex B M t m} p"
  by (auto simp: pi_val_def pi_of_def)

lemma first_waiter_min:
  assumes ok: "blk_ok (tasks s) (blks s)" and pol: "blk_policy (blks s m) = BLK_POLICY_PRI"
  shows "(\<forall>w. waits_mutex (tasks s) w m \<longrightarrow> min p (first_waiter_pri s m p) \<le> prio (tcb s w)) \<and>
    (min p (first_waiter_pri s m p) = p \<or>
     (\<exists>w. waits_mutex (tasks s) w m \<and> prio (tcb s w) = min p (first_waiter_pri s m p)))"
proof (cases "blk_list (blks s m)")
  case Nil
  then have "\<not> waits_mutex (tasks s) w m" for w
    using blk_okD(2) [OF ok, of w m] by (simp add: waits_mutex_def)
  then show ?thesis by (simp add: first_waiter_pri_def Nil)
next
  case (Cons t ts)
  have "waits_mutex (tasks s) t m" using blk_okD(2) [OF ok, of t m] Cons by (simp add: waits_mutex_def)
  moreover have "prio (tcb s t) \<le> prio (tcb s w)" if "waits_mutex (tasks s) w m" for w
    using blk_okD(2) [OF ok, of w m] blk_okD(4) [OF ok pol] that Cons by (auto simp: waits_mutex_def)
  ultimately show ?thesis by (auto simp: first_waiter_pri_def Cons min_def intro: order.trans)
qed

lemma look_min_pi:
  assumes ok: "blk_ok (tasks s) (blks s)" and pol: "\<And>m. m \<in> set ms \<Longrightarrow> blk_policy (blks s m) = BLK_POLICY_PRI"
  shows "look_min s ms p \<le> p \<and> (\<forall>m \<in> set ms. \<forall>w. waits_mutex (tasks s) w m \<longrightarrow> look_min s ms p \<le> prio (tcb s w)) \<and>
    (look_min s ms p = p \<or> (\<exists>m \<in> set ms. \<exists>w. waits_mutex (tasks s) w m \<and> prio (tcb s w) = look_min s ms p))"
  using pol
proof (induction ms arbitrary: p)
  case (Cons m ms)
  let ?q = "min p (first_waiter_pri s m p)"
  have IH: "look_min s ms ?q \<le> ?q"
      "\<forall>m \<in> set ms. \<forall>w. waits_mutex (tasks s) w m \<longrightarrow> look_min s ms ?q \<le> prio (tcb s w)"
      "look_min s ms ?q = ?q \<or> (\<exists>m \<in> set ms. \<exists>w. waits_mutex (tasks s) w m \<and> prio (tcb s w) = look_min s ms ?q)"
    using Cons.IH [of ?q] Cons.prems by auto
  have "blk_policy (blks s m) = BLK_POLICY_PRI" using Cons.prems by simp
  note f = first_waiter_min [OF ok this, of p]
  have "?q \<le> p" by simp
  then have "look_min s ms ?q \<le> p" using IH(1) by (rule order.trans [rotated])
  moreover have "look_min s ms ?q \<le> prio (tcb s w)" if "waits_mutex (tasks s) w m" for w
    using f that IH(1) order.trans by blast
  ultimately show ?case using IH(2,3) f by (simp only: look_min_simps) auto
qed simp

lemma look_min_pi_of:
  assumes "blk_ok (tasks s) (blks s)" and "\<And>m. m \<in> set ms \<Longrightarrow> blk_policy (blks s m) = BLK_POLICY_PRI"
  shows "pi_of (tasks s) t (set ms) (look_min s ms (b_prio (tcb s t)))"
  using look_min_pi [OF assms, where p = "b_prio (tcb s t)"] by (simp add: pi_of_def)

lemma pi_of_unique: "pi_of T t ms p \<Longrightarrow> pi_of T t ms q \<Longrightarrow> p = q"
  unfolding pi_of_def by (metis order_antisym)

lemma mutex_pri_look_none:
  assumes ok: "blk_ok (tasks s) (blks s)" and m: "mtx_ok (tasks s) (blks s) (mutexes s)"
    and t: "is_live (tcb s t)"
  shows "\<exists>p. mutex_pri_look t None s = Some (p, s) \<and> pi_val (tasks s) (blks s) (mutexes s) t p"
proof -
  obtain ms where ms: "mchain (mutexes s) (mutex_list (tcb s t)) ms"
      "\<forall>x. x \<in> set ms \<longleftrightarrow> holds_mutex (blks s) (mutexes s) t x"
    using mtx_okD(1) [OF m t] by blast
  have "mutex_pri_look t None s = Some (look_min s ms (b_prio (tcb s t)), s)"
    using ms(1) by (simp add: mutex_pri_look_def mutex_pri_look_loop_keep slot_get_def)
  moreover have "set ms = {x. holds_mutex (blks s) (mutexes s) t x}" using ms(2) by blast
  moreover have "blk_policy (blks s x) = BLK_POLICY_PRI" if "x \<in> set ms" for x
    using ms(2) that mtx_okD(4) [OF m] by (auto simp: holds_mutex_def)
  ultimately show ?thesis using look_min_pi_of [OF ok, of ms t] by (auto simp: pi_val_pi_of)
qed

lemma mutex_pri_limit_ok:
  assumes ok: "blk_ok (tasks s) (blks s)" and m: "mtx_ok (tasks s) (blks s) (mutexes s)"
    and t: "is_live (tcb s t)"
  shows "\<exists>p. mutex_pri_limit s t pri = Some p \<and>
    pi_of ((tasks s)(t := (tcb s t)\<lparr>b_prio := pri\<rparr>)) t {x. holds_mutex (blks s) (mutexes s) t x} p"
proof -
  obtain ms where ms: "mchain (mutexes s) (mutex_list (tcb s t)) ms"
      "\<forall>x. x \<in> set ms \<longleftrightarrow> holds_mutex (blks s) (mutexes s) t x"
    using mtx_okD(1) [OF m t] by blast
  have "mutex_pri_limit s t pri = Some (look_min s ms pri)"
    using ms(1) by (simp add: mutex_pri_limit_def mutex_pri_limit_loop_eq)
  moreover have "set ms = {x. holds_mutex (blks s) (mutexes s) t x}" using ms(2) by blast
  moreover have "blk_policy (blks s x) = BLK_POLICY_PRI" if "x \<in> set ms" for x
    using ms(2) that mtx_okD(4) [OF m] by (auto simp: holds_mutex_def)
  moreover have "waits_mutex ((tasks s)(t := (tcb s t)\<lparr>b_prio := pri\<rparr>)) w x = waits_mutex (tasks s) w x"
      "prio (((tasks s)(t := (tcb s t)\<lparr>b_prio := pri\<rparr>)) w) = prio (tcb s w)"
      "b_prio (((tasks s)(t := (tcb s t)\<lparr>b_prio := pri\<rparr>)) t) = pri" for w x
    by (auto simp: waits_mutex_def is_pend_def)
  ultimately show ?thesis using look_min_pi [OF ok, of ms pri]
    by (simp add: pi_of_def del: fun_upd_apply)
qed

end
