(* ===== verification/Priority_Inheritance.thy ===== *)
theory Priority_Inheritance
  imports Mutex_Chain
begin

text \<open>
  The loop of \<^verbatim>\<open>task_pri_change\<close> (\<^verbatim>\<open>k_task.c\<close>): a priority change terminates when there is no
  deadlock, keeps the list structures, and re-establishes exact priority inheritance along the
  chain of owners that wait for other mutexes.
\<close>

section \<open>One priority is changed\<close>

definition set_prio :: "nat \<Rightarrow> tid \<Rightarrow> (tid \<Rightarrow> ktask) \<Rightarrow> tid \<Rightarrow> ktask" where
  "set_prio p t T = T(t := (T t)\<lparr>prio := p\<rparr>)"

lemma set_prio_simps [simp]:
  "is_live (set_prio p t T u) = is_live (T u)" "is_pend (set_prio p t T u) = is_pend (T u)"
  "task_state (set_prio p t T u) = task_state (T u)"
  "blk_obj (set_prio p t T u) = blk_obj (T u)" "b_prio (set_prio p t T u) = b_prio (T u)"
  "mutex_list (set_prio p t T u) = mutex_list (T u)"
  "prio (set_prio p t T u) = (if u = t then p else prio (T u))"
  "waits_mutex (set_prio p t T) u m = waits_mutex T u m"
  by (auto simp: set_prio_def waits_mutex_def state_classes)

lemma prio_ok_set_prio: "prio_ok T \<Longrightarrow> t \<noteq> g_idle_task \<Longrightarrow> p < 61 \<Longrightarrow> prio_ok (set_prio p t T)"
  by (auto simp: set_prio_def prio_ok_def state_classes)

lemma tick_ok_set_prio: "tick_ok T H c \<Longrightarrow> tick_ok (set_prio p t T) H c"
  unfolding set_prio_def by (rule tick_ok_frame) (simp add: tick_view_def is_pend_def is_sleep_def)+

lemma rdy_ok_set_prio: "rdy_ok T q \<Longrightarrow> task_state (T t) \<noteq> K_RDY \<Longrightarrow> rdy_ok (set_prio p t T) q"
  unfolding set_prio_def by (rule rdy_ok_frame) (simp_all add: rdy_view_def)

lemma blk_ok_set_prio: "blk_ok T B \<Longrightarrow> \<not> is_pend (T t) \<Longrightarrow> blk_ok (set_prio p t T) B"
  unfolding set_prio_def by (rule blk_ok_frame) (simp_all add: pend_view_def is_pend_def)

lemma mtx_ok_set_prio: "mtx_ok T B M \<Longrightarrow> mtx_ok (set_prio p t T) B M"
  by (auto simp: mtx_ok_def)

text \<open>The blocking lists after a waiting task got a new priority.\<close>

definition reorder :: "oid \<Rightarrow> tid \<Rightarrow> (tid \<Rightarrow> ktask) \<Rightarrow> (oid \<Rightarrow> blk_obj_t) \<Rightarrow> oid \<Rightarrow> blk_obj_t" where
  "reorder b t T B =
     (if blk_policy (B b) = BLK_POLICY_PRI
      then (blk_list_rm t B)(b := blk_enter T t (blk_list_rm t B b)) else B)"

lemma pend_list_reorder_eq:
  assumes "blk_obj (tcb s t) = Some b"
  shows "pend_list_reorder t (upd_task t (\<lambda>k. k\<lparr>prio := p\<rparr>) s) =
    s\<lparr>tasks := set_prio p t (tasks s), blks := reorder b t (set_prio p t (tasks s)) (blks s)\<rparr>"
  using assms
  by (auto simp: pend_list_reorder_def upd_task_def pend_list_add_def task_list_rm_def upd_blk_def set_prio_def
      reorder_def blk_enter_def Let_def intro!: kstate.equality)

lemma blk_ok_reorder:
  assumes ok: "blk_ok T B" and t: "is_pend (T t)" "blk_obj (T t) = Some b"
  shows "blk_ok (set_prio p t T) (reorder b t (set_prio p t T) B)"
proof (cases "blk_policy (B b) = BLK_POLICY_PRI")
  case True
  let ?w = "wake_tcb BLK_FINISH (T t)" and ?k = "(T t)\<lparr>prio := p\<rparr>"
  have "blk_ok (T(t := ?w)) (blk_list_rm t B)" by (rule blk_ok_rm [OF ok]) simp
  then have "blk_ok ((T(t := ?w))(t := ?k))
      ((blk_list_rm t B)(b := blk_enter ((T(t := ?w))(t := ?k)) t (blk_list_rm t B b)))"
    using t by (intro blk_ok_enter) (simp_all, simp add: is_pend_def)
  with True show ?thesis by (simp add: reorder_def set_prio_def)
next
  case False
  have "sorted (map (\<lambda>u. prio (set_prio p t T u)) (blk_list (B c)))"
    if "blk_policy (B c) = BLK_POLICY_PRI" for c
  proof -
    have nt: "t \<notin> set (blk_list (B c))" using blk_okD(2) [OF ok, of t c] t(2) False that by auto
    show ?thesis
      using blk_okD(4) [OF ok that] by (simp only: set_prio_def map_prio_upd_notin [OF nt])
  qed
  then show ?thesis
    using ok False unfolding blk_ok_def reorder_def by (simp del: set_prio_simps(7))
qed

lemma reorder_simps [simp]:
  "t \<in> set (blk_list (B b)) \<Longrightarrow> distinct (blk_list (B b)) \<Longrightarrow> (\<And>c. c \<noteq> b \<Longrightarrow> t \<notin> set (blk_list (B c))) \<Longrightarrow>
     set (blk_list (reorder b t T B c)) = set (blk_list (B c))"
  "blk_policy (reorder b t T B c) = blk_policy (B c)"
  "obj_type (reorder b t T B c) = obj_type (B c)"
  "is_mutex (reorder b t T B c) = is_mutex (B c)"
  "holds_mutex (reorder b t T B) M u m = holds_mutex B M u m"
  by (auto simp: reorder_def holds_mutex_def set_remove1_distinct remove1_idem)

lemma reorder_set:
  assumes "blk_ok T B" and "is_pend (T t)" and "blk_obj (T t) = Some b"
  shows "set (blk_list (reorder b t T' B c)) = set (blk_list (B c))"
  using blk_okD(1,2) [OF assms(1)] assms(2,3) by (intro reorder_simps(1)) auto

lemma mtx_ok_same_sets:
  assumes "mtx_ok T B M" and "\<And>m. obj_type (B' m) = obj_type (B m)" and "\<And>m. blk_policy (B' m) = blk_policy (B m)"
    and "\<And>m. set (blk_list (B' m)) = set (blk_list (B m))"
  shows "mtx_ok T B' M"
proof (rule mtx_ok_blks [OF assms(1)])
  show "mutex_task (M m) \<noteq> None" if "is_mutex (B m)" "blk_list (B' m) \<noteq> []" for m
  proof -
    have "blk_list (B m) \<noteq> []" using that(2) assms(4) [of m] by auto
    then show ?thesis using mtx_okD(5) [OF assms(1) that(1)] by blast
  qed
qed (use assms(2,3) in \<open>simp_all add: is_mutex_def\<close>)

section \<open>What a priority change leaves alone\<close>

definition pri_frame :: "kstate \<Rightarrow> kstate \<Rightarrow> bool" where
  "pri_frame s s' \<longleftrightarrow>
     s' = s\<lparr>tasks := tasks s', blks := blks s', g_ready_queue := g_ready_queue s'\<rparr> \<and>
     (\<forall>u. tcb s' u = (tcb s u)\<lparr>prio := prio (tcb s' u)\<rparr>) \<and>
     (\<forall>b. set (blk_list (blks s' b)) = set (blk_list (blks s b)) \<and>
        blk_policy (blks s' b) = blk_policy (blks s b) \<and> obj_type (blks s' b) = obj_type (blks s b))"

lemma pri_frame_refl [simp]: "pri_frame s s"
  by (simp add: pri_frame_def)

lemma pri_frame_trans: "pri_frame a b \<Longrightarrow> pri_frame b c \<Longrightarrow> pri_frame a c"
proof -
  assume ab: "pri_frame a b" and bc: "pri_frame b c"
  have "c = a\<lparr>tasks := tasks c, blks := blks c, g_ready_queue := g_ready_queue c\<rparr>"
  proof -
    have "c = b\<lparr>tasks := tasks c, blks := blks c, g_ready_queue := g_ready_queue c\<rparr>"
      using bc by (simp add: pri_frame_def)
    moreover have "b = a\<lparr>tasks := tasks b, blks := blks b, g_ready_queue := g_ready_queue b\<rparr>"
      using ab by (simp add: pri_frame_def)
    ultimately have "c = (a\<lparr>tasks := tasks b, blks := blks b, g_ready_queue := g_ready_queue b\<rparr>)
        \<lparr>tasks := tasks c, blks := blks c, g_ready_queue := g_ready_queue c\<rparr>" by argo
    then show ?thesis by simp
  qed
  moreover have "tcb c u = (tcb a u)\<lparr>prio := prio (tcb c u)\<rparr>" for u
  proof -
    have "tcb c u = (tcb b u)\<lparr>prio := prio (tcb c u)\<rparr>" "tcb b u = (tcb a u)\<lparr>prio := prio (tcb b u)\<rparr>"
      using ab bc by (auto simp: pri_frame_def)
    then have "tcb c u = ((tcb a u)\<lparr>prio := prio (tcb b u)\<rparr>)\<lparr>prio := prio (tcb c u)\<rparr>" by argo
    then show ?thesis by simp
  qed
  ultimately show ?thesis using ab bc by (simp add: pri_frame_def)
qed

section \<open>The loop of \<open>task_pri_change\<close>\<close>

text \<open>
  \<open>X\<close> assigns to some tasks a further priority to inherit: \<open>krhino_mutex_lock\<close> raises the owner
  before the caller is on the waiting list.
\<close>

definition pi_valx :: "(tid \<Rightarrow> nat option) \<Rightarrow> (tid \<Rightarrow> ktask) \<Rightarrow> (oid \<Rightarrow> blk_obj_t) \<Rightarrow> (oid \<Rightarrow> kmutex) \<Rightarrow> tid \<Rightarrow> nat \<Rightarrow> bool" where
  "pi_valx X T B M t p \<longleftrightarrow>
     (\<exists>q. pi_val T B M t q \<and> p = (case X t of None \<Rightarrow> q | Some r \<Rightarrow> min q r))"

lemma pi_valx_None: "X t = None \<Longrightarrow> pi_valx X T B M t p = pi_val T B M t p"
  by (simp add: pi_valx_def)

lemma pi_valx_le: "pi_valx X T B M t p \<Longrightarrow> p \<le> b_prio (T t)"
  by (auto simp: pi_valx_def pi_val_def split: option.splits)

definition msidex :: "(tid \<Rightarrow> nat option) \<Rightarrow> (tid \<Rightarrow> ktask) \<Rightarrow> (oid \<Rightarrow> blk_obj_t) \<Rightarrow> (oid \<Rightarrow> kmutex) \<Rightarrow> bool" where
  "msidex X T B M \<longleftrightarrow> mtx_ok T B M \<and> (\<forall>t. is_live (T t) \<longrightarrow> pi_valx X T B M t (prio (T t))) \<and> wf (waits_for T B M)"

lemma msidex_empty: "msidex Map.empty T B M = mside T B M"
  by (simp add: msidex_def mside_def pi_ok_def pi_valx_None)

abbreviation kmsidex :: "(tid \<Rightarrow> nat option) \<Rightarrow> kstate \<Rightarrow> bool" where
  "kmsidex X s \<equiv> msidex X (tasks s) (blks s) (mutexes s)"

text \<open>Before an iteration: inheritance is exact except at \<open>t\<close>, where \<open>p\<close> is the exact value.\<close>

definition pri_pre :: "(tid \<Rightarrow> nat option) \<Rightarrow> kstate \<Rightarrow> tid \<Rightarrow> nat \<Rightarrow> bool" where
  "pri_pre X s t p \<longleftrightarrow> kbase s \<and> mtx_ok (tasks s) (blks s) (mutexes s) \<and>
     wf (waits_for (tasks s) (blks s) (mutexes s)) \<and> is_live (tcb s t) \<and> t \<noteq> g_idle_task \<and>
     pi_valx X (tasks s) (blks s) (mutexes s) t p \<and>
     (\<forall>u. is_live (tcb s u) \<and> u \<noteq> t \<longrightarrow> pi_valx X (tasks s) (blks s) (mutexes s) u (prio (tcb s u))) \<and>
     (\<forall>u. (u, t) \<in> (waits_for (tasks s) (blks s) (mutexes s))\<^sup>+ \<longrightarrow> X u = None)"

lemma pri_preD:
  assumes "pri_pre X s t p"
  shows "kbase s" and "mtx_ok (tasks s) (blks s) (mutexes s)"
    and "wf (waits_for (tasks s) (blks s) (mutexes s))" and "is_live (tcb s t)" and "t \<noteq> g_idle_task"
    and "pi_valx X (tasks s) (blks s) (mutexes s) t p"
    and "is_live (tcb s u) \<Longrightarrow> u \<noteq> t \<Longrightarrow> pi_valx X (tasks s) (blks s) (mutexes s) u (prio (tcb s u))"
    and "p < 61"
    and "(u, t) \<in> (waits_for (tasks s) (blks s) (mutexes s))\<^sup>+ \<Longrightarrow> X u = None"
proof -
  have "p \<le> b_prio (tcb s t)" "b_prio (tcb s t) < 61"
    using assms prio_okD(4) [OF kbaseD(4), of s t] by (auto simp: pri_pre_def dest: pi_valx_le)
  then show "p < 61" by simp
qed (use assms in \<open>auto simp: pri_pre_def\<close>)

text \<open>
  The exact value of \<open>u\<close> depends on the priority of \<open>t\<close> only if \<open>t\<close> waits for a mutex of \<open>u\<close>.
\<close>

lemma pi_val_set_prio:
  assumes "\<And>m. waits_mutex T t m \<Longrightarrow> \<not> holds_mutex B M u m"
    and "\<And>v m. holds_mutex B' M v m = holds_mutex B M v m"
  shows "pi_val (set_prio p t T) B' M u q = pi_val T B M u q"
  using assms by (intro pi_val_cong) auto

lemma waits_for_set_prio:
  assumes "\<And>v m. holds_mutex B' M v m = holds_mutex B M v m"
  shows "waits_for (set_prio p t T) B' M = waits_for T B M"
  by (auto simp: waits_for_def assms)

lemma mside_set_prio:
  assumes pre: "pri_pre X s t p" and np: "\<And>m. waits_mutex (tasks s) t m \<Longrightarrow> \<not> is_mutex (blks s m)"
    and B: "\<And>m. obj_type (B m) = obj_type (blks s m)" "\<And>m. blk_policy (B m) = blk_policy (blks s m)"
      "\<And>m. set (blk_list (B m)) = set (blk_list (blks s m))"
  shows "msidex X (set_prio p t (tasks s)) B (mutexes s)"
proof -
  note d = pri_preD [OF pre]
  have h: "holds_mutex B (mutexes s) v m = holds_mutex (blks s) (mutexes s) v m" for v m
    using B(1) by (simp add: holds_mutex_def is_mutex_def)
  have "pi_val (set_prio p t (tasks s)) B (mutexes s) u q = pi_val (tasks s) (blks s) (mutexes s) u q" for u q
    using np by (intro pi_val_set_prio h) (auto simp: holds_mutex_def)
  then have "\<forall>u. is_live (set_prio p t (tasks s) u) \<longrightarrow>
      pi_valx X (set_prio p t (tasks s)) B (mutexes s) u (prio (set_prio p t (tasks s) u))"
    using d(6,7) by (simp add: pi_valx_def)
  moreover have "wf (waits_for (set_prio p t (tasks s)) B (mutexes s))"
    using d(3) waits_for_set_prio [OF h] by simp
  moreover have "mtx_ok (set_prio p t (tasks s)) B (mutexes s)"
    using mtx_ok_same_sets [OF mtx_ok_set_prio [OF d(2)] B] .
  ultimately show ?thesis by (simp add: msidex_def)
qed

lemma pri_step_same:
  assumes pre: "pri_pre X s t p" and eq: "prio (tcb s t) = p"
  shows "kmsidex X s"
  using assms pri_preD [OF pre] by (auto simp: msidex_def)

lemma pri_step_rdy:
  assumes pre: "pri_pre X s t p" and neq: "prio (tcb s t) \<noteq> p" and st: "task_state (tcb s t) = K_RDY"
  shows "\<exists>s'. task_pri_change_step t p s = Some (Stop RHINO_SUCCESS, s') \<and> kbase s' \<and> kmsidex X s' \<and> pri_frame s s'"
proof -
  note d = pri_preD [OF pre] and k = kbaseD [OF pri_preD(1) [OF pre]]
  let ?T = "set_prio p t (tasks s)" and ?w = "(tcb s t)\<lparr>task_state := K_SUSPENDED\<rparr>"
  obtain q where q: "ready_list_rm (g_ready_queue s) t (prio (tcb s t)) = Some q"
      "rdy_ok ((tasks s)(t := ?w)) q"
    using rdy_ok_rm [OF k(1) st d(5) [symmetric] prio_okD(1) [OF k(4)], of ?w] by auto
  define q' where "q' = (if t = g_active_task s then ready_list_add_head q t p else ready_list_add_tail q t p)"
  let ?s = "s\<lparr>tasks := ?T, g_ready_queue := q'\<rparr>"
  have "rdy_ok (((tasks s)(t := ?w))(t := (tcb s t)\<lparr>prio := p\<rparr>)) q'"
    using rdy_ok_add_head [OF q(2), of t "(tcb s t)\<lparr>prio := p\<rparr>" p]
      rdy_ok_add_tail [OF q(2), of t "(tcb s t)\<lparr>prio := p\<rparr>" p] st d(8) by (auto simp: q'_def)
  then have rdy: "rdy_ok ?T q'" by (simp add: set_prio_def)
  have np: "\<not> is_pend (tcb s t)" using st by (simp add: is_pend_def)
  have "task_pri_change_step t p s = Some (Stop RHINO_SUCCESS, ?s)"
    using neq st q(1)
    by (auto simp: task_pri_change_step_def rdy_rm_def upd_task_def rdy_add_head_def rdy_add_tail_def
        set_prio_def q'_def Let_def intro!: kstate.equality)
  moreover have "kbase ?s"
    using rdy blk_ok_set_prio [OF k(2) np] tick_ok_set_prio [OF k(3)] prio_ok_set_prio [OF k(4) d(5,8)] k(5)
    by (simp add: kbase_def)
  moreover have "kmsidex X ?s"
    using mside_set_prio [OF pre, of "blks s"] np by (simp add: waits_mutex_def)
  moreover have "pri_frame s ?s" by (simp add: pri_frame_def set_prio_def)
  ultimately show ?thesis by blast
qed

lemma pri_step_idle_wait:
  assumes pre: "pri_pre X s t p" and neq: "prio (tcb s t) \<noteq> p"
    and st: "task_state (tcb s t) \<noteq> K_RDY" "\<not> is_pend (tcb s t)"
  shows "\<exists>s'. task_pri_change_step t p s = Some (Stop RHINO_SUCCESS, s') \<and> kbase s' \<and> kmsidex X s' \<and> pri_frame s s'"
proof -
  note d = pri_preD [OF pre] and k = kbaseD [OF pri_preD(1) [OF pre]]
  let ?s = "s\<lparr>tasks := set_prio p t (tasks s)\<rparr>"
  have "task_pri_change_step t p s = Some (Stop RHINO_SUCCESS, ?s)"
    using neq st d(4) by (auto simp: task_pri_change_step_def upd_task_def set_prio_def state_classes split: task_stat.splits)
  moreover have "kbase ?s"
    using rdy_ok_set_prio [OF k(1) st(1)] blk_ok_set_prio [OF k(2) st(2)] tick_ok_set_prio [OF k(3)]
      prio_ok_set_prio [OF k(4) d(5,8)] k(5)
    by (simp add: kbase_def)
  moreover have "kmsidex X ?s"
    using mside_set_prio [OF pre, of "blks s"] st(2) by (simp add: waits_mutex_def)
  moreover have "pri_frame s ?s" by (simp add: pri_frame_def set_prio_def)
  ultimately show ?thesis by blast
qed

text \<open>The state after a waiting task got its new priority and its new place in the list.\<close>

definition repri :: "oid \<Rightarrow> tid \<Rightarrow> nat \<Rightarrow> kstate \<Rightarrow> kstate" where
  "repri b t p s = s\<lparr>tasks := set_prio p t (tasks s), blks := reorder b t (set_prio p t (tasks s)) (blks s)\<rparr>"

lemma repri_kbase:
  assumes pre: "pri_pre X s t p" and st: "is_pend (tcb s t)" "blk_obj (tcb s t) = Some b"
  shows "kbase (repri b t p s)"
proof -
  note d = pri_preD [OF pre] and k = kbaseD [OF pri_preD(1) [OF pre]]
  have "task_state (tcb s t) \<noteq> K_RDY" using st(1) by (auto simp: is_pend_def)
  then show ?thesis
    using rdy_ok_set_prio [OF k(1)] blk_ok_reorder [OF k(2) st] tick_ok_set_prio [OF k(3)]
      prio_ok_set_prio [OF k(4) d(5,8)] k(5)
    by (simp add: kbase_def repri_def)
qed

lemma repri_frame:
  assumes "blk_ok (tasks s) (blks s)" and "is_pend (tcb s t)" and "blk_obj (tcb s t) = Some b"
  shows "pri_frame s (repri b t p s)"
  using reorder_set [OF assms] by (simp add: pri_frame_def repri_def set_prio_def)

lemma repri_mtx:
  assumes "mtx_ok (tasks s) (blks s) (mutexes s)" and "blk_ok (tasks s) (blks s)" and "is_pend (tcb s t)"
    and "blk_obj (tcb s t) = Some b"
  shows "mtx_ok (tasks (repri b t p s)) (blks (repri b t p s)) (mutexes (repri b t p s))"
  using mtx_ok_same_sets [OF mtx_ok_set_prio [OF assms(1)]] reorder_set [OF assms(2-4)]
  by (simp add: repri_def)

lemma task_pri_change_step_pend:
  assumes "prio (tcb s t) \<noteq> p" and "is_pend (tcb s t)" and b: "blk_obj (tcb s t) = Some b"
  shows "task_pri_change_step t p s =
    (if is_mutex (blks s b) then
       case mutex_task (mutexes s b) of
         None \<Rightarrow> Some (Stop RHINO_SUCCESS, raise_fault (repri b t p s))
       | Some u \<Rightarrow>
           if prio (tcb (repri b t p s) u) > p then Some (Next u p, repri b t p s)
           else if prio (tcb (repri b t p s) u) = prio (tcb s t) then
             case mutex_pri_look u None (repri b t p s) of
               None \<Rightarrow> None
             | Some (p', s') \<Rightarrow>
                 if p' \<noteq> prio (tcb s' u) then Some (Next u p', s') else Some (Stop RHINO_SUCCESS, s')
           else Some (Stop RHINO_SUCCESS, repri b t p s)
     else Some (Stop RHINO_SUCCESS, repri b t p s))"
proof -
  have r: "pend_list_reorder t (upd_task t (\<lambda>k. k\<lparr>prio := p\<rparr>) s) = repri b t p s"
    using pend_list_reorder_eq [OF b] by (simp add: repri_def)
  have "blk_obj (tcb (repri b t p s) t) = Some b" "mutexes (repri b t p s) = mutexes s"
      "is_mutex (blks (repri b t p s) b) = is_mutex (blks s b)" "prio (tcb (repri b t p s) t) = p"
    using b by (simp_all add: repri_def)
  then show ?thesis
    using assms(1,2) unfolding is_pend_def
    by (cases "mutex_task (mutexes s b)") (auto simp: task_pri_change_step_def r Let_def)
qed

lemma pri_pre_next:
  assumes pre: "pri_pre X s t p" and st: "is_pend (tcb s t)" "blk_obj (tcb s t) = Some b"
    and u: "holds_mutex (blks s) (mutexes s) u b"
    and v: "pi_val (tasks (repri b t p s)) (blks (repri b t p s)) (mutexes s) u q"
  shows "pri_pre X (repri b t p s) u q" and "u \<noteq> t"
proof -
  note d = pri_preD [OF pre] and k = kbaseD [OF pri_preD(1) [OF pre]]
  have edge: "(u, t) \<in> waits_for (tasks s) (blks s) (mutexes s)"
    using st u by (auto simp: waits_for_def waits_mutex_def)
  then show ut: "u \<noteq> t" using d(3) by auto
  have x: "X w = None" if "(w, u) \<in> (waits_for (tasks s) (blks s) (mutexes s))\<^sup>+ \<or> w = u" for w
    using that edge d(9) [of w] by (auto intro: trancl_into_trancl)
  have others: "pi_val (tasks (repri b t p s)) (blks (repri b t p s)) (mutexes s) w q =
      pi_val (tasks s) (blks s) (mutexes s) w q" if "w \<noteq> u" for w q
    unfolding repri_def using that u st
    by (simp, intro pi_val_set_prio) (auto simp: waits_mutex_def holds_mutex_def)
  have "pi_valx X (tasks (repri b t p s)) (blks (repri b t p s)) (mutexes s) w (prio (tcb (repri b t p s) w))"
    if "is_live (tcb s w)" "w \<noteq> u" for w
    using d(6) d(7) [OF that(1)] others [OF that(2)] by (simp add: repri_def pi_valx_def)
  moreover have "waits_for (tasks (repri b t p s)) (blks (repri b t p s)) (mutexes s) =
      waits_for (tasks s) (blks s) (mutexes s)"
    by (simp add: repri_def waits_for_set_prio)
  moreover have "is_live (tcb s u)" "u \<noteq> g_idle_task" using mtx_okD(2,3) [OF d(2) u] .
  ultimately show "pri_pre X (repri b t p s) u q"
    unfolding pri_pre_def
    using v repri_kbase [OF pre st] repri_mtx [OF d(2) k(2) st, of p] d(3) x
    by (simp add: repri_def pi_valx_None)
qed

lemma pri_pre_stop:
  assumes "pri_pre X s u p" and "prio (tcb s u) = p"
  shows "kbase s \<and> kmsidex X s"
  using pri_preD(1) [OF assms(1)] pri_step_same [OF assms] by blast

lemma pri_step_pend:
  assumes pre: "pri_pre X s t p" and neq: "prio (tcb s t) \<noteq> p" and st: "is_pend (tcb s t)"
  shows "(\<exists>s'. task_pri_change_step t p s = Some (Stop RHINO_SUCCESS, s') \<and> kbase s' \<and> kmsidex X s' \<and> pri_frame s s') \<or>
    (\<exists>u q s'. task_pri_change_step t p s = Some (Next u q, s') \<and> pri_pre X s' u q \<and> pri_frame s s' \<and>
       (u, t) \<in> waits_for (tasks s) (blks s) (mutexes s))"
proof -
  note d = pri_preD [OF pre] and k = kbaseD [OF pri_preD(1) [OF pre]]
  obtain b where b: "blk_obj (tcb s t) = Some b" using blk_okD(3) [OF k(2) st] by blast
  note step = task_pri_change_step_pend [OF neq st b]
  let ?s = "repri b t p s"
  have fr: "pri_frame s ?s" using repri_frame [OF k(2) st b] .
  have kb: "kbase ?s" using repri_kbase [OF pre st b] .
  show ?thesis
  proof (cases "is_mutex (blks s b)")
    case False
    have "msidex X (tasks ?s) (blks ?s) (mutexes s)"
      unfolding repri_def using False b reorder_set [OF k(2) st b]
      by (simp, intro mside_set_prio [OF pre]) (auto simp: waits_mutex_def)
    then have "kmsidex X ?s" by (simp add: repri_def)
    with False step fr kb show ?thesis by simp
  next
    case True
    have "t \<in> set (blk_list (blks s b))" using blk_okD(2) [OF k(2)] st b by simp
    then have "blk_list (blks s b) \<noteq> []" by auto
    then obtain u where u: "mutex_task (mutexes s b) = Some u" using mtx_okD(5) [OF d(2) True] by blast
    have h: "holds_mutex (blks s) (mutexes s) u b" using True u by (simp add: holds_mutex_def)
    have edge: "(u, t) \<in> waits_for (tasks s) (blks s) (mutexes s)"
      using st b h by (auto simp: waits_for_def waits_mutex_def)
    then have ut: "u \<noteq> t" using d(3) by auto
    have live: "is_live (tcb s u)" using mtx_okD(2) [OF d(2) h] .
    have "X u = None" using d(9) edge by blast
    then have piu: "pi_val (tasks s) (blks s) (mutexes s) u (prio (tcb s u))"
      using d(7) [OF live ut] by (simp add: pi_valx_None)
    have pu: "prio (tcb ?s u) = prio (tcb s u)" using ut by (simp add: repri_def)
    have hr: "holds_mutex (blks ?s) (mutexes s) v m = holds_mutex (blks s) (mutexes s) v m" for v m
      by (simp add: repri_def)
    have wr: "waits_mutex (tasks ?s) v m = waits_mutex (tasks s) v m" for v m by (simp add: repri_def)
    have pr: "prio (tcb ?s v) = (if v = t then p else prio (tcb s v))" for v by (simp add: repri_def)
    have br: "b_prio (tcb ?s v) = b_prio (tcb s v)" for v by (simp add: repri_def)
    have wt: "waits_mutex (tasks s) t b" using st b by (simp add: waits_mutex_def)
    have old: "prio (tcb s u) \<le> prio (tcb s t)" using piu h wt by (auto simp: pi_val_def)
    consider (raise) "prio (tcb s u) > p" | (look) "prio (tcb s u) \<le> p" "prio (tcb s u) = prio (tcb s t)"
      | (keep) "prio (tcb s u) \<le> p" "prio (tcb s u) < prio (tcb s t)" using old by linarith
    then show ?thesis
    proof cases
      case raise
      have "pi_val (tasks ?s) (blks ?s) (mutexes s) u p"
        unfolding pi_val_def hr wr pr br
      proof (intro conjI allI impI)
        show "p \<le> b_prio (tcb s u)" using piu raise by (simp add: pi_val_def)
        show "p \<le> (if w = t then p else prio (tcb s w))"
          if "holds_mutex (blks s) (mutexes s) u m" "waits_mutex (tasks s) w m" for m w
        proof -
          have "prio (tcb s u) \<le> prio (tcb s w)" using piu that unfolding pi_val_def by blast
          then show ?thesis using raise by simp
        qed
        show "p = b_prio (tcb s u) \<or> (\<exists>m w. holds_mutex (blks s) (mutexes s) u m \<and>
            waits_mutex (tasks s) w m \<and> (if w = t then p else prio (tcb s w)) = p)"
          using h wt by auto
      qed
      from pri_pre_next [OF pre st b h this] show ?thesis
        using step True u raise pu fr edge by auto
    next
      case look
      have "blk_ok (tasks ?s) (blks ?s)" using kbaseD(2) [OF kb] .
      moreover have "mtx_ok (tasks ?s) (blks ?s) (mutexes ?s)" using repri_mtx [OF d(2) k(2) st b] .
      moreover have "is_live (tcb ?s u)" using live by (simp add: repri_def)
      ultimately obtain q where q: "mutex_pri_look u None ?s = Some (q, ?s)"
          "pi_val (tasks ?s) (blks ?s) (mutexes ?s) u q"
        using mutex_pri_look_none by blast
      have pn: "pri_pre X ?s u q" using pri_pre_next [OF pre st b h] q(2) by (simp add: repri_def)
      show ?thesis
      proof (cases "q = prio (tcb ?s u)")
        case eq: True
        then show ?thesis
          using step True u look pu q fr pri_pre_stop [OF pn] by auto
      next
        case neq: False
        then show ?thesis using step True u look pu q fr pn edge by auto
      qed
    next
      case keep
      have "pi_val (tasks ?s) (blks ?s) (mutexes s) u (prio (tcb s u))"
        unfolding pi_val_def hr wr pr br
      proof (intro conjI allI impI)
        show "prio (tcb s u) \<le> b_prio (tcb s u)" using piu by (simp add: pi_val_def)
        show "prio (tcb s u) \<le> (if w = t then p else prio (tcb s w))"
          if "holds_mutex (blks s) (mutexes s) u m" "waits_mutex (tasks s) w m" for m w
        proof -
          have "prio (tcb s u) \<le> prio (tcb s w)" using piu that unfolding pi_val_def by blast
          then show ?thesis using keep by simp
        qed
        have "prio (tcb s w) = prio (tcb s u) \<Longrightarrow> (if w = t then p else prio (tcb s w)) = prio (tcb s u)" for w
          using keep by auto
        then show "prio (tcb s u) = b_prio (tcb s u) \<or> (\<exists>m w. holds_mutex (blks s) (mutexes s) u m \<and>
            waits_mutex (tasks s) w m \<and> (if w = t then p else prio (tcb s w)) = prio (tcb s u))"
          using piu unfolding pi_val_def by blast
      qed
      then have pn: "pri_pre X ?s u (prio (tcb s u))" using pri_pre_next [OF pre st b h] by blast
      from pri_pre_stop [OF this] show ?thesis using step True u keep pu fr by auto
    qed
  qed
qed

text \<open>The frame keeps who waits for whom.\<close>

lemma pri_frameD:
  assumes "pri_frame s s'"
  shows "mutexes s' = mutexes s" and "sems s' = sems s" and "queues s' = queues s" and "events s' = events s"
    and "buf_queues s' = buf_queues s" and "g_active_task s' = g_active_task s"
    and "g_sched_lock s' = g_sched_lock s" and "g_intrpt_nested_level s' = g_intrpt_nested_level s"
    and "g_tick_head s' = g_tick_head s" and "g_tick_count s' = g_tick_count s" and "errs s' = errs s"
    and "g_sys_stat s' = g_sys_stat s" and "g_kobj_list s' = g_kobj_list s" and "freed s' = freed s"
    and "fault s' = fault s" and "g_res_list s' = g_res_list s"
    and "g_idle_task_spawned s' = g_idle_task_spawned s"
    and "tcb s' u = (tcb s u)\<lparr>prio := prio (tcb s' u)\<rparr>"
    and "set (blk_list (blks s' b)) = set (blk_list (blks s b))"
    and "blk_policy (blks s' b) = blk_policy (blks s b)" and "obj_type (blks s' b) = obj_type (blks s b)"
proof -
  have eq: "s' = s\<lparr>tasks := tasks s', blks := blks s', g_ready_queue := g_ready_queue s'\<rparr>"
    using assms by (simp add: pri_frame_def)
  note c = arg_cong [OF eq]
  show "mutexes s' = mutexes s" using c [of mutexes] by simp
  show "sems s' = sems s" using c [of sems] by simp
  show "queues s' = queues s" using c [of queues] by simp
  show "events s' = events s" using c [of events] by simp
  show "buf_queues s' = buf_queues s" using c [of buf_queues] by simp
  show "g_active_task s' = g_active_task s" using c [of g_active_task] by simp
  show "g_sched_lock s' = g_sched_lock s" using c [of g_sched_lock] by simp
  show "g_intrpt_nested_level s' = g_intrpt_nested_level s" using c [of g_intrpt_nested_level] by simp
  show "g_tick_head s' = g_tick_head s" using c [of g_tick_head] by simp
  show "g_tick_count s' = g_tick_count s" using c [of g_tick_count] by simp
  show "errs s' = errs s" using c [of errs] by simp
  show "g_sys_stat s' = g_sys_stat s" using c [of g_sys_stat] by simp
  show "g_kobj_list s' = g_kobj_list s" using c [of g_kobj_list] by simp
  show "freed s' = freed s" using c [of freed] by simp
  show "fault s' = fault s" using c [of fault] by simp
  show "g_res_list s' = g_res_list s" using c [of g_res_list] by simp
  show "g_idle_task_spawned s' = g_idle_task_spawned s" using c [of g_idle_task_spawned] by simp
qed (use assms in \<open>auto simp: pri_frame_def\<close>)

lemma pri_frame_waits_for:
  assumes "pri_frame s s'"
  shows "waits_for (tasks s') (blks s') (mutexes s') = waits_for (tasks s) (blks s) (mutexes s)"
proof -
  have T: "tcb s' u = (tcb s u)\<lparr>prio := prio (tcb s' u)\<rparr>" for u using assms by (simp add: pri_frame_def)
  have "blk_obj (tcb s' u) = blk_obj (tcb s u)" "task_state (tcb s' u) = task_state (tcb s u)" for u
    by (subst T, simp)+
  then have "waits_mutex (tasks s') u m = waits_mutex (tasks s) u m" for u m
    by (simp add: waits_mutex_def is_pend_def)
  moreover have "mutexes s' = mutexes s" using pri_frameD(1) [OF assms] .
  moreover have "obj_type (blks s' b) = obj_type (blks s b)" for b
    using assms by (simp add: pri_frame_def)
  ultimately show ?thesis by (simp add: waits_for_def holds_mutex_def is_mutex_def)
qed

lemma task_pri_change_unfold:
  "task_pri_change_step t p s = Some (Stop st, s') \<Longrightarrow> task_pri_change t p s = Some (st, s')"
  "task_pri_change_step t p s = Some (Next u q, s') \<Longrightarrow> task_pri_change t p s = task_pri_change u q s'"
  by (subst task_pri_change.simps, simp)+

lemma task_pri_change_ok:
  assumes "pri_pre X s t p"
  shows "\<exists>s'. task_pri_change t p s = Some (RHINO_SUCCESS, s') \<and> kbase s' \<and> kmsidex X s' \<and> pri_frame s s'"
proof -
  have "\<exists>s'. task_pri_change t p s = Some (RHINO_SUCCESS, s') \<and> kbase s' \<and> kmsidex X s' \<and> pri_frame s s'"
    if "wf R" and "pri_pre X s t p" and "waits_for (tasks s) (blks s) (mutexes s) = R" for R s t p
    using that
  proof (induction t arbitrary: s p rule: wf_induct_rule)
    case (less t)
    note stop = task_pri_change_unfold(1)
    consider (same) "prio (tcb s t) = p"
      | (rdy) "prio (tcb s t) \<noteq> p" "task_state (tcb s t) = K_RDY"
      | (other) "prio (tcb s t) \<noteq> p" "task_state (tcb s t) \<noteq> K_RDY" "\<not> is_pend (tcb s t)"
      | (pend) "prio (tcb s t) \<noteq> p" "is_pend (tcb s t)" by blast
    then show ?case
    proof cases
      case same
      then have "task_pri_change_step t p s = Some (Stop RHINO_SUCCESS, s)"
        by (simp add: task_pri_change_step_def)
      from stop [OF this] pri_pre_stop [OF less.prems(1) same] show ?thesis by auto
    next
      case rdy
      from pri_step_rdy [OF less.prems(1) this] show ?thesis using stop by blast
    next
      case other
      from pri_step_idle_wait [OF less.prems(1) this] show ?thesis using stop by blast
    next
      case pend
      from pri_step_pend [OF less.prems(1) pend] show ?thesis
      proof
        assume "\<exists>s'. task_pri_change_step t p s = Some (Stop RHINO_SUCCESS, s') \<and> kbase s' \<and> kmsidex X s' \<and> pri_frame s s'"
        then show ?thesis using stop by blast
      next
        assume "\<exists>u q s'. task_pri_change_step t p s = Some (Next u q, s') \<and> pri_pre X s' u q \<and> pri_frame s s' \<and>
          (u, t) \<in> waits_for (tasks s) (blks s) (mutexes s)"
        then obtain u q s' where n: "task_pri_change_step t p s = Some (Next u q, s')" "pri_pre X s' u q"
            "pri_frame s s'" "(u, t) \<in> R" using less.prems(2) by blast
        have "waits_for (tasks s') (blks s') (mutexes s') = R"
          using pri_frame_waits_for [OF n(3)] less.prems(2) by simp
        from less.IH [OF n(4,2) this] obtain s'' where
          "task_pri_change u q s' = Some (RHINO_SUCCESS, s'')" "kbase s''" "kmsidex X s''" "pri_frame s' s''" by blast
        then show ?thesis
          using task_pri_change_unfold(2) [OF n(1)] pri_frame_trans [OF n(3)] by auto
      qed
    qed
  qed
  from this [OF pri_preD(3) [OF assms] assms refl] show ?thesis .
qed

end
