(* ===== verification/Sem.thy ===== *)
theory Sem
  imports Sched
begin

text \<open>
  Counting semaphores (\<^verbatim>\<open>k_sem.c\<close>) and the semaphore that belongs to a task (\<^verbatim>\<open>k_task_sem.c\<close>).
  A pointer argument is an option (\<open>None\<close> is NULL); \<open>name_ok\<close> says that the name is not NULL.
\<close>

section \<open>Creation and deletion\<close>

definition sem_create :: "oid option \<Rightarrow> bool \<Rightarrow> sem_count_t \<Rightarrow> alloc_flag \<Rightarrow> kstate \<Rightarrow> kstat \<times> kstate" where
  "sem_create sem name_ok cnt mm_alloc_flag s =
     (case sem of
        None \<Rightarrow> (RHINO_NULL_PTR, s)
      | Some b \<Rightarrow>
          if \<not> name_ok then (RHINO_NULL_PTR, s)
          else
            let s = upd_blk b (\<lambda>o'. o'\<lparr>blk_list := [], blk_policy := BLK_POLICY_PRI\<rparr>) s;
                s = upd_sem b (\<lambda>x. x\<lparr>count := cnt, peak_count := cnt, sem_alloc := mm_alloc_flag\<rparr>) s;
                s = s\<lparr>g_kobj_list := (g_kobj_list s)\<lparr>sem_head := sem_head (g_kobj_list s) @ [b]\<rparr>\<rparr>;
                s = upd_blk b (\<lambda>o'. o'\<lparr>obj_type := RHINO_SEM_OBJ_TYPE\<rparr>) s
            in (RHINO_SUCCESS, s))"

definition krhino_sem_create :: "oid option \<Rightarrow> bool \<Rightarrow> sem_count_t \<Rightarrow> kstate \<Rightarrow> kstat \<times> kstate" where
  "krhino_sem_create sem name_ok cnt s = sem_create sem name_ok cnt K_OBJ_STATIC_ALLOC s"

text \<open>\<open>krhino_sem_del\<close> and \<open>krhino_sem_dyn_del\<close> differ in the allocation flag they accept.\<close>

definition sem_del :: "alloc_flag \<Rightarrow> oid option \<Rightarrow> kstate \<Rightarrow> kstat \<times> kstate" where
  "sem_del alloc sem s =
     (case sem of
        None \<Rightarrow> (RHINO_NULL_PTR, s)
      | Some b \<Rightarrow>
          if g_intrpt_nested_level s > 0 then (RHINO_NOT_CALLED_BY_INTRPT, s)
          else if obj_type (blks s b) \<noteq> RHINO_SEM_OBJ_TYPE then (RHINO_KOBJ_TYPE_ERR, s)
          else if sem_alloc (sems s b) \<noteq> alloc then (RHINO_KOBJ_DEL_ERR, s)
          else
            let s = upd_blk b (\<lambda>o'. o'\<lparr>obj_type := RHINO_OBJ_TYPE_NONE\<rparr>) s;
                s = drain pend_task_rm b s;
                s = s\<lparr>g_kobj_list := (g_kobj_list s)\<lparr>sem_head := remove1 b (sem_head (g_kobj_list s))\<rparr>\<rparr>
            in (RHINO_SUCCESS, core_sched s))"

definition krhino_sem_del :: "oid option \<Rightarrow> kstate \<Rightarrow> kstat \<times> kstate" where
  "krhino_sem_del sem s = sem_del K_OBJ_STATIC_ALLOC sem s"

text \<open>\<open>mem\<close> is the result of \<^verbatim>\<open>krhino_mm_alloc\<close>; the second result is \<^verbatim>\<open>*sem\<close>.\<close>

definition krhino_sem_dyn_create ::
  "bool \<Rightarrow> bool \<Rightarrow> sem_count_t \<Rightarrow> oid option \<Rightarrow> kstate \<Rightarrow> kstat \<times> oid option \<times> kstate" where
  "krhino_sem_dyn_create ptr_ok name_ok cnt mem s =
     (if \<not> ptr_ok then (RHINO_NULL_PTR, None, s)
      else case mem of
             None \<Rightarrow> (RHINO_NO_MEM, None, s)
           | Some b \<Rightarrow>
               (case sem_create (Some b) name_ok cnt K_OBJ_DYN_ALLOC s of
                  (stat, s) \<Rightarrow>
                    if stat \<noteq> RHINO_SUCCESS then (stat, None, krhino_mm_free (Mem_obj b) s)
                    else (stat, Some b, s)))"

definition krhino_sem_dyn_del :: "oid option \<Rightarrow> kstate \<Rightarrow> kstat \<times> kstate" where
  "krhino_sem_dyn_del sem s =
     (case sem_del K_OBJ_DYN_ALLOC sem s of
        (st, s) \<Rightarrow>
          (case sem of
             Some b \<Rightarrow> if st = RHINO_SUCCESS then (st, krhino_mm_free (Mem_obj b) s) else (st, s)
           | None \<Rightarrow> (st, s)))"

section \<open>Give and take\<close>

definition sem_give :: "oid \<Rightarrow> bool \<Rightarrow> kstate \<Rightarrow> kstat \<times> kstate" where
  "sem_give b opt_wake_all s =
     (if obj_type (blks s b) \<noteq> RHINO_SEM_OBJ_TYPE then (RHINO_KOBJ_TYPE_ERR, s)
      else case blk_list (blks s b) of
        [] \<Rightarrow>
          if count (sems s b) = - 1 then (RHINO_SEM_OVF, s)
          else
            let s = upd_sem b (\<lambda>x. x\<lparr>count := count x + 1\<rparr>) s;
                s = (if count (sems s b) > peak_count (sems s b)
                     then upd_sem b (\<lambda>x. x\<lparr>peak_count := count x\<rparr>) s else s)
            in (RHINO_SUCCESS, s)
      | t # ts \<Rightarrow>
          let s = (if opt_wake_all then drain pend_task_wakeup b s else pend_task_wakeup t s)
          in (RHINO_SUCCESS, core_sched s))"

definition krhino_sem_give :: "oid option \<Rightarrow> kstate \<Rightarrow> kstat \<times> kstate" where
  "krhino_sem_give sem s = (case sem of None \<Rightarrow> (RHINO_NULL_PTR, s) | Some b \<Rightarrow> sem_give b False s)"

definition krhino_sem_give_all :: "oid option \<Rightarrow> kstate \<Rightarrow> kstat \<times> kstate" where
  "krhino_sem_give_all sem s = (case sem of None \<Rightarrow> (RHINO_NULL_PTR, s) | Some b \<Rightarrow> sem_give b True s)"

definition krhino_sem_take :: "oid option \<Rightarrow> tick_t \<Rightarrow> kstate \<Rightarrow> kres \<times> kstate" where
  "krhino_sem_take sem ticks s =
     (case sem of
        None \<Rightarrow> (Returned RHINO_NULL_PTR, s)
      | Some b \<Rightarrow>
          if g_intrpt_nested_level s > 0 then (Returned RHINO_NOT_CALLED_BY_INTRPT, s)
          else if obj_type (blks s b) \<noteq> RHINO_SEM_OBJ_TYPE then (Returned RHINO_KOBJ_TYPE_ERR, s)
          else if count (sems s b) > 0
          then (Returned RHINO_SUCCESS, upd_sem b (\<lambda>x. x\<lparr>count := count x - 1\<rparr>) s)
          else if ticks = RHINO_NO_WAIT then (Returned RHINO_NO_PEND_WAIT, s)
          else if g_sched_lock s > 0 then (Returned RHINO_SCHED_DISABLE, s)
          else (Blocked, core_sched (pend_to_blk_obj b (g_active_task s) ticks s)))"

text \<open>The rest of a blocked \<open>krhino_sem_take\<close>, run when the task is active again.\<close>

definition krhino_sem_take_end :: "kstate \<Rightarrow> kstat \<times> kstate" where
  "krhino_sem_take_end s = pend_state_end_proc (g_active_task s) s"

definition krhino_sem_count_set :: "oid option \<Rightarrow> sem_count_t \<Rightarrow> kstate \<Rightarrow> kstat \<times> kstate" where
  "krhino_sem_count_set sem sem_count s =
     (case sem of
        None \<Rightarrow> (RHINO_NULL_PTR, s)
      | Some b \<Rightarrow>
          if g_intrpt_nested_level s > 0 then (RHINO_NOT_CALLED_BY_INTRPT, s)
          else if obj_type (blks s b) \<noteq> RHINO_SEM_OBJ_TYPE then (RHINO_KOBJ_TYPE_ERR, s)
          else if \<not> count (sems s b) > 0 \<and> blk_list (blks s b) \<noteq> [] then (RHINO_SEM_TASK_WAITING, s)
          else
            let s = upd_sem b (\<lambda>x. x\<lparr>count := sem_count\<rparr>) s;
                s = (if count (sems s b) > peak_count (sems s b)
                     then upd_sem b (\<lambda>x. x\<lparr>peak_count := count x\<rparr>) s else s)
            in (RHINO_SUCCESS, s))"

definition krhino_sem_count_get :: "oid option \<Rightarrow> bool \<Rightarrow> kstate \<Rightarrow> kstat \<times> sem_count_t option" where
  "krhino_sem_count_get sem count_ok s =
     (case sem of
        None \<Rightarrow> (RHINO_NULL_PTR, None)
      | Some b \<Rightarrow> if \<not> count_ok then (RHINO_NULL_PTR, None) else (RHINO_SUCCESS, Some (count (sems s b))))"

section \<open>The semaphore of a task\<close>

definition krhino_task_sem_create ::
  "tid option \<Rightarrow> oid option \<Rightarrow> bool \<Rightarrow> sem_count_t \<Rightarrow> kstate \<Rightarrow> kstat \<times> kstate" where
  "krhino_task_sem_create task sem name_ok cnt s =
     (case task of
        None \<Rightarrow> (RHINO_NULL_PTR, s)
      | Some t \<Rightarrow>
          (case krhino_sem_create sem name_ok cnt s of
             (ret, s) \<Rightarrow>
               if ret = RHINO_SUCCESS then (ret, upd_task t (\<lambda>k. k\<lparr>task_sem_obj := sem\<rparr>) s)
               else (ret, upd_task t (\<lambda>k. k\<lparr>task_sem_obj := None\<rparr>) s)))"

definition krhino_task_sem_del :: "tid option \<Rightarrow> kstate \<Rightarrow> kstat \<times> kstate" where
  "krhino_task_sem_del task s =
     (case task of None \<Rightarrow> (RHINO_NULL_PTR, s) | Some t \<Rightarrow> krhino_sem_del (task_sem_obj (tcb s t)) s)"

definition krhino_task_sem_give :: "tid option \<Rightarrow> kstate \<Rightarrow> kstat \<times> kstate" where
  "krhino_task_sem_give task s =
     (case task of None \<Rightarrow> (RHINO_NULL_PTR, s) | Some t \<Rightarrow> krhino_sem_give (task_sem_obj (tcb s t)) s)"

definition krhino_task_sem_take :: "tick_t \<Rightarrow> kstate \<Rightarrow> kres \<times> kstate" where
  "krhino_task_sem_take ticks s = krhino_sem_take (task_sem_obj (tcb s (g_active_task s))) ticks s"

definition krhino_task_sem_count_set :: "tid option \<Rightarrow> sem_count_t \<Rightarrow> kstate \<Rightarrow> kstat \<times> kstate" where
  "krhino_task_sem_count_set task cnt s =
     (case task of None \<Rightarrow> (RHINO_NULL_PTR, s) | Some t \<Rightarrow> krhino_sem_count_set (task_sem_obj (tcb s t)) cnt s)"

definition krhino_task_sem_count_get :: "tid option \<Rightarrow> bool \<Rightarrow> kstate \<Rightarrow> kstat \<times> sem_count_t option" where
  "krhino_task_sem_count_get task count_ok s =
     (case task of
        None \<Rightarrow> (RHINO_NULL_PTR, None)
      | Some t \<Rightarrow> krhino_sem_count_get (task_sem_obj (tcb s t)) count_ok s)"

end
