(* ===== verification/Task.thy ===== *)
theory Task
  imports Mutex Sem
begin

text \<open>
  Tasks (\<^verbatim>\<open>k_task.c\<close>), the tick interrupt (\<^verbatim>\<open>k_tick.c\<close>, \<^verbatim>\<open>k_time.c\<close>) and system start
  (\<^verbatim>\<open>k_sys.c\<close>).  The stack contents are not modelled; the user hooks of the board
  (\<^verbatim>\<open>hook_impl.c\<close>) are empty.
\<close>

section \<open>Creation\<close>

text \<open>\<^verbatim>\<open>memset(task, 0, sizeof(ktask_t))\<close>\<close>

definition zero_tcb :: ktask where
  "zero_tcb = \<lparr>task_state = K_SEED, blk_state = BLK_FINISH, blk_obj = None, prio = 0, b_prio = 0,
     suspend_count = 0, mutex_list = None, tick_match = 0, tick_remain = 0, tick_head = False, msg = 0,
     msg_buf = [], bq_msg_size = 0, task_sem_obj = None, t_slice = 0, time_total = 0, pend_flags = 0,
     pend_info = 0, pend_option = 0, sched_policy = KSCHED_FIFO,
     user_info = replicate RHINO_CONFIG_TASK_INFO_NUM 0, stack_size = 0, task_alloc = K_OBJ_NO_ALLOC\<rparr>"

definition new_tcb :: "nat \<Rightarrow> tick_t \<Rightarrow> nat \<Rightarrow> bool \<Rightarrow> alloc_flag \<Rightarrow> ktask" where
  "new_tcb pri ticks stack autorun mm_alloc_flag =
     (let k = zero_tcb\<lparr>time_total := (if ticks > 0 then ucast ticks else RHINO_CONFIG_TIME_SLICE_DEFAULT)\<rparr>;
          k = k\<lparr>t_slice := time_total k, sched_policy := KSCHED_RR\<rparr>;
          k = (if autorun then k\<lparr>task_state := K_RDY\<rparr> else k\<lparr>task_state := K_SUSPENDED, suspend_count := 1\<rparr>)
      in k\<lparr>prio := pri, b_prio := pri, stack_size := stack, task_alloc := mm_alloc_flag\<rparr>)"

definition task_create ::
  "tid option \<Rightarrow> bool \<Rightarrow> nat \<Rightarrow> tick_t \<Rightarrow> bool \<Rightarrow> nat \<Rightarrow> bool \<Rightarrow> bool \<Rightarrow> alloc_flag \<Rightarrow> kstate \<Rightarrow> kstat \<times> kstate" where
  "task_create task name_ok pri ticks stack_buf_ok stack entry_ok autorun mm_alloc_flag s =
     (case task of
        None \<Rightarrow> (RHINO_NULL_PTR, s)
      | Some t \<Rightarrow>
          if \<not> name_ok \<or> \<not> entry_ok \<or> \<not> stack_buf_ok then (RHINO_NULL_PTR, s)
          else if stack = 0 then (RHINO_TASK_INV_STACK_SIZE, s)
          else if RHINO_CONFIG_PRI_MAX \<le> pri then (RHINO_BEYOND_MAX_PRI, s)
          else if g_intrpt_nested_level s > 0 then (RHINO_NOT_CALLED_BY_INTRPT, s)
          else if pri = RHINO_IDLE_PRI \<and> g_idle_task_spawned s then (RHINO_IDLE_TASK_EXIST, s)
          else
            let s = (if pri = RHINO_IDLE_PRI then s\<lparr>g_idle_task_spawned := True\<rparr> else s);
                s = upd_task t (\<lambda>k. new_tcb pri ticks stack autorun mm_alloc_flag) s;
                s = s\<lparr>g_kobj_list := (g_kobj_list s)\<lparr>task_head := task_head (g_kobj_list s) @ [t]\<rparr>\<rparr>
            in if autorun then
                 let s = rdy_add_tail t s
                 in (RHINO_SUCCESS, if g_sys_stat s = RHINO_RUNNING then core_sched s else s)
               else (RHINO_SUCCESS, s))"

definition krhino_task_create ::
  "tid option \<Rightarrow> bool \<Rightarrow> nat \<Rightarrow> tick_t \<Rightarrow> bool \<Rightarrow> nat \<Rightarrow> bool \<Rightarrow> bool \<Rightarrow> kstate \<Rightarrow> kstat \<times> kstate" where
  "krhino_task_create task name_ok pri ticks stack_buf_ok stack entry_ok autorun s =
     task_create task name_ok pri ticks stack_buf_ok stack entry_ok autorun K_OBJ_STATIC_ALLOC s"

text \<open>\<open>stk\<close> and \<open>mem\<close> are the results of the two calls of \<^verbatim>\<open>krhino_mm_alloc\<close>.\<close>

definition task_dyn_create ::
  "bool \<Rightarrow> bool \<Rightarrow> nat \<Rightarrow> tick_t \<Rightarrow> nat \<Rightarrow> bool \<Rightarrow> bool \<Rightarrow> bool \<Rightarrow> tid option \<Rightarrow> kstate \<Rightarrow> kstat \<times> tid option \<times> kstate" where
  "task_dyn_create ptr_ok name_ok pri ticks stack entry_ok autorun stk mem s =
     (if \<not> ptr_ok then (RHINO_NULL_PTR, None, s)
      else if stack = 0 then (RHINO_INV_PARAM, None, s)
      else if \<not> stk then (RHINO_NO_MEM, None, s)
      else case mem of
        None \<Rightarrow> (RHINO_NO_MEM, None, krhino_mm_free (Mem_stack 0) s)
      | Some t \<Rightarrow>
          (case task_create (Some t) name_ok pri ticks True stack entry_ok autorun K_OBJ_DYN_ALLOC s of
             (ret, s) \<Rightarrow>
               if ret \<noteq> RHINO_SUCCESS \<and> ret \<noteq> RHINO_STOPPED
               then (ret, None, krhino_mm_free (Mem_tcb t) (krhino_mm_free (Mem_stack t) s))
               else (ret, Some t, s)))"

section \<open>Sleeping, yielding, suspending\<close>

definition krhino_task_sleep :: "tick_t \<Rightarrow> kstate \<Rightarrow> kres \<times> kstate" where
  "krhino_task_sleep ticks s =
     (if ticks = 0 then (Returned RHINO_INV_PARAM, s)
      else if g_intrpt_nested_level s > 0 then (Returned RHINO_NOT_CALLED_BY_INTRPT, s)
      else if g_sched_lock s > 0 then (Returned RHINO_SCHED_DISABLE, s)
      else
        let cur = g_active_task s;
            s = upd_task cur (\<lambda>k. k\<lparr>task_state := K_SLEEP\<rparr>) s;
            s = tick_list_insert cur ticks s;
            s = rdy_rm cur s
        in (Blocked, core_sched s))"

definition krhino_task_sleep_end :: "kstate \<Rightarrow> kstat \<times> kstate" where
  "krhino_task_sleep_end s = pend_state_end_proc (g_active_task s) s"

definition krhino_task_yield :: "kstate \<Rightarrow> kstat \<times> kstate" where
  "krhino_task_yield s = (RHINO_SUCCESS, core_sched (rdy_head_to_tail (g_active_task s) s))"

definition krhino_cur_task_get :: "kstate \<Rightarrow> tid" where
  "krhino_cur_task_get s = g_active_task s"

definition task_suspend :: "tid \<Rightarrow> kstate \<Rightarrow> kstat \<times> kstate" where
  "task_suspend t s =
     (if t = g_active_task s \<and> g_sched_lock s > 0 then (RHINO_SCHED_DISABLE, s)
      else case task_state (tcb s t) of
        K_RDY \<Rightarrow>
          let s = upd_task t (\<lambda>k. k\<lparr>suspend_count := 1, task_state := K_SUSPENDED\<rparr>) s;
              s = rdy_rm t s
          in (RHINO_SUCCESS, core_sched s)
      | K_SLEEP \<Rightarrow>
          (RHINO_SUCCESS, core_sched (upd_task t (\<lambda>k. k\<lparr>suspend_count := 1, task_state := K_SLEEP_SUSPENDED\<rparr>) s))
      | K_PEND \<Rightarrow>
          (RHINO_SUCCESS, core_sched (upd_task t (\<lambda>k. k\<lparr>suspend_count := 1, task_state := K_PEND_SUSPENDED\<rparr>) s))
      | K_SEED \<Rightarrow> (RHINO_INV_TASK_STATE, s)
      | K_DELETED \<Rightarrow> (RHINO_INV_TASK_STATE, s)
      | _ \<Rightarrow>
          if suspend_count (tcb s t) = - 1 then (RHINO_SUSPENDED_COUNT_OVF, s)
          else (RHINO_SUCCESS, core_sched (upd_task t (\<lambda>k. k\<lparr>suspend_count := suspend_count k + 1\<rparr>) s)))"

definition krhino_task_suspend :: "tid option \<Rightarrow> kstate \<Rightarrow> kstat \<times> kstate" where
  "krhino_task_suspend task s =
     (case task of
        None \<Rightarrow> (RHINO_NULL_PTR, s)
      | Some t \<Rightarrow>
          if prio (tcb s t) = RHINO_IDLE_PRI then (RHINO_TASK_SUSPEND_NOT_ALLOWED, s) else task_suspend t s)"

definition task_resume :: "tid \<Rightarrow> kstate \<Rightarrow> kstat \<times> kstate" where
  "task_resume t s =
     (case task_state (tcb s t) of
        K_SUSPENDED \<Rightarrow>
          let s = upd_task t (\<lambda>k. k\<lparr>suspend_count := suspend_count k - 1\<rparr>) s;
              s = (if suspend_count (tcb s t) = 0
                   then rdy_add t (upd_task t (\<lambda>k. k\<lparr>task_state := K_RDY\<rparr>) s) else s)
          in (RHINO_SUCCESS, core_sched s)
      | K_SLEEP_SUSPENDED \<Rightarrow>
          let s = upd_task t (\<lambda>k. k\<lparr>suspend_count := suspend_count k - 1\<rparr>) s;
              s = (if suspend_count (tcb s t) = 0 then upd_task t (\<lambda>k. k\<lparr>task_state := K_SLEEP\<rparr>) s else s)
          in (RHINO_SUCCESS, core_sched s)
      | K_PEND_SUSPENDED \<Rightarrow>
          let s = upd_task t (\<lambda>k. k\<lparr>suspend_count := suspend_count k - 1\<rparr>) s;
              s = (if suspend_count (tcb s t) = 0 then upd_task t (\<lambda>k. k\<lparr>task_state := K_PEND\<rparr>) s else s)
          in (RHINO_SUCCESS, core_sched s)
      | K_SEED \<Rightarrow> (RHINO_INV_TASK_STATE, s)
      | K_DELETED \<Rightarrow> (RHINO_INV_TASK_STATE, s)
      | _ \<Rightarrow> (RHINO_TASK_NOT_SUSPENDED, s))"

definition krhino_task_resume :: "tid option \<Rightarrow> kstate \<Rightarrow> kstat \<times> kstate" where
  "krhino_task_resume task s = (case task of None \<Rightarrow> (RHINO_NULL_PTR, s) | Some t \<Rightarrow> task_resume t s)"

section \<open>Changing the priority, aborting a wait\<close>

text \<open>The second result is \<^verbatim>\<open>*old_pri\<close>.\<close>

definition krhino_task_pri_change :: "tid option \<Rightarrow> nat \<Rightarrow> bool \<Rightarrow> kstate \<Rightarrow> kstat \<times> nat option \<times> kstate" where
  "krhino_task_pri_change task pri old_ok s =
     (case task of
        None \<Rightarrow> (RHINO_NULL_PTR, None, s)
      | Some t \<Rightarrow>
          if \<not> old_ok then (RHINO_NULL_PTR, None, s)
          else if RHINO_IDLE_PRI \<le> prio (tcb s t) then (RHINO_PRI_CHG_NOT_ALLOWED, None, s)
          else if RHINO_IDLE_PRI \<le> pri then (RHINO_PRI_CHG_NOT_ALLOWED, None, s)
          else if task_state (tcb s t) = K_DELETED then (RHINO_INV_TASK_STATE, None, s)
          else if g_intrpt_nested_level s > 0 then (RHINO_NOT_CALLED_BY_INTRPT, None, s)
          else case mutex_pri_limit s t pri of
            None \<Rightarrow> (RHINO_SUCCESS, None, raise_fault s)
          | Some pri_limit \<Rightarrow>
              let old_pri = prio (tcb s t);
                  s = upd_task t (\<lambda>k. k\<lparr>b_prio := pri\<rparr>) s
              in (case task_pri_change t pri_limit s of
                    None \<Rightarrow> (RHINO_SUCCESS, Some old_pri, raise_fault s)
                  | Some (error, s) \<Rightarrow>
                      if error \<noteq> RHINO_SUCCESS then (error, Some old_pri, s)
                      else (RHINO_SUCCESS, Some old_pri, core_sched s)))"

text \<open>
  Removing a waiting task from its object, making it ready, and resetting the priority of the
  owner: shared by \<open>krhino_task_wait_abort\<close> and the tick handler.
\<close>

definition krhino_task_wait_abort :: "tid option \<Rightarrow> kstate \<Rightarrow> kstat \<times> kstate" where
  "krhino_task_wait_abort task s =
     (case task of
        None \<Rightarrow> (RHINO_NULL_PTR, s)
      | Some t \<Rightarrow>
          if g_intrpt_nested_level s > 0 then (RHINO_NOT_CALLED_BY_INTRPT, s)
          else
            (case task_state (tcb s t) of
               K_SEED \<Rightarrow> (RHINO_INV_TASK_STATE, s)
             | K_DELETED \<Rightarrow> (RHINO_INV_TASK_STATE, s)
             | K_RDY \<Rightarrow> (RHINO_SUCCESS, core_sched s)
             | K_SUSPENDED \<Rightarrow>
                 let s = upd_task t (\<lambda>k. k\<lparr>task_state := K_RDY\<rparr>) s
                 in (RHINO_SUCCESS, core_sched (rdy_add t s))
             | st \<Rightarrow>
                 if st = K_SLEEP \<or> st = K_SLEEP_SUSPENDED then
                   let s = tick_list_rm t s;
                       s = rdy_add t s;
                       s = upd_task t (\<lambda>k. k\<lparr>task_state := K_RDY, blk_state := BLK_ABORT\<rparr>) s
                   in (RHINO_SUCCESS, core_sched s)
                 else
                   let s = tick_list_rm t s;
                       s = task_list_rm t s;
                       s = rdy_add t s;
                       s = upd_task t (\<lambda>k. k\<lparr>task_state := K_RDY, blk_state := BLK_ABORT\<rparr>) s;
                       s = mutex_task_pri_reset t s;
                       s = upd_task t (\<lambda>k. k\<lparr>blk_obj := None\<rparr>) s
                   in (RHINO_SUCCESS, core_sched s)))"

section \<open>Deletion\<close>

text \<open>
  The walk along the chain of held mutexes; \<open>p\<close> is \<^verbatim>\<open>next_mutex\<close>.  Each mutex goes to its first
  waiter, if there is one.
\<close>

partial_function (option) task_mutex_free_loop :: "oid option \<Rightarrow> kstate \<Rightarrow> kstate option" where
  "task_mutex_free_loop p s =
     (case p of
        None \<Rightarrow> Some s
      | Some m \<Rightarrow>
          let next_mutex = mutex_next (mutexes s m) in
          (case blk_list (blks s m) of
             [] \<Rightarrow> task_mutex_free_loop next_mutex (upd_mutex m (\<lambda>x. x\<lparr>mutex_task := None\<rparr>) s)
           | next_task # ts \<Rightarrow>
               task_mutex_free_loop next_mutex (mutex_own m next_task (pend_task_wakeup next_task s))))"

definition task_mutex_free :: "tid \<Rightarrow> kstate \<Rightarrow> kstate" where
  "task_mutex_free t s =
     (case task_mutex_free_loop (mutex_list (tcb s t)) s of None \<Rightarrow> raise_fault s | Some s' \<Rightarrow> s')"

text \<open>The switch over the task state; \<open>None\<close> is the default case.\<close>

definition task_unlink :: "tid \<Rightarrow> kstate \<Rightarrow> kstate option" where
  "task_unlink t s =
     (case task_state (tcb s t) of
        K_RDY \<Rightarrow> Some (upd_task t (\<lambda>k. k\<lparr>task_state := K_DELETED\<rparr>) (rdy_rm t s))
      | K_SUSPENDED \<Rightarrow> Some (upd_task t (\<lambda>k. k\<lparr>task_state := K_DELETED\<rparr>) s)
      | K_SEED \<Rightarrow> None
      | K_DELETED \<Rightarrow> None
      | st \<Rightarrow>
          if st = K_SLEEP \<or> st = K_SLEEP_SUSPENDED
          then Some (upd_task t (\<lambda>k. k\<lparr>task_state := K_DELETED\<rparr>) (tick_list_rm t s))
          else
            let s = tick_list_rm t s;
                s = task_list_rm t s;
                s = upd_task t (\<lambda>k. k\<lparr>task_state := K_DELETED\<rparr>) s
            in Some (mutex_task_pri_reset t s))"

definition task_stats_rm :: "tid \<Rightarrow> kstate \<Rightarrow> kstate" where
  "task_stats_rm t s = s\<lparr>g_kobj_list := (g_kobj_list s)\<lparr>task_head := remove1 t (task_head (g_kobj_list s))\<rparr>\<rparr>"

definition krhino_task_del :: "tid option \<Rightarrow> kstate \<Rightarrow> kstat \<times> kstate" where
  "krhino_task_del task s =
     (if g_intrpt_nested_level s > 0 then (RHINO_NOT_CALLED_BY_INTRPT, s)
      else
        let t = (case task of None \<Rightarrow> g_active_task s | Some t \<Rightarrow> t) in
        if prio (tcb s t) = RHINO_IDLE_PRI then (RHINO_TASK_DEL_NOT_ALLOWED, s)
        else if task_alloc (tcb s t) \<noteq> K_OBJ_STATIC_ALLOC then (RHINO_KOBJ_DEL_ERR, s)
        else if t = g_active_task s \<and> g_sched_lock s > 0 then (RHINO_SCHED_DISABLE, s)
        else
          let s = task_mutex_free t s in
          (case task_unlink t s of
             None \<Rightarrow> (RHINO_INV_TASK_STATE, s)
           | Some s \<Rightarrow> (RHINO_SUCCESS, core_sched (task_stats_rm t s))))"

definition krhino_task_dyn_del :: "tid option \<Rightarrow> kstate \<Rightarrow> kstat \<times> kstate" where
  "krhino_task_dyn_del task s =
     (if g_intrpt_nested_level s > 0 then (RHINO_NOT_CALLED_BY_INTRPT, s)
      else
        let t = (case task of None \<Rightarrow> g_active_task s | Some t \<Rightarrow> t) in
        if prio (tcb s t) = RHINO_IDLE_PRI then (RHINO_TASK_DEL_NOT_ALLOWED, s)
        else if task_alloc (tcb s t) \<noteq> K_OBJ_DYN_ALLOC then (RHINO_KOBJ_DEL_ERR, s)
        else if t = g_active_task s \<and> g_sched_lock s > 0 then (RHINO_SCHED_DISABLE, s)
        else if task_state (tcb s t) = K_DELETED then (RHINO_INV_TASK_STATE, s)
        else
          let s = s\<lparr>g_sched_lock := g_sched_lock s + 1\<rparr>;
              s = s\<lparr>g_res_list := g_res_list s @ [[Mem_stack t, Mem_tcb t]]\<rparr>
          in (case krhino_sem_give (Some g_res_sem) s of
                (ret, s) \<Rightarrow>
                  let s = s\<lparr>g_sched_lock := g_sched_lock s - 1\<rparr> in
                  if ret \<noteq> RHINO_SUCCESS then (ret, k_err_proc RHINO_SYS_SP_ERR s)
                  else
                    let s = task_mutex_free t s;
                        s = (case task_unlink t s of None \<Rightarrow> s | Some s' \<Rightarrow> s')
                    in (RHINO_SUCCESS, core_sched (task_stats_rm t s))))"

definition krhino_task_deathbed :: "kstate \<Rightarrow> kstate" where
  "krhino_task_deathbed s =
     (if task_alloc (tcb s (krhino_cur_task_get s)) = K_OBJ_DYN_ALLOC
      then snd (krhino_task_dyn_del None s) else snd (krhino_task_del None s))"

section \<open>Time slices, scheduling policy, task information\<close>

definition krhino_task_time_slice_set :: "tid option \<Rightarrow> u32 \<Rightarrow> kstate \<Rightarrow> kstat \<times> kstate" where
  "krhino_task_time_slice_set task n s =
     (case task of
        None \<Rightarrow> (RHINO_NULL_PTR, s)
      | Some t \<Rightarrow>
          if g_intrpt_nested_level s > 0 then (RHINO_NOT_CALLED_BY_INTRPT, s)
          else
            let s = upd_task t (\<lambda>k. k\<lparr>time_total := (if n > 0 then n else RHINO_CONFIG_TIME_SLICE_DEFAULT)\<rparr>) s
            in (RHINO_SUCCESS, upd_task t (\<lambda>k. k\<lparr>t_slice := time_total k\<rparr>) s))"

definition krhino_sched_policy_set :: "tid option \<Rightarrow> u8 \<Rightarrow> kstate \<Rightarrow> kstat \<times> kstate" where
  "krhino_sched_policy_set task policy s =
     (case task of
        None \<Rightarrow> (RHINO_NULL_PTR, s)
      | Some t \<Rightarrow>
          if policy \<noteq> 0 \<and> policy \<noteq> 1 then (RHINO_INV_SCHED_WAY, s)
          else if g_intrpt_nested_level s > 0 then (RHINO_NOT_CALLED_BY_INTRPT, s)
          else (RHINO_SUCCESS,
                upd_task t (\<lambda>k. k\<lparr>sched_policy := (if policy = 0 then KSCHED_FIFO else KSCHED_RR)\<rparr>) s))"

definition krhino_sched_policy_get :: "tid option \<Rightarrow> bool \<Rightarrow> kstate \<Rightarrow> kstat \<times> sched_policy_t option" where
  "krhino_sched_policy_get task policy_ok s =
     (case task of
        None \<Rightarrow> (RHINO_NULL_PTR, None)
      | Some t \<Rightarrow>
          if \<not> policy_ok then (RHINO_NULL_PTR, None)
          else if g_intrpt_nested_level s > 0 then (RHINO_NOT_CALLED_BY_INTRPT, None)
          else (RHINO_SUCCESS, Some (sched_policy (tcb s t))))"

definition krhino_task_info_set :: "tid option \<Rightarrow> nat \<Rightarrow> u32 \<Rightarrow> kstate \<Rightarrow> kstat \<times> kstate" where
  "krhino_task_info_set task idx info s =
     (case task of
        None \<Rightarrow> (RHINO_NULL_PTR, s)
      | Some t \<Rightarrow>
          if RHINO_CONFIG_TASK_INFO_NUM \<le> idx then (RHINO_INV_PARAM, s)
          else (RHINO_SUCCESS, upd_task t (\<lambda>k. k\<lparr>user_info := (user_info k)[idx := info]\<rparr>) s))"

definition krhino_task_info_get :: "tid option \<Rightarrow> nat \<Rightarrow> bool \<Rightarrow> kstate \<Rightarrow> kstat \<times> u32 option" where
  "krhino_task_info_get task idx info_ok s =
     (case task of
        None \<Rightarrow> (RHINO_NULL_PTR, None)
      | Some t \<Rightarrow>
          if \<not> info_ok then (RHINO_NULL_PTR, None)
          else if RHINO_CONFIG_TASK_INFO_NUM \<le> idx then (RHINO_INV_PARAM, None)
          else (RHINO_SUCCESS, Some (user_info (tcb s t) ! idx)))"

section \<open>The tick interrupt\<close>

text \<open>\<^verbatim>\<open>(int)p_tcb->tick_match - (int)g_tick_count\<close> is computed in 32 bits.\<close>

definition tick_delta :: "tick_t \<Rightarrow> tick_t \<Rightarrow> int" where
  "tick_delta match_val now = sint (ucast match_val - ucast now :: 32 word)"

definition tick_expire_task :: "tid \<Rightarrow> kstate \<Rightarrow> kstate" where
  "tick_expire_task t s =
     (case task_state (tcb s t) of
        K_SLEEP \<Rightarrow>
          let s = upd_task t (\<lambda>k. k\<lparr>blk_state := BLK_FINISH, task_state := K_RDY\<rparr>) s;
              s = tick_list_rm t s
          in rdy_add t s
      | K_PEND \<Rightarrow>
          let s = tick_list_rm t s;
              s = task_list_rm t s;
              s = rdy_add t s;
              s = upd_task t (\<lambda>k. k\<lparr>blk_state := BLK_TIMEOUT, task_state := K_RDY\<rparr>) s;
              s = mutex_task_pri_reset t s
          in upd_task t (\<lambda>k. k\<lparr>blk_obj := None\<rparr>) s
      | K_PEND_SUSPENDED \<Rightarrow>
          let s = tick_list_rm t s;
              s = task_list_rm t s;
              s = upd_task t (\<lambda>k. k\<lparr>blk_state := BLK_TIMEOUT, task_state := K_SUSPENDED\<rparr>) s;
              s = mutex_task_pri_reset t s
          in upd_task t (\<lambda>k. k\<lparr>blk_obj := None\<rparr>) s
      | K_SLEEP_SUSPENDED \<Rightarrow>
          let s = upd_task t (\<lambda>k. k\<lparr>task_state := K_SUSPENDED, blk_state := BLK_FINISH\<rparr>) s
          in tick_list_rm t s
      | _ \<Rightarrow> k_err_proc RHINO_SYS_FATAL_ERR s)"

text \<open>The loop over the tick list; the list it walks is the one at its start.\<close>

fun tick_expire_loop :: "tid list \<Rightarrow> kstate \<Rightarrow> kstate" where
  "tick_expire_loop [] s = s"
| "tick_expire_loop (t # ts) s =
     (if tick_delta (tick_match (tcb s t)) (g_tick_count s) \<le> 0
      then tick_expire_loop ts (tick_expire_task t s) else s)"

definition tick_list_update :: "tick_t \<Rightarrow> kstate \<Rightarrow> kstate" where
  "tick_list_update ticks s =
     (let s = s\<lparr>g_tick_count := g_tick_count s + ticks\<rparr> in tick_expire_loop (g_tick_head s) s)"

definition krhino_tick_proc :: "kstate \<Rightarrow> kstate" where
  "krhino_tick_proc s = time_slice_update (tick_list_update 1 s)"

section \<open>Time\<close>

definition krhino_sys_tick_get :: "kstate \<Rightarrow> sys_time_t" where
  "krhino_sys_tick_get s = g_tick_count s"

definition krhino_sys_time_get :: "kstate \<Rightarrow> sys_time_t" where
  "krhino_sys_time_get s = krhino_sys_tick_get s"

definition krhino_ms_to_ticks :: "sys_time_t \<Rightarrow> tick_t" where
  "krhino_ms_to_ticks ms =
     (let surplus = ms mod 1000;
          ticks = (ms div 1000) * RHINO_CONFIG_TICKS_PER_SECOND;
          padding = 1000 div RHINO_CONFIG_TICKS_PER_SECOND;
          padding = (if padding > 0 then padding - 1 else 0)
      in ticks + ((surplus + padding) * RHINO_CONFIG_TICKS_PER_SECOND) div 1000)"

definition krhino_ticks_to_ms :: "tick_t \<Rightarrow> sys_time_t" where
  "krhino_ticks_to_ms ticks =
     (let surplus = ticks mod RHINO_CONFIG_TICKS_PER_SECOND;
          time = (ticks div RHINO_CONFIG_TICKS_PER_SECOND) * 1000;
          padding = RHINO_CONFIG_TICKS_PER_SECOND div 1000;
          padding = (if padding > 0 then padding - 1 else 0)
      in time + ((surplus + padding) * 1000) div RHINO_CONFIG_TICKS_PER_SECOND)"

definition krhino_next_sleep_ticks_get :: "kstate \<Rightarrow> tick_t" where
  "krhino_next_sleep_ticks_get s =
     (case g_tick_head s of
        [] \<Rightarrow> RHINO_WAIT_FOREVER
      | t # ts \<Rightarrow> tick_match (tcb s t) - g_tick_count s)"

end
