(* ===== verification/Event.thy ===== *)
theory Event
  imports Sched
begin

text \<open>Event flags (\<^verbatim>\<open>k_event.c\<close>).\<close>

abbreviation (input) RHINO_FLAGS_AND_MASK :: u8 where "RHINO_FLAGS_AND_MASK \<equiv> 2"
abbreviation (input) RHINO_FLAGS_CLEAR_MASK :: u8 where "RHINO_FLAGS_CLEAR_MASK \<equiv> 1"
abbreviation (input) RHINO_AND :: u8 where "RHINO_AND \<equiv> 2"
abbreviation (input) RHINO_AND_CLEAR :: u8 where "RHINO_AND_CLEAR \<equiv> 3"
abbreviation (input) RHINO_OR :: u8 where "RHINO_OR \<equiv> 0"
abbreviation (input) RHINO_OR_CLEAR :: u8 where "RHINO_OR_CLEAR \<equiv> 1"

section \<open>Creation and deletion\<close>

definition event_create :: "oid option \<Rightarrow> bool \<Rightarrow> u32 \<Rightarrow> alloc_flag \<Rightarrow> kstate \<Rightarrow> kstat \<times> kstate" where
  "event_create event name_ok fl mm_alloc_flag s =
     (case event of
        None \<Rightarrow> (RHINO_NULL_PTR, s)
      | Some b \<Rightarrow>
          if \<not> name_ok then (RHINO_NULL_PTR, s)
          else
            let s = upd_blk b (\<lambda>o'. o'\<lparr>blk_list := [], blk_policy := BLK_POLICY_PRI\<rparr>) s;
                s = upd_event b (\<lambda>x. x\<lparr>flags := fl, event_alloc := mm_alloc_flag\<rparr>) s;
                s = s\<lparr>g_kobj_list := (g_kobj_list s)\<lparr>event_head := event_head (g_kobj_list s) @ [b]\<rparr>\<rparr>;
                s = upd_blk b (\<lambda>o'. o'\<lparr>obj_type := RHINO_EVENT_OBJ_TYPE\<rparr>) s
            in (RHINO_SUCCESS, s))"

definition krhino_event_create :: "oid option \<Rightarrow> bool \<Rightarrow> u32 \<Rightarrow> kstate \<Rightarrow> kstat \<times> kstate" where
  "krhino_event_create event name_ok fl s = event_create event name_ok fl K_OBJ_STATIC_ALLOC s"

text \<open>\<open>krhino_event_del\<close> and \<open>krhino_event_dyn_del\<close> differ in the allocation flag they accept.\<close>

definition event_del :: "alloc_flag \<Rightarrow> oid option \<Rightarrow> kstate \<Rightarrow> kstat \<times> kstate" where
  "event_del alloc event s =
     (case event of
        None \<Rightarrow> (RHINO_NULL_PTR, s)
      | Some b \<Rightarrow>
          if g_intrpt_nested_level s > 0 then (RHINO_NOT_CALLED_BY_INTRPT, s)
          else if obj_type (blks s b) \<noteq> RHINO_EVENT_OBJ_TYPE then (RHINO_KOBJ_TYPE_ERR, s)
          else if event_alloc (events s b) \<noteq> alloc then (RHINO_KOBJ_DEL_ERR, s)
          else
            let s = upd_blk b (\<lambda>o'. o'\<lparr>obj_type := RHINO_OBJ_TYPE_NONE\<rparr>) s;
                s = drain pend_task_rm b s;
                s = upd_event b (\<lambda>x. x\<lparr>flags := 0\<rparr>) s;
                s = s\<lparr>g_kobj_list := (g_kobj_list s)\<lparr>event_head := remove1 b (event_head (g_kobj_list s))\<rparr>\<rparr>
            in (RHINO_SUCCESS, core_sched s))"

definition krhino_event_del :: "oid option \<Rightarrow> kstate \<Rightarrow> kstat \<times> kstate" where
  "krhino_event_del event s = event_del K_OBJ_STATIC_ALLOC event s"

definition krhino_event_dyn_create ::
  "bool \<Rightarrow> bool \<Rightarrow> u32 \<Rightarrow> oid option \<Rightarrow> kstate \<Rightarrow> kstat \<times> oid option \<times> kstate" where
  "krhino_event_dyn_create ptr_ok name_ok fl mem s =
     (if \<not> ptr_ok then (RHINO_NULL_PTR, None, s)
      else case mem of
             None \<Rightarrow> (RHINO_NO_MEM, None, s)
           | Some b \<Rightarrow>
               (case event_create (Some b) name_ok fl K_OBJ_DYN_ALLOC s of
                  (stat, s) \<Rightarrow>
                    if stat \<noteq> RHINO_SUCCESS then (stat, None, krhino_mm_free (Mem_obj b) s)
                    else (stat, Some b, s)))"

definition krhino_event_dyn_del :: "oid option \<Rightarrow> kstate \<Rightarrow> kstat \<times> kstate" where
  "krhino_event_dyn_del event s =
     (case event_del K_OBJ_DYN_ALLOC event s of
        (st, s) \<Rightarrow>
          (case event of
             Some b \<Rightarrow> if st = RHINO_SUCCESS then (st, krhino_mm_free (Mem_obj b) s) else (st, s)
           | None \<Rightarrow> (st, s)))"

section \<open>Waiting for and setting flags\<close>

text \<open>The test that both \<open>krhino_event_get\<close> and \<open>event_set\<close> make: all or any of the requested flags.\<close>

definition event_match :: "u32 \<Rightarrow> u32 \<Rightarrow> u8 \<Rightarrow> bool" where
  "event_match cur requested opt =
     (if opt AND RHINO_FLAGS_AND_MASK \<noteq> 0 then cur AND requested = requested
      else cur AND requested > 0)"

text \<open>The second result is the value written to \<^verbatim>\<open>*actl_flags\<close>, if any.\<close>

definition krhino_event_get ::
  "oid option \<Rightarrow> u32 \<Rightarrow> u8 \<Rightarrow> bool \<Rightarrow> tick_t \<Rightarrow> kstate \<Rightarrow> kres \<times> u32 option \<times> kstate" where
  "krhino_event_get event fl opt actl_ok ticks s =
     (case event of
        None \<Rightarrow> (Returned RHINO_NULL_PTR, None, s)
      | Some b \<Rightarrow>
          if \<not> actl_ok then (Returned RHINO_NULL_PTR, None, s)
          else if opt \<noteq> RHINO_AND \<and> opt \<noteq> RHINO_OR \<and> opt \<noteq> RHINO_AND_CLEAR \<and> opt \<noteq> RHINO_OR_CLEAR
          then (Returned RHINO_NO_THIS_EVENT_OPT, None, s)
          else if g_intrpt_nested_level s > 0 then (Returned RHINO_NOT_CALLED_BY_INTRPT, None, s)
          else if obj_type (blks s b) \<noteq> RHINO_EVENT_OBJ_TYPE then (Returned RHINO_KOBJ_TYPE_ERR, None, s)
          else if event_match (flags (events s b)) fl opt then
            (Returned RHINO_SUCCESS, Some (flags (events s b)),
             if opt AND RHINO_FLAGS_CLEAR_MASK \<noteq> 0
             then upd_event b (\<lambda>x. x\<lparr>flags := flags x AND NOT fl\<rparr>) s else s)
          else if ticks = RHINO_NO_WAIT then (Returned RHINO_NO_PEND_WAIT, None, s)
          else if g_sched_lock s > 0 then (Returned RHINO_SCHED_DISABLE, None, s)
          else
            let cur = g_active_task s;
                s = upd_task cur (\<lambda>k. k\<lparr>pend_option := opt, pend_flags := fl\<rparr>) s;
                s = pend_to_blk_obj b cur ticks s
            in (Blocked, None, core_sched s))"

text \<open>The rest of a blocked \<open>krhino_event_get\<close>; \<^verbatim>\<open>*actl_flags\<close> was written by \<open>event_set\<close>.\<close>

definition krhino_event_get_end :: "kstate \<Rightarrow> kstat \<times> u32 \<times> kstate" where
  "krhino_event_get_end s =
     (case pend_state_end_proc (g_active_task s) s of
        (st, s) \<Rightarrow> (st, pend_info (tcb s (g_active_task s)), s))"

text \<open>One turn of the loop of \<open>event_set\<close>, for the waiting task \<open>t\<close>.\<close>

definition event_set_task :: "oid \<Rightarrow> u32 \<Rightarrow> tid \<Rightarrow> kstate \<Rightarrow> kstate" where
  "event_set_task b cur_event_flags t s =
     (if event_match cur_event_flags (pend_flags (tcb s t)) (pend_option (tcb s t)) then
        let s = upd_task t (\<lambda>k. k\<lparr>pend_info := cur_event_flags\<rparr>) s;
            s = pend_task_wakeup t s
        in if pend_option (tcb s t) AND RHINO_FLAGS_CLEAR_MASK \<noteq> 0
           then upd_event b (\<lambda>x. x\<lparr>flags := flags x AND NOT (pend_flags (tcb s t))\<rparr>) s else s
      else s)"

definition event_set :: "oid \<Rightarrow> u32 \<Rightarrow> u8 \<Rightarrow> kstate \<Rightarrow> kstat \<times> kstate" where
  "event_set b fl opt s =
     (if obj_type (blks s b) \<noteq> RHINO_EVENT_OBJ_TYPE then (RHINO_KOBJ_TYPE_ERR, s)
      else if opt AND RHINO_FLAGS_AND_MASK \<noteq> 0
      then (RHINO_SUCCESS, upd_event b (\<lambda>x. x\<lparr>flags := flags x AND fl\<rparr>) s)
      else
        let s = upd_event b (\<lambda>x. x\<lparr>flags := flags x OR fl\<rparr>) s;
            s = fold (event_set_task b (flags (events s b))) (blk_list (blks s b)) s
        in (RHINO_SUCCESS, core_sched s))"

definition krhino_event_set :: "oid option \<Rightarrow> u32 \<Rightarrow> u8 \<Rightarrow> kstate \<Rightarrow> kstat \<times> kstate" where
  "krhino_event_set event fl opt s =
     (case event of
        None \<Rightarrow> (RHINO_NULL_PTR, s)
      | Some b \<Rightarrow>
          if opt \<noteq> RHINO_AND \<and> opt \<noteq> RHINO_OR then (RHINO_NO_THIS_EVENT_OPT, s)
          else event_set b fl opt s)"

end
