(* ===== verification/Msg_Queue.thy ===== *)
theory Msg_Queue
  imports Sched
begin

text \<open>
  Queues of pointers (\<^verbatim>\<open>k_queue.c\<close>) and of byte messages (\<^verbatim>\<open>k_buf_queue.c\<close>).  A pointer message
  is stored in the ring as its four bytes.
\<close>

section \<open>Pointer queues\<close>

definition ptr_bytes :: "u32 \<Rightarrow> byte list" where
  "ptr_bytes p = size_bytes (unat p)"

definition bytes_ptr :: "byte list \<Rightarrow> u32" where
  "bytes_ptr bs = word_of_nat (bytes_size bs)"

definition task_msg_recv :: "u32 \<Rightarrow> tid \<Rightarrow> kstate \<Rightarrow> kstate" where
  "task_msg_recv p_msg t s = pend_task_wakeup t (upd_task t (\<lambda>k. k\<lparr>msg := p_msg\<rparr>) s)"

text \<open>\<open>start\<close> is the array of \<open>msg_num\<close> pointers that the caller provides, as bytes.\<close>

definition queue_create ::
  "oid option \<Rightarrow> bool \<Rightarrow> byte list option \<Rightarrow> nat \<Rightarrow> alloc_flag \<Rightarrow> kstate \<Rightarrow> kstat \<times> kstate" where
  "queue_create queue name_ok start msg_num mm_alloc_flag s =
     (case queue of
        None \<Rightarrow> (RHINO_NULL_PTR, s)
      | Some b \<Rightarrow>
          (case start of
             None \<Rightarrow> (RHINO_NULL_PTR, s)
           | Some mem \<Rightarrow>
               if \<not> name_ok then (RHINO_NULL_PTR, s)
               else if msg_num = 0 then (RHINO_INV_PARAM, s)
               else
                 let s = upd_blk b (\<lambda>o'. o'\<lparr>blk_list := [], blk_policy := BLK_POLICY_PRI\<rparr>) s;
                     s = upd_queue b (\<lambda>x. x\<lparr>q_ringbuf := ringbuf_init (take (msg_num * 4 mod 2 ^ 32) mem) RINGBUF_TYPE_FIX 4,
                           q_size := msg_num, q_cur_num := 0, q_peak_num := 0, q_alloc := mm_alloc_flag\<rparr>) s;
                     s = s\<lparr>g_kobj_list := (g_kobj_list s)\<lparr>queue_head := queue_head (g_kobj_list s) @ [b]\<rparr>\<rparr>;
                     s = upd_blk b (\<lambda>o'. o'\<lparr>obj_type := RHINO_QUEUE_OBJ_TYPE\<rparr>) s
                 in (RHINO_SUCCESS, s)))"

definition krhino_queue_create ::
  "oid option \<Rightarrow> bool \<Rightarrow> byte list option \<Rightarrow> nat \<Rightarrow> kstate \<Rightarrow> kstat \<times> kstate" where
  "krhino_queue_create queue name_ok start msg_num s =
     queue_create queue name_ok start msg_num K_OBJ_STATIC_ALLOC s"

definition queue_del :: "alloc_flag \<Rightarrow> oid option \<Rightarrow> kstate \<Rightarrow> kstat \<times> kstate" where
  "queue_del alloc queue s =
     (case queue of
        None \<Rightarrow> (RHINO_NULL_PTR, s)
      | Some b \<Rightarrow>
          if g_intrpt_nested_level s > 0 then (RHINO_NOT_CALLED_BY_INTRPT, s)
          else if obj_type (blks s b) \<noteq> RHINO_QUEUE_OBJ_TYPE then (RHINO_KOBJ_TYPE_ERR, s)
          else if q_alloc (queues s b) \<noteq> alloc then (RHINO_KOBJ_DEL_ERR, s)
          else
            let s = upd_blk b (\<lambda>o'. o'\<lparr>obj_type := RHINO_OBJ_TYPE_NONE\<rparr>) s;
                s = drain pend_task_rm b s;
                s = s\<lparr>g_kobj_list := (g_kobj_list s)\<lparr>queue_head := remove1 b (queue_head (g_kobj_list s))\<rparr>\<rparr>;
                s = upd_queue b (\<lambda>x. x\<lparr>q_ringbuf := ringbuf_reset (q_ringbuf x)\<rparr>) s
            in (RHINO_SUCCESS, core_sched s))"

definition krhino_queue_del :: "oid option \<Rightarrow> kstate \<Rightarrow> kstat \<times> kstate" where
  "krhino_queue_del queue s = queue_del K_OBJ_STATIC_ALLOC queue s"

text \<open>\<open>mem\<close> and \<open>start\<close> are the results of the two calls of \<^verbatim>\<open>krhino_mm_alloc\<close>.\<close>

definition krhino_queue_dyn_create ::
  "bool \<Rightarrow> bool \<Rightarrow> nat \<Rightarrow> oid option \<Rightarrow> byte list option \<Rightarrow> kstate \<Rightarrow> kstat \<times> oid option \<times> kstate" where
  "krhino_queue_dyn_create ptr_ok name_ok msg_num mem start s =
     (if \<not> ptr_ok then (RHINO_NULL_PTR, None, s)
      else case mem of
        None \<Rightarrow> (RHINO_NO_MEM, None, s)
      | Some b \<Rightarrow>
          if start = None then (RHINO_NO_MEM, None, krhino_mm_free (Mem_obj b) s)
          else (case queue_create (Some b) name_ok start msg_num K_OBJ_DYN_ALLOC s of
                  (stat, s) \<Rightarrow>
                    if stat \<noteq> RHINO_SUCCESS
                    then (stat, None, krhino_mm_free (Mem_obj b) (krhino_mm_free (Mem_buf b) s))
                    else (stat, Some b, s)))"

definition krhino_queue_dyn_del :: "oid option \<Rightarrow> kstate \<Rightarrow> kstat \<times> kstate" where
  "krhino_queue_dyn_del queue s =
     (case queue_del K_OBJ_DYN_ALLOC queue s of
        (st, s) \<Rightarrow>
          (case queue of
             Some b \<Rightarrow>
               if st = RHINO_SUCCESS then (st, krhino_mm_free (Mem_obj b) (krhino_mm_free (Mem_buf b) s)) else (st, s)
           | None \<Rightarrow> (st, s)))"

text \<open>The status of \<^verbatim>\<open>ringbuf_push\<close> and \<^verbatim>\<open>ringbuf_pop\<close> is not looked at; \<open>None\<close> is a memory fault.\<close>

definition msg_send :: "oid option \<Rightarrow> u32 \<Rightarrow> bool \<Rightarrow> kstate \<Rightarrow> kstat \<times> kstate" where
  "msg_send p_q p_void opt_wake_all s =
     (case p_q of
        None \<Rightarrow> (RHINO_NULL_PTR, s)
      | Some b \<Rightarrow>
          if obj_type (blks s b) \<noteq> RHINO_QUEUE_OBJ_TYPE then (RHINO_KOBJ_TYPE_ERR, s)
          else if q_size (queues s b) \<le> q_cur_num (queues s b) then (RHINO_QUEUE_FULL, s)
          else case blk_list (blks s b) of
            [] \<Rightarrow>
              let s = upd_queue b (\<lambda>x. x\<lparr>q_cur_num := q_cur_num x + 1\<rparr>) s;
                  s = (if q_peak_num (queues s b) < q_cur_num (queues s b)
                       then upd_queue b (\<lambda>x. x\<lparr>q_peak_num := q_cur_num x\<rparr>) s else s)
              in (case ringbuf_push (q_ringbuf (queues s b)) (ptr_bytes p_void) 4 of
                    None \<Rightarrow> (RHINO_SUCCESS, raise_fault s)
                  | Some (st, r) \<Rightarrow> (RHINO_SUCCESS, upd_queue b (\<lambda>x. x\<lparr>q_ringbuf := r\<rparr>) s))
          | t # ts \<Rightarrow>
              let s = (if opt_wake_all then drain (task_msg_recv p_void) b s else task_msg_recv p_void t s)
              in (RHINO_SUCCESS, core_sched s))"

definition krhino_queue_back_send :: "oid option \<Rightarrow> u32 \<Rightarrow> kstate \<Rightarrow> kstat \<times> kstate" where
  "krhino_queue_back_send queue p_msg s = msg_send queue p_msg False s"

definition krhino_queue_all_send :: "oid option \<Rightarrow> u32 \<Rightarrow> kstate \<Rightarrow> kstat \<times> kstate" where
  "krhino_queue_all_send queue p_msg s = msg_send queue p_msg True s"

text \<open>The second result is the value written to \<^verbatim>\<open>*msg\<close>, if any (\<open>0\<close> is NULL).\<close>

definition krhino_queue_recv :: "oid option \<Rightarrow> tick_t \<Rightarrow> bool \<Rightarrow> kstate \<Rightarrow> kres \<times> u32 option \<times> kstate" where
  "krhino_queue_recv queue ticks msg_ptr_ok s =
     (case queue of
        None \<Rightarrow> (Returned RHINO_NULL_PTR, None, s)
      | Some b \<Rightarrow>
          if \<not> msg_ptr_ok then (Returned RHINO_NULL_PTR, None, s)
          else if g_intrpt_nested_level s > 0 \<and> ticks \<noteq> RHINO_NO_WAIT
          then (Returned RHINO_NOT_CALLED_BY_INTRPT, None, s)
          else if obj_type (blks s b) \<noteq> RHINO_QUEUE_OBJ_TYPE then (Returned RHINO_KOBJ_TYPE_ERR, None, s)
          else if q_cur_num (queues s b) > 0 then
            (case ringbuf_pop (q_ringbuf (queues s b)) of
               None \<Rightarrow> (Returned RHINO_SUCCESS, None, raise_fault s)
             | Some (st, d, n, r) \<Rightarrow>
                 (Returned RHINO_SUCCESS, if st = RHINO_SUCCESS then Some (bytes_ptr d) else None,
                  upd_queue b (\<lambda>x. x\<lparr>q_ringbuf := r, q_cur_num := q_cur_num x - 1\<rparr>) s))
          else if ticks = RHINO_NO_WAIT then (Returned RHINO_NO_PEND_WAIT, Some 0, s)
          else if g_sched_lock s > 0 then (Returned RHINO_SCHED_DISABLE, Some 0, s)
          else (Blocked, None, core_sched (pend_to_blk_obj b (g_active_task s) ticks s)))"

definition krhino_queue_recv_end :: "kstate \<Rightarrow> kstat \<times> u32 \<times> kstate" where
  "krhino_queue_recv_end s =
     (case pend_state_end_proc (g_active_task s) s of
        (ret, s) \<Rightarrow> (ret, if ret = RHINO_SUCCESS then msg (tcb s (g_active_task s)) else 0, s))"

definition krhino_queue_is_full :: "oid option \<Rightarrow> kstate \<Rightarrow> kstat" where
  "krhino_queue_is_full queue s =
     (case queue of
        None \<Rightarrow> RHINO_NULL_PTR
      | Some b \<Rightarrow>
          if obj_type (blks s b) \<noteq> RHINO_QUEUE_OBJ_TYPE then RHINO_KOBJ_TYPE_ERR
          else if q_size (queues s b) \<le> q_cur_num (queues s b) then RHINO_QUEUE_FULL else RHINO_QUEUE_NOT_FULL)"

definition krhino_queue_flush :: "oid option \<Rightarrow> kstate \<Rightarrow> kstat \<times> kstate" where
  "krhino_queue_flush queue s =
     (case queue of
        None \<Rightarrow> (RHINO_NULL_PTR, s)
      | Some b \<Rightarrow>
          if g_intrpt_nested_level s > 0 then (RHINO_NOT_CALLED_BY_INTRPT, s)
          else if obj_type (blks s b) \<noteq> RHINO_QUEUE_OBJ_TYPE then (RHINO_KOBJ_TYPE_ERR, s)
          else (RHINO_SUCCESS,
                upd_queue b (\<lambda>x. x\<lparr>q_cur_num := 0, q_ringbuf := ringbuf_reset (q_ringbuf x)\<rparr>) s))"

text \<open>The information record: peak, current number, size, first waiter.\<close>

definition krhino_queue_info_get ::
  "oid option \<Rightarrow> bool \<Rightarrow> kstate \<Rightarrow> kstat \<times> (nat \<times> nat \<times> nat \<times> tid option) option" where
  "krhino_queue_info_get queue info_ok s =
     (case queue of
        None \<Rightarrow> (RHINO_NULL_PTR, None)
      | Some b \<Rightarrow>
          if \<not> info_ok then (RHINO_NULL_PTR, None)
          else if obj_type (blks s b) \<noteq> RHINO_QUEUE_OBJ_TYPE then (RHINO_KOBJ_TYPE_ERR, None)
          else (RHINO_SUCCESS,
                Some (q_peak_num (queues s b), q_cur_num (queues s b), q_size (queues s b),
                  case blk_list (blks s b) of [] \<Rightarrow> None | t # ts \<Rightarrow> Some t)))"

section \<open>Buffer queues\<close>

definition buf_queue_create ::
  "oid option \<Rightarrow> bool \<Rightarrow> byte list option \<Rightarrow> nat \<Rightarrow> nat \<Rightarrow> alloc_flag \<Rightarrow> ringbuf_type \<Rightarrow> kstate \<Rightarrow> kstat \<times> kstate" where
  "buf_queue_create queue name_ok bf sz max_msg mm_alloc_flag type s =
     (case queue of
        None \<Rightarrow> (RHINO_NULL_PTR, s)
      | Some b \<Rightarrow>
          (case bf of
             None \<Rightarrow> (RHINO_NULL_PTR, s)
           | Some mem \<Rightarrow>
               if \<not> name_ok then (RHINO_NULL_PTR, s)
               else if max_msg = 0 then (RHINO_INV_PARAM, s)
               else if sz = 0 then (RHINO_BUF_QUEUE_SIZE_ZERO, s)
               else
                 let s = upd_blk b (\<lambda>o'. o'\<lparr>blk_list := [], blk_policy := BLK_POLICY_PRI\<rparr>) s;
                     s = upd_buf_queue b (\<lambda>x. x\<lparr>bq_cur_num := 0, bq_peak_num := 0, max_msg_size := max_msg,
                           bq_alloc := mm_alloc_flag\<rparr>) s;
                     s = s\<lparr>g_kobj_list := (g_kobj_list s)\<lparr>buf_queue_head := buf_queue_head (g_kobj_list s) @ [b]\<rparr>\<rparr>;
                     s = upd_blk b (\<lambda>o'. o'\<lparr>obj_type := RHINO_BUF_QUEUE_OBJ_TYPE\<rparr>) s;
                     s = upd_buf_queue b (\<lambda>x. x\<lparr>bq_ringbuf := ringbuf_init (take sz mem) type max_msg\<rparr>) s;
                     s = upd_buf_queue b (\<lambda>x. x\<lparr>min_free_buf_size := freesize (bq_ringbuf x)\<rparr>) s
                 in (RHINO_SUCCESS, s)))"

definition krhino_buf_queue_create ::
  "oid option \<Rightarrow> bool \<Rightarrow> byte list option \<Rightarrow> nat \<Rightarrow> nat \<Rightarrow> kstate \<Rightarrow> kstat \<times> kstate" where
  "krhino_buf_queue_create queue name_ok bf sz max_msg s =
     buf_queue_create queue name_ok bf sz max_msg K_OBJ_STATIC_ALLOC RINGBUF_TYPE_DYN s"

text \<open>\<^verbatim>\<open>msg_size * msg_num\<close> is computed in \<^verbatim>\<open>size_t\<close>.\<close>

definition krhino_fix_buf_queue_create ::
  "oid option \<Rightarrow> bool \<Rightarrow> byte list option \<Rightarrow> nat \<Rightarrow> nat \<Rightarrow> kstate \<Rightarrow> kstat \<times> kstate" where
  "krhino_fix_buf_queue_create queue name_ok bf msg_size msg_num s =
     buf_queue_create queue name_ok bf (msg_size * msg_num mod 2 ^ 32) msg_size K_OBJ_STATIC_ALLOC RINGBUF_TYPE_FIX s"

definition buf_queue_del :: "alloc_flag \<Rightarrow> oid option \<Rightarrow> kstate \<Rightarrow> kstat \<times> kstate" where
  "buf_queue_del alloc queue s =
     (case queue of
        None \<Rightarrow> (RHINO_NULL_PTR, s)
      | Some b \<Rightarrow>
          if g_intrpt_nested_level s > 0 then (RHINO_NOT_CALLED_BY_INTRPT, s)
          else if obj_type (blks s b) \<noteq> RHINO_BUF_QUEUE_OBJ_TYPE then (RHINO_KOBJ_TYPE_ERR, s)
          else if bq_alloc (buf_queues s b) \<noteq> alloc then (RHINO_KOBJ_DEL_ERR, s)
          else
            let s = upd_blk b (\<lambda>o'. o'\<lparr>obj_type := RHINO_OBJ_TYPE_NONE\<rparr>) s;
                s = drain pend_task_rm b s;
                s = s\<lparr>g_kobj_list := (g_kobj_list s)\<lparr>buf_queue_head := remove1 b (buf_queue_head (g_kobj_list s))\<rparr>\<rparr>;
                s = upd_buf_queue b (\<lambda>x. x\<lparr>bq_ringbuf := ringbuf_reset (bq_ringbuf x)\<rparr>) s
            in (RHINO_SUCCESS, core_sched s))"

definition krhino_buf_queue_del :: "oid option \<Rightarrow> kstate \<Rightarrow> kstat \<times> kstate" where
  "krhino_buf_queue_del queue s = buf_queue_del K_OBJ_STATIC_ALLOC queue s"

definition krhino_buf_queue_dyn_create ::
  "bool \<Rightarrow> bool \<Rightarrow> nat \<Rightarrow> nat \<Rightarrow> oid option \<Rightarrow> byte list option \<Rightarrow> kstate \<Rightarrow> kstat \<times> oid option \<times> kstate" where
  "krhino_buf_queue_dyn_create ptr_ok name_ok sz max_msg mem bf s =
     (if \<not> ptr_ok then (RHINO_NULL_PTR, None, s)
      else if sz = 0 then (RHINO_BUF_QUEUE_SIZE_ZERO, None, s)
      else case mem of
        None \<Rightarrow> (RHINO_NO_MEM, None, s)
      | Some b \<Rightarrow>
          if bf = None then (RHINO_NO_MEM, None, krhino_mm_free (Mem_obj b) s)
          else (case buf_queue_create (Some b) name_ok bf sz max_msg K_OBJ_DYN_ALLOC RINGBUF_TYPE_DYN s of
                  (stat, s) \<Rightarrow>
                    if stat \<noteq> RHINO_SUCCESS
                    then (stat, None, krhino_mm_free (Mem_obj b) (krhino_mm_free (Mem_buf b) s))
                    else (RHINO_SUCCESS, Some b, s)))"

definition krhino_buf_queue_dyn_del :: "oid option \<Rightarrow> kstate \<Rightarrow> kstat \<times> kstate" where
  "krhino_buf_queue_dyn_del queue s =
     (case buf_queue_del K_OBJ_DYN_ALLOC queue s of
        (st, s) \<Rightarrow>
          (case queue of
             Some b \<Rightarrow>
               if st = RHINO_SUCCESS then (st, krhino_mm_free (Mem_obj b) (krhino_mm_free (Mem_buf b) s)) else (st, s)
           | None \<Rightarrow> (st, s)))"

text \<open>
  \<open>m\<close> is the memory the caller's pointer refers to; \<open>memcpy_from\<close> fails when fewer than
  \<open>msg_size\<close> bytes are there.
\<close>

definition buf_queue_send :: "oid \<Rightarrow> byte list \<Rightarrow> nat \<Rightarrow> kstate \<Rightarrow> kstat \<times> kstate" where
  "buf_queue_send b m msg_size s =
     (if obj_type (blks s b) \<noteq> RHINO_BUF_QUEUE_OBJ_TYPE then (RHINO_KOBJ_TYPE_ERR, s)
      else if max_msg_size (buf_queues s b) < msg_size then (RHINO_BUF_QUEUE_MSG_SIZE_OVERFLOW, s)
      else if msg_size = 0 then (RHINO_INV_PARAM, s)
      else case blk_list (blks s b) of
        [] \<Rightarrow>
          (case ringbuf_push (bq_ringbuf (buf_queues s b)) m msg_size of
             None \<Rightarrow> (RHINO_SUCCESS, raise_fault s)
           | Some (err, r) \<Rightarrow>
               if err \<noteq> RHINO_SUCCESS
               then (if err = RHINO_RINGBUF_FULL then RHINO_BUF_QUEUE_FULL else err, s)
               else
                 let s = upd_buf_queue b (\<lambda>x. x\<lparr>bq_ringbuf := r, bq_cur_num := bq_cur_num x + 1\<rparr>) s;
                     s = (if bq_peak_num (buf_queues s b) < bq_cur_num (buf_queues s b)
                          then upd_buf_queue b (\<lambda>x. x\<lparr>bq_peak_num := bq_cur_num x\<rparr>) s else s);
                     s = (if freesize (bq_ringbuf (buf_queues s b)) < min_free_buf_size (buf_queues s b)
                          then upd_buf_queue b (\<lambda>x. x\<lparr>min_free_buf_size := freesize (bq_ringbuf x)\<rparr>) s else s)
                 in (RHINO_SUCCESS, s))
      | t # ts \<Rightarrow>
          (case memcpy_from m 0 msg_size of
             None \<Rightarrow> (RHINO_SUCCESS, raise_fault s)
           | Some d \<Rightarrow>
               let s = upd_task t (\<lambda>k. k\<lparr>msg_buf := d, bq_msg_size := msg_size\<rparr>) s;
                   s = pend_task_wakeup t s
               in (RHINO_SUCCESS, core_sched s)))"

definition krhino_buf_queue_send :: "oid option \<Rightarrow> byte list option \<Rightarrow> nat \<Rightarrow> kstate \<Rightarrow> kstat \<times> kstate" where
  "krhino_buf_queue_send queue m sz s =
     (case queue of
        None \<Rightarrow> (RHINO_NULL_PTR, s)
      | Some b \<Rightarrow> (case m of None \<Rightarrow> (RHINO_NULL_PTR, s) | Some m \<Rightarrow> buf_queue_send b m sz s))"

text \<open>The second result is what was written to the receiver's buffer and to \<^verbatim>\<open>*size\<close>.\<close>

definition krhino_buf_queue_recv ::
  "oid option \<Rightarrow> tick_t \<Rightarrow> bool \<Rightarrow> bool \<Rightarrow> kstate \<Rightarrow> kres \<times> (byte list \<times> nat) option \<times> kstate" where
  "krhino_buf_queue_recv queue ticks mptr_ok size_ok s =
     (case queue of
        None \<Rightarrow> (Returned RHINO_NULL_PTR, None, s)
      | Some b \<Rightarrow>
          if \<not> mptr_ok \<or> \<not> size_ok then (Returned RHINO_NULL_PTR, None, s)
          else if g_intrpt_nested_level s > 0 \<and> ticks \<noteq> RHINO_NO_WAIT
          then (Returned RHINO_NOT_CALLED_BY_INTRPT, None, s)
          else if obj_type (blks s b) \<noteq> RHINO_BUF_QUEUE_OBJ_TYPE then (Returned RHINO_KOBJ_TYPE_ERR, None, s)
          else if \<not> ringbuf_is_empty (bq_ringbuf (buf_queues s b)) then
            (case ringbuf_pop (bq_ringbuf (buf_queues s b)) of
               None \<Rightarrow> (Returned RHINO_SUCCESS, None, raise_fault s)
             | Some (st, d, n, r) \<Rightarrow>
                 (Returned RHINO_SUCCESS, Some (d, n),
                  upd_buf_queue b (\<lambda>x. x\<lparr>bq_ringbuf := r, bq_cur_num := bq_cur_num x - 1\<rparr>) s))
          else if ticks = RHINO_NO_WAIT then (Returned RHINO_NO_PEND_WAIT, Some ([], 0), s)
          else if g_sched_lock s > 0 then (Returned RHINO_SCHED_DISABLE, Some ([], 0), s)
          else (Blocked, None, core_sched (pend_to_blk_obj b (g_active_task s) ticks s)))"

definition krhino_buf_queue_recv_end :: "kstate \<Rightarrow> kstat \<times> (byte list \<times> nat) \<times> kstate" where
  "krhino_buf_queue_recv_end s =
     (case pend_state_end_proc (g_active_task s) s of
        (ret, s) \<Rightarrow>
          (ret, if ret = RHINO_SUCCESS
                then (msg_buf (tcb s (g_active_task s)), bq_msg_size (tcb s (g_active_task s))) else ([], 0), s))"

definition krhino_buf_queue_flush :: "oid option \<Rightarrow> kstate \<Rightarrow> kstat \<times> kstate" where
  "krhino_buf_queue_flush queue s =
     (case queue of
        None \<Rightarrow> (RHINO_NULL_PTR, s)
      | Some b \<Rightarrow>
          if g_intrpt_nested_level s > 0 then (RHINO_NOT_CALLED_BY_INTRPT, s)
          else if obj_type (blks s b) \<noteq> RHINO_BUF_QUEUE_OBJ_TYPE then (RHINO_KOBJ_TYPE_ERR, s)
          else
            let s = upd_buf_queue b (\<lambda>x. x\<lparr>bq_ringbuf := ringbuf_reset (bq_ringbuf x)\<rparr>) s
            in (RHINO_SUCCESS,
                upd_buf_queue b (\<lambda>x. x\<lparr>bq_cur_num := 0, bq_peak_num := 0,
                  min_free_buf_size := freesize (bq_ringbuf x)\<rparr>) s))"

record kbuf_queue_info =
  info_free_buf_size :: nat
  info_min_free_buf_size :: nat
  info_buf_size :: nat
  info_max_msg_size :: nat
  info_cur_num :: nat
  info_peak_num :: nat

definition krhino_buf_queue_info_get :: "oid option \<Rightarrow> bool \<Rightarrow> kstate \<Rightarrow> kstat \<times> kbuf_queue_info option" where
  "krhino_buf_queue_info_get queue info_ok s =
     (case queue of
        None \<Rightarrow> (RHINO_NULL_PTR, None)
      | Some b \<Rightarrow>
          if \<not> info_ok then (RHINO_NULL_PTR, None)
          else if obj_type (blks s b) \<noteq> RHINO_BUF_QUEUE_OBJ_TYPE then (RHINO_KOBJ_TYPE_ERR, None)
          else let q = buf_queues s b
               in (RHINO_SUCCESS, Some \<lparr>info_free_buf_size = freesize (bq_ringbuf q),
                    info_min_free_buf_size = min_free_buf_size q, info_buf_size = length (buf (bq_ringbuf q)),
                    info_max_msg_size = max_msg_size q, info_cur_num = bq_cur_num q,
                    info_peak_num = bq_peak_num q\<rparr>))"

end
