(* ===== verification/Kernel_Good.thy ===== *)
theory Kernel_Good
  imports Priority_Inheritance Task Event Msg_Queue
begin

text \<open>
  The invariant of the whole kernel, with the part that each kind of object adds, and the rules for
  the steps that operations share: waking and blocking a task on an object that is not a mutex,
  draining a blocking list, rescheduling.
\<close>

section \<open>What each kind of object promises\<close>

definition queue_ok :: "kqueue \<Rightarrow> bool" where
  "queue_ok q \<longleftrightarrow> rb_type (q_ringbuf q) = RINGBUF_TYPE_FIX \<and> blk_size (q_ringbuf q) = 4 \<and>
     rb_len (q_ringbuf q) = 4 * q_size q \<and> (\<exists>ms. rb_fifo (q_ringbuf q) ms \<and> length ms = q_cur_num q)"

definition buf_queue_ok :: "kbuf_queue \<Rightarrow> bool" where
  "buf_queue_ok q \<longleftrightarrow>
     (\<exists>ms. rb_fifo (bq_ringbuf q) ms \<and> length ms = bq_cur_num q \<and> (\<forall>m \<in> set ms. length m \<le> max_msg_size q)) \<and>
     (case rb_type (bq_ringbuf q) of
        RINGBUF_TYPE_FIX \<Rightarrow> blk_size (bq_ringbuf q) = max_msg_size q
      | RINGBUF_TYPE_DYN \<Rightarrow> max_msg_size q + 4 < 2 ^ 32)"

definition obj_ok :: "kstate \<Rightarrow> oid \<Rightarrow> bool" where
  "obj_ok s b \<longleftrightarrow>
     (case obj_type (blks s b) of
        RHINO_OBJ_TYPE_NONE \<Rightarrow> blk_list (blks s b) = []
      | RHINO_SEM_OBJ_TYPE \<Rightarrow> count (sems s b) > 0 \<longrightarrow> blk_list (blks s b) = []
      | RHINO_QUEUE_OBJ_TYPE \<Rightarrow>
          queue_ok (queues s b) \<and> (q_cur_num (queues s b) > 0 \<longrightarrow> blk_list (blks s b) = [])
      | RHINO_BUF_QUEUE_OBJ_TYPE \<Rightarrow>
          buf_queue_ok (buf_queues s b) \<and> (bq_cur_num (buf_queues s b) > 0 \<longrightarrow> blk_list (blks s b) = [])
      | RHINO_EVENT_OBJ_TYPE \<Rightarrow>
          (\<forall>t \<in> set (blk_list (blks s b)).
             \<not> event_match (flags (events s b)) (pend_flags (tcb s t)) (pend_option (tcb s t)))
      | _ \<Rightarrow> True)"

lemma obj_ok_frame:
  assumes ok: "obj_ok s b" and "obj_type (blks s' b) = obj_type (blks s b)"
    and "sems s' b = sems s b" and "queues s' b = queues s b" and "events s' b = events s b"
    and "buf_queues s' b = buf_queues s b"
    and sub: "set (blk_list (blks s' b)) \<subseteq> set (blk_list (blks s b))"
    and "\<And>t. t \<in> set (blk_list (blks s' b)) \<Longrightarrow>
      pend_flags (tcb s' t) = pend_flags (tcb s t) \<and> pend_option (tcb s' t) = pend_option (tcb s t)"
  shows "obj_ok s' b"
proof -
  have "blk_list (blks s b) = [] \<Longrightarrow> blk_list (blks s' b) = []" using sub by auto
  then show ?thesis
    using assms by (auto simp: obj_ok_def split: kobj_type.splits)
qed

section \<open>The invariant\<close>

text \<open>
  \<open>kgood X s\<close> holds inside an operation; the objects in \<open>X\<close> are being changed by it.
  \<open>kinv s\<close> holds between operations.
\<close>

definition kgood :: "oid set \<Rightarrow> kstate \<Rightarrow> bool" where
  "kgood X s \<longleftrightarrow> kbase s \<and> kmside s \<and> tick_pos (tasks s) (g_tick_count s) \<and> lock_ok s \<and>
     (\<forall>b. b \<notin> X \<longrightarrow> obj_ok s b) \<and> RHINO_SYS_FATAL_ERR \<notin> set (errs s) \<and>
     g_sched_lock s \<le> SCHED_MAX_LOCK_COUNT \<and> g_sys_stat s = RHINO_RUNNING \<and> g_idle_task_spawned s"

definition kinv :: "kstate \<Rightarrow> bool" where
  "kinv s \<longleftrightarrow> kgood {} s \<and> run_ok s"

lemma kgoodD:
  assumes "kgood X s"
  shows "kbase s" and "kmside s" and "tick_pos (tasks s) (g_tick_count s)" and "lock_ok s"
    and "b \<notin> X \<Longrightarrow> obj_ok s b" and "RHINO_SYS_FATAL_ERR \<notin> set (errs s)"
    and "g_sched_lock s \<le> SCHED_MAX_LOCK_COUNT" and "g_sys_stat s = RHINO_RUNNING" and "g_idle_task_spawned s"
  using assms by (auto simp: kgood_def)

lemma kgood_parts:
  assumes "kgood X s"
  shows "rdy_ok (tasks s) (g_ready_queue s)" and "blk_ok (tasks s) (blks s)"
    and "tick_ok (tasks s) (g_tick_head s) (g_tick_count s)" and "prio_ok (tasks s)"
    and "mtx_ok (tasks s) (blks s) (mutexes s)" and "pi_ok (tasks s) (blks s) (mutexes s)"
    and "wf (waits_for (tasks s) (blks s) (mutexes s))"
  using kgoodD(1,2) [OF assms] by (auto simp: kbase_def mside_def)

lemma kinvD: "kinv s \<Longrightarrow> kgood {} s" "kinv s \<Longrightarrow> run_ok s"
  by (simp_all add: kinv_def)

lemma kgood_mono: "kgood X s \<Longrightarrow> X \<subseteq> Y \<Longrightarrow> kgood Y s"
  by (auto simp: kgood_def)

lemma kgood_finish: "kgood {b} s \<Longrightarrow> obj_ok s b \<Longrightarrow> kgood {} s"
  by (auto simp: kgood_def)

lemma kinv_core_sched: "kgood {} s \<Longrightarrow> kinv (core_sched s)"
proof -
  assume g: "kgood {} s"
  have s: "kbase (core_sched s)" "run_ok (core_sched s)"
    using core_sched_run [OF kgoodD(1,4) [OF g]] by auto
  moreover have "obj_ok (core_sched s) b" for b
    using kgoodD(5) [OF g] by (rule obj_ok_frame) simp_all
  moreover have "lock_ok (core_sched s)" using s(2) by (rule run_ok_lock_ok)
  ultimately show ?thesis using g by (simp add: kinv_def kgood_def)
qed

text \<open>An operation that touches only parts that the invariant does not read.\<close>

lemma kgood_cong:
  assumes "kgood X s" and "tasks s' = tasks s" and "blks s' = blks s" and "g_ready_queue s' = g_ready_queue s"
    and "g_tick_head s' = g_tick_head s" and "g_tick_count s' = g_tick_count s" and "fault s' = fault s"
    and "mutexes s' = mutexes s" and "g_active_task s' = g_active_task s" and "g_sched_lock s' = g_sched_lock s"
    and "sems s' = sems s" and "queues s' = queues s" and "events s' = events s" and "buf_queues s' = buf_queues s"
    and "errs s' = errs s" and "g_sys_stat s' = g_sys_stat s" and "g_idle_task_spawned s' = g_idle_task_spawned s"
  shows "kgood X s'"
proof -
  have "obj_ok s' b = obj_ok s b" for b
    using assms(2-) by (simp add: obj_ok_def split: kobj_type.split)
  then show ?thesis
    using assms kbase_cong [of s' s] by (simp add: kgood_def lock_ok_def)
qed

lemma kinv_cong:
  assumes "kinv s" and "tasks s' = tasks s" and "blks s' = blks s" and "g_ready_queue s' = g_ready_queue s"
    and "g_tick_head s' = g_tick_head s" and "g_tick_count s' = g_tick_count s" and "fault s' = fault s"
    and "mutexes s' = mutexes s" and "g_active_task s' = g_active_task s" and "g_sched_lock s' = g_sched_lock s"
    and "sems s' = sems s" and "queues s' = queues s" and "events s' = events s" and "buf_queues s' = buf_queues s"
    and "errs s' = errs s" and "g_sys_stat s' = g_sys_stat s" and "g_idle_task_spawned s' = g_idle_task_spawned s"
    and "g_intrpt_nested_level s' = g_intrpt_nested_level s"
  shows "kinv s'"
  using assms kgood_cong [of "{}" s s'] run_ok_cong [of s s'] by (simp add: kinv_def)

section \<open>Waking and blocking on an object that is not a mutex\<close>

lemma kgood_wake:
  assumes g: "kgood X s" and t: "is_pend (tcb s t)" "blk_obj (tcb s t) = Some b" and b: "\<not> is_mutex (blks s b)"
  shows "kgood X (wake st t s)"
proof -
  note d = kgoodD [OF g]
  have "obj_ok (wake st t s) c" if "c \<notin> X" for c
  proof (rule obj_ok_frame [OF d(5) [OF that]])
    have "distinct (blk_list (blks s c))" using blk_okD(1) [OF kgood_parts(2) [OF g]] .
    then show "pend_flags (tcb (wake st t s) u) = pend_flags (tcb s u) \<and>
        pend_option (tcb (wake st t s) u) = pend_option (tcb s u)" for u
      by (simp add: wake_def wake_tcb_def)
    show "set (blk_list (blks (wake st t s) c)) \<subseteq> set (blk_list (blks s c))"
      by (simp add: wake_def set_remove1_subset)
  qed (simp_all add: wake_def)
  moreover have "lock_ok (wake st t s)"
    using d(4) t(1) by (auto simp: lock_ok_def wake_def is_pend_def)
  moreover have "tick_pos (tasks (wake st t s)) (g_tick_count s)" using tick_pos_wake [OF d(3)] .
  ultimately show ?thesis
    using kbase_wake [OF d(1) t(1)] mside_wake [OF d(1,2) t b] d by (simp add: kgood_def wake_def)
qed

lemma kgood_block:
  assumes g: "kgood X s" and t: "task_state (tcb s t) = K_RDY" "t \<noteq> g_idle_task"
    and b: "\<not> is_mutex (blks s b)" "b \<in> X" and l: "g_sched_lock s = 0"
  shows "\<exists>q. pend_to_blk_obj b t timeout s = block b t timeout q s \<and> kgood X (block b t timeout q s)"
proof -
  note d = kgoodD [OF g]
  obtain q where q: "pend_to_blk_obj b t timeout s = block b t timeout q s" "kbase (block b t timeout q s)"
    using kbase_block [OF d(1) t] by blast
  have "obj_ok (block b t timeout q s) c" if "c \<notin> X" for c
  proof (rule obj_ok_frame [OF d(5) [OF that]])
    have "c \<noteq> b" using that b by auto
    then show "obj_type (blks (block b t timeout q s) c) = obj_type (blks s c)"
      "set (blk_list (blks (block b t timeout q s) c)) \<subseteq> set (blk_list (blks s c))"
      by (simp_all add: block_def Let_def)
    show "pend_flags (tcb (block b t timeout q s) u) = pend_flags (tcb s u) \<and>
        pend_option (tcb (block b t timeout q s) u) = pend_option (tcb s u)" for u
      by (simp add: block_def Let_def pend_tcb_def)
  qed (simp_all add: block_def Let_def)
  moreover have "tick_pos (tasks (block b t timeout q s)) (g_tick_count (block b t timeout q s))"
    using tick_pos_block [OF d(3)] by (simp add: block_def Let_def)
  ultimately have "kgood X (block b t timeout q s)"
    using q(2) mside_block [OF d(1,2) t(1) b(1)] d l by (simp add: kgood_def block_def Let_def lock_ok_def)
  with q(1) show ?thesis by blast
qed

section \<open>Draining a blocking list\<close>

lemma drain_rule:
  assumes step: "\<And>s t ts. P s \<Longrightarrow> blk_list (blks s b) = t # ts \<Longrightarrow> P (f t s) \<and> blk_list (blks (f t s) b) = ts"
    and "P s"
  shows "P (drain f b s) \<and> blk_list (blks (drain f b s) b) = []"
proof -
  have "\<exists>s'. drain_loop f b s = Some s' \<and> P s' \<and> blk_list (blks s' b) = []"
    if "P s" "blk_list (blks s b) = ts" for s ts
    using that
  proof (induction ts arbitrary: s)
    case Nil
    then show ?case by (subst drain_loop.simps) simp
  next
    case (Cons t ts)
    then have "P (f t s)" "blk_list (blks (f t s) b) = ts" using step by auto
    with Cons show ?case by (subst drain_loop.simps) simp
  qed
  then show ?thesis using assms(2) by (fastforce simp: drain_def)
qed

lemma kgood_drain_del:
  assumes g: "kgood {b} s" and b: "\<not> is_mutex (blks s b)" and n: "obj_type (blks s b) = RHINO_OBJ_TYPE_NONE"
  shows "kgood {} (drain pend_task_rm b s)" and "obj_type (blks (drain pend_task_rm b s) b) = RHINO_OBJ_TYPE_NONE"
proof -
  let ?P = "\<lambda>s. kgood {b} s \<and> obj_type (blks s b) = RHINO_OBJ_TYPE_NONE"
  have "?P (pend_task_rm t s) \<and> blk_list (blks (pend_task_rm t s) b) = ts"
    if P: "?P s" and l: "blk_list (blks s b) = t # ts" for s t ts
  proof -
    have t: "is_pend (tcb s t)" "blk_obj (tcb s t) = Some b"
      using blk_okD(2) [OF kgood_parts(2), of "{b}" s t b] P l by auto
    have eq: "pend_task_rm t s = wake BLK_DEL t s"
      using pend_task_wakeup_eq(2) [OF kgood_parts(3) t(1)] P by blast
    have "\<not> is_mutex (blks s b)" using P by (simp add: is_mutex_def)
    with kgood_wake [of "{b}" s t b BLK_DEL] P t l show ?thesis
      unfolding eq by (simp add: wake_def)
  qed
  from drain_rule [of ?P b pend_task_rm, OF this] g n
  have *: "?P (drain pend_task_rm b s)" "blk_list (blks (drain pend_task_rm b s) b) = []" by auto
  then show "kgood {} (drain pend_task_rm b s)" by (intro kgood_finish) (auto simp: obj_ok_def)
  show "obj_type (blks (drain pend_task_rm b s) b) = RHINO_OBJ_TYPE_NONE" using * by blast
qed

lemma kgood_drain_wake:
  assumes g: "kgood {} s" and b: "\<not> is_mutex (blks s b)"
  shows "kgood {} (drain pend_task_wakeup b s) \<and> blk_list (blks (drain pend_task_wakeup b s) b) = []"
proof -
  let ?P = "\<lambda>s. kgood {} s \<and> \<not> is_mutex (blks s b)"
  have "?P (pend_task_wakeup t s) \<and> blk_list (blks (pend_task_wakeup t s) b) = ts"
    if P: "?P s" and l: "blk_list (blks s b) = t # ts" for s t ts
  proof -
    have t: "is_pend (tcb s t)" "blk_obj (tcb s t) = Some b"
      using blk_okD(2) [OF kgood_parts(2), of "{}" s t b] P l by auto
    have eq: "pend_task_wakeup t s = wake BLK_FINISH t s"
      using pend_task_wakeup_eq(1) [OF kgood_parts(3) t(1)] P by blast
    from kgood_wake [of "{}" s t b BLK_FINISH] P t l show ?thesis
      unfolding eq by (simp add: wake_def)
  qed
  from drain_rule [of ?P b pend_task_wakeup, OF this] g b show ?thesis by auto
qed

text \<open>Creating or deleting an object without waiters.\<close>

lemma kgood_new_obj:
  assumes g: "kgood {} s" and e: "blk_list (blks s b) = []" "\<not> is_mutex (blks s b)"
    and s': "tasks s' = tasks s" "g_ready_queue s' = g_ready_queue s" "g_tick_head s' = g_tick_head s"
      "g_tick_count s' = g_tick_count s" "fault s' = fault s" "mutexes s' = mutexes s"
      "g_active_task s' = g_active_task s" "g_sched_lock s' = g_sched_lock s" "errs s' = errs s"
      "g_sys_stat s' = g_sys_stat s" "g_idle_task_spawned s' = g_idle_task_spawned s"
    and b': "blk_list (blks s' b) = []" "\<not> is_mutex (blks s' b)"
    and o': "\<And>c. c \<noteq> b \<Longrightarrow> blks s' c = blks s c" "\<And>c. c \<noteq> b \<Longrightarrow> sems s' c = sems s c"
      "\<And>c. c \<noteq> b \<Longrightarrow> queues s' c = queues s c" "\<And>c. c \<noteq> b \<Longrightarrow> events s' c = events s c"
      "\<And>c. c \<noteq> b \<Longrightarrow> buf_queues s' c = buf_queues s c"
  shows "kgood {b} s'"
proof -
  note d = kgoodD [OF g] and p = kgood_parts [OF g]
  have eq: "blk_list (blks s' c) = blk_list (blks s c)" "is_mutex (blks s' c) = is_mutex (blks s c)" for c
    using e b' o'(1) by (cases "c = b"; simp)+
  have "sorted (map (\<lambda>t. prio (tcb s t)) (blk_list (blks s c)))" if "blk_policy (blks s' c) = BLK_POLICY_PRI" for c
    using that e(1) blk_okD(4) [OF p(2), of c] o'(1) by (cases "c = b") auto
  then have "blk_ok (tasks s) (blks s')"
    using p(2) unfolding blk_ok_def eq by simp
  then have "kbase s'" using d(1) s' by (simp add: kbase_def)
  moreover have "mside (tasks s) (blks s') (mutexes s)"
  proof (rule mside_frame [OF d(2)])
    show "blk_policy (blks s' m) = blk_policy (blks s m)" if "is_mutex (blks s m)" for m
      using that e o'(1) by (cases "m = b") auto
    show "mutex_task (mutexes s m) \<noteq> None" if "is_mutex (blks s m)" "blk_list (blks s' m) \<noteq> []" for m
      using that mtx_okD(5) [OF p(5)] eq by simp
  qed (simp_all add: eq)
  moreover have "obj_ok s' c" if "c \<noteq> b" for c
    using d(5) [of c] o' that s' by (intro obj_ok_frame [of s c s']) auto
  ultimately show ?thesis
    using d s' by (simp add: kgood_def lock_ok_def)
qed

section \<open>Creating, deleting, blocking\<close>

definition free_obj :: "kstate \<Rightarrow> oid option \<Rightarrow> bool" where
  "free_obj s b \<longleftrightarrow> (case b of None \<Rightarrow> True | Some b \<Rightarrow> obj_type (blks s b) = RHINO_OBJ_TYPE_NONE)"

lemma free_obj_empty:
  "kgood {} s \<Longrightarrow> free_obj s (Some b) \<Longrightarrow> blk_list (blks s b) = [] \<and> \<not> is_mutex (blks s b)"
  using kgoodD(5) [of "{}" s b] by (auto simp: obj_ok_def free_obj_def is_mutex_def)

text \<open>Marking an object as deleted exempts it until its waiters are gone.\<close>

lemma kgood_mark_deleted:
  assumes g: "kgood {} s" and b: "\<not> is_mutex (blks s b)"
  shows "kgood {b} (upd_blk b (\<lambda>o'. o'\<lparr>obj_type := RHINO_OBJ_TYPE_NONE\<rparr>) s)"
proof -
  let ?s = "upd_blk b (\<lambda>o'. o'\<lparr>obj_type := RHINO_OBJ_TYPE_NONE\<rparr>) s"
  note d = kgoodD [OF g] and p = kgood_parts [OF g]
  have eq: "blk_list (blks ?s c) = blk_list (blks s c)" "blk_policy (blks ?s c) = blk_policy (blks s c)" for c
    by (simp_all add: upd_blk_def)
  have mx: "is_mutex (blks ?s c) = is_mutex (blks s c)" for c
    using b by (simp add: upd_blk_def is_mutex_def)
  have "blk_ok (tasks s) (blks ?s)" using p(2) unfolding blk_ok_def eq .
  then have "kbase ?s" using d(1) by (simp add: kbase_def upd_blk_def)
  moreover have "mside (tasks s) (blks ?s) (mutexes s)"
    using mtx_okD(5) [OF p(5)] by (intro mside_frame [OF d(2)]) (simp_all add: eq mx)
  moreover have "obj_ok ?s c" if "c \<noteq> b" for c
    using d(5) [of c] that by (intro obj_ok_frame [of s c ?s]) (auto simp: upd_blk_def)
  ultimately show ?thesis using d by (simp add: kgood_def lock_ok_def upd_blk_def)
qed

lemma kgood_delete:
  assumes g: "kgood {} s" and b: "\<not> is_mutex (blks s b)"
  shows "kgood {} (drain pend_task_rm b (upd_blk b (\<lambda>o'. o'\<lparr>obj_type := RHINO_OBJ_TYPE_NONE\<rparr>) s))"
    and "obj_type (blks (drain pend_task_rm b (upd_blk b (\<lambda>o'. o'\<lparr>obj_type := RHINO_OBJ_TYPE_NONE\<rparr>) s)) b) = RHINO_OBJ_TYPE_NONE"
  by (rule kgood_drain_del [OF kgood_mark_deleted [OF assms]]; simp add: upd_blk_def is_mutex_def)+

lemma kinv_mm_free: "kinv s \<Longrightarrow> kinv (krhino_mm_free m s)"
  by (rule kinv_cong) (simp_all add: krhino_mm_free_def)

text \<open>The idle task never blocks; an interrupt handler that interrupts it may try to receive.\<close>

definition may_block :: "kstate \<Rightarrow> bool" where
  "may_block s \<longleftrightarrow> (g_intrpt_nested_level s = 0 \<longrightarrow> g_active_task s \<noteq> g_idle_task)"

lemma kinv_block_on:
  assumes i: "kinv s" and n: "g_intrpt_nested_level s = 0" and l: "g_sched_lock s = 0"
    and a: "may_block s" and b: "\<not> is_mutex (blks s b)"
    and ok: "\<And>q. obj_ok (block b (g_active_task s) ticks q s) b"
  shows "kinv (core_sched (pend_to_blk_obj b (g_active_task s) ticks s))"
proof (rule kinv_core_sched)
  have na: "g_active_task s \<noteq> g_idle_task" using a n by (simp add: may_block_def)
  have "kgood {b} s" using kgood_mono [OF kinvD(1) [OF i]] by simp
  from kgood_block [OF this run_ok_active [OF kinvD(2) [OF i] n] na b _ l, of ticks]
  obtain q where "pend_to_blk_obj b (g_active_task s) ticks s = block b (g_active_task s) ticks q s"
    "kgood {b} (block b (g_active_task s) ticks q s)" by auto
  with kgood_finish ok show "kgood {} (pend_to_blk_obj b (g_active_task s) ticks s)" by simp
qed

end
