(* ===== verification/Mutex_Side.thy ===== *)
theory Mutex_Side
  imports Priority_Inheritance
begin

text \<open>
  The steps by which a mutex changes hands, on the components of the state: releasing (the mutex is
  taken out of the chain of its owner), acquiring, becoming free, and a task that starts or stops
  waiting.  While a mutex changes hands it is treated as an object that is not a mutex.
\<close>

section \<open>Inheritance with exceptions\<close>

text \<open>Priorities are exact except for the tasks in \<open>E\<close>.\<close>

definition mside_but :: "tid set \<Rightarrow> (tid \<Rightarrow> ktask) \<Rightarrow> (oid \<Rightarrow> blk_obj_t) \<Rightarrow> (oid \<Rightarrow> kmutex) \<Rightarrow> bool" where
  "mside_but E T B M \<longleftrightarrow> mtx_ok T B M \<and> wf (waits_for T B M) \<and>
     (\<forall>t. is_live (T t) \<longrightarrow> t \<notin> E \<longrightarrow> pi_val T B M t (prio (T t)))"

abbreviation kmside_but :: "tid set \<Rightarrow> kstate \<Rightarrow> bool" where
  "kmside_but E s \<equiv> mside_but E (tasks s) (blks s) (mutexes s)"

lemma mside_but_empty: "mside_but {} T B M = mside T B M"
  by (auto simp: mside_but_def mside_def pi_ok_def)

lemma mside_butD:
  assumes "mside_but E T B M"
  shows "mtx_ok T B M" and "wf (waits_for T B M)" and "is_live (T t) \<Longrightarrow> t \<notin> E \<Longrightarrow> pi_val T B M t (prio (T t))"
  using assms by (auto simp: mside_but_def)

lemma mside_but_mono: "mside_but E T B M \<Longrightarrow> E \<subseteq> F \<Longrightarrow> mside_but F T B M"
  by (auto simp: mside_but_def)

lemma mside_but_dead: "mside_but E T B M \<Longrightarrow> (\<And>t. t \<in> E \<Longrightarrow> t \<notin> F \<Longrightarrow> \<not> is_live (T t)) \<Longrightarrow> mside_but F T B M"
  by (auto simp: mside_but_def)

lemma mside_but_exact:
  "mside_but (insert t E) T B M \<Longrightarrow> pi_val T B M t (prio (T t)) \<Longrightarrow> mside_but E T B M"
  by (auto simp: mside_but_def)

lemma waits_mutex_same:
  "is_pend k = is_pend (T t) \<Longrightarrow> blk_obj k = blk_obj (T t) \<Longrightarrow> waits_mutex (T(t := k)) w m = waits_mutex T w m"
  by (simp add: waits_mutex_def)

lemma waits_not_own:
  assumes "mside_but E T B M" and "waits_mutex T t m" and "holds_mutex B M u m"
  shows "u \<noteq> t"
proof
  assume "u = t"
  then have "(t, t) \<in> waits_for T B M" using assms by (auto simp: waits_for_def)
  then show False using mside_butD(2) [OF assms(1)] by simp
qed

section \<open>Releasing\<close>

text \<open>\<open>none_obj\<close>: the object is not a mutex for now.\<close>

definition none_obj :: "blk_obj_t \<Rightarrow> blk_obj_t" where
  "none_obj o' = o'\<lparr>obj_type := RHINO_OBJ_TYPE_NONE\<rparr>"

lemma none_obj_simps [simp]:
  "\<not> is_mutex (none_obj o')" "blk_list (none_obj o') = blk_list o'" "blk_policy (none_obj o') = blk_policy o'"
  "obj_type (none_obj o') = RHINO_OBJ_TYPE_NONE"
  by (simp_all add: none_obj_def is_mutex_def)

lemma holds_none_obj:
  "holds_mutex (B(m := none_obj (B m))) M u c \<longleftrightarrow> c \<noteq> m \<and> holds_mutex B M u c"
  by (auto simp: holds_mutex_def)

lemma mchain_cong:
  "mchain M p ms \<Longrightarrow> (\<And>m. m \<in> set ms \<Longrightarrow> mutex_next (M' m) = mutex_next (M m)) \<Longrightarrow> mchain M' p ms"
  by (induction ms arbitrary: p) auto

lemma mchain_unique: "mchain M p xs \<Longrightarrow> mchain M p ys \<Longrightarrow> xs = ys"
proof (induction xs arbitrary: p ys)
  case Nil then show ?case by (cases ys) auto
next
  case (Cons x xs) then show ?case by (cases ys) auto
qed

lemma mside_but_release:
  assumes ok: "mside_but E T B M" and ms: "is_live (T t)" "mchain M' (mutex_list (T' t)) ms" "distinct ms"
      "\<And>c. c \<in> set ms \<longleftrightarrow> c \<noteq> m \<and> holds_mutex B M t c"
    and m: "\<And>u. holds_mutex B M u m \<Longrightarrow> u = t"
    and M': "\<And>c. mutex_task (M' c) = mutex_task (M c)" "\<And>c. \<not> holds_mutex B M t c \<Longrightarrow> mutex_next (M' c) = mutex_next (M c)"
    and T': "\<And>u. is_live (T' u) = is_live (T u)" "\<And>u. is_pend (T' u) = is_pend (T u)"
      "\<And>u. blk_obj (T' u) = blk_obj (T u)" "\<And>u. prio (T' u) = prio (T u)" "\<And>u. b_prio (T' u) = b_prio (T u)"
      "\<And>u. u \<noteq> t \<Longrightarrow> mutex_list (T' u) = mutex_list (T u)"
  shows "mside_but (insert t E) T' (B(m := none_obj (B m))) M'"
proof -
  let ?B = "B(m := none_obj (B m))"
  note d = mside_butD [OF ok]
  have h: "holds_mutex ?B M' u c \<longleftrightarrow> c \<noteq> m \<and> holds_mutex B M u c" for u c
    using M'(1) by (auto simp: holds_mutex_def)
  have w: "waits_mutex T' u c = waits_mutex T u c" for u c using T' by (simp add: waits_mutex_def)
  have "\<exists>ns. mchain M' (mutex_list (T' u)) ns \<and> distinct ns \<and> (\<forall>c. c \<in> set ns \<longleftrightarrow> holds_mutex ?B M' u c)"
    if l: "is_live (T u)" for u
  proof (cases "u = t")
    case True
    then show ?thesis using ms h by auto
  next
    case False
    obtain ns where ns: "mchain M (mutex_list (T u)) ns" "distinct ns" "\<forall>c. c \<in> set ns \<longleftrightarrow> holds_mutex B M u c"
      using mtx_okD(1) [OF d(1) l] by blast
    have "\<not> holds_mutex B M t c" "c \<noteq> m" if "c \<in> set ns" for c
      using that ns(3) False m by (auto simp: holds_mutex_def)
    then have "mchain M' (mutex_list (T' u)) ns" using mchain_cong [OF ns(1)] M'(2) T'(6) [OF False] by simp
    then show ?thesis using ns m False h by blast
  qed
  moreover have "is_mutex (?B c) \<longrightarrow> blk_policy (?B c) = BLK_POLICY_PRI \<and> (blk_list (?B c) \<noteq> [] \<longrightarrow> mutex_task (M' c) \<noteq> None)" for c
    using mtx_okD(4,5) [OF d(1), of c] M'(1) by simp
  ultimately have "mtx_ok T' ?B M'"
    using mtx_okD(2,3) [OF d(1)] unfolding mtx_ok_def T'(1) h by blast
  moreover have "waits_for T' ?B M' \<subseteq> waits_for T B M"
    unfolding waits_for_def w h by blast
  then have "wf (waits_for T' ?B M')" using d(2) wf_subset by blast
  moreover have "pi_val T' ?B M' u p = pi_val T B M u p" if "u \<noteq> t" for u p
    using m that by (intro pi_val_cong) (auto simp: h w T')
  ultimately show ?thesis using d(3) T' by (auto simp: mside_but_def)
qed

lemma mside_but_unfree:
  assumes ok: "mside_but E T B M" and m: "\<And>u. \<not> holds_mutex B M u m"
  shows "mside_but E T (B(m := none_obj (B m))) M"
proof -
  note d = mside_butD [OF ok]
  let ?B = "B(m := none_obj (B m))"
  have h: "holds_mutex ?B M u c = holds_mutex B M u c" for u c
    using holds_none_obj m by (cases "c = m") auto
  have "mtx_ok T ?B M"
    using d(1) unfolding mtx_ok_def h by auto
  moreover have "waits_for T ?B M = waits_for T B M" by (simp add: waits_for_def h)
  moreover have "pi_val T ?B M u p = pi_val T B M u p" for u p by (intro pi_val_cong) (auto simp: h)
  ultimately show ?thesis using d by (simp add: mside_but_def)
qed

section \<open>Acquiring, becoming free\<close>

lemma wf_add_source:
  assumes "wf R" and "\<And>u. (u, t) \<notin> R" and "t \<notin> W"
  shows "wf (R \<union> {t} \<times> W)"
proof (rule wfUNIVI)
  fix P x
  assume step: "\<forall>x. (\<forall>y. (y, x) \<in> R \<union> {t} \<times> W \<longrightarrow> P y) \<longrightarrow> P x"
  have t: "P t" using step assms(2,3) by blast
  from assms(1) show "P x"
    by (induction x rule: wf_induct_rule) (use step t in blast)
qed

lemma mside_but_acquire:
  assumes ok: "mside_but E T B M" and nm: "\<not> is_mutex (B m)"
    and t: "is_live (T t)" "\<not> is_pend (T t)" "t \<noteq> g_idle_task"
    and B': "is_mutex o'" "blk_policy o' = BLK_POLICY_PRI"
    and w: "\<And>w. waits_mutex T w m \<Longrightarrow> prio (T t) \<le> prio (T w)"
    and M': "mutex_task x = Some t" "mutex_next x = mutex_list (T t)"
  shows "mside_but E (T(t := (T t)\<lparr>mutex_list := Some m\<rparr>)) (B(m := o')) (M(m := x))"
proof -
  let ?T = "T(t := (T t)\<lparr>mutex_list := Some m\<rparr>)" and ?B = "B(m := o')" and ?M = "M(m := x)"
  note d = mside_butD [OF ok]
  have h: "holds_mutex ?B ?M u c \<longleftrightarrow> (if c = m then u = t else holds_mutex B M u c)" for u c
    using B' M' by (auto simp: holds_mutex_def)
  have nh: "\<not> holds_mutex B M u m" for u using nm by (simp add: holds_mutex_def)
  have live: "is_live (?T u) = is_live (T u)" and prio: "prio (?T u) = prio (T u)"
    and bprio: "b_prio (?T u) = b_prio (T u)" and ww: "waits_mutex ?T u c = waits_mutex T u c" for u c
    by (auto simp: state_classes waits_mutex_def)
  have "\<exists>ns. mchain ?M (mutex_list (?T u)) ns \<and> distinct ns \<and> (\<forall>c. c \<in> set ns \<longleftrightarrow> holds_mutex ?B ?M u c)"
    if l: "is_live (T u)" for u
  proof -
    obtain ns where ns: "mchain M (mutex_list (T u)) ns" "distinct ns" "\<forall>c. c \<in> set ns \<longleftrightarrow> holds_mutex B M u c"
      using mtx_okD(1) [OF d(1) l] by blast
    have nin: "m \<notin> set ns" using ns(3) nh by blast
    then have c: "mchain ?M (mutex_list (T u)) ns" by (intro mchain_cong [OF ns(1)]) auto
    show ?thesis
    proof (cases "u = t")
      case True
      with c M' nin ns h have "mchain ?M (mutex_list (?T u)) (m # ns) \<and> distinct (m # ns) \<and>
          (\<forall>c. c \<in> set (m # ns) \<longleftrightarrow> holds_mutex ?B ?M u c)" by auto
      then show ?thesis by blast
    next
      case False
      with c nin ns h show ?thesis by (intro exI [of _ ns]) auto
    qed
  qed
  moreover have "is_mutex (?B c) \<longrightarrow> blk_policy (?B c) = BLK_POLICY_PRI \<and> (blk_list (?B c) \<noteq> [] \<longrightarrow> mutex_task (?M c) \<noteq> None)" for c
    using mtx_okD(4,5) [OF d(1), of c] B' M' by simp
  moreover have "holds_mutex ?B ?M u c \<Longrightarrow> is_live (T u) \<and> u \<noteq> g_idle_task" for u c
    using mtx_okD(2,3) [OF d(1)] t h by (auto split: if_splits)
  ultimately have 1: "mtx_ok ?T ?B ?M" unfolding mtx_ok_def live by blast
  have R: "waits_for ?T ?B ?M = waits_for T B M \<union> {t} \<times> {v. waits_mutex T v m}"
  proof -
    have "(\<exists>c. waits_mutex T b c \<and> (if c = m then a = t else holds_mutex B M a c)) \<longleftrightarrow>
        (\<exists>c. waits_mutex T b c \<and> holds_mutex B M a c) \<or> a = t \<and> waits_mutex T b m" for a b
      using nh by metis
    then show ?thesis unfolding waits_for_def ww h by auto
  qed
  have "wf (waits_for ?T ?B ?M)"
    unfolding R using t(2) by (intro wf_add_source [OF d(2)]) (auto simp: waits_for_def waits_mutex_def)
  moreover have "pi_val ?T ?B ?M u (prio (T u))" if "is_live (T u)" "u \<notin> E" for u
  proof (cases "u = t")
    case True
    then show ?thesis
      using d(3) [OF that] w nh unfolding pi_val_def ww prio bprio h by (auto split: if_splits) metis
  next
    case False
    have "pi_val ?T ?B ?M u p = pi_val T B M u p" for p
      using False nh by (intro pi_val_cong) (auto simp: h ww prio bprio)
    then show ?thesis using d(3) [OF that] by simp
  qed
  ultimately show ?thesis using 1 by (simp only: mside_but_def live prio) blast
qed

lemma mside_but_free:
  assumes ok: "mside_but E T B M" and nm: "\<not> is_mutex (B m)"
    and B': "blk_list o' = []" "is_mutex o' \<Longrightarrow> blk_policy o' = BLK_POLICY_PRI" and M': "mutex_task x = None"
  shows "mside_but E T (B(m := o')) (M(m := x))"
proof -
  let ?B = "B(m := o')" and ?M = "M(m := x)"
  note d = mside_butD [OF ok]
  have nh: "\<not> holds_mutex B M u m" for u using nm by (simp add: holds_mutex_def)
  have h: "holds_mutex ?B ?M u c = holds_mutex B M u c" for u c
    using M' nh by (auto simp: holds_mutex_def)
  have "\<exists>ns. mchain ?M (mutex_list (T u)) ns \<and> distinct ns \<and> (\<forall>c. c \<in> set ns \<longleftrightarrow> holds_mutex B M u c)"
    if l: "is_live (T u)" for u
  proof -
    obtain ns where ns: "mchain M (mutex_list (T u)) ns" "distinct ns" "\<forall>c. c \<in> set ns \<longleftrightarrow> holds_mutex B M u c"
      using mtx_okD(1) [OF d(1) l] by blast
    then have "mchain ?M (mutex_list (T u)) ns" using nh by (intro mchain_cong [OF ns(1)]) auto
    with ns show ?thesis by blast
  qed
  then have "mtx_ok T ?B ?M"
    using d(1) B' unfolding mtx_ok_def h by auto
  moreover have "waits_for T ?B ?M = waits_for T B M" by (simp add: waits_for_def h)
  moreover have "pi_val T ?B ?M u p = pi_val T B M u p" for u p by (intro pi_val_cong) (auto simp: h)
  ultimately show ?thesis using d by (simp add: mside_but_def)
qed

section \<open>Starting and stopping to wait\<close>

lemma mside_but_unwait:
  assumes ok: "mside_but E T B M" and t: "waits_mutex T t b"
    and k: "\<not> is_pend k" "prio k = prio (T t)" "b_prio k = b_prio (T t)" "mutex_list k = mutex_list (T t)"
    and live: "is_live k \<or> (\<forall>m. \<not> holds_mutex B M t m)"
    and F: "\<And>u. holds_mutex B M u b \<Longrightarrow> u \<in> F \<or> prio (T u) \<noteq> prio (T t)" "E \<subseteq> F"
  shows "mside_but F (T(t := k)) (blk_list_rm t B) M"
proof -
  let ?T = "T(t := k)" and ?B = "blk_list_rm t B"
  note d = mside_butD [OF ok]
  have h: "holds_mutex ?B M u c = holds_mutex B M u c" for u c by (simp add: holds_mutex_def)
  have lt: "is_live (T t)" using t by (auto simp: waits_mutex_def state_classes)
  have w: "waits_mutex ?T v c \<longleftrightarrow> v \<noteq> t \<and> waits_mutex T v c" for v c using k(1) by (auto simp: waits_mutex_def)
  have same: "b_prio (?T u) = b_prio (T u)" "prio (?T u) = prio (T u)" "mutex_list (?T u) = mutex_list (T u)" for u
    using k by simp_all
  have wait: "mutex_task (M c) \<noteq> None" if "is_mutex (B c)" "blk_list (?B c) \<noteq> []" for c
    using mtx_okD(5) [OF d(1) that(1)] that(2) by (cases "blk_list (B c) = []") auto
  have 1: "mtx_ok ?T ?B M"
    using d(1) live lt wait mtx_okD(2) [OF d(1)] unfolding mtx_ok_def h same by auto
  have 2: "wf (waits_for ?T ?B M)"
    by (rule wf_subset [OF d(2)]) (auto simp: waits_for_def w h)
  have "pi_val ?T ?B M u (prio (T u))" if u: "is_live (T u)" "u \<notin> F" for u
  proof -
    have e: "pi_val T B M u (prio (T u))" using d(3) u F(2) by blast
    have "prio (T v) = prio (T u) \<Longrightarrow> holds_mutex B M u c \<Longrightarrow> waits_mutex T v c \<Longrightarrow> v \<noteq> t" for v c
      using F(1) [of u] u(2) t by (auto simp: waits_mutex_def)
    with e show ?thesis unfolding pi_val_def same h w by metis
  qed
  moreover have "is_live (?T u) \<Longrightarrow> is_live (T u)" for u using lt by (auto split: if_splits)
  ultimately show ?thesis using 1 2 same by (simp add: mside_but_def)
qed

lemma mside_wait:
  assumes ok: "msidex [u \<mapsto> prio (T t)] T B M" and u: "holds_mutex B M u m"
    and t: "\<not> is_pend (T t)" "is_live (T t)" "(t, u) \<notin> (waits_for T B M)\<^sup>*"
    and k: "is_pend k" "blk_obj k = Some m" "prio k = prio (T t)" "b_prio k = b_prio (T t)" "mutex_list k = mutex_list (T t)"
    and B': "\<And>c. is_mutex (B' c) = is_mutex (B c)" "\<And>c. is_mutex (B c) \<Longrightarrow> blk_policy (B' c) = blk_policy (B c)"
      "\<And>c. is_mutex (B c) \<Longrightarrow> c \<noteq> m \<Longrightarrow> blk_list (B' c) = blk_list (B c)"
  shows "mside (T(t := k)) B' M"
proof -
  let ?T = "T(t := k)"
  have d: "mtx_ok T B M" "wf (waits_for T B M)"
    and pi: "is_live (T v) \<Longrightarrow> pi_valx [u \<mapsto> prio (T t)] T B M v (prio (T v))" for v
    using ok by (auto simp: msidex_def)
  have h: "holds_mutex B' M v c = holds_mutex B M v c" for v c using B'(1) by (simp add: holds_mutex_def)
  have um: "holds_mutex B M v m \<Longrightarrow> v = u" for v using u by (simp add: holds_mutex_def)
  have live: "is_live (?T v) = is_live (T v)" for v using t(2) k(1) by (auto simp: state_classes)
  have same: "b_prio (?T v) = b_prio (T v)" "prio (?T v) = prio (T v)" "mutex_list (?T v) = mutex_list (T v)" for v
    using k by simp_all
  have w: "waits_mutex ?T v c \<longleftrightarrow> waits_mutex T v c \<or> v = t \<and> c = m" for v c
    using k t(1) by (auto simp: waits_mutex_def)
  have "mutex_task (M c) \<noteq> None" if "is_mutex (B c)" "blk_list (B' c) \<noteq> []" for c
    using mtx_okD(5) [OF d(1) that(1)] that u B'(3) by (cases "c = m") (auto simp: holds_mutex_def)
  then have 1: "mtx_ok ?T B' M"
    using d(1) B'(2) unfolding mtx_ok_def h live same B'(1) by auto
  have R: "waits_for ?T B' M = insert (u, t) (waits_for T B M)"
    using u um unfolding waits_for_def w h by blast
  have 2: "wf (waits_for ?T B' M)" unfolding R wf_insert using d(2) t(3) by blast
  have "pi_val ?T B' M v (prio (T v))" if v: "is_live (T v)" for v
  proof (cases "v = u")
    case True
    obtain q where q: "pi_val T B M u q" "prio (T u) = min q (prio (T t))"
      using pi [OF v] True by (auto simp: pi_valx_def)
    have le: "prio (T u) = q \<or> prio (T u) = prio (T t)" "prio (T u) \<le> q" "prio (T u) \<le> prio (T t)"
      using q(2) by auto
    have "prio (T u) \<le> prio (T x)" if "holds_mutex B M u c" "waits_mutex T x c \<or> x = t \<and> c = m" for c x
      using that le q(1) order.trans [OF le(2)] by (auto simp: pi_val_def)
    moreover have "prio (T u) \<le> b_prio (T u)" using q(1) order.trans [OF le(2)] by (simp add: pi_val_def)
    moreover have "prio (T u) = b_prio (T u) \<or>
        (\<exists>c x. holds_mutex B M u c \<and> (waits_mutex T x c \<or> x = t \<and> c = m) \<and> prio (T x) = prio (T u))"
    proof (rule disjE [OF le(1)])
      assume "prio (T u) = q" then show ?thesis using q(1) by (auto simp: pi_val_def)
    next
      assume "prio (T u) = prio (T t)" then show ?thesis using u by auto
    qed
    ultimately show ?thesis unfolding pi_val_def same h w True by blast
  next
    case False
    then have "pi_val T B M v (prio (T v))" using pi [OF v] by (simp add: pi_valx_None)
    moreover have "pi_val ?T B' M v p = pi_val T B M v p" for p
      using False um by (intro pi_val_cong) (auto simp: h w same simp del: fun_upd_apply)
    ultimately show ?thesis by simp
  qed
  then show ?thesis using 1 2 by (simp only: mside_def pi_ok_def live same) blast
qed

section \<open>Changing a priority touches only the owners it is passed on to\<close>

lemma mutex_pri_look_loop_pure:
  assumes "mutex_pri_look_loop None prev pri new s = Some (p, s')"
  shows "s' = s"
proof -
  have "(None :: oid option) = None \<longrightarrow> snd (p, s') = s"
    by (rule mutex_pri_look_loop.raw_induct [where P = "\<lambda>rel prev pri new s r. rel = None \<longrightarrow> snd r = s", OF _ assms])
      (auto simp: Let_def split: option.splits)
  then show ?thesis by simp
qed

lemma task_pri_change_step_other:
  "task_pri_change_step t p s = Some (r, s') \<Longrightarrow> u \<noteq> t \<Longrightarrow> prio (tcb s' u) = prio (tcb s u)"
  by (auto simp: task_pri_change_step_def Let_def rdy_rm_def rdy_add_head_def rdy_add_tail_def upd_task_def raise_fault_def
      k_err_proc_def pend_list_reorder_def pend_list_add_def upd_blk_def task_list_rm_def mutex_pri_look_def
      dest!: mutex_pri_look_loop_pure split: if_splits option.splits task_stat.splits)
lemma pri_step_next:
  assumes pre: "pri_pre X s t p" and n: "task_pri_change_step t p s = Some (Next u q, s')"
  shows "pri_pre X s' u q \<and> pri_frame s s' \<and> (u, t) \<in> waits_for (tasks s) (blks s) (mutexes s)"
proof -
  consider (same) "prio (tcb s t) = p"
    | (rdy) "prio (tcb s t) \<noteq> p" "task_state (tcb s t) = K_RDY"
    | (other) "prio (tcb s t) \<noteq> p" "task_state (tcb s t) \<noteq> K_RDY" "\<not> is_pend (tcb s t)"
    | (pend) "prio (tcb s t) \<noteq> p" "is_pend (tcb s t)" by blast
  then show ?thesis
  proof cases
    case same then show ?thesis using n by (simp add: task_pri_change_step_def)
  next
    case rdy from pri_step_rdy [OF pre this] show ?thesis using n by auto
  next
    case other from pri_step_idle_wait [OF pre this] show ?thesis using n by auto
  next
    case pend from pri_step_pend [OF pre this] show ?thesis using n by auto
  qed
qed

lemma task_pri_change_touch:
  assumes "pri_pre X s t p"
  shows "\<exists>s'. task_pri_change t p s = Some (RHINO_SUCCESS, s') \<and> kbase s' \<and> kmsidex X s' \<and> pri_frame s s' \<and>
    (\<forall>v. (v, t) \<notin> (waits_for (tasks s) (blks s) (mutexes s))\<^sup>* \<longrightarrow> prio (tcb s' v) = prio (tcb s v))"
proof -
  have "\<forall>v. (v, t) \<notin> R\<^sup>* \<longrightarrow> prio (tcb s' v) = prio (tcb s v)"
    if "wf R" and "pri_pre X s t p" and "waits_for (tasks s) (blks s) (mutexes s) = R"
      and "task_pri_change t p s = Some (st, s')" for R s t p s' st
    using that
  proof (induction t arbitrary: s p rule: wf_induct_rule)
    case (less t)
    obtain r s1 where r: "task_pri_change_step t p s = Some (r, s1)"
      using less.prems(3) by (subst (asm) task_pri_change.simps) (auto split: option.splits)
    note other = task_pri_change_step_other [OF r]
    show ?case
    proof (cases r)
      case (Stop x)
      then have "s1 = s'" using r less.prems(3) task_pri_change_unfold(1) [of t p s] by auto
      then show ?thesis using other by (metis rtrancl.rtrancl_refl)
    next
      case (Next u q)
      then have n: "pri_pre X s1 u q" "pri_frame s s1" "(u, t) \<in> R"
        using r pri_step_next [OF less.prems(1)] less.prems(2) by auto
      have "\<forall>v. (v, u) \<notin> R\<^sup>* \<longrightarrow> prio (tcb s' v) = prio (tcb s1 v)"
        using less.IH [OF n(3,1)] pri_frame_waits_for [OF n(2)] less.prems(2,3)
          task_pri_change_unfold(2) [of t p s u q s1] r Next by auto
      then show ?thesis using other n(3) by (metis rtrancl.simps)
    qed
  qed
  then show ?thesis using task_pri_change_ok [OF assms] pri_preD(3) [OF assms] assms by blast
qed

end
