(* ===== verification/Wait_Safe.thy ===== *)
theory Wait_Safe
  imports Kernel_Good Mutex_Side
begin

text \<open>
  Ending a wait: a task leaves the object it is blocked on, whatever the object is, and the owner of
  a mutex gets its priority recomputed (\<^verbatim>\<open>mutex_task_pri_reset\<close>).  Used by the abort of a
  wait, the expiry of a timeout and the deletion of a task.
\<close>

section \<open>The invariant without the timeout condition\<close>

definition krest :: "oid set \<Rightarrow> kstate \<Rightarrow> bool" where
  "krest X s \<longleftrightarrow> lock_ok s \<and> (\<forall>b. b \<notin> X \<longrightarrow> obj_ok s b) \<and> RHINO_SYS_FATAL_ERR \<notin> set (errs s) \<and>
     g_sched_lock s \<le> SCHED_MAX_LOCK_COUNT \<and> g_sys_stat s = RHINO_RUNNING \<and> g_idle_task_spawned s"

definition kcore :: "oid set \<Rightarrow> kstate \<Rightarrow> bool" where
  "kcore X s \<longleftrightarrow> kbase s \<and> kmside s \<and> krest X s"

lemma kgood_kcore: "kgood X s \<longleftrightarrow> kcore X s \<and> tick_pos (tasks s) (g_tick_count s)"
  by (auto simp: kgood_def kcore_def krest_def)

lemma kcoreD: "kcore X s \<Longrightarrow> kbase s" "kcore X s \<Longrightarrow> kmside s" "kcore X s \<Longrightarrow> krest X s"
  by (simp_all add: kcore_def)

lemma krestD:
  assumes "krest X s"
  shows "lock_ok s" and "b \<notin> X \<Longrightarrow> obj_ok s b" and "RHINO_SYS_FATAL_ERR \<notin> set (errs s)"
    and "g_sched_lock s \<le> SCHED_MAX_LOCK_COUNT" and "g_sys_stat s = RHINO_RUNNING" and "g_idle_task_spawned s"
  using assms by (auto simp: krest_def)

section \<open>Updates of a task that the invariant does not see\<close>

definition same_core :: "ktask \<Rightarrow> ktask \<Rightarrow> bool" where
  "same_core k k' \<longleftrightarrow> task_state k' = task_state k \<and> prio k' = prio k \<and> b_prio k' = b_prio k \<and>
     mutex_list k' = mutex_list k \<and> tick_head k' = tick_head k \<and> tick_match k' = tick_match k \<and>
     (is_pend k \<longrightarrow> blk_obj k' = blk_obj k \<and> pend_flags k' = pend_flags k \<and> pend_option k' = pend_option k) \<and>
     (is_susp k \<longrightarrow> suspend_count k' \<noteq> 0)"

lemma same_coreD:
  assumes "same_core k k'"
  shows "task_state k' = task_state k" and "prio k' = prio k" and "b_prio k' = b_prio k"
    and "mutex_list k' = mutex_list k" and "tick_head k' = tick_head k" and "tick_match k' = tick_match k"
    and "is_pend k' = is_pend k" and "is_live k' = is_live k" and "is_sleep k' = is_sleep k" and "is_susp k' = is_susp k"
    and "is_pend k \<Longrightarrow> blk_obj k' = blk_obj k" and "is_pend k \<Longrightarrow> pend_flags k' = pend_flags k"
    and "is_pend k \<Longrightarrow> pend_option k' = pend_option k" and "is_susp k \<Longrightarrow> suspend_count k' \<noteq> 0"
  using assms by (auto simp: same_core_def state_classes)

lemma kcore_upd_task:
  assumes c: "kcore X s" and f: "same_core (tcb s t) (f (tcb s t))"
  shows "kcore X (upd_task t f s)"
proof -
  let ?s = "upd_task t f s" and ?k = "f (tcb s t)"
  note b = kbaseD [OF kcoreD(1) [OF c]] and r = krestD [OF kcoreD(3) [OF c]] and e = same_coreD [OF f]
  have "kbase ?s"
  proof (rule kbaseI)
    show "rdy_ok (tasks ?s) (g_ready_queue ?s)"
      using rdy_ok_frame [OF b(1), of ?k t] e by (simp add: upd_task_def rdy_view_def)
    show "blk_ok (tasks ?s) (blks ?s)"
      using blk_ok_frame [OF b(2), of ?k t] e by (simp add: upd_task_def pend_view_def)
    show "tick_ok (tasks ?s) (g_tick_head ?s) (g_tick_count ?s)"
      using tick_ok_frame [OF b(3), of ?k t] e by (simp add: upd_task_def tick_view_def)
    show "prio_ok (tasks ?s)" using b(4) e by (auto simp: upd_task_def prio_ok_def)
    show "\<not> fault ?s" using b(5) by (simp add: upd_task_def)
  qed
  moreover have "mside (tasks ?s) (blks s) (mutexes s)"
  proof (rule mside_frame [OF kcoreD(2) [OF c]])
    show "waits_mutex (tasks ?s) w m = waits_mutex (tasks s) w m" for w m
      using e by (auto simp: upd_task_def waits_mutex_def)
    show "mutex_task (mutexes s m) \<noteq> None" if "is_mutex (blks s m)" "blk_list (blks s m) \<noteq> []" for m
      using mtx_okD(5) [OF mside_mtx [OF kcoreD(2) [OF c]]] that by blast
  qed (use e in \<open>simp_all add: upd_task_def\<close>)
  moreover have "obj_ok ?s b" if "b \<notin> X" for b
  proof (rule obj_ok_frame [OF r(2) [OF that]])
    show "pend_flags (tcb ?s u) = pend_flags (tcb s u) \<and> pend_option (tcb ?s u) = pend_option (tcb s u)"
      if "u \<in> set (blk_list (blks ?s b))" for u
      using e blk_okD(2) [OF b(2), of u b] that by (auto simp: upd_task_def)
  qed (simp_all add: upd_task_def)
  ultimately show ?thesis
    using r e(1) by (auto simp: kcore_def krest_def lock_ok_def upd_task_def)
qed

lemma tick_pos_upd_task:
  "tick_pos (tasks s) c \<Longrightarrow> same_core (tcb s t) (f (tcb s t)) \<Longrightarrow> tick_pos (tasks (upd_task t f s)) c"
  using same_coreD(5,6) [of "tcb s t" "f (tcb s t)"] by (simp add: tick_pos_def upd_task_def)

lemma kgood_upd_task:
  "kgood X s \<Longrightarrow> same_core (tcb s t) (f (tcb s t)) \<Longrightarrow> kgood X (upd_task t f s)"
  using kcore_upd_task [of X s t f] tick_pos_upd_task [of s "g_tick_count s" t f]
  by (simp add: kgood_kcore) (simp add: upd_task_def)

lemma kinv_upd_task:
  "kinv s \<Longrightarrow> same_core (tcb s t) (f (tcb s t)) \<Longrightarrow> kinv (upd_task t f s)"
  using kgood_upd_task [of "{}" s t f] same_coreD(1) [of "tcb s t" "f (tcb s t)"]
  by (auto simp: kinv_def run_ok_def upd_task_def)

section \<open>Priority changes\<close>

lemma pri_frame_tcb:
  assumes "pri_frame s s'"
  shows "task_state (tcb s' u) = task_state (tcb s u)" and "blk_obj (tcb s' u) = blk_obj (tcb s u)"
    and "tick_head (tcb s' u) = tick_head (tcb s u)" and "tick_match (tcb s' u) = tick_match (tcb s u)"
    and "mutex_list (tcb s' u) = mutex_list (tcb s u)" and "b_prio (tcb s' u) = b_prio (tcb s u)"
    and "pend_flags (tcb s' u) = pend_flags (tcb s u)" and "pend_option (tcb s' u) = pend_option (tcb s u)"
    and "suspend_count (tcb s' u) = suspend_count (tcb s u)"
    and "is_pend (tcb s' u) = is_pend (tcb s u)" and "is_live (tcb s' u) = is_live (tcb s u)"
  unfolding state_classes by (subst pri_frameD(18) [OF assms], simp)+

lemma krest_pri_frame:
  assumes f: "pri_frame s s'" and r: "krest X s"
  shows "krest X s'"
proof -
  note d = krestD [OF r] and p = pri_frameD [OF f]
  have "obj_ok s' b" if "b \<notin> X" for b
    using d(2) [OF that] by (rule obj_ok_frame) (simp_all add: p(2-5,19-21) pri_frame_tcb [OF f])
  then show ?thesis
    using d p by (simp add: krest_def lock_ok_def pri_frame_tcb [OF f])
qed

lemma tick_pos_pri_frame: "pri_frame s s' \<Longrightarrow> tick_pos (tasks s) c \<Longrightarrow> tick_pos (tasks s') c"
  by (simp add: tick_pos_def pri_frame_tcb)

text \<open>Recomputing the priority of \<open>u\<close> makes inheritance exact again.\<close>

lemma mutex_release_none:
  assumes b: "kbase s" and m: "kmside_but {u} s" and u: "is_live (tcb s u)" "u \<noteq> g_idle_task"
  shows "kbase (mutex_release u None s)" and "kmside (mutex_release u None s)"
    and "pri_frame s (mutex_release u None s)"
proof -
  note d = mside_butD [OF m]
  obtain p where p: "mutex_pri_look u None s = Some (p, s)" "pi_val (tasks s) (blks s) (mutexes s) u p"
    using mutex_pri_look_none [OF kbaseD(2) [OF b] d(1) u(1)] by blast
  have "pri_pre Map.empty s u p"
    using b d u p(2) by (simp add: pri_pre_def pi_valx_None)
  from task_pri_change_ok [OF this] obtain s' where s': "task_pri_change u p s = Some (RHINO_SUCCESS, s')"
    "kbase s'" "kmside s'" "pri_frame s s'" by (auto simp: msidex_empty)
  have "kmside s" if "p = prio (tcb s u)"
    using mside_but_exact [of u "{}"] m p(2) that by (simp add: mside_but_empty)
  then show "kbase (mutex_release u None s)" "kmside (mutex_release u None s)" "pri_frame s (mutex_release u None s)"
    using p(1) s' b by (auto simp: mutex_release_def)
qed

section \<open>Leaving the object\<close>

definition unpend_tcb :: "task_stat \<Rightarrow> blk_state_t \<Rightarrow> ktask \<Rightarrow> ktask" where
  "unpend_tcb ns st k = k\<lparr>task_state := ns, tick_head := False, blk_state := st\<rparr>"

definition unpend :: "task_stat \<Rightarrow> blk_state_t \<Rightarrow> tid \<Rightarrow> kstate \<Rightarrow> kstate" where
  "unpend ns st t s = s\<lparr>tasks := (tasks s)(t := unpend_tcb ns st (tcb s t)), blks := blk_list_rm t (blks s),
     g_tick_head := remove1 t (g_tick_head s),
     g_ready_queue := (if ns = K_RDY
       then ready_list_add (prio (tcb s (g_active_task s))) (g_ready_queue s) t (prio (tcb s t))
       else g_ready_queue s)\<rparr>"

lemma unpend_tcb_simps [simp]:
  "prio (unpend_tcb ns st k) = prio k" "b_prio (unpend_tcb ns st k) = b_prio k"
  "mutex_list (unpend_tcb ns st k) = mutex_list k" "tick_head (unpend_tcb ns st k) = False"
  "blk_obj (unpend_tcb ns st k) = blk_obj k" "suspend_count (unpend_tcb ns st k) = suspend_count k"
  "task_state (unpend_tcb ns st k) = ns" "pend_flags (unpend_tcb ns st k) = pend_flags k"
  "pend_option (unpend_tcb ns st k) = pend_option k" "blk_state (unpend_tcb ns st k) = st"
  by (simp_all add: unpend_tcb_def)

lemma kbase_unpend:
  assumes s: "kbase s" and t: "is_pend (tcb s t)" and ns: "ns = K_RDY \<or> ns = K_SUSPENDED \<and> is_susp (tcb s t) \<or> ns = K_DELETED"
  shows "kbase (unpend ns st t s)"
proof -
  note d = kbaseD [OF s]
  have idle: "t \<noteq> g_idle_task" using pend_not_idle [OF d(4) t] .
  have live: "is_live (tcb s t)" using t by (auto simp: state_classes)
  have p: "prio (tcb s t) < 61" "b_prio (tcb s t) < 61" using prio_okD(3,4) [OF d(4) live idle] .
  have nr: "task_state (tcb s t) \<noteq> K_RDY" using t by (auto simp: is_pend_def)
  have np: "\<not> is_pend (unpend_tcb ns st (tcb s t))" "\<not> is_sleep (unpend_tcb ns st (tcb s t))"
    using ns by (auto simp: state_classes)
  show ?thesis
  proof (rule kbaseI)
    show "rdy_ok (tasks (unpend ns st t s)) (g_ready_queue (unpend ns st t s))"
      using rdy_ok_add [OF d(1) nr, of "unpend_tcb ns st (tcb s t)" "prio (tcb s t)"]
        rdy_ok_frame [OF d(1), of "unpend_tcb ns st (tcb s t)" t] nr p
      by (simp add: unpend_def rdy_view_def)
    show "blk_ok (tasks (unpend ns st t s)) (blks (unpend ns st t s))"
      using blk_ok_rm [OF d(2) np(1)] by (simp add: unpend_def)
    show "tick_ok (tasks (unpend ns st t s)) (g_tick_head (unpend ns st t s)) (g_tick_count (unpend ns st t s))"
      using tick_ok_rm [OF d(3) _ np(2)] by (simp add: unpend_def)
    show "prio_ok (tasks (unpend ns st t s))"
      using prio_ok_upd [OF d(4) idle, of "unpend_tcb ns st (tcb s t)"] p prio_okD(5) [OF d(4), of t] ns
      by (auto simp: unpend_def is_susp_def)
    show "\<not> fault (unpend ns st t s)" using d(5) by (simp add: unpend_def)
  qed
qed

lemma krest_unpend:
  assumes s: "kbase s" and r: "krest X s" and t: "is_pend (tcb s t)"
  shows "krest X (unpend ns st t s)"
proof -
  note d = krestD [OF r]
  have "obj_ok (unpend ns st t s) c" if "c \<notin> X" for c
  proof (rule obj_ok_frame [OF d(2) [OF that]])
    show "set (blk_list (blks (unpend ns st t s) c)) \<subseteq> set (blk_list (blks s c))"
      by (simp add: unpend_def set_remove1_subset)
  qed (simp_all add: unpend_def)
  moreover have "lock_ok (unpend ns st t s)"
    using d(1) t by (auto simp: lock_ok_def unpend_def is_pend_def)
  ultimately show ?thesis using d by (simp add: krest_def unpend_def)
qed

lemma tick_pos_unpend: "tick_pos (tasks s) c \<Longrightarrow> tick_pos (tasks (unpend ns st t s)) c"
  by (simp add: unpend_def tick_pos_def)

text \<open>
  After the task left the object, only the priority of the owner may be stale, and only if it was
  the priority of the task.
\<close>

definition stale_owner :: "oid \<Rightarrow> tid \<Rightarrow> kstate \<Rightarrow> tid set" where
  "stale_owner b t s = {u. holds_mutex (blks s) (mutexes s) u b \<and> prio (tcb s u) = prio (tcb s t)}"

lemma unpend_side:
  assumes m: "kmside s" and t: "is_pend (tcb s t)" "blk_obj (tcb s t) = Some b"
    and ns: "ns = K_RDY \<or> ns = K_SUSPENDED \<or> ns = K_DELETED"
    and del: "\<And>c. ns = K_DELETED \<Longrightarrow> \<not> holds_mutex (blks s) (mutexes s) t c"
  shows "kmside_but (stale_owner b t s) (unpend ns st t s)"
proof -
  have e: "kmside_but {} s" using m by (simp add: mside_but_empty)
  have w: "waits_mutex (tasks s) t b" using t by (simp add: waits_mutex_def)
  have "\<not> is_pend (unpend_tcb ns st (tcb s t))" using ns by (auto simp: is_pend_def)
  moreover have "is_live (unpend_tcb ns st (tcb s t)) \<or> (\<forall>m. \<not> holds_mutex (blks s) (mutexes s) t m)"
    using ns del by (auto simp: is_live_def)
  ultimately show ?thesis
    using mside_but_unwait [OF e w, of "unpend_tcb ns st (tcb s t)" "stale_owner b t s"]
    by (simp add: unpend_def stale_owner_def)
qed

lemma reset_ok:
  assumes b: "kbase s" and o': "blk_obj (tcb s t) = Some b"
    and own: "is_mutex (blks s b) \<Longrightarrow> mutex_task (mutexes s b) \<noteq> None"
    and m: "kmside_but (stale_owner b t s) s"
  shows "kbase (mutex_task_pri_reset t s)" and "kmside (mutex_task_pri_reset t s)"
    and "pri_frame s (mutex_task_pri_reset t s)"
proof -
  have "kbase (mutex_task_pri_reset t s) \<and> kmside (mutex_task_pri_reset t s) \<and> pri_frame s (mutex_task_pri_reset t s)"
  proof (cases "\<exists>u. u \<in> stale_owner b t s")
    case False
    then have "stale_owner b t s = {}" by blast
    then have "kmside s" using m by (simp add: mside_but_empty)
    moreover have "mutex_task_pri_reset t s = s"
      using o' own False by (auto simp: mutex_task_pri_reset_def stale_owner_def holds_mutex_def)
    ultimately show ?thesis using b by simp
  next
    case True
    then obtain u where u: "u \<in> stale_owner b t s" by blast
    then have h: "holds_mutex (blks s) (mutexes s) u b" "prio (tcb s u) = prio (tcb s t)" by (auto simp: stale_owner_def)
    have "stale_owner b t s = {u}" using u by (auto simp: stale_owner_def holds_mutex_def)
    then have k: "kmside_but {u} s" using m by simp
    have "mutex_task_pri_reset t s = mutex_release u None s"
      using o' h by (simp add: mutex_task_pri_reset_def holds_mutex_def)
    then show ?thesis
      using mutex_release_none [OF b k mtx_okD(2,3) [OF mside_butD(1) [OF k] h(1)]] by simp
  qed
  then show "kbase (mutex_task_pri_reset t s)" "kmside (mutex_task_pri_reset t s)" "pri_frame s (mutex_task_pri_reset t s)"
    by blast+
qed

lemma pend_owner:
  assumes "kbase s" and "mtx_ok (tasks s) (blks s) (mutexes s)" and "is_pend (tcb s t)" and "blk_obj (tcb s t) = Some b"
    and "is_mutex (blks s b)"
  shows "mutex_task (mutexes s b) \<noteq> None"
proof -
  have "blk_list (blks s b) \<noteq> []" using blk_okD(2) [OF kbaseD(2) [OF assms(1)], of t b] assms(3,4) by auto
  then show ?thesis using mtx_okD(5) [OF assms(2,5)] by blast
qed

lemma stale_owner_unpend: "stale_owner b t (unpend ns st t s) = stale_owner b t s"
  by (auto simp: stale_owner_def unpend_def holds_mutex_def)

text \<open>The whole step, for a task that stays alive.\<close>

lemma kcore_unpend:
  assumes c: "kcore X s" and t: "is_pend (tcb s t)" and ns: "ns = K_RDY \<or> ns = K_SUSPENDED \<and> is_susp (tcb s t)"
  shows "kcore X (upd_task t (\<lambda>k. k\<lparr>blk_obj := None\<rparr>) (mutex_task_pri_reset t (unpend ns st t s)))"
    and "pri_frame (unpend ns st t s) (mutex_task_pri_reset t (unpend ns st t s))"
proof -
  let ?u = "unpend ns st t s" and ?s = "mutex_task_pri_reset t (unpend ns st t s)"
  obtain b where b: "blk_obj (tcb s t) = Some b" using blk_okD(3) [OF kbaseD(2) [OF kcoreD(1) [OF c]] t] by blast
  have kb: "kbase ?u" using ns by (intro kbase_unpend [OF kcoreD(1) [OF c] t]) auto
  have side: "kmside_but (stale_owner b t ?u) ?u"
    unfolding stale_owner_unpend using ns by (intro unpend_side [OF kcoreD(2) [OF c] t b]) auto
  have "is_mutex (blks ?u b) \<Longrightarrow> mutex_task (mutexes ?u b) \<noteq> None"
    using pend_owner [OF kcoreD(1) [OF c] mside_mtx [OF kcoreD(2) [OF c]] t b] by (simp add: unpend_def)
  moreover have "blk_obj (tcb ?u t) = Some b" using b by (simp add: unpend_def)
  ultimately have r: "kbase ?s" "kmside ?s" "pri_frame ?u ?s" using reset_ok [OF kb _ _ side] by blast+
  then have "kcore X ?s"
    using krest_pri_frame [OF r(3) krest_unpend [OF kcoreD(1,3) [OF c] t]] by (simp add: kcore_def)
  moreover have "\<not> is_pend (tcb ?s t)" "is_susp (tcb ?s t) \<Longrightarrow> suspend_count (tcb ?s t) \<noteq> 0"
    using ns prio_okD(5) [OF kbaseD(4) [OF r(1)], of t] unfolding pri_frame_tcb [OF r(3)]
    by (auto simp: unpend_def is_pend_def)
  ultimately show "kcore X (upd_task t (\<lambda>k. k\<lparr>blk_obj := None\<rparr>) ?s)"
    by (intro kcore_upd_task) (auto simp: same_core_def)
  show "pri_frame ?u ?s" using r(3) .
qed


end
