(* ===== verification/Mutex_Safe.thy ===== *)
theory Mutex_Safe
  imports Wait_Safe
begin

text \<open>
  Every mutex operation keeps the kernel invariant, in particular exact priority inheritance.
\<close>

section \<open>Parts of the invariant\<close>

lemma blk_ok_obj:
  assumes ok: "blk_ok T B" and l: "blk_list o' = blk_list (B m)"
    and p: "blk_policy o' = BLK_POLICY_PRI \<Longrightarrow> blk_policy (B m) = BLK_POLICY_PRI \<or> blk_list (B m) = []"
  shows "blk_ok T (B(m := o'))"
proof -
  have eq: "blk_list ((B(m := o')) c) = blk_list (B c)" for c using l by simp
  have "sorted (map (\<lambda>t. prio (T t)) (blk_list (B c)))" if "blk_policy ((B(m := o')) c) = BLK_POLICY_PRI" for c
    using that p blk_okD(4) [OF ok, of c] by (cases "c = m") auto
  then show ?thesis using ok unfolding blk_ok_def eq by simp
qed

lemma mside_mutexes:
  assumes ok: "mside T B M" and M': "\<And>c. mutex_task (M' c) = mutex_task (M c)" "\<And>c. mutex_next (M' c) = mutex_next (M c)"
  shows "mside T B M'"
proof -
  have h: "holds_mutex B M' u c = holds_mutex B M u c" for u c using M'(1) by (simp add: holds_mutex_def)
  have c: "mchain M' p ms = mchain M p ms" for p ms by (induction ms arbitrary: p) (simp_all add: M'(2))
  have "pi_val T B M' t p = pi_val T B M t p" for t p by (intro pi_val_cong) (simp_all add: h)
  then show ?thesis using ok by (simp add: mside_def mtx_ok_def pi_ok_def waits_for_def h c M'(1))
qed

lemma run_ok_state:
  assumes "run_ok s" and "task_state (tcb s' (g_active_task s)) = task_state (tcb s (g_active_task s))"
    and "g_ready_queue s' = g_ready_queue s" and "g_active_task s' = g_active_task s"
    and "g_sched_lock s' = g_sched_lock s" and "g_intrpt_nested_level s' = g_intrpt_nested_level s"
  shows "run_ok s'"
  using assms by (simp add: run_ok_def)

lemma kgood_upd_mutex:
  assumes g: "kgood X s" and f: "mutex_task (f (mutexes s m)) = mutex_task (mutexes s m)"
      "mutex_next (f (mutexes s m)) = mutex_next (mutexes s m)"
  shows "kgood X (upd_mutex m f s)"
proof -
  have "mside (tasks s) (blks s) (mutexes (upd_mutex m f s))"
    using f by (intro mside_mutexes [OF kgoodD(2) [OF g]]) (auto simp: upd_mutex_def)
  moreover have "obj_ok (upd_mutex m f s) b = obj_ok s b" for b
    by (simp add: obj_ok_def upd_mutex_def split: kobj_type.split)
  ultimately show ?thesis using g by (simp add: kgood_def kbase_def lock_ok_def upd_mutex_def)
qed

section \<open>A mutex changes hands\<close>

text \<open>While it does, it is no mutex: see \<open>Mutex_Side\<close>.\<close>

definition hidden :: "oid \<Rightarrow> kstate \<Rightarrow> kstate" where
  "hidden m s = s\<lparr>blks := (blks s)(m := none_obj (blks s m))\<rparr>"

definition put_mutex :: "oid \<Rightarrow> blk_obj_t \<Rightarrow> kmutex \<Rightarrow> kstate \<Rightarrow> kstate" where
  "put_mutex m o' x s = s\<lparr>blks := (blks s)(m := o'), mutexes := (mutexes s)(m := x)\<rparr>"

lemma kbase_hidden: "kbase s \<Longrightarrow> kbase (hidden m s)"
  using blk_ok_obj [of "tasks s" "blks s" "none_obj (blks s m)" m] by (simp add: kbase_def hidden_def)

lemma krest_others:
  assumes r: "krest {m} s" and b: "\<And>c. c \<noteq> m \<Longrightarrow> blks s' c = blks s c"
    and same: "sems s' = sems s" "queues s' = queues s" "events s' = events s" "buf_queues s' = buf_queues s"
      "errs s' = errs s" "g_sched_lock s' = g_sched_lock s" "g_sys_stat s' = g_sys_stat s"
      "g_idle_task_spawned s' = g_idle_task_spawned s" "g_active_task s' = g_active_task s"
    and T: "\<And>u. task_state (tcb s' u) = task_state (tcb s u)" "\<And>u. pend_flags (tcb s' u) = pend_flags (tcb s u)"
      "\<And>u. pend_option (tcb s' u) = pend_option (tcb s u)"
  shows "krest {m} s'"
proof -
  note d = krestD [OF r]
  have "obj_ok s' c" if "c \<noteq> m" for c
    using d(2) [of c] b [OF that] that same T by (intro obj_ok_frame [of s c s']) auto
  then show ?thesis using d same T(1) by (simp add: krest_def lock_ok_def)
qed

lemma kgood_krest: "kgood X s \<Longrightarrow> krest X s"
  by (simp add: kgood_kcore kcore_def)

lemma krest_mono: "krest X s \<Longrightarrow> X \<subseteq> Y \<Longrightarrow> krest Y s"
  by (auto simp: krest_def)

lemma kgood_unfree:
  assumes g: "kgood {} s" and m: "\<And>u. \<not> holds_mutex (blks s) (mutexes s) u m"
  shows "kgood {m} (hidden m s)"
proof -
  have "mside_but {} (tasks s) (blks s) (mutexes s)" using kgoodD(2) [OF g] by (simp add: mside_but_empty)
  from mside_but_unfree [OF this m] have "kmside (hidden m s)" by (simp add: mside_but_empty hidden_def)
  moreover have "krest {m} s" using g by (auto simp: kgood_kcore kcore_def intro: krest_mono)
  then have "krest {m} (hidden m s)" by (rule krest_others) (simp_all add: hidden_def)
  ultimately show ?thesis
    using g kbase_hidden [OF kgoodD(1) [OF g], of m] by (simp add: kgood_kcore kcore_def hidden_def)
qed

lemma kgood_put_mutex:
  assumes g: "kgood {m} s" and o': "blk_list o' = blk_list (blks s m)" "is_mutex o'"
      "blk_policy (blks s m) = BLK_POLICY_PRI \<or> blk_list (blks s m) = []"
    and side: "mside (tasks s) ((blks s)(m := o')) ((mutexes s)(m := x))"
  shows "kgood {} (put_mutex m o' x s)"
proof -
  have "kbase (put_mutex m o' x s)"
    using kgoodD(1) [OF g] o' blk_ok_obj [of "tasks s" "blks s" o' m] by (simp add: kbase_def put_mutex_def)
  moreover have "krest {m} (put_mutex m o' x s)"
    by (rule krest_others [OF kgood_krest [OF g]]) (simp_all add: put_mutex_def)
  moreover have "obj_ok (put_mutex m o' x s) m" using o'(2) by (simp add: obj_ok_def put_mutex_def is_mutex_def)
  ultimately show ?thesis
    using side kgoodD(3) [OF g] by (intro kgood_finish) (auto simp: kgood_kcore kcore_def put_mutex_def)
qed

lemma kgood_free:
  assumes g: "kgood {m} s" and nm: "\<not> is_mutex (blks s m)" "blk_list (blks s m) = []"
    and o': "blk_list o' = []" "is_mutex o'" "blk_policy o' = BLK_POLICY_PRI" and x: "mutex_task x = None"
  shows "kgood {} (put_mutex m o' x s)"
proof (rule kgood_put_mutex [OF g])
  have "kmside_but {} s" using kgoodD(2) [OF g] by (simp add: mside_but_empty)
  from mside_but_free [OF this nm(1) o'(1) o'(3) x]
  show "mside (tasks s) ((blks s)(m := o')) ((mutexes s)(m := x))" by (simp add: mside_but_empty)
qed (use nm o' in auto)

lemma kgood_acquire:
  assumes g: "kgood {m} s" and nm: "\<not> is_mutex (blks s m)"
    and o': "blk_list o' = blk_list (blks s m)" "is_mutex o'" "blk_policy o' = BLK_POLICY_PRI"
      "blk_policy (blks s m) = BLK_POLICY_PRI"
    and t: "is_live (tcb s t)" "\<not> is_pend (tcb s t)" "t \<noteq> g_idle_task"
    and w: "\<And>w. w \<in> set (blk_list (blks s m)) \<Longrightarrow> prio (tcb s t) \<le> prio (tcb s w)"
    and x: "mutex_task x = Some t" "mutex_next x = mutex_list (tcb s t)"
  shows "kgood {} (put_mutex m o' x (upd_task t (\<lambda>k. k\<lparr>mutex_list := Some m\<rparr>) s))"
proof -
  let ?u = "upd_task t (\<lambda>k. k\<lparr>mutex_list := Some m\<rparr>) s"
  have b: "kmside_but {} s" using kgoodD(2) [OF g] by (simp add: mside_but_empty)
  have "prio (tcb s t) \<le> prio (tcb s v)" if "waits_mutex (tasks s) v m" for v
    using blk_okD(2) [OF kgood_parts(2) [OF g], of v m] that w by (simp add: waits_mutex_def)
  from mside_but_acquire [OF b nm t o'(2,3) this x]
  have side: "mside (tasks ?u) ((blks s)(m := o')) ((mutexes s)(m := x))"
    by (simp add: mside_but_empty upd_task_def)
  have "kbase ?u"
  proof -
    note d = kbaseD [OF kgoodD(1) [OF g]]
    have "rdy_ok (tasks ?u) (g_ready_queue s)"
      using rdy_ok_frame [OF d(1), of _ t] by (simp add: upd_task_def rdy_view_def)
    moreover have "blk_ok (tasks ?u) (blks s)"
      using blk_ok_frame [OF d(2), of _ t] by (simp add: upd_task_def pend_view_def is_pend_def)
    moreover have "tick_ok (tasks ?u) (g_tick_head s) (g_tick_count s)"
      using tick_ok_frame [OF d(3), of _ t] by (simp add: upd_task_def tick_view_def is_pend_def is_sleep_def)
    moreover have "prio_ok (tasks ?u)" using d(4) by (auto simp: prio_ok_def upd_task_def state_classes)
    ultimately show ?thesis using d(5) by (simp add: kbase_def upd_task_def)
  qed
  then have "kbase (put_mutex m o' x ?u)"
    using o'(1,4) blk_ok_obj [of "tasks ?u" "blks s" o' m] by (simp add: kbase_def put_mutex_def upd_task_def)
  moreover have "krest {m} (put_mutex m o' x ?u)"
    by (rule krest_others [OF kgood_krest [OF g]]) (simp_all add: put_mutex_def upd_task_def)
  moreover have "obj_ok (put_mutex m o' x ?u) m" using o'(2) by (simp add: obj_ok_def put_mutex_def is_mutex_def)
  moreover have "tick_pos (tasks ?u) (g_tick_count s)" using kgoodD(3) [OF g] by (simp add: tick_pos_def upd_task_def)
  ultimately show ?thesis
    using side by (intro kgood_finish) (auto simp: kgood_kcore kcore_def put_mutex_def upd_task_def)
qed

section \<open>Creating\<close>

lemma kinv_mutex_create:
  assumes i: "kinv s" and f: "free_obj s mutex"
  shows "kinv (snd (mutex_create mutex name_ok a s))"
proof (cases mutex)
  case (Some m)
  let ?s = "snd (mutex_create (Some m) True a s)"
  let ?o = "(blks s m)\<lparr>blk_list := [], blk_policy := BLK_POLICY_PRI, obj_type := RHINO_MUTEX_OBJ_TYPE\<rparr>"
  let ?x = "(mutexes s m)\<lparr>mutex_task := None, mutex_next := None, mutex_alloc := a\<rparr>"
  have e: "blk_list (blks s m) = []" "\<not> is_mutex (blks s m)" using free_obj_empty [OF kinvD(1) [OF i], of m] f Some by auto
  have "kgood {m} s" using kgood_mono [OF kinvD(1) [OF i]] by simp
  from kgood_free [OF this e(2,1), of ?o ?x] have "kgood {} (put_mutex m ?o ?x s)" by (simp add: is_mutex_def)
  then have "kgood {} ?s"
    by (rule kgood_cong) (simp_all add: mutex_create_def put_mutex_def upd_defs Let_def)
  moreover have "run_ok ?s"
    by (rule run_ok_cong [OF kinvD(2) [OF i]]) (simp_all add: mutex_create_def upd_defs Let_def)
  ultimately have "kinv ?s" by (simp add: kinv_def)
  then show ?thesis using i Some by (cases name_ok) (simp_all add: mutex_create_def)
qed (simp add: mutex_create_def i)

lemma kinv_mutex_dyn_create:
  "kinv s \<Longrightarrow> free_obj s mem \<Longrightarrow> kinv (snd (snd (krhino_mutex_dyn_create p n mem s)))"
  using kinv_mutex_create [of s mem n K_OBJ_DYN_ALLOC]
  by (auto simp: krhino_mutex_dyn_create_def kinv_mm_free split: option.splits prod.splits)

section \<open>Unlinking a mutex from the chain of its owner\<close>

lemma slot_set_tcb [simp]:
  "task_state (tcb (slot_set p v s) u) = task_state (tcb s u)" "blk_obj (tcb (slot_set p v s) u) = blk_obj (tcb s u)"
  "b_prio (tcb (slot_set p v s) u) = b_prio (tcb s u)" "tick_head (tcb (slot_set p v s) u) = tick_head (tcb s u)"
  "tick_match (tcb (slot_set p v s) u) = tick_match (tcb s u)"
  "suspend_count (tcb (slot_set p v s) u) = suspend_count (tcb s u)"
  "pend_flags (tcb (slot_set p v s) u) = pend_flags (tcb s u)" "pend_option (tcb (slot_set p v s) u) = pend_option (tcb s u)"
  by (auto simp: slot_set_def upd_task_def upd_mutex_def split: chain_slot.splits)

lemma slot_set_state [simp]:
  "is_pend (tcb (slot_set p v s) u) = is_pend (tcb s u)" "is_live (tcb (slot_set p v s) u) = is_live (tcb s u)"
  "is_sleep (tcb (slot_set p v s) u) = is_sleep (tcb s u)" "is_susp (tcb (slot_set p v s) u) = is_susp (tcb s u)"
  "mutex_task (mutexes (slot_set p v s) c) = mutex_task (mutexes s c)"
  "sems (slot_set p v s) = sems s" "queues (slot_set p v s) = queues s" "events (slot_set p v s) = events s"
  "buf_queues (slot_set p v s) = buf_queues s" "g_ready_queue (slot_set p v s) = g_ready_queue s"
  "g_tick_head (slot_set p v s) = g_tick_head s" "g_tick_count (slot_set p v s) = g_tick_count s"
  "g_active_task (slot_set p v s) = g_active_task s" "g_sched_lock (slot_set p v s) = g_sched_lock s"
  "errs (slot_set p v s) = errs s" "fault (slot_set p v s) = fault s" "g_sys_stat (slot_set p v s) = g_sys_stat s"
  "g_idle_task_spawned (slot_set p v s) = g_idle_task_spawned s" "g_kobj_list (slot_set p v s) = g_kobj_list s"
  "g_intrpt_nested_level (slot_set p v s) = g_intrpt_nested_level s"
  by (auto simp: slot_set_def upd_task_def upd_mutex_def state_classes split: chain_slot.splits)

lemma kbase_slot_set: "kbase s \<Longrightarrow> kbase (slot_set p v s)"
proof -
  assume b: "kbase s"
  note d = kbaseD [OF b]
  have "rdy_view \<circ> tasks (slot_set p v s) = rdy_view \<circ> tasks s" by (auto simp: rdy_view_def)
  then show ?thesis
    using d by (simp add: kbase_def rdy_ok_def blk_ok_def tick_ok_def prio_ok_def)
qed

lemma mutex_look_release:
  assumes b: "blk_ok (tasks s) (blks s)" and side: "mside_but E (tasks s) B (mutexes s)"
    and h: "holds_mutex B (mutexes s) t m"
    and B: "\<And>c. blk_list (blks s c) = blk_list (B c)" "\<And>c. c \<noteq> m \<Longrightarrow> blks s c = B c"
  shows "\<exists>p q v. mutex_pri_look t (Some m) s = Some (p, slot_set q v s) \<and>
    mside_but (insert t E) (tasks (slot_set q v s)) (B(m := none_obj (B m))) (mutexes (slot_set q v s)) \<and>
    pi_val (tasks (slot_set q v s)) (B(m := none_obj (B m))) (mutexes (slot_set q v s)) t p"
proof -
  note d = mside_butD [OF side]
  let ?B = "B(m := none_obj (B m))"
  have live: "is_live (tcb s t)" using mtx_okD(2) [OF d(1) h] .
  obtain ms where ms: "mchain (mutexes s) (mutex_list (tcb s t)) ms" "distinct ms"
      "\<forall>c. c \<in> set ms \<longleftrightarrow> holds_mutex B (mutexes s) t c"
    using mtx_okD(1) [OF d(1) live] by blast
  then obtain xs ys where xy: "ms = xs @ m # ys" using h by (metis split_list)
  define q where "q = slot_before (Task_slot t) xs"
  define v where "v = mutex_next (mutexes s m)"
  define s' where "s' = slot_set q v s"
  define p where "p = look_min s (xs @ ys) (b_prio (tcb s t))"
  have c: "mchain (mutexes s) (slot_get s (Task_slot t)) (xs @ m # ys)" "distinct (xs @ m # ys)"
    using ms xy by (simp_all add: slot_get_def)
  have look: "mutex_pri_look t (Some m) s = Some (p, s')"
    using mutex_pri_look_loop_unlink [OF c, of "b_prio (tcb s t)" "b_prio (tcb s t)"]
    by (simp add: mutex_pri_look_def p_def s'_def q_def v_def)
  have c': "mchain (mutexes s') (mutex_list (tcb s' t)) (xs @ ys)"
    using mchain_unlink [OF c] by (simp add: s'_def q_def v_def slot_get_def)
  have set: "c \<in> set (xs @ ys) \<longleftrightarrow> c \<noteq> m \<and> holds_mutex B (mutexes s) t c" for c
    using ms(3) [rule_format, of c] ms(2) unfolding xy by auto
  have nxt: "mutex_next (mutexes s' c) = mutex_next (mutexes s c)" if "\<not> holds_mutex B (mutexes s) t c" for c
  proof -
    have "q \<noteq> Mutex_slot c"
    proof
      assume "q = Mutex_slot c"
      then have "c \<in> set xs" by (auto simp: q_def slot_before_def split: if_splits)
      then show False using that ms(3) [rule_format, of c] unfolding xy by simp
    qed
    then show ?thesis by (auto simp: s'_def slot_set_def upd_defs split: chain_slot.splits)
  qed
  have lst: "mutex_list (tcb s' u) = mutex_list (tcb s u)" if "u \<noteq> t" for u
    using that by (auto simp: s'_def q_def slot_before_def slot_set_def upd_defs)
  have 1: "mside_but (insert t E) (tasks s') ?B (mutexes s')"
  proof (rule mside_but_release [where ms = "xs @ ys", OF side])
    show "is_live (tcb s t)" using live .
    show "mchain (mutexes s') (mutex_list (tcb s' t)) (xs @ ys)" using c' .
    show "c \<in> set (xs @ ys) \<longleftrightarrow> c \<noteq> m \<and> holds_mutex B (mutexes s) t c" for c using set .
    show "distinct (xs @ ys)" using c(2) by auto
    show "u = t" if "holds_mutex B (mutexes s) u m" for u using that h by (simp add: holds_mutex_def)
    show "mutex_next (mutexes s' c) = mutex_next (mutexes s c)" if "\<not> holds_mutex B (mutexes s) t c" for c
      using nxt [OF that] .
    show "mutex_list (tcb s' u) = mutex_list (tcb s u)" if "u \<noteq> t" for u using lst [OF that] .
  qed (simp_all add: s'_def)
  have "blk_policy (blks s x) = BLK_POLICY_PRI" if "x \<in> set (xs @ ys)" for x
    using set [of x] that B(2) [of x] mtx_okD(4) [OF d(1), of x] by (auto simp: holds_mutex_def)
  from look_min_pi_of [of s "xs @ ys" t, OF b this] have "pi_of (tasks s) t (set (xs @ ys)) p" by (simp add: p_def)
  then have "pi_of (tasks s') t (set (xs @ ys)) p" by (simp add: pi_of_def s'_def waits_mutex_def)
  moreover have "set (xs @ ys) = {c. holds_mutex ?B (mutexes s') t c}"
    using set by (auto simp: holds_mutex_def s'_def)
  ultimately have 2: "pi_val (tasks s') ?B (mutexes s') t p" by (simp add: pi_val_pi_of)
  from look 1 2 show ?thesis unfolding s'_def by blast
qed

section \<open>Deleting\<close>

lemma pri_pre_release:
  assumes "kbase s" and side: "kmside_but {t} s" and "is_live (tcb s t)" "t \<noteq> g_idle_task"
    and "pi_val (tasks s) (blks s) (mutexes s) t p"
  shows "pri_pre Map.empty s t p"
  using assms mside_butD [OF side] by (simp add: pri_pre_def pi_valx_None)

lemma hidden_simps [simp]:
  "tasks (hidden m s) = tasks s" "mutexes (hidden m s) = mutexes s" "g_tick_count (hidden m s) = g_tick_count s"
  "blks (hidden m s) = (blks s)(m := none_obj (blks s m))"
  by (simp_all add: hidden_def)

lemma kgood_release_hidden:
  assumes g: "kgood {} s" and h: "holds_mutex (blks s) (mutexes s) t m"
  shows "kgood {m} (mutex_release t (Some m) (hidden m s)) \<and>
    obj_type (blks (mutex_release t (Some m) (hidden m s)) m) = RHINO_OBJ_TYPE_NONE"
proof -
  let ?s = "hidden m s"
  have side: "mside_but {} (tasks ?s) (blks s) (mutexes ?s)" using kgoodD(2) [OF g] by (simp add: mside_but_empty)
  have kb: "kbase ?s" using kbase_hidden [OF kgoodD(1) [OF g]] .
  have bl: "blk_list (blks ?s c) = blk_list (blks s c)" "c \<noteq> m \<Longrightarrow> blks ?s c = blks s c" for c by simp_all
  obtain p q v where r: "mutex_pri_look t (Some m) ?s = Some (p, slot_set q v ?s)"
      "mside_but {t} (tasks (slot_set q v ?s)) (blks ?s) (mutexes (slot_set q v ?s))"
      "pi_val (tasks (slot_set q v ?s)) (blks ?s) (mutexes (slot_set q v ?s)) t p"
    using mutex_look_release [OF kbaseD(2) [OF kb] side, of t m] h bl by (auto simp del: fun_upd_apply)
  define s2 where "s2 = slot_set q v ?s"
  have kb2: "kbase s2" using kbase_slot_set [OF kb] by (simp add: s2_def)
  have m2: "kmside_but {t} s2" "pi_val (tasks s2) (blks s2) (mutexes s2) t p" using r by (simp_all add: s2_def)
  have t: "is_live (tcb s2 t)" "t \<noteq> g_idle_task"
    using mtx_okD(2,3) [OF kgood_parts(5) [OF g] h] by (simp_all add: s2_def)
  have "krest {m} s" using kgood_krest [OF g] by (rule krest_mono) simp
  then have r2: "krest {m} s2" by (rule krest_others) (simp_all add: s2_def, simp_all add: hidden_def)
  have tp: "tick_pos (tasks s2) (g_tick_count s2)" using kgoodD(3) [OF g] by (simp add: s2_def tick_pos_def)
  obtain s3 where s3: "task_pri_change t p s2 = Some (RHINO_SUCCESS, s3)" "kbase s3" "kmside s3" "pri_frame s2 s3"
    using task_pri_change_ok [OF pri_pre_release [OF kb2 m2(1) t m2(2)]] by (auto simp: msidex_empty)
  have eq: "mutex_release t (Some m) ?s = (if p = prio (tcb s2 t) then s2 else s3)"
    using r(1) s3(1) by (simp add: mutex_release_def s2_def)
  have "kmside s2" if "p = prio (tcb s2 t)"
    using mside_but_exact [of t "{}"] m2 that by (simp add: mside_but_empty)
  moreover have "krest {m} s3" "tick_pos (tasks s3) (g_tick_count s3)"
    using krest_pri_frame [OF s3(4) r2] tick_pos_pri_frame [OF s3(4) tp] pri_frameD(10) [OF s3(4)] by simp_all
  moreover have "obj_type (blks s2 m) = RHINO_OBJ_TYPE_NONE" by (simp add: s2_def)
  ultimately show ?thesis
    using eq kb2 r2 tp s3 pri_frameD(21) [OF s3(4), of m] by (simp add: kgood_kcore kcore_def)
qed

lemma upd_blk_mutexes: "mutexes (upd_blk m f s) = mutexes s"
  by (simp add: upd_blk_def)

lemma kinv_mutex_del:
  assumes i: "kinv s"
  shows "kinv (snd (mutex_del a mutex s))"
proof (cases mutex)
  case (Some m)
  note g = kinvD(1) [OF i]
  let ?h = "upd_blk m (\<lambda>o'. o'\<lparr>obj_type := RHINO_OBJ_TYPE_NONE\<rparr>) s"
  let ?r = "case mutex_task (mutexes s m) of None \<Rightarrow> ?h | Some t \<Rightarrow> mutex_release t (Some m) ?h"
  let ?d = "drain pend_task_rm m ?r"
  let ?s = "?d\<lparr>g_kobj_list := (g_kobj_list ?d)\<lparr>mutex_head := remove1 m (mutex_head (g_kobj_list ?d))\<rparr>\<rparr>"
  have "kinv (core_sched ?s)" if ty: "obj_type (blks s m) = RHINO_MUTEX_OBJ_TYPE"
  proof (rule kinv_core_sched)
    have h: "?h = hidden m s" by (simp add: upd_blk_def hidden_def none_obj_def)
    have "kgood {m} ?r \<and> obj_type (blks ?r m) = RHINO_OBJ_TYPE_NONE"
    proof (cases "mutex_task (mutexes s m)")
      case None
      then have "kgood {m} (hidden m s)" by (intro kgood_unfree [OF g]) (simp add: holds_mutex_def)
      then show ?thesis using None by (simp add: h)
    next
      case (Some t)
      then have "holds_mutex (blks s) (mutexes s) t m" using ty by (simp add: holds_mutex_def is_mutex_def)
      from kgood_release_hidden [OF g this] show ?thesis unfolding h by (simp add: Some)
    qed
    then have "kgood {} ?d" by (intro kgood_drain_del) (auto simp: is_mutex_def)
    then show "kgood {} ?s" by (rule kgood_cong) simp_all
  qed
  then show ?thesis using i Some by (simp add: mutex_del_def Let_def upd_blk_mutexes)
qed (simp add: mutex_del_def i)

lemma kinv_mutex_dyn_del: "kinv s \<Longrightarrow> kinv (snd (krhino_mutex_dyn_del mutex s))"
  using kinv_mutex_del [of s K_OBJ_DYN_ALLOC mutex]
  by (auto simp: krhino_mutex_dyn_del_def kinv_mm_free split: option.splits prod.splits)

section \<open>Locking\<close>

lemma kinv_err:
  assumes i: "kinv s" and e: "e \<noteq> RHINO_SYS_FATAL_ERR"
  shows "kinv (k_err_proc e s)"
proof -
  have "obj_ok (k_err_proc e s) b = obj_ok s b" for b
    by (simp add: obj_ok_def k_err_proc_def split: kobj_type.split)
  then have "kgood {} (k_err_proc e s)"
    using kinvD(1) [OF i] e by (auto simp: kgood_def kbase_def k_err_proc_def lock_ok_def)
  moreover have "run_ok (k_err_proc e s)" by (rule run_ok_cong [OF kinvD(2) [OF i]]) (simp_all add: k_err_proc_def)
  ultimately show ?thesis by (simp add: kinv_def)
qed

lemma kinv_upd_mutex:
  assumes i: "kinv s" and f: "mutex_task (f (mutexes s m)) = mutex_task (mutexes s m)"
      "mutex_next (f (mutexes s m)) = mutex_next (mutexes s m)"
  shows "kinv (upd_mutex m f s)"
proof -
  have "run_ok (upd_mutex m f s)" by (rule run_ok_cong [OF kinvD(2) [OF i]]) (simp_all add: upd_mutex_def)
  then show ?thesis using kgood_upd_mutex [of "{}" s f m] kinvD(1) [OF i] f by (simp add: kinv_def)
qed

text \<open>The free mutex is taken by the running task.\<close>

lemma kinv_mutex_take:
  assumes i: "kinv s" and n: "g_intrpt_nested_level s = 0" and a: "g_active_task s \<noteq> g_idle_task"
    and m: "is_mutex (blks s m)" "mutex_task (mutexes s m) = None"
  shows "kinv (upd_mutex m (\<lambda>x. x\<lparr>owner_nested := 1\<rparr>) (mutex_own m (g_active_task s) s))"
proof -
  let ?t = "g_active_task s"
  let ?x = "(mutexes s m)\<lparr>mutex_task := Some ?t, mutex_next := mutex_list (tcb s ?t), owner_nested := 1\<rparr>"
  let ?s = "put_mutex m (blks s m) ?x (upd_task ?t (\<lambda>k. k\<lparr>mutex_list := Some m\<rparr>) (hidden m s))"
  note g = kinvD(1) [OF i]
  have eq: "upd_mutex m (\<lambda>x. x\<lparr>owner_nested := 1\<rparr>) (mutex_own m ?t s) = ?s"
    by (auto simp: upd_mutex_def mutex_own_def Let_def upd_task_def put_mutex_def hidden_def intro!: kstate.equality)
  have r: "task_state (tcb s ?t) = K_RDY" using run_ok_active [OF kinvD(2) [OF i] n] .
  have e: "blk_list (blks s m) = []" using mtx_okD(5) [OF kgood_parts(5) [OF g] m(1)] m(2) by blast
  have pol: "blk_policy (blks s m) = BLK_POLICY_PRI" using mtx_okD(4) [OF kgood_parts(5) [OF g] m(1)] .
  have "kgood {m} (hidden m s)" using m(2) by (intro kgood_unfree [OF g]) (simp add: holds_mutex_def)
  then have "kgood {} ?s"
    by (rule kgood_acquire) (use m r e pol a in \<open>auto simp: state_classes\<close>)
  moreover have "run_ok ?s"
    by (rule run_ok_state [OF kinvD(2) [OF i]]) (simp_all add: put_mutex_def upd_task_def hidden_def)
  ultimately show ?thesis unfolding eq by (simp add: kinv_def)
qed

text \<open>The caller waits: the owner inherits its priority first.\<close>

definition lock_inherit :: "tid \<Rightarrow> tid \<Rightarrow> kstate \<Rightarrow> kstate" where
  "lock_inherit cur owner s =
     (if prio (tcb s cur) < prio (tcb s owner)
      then (case task_pri_change owner (prio (tcb s cur)) s of None \<Rightarrow> raise_fault s | Some (st, s') \<Rightarrow> s') else s)"

lemma lock_inherit_ok:
  assumes g: "kgood X s" and u: "is_live (tcb s u)" "u \<noteq> g_idle_task"
    and nd: "(t, u) \<notin> (waits_for (tasks s) (blks s) (mutexes s))\<^sup>*"
  shows "let s' = lock_inherit t u s in kbase s' \<and> kmsidex [u \<mapsto> prio (tcb s t)] s' \<and> pri_frame s s' \<and>
    prio (tcb s' t) = prio (tcb s t)"
proof -
  note p = kgood_parts [OF g]
  have pi: "pi_val (tasks s) (blks s) (mutexes s) v (prio (tcb s v))" if "is_live (tcb s v)" for v
    using p(6) that by (simp add: pi_ok_def)
  show ?thesis
  proof (cases "prio (tcb s t) < prio (tcb s u)")
    case True
    have "v \<noteq> u" if "(v, u) \<in> (waits_for (tasks s) (blks s) (mutexes s))\<^sup>+" for v
      using that wf_acyclic [OF p(7)] by (auto simp: acyclic_def)
    moreover have "pi_valx [u \<mapsto> prio (tcb s t)] (tasks s) (blks s) (mutexes s) u (prio (tcb s t))"
      unfolding pi_valx_def using pi [OF u(1)] True by (intro exI [of _ "prio (tcb s u)"]) simp
    moreover have "pi_valx [u \<mapsto> prio (tcb s t)] (tasks s) (blks s) (mutexes s) v (prio (tcb s v))"
      if "is_live (tcb s v)" "v \<noteq> u" for v
      using pi [OF that(1)] that(2) by (simp add: pi_valx_None)
    ultimately have "pri_pre [u \<mapsto> prio (tcb s t)] s u (prio (tcb s t))"
      using kgoodD(1) [OF g] p(5,7) u by (auto simp: pri_pre_def)
    from task_pri_change_touch [OF this] nd True show ?thesis by (auto simp: lock_inherit_def Let_def)
  next
    case False
    have "pi_valx [u \<mapsto> prio (tcb s t)] (tasks s) (blks s) (mutexes s) v (prio (tcb s v))" if "is_live (tcb s v)" for v
      using pi [OF that] False by (auto simp: pi_valx_def min_def)
    then show ?thesis using False kgoodD(1) [OF g] p(5,7) by (simp add: lock_inherit_def msidex_def)
  qed
qed

lemma kinv_mutex_wait:
  assumes i: "kinv s" and n: "g_intrpt_nested_level s = 0" and l: "g_sched_lock s = 0"
    and a: "g_active_task s \<noteq> g_idle_task" and h: "holds_mutex (blks s) (mutexes s) u m"
    and nd: "(g_active_task s, u) \<notin> (waits_for (tasks s) (blks s) (mutexes s))\<^sup>*"
  shows "kinv (core_sched (pend_to_blk_obj m (g_active_task s) ticks (lock_inherit (g_active_task s) u s)))"
proof (rule kinv_core_sched)
  let ?t = "g_active_task s"
  note g = kinvD(1) [OF i]
  define s1 where "s1 = lock_inherit ?t u s"
  have s1: "kbase s1" "kmsidex [u \<mapsto> prio (tcb s1 ?t)] s1" "pri_frame s s1"
    using lock_inherit_ok [OF g mtx_okD(2,3) [OF kgood_parts(5) [OF g] h] nd] by (auto simp: s1_def Let_def)
  have r: "task_state (tcb s1 ?t) = K_RDY"
    using run_ok_active [OF kinvD(2) [OF i] n] by (simp add: pri_frame_tcb [OF s1(3)])
  obtain q where q: "pend_to_blk_obj m ?t ticks s1 = block m ?t ticks q s1" "kbase (block m ?t ticks q s1)"
    using kbase_block [OF s1(1) r a] by blast
  let ?b = "block m ?t ticks q s1"
  have h1: "holds_mutex (blks s1) (mutexes s1) u m"
    using h pri_frameD(1,21) [OF s1(3)] by (simp add: holds_mutex_def is_mutex_def)
  have "mside (tasks ?b) (blks ?b) (mutexes s1)"
    unfolding block_def Let_def
    using r nd pri_frame_waits_for [OF s1(3)]
    by simp (rule mside_wait [OF s1(2) h1], auto simp: state_classes is_mutex_def)
  then have "kmside ?b" by (simp add: block_def Let_def)
  moreover have "krest {} ?b"
  proof -
    have k: "krest {} s1" using krest_pri_frame [OF s1(3) kgood_krest [OF g]] .
    have "obj_ok ?b c" for c
    proof (cases "c = m")
      case True
      then show ?thesis using h1 by (simp add: obj_ok_def block_def Let_def holds_mutex_def is_mutex_def)
    next
      case False
      have "obj_ok s1 c" using krestD(2) [OF k] by simp
      then show ?thesis
        by (rule obj_ok_frame) (use False in \<open>simp_all add: block_def Let_def pend_tcb_def\<close>)
    qed
    then show ?thesis
      using krestD [OF k] l pri_frameD(7) [OF s1(3)] by (simp add: krest_def block_def Let_def lock_ok_def)
  qed
  moreover have "tick_pos (tasks s1) (g_tick_count s1)"
    using tick_pos_pri_frame [OF s1(3) kgoodD(3) [OF g]] pri_frameD(10) [OF s1(3)] by simp
  from tick_pos_block [OF this] have "tick_pos (tasks ?b) (g_tick_count ?b)" by (simp add: block_def Let_def)
  ultimately have "kgood {} ?b" using q(2) by (simp add: kgood_kcore kcore_def)
  then show "kgood {} (pend_to_blk_obj m ?t ticks (lock_inherit ?t u s))" using q(1) by (simp add: s1_def)
qed

text \<open>
  The caller may lock: it is not the idle task, and it does not hold, directly or through a chain
  of waiting owners, what the owner of the mutex is waiting for.
\<close>

definition may_lock :: "kstate \<Rightarrow> oid option \<Rightarrow> bool" where
  "may_lock s mutex \<longleftrightarrow> may_block s \<and>
     (\<forall>m u. mutex = Some m \<longrightarrow> holds_mutex (blks s) (mutexes s) u m \<longrightarrow> u \<noteq> g_active_task s \<longrightarrow>
        (g_active_task s, u) \<notin> (waits_for (tasks s) (blks s) (mutexes s))\<^sup>*)"

lemma krhino_mutex_lock_wait:
  assumes "is_mutex (blks s m)" and "mutex_task (mutexes s m) = Some u" and "u \<noteq> g_active_task s"
    and "g_intrpt_nested_level s = 0" and "g_sched_lock s = 0" and "ticks \<noteq> 0" and "g_sys_stat s = RHINO_RUNNING"
  shows "krhino_mutex_lock (Some m) ticks s =
    (Blocked, core_sched (pend_to_blk_obj m (g_active_task s) ticks (lock_inherit (g_active_task s) u s)))"
  using assms by (simp add: krhino_mutex_lock_def Let_def is_mutex_def lock_inherit_def)

lemma kinv_mutex_lock:
  assumes i: "kinv s" and ok: "may_lock s mutex"
  shows "kinv (snd (krhino_mutex_lock mutex ticks s))"
proof (cases mutex)
  case (Some m)
  let ?t = "g_active_task s"
  have run: "g_sys_stat s = RHINO_RUNNING" using kgoodD(8) [OF kinvD(1) [OF i]] .
  show ?thesis
  proof (cases "is_mutex (blks s m) \<and> g_intrpt_nested_level s = 0")
    case False
    then show ?thesis using i Some run by (auto simp: krhino_mutex_lock_def is_mutex_def word_gt_0)
  next
    case m: True
    then have a: "?t \<noteq> g_idle_task" using ok by (simp add: may_lock_def may_block_def)
    consider (free) "mutex_task (mutexes s m) = None" | (own) "mutex_task (mutexes s m) = Some ?t"
      | (wait) u where "mutex_task (mutexes s m) = Some u" "u \<noteq> ?t" "g_sched_lock s = 0" "ticks \<noteq> 0"
      | (fail) u where "mutex_task (mutexes s m) = Some u" "u \<noteq> ?t" "g_sched_lock s \<noteq> 0 \<or> ticks = 0"
      by (cases "mutex_task (mutexes s m)") auto
    then show ?thesis
    proof cases
      case free
      have "kinv (upd_mutex m (\<lambda>x. x\<lparr>owner_nested := 1\<rparr>) (mutex_own m ?t s))"
        using m free by (intro kinv_mutex_take [OF i _ a]) auto
      then show ?thesis using Some m free run by (simp add: krhino_mutex_lock_def is_mutex_def)
    next
      case own
      have "kinv (upd_mutex m (\<lambda>x. x\<lparr>owner_nested := owner_nested x + 1\<rparr>) s)" "kinv (k_err_proc RHINO_MUTEX_NESTED_OVF s)"
        by (simp_all add: kinv_upd_mutex kinv_err i)
      then show ?thesis using Some m own run by (simp add: krhino_mutex_lock_def is_mutex_def Let_def)
    next
      case wait
      have h: "holds_mutex (blks s) (mutexes s) u m" using m wait by (simp add: holds_mutex_def)
      have "(?t, u) \<notin> (waits_for (tasks s) (blks s) (mutexes s))\<^sup>*" using ok h wait Some by (auto simp: may_lock_def)
      from kinv_mutex_wait [OF i _ wait(3) a h this] show ?thesis
        using krhino_mutex_lock_wait [of s m u ticks] m wait run Some by simp
    next
      case fail
      then show ?thesis using Some m i run by (auto simp: krhino_mutex_lock_def is_mutex_def word_gt_0 Let_def)
    qed
  qed
qed (simp add: krhino_mutex_lock_def i)

section \<open>Unlocking\<close>

text \<open>Changing the priority of a ready task does not look at the objects.\<close>

definition rdy_pri :: "tid \<Rightarrow> nat \<Rightarrow> kstate \<Rightarrow> kstate" where
  "rdy_pri t p s =
     (if prio (tcb s t) = p then s
      else let s = upd_task t (\<lambda>k. k\<lparr>prio := p\<rparr>) (rdy_rm t s)
           in if t = g_active_task s then rdy_add_head t s else rdy_add_tail t s)"

lemma task_pri_change_rdy:
  "task_state (tcb s t) = K_RDY \<Longrightarrow> task_pri_change t p s = Some (RHINO_SUCCESS, rdy_pri t p s)"
  by (subst task_pri_change.simps) (simp add: task_pri_change_step_def rdy_pri_def Let_def)

lemma rdy_pri_blks:
  "rdy_pri t p (s\<lparr>blks := B\<rparr>) = (rdy_pri t p s)\<lparr>blks := B\<rparr>" "blks (rdy_pri t p s) = blks s"
  by (simp_all add: rdy_pri_def rdy_rm_def upd_task_def rdy_add_head_def rdy_add_tail_def raise_fault_def Let_def
      split: option.splits)

lemma mutex_release_rdy:
  assumes "task_state (tcb s' t) = K_RDY" and "mutex_pri_look t rel s = Some (p, s')"
  shows "mutex_release t rel s = rdy_pri t p s'"
  using assms task_pri_change_rdy [of s' t p] by (auto simp: mutex_release_def rdy_pri_def)

lemma hidden_blks: "hidden m s = s\<lparr>blks := (blks s)(m := none_obj (blks s m))\<rparr>"
  by (simp add: hidden_def)

lemma hidden_rdy_pri: "hidden m (rdy_pri t p s) = rdy_pri t p (hidden m s)"
  by (simp add: hidden_blks rdy_pri_blks)

lemma kgood_release_active:
  assumes g: "kgood {} s" and h: "holds_mutex (blks s) (mutexes s) t m" and r: "task_state (tcb s t) = K_RDY"
  shows "\<exists>p q v. mutex_release t (Some m) s = rdy_pri t p (slot_set q v s) \<and>
    kgood {m} (hidden m (mutex_release t (Some m) s)) \<and> blks (mutex_release t (Some m) s) = blks s \<and>
    pri_frame (hidden m (slot_set q v s)) (hidden m (mutex_release t (Some m) s)) \<and>
    (blk_list (blks s m) = [] \<longrightarrow> p = prio (tcb s t))"
proof -
  have side: "mside_but {} (tasks s) (blks s) (mutexes s)" using kgoodD(2) [OF g] by (simp add: mside_but_empty)
  obtain p q v where r1: "mutex_pri_look t (Some m) s = Some (p, slot_set q v s)"
      "mside_but {t} (tasks (slot_set q v s)) ((blks s)(m := none_obj (blks s m))) (mutexes (slot_set q v s))"
      "pi_val (tasks (slot_set q v s)) ((blks s)(m := none_obj (blks s m))) (mutexes (slot_set q v s)) t p"
    using mutex_look_release [OF kgood_parts(2) [OF g] side h] by auto
  define s2 where "s2 = hidden m (slot_set q v s)"
  have eq: "mutex_release t (Some m) s = rdy_pri t p (slot_set q v s)"
    using mutex_release_rdy [OF _ r1(1)] r by simp
  have kb2: "kbase s2" using kbase_hidden [OF kbase_slot_set [OF kgoodD(1) [OF g]]] by (simp add: s2_def)
  have m2: "kmside_but {t} s2" "pi_val (tasks s2) (blks s2) (mutexes s2) t p" using r1 by (simp_all add: s2_def)
  have t: "is_live (tcb s2 t)" "t \<noteq> g_idle_task"
    using mtx_okD(2,3) [OF kgood_parts(5) [OF g] h] by (simp_all add: s2_def)
  have "krest {m} s" using kgood_krest [OF g] by (rule krest_mono) simp
  then have r2: "krest {m} s2" by (rule krest_others) (simp_all add: s2_def, simp_all add: hidden_def)
  have tp: "tick_pos (tasks s2) (g_tick_count s2)" using kgoodD(3) [OF g] by (simp add: s2_def tick_pos_def)
  obtain s3 where s3: "task_pri_change t p s2 = Some (RHINO_SUCCESS, s3)" "kbase s3" "kmside s3" "pri_frame s2 s3"
    using task_pri_change_ok [OF pri_pre_release [OF kb2 m2(1) t m2(2)]] by (auto simp: msidex_empty)
  have s3eq: "s3 = hidden m (mutex_release t (Some m) s)"
    using s3(1) task_pri_change_rdy [of s2 t p] r unfolding eq hidden_rdy_pri by (simp add: s2_def)
  have "krest {m} s3" "tick_pos (tasks s3) (g_tick_count s3)"
    using krest_pri_frame [OF s3(4) r2] tick_pos_pri_frame [OF s3(4) tp] pri_frameD(10) [OF s3(4)] by simp_all
  then have "kgood {m} s3" using s3 by (simp add: kgood_kcore kcore_def)
  moreover have "p = prio (tcb s t)" if e: "blk_list (blks s m) = []"
  proof -
    have nw: "\<not> waits_mutex (tasks s) w m" for w
      using blk_okD(2) [OF kgood_parts(2) [OF g], of w m] e by (simp add: waits_mutex_def)
    have "is_live (tcb s t)" using t by (simp add: s2_def)
    then have "pi_val (tasks s) (blks s) (mutexes s) t (prio (tcb s t))"
      using kgood_parts(6) [OF g] by (simp add: pi_ok_def)
    moreover have "pi_val (tasks s2) (blks s2) (mutexes s2) t p = pi_val (tasks s) (blks s) (mutexes s) t p"
    proof -
      have "holds_mutex (blks s2) (mutexes s2) t c \<longleftrightarrow> c \<noteq> m \<and> holds_mutex (blks s) (mutexes s) t c" for c
        by (auto simp: s2_def holds_mutex_def)
      moreover have "waits_mutex (tasks s2) w c = waits_mutex (tasks s) w c" for w c
        by (simp add: s2_def waits_mutex_def)
      moreover have "prio (tcb s2 w) = prio (tcb s w)" "b_prio (tcb s2 w) = b_prio (tcb s w)" for w by (simp_all add: s2_def)
      ultimately show ?thesis using nw unfolding pi_val_def by metis
    qed
    ultimately show ?thesis using m2(2) pi_val_unique by blast
  qed
  ultimately show ?thesis
    using eq s3eq s3(4) rdy_pri_blks(2) [of t p "slot_set q v s"] by (auto simp: s2_def)
qed

lemma hidden_wake: "hidden m (wake st t s) = wake st t (hidden m s)"
  by (auto simp: hidden_def wake_def blk_list_rm_def none_obj_def intro!: kstate.equality)

lemma mutex_own_put:
  "upd_mutex m f (mutex_own m t s) =
    put_mutex m (blks s m) (f ((mutexes s m)\<lparr>mutex_task := Some t, mutex_next := mutex_list (tcb s t)\<rparr>))
      (upd_task t (\<lambda>k. k\<lparr>mutex_list := Some m\<rparr>) (hidden m s))"
  by (auto simp: upd_mutex_def mutex_own_def Let_def upd_task_def put_mutex_def hidden_def intro!: kstate.equality)

text \<open>Handing a released mutex over to its first waiter.\<close>

lemma kgood_handover:
  assumes g: "kgood {m} (hidden m s)" and m: "is_mutex (blks s m)" "blk_policy (blks s m) = BLK_POLICY_PRI"
    and l: "blk_list (blks s m) = w # ws"
    and f: "\<And>x. mutex_task (f x) = mutex_task x" "\<And>x. mutex_next (f x) = mutex_next x"
  shows "kgood {} (upd_mutex m f (mutex_own m w (pend_task_wakeup w s)))"
proof -
  note p = kgood_parts [OF g]
  have w: "is_pend (tcb s w)" "blk_obj (tcb s w) = Some m"
    using blk_okD(2) [OF p(2), of w m] l by auto
  have "tick_ok (tasks s) (g_tick_head s) (g_tick_count s)" using p(3) by (simp add: hidden_def)
  then have eq: "pend_task_wakeup w s = wake BLK_FINISH w s" using pend_task_wakeup_eq(1) w(1) by blast
  let ?s = "wake BLK_FINISH w s"
  have "kgood {m} (hidden m ?s)"
    unfolding hidden_wake using w by (intro kgood_wake [OF g, of w m]) simp_all
  moreover have "sorted (map (\<lambda>t. prio (tcb s t)) (w # ws))" using blk_okD(4) [OF p(2), of m] m l by simp
  then have "prio (tcb s w) \<le> prio (tcb s v)" if "v \<in> set ws" for v using that by simp
  moreover have "w \<noteq> g_idle_task" using pend_not_idle [OF p(4), of w] w by simp
  ultimately show ?thesis
    unfolding eq mutex_own_put
    by (intro kgood_acquire) (use m l f in \<open>auto simp: wake_def blk_list_rm_def is_mutex_def\<close>)
qed

lemma kinv_mutex_unlock:
  assumes i: "kinv s"
  shows "kinv (snd (krhino_mutex_unlock mutex s))"
proof (cases mutex)
  case (Some m)
  let ?t = "g_active_task s" and ?s1 = "upd_mutex m (\<lambda>x. x\<lparr>owner_nested := owner_nested x - 1\<rparr>) s"
  have run: "g_sys_stat s = RHINO_RUNNING" using kgoodD(8) [OF kinvD(1) [OF i]] .
  show ?thesis
  proof (cases "is_mutex (blks s m) \<and> g_intrpt_nested_level s = 0 \<and> mutex_task (mutexes s m) = Some ?t")
    case False
    then show ?thesis using i Some run by (auto simp: krhino_mutex_unlock_def is_mutex_def word_gt_0)
  next
    case m: True
    have i1: "kinv ?s1" by (rule kinv_upd_mutex [OF i]) simp_all
    have r: "task_state (tcb ?s1 ?t) = K_RDY"
      using run_ok_active [OF kinvD(2) [OF i]] m by (simp add: upd_mutex_def)
    have h: "holds_mutex (blks ?s1) (mutexes ?s1) ?t m" using m by (simp add: upd_mutex_def holds_mutex_def)
    obtain p q v where s2: "mutex_release ?t (Some m) ?s1 = rdy_pri ?t p (slot_set q v ?s1)"
        "kgood {m} (hidden m (mutex_release ?t (Some m) ?s1))" "blks (mutex_release ?t (Some m) ?s1) = blks ?s1"
        "blk_list (blks ?s1 m) = [] \<longrightarrow> p = prio (tcb ?s1 ?t)"
      using kgood_release_active [OF kinvD(1) [OF i1] h r] by blast
    let ?s2 = "mutex_release ?t (Some m) ?s1"
    have b: "blks ?s2 = blks s" using s2(3) by (simp add: upd_mutex_def)
    have pol: "blk_policy (blks s m) = BLK_POLICY_PRI"
      using mtx_okD(4) [OF kgood_parts(5) [OF kinvD(1) [OF i]]] m by blast
    have "kinv (upd_mutex m (\<lambda>x. x\<lparr>mutex_task := None\<rparr>) ?s2)" if e: "blk_list (blks s m) = []"
    proof -
      let ?f = "upd_mutex m (\<lambda>x. x\<lparr>mutex_task := None\<rparr>) ?s2"
      have "?s2 = slot_set q v ?s1" using s2(1,4) e by (simp add: upd_mutex_def rdy_pri_def)
      then have "run_ok ?f"
        by (intro run_ok_state [OF kinvD(2) [OF i]]) (simp_all add: upd_mutex_def)
      moreover have "?f = put_mutex m (blks s m) ((mutexes ?s2 m)\<lparr>mutex_task := None\<rparr>) (hidden m ?s2)"
        using b by (auto simp: upd_mutex_def put_mutex_def hidden_def intro!: kstate.equality)
      then have "kgood {} ?f"
        using kgood_free [OF s2(2), of "blks s m" "(mutexes ?s2 m)\<lparr>mutex_task := None\<rparr>"] e m pol b by simp
      ultimately show ?thesis by (simp add: kinv_def)
    qed
    moreover have "kinv (core_sched (upd_mutex m (\<lambda>x. x\<lparr>owner_nested := 1\<rparr>) (mutex_own m w (pend_task_wakeup w ?s2))))"
      if "blk_list (blks s m) = w # ws" for w ws
      using that m pol b by (intro kinv_core_sched kgood_handover [OF s2(2)]) auto
    moreover have "g_active_task ?s1 = ?t" "owner_nested (mutexes ?s1 m) = owner_nested (mutexes s m) - 1"
      by (simp_all add: upd_mutex_def)
    ultimately show ?thesis
      using Some m run i1 b by (cases "blk_list (blks s m)") (simp_all add: krhino_mutex_unlock_def is_mutex_def Let_def)
  qed
qed (simp add: krhino_mutex_unlock_def i)

end
