(* ===== verification/Task_Safe.thy ===== *)
theory Task_Safe
  imports Mutex_Safe
begin

text \<open>
  Every task operation keeps the kernel invariant.
\<close>

section \<open>Changing the state of one task\<close>

text \<open>A change of one task that is not the idle task and stays on, or off, its blocking list.\<close>

lemma kcore_set_task:
  assumes c: "kcore X s"
    and s': "s' = s\<lparr>tasks := (tasks s)(t := k), g_ready_queue := q, g_tick_head := H\<rparr>"
    and rdy: "rdy_ok ((tasks s)(t := k)) q" and tick: "tick_ok ((tasks s)(t := k)) H (g_tick_count s)"
    and pend: "pend_view k = pend_view (tcb s t)"
      "is_pend k \<Longrightarrow> pend_flags k = pend_flags (tcb s t) \<and> pend_option k = pend_option (tcb s t)"
    and live: "is_live k = is_live (tcb s t)" and same: "prio k = prio (tcb s t)" "b_prio k = b_prio (tcb s t)"
      "mutex_list k = mutex_list (tcb s t)"
    and t: "t \<noteq> g_idle_task" "is_susp k \<Longrightarrow> suspend_count k \<noteq> 0"
      "g_sched_lock s > 0 \<Longrightarrow> t = g_active_task s \<Longrightarrow> task_state k = K_RDY"
  shows "kcore X s'"
proof -
  note b = kbaseD [OF kcoreD(1) [OF c]] and r = krestD [OF kcoreD(3) [OF c]]
  have p: "is_live k \<Longrightarrow> prio k < 61 \<and> b_prio k < 61"
    using prio_okD(3,4) [OF b(4), of t] live same t(1) by auto
  have "kbase s'"
    unfolding s' using rdy tick blk_ok_frame [OF b(2) pend(1)] prio_ok_upd [OF b(4) t(1) p t(2)] b(5)
    by (simp add: kbase_def)
  moreover have "mside ((tasks s)(t := k)) (blks s) (mutexes s)"
  proof (rule mside_frame [OF kcoreD(2) [OF c]])
    show "waits_mutex ((tasks s)(t := k)) w m = waits_mutex (tasks s) w m" for w m
      using pend_view_eqD [OF pend(1)] by (auto simp: waits_mutex_def)
    show "mutex_task (mutexes s m) \<noteq> None" if "is_mutex (blks s m)" "blk_list (blks s m) \<noteq> []" for m
      using mtx_okD(5) [OF mside_mtx [OF kcoreD(2) [OF c]]] that by blast
  qed (use live same in simp_all)
  moreover have "obj_ok s' x" if "x \<notin> X" for x
  proof (rule obj_ok_frame [OF r(2) [OF that]])
    show "pend_flags (tcb s' u) = pend_flags (tcb s u) \<and> pend_option (tcb s' u) = pend_option (tcb s u)"
      if "u \<in> set (blk_list (blks s' x))" for u
      using that blk_okD(2) [OF b(2), of u x] pend(2) pend_view_eqD(1) [OF pend(1)] by (auto simp: s')
  qed (simp_all add: s')
  ultimately show ?thesis
    using r t(3) by (auto simp: kcore_def krest_def lock_ok_def s')
qed

lemma kgood_set_task:
  assumes g: "kgood X s"
    and s': "s' = s\<lparr>tasks := (tasks s)(t := k), g_ready_queue := q, g_tick_head := H\<rparr>"
    and rdy: "rdy_ok ((tasks s)(t := k)) q" and tick: "tick_ok ((tasks s)(t := k)) H (g_tick_count s)"
    and pos: "tick_head k \<Longrightarrow> tick_match k \<noteq> g_tick_count s"
    and pend: "pend_view k = pend_view (tcb s t)"
      "is_pend k \<Longrightarrow> pend_flags k = pend_flags (tcb s t) \<and> pend_option k = pend_option (tcb s t)"
    and live: "is_live k = is_live (tcb s t)" and same: "prio k = prio (tcb s t)" "b_prio k = b_prio (tcb s t)"
      "mutex_list k = mutex_list (tcb s t)"
    and t: "t \<noteq> g_idle_task" "is_susp k \<Longrightarrow> suspend_count k \<noteq> 0"
      "g_sched_lock s > 0 \<Longrightarrow> t = g_active_task s \<Longrightarrow> task_state k = K_RDY"
  shows "kgood X s'"
proof -
  have "kcore X s'"
    using g by (intro kcore_set_task [OF _ s' rdy tick pend live same t]) (simp_all add: kgood_kcore)
  moreover have "tick_pos (tasks s') (g_tick_count s')"
    using tick_pos_upd [OF kgoodD(3) [OF g] pos] by (simp add: s')
  ultimately show ?thesis by (simp add: kgood_kcore)
qed

section \<open>Creation\<close>

lemma kgood_new_task:
  assumes g: "kgood X s" and t: "\<not> is_live (tcb s t)"
    and k: "task_state k = K_RDY \<or> task_state k = K_SUSPENDED \<and> suspend_count k \<noteq> 0" "\<not> tick_head k"
      "prio k < 61" "b_prio k = prio k" "mutex_list k = None"
  shows "kgood X (s\<lparr>tasks := (tasks s)(t := k),
    g_ready_queue := (if task_state k = K_RDY then ready_list_add_tail (g_ready_queue s) t (prio k) else g_ready_queue s)\<rparr>)"
    (is "kgood X ?s")
proof -
  note p = kgood_parts [OF g] and d = kgoodD [OF g]
  let ?T = "(tasks s)(t := k)"
  have idle: "t \<noteq> g_idle_task" using t prio_okD(1) [OF p(4)] by (auto simp: state_classes)
  have nt: "\<not> tick_head (tcb s t)" using tick_okD(3) [OF p(3), of t] t by (auto simp: state_classes)
  have nr: "task_state (tcb s t) \<noteq> K_RDY" "\<not> is_pend (tcb s t)" using t by (auto simp: state_classes)
  have kp: "\<not> is_pend k" "\<not> is_sleep k" "is_live k" using k(1) by (auto simp: state_classes)
  have th: "t \<notin> set (g_tick_head s)" using nt tick_okD(2) [OF p(3)] by simp
  have nh: "\<not> holds_mutex (blks s) (mutexes s) t m" for m using mtx_okD(2) [OF p(5)] t by blast
  have "rdy_ok ?T (g_ready_queue ?s)"
    using rdy_ok_add_tail [OF p(1) nr(1), of k "prio k"] rdy_ok_frame [OF p(1), of k t] nr(1) k(3)
    by (simp add: rdy_view_def)
  moreover have "blk_ok ?T (blks s)"
    by (rule blk_ok_frame [OF p(2)]) (simp add: pend_view_def kp nr)
  moreover have "tick_ok ?T (g_tick_head s) (g_tick_count s)"
    using tick_ok_rm [OF p(3) k(2) kp(2), of t] th by (simp add: remove1_idem)
  moreover have "prio_ok ?T" using k by (intro prio_ok_upd [OF p(4) idle]) (auto simp: is_susp_def)
  ultimately have kb: "kbase ?s" using d(1) by (simp add: kbase_def)
  have w: "waits_mutex ?T u m = waits_mutex (tasks s) u m" for u m
    using kp(1) nr(2) by (auto simp: waits_mutex_def)
  have pr: "waits_mutex (tasks s) u m \<Longrightarrow> prio (?T u) = prio (tcb s u)" for u m
    using nr(2) by (auto simp: waits_mutex_def)
  have "mtx_ok ?T (blks s) (mutexes s)"
  proof -
    have "\<exists>ms. mchain (mutexes s) (mutex_list (?T u)) ms \<and> distinct ms \<and> (\<forall>m. m \<in> set ms \<longleftrightarrow> holds_mutex (blks s) (mutexes s) u m)"
      if "is_live (?T u)" for u
    proof (cases "u = t")
      case True
      then show ?thesis using k(5) nh by (intro exI [of _ "[]"]) simp
    next
      case False
      then show ?thesis using that mtx_okD(1) [OF p(5), of u] by simp
    qed
    then show ?thesis using p(5) kp(3) unfolding mtx_ok_def by auto
  qed
  moreover have "pi_val ?T (blks s) (mutexes s) u (prio (?T u))" if l: "is_live (?T u)" for u
  proof (cases "u = t")
    case True
    then show ?thesis using nh k(4) by (simp add: pi_val_def)
  next
    case False
    then have "pi_val (tasks s) (blks s) (mutexes s) u (prio (tcb s u))" using p(6) l by (simp add: pi_ok_def)
    moreover have "pi_val ?T (blks s) (mutexes s) u q = pi_val (tasks s) (blks s) (mutexes s) u q" for q
      using False w pr by (intro pi_val_cong) auto
    ultimately show ?thesis using False by simp
  qed
  moreover have "waits_for ?T (blks s) (mutexes s) = waits_for (tasks s) (blks s) (mutexes s)"
    by (simp add: waits_for_def w)
  ultimately have "mside ?T (blks s) (mutexes s)" using p(7) by (simp add: mside_def pi_ok_def)
  moreover have "obj_ok ?s b" if "b \<notin> X" for b
  proof (rule obj_ok_frame [OF d(5) [OF that]])
    show "pend_flags (tcb ?s u) = pend_flags (tcb s u) \<and> pend_option (tcb ?s u) = pend_option (tcb s u)"
      if "u \<in> set (blk_list (blks ?s b))" for u
      using that blk_okD(2) [OF p(2), of u b] nr(2) by auto
  qed simp_all
  moreover have "lock_ok ?s" using d(4) nr(1) by (auto simp: lock_ok_def)
  moreover have "tick_pos ?T (g_tick_count s)" using k(2) by (intro tick_pos_upd [OF d(3)]) simp
  ultimately show ?thesis using kb d by (simp add: kgood_def)
qed

text \<open>A task control block may be given to \<open>task_create\<close> when no live task uses it.\<close>

definition free_tcb :: "kstate \<Rightarrow> tid option \<Rightarrow> bool" where
  "free_tcb s task \<longleftrightarrow> (case task of None \<Rightarrow> True | Some t \<Rightarrow> \<not> is_live (tcb s t))"

lemma new_tcb_simps [simp]:
  "task_state (new_tcb pri ticks n autorun a) = (if autorun then K_RDY else K_SUSPENDED)"
  "prio (new_tcb pri ticks n autorun a) = pri" "b_prio (new_tcb pri ticks n autorun a) = pri"
  "mutex_list (new_tcb pri ticks n autorun a) = None" "\<not> tick_head (new_tcb pri ticks n autorun a)"
  "\<not> autorun \<Longrightarrow> suspend_count (new_tcb pri ticks n autorun a) = 1"
  by (simp_all add: new_tcb_def zero_tcb_def Let_def)

lemma kinv_task_create:
  assumes i: "kinv s" and f: "free_tcb s task"
  shows "kinv (snd (task_create task name_ok pri ticks buf_ok n entry_ok autorun a s))"
proof (cases task)
  case (Some t)
  note g = kinvD(1) [OF i]
  show ?thesis
  proof (cases "name_ok \<and> entry_ok \<and> buf_ok \<and> n \<noteq> 0 \<and> pri < 61 \<and> g_intrpt_nested_level s = 0")
    case False
    then show ?thesis
      using i Some kgoodD(9) [OF g] by (auto simp: task_create_def word_gt_0)
  next
    case True
    let ?k = "new_tcb pri ticks n autorun a"
    let ?s = "s\<lparr>tasks := (tasks s)(t := ?k), g_ready_queue := (if task_state ?k = K_RDY
      then ready_list_add_tail (g_ready_queue s) t (prio ?k) else g_ready_queue s)\<rparr>"
    let ?f = "s\<lparr>tasks := (tasks s)(t := ?k),
      g_kobj_list := (g_kobj_list s)\<lparr>task_head := task_head (g_kobj_list s) @ [t]\<rparr>,
      g_ready_queue := g_ready_queue ?s\<rparr>"
    have "\<not> is_live (tcb s t)" using f Some by (simp add: free_tcb_def)
    then have "kgood {} ?s" using True by (intro kgood_new_task [OF g]) simp_all
    then have g2: "kgood {} ?f" by (rule kgood_cong) simp_all
    have run: "g_sys_stat s = RHINO_RUNNING" using kgoodD(8) [OF g] .
    have "run_ok ?f" if "\<not> autorun"
    proof (rule run_ok_state [OF kinvD(2) [OF i]])
      have "g_active_task s \<noteq> t"
        using f Some run_ok_active [OF kinvD(2) [OF i]] True by (auto simp: free_tcb_def is_live_def)
      then show "task_state (tcb ?f (g_active_task s)) = task_state (tcb s (g_active_task s))" by simp
    qed (use that in simp_all)
    then have "kinv ?f" if "\<not> autorun" using that g2 by (simp add: kinv_def)
    then show ?thesis
      using True Some run kinv_core_sched [OF g2]
      by (cases autorun) (simp_all add: task_create_def Let_def upd_task_def rdy_add_tail_def)
  qed
qed (simp add: task_create_def i)

lemma kinv_task_dyn_create:
  "kinv s \<Longrightarrow> free_tcb s mem \<Longrightarrow> kinv (snd (snd (task_dyn_create p n pri ticks st e au stk mem s)))"
  using kinv_task_create [of s mem n pri ticks True st e au K_OBJ_DYN_ALLOC]
  by (auto simp: task_dyn_create_def kinv_mm_free split: option.splits prod.splits)

section \<open>Sleeping and yielding\<close>

lemma kinv_task_sleep:
  assumes i: "kinv s" and mb: "may_block s"
  shows "kinv (snd (krhino_task_sleep ticks s))"
proof (cases "ticks \<noteq> 0 \<and> g_intrpt_nested_level s = 0 \<and> g_sched_lock s = 0")
  case True
  let ?t = "g_active_task s"
  note g = kinvD(1) [OF i]
  note p = kgood_parts [OF g]
  have a: "?t \<noteq> g_idle_task" using mb True by (simp add: may_block_def)
  have r: "task_state (tcb s ?t) = K_RDY" using run_ok_active [OF kinvD(2) [OF i]] True by blast
  let ?k = "(tcb s ?t)\<lparr>task_state := K_SLEEP, tick_match := g_tick_count s + ticks, tick_remain := ticks, tick_head := True\<rparr>"
  let ?H = "insert_before (\<lambda>u. tick_match (tcb s u) - g_tick_count s > ticks) ?t (g_tick_head s)"
  obtain q where q: "ready_list_rm (g_ready_queue s) ?t (prio (tcb s ?t)) = Some q" "rdy_ok ((tasks s)(?t := ?k)) q"
    using rdy_ok_rm [OF p(1) r a [symmetric] prio_okD(1) [OF p(4)], of ?k] by auto
  have nt: "\<not> tick_head (tcb s ?t)" using tick_okD(3) [OF p(3), of ?t] r by (auto simp: state_classes)
  then have "?t \<notin> set (g_tick_head s)" using tick_okD(2) [OF p(3)] by simp
  then have ins: "insert_before (\<lambda>u. ticks < tick_match (if u = ?t then k else tcb s u) - g_tick_count s) ?t (g_tick_head s) = ?H" for k
    by (intro insert_before_cong) auto
  let ?s = "s\<lparr>tasks := (tasks s)(?t := ?k), g_ready_queue := q, g_tick_head := ?H\<rparr>"
  have "kgood {} ?s"
  proof (rule kgood_set_task [OF g refl q(2)])
    show "tick_ok ((tasks s)(?t := ?k)) ?H (g_tick_count s)"
      by (rule tick_ok_insert [OF p(3) nt]) (simp_all add: is_sleep_def)
  qed (use r a True in \<open>auto simp: pend_view_def state_classes\<close>)
  then have "kinv (core_sched ?s)" by (rule kinv_core_sched)
  moreover have "snd (krhino_task_sleep ticks s) = core_sched ?s"
    using True q(1) by (auto simp: krhino_task_sleep_def Let_def upd_task_def tick_list_insert_def tick_list_pri_insert_def
        rdy_rm_def ins word_gt_0 fun_upd_def cong: if_cong intro!: arg_cong [where f = core_sched] kstate.equality)
  ultimately show ?thesis by simp
qed (use i in \<open>auto simp: krhino_task_sleep_def word_gt_0\<close>)

lemma kinv_task_yield:
  assumes i: "kinv s" and n: "g_intrpt_nested_level s = 0"
  shows "kinv (snd (krhino_task_yield s))"
proof -
  note p = kgood_parts [OF kinvD(1) [OF i]]
  obtain q where q: "ready_list_head_to_tail (g_ready_queue s) (prio (tcb s (g_active_task s))) = Some q" "rdy_ok (tasks s) q"
    using rdy_ok_rotate [OF p(1) run_ok_active [OF kinvD(2) [OF i] n] refl] by blast
  have o: "obj_ok (s\<lparr>g_ready_queue := q\<rparr>) b = obj_ok s b" for b
    by (simp add: obj_ok_def split: kobj_type.split)
  have "kgood {} (s\<lparr>g_ready_queue := q\<rparr>)"
    using kinvD(1) [OF i] q(2) by (simp add: kgood_def kbase_def lock_ok_def o)
  then show ?thesis using q(1) by (simp add: krhino_task_yield_def rdy_head_to_tail_def kinv_core_sched)
qed

section \<open>Suspending and resuming\<close>

lemma word_inc_nonzero: "x \<noteq> - 1 \<Longrightarrow> x + 1 \<noteq> (0 :: 'a::len word)"
  by (simp add: eq_neg_iff_add_eq_0)

lemma live_not_idle: "prio_ok T \<Longrightarrow> prio (T t) \<noteq> 61 \<Longrightarrow> t \<noteq> g_idle_task"
  using prio_okD(2) by auto

lemma kinv_task_suspend:
  assumes i: "kinv s" and t: "t \<noteq> g_idle_task"
  shows "kinv (snd (task_suspend t s))"
proof (cases "t = g_active_task s \<and> g_sched_lock s > 0")
  case lk: False
  note g = kinvD(1) [OF i]
  note p = kgood_parts [OF g] and d = kgoodD [OF g]
  have tv: "tick_ok ((tasks s)(t := k)) (g_tick_head s) (g_tick_count s)" if "tick_view k = tick_view (tcb s t)" for k
    using tick_ok_frame [OF p(3) that] .
  have step: "kinv (core_sched (upd_task t f s))"
    if "rdy_view (f (tcb s t)) = rdy_view (tcb s t)" "tick_view (f (tcb s t)) = tick_view (tcb s t)"
      "pend_view (f (tcb s t)) = pend_view (tcb s t)" "is_live (f (tcb s t)) = is_live (tcb s t)"
      "prio (f (tcb s t)) = prio (tcb s t)" "b_prio (f (tcb s t)) = b_prio (tcb s t)"
      "mutex_list (f (tcb s t)) = mutex_list (tcb s t)" "suspend_count (f (tcb s t)) \<noteq> 0"
      "pend_flags (f (tcb s t)) = pend_flags (tcb s t)" "pend_option (f (tcb s t)) = pend_option (tcb s t)" for f
  proof (rule kinv_core_sched, rule kgood_set_task [OF g, where t = t and k = "f (tcb s t)" and q = "g_ready_queue s" and H = "g_tick_head s"])
    show "rdy_ok ((tasks s)(t := f (tcb s t))) (g_ready_queue s)" using rdy_ok_frame [OF p(1) that(1)] .
    show "tick_match (f (tcb s t)) \<noteq> g_tick_count s" if "tick_head (f (tcb s t))"
      using that d(3) tick_view_eqD(1,2) [of "f (tcb s t)" "tcb s t"] \<open>tick_view (f (tcb s t)) = tick_view (tcb s t)\<close>
      by (auto simp: tick_pos_def)
  qed (use that tv t lk in \<open>auto simp: upd_task_def\<close>)
  have "kinv (core_sched (rdy_rm t (upd_task t (\<lambda>k. k\<lparr>suspend_count := 1, task_state := K_SUSPENDED\<rparr>) s)))"
    if r: "task_state (tcb s t) = K_RDY"
  proof -
    let ?k = "(tcb s t)\<lparr>suspend_count := 1, task_state := K_SUSPENDED\<rparr>"
    obtain q where q: "ready_list_rm (g_ready_queue s) t (prio (tcb s t)) = Some q" "rdy_ok ((tasks s)(t := ?k)) q"
      using rdy_ok_rm [OF p(1) r t [symmetric] prio_okD(1) [OF p(4)], of ?k] by auto
    have nt: "\<not> tick_head (tcb s t)" using tick_okD(3) [OF p(3), of t] r by (auto simp: state_classes)
    have "kgood {} (s\<lparr>tasks := (tasks s)(t := ?k), g_ready_queue := q, g_tick_head := g_tick_head s\<rparr>)"
    proof (rule kgood_set_task [OF g refl q(2)])
      show "tick_ok ((tasks s)(t := ?k)) (g_tick_head s) (g_tick_count s)"
        using nt r by (intro tv) (simp add: tick_view_def state_classes)
    qed (use r nt t lk in \<open>auto simp: pend_view_def state_classes\<close>)
    then show ?thesis using q(1) by (simp add: rdy_rm_def upd_task_def kinv_core_sched)
  qed
  then show ?thesis
    using i lk by (auto simp: task_suspend_def rdy_view_def tick_view_def pend_view_def state_classes word_inc_nonzero
        intro!: step split: task_stat.splits)
qed (use i in \<open>simp add: task_suspend_def\<close>)

lemma kinv_krhino_task_suspend:
  "kinv s \<Longrightarrow> kinv (snd (krhino_task_suspend task s))"
  using kinv_task_suspend [of s] live_not_idle [OF kgood_parts(4) [OF kinvD(1)], of s]
  by (auto simp: krhino_task_suspend_def split: option.splits)

text \<open>Making a task ready that is on no list.\<close>

lemma kgood_make_ready:
  assumes g: "kgood X s" and t: "is_live (tcb s t)" "task_state (tcb s t) \<noteq> K_RDY" "\<not> is_pend (tcb s t)"
    and k: "task_state k = K_RDY" "\<not> tick_head k" "prio k = prio (tcb s t)" "b_prio k = b_prio (tcb s t)"
      "mutex_list k = mutex_list (tcb s t)"
    and s': "s' = s\<lparr>tasks := (tasks s)(t := k),
      g_ready_queue := ready_list_add (prio (tcb s (g_active_task s))) (g_ready_queue s) t (prio (tcb s t)),
      g_tick_head := remove1 t (g_tick_head s)\<rparr>"
  shows "kgood X s'"
proof (rule kgood_set_task [OF g s'])
  note p = kgood_parts [OF g]
  show idle: "t \<noteq> g_idle_task" using t(2) prio_okD(1) [OF p(4)] by auto
  show "rdy_ok ((tasks s)(t := k)) (ready_list_add (prio (tcb s (g_active_task s))) (g_ready_queue s) t (prio (tcb s t)))"
    using prio_okD(3) [OF p(4) t(1) idle] k by (intro rdy_ok_add [OF p(1) t(2)]) auto
  show "tick_ok ((tasks s)(t := k)) (remove1 t (g_tick_head s)) (g_tick_count s)"
    using k by (intro tick_ok_rm [OF p(3)]) (auto simp: is_sleep_def)
qed (use t k in \<open>auto simp: pend_view_def state_classes\<close>)

lemma kinv_task_resume:
  assumes i: "kinv s"
  shows "kinv (snd (task_resume t s))"
proof -
  note g = kinvD(1) [OF i]
  note p = kgood_parts [OF g] and d = kgoodD [OF g]
  let ?s = "upd_task t (\<lambda>k. k\<lparr>suspend_count := suspend_count k - 1\<rparr>) s"
  have keep: "kgood {} ?s" if "suspend_count (tcb s t) - 1 \<noteq> 0"
    using that by (intro kgood_upd_task [OF g]) (auto simp: same_core_def)
  have wake: "kgood {} (upd_task t (\<lambda>k. k\<lparr>task_state := st\<rparr>) ?s)"
    if st: "st = K_SLEEP \<and> task_state (tcb s t) = K_SLEEP_SUSPENDED \<or> st = K_PEND \<and> task_state (tcb s t) = K_PEND_SUSPENDED" for st
  proof (rule kgood_set_task [OF g, where t = t and q = "g_ready_queue s" and H = "g_tick_head s" and
        k = "(tcb s t)\<lparr>suspend_count := suspend_count (tcb s t) - 1, task_state := st\<rparr>"])
    let ?k = "(tcb s t)\<lparr>suspend_count := suspend_count (tcb s t) - 1, task_state := st\<rparr>"
    show "rdy_ok ((tasks s)(t := ?k)) (g_ready_queue s)"
      using st by (intro rdy_ok_frame [OF p(1)]) (auto simp: rdy_view_def)
    show "tick_ok ((tasks s)(t := ?k)) (g_tick_head s) (g_tick_count s)"
      using st by (intro tick_ok_frame [OF p(3)]) (auto simp: tick_view_def state_classes)
    show "t \<noteq> g_idle_task" using st prio_okD(1) [OF p(4)] by auto
    show "tick_match ?k \<noteq> g_tick_count s" if "tick_head ?k" using that d(3) by (simp add: tick_pos_def)
    show "task_state ?k = K_RDY" if "0 < g_sched_lock s" "t = g_active_task s"
      using that st d(4) by (auto simp: lock_ok_def)
  qed (use st in \<open>auto simp: pend_view_def state_classes upd_task_def\<close>)
  have ready: "kgood {} (rdy_add t (upd_task t (\<lambda>k. k\<lparr>task_state := K_RDY\<rparr>) ?s))"
    if st: "task_state (tcb s t) = K_SUSPENDED"
  proof (rule kgood_make_ready [OF g, where t = t and k = "(tcb s t)\<lparr>suspend_count := suspend_count (tcb s t) - 1, task_state := K_RDY\<rparr>"])
    have nt: "\<not> tick_head (tcb s t)" using tick_okD(3) [OF p(3), of t] st by (auto simp: state_classes)
    then have "t \<notin> set (g_tick_head s)" using tick_okD(2) [OF p(3)] by simp
    then show "rdy_add t (upd_task t (\<lambda>k. k\<lparr>task_state := K_RDY\<rparr>) ?s) =
      s\<lparr>tasks := (tasks s)(t := (tcb s t)\<lparr>suspend_count := suspend_count (tcb s t) - 1, task_state := K_RDY\<rparr>),
      g_ready_queue := ready_list_add (prio (tcb s (g_active_task s))) (g_ready_queue s) t (prio (tcb s t)),
      g_tick_head := remove1 t (g_tick_head s)\<rparr>"
      by (auto simp: rdy_add_def upd_task_def remove1_idem intro!: kstate.equality)
    show "\<not> tick_head ((tcb s t)\<lparr>suspend_count := suspend_count (tcb s t) - 1, task_state := K_RDY\<rparr>)" using nt by simp
  qed (use st in \<open>auto simp: state_classes\<close>)
  have c: "suspend_count (tcb ?s t) = suspend_count (tcb s t) - 1" by (simp add: upd_task_def)
  show ?thesis
    using i keep wake ready
    by (auto simp: task_resume_def Let_def c intro!: kinv_core_sched split: task_stat.splits)
qed

lemma kinv_krhino_task_resume: "kinv s \<Longrightarrow> kinv (snd (krhino_task_resume task s))"
  by (auto simp: krhino_task_resume_def kinv_task_resume split: option.splits)

section \<open>Changing the base priority\<close>

lemma kgood_pri_frame: "kbase s' \<Longrightarrow> kmside s' \<Longrightarrow> pri_frame s s' \<Longrightarrow> krest X s \<Longrightarrow>
    tick_pos (tasks s) (g_tick_count s) \<Longrightarrow> kgood X s'"
  using krest_pri_frame [of s s' X] tick_pos_pri_frame [of s s' "g_tick_count s"] pri_frameD(10) [of s s']
  by (simp add: kgood_kcore kcore_def)

text \<open>Setting \<open>b_prio\<close> leaves only the priority of \<open>t\<close> to be recomputed.\<close>

lemma set_b_prio:
  assumes g: "kgood X s" and t: "t \<noteq> g_idle_task" "is_live (tcb s t)" and pri: "pri < 61"
  defines "s1 \<equiv> upd_task t (\<lambda>k. k\<lparr>b_prio := pri\<rparr>) s"
  shows "kbase s1" and "kmside_but {t} s1" and "krest X s1" and "tick_pos (tasks s1) (g_tick_count s1)"
proof -
  note p = kgood_parts [OF g] and d = kgoodD [OF g]
  let ?k = "(tcb s t)\<lparr>b_prio := pri\<rparr>"
  have T: "tasks s1 = (tasks s)(t := ?k)" by (simp add: s1_def upd_task_def)
  have cls: "is_live ?k = is_live (tcb s t)" "is_pend ?k = is_pend (tcb s t)" "is_sleep ?k = is_sleep (tcb s t)"
    "is_susp ?k = is_susp (tcb s t)" by (simp_all add: state_classes)
  have "rdy_ok (tasks s1) (g_ready_queue s)" unfolding T by (rule rdy_ok_frame [OF p(1)]) (simp add: rdy_view_def)
  moreover have "blk_ok (tasks s1) (blks s)" unfolding T by (rule blk_ok_frame [OF p(2)]) (simp add: pend_view_def cls)
  moreover have "tick_ok (tasks s1) (g_tick_head s) (g_tick_count s)"
    unfolding T by (rule tick_ok_frame [OF p(3)]) (simp add: tick_view_def cls)
  moreover have "prio_ok (tasks s1)"
    unfolding T using prio_okD(3,5) [OF p(4), of t] t pri by (intro prio_ok_upd [OF p(4)]) (simp_all add: cls)
  ultimately show "kbase s1" using d(1) by (simp add: kbase_def s1_def upd_task_def)
  have w: "waits_mutex (tasks s1) u c = waits_mutex (tasks s) u c" for u c
    unfolding T by (intro waits_mutex_same) (simp_all add: cls)
  have "mtx_ok (tasks s1) (blks s) (mutexes s)" unfolding T by (rule mtx_ok_frame [OF p(5)]) (simp_all add: cls)
  moreover have "waits_for (tasks s1) (blks s) (mutexes s) = waits_for (tasks s) (blks s) (mutexes s)"
    by (simp add: waits_for_def w)
  moreover have "pi_val (tasks s1) (blks s) (mutexes s) u q = pi_val (tasks s) (blks s) (mutexes s) u q" if "u \<noteq> t" for u q
    using that w by (intro pi_val_cong) (auto simp: T)
  ultimately show "kmside_but {t} s1"
    using p(6,7) unfolding mside_but_def pi_ok_def by (auto simp: s1_def upd_task_def)
  have "obj_ok s1 b" if "b \<notin> X" for b
    using d(5) [OF that] by (rule obj_ok_frame) (simp_all add: s1_def upd_task_def)
  then show "krest X s1" using kgood_krest [OF g] by (auto simp: krest_def lock_ok_def s1_def upd_task_def)
  show "tick_pos (tasks s1) (g_tick_count s1)" using d(3) by (simp add: tick_pos_def s1_def upd_task_def)
qed

lemma kinv_task_pri_change:
  assumes i: "kinv s" and ns: "\<And>t. task = Some t \<Longrightarrow> task_state (tcb s t) \<noteq> K_SEED"
  shows "kinv (snd (snd (krhino_task_pri_change task pri old_ok s)))"
proof (cases task)
  case (Some t)
  show ?thesis
  proof (cases "old_ok \<and> prio (tcb s t) < 61 \<and> pri < 61 \<and> task_state (tcb s t) \<noteq> K_DELETED \<and> g_intrpt_nested_level s = 0")
    case False
    then show ?thesis using i Some by (auto simp: krhino_task_pri_change_def word_gt_0)
  next
    case True
    note g = kinvD(1) [OF i]
    note p = kgood_parts [OF g]
    have live: "is_live (tcb s t)" using True ns Some by (auto simp: is_live_def)
    have idle: "t \<noteq> g_idle_task" using True prio_okD(2) [OF p(4)] by auto
    let ?s1 = "upd_task t (\<lambda>k. k\<lparr>b_prio := pri\<rparr>) s"
    have "pri < 61" using True by blast
    note s1 = set_b_prio [OF g idle live this]
    obtain q where q: "mutex_pri_limit s t pri = Some q"
        "pi_of ((tasks s)(t := (tcb s t)\<lparr>b_prio := pri\<rparr>)) t {x. holds_mutex (blks s) (mutexes s) t x} q"
      using mutex_pri_limit_ok [OF p(2,5) live] by blast
    have "pi_val (tasks ?s1) (blks ?s1) (mutexes ?s1) t q"
      unfolding pi_val_pi_of using q(2) by (simp add: upd_task_def)
    moreover have "is_live (tcb ?s1 t)" using live by (simp add: upd_task_def is_live_def)
    ultimately obtain s2 where s2: "task_pri_change t q ?s1 = Some (RHINO_SUCCESS, s2)" "kbase s2" "kmside s2" "pri_frame ?s1 s2"
      using task_pri_change_ok [OF pri_pre_release [OF s1(1,2) _ idle]] by (auto simp: msidex_empty)
    have "kinv (core_sched s2)" by (rule kinv_core_sched [OF kgood_pri_frame [OF s2(2-4) s1(3,4)]])
    then show ?thesis using True Some q(1) s2(1) by (simp add: krhino_task_pri_change_def Let_def)
  qed
qed (simp add: krhino_task_pri_change_def i)

section \<open>Aborting a wait\<close>

lemma unpend_rdy_eq:
  assumes "tick_ok (tasks s) (g_tick_head s) (g_tick_count s)"
  shows "upd_task t (\<lambda>k. k\<lparr>task_state := K_RDY, blk_state := st\<rparr>) (rdy_add t (task_list_rm t (tick_list_rm t s))) =
      unpend K_RDY st t s"
    and "upd_task t (\<lambda>k. k\<lparr>blk_state := st, task_state := K_RDY\<rparr>) (rdy_add t (task_list_rm t (tick_list_rm t s))) =
      unpend K_RDY st t s"
    and "upd_task t (\<lambda>k. k\<lparr>blk_state := st, task_state := K_SUSPENDED\<rparr>) (task_list_rm t (tick_list_rm t s)) =
      unpend K_SUSPENDED st t s"
    and "upd_task t (\<lambda>k. k\<lparr>task_state := K_DELETED\<rparr>) (task_list_rm t (tick_list_rm t s)) =
      unpend K_DELETED (blk_state (tcb s t)) t s"
  using tick_head_idem [OF assms, of t]
  by (auto simp: unpend_def unpend_tcb_def tick_list_rm_def task_list_rm_def rdy_add_def upd_task_def Let_def
      intro!: kstate.equality split: if_splits)

lemma kgood_unpend:
  assumes g: "kgood X s" and t: "is_pend (tcb s t)" and ns: "ns = K_RDY \<or> ns = K_SUSPENDED \<and> is_susp (tcb s t)"
  shows "kgood X (upd_task t (\<lambda>k. k\<lparr>blk_obj := None\<rparr>) (mutex_task_pri_reset t (unpend ns st t s)))"
proof -
  let ?r = "mutex_task_pri_reset t (unpend ns st t s)"
  have c: "kcore X s" using g by (simp add: kgood_kcore)
  note u = kcore_unpend [OF c t ns, of st]
  have "tick_pos (tasks (unpend ns st t s)) (g_tick_count s)" using tick_pos_unpend [OF kgoodD(3) [OF g]] .
  then have "tick_pos (tasks ?r) (g_tick_count s)" by (rule tick_pos_pri_frame [OF u(2)])
  moreover have "g_tick_count ?r = g_tick_count s" using pri_frameD(10) [OF u(2)] by (simp add: unpend_def)
  ultimately show ?thesis using u(1) by (simp add: kgood_kcore) (simp add: tick_pos_def upd_task_def)
qed

lemma kinv_task_wait_abort:
  assumes i: "kinv s"
  shows "kinv (snd (krhino_task_wait_abort task s))"
proof (cases task)
  case (Some t)
  note g = kinvD(1) [OF i]
  note p = kgood_parts [OF g]
  have pend: "kinv (core_sched (upd_task t (\<lambda>k. k\<lparr>blk_obj := None\<rparr>) (mutex_task_pri_reset t
      (upd_task t (\<lambda>k. k\<lparr>task_state := K_RDY, blk_state := BLK_ABORT\<rparr>) (rdy_add t (task_list_rm t (tick_list_rm t s)))))))"
    if "is_pend (tcb s t)"
    unfolding unpend_rdy_eq(1) [OF p(3)] using that by (intro kinv_core_sched kgood_unpend [OF g]) simp_all
  have sleep: "kinv (core_sched (upd_task t (\<lambda>k. k\<lparr>task_state := K_RDY, blk_state := BLK_ABORT\<rparr>) (rdy_add t (tick_list_rm t s))))"
    if st: "is_sleep (tcb s t)"
  proof (rule kinv_core_sched, rule kgood_make_ready [OF g, where t = t and
        k = "(tcb s t)\<lparr>task_state := K_RDY, blk_state := BLK_ABORT, tick_head := False\<rparr>"])
    have "tick_head (tcb s t)" using tick_okD(4) [OF p(3) st] .
    then show "upd_task t (\<lambda>k. k\<lparr>task_state := K_RDY, blk_state := BLK_ABORT\<rparr>) (rdy_add t (tick_list_rm t s)) =
      s\<lparr>tasks := (tasks s)(t := (tcb s t)\<lparr>task_state := K_RDY, blk_state := BLK_ABORT, tick_head := False\<rparr>),
        g_ready_queue := ready_list_add (prio (tcb s (g_active_task s))) (g_ready_queue s) t (prio (tcb s t)),
        g_tick_head := remove1 t (g_tick_head s)\<rparr>"
      by (auto simp: rdy_add_def upd_task_def tick_list_rm_def Let_def intro!: kstate.equality)
  qed (use st in \<open>auto simp: state_classes\<close>)
  have susp: "kinv (core_sched (rdy_add t (upd_task t (\<lambda>k. k\<lparr>task_state := K_RDY\<rparr>) s)))"
    if st: "task_state (tcb s t) = K_SUSPENDED"
  proof (rule kinv_core_sched, rule kgood_make_ready [OF g, where t = t and k = "(tcb s t)\<lparr>task_state := K_RDY\<rparr>"])
    have nt: "\<not> tick_head (tcb s t)" using tick_okD(3) [OF p(3), of t] st by (auto simp: state_classes)
    then have "t \<notin> set (g_tick_head s)" using tick_okD(2) [OF p(3)] by simp
    then show "rdy_add t (upd_task t (\<lambda>k. k\<lparr>task_state := K_RDY\<rparr>) s) =
      s\<lparr>tasks := (tasks s)(t := (tcb s t)\<lparr>task_state := K_RDY\<rparr>),
        g_ready_queue := ready_list_add (prio (tcb s (g_active_task s))) (g_ready_queue s) t (prio (tcb s t)),
        g_tick_head := remove1 t (g_tick_head s)\<rparr>"
      by (auto simp: rdy_add_def upd_task_def remove1_idem intro!: kstate.equality)
    show "\<not> tick_head ((tcb s t)\<lparr>task_state := K_RDY\<rparr>)" using nt by simp
  qed (use st in \<open>auto simp: state_classes\<close>)
  show ?thesis
    using i Some pend sleep susp kinv_core_sched [OF g]
    by (auto simp: krhino_task_wait_abort_def Let_def state_classes split: task_stat.splits)
qed (simp add: krhino_task_wait_abort_def i)

section \<open>Fields the scheduler does not read\<close>

lemma kinv_task_fields:
  assumes i: "kinv s"
  shows "kinv (snd (krhino_task_time_slice_set task n s))" and "kinv (snd (krhino_sched_policy_set task policy s))"
    and "kinv (snd (krhino_task_info_set task idx info s))"
proof -
  have u: "kinv (upd_task t f s)" if j: "kinv s" and f: "\<And>k. f k = k\<lparr>user_info := user_info (f k),
      time_total := time_total (f k), t_slice := t_slice (f k), sched_policy := sched_policy (f k)\<rparr>" for s f t
  proof (rule kinv_upd_task [OF j])
    show "same_core (tcb s t) (f (tcb s t))"
      using prio_okD(5) [OF kgood_parts(4) [OF kinvD(1) [OF j]], of t]
      by (subst f) (simp add: same_core_def)
  qed
  show "kinv (snd (krhino_task_time_slice_set task n s))"
    using i by (auto simp: krhino_task_time_slice_set_def Let_def intro!: u split: option.splits)
  show "kinv (snd (krhino_sched_policy_set task policy s))"
    using i by (auto simp: krhino_sched_policy_set_def intro!: u split: option.splits)
  show "kinv (snd (krhino_task_info_set task idx info s))"
    using i by (auto simp: krhino_task_info_set_def intro!: u split: option.splits)
qed

end
