(* ===== verification/Sem_Safe.thy ===== *)
theory Sem_Safe
  imports Kernel_Good
begin

text \<open>Every semaphore operation keeps the kernel invariant; what give and take do on each branch.\<close>

lemma kinv_sem_create:
  assumes i: "kinv s" and f: "free_obj s sem"
  shows "kinv (snd (sem_create sem name_ok cnt a s))"
proof (cases sem)
  case (Some b)
  let ?s = "snd (sem_create (Some b) True cnt a s)"
  have "kgood {b} ?s"
    using free_obj_empty [OF kinvD(1) [OF i], of b] f Some
    by (intro kgood_new_obj [OF kinvD(1) [OF i], of b]) (auto simp: sem_create_def upd_defs Let_def is_mutex_def)
  then have "kgood {} ?s"
    by (rule kgood_finish) (simp add: obj_ok_def sem_create_def upd_defs Let_def)
  moreover have "run_ok ?s"
    by (rule run_ok_cong [OF kinvD(2) [OF i]]) (simp_all add: sem_create_def upd_defs Let_def)
  ultimately have "kinv ?s" by (simp add: kinv_def)
  then show ?thesis using i Some by (cases name_ok) (simp_all add: sem_create_def)
qed (simp add: sem_create_def i)

lemma kinv_sem_del:
  assumes i: "kinv s"
  shows "kinv (snd (sem_del a sem s))"
proof (cases sem)
  case (Some b)
  let ?d = "drain pend_task_rm b (upd_blk b (\<lambda>o'. o'\<lparr>obj_type := RHINO_OBJ_TYPE_NONE\<rparr>) s)"
  let ?s = "?d\<lparr>g_kobj_list := (g_kobj_list ?d)\<lparr>sem_head := remove1 b (sem_head (g_kobj_list ?d))\<rparr>\<rparr>"
  have "kinv (core_sched ?s)" if "obj_type (blks s b) = RHINO_SEM_OBJ_TYPE"
  proof (rule kinv_core_sched)
    have "kgood {} ?d" using that by (intro kgood_delete [OF kinvD(1) [OF i]]) (simp add: is_mutex_def)
    then show "kgood {} ?s" by (rule kgood_cong) simp_all
  qed
  then show ?thesis using i Some by (simp add: sem_del_def Let_def)
qed (simp add: sem_del_def i)

lemma kinv_sem_dyn_create:
  "kinv s \<Longrightarrow> free_obj s mem \<Longrightarrow> kinv (snd (snd (krhino_sem_dyn_create p n c mem s)))"
  using kinv_sem_create [of s mem n c K_OBJ_DYN_ALLOC]
  by (auto simp: krhino_sem_dyn_create_def kinv_mm_free split: option.splits prod.splits)

lemma kinv_sem_dyn_del: "kinv s \<Longrightarrow> kinv (snd (krhino_sem_dyn_del sem s))"
  using kinv_sem_del [of s K_OBJ_DYN_ALLOC sem]
  by (auto simp: krhino_sem_dyn_del_def kinv_mm_free split: option.splits prod.splits)

lemma kinv_upd_sem:
  assumes i: "kinv s" and ok: "obj_ok (upd_sem b f s) b"
  shows "kinv (upd_sem b f s)"
proof -
  note d = kgoodD [OF kinvD(1) [OF i]]
  have "obj_ok (upd_sem b f s) c" for c
    using ok d(5) [of c] by (cases "c = b") (auto intro!: obj_ok_frame [of s c] simp: upd_sem_def)
  moreover have "kbase (upd_sem b f s)" using d(1) by (simp add: kbase_def upd_sem_def)
  moreover have "run_ok (upd_sem b f s)"
    by (rule run_ok_cong [OF kinvD(2) [OF i]]) (simp_all add: upd_sem_def)
  ultimately show ?thesis using d by (simp add: kinv_def kgood_def lock_ok_def upd_sem_def)
qed

lemma kinv_sem_give:
  assumes i: "kinv s"
  shows "kinv (snd (sem_give b all s))"
proof (cases "obj_type (blks s b) = RHINO_SEM_OBJ_TYPE")
  case ty: True
  note g = kinvD(1) [OF i]
  have nm: "\<not> is_mutex (blks s b)" using ty by (simp add: is_mutex_def)
  show ?thesis
  proof (cases "blk_list (blks s b)")
    case Nil
    let ?c = "upd_sem b (\<lambda>x. x\<lparr>count := count x + 1\<rparr>) s"
    have 1: "kinv ?c" using i Nil by (rule_tac kinv_upd_sem) (simp_all add: obj_ok_def upd_sem_def ty)
    have "kinv (upd_sem b (\<lambda>x. x\<lparr>peak_count := count x\<rparr>) ?c)"
      using Nil by (intro kinv_upd_sem [OF 1]) (simp add: obj_ok_def upd_sem_def ty)
    with 1 i show ?thesis using Nil ty by (simp add: sem_give_def Let_def)
  next
    case (Cons t ts)
    have t: "is_pend (tcb s t)" "blk_obj (tcb s t) = Some b"
      using blk_okD(2) [OF kgood_parts(2) [OF g], of t b] Cons by auto
    have "kgood {} (pend_task_wakeup t s)"
      using kgood_wake [OF g t nm, of BLK_FINISH] pend_task_wakeup_eq(1) [OF kgood_parts(3) [OF g] t(1)] by simp
    moreover have "kgood {} (drain pend_task_wakeup b s)" using kgood_drain_wake [OF g nm] by blast
    ultimately show ?thesis using Cons ty by (simp add: sem_give_def Let_def kinv_core_sched)
  qed
qed (simp add: sem_give_def i)

lemma kinv_krhino_sem_give:
  "kinv s \<Longrightarrow> kinv (snd (krhino_sem_give sem s))" "kinv s \<Longrightarrow> kinv (snd (krhino_sem_give_all sem s))"
  by (auto simp: krhino_sem_give_def krhino_sem_give_all_def kinv_sem_give split: option.splits)

lemma kinv_sem_take:
  assumes i: "kinv s" and a: "may_block s"
  shows "kinv (snd (krhino_sem_take sem ticks s))"
proof (cases sem)
  case (Some b)
  have "kinv (upd_sem b (\<lambda>x. x\<lparr>count := count x - 1\<rparr>) s)"
    if "count (sems s b) > 0" "obj_type (blks s b) = RHINO_SEM_OBJ_TYPE"
    using that kgoodD(5) [OF kinvD(1) [OF i], of b] by (intro kinv_upd_sem [OF i]) (simp add: obj_ok_def upd_sem_def)
  moreover have "kinv (core_sched (pend_to_blk_obj b (g_active_task s) ticks s))"
    if "obj_type (blks s b) = RHINO_SEM_OBJ_TYPE" "g_intrpt_nested_level s = 0" "g_sched_lock s = 0" "\<not> count (sems s b) > 0"
    using that by (intro kinv_block_on [OF i _ _ a]) (simp_all add: is_mutex_def obj_ok_def block_def Let_def)
  ultimately show ?thesis
    using Some i by (auto simp: krhino_sem_take_def word_gt_0)
qed (simp add: krhino_sem_take_def i)

lemma kinv_sem_count_set:
  assumes i: "kinv s"
  shows "kinv (snd (krhino_sem_count_set sem c s))"
proof (cases sem)
  case (Some b)
  let ?c = "upd_sem b (\<lambda>x. x\<lparr>count := c\<rparr>) s"
  have "kinv ?c \<and> kinv (upd_sem b (\<lambda>x. x\<lparr>peak_count := count x\<rparr>) ?c)"
    if ty: "obj_type (blks s b) = RHINO_SEM_OBJ_TYPE" and w: "\<not> (\<not> count (sems s b) > 0 \<and> blk_list (blks s b) \<noteq> [])"
  proof -
    have e: "blk_list (blks s b) = []"
      using kgoodD(5) [OF kinvD(1) [OF i], of b] ty w by (auto simp: obj_ok_def)
    have 1: "kinv ?c" using e by (intro kinv_upd_sem [OF i]) (simp add: obj_ok_def upd_sem_def ty)
    moreover have "kinv (upd_sem b (\<lambda>x. x\<lparr>peak_count := count x\<rparr>) ?c)"
      using e by (intro kinv_upd_sem [OF 1]) (simp add: obj_ok_def upd_sem_def ty)
    ultimately show ?thesis by blast
  qed
  then show ?thesis using Some i by (auto simp: krhino_sem_count_set_def Let_def)
qed (simp add: krhino_sem_count_set_def i)

end
