(* ===== verification/Task_Del.thy ===== *)
theory Task_Del
  imports Task_Safe Sem_Safe
begin

text \<open>
  Deleting a task: its mutexes go to their first waiters or become free, it leaves every list, and
  the owner of the mutex it was waiting for gets its priority recomputed.
\<close>

section \<open>Freeing the mutexes of a task\<close>

text \<open>
  The code does not keep the chain of the dying task up to date and does not lower its priority.  The
  invariant holds for a view of the state in which its chain is the part not yet freed and its
  base priority is its present priority.
\<close>

definition dying :: "tid \<Rightarrow> oid option \<Rightarrow> kstate \<Rightarrow> kstate" where
  "dying t p s = upd_task t (\<lambda>k. k\<lparr>b_prio := prio k, mutex_list := p\<rparr>) s"

lemma dying_simps [simp]:
  "mutexes (dying t p s) = mutexes s" "blks (dying t p s) = blks s" "g_tick_count (dying t p s) = g_tick_count s"
  "g_tick_head (dying t p s) = g_tick_head s" "g_ready_queue (dying t p s) = g_ready_queue s"
  "prio (tcb (dying t p s) u) = prio (tcb s u)" "task_state (tcb (dying t p s) u) = task_state (tcb s u)"
  "is_pend (tcb (dying t p s) u) = is_pend (tcb s u)" "is_live (tcb (dying t p s) u) = is_live (tcb s u)"
  "is_sleep (tcb (dying t p s) u) = is_sleep (tcb s u)" "is_susp (tcb (dying t p s) u) = is_susp (tcb s u)"
  "blk_obj (tcb (dying t p s) u) = blk_obj (tcb s u)" "tick_head (tcb (dying t p s) u) = tick_head (tcb s u)"
  "tick_match (tcb (dying t p s) u) = tick_match (tcb s u)" "suspend_count (tcb (dying t p s) u) = suspend_count (tcb s u)"
  "mutex_list (tcb (dying t p s) t) = p" "b_prio (tcb (dying t p s) t) = prio (tcb s t)" "fault (dying t p s) = fault s"
  "u \<noteq> t \<Longrightarrow> tcb (dying t p s) u = tcb s u" "g_active_task (dying t p s) = g_active_task s"
  by (simp_all add: dying_def upd_task_def state_classes)

lemma kbase_dying:
  assumes b: "kbase (dying t p s)" and "b_prio (tcb s t) < 61"
  shows "kbase s"
proof -
  have "rdy_view \<circ> tasks (dying t p s) = rdy_view \<circ> tasks s" by (auto simp: rdy_view_def)
  moreover have "b_prio (tcb s u) < 61" if "is_live (tcb s u)" "u \<noteq> g_idle_task" for u
    using prio_okD(4) [OF kbaseD(4) [OF b], of u] that assms(2) by (cases "u = t") auto
  ultimately show ?thesis
    using b by (auto simp: kbase_def rdy_ok_def blk_ok_def tick_ok_def prio_ok_def)
qed

lemma krest_dying: "krest X (dying t p s) = krest X s"
proof -
  have "obj_ok (dying t p s) b = obj_ok s b" for b
    by (auto simp: obj_ok_def dying_def upd_task_def split: kobj_type.split)
  then show ?thesis by (auto simp: krest_def lock_ok_def dying_def upd_task_def)
qed

lemma tick_pos_dying: "tick_pos (tasks (dying t p s)) c = tick_pos (tasks s) c"
  by (simp add: tick_pos_def)

lemma kgood_dying:
  assumes g: "kgood X s" and t: "t \<noteq> g_idle_task" "is_live (tcb s t)"
  shows "kgood X (dying t (mutex_list (tcb s t)) s)"
proof -
  let ?s = "upd_task t (\<lambda>k. k\<lparr>b_prio := prio (tcb s t)\<rparr>) s"
  have eq: "dying t (mutex_list (tcb s t)) s = ?s" by (simp add: dying_def upd_task_def)
  have "prio (tcb s t) < 61" using prio_okD(3) [OF kgood_parts(4) [OF g] t(2,1)] .
  note b = set_b_prio [OF g t this]
  have "pi_val (tasks s) (blks s) (mutexes s) t (prio (tcb s t))"
    using kgood_parts(6) [OF g] t(2) by (simp add: pi_ok_def)
  then have "pi_val (tasks ?s) (blks ?s) (mutexes ?s) t (prio (tcb ?s t))"
    by (auto simp: pi_val_def upd_task_def waits_mutex_def state_classes)
  then have "kmside ?s" using mside_but_exact [of t "{}"] b(2) by (simp add: mside_but_empty)
  then show ?thesis using b unfolding eq by (simp add: kgood_kcore kcore_def)
qed

lemma kgood_release_head:
  assumes g: "kgood {} (dying t (Some m) s)" and live: "is_live (tcb s t)"
  shows "kgood {m} (hidden m (dying t (mutex_next (mutexes s m)) s))" and "holds_mutex (blks s) (mutexes s) t m"
proof -
  let ?v = "dying t (Some m) s" and ?w = "dying t (mutex_next (mutexes s m)) s"
  note p = kgood_parts [OF g]
  have lv: "is_live (tcb ?v t)" using live by simp
  obtain ms where ms: "mchain (mutexes s) (Some m) ms" "distinct ms" "\<And>c. c \<in> set ms \<longleftrightarrow> holds_mutex (blks s) (mutexes s) t c"
    using mtx_okD(1) [OF p(5) lv] by auto
  then obtain ys where ys: "ms = m # ys" "mchain (mutexes s) (mutex_next (mutexes s m)) ys" by (cases ms) auto
  show h: "holds_mutex (blks s) (mutexes s) t m" using ms(3) [of m] ys by simp
  have side: "mside_but {} (tasks ?v) (blks s) (mutexes s)" using kgoodD(2) [OF g] by (simp add: mside_but_empty)
  have "mside_but {t} (tasks ?w) ((blks s)(m := none_obj (blks s m))) (mutexes s)"
  proof (rule mside_but_release [where ms = ys, OF side lv])
    show "mchain (mutexes s) (mutex_list (tcb ?w t)) ys" using ys by simp
    show "distinct ys" using ms ys by simp
    show "c \<in> set ys \<longleftrightarrow> c \<noteq> m \<and> holds_mutex (blks s) (mutexes s) t c" for c using ms(2) ms(3) [of c] ys(1) by auto
    show "u = t" if "holds_mutex (blks s) (mutexes s) u m" for u using that h by (simp add: holds_mutex_def)
    show "b_prio (tcb ?w u) = b_prio (tcb ?v u)" for u by (cases "u = t") simp_all
  qed simp_all
  moreover have "pi_val (tasks ?w) ((blks s)(m := none_obj (blks s m))) (mutexes s) t (prio (tcb ?w t))"
  proof -
    have "pi_val (tasks ?v) (blks s) (mutexes s) t (prio (tcb s t))" using p(6) lv by (simp add: pi_ok_def)
    then show ?thesis by (auto simp: pi_val_def waits_mutex_def holds_mutex_def)
  qed
  ultimately have "kmside (hidden m ?w)" using mside_but_exact [of t "{}"] by (simp add: mside_but_empty)
  moreover have "kbase ?w"
  proof -
    have "rdy_view \<circ> tasks ?w = rdy_view \<circ> tasks ?v" by (auto simp: rdy_view_def)
    moreover have "b_prio (tcb ?w u) = b_prio (tcb ?v u)" for u by (cases "u = t") simp_all
    ultimately show ?thesis
      using kgoodD(1) [OF g] by (simp add: kbase_def rdy_ok_def blk_ok_def tick_ok_def prio_ok_def)
  qed
  then have "kbase (hidden m ?w)" by (rule kbase_hidden)
  moreover have "krest {m} s" using kgood_krest [OF g] krest_mono [of "{}" s "{m}"] by (simp add: krest_dying)
  then have "krest {m} ?w" by (simp add: krest_dying)
  then have "krest {m} (hidden m ?w)" by (rule krest_others) (simp_all, simp_all add: hidden_def)
  moreover have "tick_pos (tasks (hidden m ?w)) (g_tick_count (hidden m ?w))"
    using kgoodD(3) [OF g] by (simp add: tick_pos_dying)
  ultimately show "kgood {m} (hidden m ?w)" by (simp add: kgood_kcore kcore_def)
qed

lemma dying_handover:
  assumes "tick_ok (tasks s) (g_tick_head s) (g_tick_count s)" and "is_pend (tcb s w)" and "w \<noteq> t"
  shows "mutex_own m w (pend_task_wakeup w (dying t p s)) = dying t p (mutex_own m w (pend_task_wakeup w s))"
proof -
  have "tick_ok (tasks (dying t p s)) (g_tick_head (dying t p s)) (g_tick_count (dying t p s))"
    using assms(1) by (simp add: tick_ok_def)
  then have "pend_task_wakeup w (dying t p s) = wake BLK_FINISH w (dying t p s)"
    using pend_task_wakeup_eq(1) [of "dying t p s" w] assms(2) by simp
  moreover have "pend_task_wakeup w s = wake BLK_FINISH w s" using pend_task_wakeup_eq(1) [OF assms(1,2)] .
  moreover have "wake BLK_FINISH w (dying t p s) = dying t p (wake BLK_FINISH w s)"
    using assms(3) by (auto simp: wake_def dying_def upd_task_def intro!: kstate.equality)
  ultimately show ?thesis
    using assms(3) by (auto simp: mutex_own_def dying_def upd_task_def upd_mutex_def Let_def intro!: kstate.equality)
qed

lemma upd_mutex_id: "upd_mutex m (\<lambda>x. x) s = s"
  by (simp add: upd_mutex_def)

lemma task_mutex_free_loop_ok:
  assumes "kgood {} (dying t p s)" and "is_live (tcb s t)" and "mchain (mutexes s) p ms"
  shows "\<exists>s'. task_mutex_free_loop p s = Some s' \<and> kgood {} (dying t None s') \<and> tcb s' t = tcb s t"
  using assms
proof (induction ms arbitrary: p s)
  case Nil
  then show ?case by (subst task_mutex_free_loop.simps) simp
next
  case (Cons m ms)
  let ?n = "mutex_next (mutexes s m)"
  have p: "p = Some m" "mchain (mutexes s) ?n ms" using Cons.prems(3) by auto
  have g: "kgood {} (dying t (Some m) s)" using Cons.prems(1) p by simp
  note r = kgood_release_head [OF g Cons.prems(2)]
  have mx: "is_mutex (blks s m)" using r(2) by (simp add: holds_mutex_def)
  have pol: "blk_policy (blks s m) = BLK_POLICY_PRI" using mtx_okD(4) [OF kgood_parts(5) [OF g], of m] mx by simp
  have nin: "m \<notin> set ms"
  proof -
    obtain ns where "mchain (mutexes s) (Some m) ns" "distinct ns"
      using mtx_okD(1) [OF kgood_parts(5) [OF g], of t] Cons.prems(2) by auto
    then show ?thesis using mchain_unique [of "mutexes s" "Some m" ns "m # ms"] p(2) by auto
  qed
  show ?case
  proof (cases "blk_list (blks s m)")
    case Nil
    let ?s = "upd_mutex m (\<lambda>x. x\<lparr>mutex_task := None\<rparr>) s"
    have eq: "put_mutex m (blks s m) ((mutexes s m)\<lparr>mutex_task := None\<rparr>) (hidden m (dying t ?n s)) = dying t ?n ?s"
      by (auto simp: put_mutex_def hidden_def dying_def upd_task_def upd_mutex_def intro!: kstate.equality)
    have "kgood {} (put_mutex m (blks s m) ((mutexes s m)\<lparr>mutex_task := None\<rparr>) (hidden m (dying t ?n s)))"
      using mx pol Nil by (intro kgood_free [OF r(1)]) simp_all
    then have g1: "kgood {} (dying t ?n ?s)" unfolding eq .
    have tt: "tcb ?s t = tcb s t" by (simp add: upd_mutex_def)
    then have "is_live (tcb ?s t)" using Cons.prems(2) by simp
    moreover have "mchain (mutexes ?s) ?n ms" by (rule mchain_cong [OF p(2)]) (simp add: upd_mutex_def)
    ultimately obtain s' where "task_mutex_free_loop ?n ?s = Some s'" "kgood {} (dying t None s')" "tcb s' t = tcb ?s t"
      using Cons.IH [OF g1] by blast
    then show ?thesis using tt Nil unfolding p(1) by (subst task_mutex_free_loop.simps) (simp add: Let_def)
  next
    case (Cons w ws)
    let ?s = "mutex_own m w (pend_task_wakeup w s)"
    have w: "is_pend (tcb s w)" "blk_obj (tcb s w) = Some m"
      using blk_okD(2) [OF kgood_parts(2) [OF g], of w m] Cons by auto
    have "waits_mutex (tasks (dying t (Some m) s)) w m" using w by (simp add: waits_mutex_def)
    moreover have "mside_but {} (tasks (dying t (Some m) s)) (blks s) (mutexes s)"
      using kgoodD(2) [OF g] by (simp add: mside_but_empty)
    ultimately have wt: "w \<noteq> t" using waits_not_own r(2) by blast
    have tk: "tick_ok (tasks s) (g_tick_head s) (g_tick_count s)"
      using kgood_parts(3) [OF g] by (simp add: tick_ok_def)
    have "kgood {} (upd_mutex m (\<lambda>x. x) (mutex_own m w (pend_task_wakeup w (dying t ?n s))))"
      by (rule kgood_handover [OF r(1)]) (use mx pol Cons in simp_all)
    then have g1: "kgood {} (dying t ?n ?s)"
      by (simp add: dying_handover [OF tk w(1) wt] upd_mutex_id)
    have eq: "pend_task_wakeup w s = wake BLK_FINISH w s" using pend_task_wakeup_eq(1) [OF tk w(1)] .
    have tt: "tcb ?s t = tcb s t"
      using wt by (simp add: eq mutex_own_def wake_def upd_task_def upd_mutex_def Let_def)
    then have "is_live (tcb ?s t)" using Cons.prems(2) by simp
    moreover have "mchain (mutexes ?s) ?n ms"
      by (rule mchain_cong [OF p(2)]) (use nin in \<open>auto simp: eq mutex_own_def wake_def upd_task_def upd_mutex_def Let_def\<close>)
    ultimately obtain s' where "task_mutex_free_loop ?n ?s = Some s'" "kgood {} (dying t None s')" "tcb s' t = tcb ?s t"
      using Cons.IH [OF g1] by blast
    then show ?thesis using tt Cons unfolding p(1) by (subst task_mutex_free_loop.simps) (simp add: Let_def)
  qed
qed

lemma task_mutex_free_ok:
  assumes g: "kgood {} s" and t: "t \<noteq> g_idle_task" "is_live (tcb s t)"
  shows "kgood {} (dying t None (task_mutex_free t s))" and "tcb (task_mutex_free t s) t = tcb s t"
proof -
  obtain ms where "mchain (mutexes s) (mutex_list (tcb s t)) ms" using mtx_okD(1) [OF kgood_parts(5) [OF g] t(2)] by blast
  from task_mutex_free_loop_ok [OF kgood_dying [OF g t] t(2) this]
  obtain s' where "task_mutex_free_loop (mutex_list (tcb s t)) s = Some s'" "kgood {} (dying t None s')" "tcb s' t = tcb s t"
    by blast
  then show "kgood {} (dying t None (task_mutex_free t s))" "tcb (task_mutex_free t s) t = tcb s t"
    by (simp_all add: task_mutex_free_def)
qed

section \<open>Leaving the lists\<close>

text \<open>A dead task matters to nobody.\<close>

lemma mside_but_dead_upd:
  assumes m: "mside_but E (T(t := k)) B M" and k: "\<not> is_live k" "\<not> is_live k'"
  shows "mside_but E (T(t := k')) B M"
proof -
  let ?T = "T(t := k)" and ?T' = "T(t := k')"
  note d = mside_butD [OF m]
  have np: "\<not> is_pend k" "\<not> is_pend k'" using k by (auto simp: state_classes)
  have w: "waits_mutex ?T' u c = waits_mutex ?T u c" for u c using np by (auto simp: waits_mutex_def)
  have pr: "waits_mutex ?T u c \<Longrightarrow> prio (?T' u) = prio (?T u)" for u c using np by (auto simp: waits_mutex_def split: if_splits)
  have live: "is_live (?T' u) = is_live (?T u)" for u using k by simp
  have same: "is_live (?T u) \<Longrightarrow> ?T' u = ?T u" for u using k by auto
  have "mtx_ok ?T' B M" using d(1) same unfolding mtx_ok_def live by metis
  moreover have "waits_for ?T' B M = waits_for ?T B M" by (simp add: waits_for_def w)
  moreover have "pi_val ?T' B M u q = pi_val ?T B M u q" if "is_live (?T u)" for u q
    using same [OF that] w pr by (intro pi_val_cong) auto
  ultimately show ?thesis using d(2,3) same unfolding mside_but_def live by metis
qed

lemma mside_kill:
  assumes m: "mside T B M" and t: "\<And>c. \<not> holds_mutex B M t c" "\<not> is_pend (T t)" and k: "\<not> is_live k"
  shows "mside (T(t := k)) B M"
proof -
  let ?T = "T(t := k)"
  have np: "\<not> is_pend k" using k by (auto simp: state_classes)
  have w: "waits_mutex ?T u c = waits_mutex T u c" for u c using np t(2) by (auto simp: waits_mutex_def)
  have pr: "waits_mutex T u c \<Longrightarrow> prio (?T u) = prio (T u)" for u c using t(2) by (auto simp: waits_mutex_def)
  have ho: "u \<noteq> t" if "holds_mutex B M u c" for u c using t(1) that by auto
  have d: "mtx_ok T B M" "pi_ok T B M" "wf (waits_for T B M)" using m by (auto simp: mside_def)
  have "mtx_ok ?T B M" using d(1) k ho unfolding mtx_ok_def by (auto split: if_splits)
  moreover have "waits_for ?T B M = waits_for T B M" by (simp add: waits_for_def w)
  moreover have "pi_val ?T B M u q = pi_val T B M u q" if "u \<noteq> t" for u q
    using that w pr by (intro pi_val_cong) auto
  then have "pi_ok ?T B M" using d(2) k by (auto simp: pi_ok_def)
  ultimately show ?thesis using d(3) by (simp add: mside_def)
qed

lemma dying_holds_nothing:
  assumes g: "kgood X (dying t None s)" and t: "is_live (tcb s t)"
  shows "\<not> holds_mutex (blks s) (mutexes s) t c"
proof -
  obtain ms where "mchain (mutexes s) None ms" "\<forall>m. m \<in> set ms \<longleftrightarrow> holds_mutex (blks s) (mutexes s) t m"
    using mtx_okD(1) [OF kgood_parts(5) [OF g], of t] t by auto
  then show ?thesis by (cases ms) auto
qed

lemma kgood_kill:
  assumes g: "kgood {} (dying t None s)" and t: "t \<noteq> g_idle_task" "is_live (tcb s t)" "\<not> is_pend (tcb s t)" "b_prio (tcb s t) < 61"
    and lk: "t = g_active_task s \<Longrightarrow> g_sched_lock s = 0"
    and k: "k = (tcb s t)\<lparr>task_state := K_DELETED, tick_head := False\<rparr>"
    and q: "rdy_ok ((tasks s)(t := k)) q"
    and s': "s' = s\<lparr>tasks := (tasks s)(t := k), g_ready_queue := q, g_tick_head := remove1 t (g_tick_head s)\<rparr>"
  shows "kgood {} s'"
proof -
  have b: "kbase s" using kbase_dying [OF kgoodD(1) [OF g] t(4)] .
  note d = kbaseD [OF b] and r = krestD [OF kgood_krest [OF g, unfolded krest_dying]]
  have nl: "\<not> is_live k" "\<not> is_pend k" "\<not> is_sleep k" by (simp_all add: k state_classes)
  have "blk_ok ((tasks s)(t := k)) (blks s)"
    using t(3) nl by (intro blk_ok_frame [OF d(2)]) (simp add: pend_view_def)
  moreover have "tick_ok ((tasks s)(t := k)) (remove1 t (g_tick_head s)) (g_tick_count s)"
    using nl by (intro tick_ok_rm [OF d(3)]) (simp_all add: k)
  moreover have "prio_ok ((tasks s)(t := k))" using nl by (intro prio_ok_upd [OF d(4) t(1)]) (auto simp: k state_classes)
  ultimately have "kbase s'" using q d(5) by (simp add: kbase_def s')
  moreover have "mside ((tasks (dying t None s))(t := k)) (blks s) (mutexes s)"
    using kgoodD(2) [OF g] dying_holds_nothing [OF g t(2)] t(3) nl by (intro mside_kill) simp_all
  then have "kmside s'" by (simp add: s' dying_def upd_task_def)
  moreover have "obj_ok s' c" for c
  proof (rule obj_ok_frame [OF r(2), of c])
    show "pend_flags (tcb s' u) = pend_flags (tcb s u) \<and> pend_option (tcb s' u) = pend_option (tcb s u)" for u
      by (simp add: s' k)
  qed (simp_all add: s')
  moreover have "lock_ok s'" using r(1) lk by (auto simp: lock_ok_def s')
  moreover have "tick_pos (tasks s) (g_tick_count s)" using kgoodD(3) [OF g] by (simp add: tick_pos_dying)
  then have "tick_pos (tasks s') (g_tick_count s')" by (simp add: s' k tick_pos_def)
  ultimately show ?thesis using r by (simp add: kgood_def s')
qed

lemma kgood_kill_pend:
  assumes g: "kgood {} (dying t None s)" and t: "t \<noteq> g_idle_task" "is_pend (tcb s t)" "b_prio (tcb s t) < 61"
  shows "kgood {} (mutex_task_pri_reset t (unpend K_DELETED st t s))"
proof -
  let ?v = "dying t None s" and ?u = "unpend K_DELETED st t s"
  have b: "kbase s" using kbase_dying [OF kgoodD(1) [OF g] t(3)] .
  have live: "is_live (tcb s t)" using t(2) by (auto simp: state_classes)
  obtain c where c: "blk_obj (tcb s t) = Some c" using blk_okD(3) [OF kbaseD(2) [OF b] t(2)] by blast
  have ku: "kbase ?u" by (rule kbase_unpend [OF b t(2)]) simp
  have "kmside_but (stale_owner c t ?v) (unpend K_DELETED st t ?v)"
    using dying_holds_nothing [OF g live] c t(2) by (intro unpend_side [OF kgoodD(2) [OF g]]) simp_all
  moreover have "stale_owner c t ?v = stale_owner c t ?u" by (auto simp: stale_owner_def unpend_def holds_mutex_def)
  moreover have "tasks (unpend K_DELETED st t ?v) = (tasks s)(t := unpend_tcb K_DELETED st (tcb ?v t))"
    by (auto simp: unpend_def dying_def upd_task_def)
  ultimately have "mside_but (stale_owner c t ?u) ((tasks s)(t := unpend_tcb K_DELETED st (tcb ?v t))) (blks ?u) (mutexes s)"
    by (simp add: unpend_def)
  then have "mside_but (stale_owner c t ?u) ((tasks s)(t := unpend_tcb K_DELETED st (tcb s t))) (blks ?u) (mutexes s)"
    by (rule mside_but_dead_upd) (simp_all add: is_live_def)
  then have side: "kmside_but (stale_owner c t ?u) ?u" by (simp add: unpend_def)
  have "is_mutex (blks s c) \<Longrightarrow> mutex_task (mutexes s c) \<noteq> None"
    using pend_owner [OF kgoodD(1) [OF g] kgood_parts(5) [OF g], of t c] t(2) c by simp
  then have own: "is_mutex (blks ?u c) \<Longrightarrow> mutex_task (mutexes ?u c) \<noteq> None" by (simp add: unpend_def)
  have "blk_obj (tcb ?u t) = Some c" using c by (simp add: unpend_def)
  then have r: "kbase (mutex_task_pri_reset t ?u)" "kmside (mutex_task_pri_reset t ?u)"
      "pri_frame ?u (mutex_task_pri_reset t ?u)"
    using reset_ok [OF ku _ _ side] own by blast+
  have "krest {} ?u" using krest_unpend [OF b kgood_krest [OF g, unfolded krest_dying] t(2)] .
  moreover have "tick_pos (tasks s) (g_tick_count s)" using kgoodD(3) [OF g] by (simp add: tick_pos_dying)
  then have "tick_pos (tasks ?u) (g_tick_count ?u)" using tick_pos_unpend [of s] by (simp add: unpend_def)
  ultimately show ?thesis by (rule kgood_pri_frame [OF r])
qed

lemma kgood_task_unlink:
  assumes g: "kgood {} (dying t None s)" and t: "t \<noteq> g_idle_task" "is_live (tcb s t)" "b_prio (tcb s t) < 61"
    and lk: "t = g_active_task s \<Longrightarrow> g_sched_lock s = 0"
  shows "\<exists>s'. task_unlink t s = Some s' \<and> kgood {} s'"
proof -
  have b: "kbase s" using kbase_dying [OF kgoodD(1) [OF g] t(3)] .
  note d = kbaseD [OF b]
  let ?k = "(tcb s t)\<lparr>task_state := K_DELETED, tick_head := False\<rparr>"
  let ?s = "\<lambda>q. s\<lparr>tasks := (tasks s)(t := ?k), g_ready_queue := q, g_tick_head := remove1 t (g_tick_head s)\<rparr>"
  have kill: "kgood {} (?s q)" if "rdy_ok ((tasks s)(t := ?k)) q" "\<not> is_pend (tcb s t)" for q
    by (rule kgood_kill [OF g t(1,2) that(2) t(3) lk refl that(1) refl])
  have out: "\<not> tick_head (tcb s t)" "t \<notin> set (g_tick_head s)" if "\<not> is_pend (tcb s t)" "\<not> is_sleep (tcb s t)"
    using that tick_okD(2,3) [OF d(3), of t] by auto
  have nr: "rdy_ok ((tasks s)(t := ?k)) (g_ready_queue s)" if "task_state (tcb s t) \<noteq> K_RDY"
    using that by (intro rdy_ok_frame [OF d(1)]) (simp add: rdy_view_def)
  consider (rdy) "task_state (tcb s t) = K_RDY" | (susp) "task_state (tcb s t) = K_SUSPENDED"
    | (sleep) "is_sleep (tcb s t)" | (pend) "is_pend (tcb s t)"
    using t(2) by (cases "task_state (tcb s t)") (auto simp: state_classes)
  then show ?thesis
  proof cases
    case rdy
    obtain q where q: "ready_list_rm (g_ready_queue s) t (prio (tcb s t)) = Some q" "rdy_ok ((tasks s)(t := ?k)) q"
      using rdy_ok_rm [OF d(1) rdy t(1) [symmetric] prio_okD(1) [OF d(4)], of ?k] by auto
    have np: "\<not> is_pend (tcb s t)" "\<not> is_sleep (tcb s t)" using rdy by (auto simp: state_classes)
    have "task_unlink t s = Some (?s q)"
      using rdy q(1) out [OF np] by (auto simp: task_unlink_def rdy_rm_def upd_task_def remove1_idem intro!: kstate.equality)
    then show ?thesis using kill [OF q(2) np(1)] by blast
  next
    case susp
    have np: "\<not> is_pend (tcb s t)" "\<not> is_sleep (tcb s t)" using susp by (auto simp: state_classes)
    have "task_unlink t s = Some (?s (g_ready_queue s))"
      using susp out [OF np] by (auto simp: task_unlink_def upd_task_def remove1_idem intro!: kstate.equality)
    then show ?thesis using kill [OF nr np(1)] susp by auto
  next
    case sleep
    have "tick_head (tcb s t)" using tick_okD(4) [OF d(3) sleep] .
    then have "task_unlink t s = Some (?s (g_ready_queue s))"
      using sleep by (auto simp: task_unlink_def upd_task_def tick_list_rm_def is_sleep_def Let_def fun_eq_iff
        intro!: kstate.equality)
    moreover have "\<not> is_pend (tcb s t)" "task_state (tcb s t) \<noteq> K_RDY" using sleep by (auto simp: state_classes)
    ultimately show ?thesis using kill nr by blast
  next
    case pend
    then have "task_unlink t s = Some (mutex_task_pri_reset t (unpend K_DELETED (blk_state (tcb s t)) t s))"
      using unpend_rdy_eq(4) [OF d(3), of t] by (auto simp: task_unlink_def is_pend_def Let_def)
    then show ?thesis using kgood_kill_pend [OF g t(1) pend t(3)] by blast
  qed
qed

section \<open>The deletion calls\<close>

text \<open>Only a live task may be deleted (the running one when no task is named).\<close>

definition may_delete :: "kstate \<Rightarrow> tid option \<Rightarrow> bool" where
  "may_delete s task \<longleftrightarrow> is_live (tcb s (case task of None \<Rightarrow> g_active_task s | Some t \<Rightarrow> t))"

lemma pend_task_wakeup_same:
  "g_active_task (pend_task_wakeup t s) = g_active_task s \<and> g_sched_lock (pend_task_wakeup t s) = g_sched_lock s"
  by (simp add: pend_task_wakeup_def pend_unlink_def tick_list_rm_def task_list_rm_def rdy_add_def upd_task_def
      k_err_proc_def Let_def split: task_stat.split)

lemma task_mutex_free_same:
  "g_active_task (task_mutex_free t s) = g_active_task s \<and> g_sched_lock (task_mutex_free t s) = g_sched_lock s"
proof -
  have "g_active_task s' = g_active_task s \<and> g_sched_lock s' = g_sched_lock s"
    if "task_mutex_free_loop p s = Some s'" for p s s'
    by (rule task_mutex_free_loop.raw_induct
        [where P = "\<lambda>p s s'. g_active_task s' = g_active_task s \<and> g_sched_lock s' = g_sched_lock s", OF _ that])
      (auto simp: Let_def upd_mutex_def mutex_own_def upd_task_def pend_task_wakeup_same
        split: option.splits list.splits)
  then show ?thesis by (auto simp: task_mutex_free_def raise_fault_def split: option.split)
qed

lemma kgood_task_free_unlink:
  assumes g: "kgood {} s" and t: "t \<noteq> g_idle_task" "is_live (tcb s t)"
    and lk: "t = g_active_task s \<Longrightarrow> g_sched_lock s = 0"
  shows "\<exists>s'. task_unlink t (task_mutex_free t s) = Some s' \<and> kgood {} s'"
proof -
  note f = task_mutex_free_ok [OF g t]
  show ?thesis
    using t lk prio_okD(4) [OF kgood_parts(4) [OF g] t(2,1)]
    by (intro kgood_task_unlink [OF f(1) t(1)]) (auto simp: f(2) task_mutex_free_same)
qed

lemma kinv_del_end: "kgood {} s \<Longrightarrow> kinv (core_sched (task_stats_rm t s))"
  by (rule kinv_core_sched, erule kgood_cong) (simp_all add: task_stats_rm_def)

lemma kinv_task_del:
  assumes i: "kinv s" and m: "may_delete s task"
  shows "kinv (snd (krhino_task_del task s))"
proof -
  define t where "t = (case task of None \<Rightarrow> g_active_task s | Some t \<Rightarrow> t)"
  note g = kinvD(1) [OF i]
  show ?thesis
  proof (cases "g_intrpt_nested_level s = 0 \<and> prio (tcb s t) \<noteq> 61 \<and> task_alloc (tcb s t) = K_OBJ_STATIC_ALLOC \<and>
      \<not> (t = g_active_task s \<and> g_sched_lock s > 0)")
    case False
    then show ?thesis using i by (auto simp: krhino_task_del_def Let_def t_def [symmetric] word_gt_0)
  next
    case True
    have live: "is_live (tcb s t)" using m by (simp add: may_delete_def t_def)
    have idle: "t \<noteq> g_idle_task" using True prio_okD(2) [OF kgood_parts(4) [OF g]] by auto
    obtain s' where "task_unlink t (task_mutex_free t s) = Some s'" "kgood {} s'"
      using kgood_task_free_unlink [OF g idle live] True by (auto simp: word_gt_0)
    then show ?thesis using True kinv_del_end by (auto simp: krhino_task_del_def Let_def t_def [symmetric] word_gt_0)
  qed
qed

lemma sem_give_fail: "krhino_sem_give sem s = (r, s') \<Longrightarrow> r \<noteq> RHINO_SUCCESS \<Longrightarrow> s' = s"
  by (auto simp: krhino_sem_give_def sem_give_def Let_def split: option.splits list.splits if_splits)

lemma pend_task_wakeup_live: "is_live (tcb s u) \<Longrightarrow> is_live (tcb (pend_task_wakeup t s) u)"
  by (auto simp: pend_task_wakeup_def pend_unlink_def tick_list_rm_def task_list_rm_def rdy_add_def upd_task_def
      k_err_proc_def is_live_def Let_def split: task_stat.split)

lemma sem_give_live: "is_live (tcb s u) \<Longrightarrow> is_live (tcb (snd (krhino_sem_give sem s)) u)"
  by (auto simp: krhino_sem_give_def sem_give_def Let_def upd_sem_def pend_task_wakeup_live split: option.split list.split)

lemma core_sched_locked: "g_sched_lock s > 0 \<Longrightarrow> core_sched s = s"
  by (simp add: core_sched_def)

lemma sem_give_locked:
  "g_sched_lock s > 0 \<Longrightarrow> g_active_task (snd (krhino_sem_give sem s)) = g_active_task s \<and>
    g_sched_lock (snd (krhino_sem_give sem s)) = g_sched_lock s"
  by (auto simp: krhino_sem_give_def sem_give_def Let_def upd_sem_def pend_task_wakeup_same core_sched_locked
      split: option.split list.split)

lemma kinv_task_dyn_del:
  assumes i: "kinv s" and m: "may_delete s task" and l: "g_sched_lock s < 200"
  shows "kinv (snd (krhino_task_dyn_del task s))"
proof -
  define t where "t = (case task of None \<Rightarrow> g_active_task s | Some t \<Rightarrow> t)"
  note g = kinvD(1) [OF i]
  show ?thesis
  proof (cases "g_intrpt_nested_level s = 0 \<and> prio (tcb s t) \<noteq> 61 \<and> task_alloc (tcb s t) = K_OBJ_DYN_ALLOC \<and>
      \<not> (t = g_active_task s \<and> g_sched_lock s > 0) \<and> task_state (tcb s t) \<noteq> K_DELETED")
    case False
    then show ?thesis using i by (auto simp: krhino_task_dyn_del_def Let_def t_def [symmetric] word_gt_0)
  next
    case True
    have live: "is_live (tcb s t)" using m by (simp add: may_delete_def t_def)
    have idle: "t \<noteq> g_idle_task" using True prio_okD(2) [OF kgood_parts(4) [OF g]] by auto
    have run: "task_state (tcb s (g_active_task s)) = K_RDY" using run_ok_active [OF kinvD(2) [OF i]] True by blast
    let ?s1 = "s\<lparr>g_sched_lock := g_sched_lock s + 1, g_res_list := g_res_list s @ [[Mem_stack t, Mem_tcb t]]\<rparr>"
    have l1: "g_sched_lock s + 1 \<le> 200" "0 < g_sched_lock s + 1" using l by (auto simp: word_le_nat_alt word_less_nat_alt unat_word_ariths)
    have o: "obj_ok ?s1 b = obj_ok s b" for b by (simp add: obj_ok_def split: kobj_type.split)
    have "kgood {} ?s1" using g l1 run by (simp add: kgood_def kbase_def lock_ok_def o)
    moreover have "run_ok ?s1" using l1(2) run by (auto simp: run_ok_def)
    ultimately have i1: "kinv ?s1" by (simp add: kinv_def)
    obtain r s2 where g2: "krhino_sem_give (Some g_res_sem) ?s1 = (r, s2)" by (cases "krhino_sem_give (Some g_res_sem) ?s1")
    have i2: "kinv s2" using kinv_krhino_sem_give(1) [OF i1, of "Some g_res_sem"] g2 by simp
    have s2: "g_active_task s2 = g_active_task s" "g_sched_lock s2 = g_sched_lock s + 1" "is_live (tcb s2 t)"
      using sem_give_locked [of ?s1 "Some g_res_sem"] sem_give_live [of ?s1 t "Some g_res_sem"] l1(2) live g2 by auto
    let ?s3 = "s2\<lparr>g_sched_lock := g_sched_lock s2 - 1\<rparr>"
    show ?thesis
    proof (cases "r = RHINO_SUCCESS")
      case False
      then have "?s3 = s\<lparr>g_res_list := g_res_list s @ [[Mem_stack t, Mem_tcb t]]\<rparr>" using sem_give_fail [OF g2] by simp
      moreover have "kinv (s\<lparr>g_res_list := g_res_list s @ [[Mem_stack t, Mem_tcb t]]\<rparr>)" by (rule kinv_cong [OF i]) simp_all
      ultimately have "kinv (k_err_proc RHINO_SYS_SP_ERR ?s3)" by (simp add: kinv_err)
      then show ?thesis using True False g2 by (auto simp: krhino_task_dyn_del_def Let_def t_def [symmetric] word_gt_0)
    next
      case r: True
      have "obj_ok ?s3 b = obj_ok s2 b" for b by (simp add: obj_ok_def split: kobj_type.split)
      then have "kgood {} ?s3"
        using kinvD [OF i2] l1 l s2 by (auto simp: kgood_def kbase_def lock_ok_def run_ok_def)
      moreover have "t = g_active_task ?s3 \<Longrightarrow> g_sched_lock ?s3 = 0" using True s2 by (auto simp: word_gt_0)
      moreover have "is_live (tcb ?s3 t)" using s2 by simp
      ultimately obtain s' where "task_unlink t (task_mutex_free t ?s3) = Some s'" "kgood {} s'"
        using kgood_task_free_unlink [OF _ idle, of ?s3] by blast
      then show ?thesis
        using True r g2 kinv_del_end by (auto simp: krhino_task_dyn_del_def Let_def t_def [symmetric] word_gt_0)
    qed
  qed
qed

lemma kinv_task_deathbed:
  assumes i: "kinv s" and n: "g_intrpt_nested_level s = 0" and l: "g_sched_lock s < 200"
  shows "kinv (krhino_task_deathbed s)"
proof -
  have "may_delete s None"
    using run_ok_active [OF kinvD(2) [OF i] n] by (simp add: may_delete_def is_live_def)
  then show ?thesis using kinv_task_del [OF i] kinv_task_dyn_del [OF i _ l] by (simp add: krhino_task_deathbed_def)
qed

end
