(* ===== verification/Queue_Safe.thy ===== *)
theory Queue_Safe
  imports Task_Safe
begin

text \<open>
  Every operation on queues of pointers and on buffer queues keeps the kernel invariant: the ring
  holds the messages in order, its accounting is right, and nobody waits while there is a message.
\<close>

section \<open>Updates of a queue\<close>

lemma kgood_upd_queue:
  assumes g: "kgood X s" and ok: "obj_ok (upd_queue b f s) b \<or> b \<in> X"
  shows "kgood X (upd_queue b f s)"
proof -
  note d = kgoodD [OF g]
  have "obj_ok (upd_queue b f s) c" if "c \<notin> X" for c
    using ok d(5) [OF that] that by (cases "c = b") (auto intro!: obj_ok_frame [of s c] simp: upd_queue_def)
  moreover have "kbase (upd_queue b f s)" using d(1) by (simp add: kbase_def upd_queue_def)
  ultimately show ?thesis using d by (simp add: kgood_def lock_ok_def upd_queue_def)
qed

lemma kinv_upd_queue: "kinv s \<Longrightarrow> obj_ok (upd_queue b f s) b \<Longrightarrow> kinv (upd_queue b f s)"
  using kgood_upd_queue [of "{}" s b f] run_ok_cong [of s "upd_queue b f s"] by (simp add: kinv_def upd_queue_def)

lemma kgood_upd_buf_queue:
  assumes g: "kgood X s" and ok: "obj_ok (upd_buf_queue b f s) b \<or> b \<in> X"
  shows "kgood X (upd_buf_queue b f s)"
proof -
  note d = kgoodD [OF g]
  have "obj_ok (upd_buf_queue b f s) c" if "c \<notin> X" for c
    using ok d(5) [OF that] that by (cases "c = b") (auto intro!: obj_ok_frame [of s c] simp: upd_buf_queue_def)
  moreover have "kbase (upd_buf_queue b f s)" using d(1) by (simp add: kbase_def upd_buf_queue_def)
  ultimately show ?thesis using d by (simp add: kgood_def lock_ok_def upd_buf_queue_def)
qed

lemma kinv_upd_buf_queue: "kinv s \<Longrightarrow> obj_ok (upd_buf_queue b f s) b \<Longrightarrow> kinv (upd_buf_queue b f s)"
  using kgood_upd_buf_queue [of "{}" s b f] run_ok_cong [of s "upd_buf_queue b f s"]
  by (simp add: kinv_def upd_buf_queue_def)

lemma obj_ok_queue:
  "obj_type (blks s b) = RHINO_QUEUE_OBJ_TYPE \<Longrightarrow> obj_ok s b \<longleftrightarrow>
    queue_ok (queues s b) \<and> (q_cur_num (queues s b) > 0 \<longrightarrow> blk_list (blks s b) = [])"
  "obj_type (blks s b) = RHINO_BUF_QUEUE_OBJ_TYPE \<Longrightarrow> obj_ok s b \<longleftrightarrow>
    buf_queue_ok (buf_queues s b) \<and> (bq_cur_num (buf_queues s b) > 0 \<longrightarrow> blk_list (blks s b) = [])"
  by (simp_all add: obj_ok_def)

lemma buf_queue_ok_iff:
  "buf_queue_ok q \<longleftrightarrow>
     (\<exists>ms. rb_fifo (bq_ringbuf q) ms \<and> length ms = bq_cur_num q \<and> (\<forall>m \<in> set ms. length m \<le> max_msg_size q)) \<and>
     (rb_type (bq_ringbuf q) = RINGBUF_TYPE_FIX \<longrightarrow> blk_size (bq_ringbuf q) = max_msg_size q) \<and>
     (rb_type (bq_ringbuf q) = RINGBUF_TYPE_DYN \<longrightarrow> max_msg_size q + 4 < 2 ^ 32)"
  by (cases "rb_type (bq_ringbuf q)") (simp_all add: buf_queue_ok_def)

text \<open>Waking a receiver after writing to its control block.\<close>

lemma kgood_deliver:
  assumes g: "kgood X s" and t: "t \<in> set (blk_list (blks s b))" and b: "\<not> is_mutex (blks s b)"
    and f: "\<And>k. f k = k\<lparr>msg := msg (f k), msg_buf := msg_buf (f k), bq_msg_size := bq_msg_size (f k)\<rparr>"
  shows "kgood X (pend_task_wakeup t (upd_task t f s))"
    and "blks (pend_task_wakeup t (upd_task t f s)) = blk_list_rm t (blks s)"
proof -
  let ?s = "upd_task t f s"
  have w: "is_pend (tcb s t)" "blk_obj (tcb s t) = Some b"
    using blk_okD(2) [OF kgood_parts(2) [OF g], of t b] t by auto
  have c: "same_core (tcb s t) (f (tcb s t))"
    using prio_okD(5) [OF kgood_parts(4) [OF g], of t] by (subst f) (simp add: same_core_def)
  have g1: "kgood X ?s" using g c by (rule kgood_upd_task)
  have w1: "is_pend (tcb ?s t)" "blk_obj (tcb ?s t) = Some b"
    using w same_coreD(7,11) [OF c] by (simp_all add: upd_task_def)
  have eq: "pend_task_wakeup t ?s = wake BLK_FINISH t ?s" using pend_task_wakeup_eq(1) [OF kgood_parts(3) [OF g1] w1(1)] .
  show "kgood X (pend_task_wakeup t ?s)" unfolding eq using b by (intro kgood_wake [OF g1 w1]) (simp add: upd_task_def)
  show "blks (pend_task_wakeup t ?s) = blk_list_rm t (blks s)" unfolding eq by (simp add: wake_def upd_task_def)
qed

section \<open>Pointer queues\<close>

text \<open>The memory that the caller provides holds the messages.\<close>

definition queue_mem_ok :: "byte list option \<Rightarrow> nat \<Rightarrow> bool" where
  "queue_mem_ok start msg_num \<longleftrightarrow> (\<forall>mem. start = Some mem \<longrightarrow> 4 * msg_num < 2 ^ 32 \<and> 4 * msg_num \<le> length mem)"

lemma kinv_queue_create:
  assumes i: "kinv s" and f: "free_obj s queue" and m: "queue_mem_ok start msg_num"
  shows "kinv (snd (queue_create queue name_ok start msg_num a s))"
proof (cases "queue = None \<or> start = None \<or> \<not> name_ok \<or> msg_num = 0")
  case True
  then show ?thesis using i by (auto simp: queue_create_def split: option.splits)
next
  case False
  then obtain b mem where b: "queue = Some b" "start = Some mem" "name_ok" "msg_num > 0" by auto
  let ?s = "snd (queue_create (Some b) True (Some mem) msg_num a s)"
  have len: "msg_num * 4 < 2 ^ 32" "msg_num * 4 \<le> length mem" using m b(2) by (auto simp: queue_mem_ok_def)
  then have mod: "msg_num * 4 mod 2 ^ 32 = msg_num * 4" by simp
  have "kgood {b} ?s"
    using free_obj_empty [OF kinvD(1) [OF i], of b] f b
    by (intro kgood_new_obj [OF kinvD(1) [OF i], of b]) (auto simp: queue_create_def upd_defs Let_def is_mutex_def)
  moreover have "obj_ok ?s b"
  proof -
    let ?r = "ringbuf_init (take (msg_num * 4) mem) RINGBUF_TYPE_FIX 4"
    have "rb_fifo ?r []" using b(4) len by (intro rb_fifo_init) auto
    then have "queue_ok (queues ?s b)"
      using b len by (simp add: queue_ok_def queue_create_def upd_defs Let_def mod ringbuf_init_def ringbuf_reset_def min_def)
    then show ?thesis using b by (simp add: obj_ok_def queue_create_def upd_defs Let_def)
  qed
  ultimately have "kgood {} ?s" by (rule kgood_finish)
  moreover have "run_ok ?s"
    using b by (intro run_ok_cong [OF kinvD(2) [OF i]]) (simp_all add: queue_create_def upd_defs Let_def)
  ultimately show ?thesis using b by (simp add: kinv_def)
qed

lemma kinv_queue_dyn_create:
  "kinv s \<Longrightarrow> free_obj s mem \<Longrightarrow> queue_mem_ok start n \<Longrightarrow>
    kinv (snd (snd (krhino_queue_dyn_create p nm n mem start s)))"
  using kinv_queue_create [of s mem start n nm K_OBJ_DYN_ALLOC]
  by (auto simp: krhino_queue_dyn_create_def kinv_mm_free split: option.splits prod.splits)

lemma kinv_queue_del:
  assumes i: "kinv s"
  shows "kinv (snd (queue_del a queue s))"
proof (cases queue)
  case (Some b)
  let ?d = "drain pend_task_rm b (upd_blk b (\<lambda>o'. o'\<lparr>obj_type := RHINO_OBJ_TYPE_NONE\<rparr>) s)"
  let ?e = "?d\<lparr>g_kobj_list := (g_kobj_list ?d)\<lparr>queue_head := remove1 b (queue_head (g_kobj_list ?d))\<rparr>\<rparr>"
  let ?s = "upd_queue b (\<lambda>x. x\<lparr>q_ringbuf := ringbuf_reset (q_ringbuf x)\<rparr>) ?e"
  have "kinv (core_sched ?s)" if "obj_type (blks s b) = RHINO_QUEUE_OBJ_TYPE"
  proof (rule kinv_core_sched)
    have nm: "\<not> is_mutex (blks s b)" using that by (simp add: is_mutex_def)
    note d = kgood_delete [OF kinvD(1) [OF i] nm]
    have e: "kgood {} ?e" using d(1) by (rule kgood_cong) simp_all
    have "obj_ok ?e b" using kgoodD(5) [OF e] by simp
    then have "obj_ok ?s b" using d(2) by (simp add: obj_ok_def upd_queue_def)
    then show "kgood {} ?s" using kgood_upd_queue [OF e] by blast
  qed
  then show ?thesis using i Some by (simp add: queue_del_def Let_def)
qed (simp add: queue_del_def i)

lemma kinv_queue_dyn_del: "kinv s \<Longrightarrow> kinv (snd (krhino_queue_dyn_del queue s))"
  using kinv_queue_del [of s K_OBJ_DYN_ALLOC queue]
  by (auto simp: krhino_queue_dyn_del_def kinv_mm_free split: option.splits prod.splits)

text \<open>Storing a message in a queue that is not full.\<close>

lemma queue_push:
  assumes q: "queue_ok q" and room: "q_cur_num q < q_size q"
  shows "\<exists>r'. ringbuf_push (q_ringbuf q) (ptr_bytes p) 4 = Some (RHINO_SUCCESS, r') \<and>
    queue_ok (q\<lparr>q_ringbuf := r', q_cur_num := q_cur_num q + 1\<rparr>) \<and>
    (\<forall>ms. rb_fifo (q_ringbuf q) ms \<longrightarrow> rb_fifo r' (ms @ [ptr_bytes p]))"
proof -
  let ?r = "q_ringbuf q"
  obtain ms where ms: "rb_fifo ?r ms" "length ms = q_cur_num q" and ty: "rb_type ?r = RINGBUF_TYPE_FIX" "blk_size ?r = 4"
    "rb_len ?r = 4 * q_size q" using q by (auto simp: queue_ok_def)
  have mo: "msg_ok ?r (ptr_bytes p)" by (simp add: msg_ok_def ty ptr_bytes_def)
  have sz: "frame_size ?r m = 4" if "m \<in> set ms" for m
    using ms(1) that by (auto simp: rb_fifo_def msg_ok_def frame_size_def frame_def ty)
  have "sum_list (map (frame_size ?r) ms) = 4 * length ms"
    using sz by (induction ms) auto
  then have "frame_size ?r (ptr_bytes p) \<le> freesize ?r"
    using rb_fifo_free [OF ms(1)] room ms(2) ty by (simp add: frame_size_def frame_def ptr_bytes_def)
  have l4: "length (ptr_bytes p) = 4" by (simp add: ptr_bytes_def)
  have each: "\<exists>r'. ringbuf_push ?r (ptr_bytes p) 4 = Some (RHINO_SUCCESS, r') \<and> rb_fifo r' (xs @ [ptr_bytes p]) \<and> same_shape ?r r'"
    if "rb_fifo ?r xs" for xs
    using ringbuf_push_ok [OF that mo \<open>frame_size ?r (ptr_bytes p) \<le> freesize ?r\<close>] l4 by simp
  from each [OF ms(1)] obtain r' where r': "ringbuf_push ?r (ptr_bytes p) 4 = Some (RHINO_SUCCESS, r')"
    "rb_fifo r' (ms @ [ptr_bytes p])" "same_shape ?r r'" by blast
  have "queue_ok (q\<lparr>q_ringbuf := r', q_cur_num := q_cur_num q + 1\<rparr>)"
    using r'(2,3) ms(2) ty by (auto simp: queue_ok_def same_shape_def intro: exI [of _ "ms @ [ptr_bytes p]"])
  moreover have "rb_fifo r' (xs @ [ptr_bytes p])" if "rb_fifo ?r xs" for xs using each [OF that] r'(1) by auto
  ultimately show ?thesis using r'(1) by blast
qed

lemma queue_ok_peak: "queue_ok (q\<lparr>q_peak_num := n\<rparr>) = queue_ok q"
  by (simp add: queue_ok_def)

lemma kinv_msg_send:
  assumes i: "kinv s"
  shows "kinv (snd (msg_send p_q p all s))"
proof (cases p_q)
  case (Some b)
  note g = kinvD(1) [OF i]
  show ?thesis
  proof (cases "obj_type (blks s b) = RHINO_QUEUE_OBJ_TYPE \<and> q_cur_num (queues s b) < q_size (queues s b)")
    case False
    then show ?thesis using Some i by (auto simp: msg_send_def)
  next
    case True
    have nm: "\<not> is_mutex (blks s b)" using True by (simp add: is_mutex_def)
    have ok: "queue_ok (queues s b)" "q_cur_num (queues s b) > 0 \<longrightarrow> blk_list (blks s b) = []"
      using kgoodD(5) [OF g, of b] True by (auto simp: obj_ok_queue)
    show ?thesis
    proof (cases "blk_list (blks s b)")
      case Nil
      obtain r' where r': "ringbuf_push (q_ringbuf (queues s b)) (ptr_bytes p) 4 = Some (RHINO_SUCCESS, r')"
        "queue_ok ((queues s b)\<lparr>q_ringbuf := r', q_cur_num := q_cur_num (queues s b) + 1\<rparr>)"
        using queue_push [OF ok(1), of p] True by blast
      define q where "q = (let n = q_cur_num (queues s b) + 1 in
        (queues s b)\<lparr>q_ringbuf := r', q_cur_num := n,
          q_peak_num := (if q_peak_num (queues s b) < n then n else q_peak_num (queues s b))\<rparr>)"
      have "queue_ok q" using r'(2) by (simp add: q_def Let_def queue_ok_def)
      then have "kinv (upd_queue b (\<lambda>x. q) s)"
        using True Nil by (intro kinv_upd_queue [OF i]) (simp add: obj_ok_queue upd_queue_def)
      moreover have "snd (msg_send p_q p all s) = upd_queue b (\<lambda>x. q) s"
        using Some True Nil r'(1) by (auto simp: msg_send_def Let_def upd_queue_def q_def intro!: kstate.equality)
      ultimately show ?thesis by simp
    next
      case (Cons t ts)
      have one: "kgood {} (task_msg_recv p t s)"
        unfolding task_msg_recv_def using Cons nm by (intro kgood_deliver(1) [OF g, of t b]) auto
      let ?P = "\<lambda>s. kgood {} s \<and> \<not> is_mutex (blks s b)"
      have "?P (task_msg_recv p u s') \<and> blk_list (blks (task_msg_recv p u s') b) = us"
        if P: "?P s'" and l: "blk_list (blks s' b) = u # us" for s' u us
      proof -
        have "kgood {} s'" "u \<in> set (blk_list (blks s' b))" "\<not> is_mutex (blks s' b)" using P l by auto
        note dl = kgood_deliver [OF this, of "\<lambda>k. k\<lparr>msg := p\<rparr>"]
        then show ?thesis using P l by (simp add: task_msg_recv_def)
      qed
      from drain_rule [of ?P b "task_msg_recv p", OF this] g nm
      have "kgood {} (drain (task_msg_recv p) b s)" by blast
      with one show ?thesis using Some True Cons by (simp add: msg_send_def Let_def kinv_core_sched)
    qed
  qed
qed (simp add: msg_send_def i)

lemma kinv_queue_recv:
  assumes i: "kinv s" and a: "may_block s"
  shows "kinv (snd (snd (krhino_queue_recv queue ticks ok s)))"
proof (cases queue)
  case (Some b)
  have o: "obj_ok s b" using kgoodD(5) [OF kinvD(1) [OF i]] by simp
  have pop: "\<exists>d r. ringbuf_pop (q_ringbuf (queues s b)) = Some (RHINO_SUCCESS, d, length d, r) \<and>
      kinv (upd_queue b (\<lambda>x. x\<lparr>q_ringbuf := r, q_cur_num := q_cur_num x - 1\<rparr>) s)"
    if ty: "obj_type (blks s b) = RHINO_QUEUE_OBJ_TYPE" and n: "q_cur_num (queues s b) > 0"
  proof -
    obtain ms where ms: "rb_fifo (q_ringbuf (queues s b)) ms" "length ms = q_cur_num (queues s b)"
      using o ty by (auto simp: obj_ok_queue queue_ok_def)
    then obtain m xs where mx: "ms = m # xs" using n by (cases ms) auto
    obtain r where r: "ringbuf_pop (q_ringbuf (queues s b)) = Some (RHINO_SUCCESS, m, length m, r)" "rb_fifo r xs"
      "same_shape (q_ringbuf (queues s b)) r" using ringbuf_pop_ok [of _ m xs] ms(1) mx by blast
    have "queue_ok ((queues s b)\<lparr>q_ringbuf := r, q_cur_num := q_cur_num (queues s b) - 1\<rparr>)"
      using r(2,3) o ty ms(2) mx by (auto simp: obj_ok_queue queue_ok_def same_shape_def)
    then have "kinv (upd_queue b (\<lambda>x. x\<lparr>q_ringbuf := r, q_cur_num := q_cur_num x - 1\<rparr>) s)"
      using o ty n by (intro kinv_upd_queue [OF i]) (auto simp: obj_ok_queue upd_queue_def)
    with r(1) show ?thesis by blast
  qed
  have "kinv (core_sched (pend_to_blk_obj b (g_active_task s) ticks s))"
    if "obj_type (blks s b) = RHINO_QUEUE_OBJ_TYPE" "g_intrpt_nested_level s = 0" "g_sched_lock s = 0" "q_cur_num (queues s b) = 0"
    using that o by (intro kinv_block_on [OF i _ _ a]) (simp_all add: is_mutex_def obj_ok_def block_def Let_def)
  with pop show ?thesis
    using Some i by (auto simp: krhino_queue_recv_def word_gt_0)
qed (simp add: krhino_queue_recv_def i)

lemma kinv_queue_flush:
  assumes i: "kinv s"
  shows "kinv (snd (krhino_queue_flush queue s))"
proof (cases queue)
  case (Some b)
  let ?s = "upd_queue b (\<lambda>x. x\<lparr>q_cur_num := 0, q_ringbuf := ringbuf_reset (q_ringbuf x)\<rparr>) s"
  have "kinv ?s" if ty: "obj_type (blks s b) = RHINO_QUEUE_OBJ_TYPE"
  proof (rule kinv_upd_queue [OF i])
    have "obj_ok s b" using kgoodD(5) [OF kinvD(1) [OF i]] by simp
    then obtain ms where ms: "rb_fifo (q_ringbuf (queues s b)) ms" and q: "queue_ok (queues s b)"
      using ty by (auto simp: obj_ok_queue queue_ok_def)
    from rb_fifo_reset [OF ms] q show "obj_ok ?s b"
      using ty by (auto simp: obj_ok_queue upd_queue_def queue_ok_def same_shape_def)
  qed
  then show ?thesis using Some i by (simp add: krhino_queue_flush_def)
qed (simp add: krhino_queue_flush_def i)

section \<open>Buffer queues\<close>

text \<open>
  The memory is large enough; a queue of fixed-size blocks is a whole number of blocks; the length
  prefix of a message of a dynamic queue does not overflow.
\<close>

definition buf_mem_ok :: "byte list option \<Rightarrow> nat \<Rightarrow> nat \<Rightarrow> ringbuf_type \<Rightarrow> bool" where
  "buf_mem_ok bf sz max_msg ty \<longleftrightarrow> (\<forall>mem. bf = Some mem \<longrightarrow> sz \<le> length mem) \<and>
     (case ty of RINGBUF_TYPE_FIX \<Rightarrow> max_msg dvd sz | RINGBUF_TYPE_DYN \<Rightarrow> max_msg + 4 < 2 ^ 32)"

lemma kinv_buf_queue_create:
  assumes i: "kinv s" and f: "free_obj s queue" and m: "buf_mem_ok bf sz max_msg ty"
  shows "kinv (snd (buf_queue_create queue name_ok bf sz max_msg a ty s))"
proof (cases "queue = None \<or> bf = None \<or> \<not> name_ok \<or> max_msg = 0 \<or> sz = 0")
  case True
  then show ?thesis using i by (auto simp: buf_queue_create_def split: option.splits)
next
  case False
  then obtain b mem where b: "queue = Some b" "bf = Some mem" "name_ok" "max_msg > 0" "sz > 0" by auto
  let ?s = "snd (buf_queue_create (Some b) True (Some mem) sz max_msg a ty s)"
  have len: "sz \<le> length mem" using m b(2) by (simp add: buf_mem_ok_def)
  have "kgood {b} ?s"
    using free_obj_empty [OF kinvD(1) [OF i], of b] f b
    by (intro kgood_new_obj [OF kinvD(1) [OF i], of b]) (auto simp: buf_queue_create_def upd_defs Let_def is_mutex_def)
  moreover have "obj_ok ?s b"
  proof -
    let ?r = "ringbuf_init (take sz mem) ty max_msg"
    have "rb_fifo ?r []"
      using b len m by (intro rb_fifo_init) (auto simp: buf_mem_ok_def min_def)
    moreover have "rb_type ?r = ty" "ty = RINGBUF_TYPE_FIX \<Longrightarrow> blk_size ?r = max_msg"
      by (simp_all add: ringbuf_init_def ringbuf_reset_def)
    ultimately have "buf_queue_ok (buf_queues ?s b)"
      using b m by (auto simp: buf_queue_ok_iff buf_queue_create_def upd_defs Let_def buf_mem_ok_def split: ringbuf_type.splits)
    then show ?thesis using b by (simp add: obj_ok_def buf_queue_create_def upd_defs Let_def)
  qed
  ultimately have "kgood {} ?s" by (rule kgood_finish)
  moreover have "run_ok ?s"
    using b by (intro run_ok_cong [OF kinvD(2) [OF i]]) (simp_all add: buf_queue_create_def upd_defs Let_def)
  ultimately show ?thesis using b by (simp add: kinv_def)
qed

lemma kinv_buf_queue_dyn_create:
  "kinv s \<Longrightarrow> free_obj s mem \<Longrightarrow> buf_mem_ok bf sz n RINGBUF_TYPE_DYN \<Longrightarrow>
    kinv (snd (snd (krhino_buf_queue_dyn_create p nm sz n mem bf s)))"
  using kinv_buf_queue_create [of s mem bf sz n RINGBUF_TYPE_DYN nm K_OBJ_DYN_ALLOC]
  by (auto simp: krhino_buf_queue_dyn_create_def kinv_mm_free split: option.splits prod.splits)

lemma kinv_buf_queue_del:
  assumes i: "kinv s"
  shows "kinv (snd (buf_queue_del a queue s))"
proof (cases queue)
  case (Some b)
  let ?d = "drain pend_task_rm b (upd_blk b (\<lambda>o'. o'\<lparr>obj_type := RHINO_OBJ_TYPE_NONE\<rparr>) s)"
  let ?e = "?d\<lparr>g_kobj_list := (g_kobj_list ?d)\<lparr>buf_queue_head := remove1 b (buf_queue_head (g_kobj_list ?d))\<rparr>\<rparr>"
  let ?s = "upd_buf_queue b (\<lambda>x. x\<lparr>bq_ringbuf := ringbuf_reset (bq_ringbuf x)\<rparr>) ?e"
  have "kinv (core_sched ?s)" if "obj_type (blks s b) = RHINO_BUF_QUEUE_OBJ_TYPE"
  proof (rule kinv_core_sched)
    have nm: "\<not> is_mutex (blks s b)" using that by (simp add: is_mutex_def)
    note d = kgood_delete [OF kinvD(1) [OF i] nm]
    have e: "kgood {} ?e" using d(1) by (rule kgood_cong) simp_all
    have "obj_ok ?e b" using kgoodD(5) [OF e] by simp
    then have "obj_ok ?s b" using d(2) by (simp add: obj_ok_def upd_buf_queue_def)
    then show "kgood {} ?s" using kgood_upd_buf_queue [OF e] by blast
  qed
  then show ?thesis using i Some by (simp add: buf_queue_del_def Let_def)
qed (simp add: buf_queue_del_def i)

lemma kinv_buf_queue_dyn_del: "kinv s \<Longrightarrow> kinv (snd (krhino_buf_queue_dyn_del queue s))"
  using kinv_buf_queue_del [of s K_OBJ_DYN_ALLOC queue]
  by (auto simp: krhino_buf_queue_dyn_del_def kinv_mm_free split: option.splits prod.splits)

text \<open>
  The sender's memory holds exactly the message, and a message for a queue of fixed blocks has the
  size of a block: \<^verbatim>\<open>ringbuf_push\<close> copies a whole block whatever size it is told.
\<close>

definition send_ok :: "kstate \<Rightarrow> oid option \<Rightarrow> byte list option \<Rightarrow> nat \<Rightarrow> bool" where
  "send_ok s queue m sz \<longleftrightarrow>
     (\<forall>b bs. queue = Some b \<longrightarrow> m = Some bs \<longrightarrow> length bs = sz \<and>
        (rb_type (bq_ringbuf (buf_queues s b)) = RINGBUF_TYPE_FIX \<longrightarrow> sz = blk_size (bq_ringbuf (buf_queues s b))))"

lemma buf_queue_push:
  assumes q: "buf_queue_ok q" and m: "0 < length m" "length m \<le> max_msg_size q"
    and fx: "rb_type (bq_ringbuf q) = RINGBUF_TYPE_FIX \<Longrightarrow> length m = blk_size (bq_ringbuf q)"
  shows "ringbuf_push (bq_ringbuf q) m (length m) = Some (RHINO_RINGBUF_FULL, bq_ringbuf q) \<or>
    (\<exists>r'. ringbuf_push (bq_ringbuf q) m (length m) = Some (RHINO_SUCCESS, r') \<and>
      buf_queue_ok (q\<lparr>bq_ringbuf := r', bq_cur_num := bq_cur_num q + 1\<rparr>))"
proof -
  let ?r = "bq_ringbuf q"
  obtain ms where ms: "rb_fifo ?r ms" "length ms = bq_cur_num q" "\<forall>m \<in> set ms. length m \<le> max_msg_size q"
    using q by (auto simp: buf_queue_ok_iff)
  have mo: "msg_ok ?r m" using m fx q by (auto simp: msg_ok_def buf_queue_ok_iff split: ringbuf_type.splits)
  show ?thesis
  proof (cases "frame_size ?r m \<le> freesize ?r")
    case True
    obtain r' where r': "ringbuf_push ?r m (length m) = Some (RHINO_SUCCESS, r')" "rb_fifo r' (ms @ [m])" "same_shape ?r r'"
      using ringbuf_push_ok [OF ms(1) mo True] by blast
    have "buf_queue_ok (q\<lparr>bq_ringbuf := r', bq_cur_num := bq_cur_num q + 1\<rparr>)"
      using r'(2,3) ms m(2) q
      by (auto simp: buf_queue_ok_iff same_shape_def intro!: exI [of _ "ms @ [m]"])
    with r'(1) show ?thesis by blast
  next
    case False
    then show ?thesis using ringbuf_push_full [OF ms(1) mo] by simp
  qed
qed

lemma kinv_buf_queue_send:
  assumes i: "kinv s" and ok: "send_ok s queue m sz"
  shows "kinv (snd (krhino_buf_queue_send queue m sz s))"
proof (cases "queue = None \<or> m = None")
  case True
  then show ?thesis using i by (auto simp: krhino_buf_queue_send_def split: option.splits)
next
  case False
  then obtain b bs where b: "queue = Some b" "m = Some bs" by auto
  note g = kinvD(1) [OF i]
  show ?thesis
  proof (cases "obj_type (blks s b) = RHINO_BUF_QUEUE_OBJ_TYPE \<and> sz \<le> max_msg_size (buf_queues s b) \<and> sz \<noteq> 0")
    case False
    then show ?thesis using b i by (auto simp: krhino_buf_queue_send_def buf_queue_send_def)
  next
    case True
    have len: "length bs = sz" and fx: "rb_type (bq_ringbuf (buf_queues s b)) = RINGBUF_TYPE_FIX \<Longrightarrow>
        length bs = blk_size (bq_ringbuf (buf_queues s b))" using ok b by (auto simp: send_ok_def)
    have nm: "\<not> is_mutex (blks s b)" using True by (simp add: is_mutex_def)
    have q: "buf_queue_ok (buf_queues s b)" using kgoodD(5) [OF g, of b] True by (simp add: obj_ok_queue)
    show ?thesis
    proof (cases "blk_list (blks s b)")
      case Nil
      have up: "kinv (upd_buf_queue b (\<lambda>x. x\<lparr>bq_ringbuf := r, bq_cur_num := bq_cur_num x + 1, bq_peak_num := pk,
          min_free_buf_size := mf\<rparr>) s)"
        if "buf_queue_ok ((buf_queues s b)\<lparr>bq_ringbuf := r, bq_cur_num := bq_cur_num (buf_queues s b) + 1\<rparr>)" for r pk mf
        using that True Nil by (intro kinv_upd_buf_queue [OF i]) (simp add: obj_ok_queue upd_buf_queue_def buf_queue_ok_iff)
      consider "ringbuf_push (bq_ringbuf (buf_queues s b)) bs sz = Some (RHINO_RINGBUF_FULL, bq_ringbuf (buf_queues s b))"
        | r where "ringbuf_push (bq_ringbuf (buf_queues s b)) bs sz = Some (RHINO_SUCCESS, r)"
          "buf_queue_ok ((buf_queues s b)\<lparr>bq_ringbuf := r, bq_cur_num := bq_cur_num (buf_queues s b) + 1\<rparr>)"
        using buf_queue_push [OF q, of bs] fx len True by auto
      then show ?thesis
      proof cases
        case 1
        then show ?thesis using b True Nil i by (simp add: krhino_buf_queue_send_def buf_queue_send_def)
      next
        case (2 r)
        let ?n = "bq_cur_num (buf_queues s b) + 1" and ?q = "buf_queues s b"
        have "snd (krhino_buf_queue_send queue m sz s) =
          upd_buf_queue b (\<lambda>x. x\<lparr>bq_ringbuf := r, bq_cur_num := bq_cur_num x + 1,
            bq_peak_num := (if bq_peak_num ?q < ?n then ?n else bq_peak_num ?q),
            min_free_buf_size := (if freesize r < min_free_buf_size ?q then freesize r else min_free_buf_size ?q)\<rparr>) s"
          using b True Nil 2(1)
          by (auto simp: krhino_buf_queue_send_def buf_queue_send_def Let_def upd_buf_queue_def intro!: kstate.equality)
        then show ?thesis using up [OF 2(2)] by simp
      qed
    next
      case (Cons t ts)
      have "kgood {} (pend_task_wakeup t (upd_task t (\<lambda>k. k\<lparr>msg_buf := take sz bs, bq_msg_size := sz\<rparr>) s))"
        using Cons nm by (intro kgood_deliver(1) [OF g, of t b]) auto
      then show ?thesis
        using b True Cons len by (simp add: krhino_buf_queue_send_def buf_queue_send_def memcpy_from_def Let_def kinv_core_sched)
    qed
  qed
qed

lemma kinv_buf_queue_recv:
  assumes i: "kinv s" and a: "may_block s"
  shows "kinv (snd (snd (krhino_buf_queue_recv queue ticks mp sp s)))"
proof (cases queue)
  case (Some b)
  have o: "obj_ok s b" using kgoodD(5) [OF kinvD(1) [OF i]] by simp
  have pop: "\<exists>d r. ringbuf_pop (bq_ringbuf (buf_queues s b)) = Some (RHINO_SUCCESS, d, length d, r) \<and>
      kinv (upd_buf_queue b (\<lambda>x. x\<lparr>bq_ringbuf := r, bq_cur_num := bq_cur_num x - 1\<rparr>) s)"
    if ty: "obj_type (blks s b) = RHINO_BUF_QUEUE_OBJ_TYPE" and n: "\<not> ringbuf_is_empty (bq_ringbuf (buf_queues s b))"
  proof -
    obtain ms where ms: "rb_fifo (bq_ringbuf (buf_queues s b)) ms" "length ms = bq_cur_num (buf_queues s b)"
        "\<forall>m \<in> set ms. length m \<le> max_msg_size (buf_queues s b)"
      using o ty by (auto simp: obj_ok_queue buf_queue_ok_iff)
    then obtain m xs where mx: "ms = m # xs" using n rb_fifo_empty [OF ms(1)] by (cases ms) auto
    obtain r where r: "ringbuf_pop (bq_ringbuf (buf_queues s b)) = Some (RHINO_SUCCESS, m, length m, r)" "rb_fifo r xs"
      "same_shape (bq_ringbuf (buf_queues s b)) r" using ringbuf_pop_ok [of _ m xs] ms(1) mx by blast
    have "buf_queue_ok ((buf_queues s b)\<lparr>bq_ringbuf := r, bq_cur_num := bq_cur_num (buf_queues s b) - 1\<rparr>)"
      using r(2,3) o ty ms(2,3) mx by (auto simp: obj_ok_queue buf_queue_ok_iff same_shape_def intro!: exI [of _ xs])
    then have "kinv (upd_buf_queue b (\<lambda>x. x\<lparr>bq_ringbuf := r, bq_cur_num := bq_cur_num x - 1\<rparr>) s)"
      using o ty ms(2) mx by (intro kinv_upd_buf_queue [OF i]) (auto simp: obj_ok_queue upd_buf_queue_def)
    with r(1) show ?thesis by blast
  qed
  have "kinv (core_sched (pend_to_blk_obj b (g_active_task s) ticks s))"
    if ty: "obj_type (blks s b) = RHINO_BUF_QUEUE_OBJ_TYPE" and "g_intrpt_nested_level s = 0" "g_sched_lock s = 0"
      and e: "ringbuf_is_empty (bq_ringbuf (buf_queues s b))"
  proof -
    have "bq_cur_num (buf_queues s b) = 0"
      using o ty e rb_fifo_empty by (fastforce simp: obj_ok_queue buf_queue_ok_iff)
    then show ?thesis
      using that o by (intro kinv_block_on [OF i _ _ a]) (simp_all add: is_mutex_def obj_ok_def block_def Let_def)
  qed
  with pop show ?thesis
    using Some i by (auto simp: krhino_buf_queue_recv_def word_gt_0)
qed (simp add: krhino_buf_queue_recv_def i)

lemma kinv_buf_queue_flush:
  assumes i: "kinv s"
  shows "kinv (snd (krhino_buf_queue_flush queue s))"
proof (cases queue)
  case (Some b)
  let ?s = "upd_buf_queue b (\<lambda>x. x\<lparr>bq_ringbuf := ringbuf_reset (bq_ringbuf x), bq_cur_num := 0, bq_peak_num := 0,
    min_free_buf_size := freesize (ringbuf_reset (bq_ringbuf x))\<rparr>) s"
  have "kinv ?s" if ty: "obj_type (blks s b) = RHINO_BUF_QUEUE_OBJ_TYPE"
  proof (rule kinv_upd_buf_queue [OF i])
    have "obj_ok s b" using kgoodD(5) [OF kinvD(1) [OF i]] by simp
    then obtain ms where ms: "rb_fifo (bq_ringbuf (buf_queues s b)) ms" and q: "buf_queue_ok (buf_queues s b)"
      using ty by (auto simp: obj_ok_queue buf_queue_ok_iff)
    from rb_fifo_reset [OF ms] q show "obj_ok ?s b"
      using ty by (auto simp: obj_ok_queue upd_buf_queue_def buf_queue_ok_iff same_shape_def)
  qed
  then show ?thesis using Some i by (simp add: krhino_buf_queue_flush_def Let_def upd_buf_queue_def)
qed (simp add: krhino_buf_queue_flush_def i)

end
