(* ===== verification/Event_Safe.thy ===== *)
theory Event_Safe
  imports Task_Safe
begin

text \<open>
  Every operation on event flags keeps the kernel invariant; in particular no task is left
  waiting for flags that are set.
\<close>

unbundle bit_operations_syntax

section \<open>Matching\<close>

text \<open>Clearing flags satisfies nobody.\<close>

lemma event_match_mono:
  assumes "event_match (cur AND m) req opt" shows "event_match cur req opt"
proof (cases "opt AND RHINO_FLAGS_AND_MASK \<noteq> 0")
  case True
  then have "(cur AND m) AND req = req" using assms by (simp add: event_match_def)
  then have "cur AND req = req" by (metis and.assoc and.commute and.left_idem)
  with True show ?thesis by (simp add: event_match_def)
next
  case False
  then have "(cur AND m) AND req \<noteq> 0" using assms by (simp add: event_match_def word_gt_0)
  then have "cur AND req \<noteq> 0" by (metis and.assoc and.commute and_zero_eq)
  with False show ?thesis by (simp add: event_match_def word_gt_0)
qed

section \<open>Creation and deletion\<close>

lemma kinv_event_create:
  assumes i: "kinv s" and f: "free_obj s event"
  shows "kinv (snd (event_create event name_ok fl a s))"
proof (cases event)
  case (Some b)
  let ?s = "snd (event_create (Some b) True fl a s)"
  have "kgood {b} ?s"
    using free_obj_empty [OF kinvD(1) [OF i], of b] f Some
    by (intro kgood_new_obj [OF kinvD(1) [OF i], of b]) (auto simp: event_create_def upd_defs Let_def is_mutex_def)
  then have "kgood {} ?s"
    by (rule kgood_finish) (simp add: obj_ok_def event_create_def upd_defs Let_def)
  moreover have "run_ok ?s"
    by (rule run_ok_cong [OF kinvD(2) [OF i]]) (simp_all add: event_create_def upd_defs Let_def)
  ultimately have "kinv ?s" by (simp add: kinv_def)
  then show ?thesis using i Some by (cases name_ok) (simp_all add: event_create_def)
qed (simp add: event_create_def i)

lemma kgood_upd_event:
  assumes g: "kgood X s" and ok: "obj_ok (upd_event b f s) b \<or> b \<in> X"
  shows "kgood X (upd_event b f s)"
proof -
  note d = kgoodD [OF g]
  have "obj_ok (upd_event b f s) c" if "c \<notin> X" for c
    using ok d(5) [OF that] that by (cases "c = b") (auto intro!: obj_ok_frame [of s c] simp: upd_event_def)
  moreover have "kbase (upd_event b f s)" using d(1) by (simp add: kbase_def upd_event_def)
  ultimately show ?thesis using d by (simp add: kgood_def lock_ok_def upd_event_def)
qed

lemma kinv_upd_event: "kinv s \<Longrightarrow> obj_ok (upd_event b f s) b \<Longrightarrow> kinv (upd_event b f s)"
  using kgood_upd_event [of "{}" s b f] run_ok_cong [of s "upd_event b f s"] by (simp add: kinv_def upd_event_def)

lemma kinv_event_del:
  assumes i: "kinv s"
  shows "kinv (snd (event_del a event s))"
proof (cases event)
  case (Some b)
  let ?d = "drain pend_task_rm b (upd_blk b (\<lambda>o'. o'\<lparr>obj_type := RHINO_OBJ_TYPE_NONE\<rparr>) s)"
  let ?e = "upd_event b (\<lambda>x. x\<lparr>flags := 0\<rparr>) ?d"
  let ?s = "?e\<lparr>g_kobj_list := (g_kobj_list ?e)\<lparr>event_head := remove1 b (event_head (g_kobj_list ?e))\<rparr>\<rparr>"
  have "kinv (core_sched ?s)" if "obj_type (blks s b) = RHINO_EVENT_OBJ_TYPE"
  proof (rule kinv_core_sched)
    have nm: "\<not> is_mutex (blks s b)" using that by (simp add: is_mutex_def)
    have d: "kgood {} ?d" using kgood_delete(1) [OF kinvD(1) [OF i] nm] .
    have "obj_ok ?d b" using kgoodD(5) [OF d] by simp
    moreover have "obj_type (blks ?d b) = RHINO_OBJ_TYPE_NONE"
      using kgood_delete(2) [OF kinvD(1) [OF i] nm] .
    ultimately have "obj_ok ?e b" by (simp add: obj_ok_def upd_event_def)
    then have "kgood {} ?e" using kgood_upd_event [OF d] by blast
    then show "kgood {} ?s" by (rule kgood_cong) simp_all
  qed
  then show ?thesis using i Some by (simp add: event_del_def Let_def)
qed (simp add: event_del_def i)

lemma kinv_event_dyn_create:
  "kinv s \<Longrightarrow> free_obj s mem \<Longrightarrow> kinv (snd (snd (krhino_event_dyn_create p n c mem s)))"
  using kinv_event_create [of s mem n c K_OBJ_DYN_ALLOC]
  by (auto simp: krhino_event_dyn_create_def kinv_mm_free split: option.splits prod.splits)

lemma kinv_event_dyn_del: "kinv s \<Longrightarrow> kinv (snd (krhino_event_dyn_del event s))"
  using kinv_event_del [of s K_OBJ_DYN_ALLOC event]
  by (auto simp: krhino_event_dyn_del_def kinv_mm_free split: option.splits prod.splits)

section \<open>Waiting\<close>

lemma obj_ok_event:
  "obj_type (blks s b) = RHINO_EVENT_OBJ_TYPE \<Longrightarrow> obj_ok s b \<longleftrightarrow>
    (\<forall>t \<in> set (blk_list (blks s b)). \<not> event_match (flags (events s b)) (pend_flags (tcb s t)) (pend_option (tcb s t)))"
  by (simp add: obj_ok_def)

lemma kinv_event_clear:
  assumes i: "kinv s" and ty: "obj_type (blks s b) = RHINO_EVENT_OBJ_TYPE"
  shows "kinv (upd_event b (\<lambda>x. x\<lparr>flags := flags x AND m\<rparr>) s)"
proof (rule kinv_upd_event [OF i])
  have "obj_ok s b" using kgoodD(5) [OF kinvD(1) [OF i]] by simp
  then show "obj_ok (upd_event b (\<lambda>x. x\<lparr>flags := flags x AND m\<rparr>) s) b"
    using ty event_match_mono by (auto simp: obj_ok_event upd_event_def)
qed

lemma kinv_event_get:
  assumes i: "kinv s" and a: "may_block s"
  shows "kinv (snd (snd (krhino_event_get event fl opt actl_ok ticks s)))"
proof (cases event)
  case (Some b)
  let ?t = "g_active_task s" and ?s = "upd_task (g_active_task s) (\<lambda>k. k\<lparr>pend_option := opt, pend_flags := fl\<rparr>) s"
  have "kinv (core_sched (pend_to_blk_obj b ?t ticks ?s))"
    if ty: "obj_type (blks s b) = RHINO_EVENT_OBJ_TYPE" and n: "g_intrpt_nested_level s = 0" and l: "g_sched_lock s = 0"
      and nm: "\<not> event_match (flags (events s b)) fl opt"
  proof -
    have r: "task_state (tcb s ?t) = K_RDY" using run_ok_active [OF kinvD(2) [OF i] n] .
    have j: "kinv ?s" using r by (intro kinv_upd_task [OF i]) (auto simp: same_core_def state_classes)
    have ac: "g_active_task ?s = ?t" by (simp add: upd_task_def)
    have ok: "obj_ok ?s b" using kgoodD(5) [OF kinvD(1) [OF j]] by simp
    have "kinv (core_sched (pend_to_blk_obj b (g_active_task ?s) ticks ?s))"
    proof (rule kinv_block_on [OF j])
      fix q
      have "obj_type (blks (block b (g_active_task ?s) ticks q ?s) b) = RHINO_EVENT_OBJ_TYPE"
        using ty by (simp add: block_def Let_def upd_task_def)
      then show "obj_ok (block b (g_active_task ?s) ticks q ?s) b"
        using ok ty nm by (auto simp: obj_ok_event block_def Let_def upd_task_def pend_tcb_def)
    qed (use n l a ty in \<open>simp_all add: upd_task_def is_mutex_def may_block_def\<close>)
    then show ?thesis using ac by simp
  qed
  then show ?thesis
    using Some i kinv_event_clear [OF i] by (auto simp: krhino_event_get_def Let_def word_gt_0)
qed (simp add: krhino_event_get_def i)

section \<open>Setting\<close>

lemma event_set_task_ok:
  assumes g: "kgood {b} s" and ty: "obj_type (blks s b) = RHINO_EVENT_OBJ_TYPE" and t: "t \<in> set (blk_list (blks s b))"
  shows "let s' = event_set_task b cur t s in kgood {b} s' \<and> obj_type (blks s' b) = RHINO_EVENT_OBJ_TYPE \<and>
    (\<forall>u. pend_flags (tcb s' u) = pend_flags (tcb s u) \<and> pend_option (tcb s' u) = pend_option (tcb s u)) \<and>
    blk_list (blks s' b) = (if event_match cur (pend_flags (tcb s t)) (pend_option (tcb s t))
      then remove1 t (blk_list (blks s b)) else blk_list (blks s b)) \<and>
    (\<exists>m. flags (events s' b) = flags (events s b) AND m)"
proof (cases "event_match cur (pend_flags (tcb s t)) (pend_option (tcb s t))")
  case False
  then show ?thesis using g ty by (auto simp: event_set_task_def Let_def intro: exI [of _ "- 1"])
next
  case True
  let ?s1 = "upd_task t (\<lambda>k. k\<lparr>pend_info := cur\<rparr>) s"
  have w: "is_pend (tcb s t)" "blk_obj (tcb s t) = Some b"
    using blk_okD(2) [OF kgood_parts(2) [OF g], of t b] t by auto
  have g1: "kgood {b} ?s1"
    using prio_okD(5) [OF kgood_parts(4) [OF g], of t] by (intro kgood_upd_task [OF g]) (auto simp: same_core_def)
  have w1: "is_pend (tcb ?s1 t)" "blk_obj (tcb ?s1 t) = Some b" using w by (simp_all add: upd_task_def is_pend_def)
  have eq: "pend_task_wakeup t ?s1 = wake BLK_FINISH t ?s1"
    using pend_task_wakeup_eq(1) [OF kgood_parts(3) [OF g1] w1(1)] .
  let ?s2 = "wake BLK_FINISH t ?s1"
  have g2: "kgood {b} ?s2" using ty by (intro kgood_wake [OF g1 w1]) (simp add: upd_task_def is_mutex_def)
  have f: "kgood {b} (upd_event b h ?s2)" for h using kgood_upd_event [OF g2] by blast
  have same: "pend_flags (tcb ?s2 u) = pend_flags (tcb s u)" "pend_option (tcb ?s2 u) = pend_option (tcb s u)"
    "obj_type (blks ?s2 b) = RHINO_EVENT_OBJ_TYPE" "blk_list (blks ?s2 b) = remove1 t (blk_list (blks s b))"
    "events ?s2 = events s" for u
    using ty by (simp_all add: wake_def wake_tcb_def upd_task_def)
  have up: "tasks (upd_event b h x) = tasks x" "blks (upd_event b h x) = blks x" "events (upd_event b h x) b = h (events x b)" for h x
    by (simp_all add: upd_event_def)
  show ?thesis
  proof (cases "pend_option (tcb ?s2 t) AND RHINO_FLAGS_CLEAR_MASK \<noteq> 0")
    case clr: True
    let ?s3 = "upd_event b (\<lambda>x. x\<lparr>flags := flags x AND NOT (pend_flags (tcb ?s2 t))\<rparr>) ?s2"
    have "event_set_task b cur t s = ?s3" using True clr eq by (simp add: event_set_task_def Let_def)
    moreover have "flags (events ?s3 b) = flags (events s b) AND NOT (pend_flags (tcb ?s2 t))" by (simp only: up same) simp
    ultimately show ?thesis using f same up True by (auto simp: Let_def)
  next
    case False
    then have "event_set_task b cur t s = ?s2" using True eq by (simp add: event_set_task_def Let_def)
    moreover have "\<exists>m. flags (events s b) = flags (events s b) AND m" by (rule exI [of _ "- 1"]) simp
    ultimately show ?thesis using g2 same True by (simp add: Let_def)
  qed
qed

lemma event_set_fold:
  assumes "kgood {b} s" and "obj_type (blks s b) = RHINO_EVENT_OBJ_TYPE"
    and "\<forall>t \<in> set ts. t \<in> set (blk_list (blks s b))" and "distinct ts"
    and "\<forall>t \<in> set (blk_list (blks s b)). t \<in> set ts \<or> \<not> event_match cur (pend_flags (tcb s t)) (pend_option (tcb s t))"
  shows "let s' = fold (event_set_task b cur) ts s in kgood {b} s' \<and> obj_type (blks s' b) = RHINO_EVENT_OBJ_TYPE \<and>
    (\<forall>t \<in> set (blk_list (blks s' b)). \<not> event_match cur (pend_flags (tcb s' t)) (pend_option (tcb s' t))) \<and>
    (\<exists>m. flags (events s' b) = flags (events s b) AND m)"
  using assms
proof (induction ts arbitrary: s)
  case Nil
  then show ?case by (auto simp: Let_def intro: exI [of _ "- 1"])
next
  case (Cons t ts)
  let ?s = "event_set_task b cur t s"
  have "t \<in> set (blk_list (blks s b))" using Cons.prems(3) by simp
  from event_set_task_ok [OF Cons.prems(1,2) this, of cur]
  have s: "kgood {b} ?s" "obj_type (blks ?s b) = RHINO_EVENT_OBJ_TYPE"
    "\<And>u. pend_flags (tcb ?s u) = pend_flags (tcb s u)" "\<And>u. pend_option (tcb ?s u) = pend_option (tcb s u)"
    "blk_list (blks ?s b) = (if event_match cur (pend_flags (tcb s t)) (pend_option (tcb s t))
      then remove1 t (blk_list (blks s b)) else blk_list (blks s b))"
    "\<exists>m. flags (events ?s b) = flags (events s b) AND m"
    by (simp_all add: Let_def)
  have d: "distinct (blk_list (blks s b))" using blk_okD(1) [OF kgood_parts(2) [OF Cons.prems(1)]] .
  have "let s' = fold (event_set_task b cur) ts ?s in kgood {b} s' \<and> obj_type (blks s' b) = RHINO_EVENT_OBJ_TYPE \<and>
    (\<forall>t \<in> set (blk_list (blks s' b)). \<not> event_match cur (pend_flags (tcb s' t)) (pend_option (tcb s' t))) \<and>
    (\<exists>m. flags (events s' b) = flags (events ?s b) AND m)"
  proof (rule Cons.IH [OF s(1,2)])
    show "\<forall>u \<in> set ts. u \<in> set (blk_list (blks ?s b))"
      using Cons.prems(3,4) d by (auto simp: s(5) set_remove1_distinct)
    show "\<forall>u \<in> set (blk_list (blks ?s b)). u \<in> set ts \<or> \<not> event_match cur (pend_flags (tcb ?s u)) (pend_option (tcb ?s u))"
      using Cons.prems(5) d by (auto simp: s(3,4,5) set_remove1_distinct split: if_splits)
  qed (use Cons.prems(4) in simp)
  then show ?case using s(6) by (auto simp: Let_def and.assoc)
qed

lemma kinv_event_set:
  assumes i: "kinv s"
  shows "kinv (snd (krhino_event_set event fl opt s))"
proof (cases event)
  case (Some b)
  let ?s1 = "upd_event b (\<lambda>x. x\<lparr>flags := flags x OR fl\<rparr>) s"
  let ?cur = "flags (events ?s1 b)"
  let ?s2 = "fold (event_set_task b ?cur) (blk_list (blks ?s1 b)) ?s1"
  have "kinv (core_sched ?s2)" if ty: "obj_type (blks s b) = RHINO_EVENT_OBJ_TYPE"
  proof (rule kinv_core_sched)
    have g: "kgood {b} s" using kgood_mono [OF kinvD(1) [OF i]] by simp
    then have g1: "kgood {b} ?s1" using kgood_upd_event [OF g] by blast
    have ty1: "obj_type (blks ?s1 b) = RHINO_EVENT_OBJ_TYPE" using ty by (simp add: upd_event_def)
    obtain m where r: "kgood {b} ?s2" "obj_type (blks ?s2 b) = RHINO_EVENT_OBJ_TYPE"
      "\<forall>t \<in> set (blk_list (blks ?s2 b)). \<not> event_match ?cur (pend_flags (tcb ?s2 t)) (pend_option (tcb ?s2 t))"
      "flags (events ?s2 b) = ?cur AND m"
      using event_set_fold [OF g1 ty1, of "blk_list (blks ?s1 b)" ?cur] blk_okD(1) [OF kgood_parts(2) [OF g1]]
      by (auto simp: Let_def)
    then show "kgood {} ?s2"
      using event_match_mono by (intro kgood_finish [OF r(1)]) (auto simp: obj_ok_event)
  qed
  then show ?thesis
    using Some i kinv_event_clear [OF i] by (auto simp: krhino_event_set_def event_set_def Let_def)
qed (simp add: krhino_event_set_def i)

end
