(* ===== verification/Tick_Safe.thy ===== *)
theory Tick_Safe
  imports Task_Safe Sem_Safe
begin

text \<open>
  The tick interrupt, the interrupt entry and exit, the scheduler lock and the end of a blocking
  call keep the kernel invariant; when a tick has been handled no timeout is overdue.
\<close>

section \<open>The clock moves\<close>

lemma sorted_map_dec:
  fixes f :: "'b \<Rightarrow> 'a::len word"
  assumes "sorted (map f xs)" and "\<And>x. x \<in> set xs \<Longrightarrow> f x \<noteq> 0"
  shows "sorted (map (\<lambda>x. f x - 1) xs)"
  using assms
proof (induction xs)
  case (Cons a xs)
  have "f a - 1 \<le> f x - 1" if "x \<in> set xs" for x
  proof -
    have "f a \<le> f x" "f a \<noteq> 0" "f x \<noteq> 0" using Cons.prems that by auto
    then show ?thesis by (simp add: word_le_nat_alt unat_minus_one)
  qed
  with Cons show ?case by auto
qed simp

lemma kcore_tick:
  assumes g: "kgood X s"
  shows "kcore X (s\<lparr>g_tick_count := g_tick_count s + 1\<rparr>)"
proof -
  let ?s = "s\<lparr>g_tick_count := g_tick_count s + 1\<rparr>" and ?f = "\<lambda>t. tick_match (tcb s t) - g_tick_count s"
  note p = kgood_parts [OF g] and d = kgoodD [OF g]
  have "?f t \<noteq> 0" if "t \<in> set (g_tick_head s)" for t
    using that d(3) tick_okD(2) [OF p(3)] by (auto simp: tick_pos_def)
  from sorted_map_dec [OF tick_okD(5) [OF p(3)] this]
  have "sorted (map (\<lambda>t. tick_match (tcb s t) - (g_tick_count s + 1)) (g_tick_head s))"
    by (simp add: diff_diff_eq)
  then have "tick_ok (tasks s) (g_tick_head s) (g_tick_count s + 1)" using p(3) by (simp add: tick_ok_def)
  moreover have "obj_ok ?s b = obj_ok s b" for b by (simp add: obj_ok_def split: kobj_type.split)
  ultimately show ?thesis using d p by (simp add: kcore_def krest_def kbase_def lock_ok_def)
qed

section \<open>One timeout expires\<close>

lemma tick_expire_task_ok:
  assumes c: "kcore X s" and t: "tick_head (tcb s t)"
  shows "kcore X (tick_expire_task t s)" and "g_tick_head (tick_expire_task t s) = remove1 t (g_tick_head s)"
    and "g_tick_count (tick_expire_task t s) = g_tick_count s"
    and "g_intrpt_nested_level (tick_expire_task t s) = g_intrpt_nested_level s"
proof -
  note b = kbaseD [OF kcoreD(1) [OF c]]
  have idle: "t \<noteq> g_idle_task"
    using tick_okD(3) [OF b(3) t] prio_okD(1) [OF b(4)] by (auto simp: state_classes)
  have "kcore X (tick_expire_task t s) \<and> g_tick_head (tick_expire_task t s) = remove1 t (g_tick_head s) \<and>
    g_tick_count (tick_expire_task t s) = g_tick_count s \<and>
    g_intrpt_nested_level (tick_expire_task t s) = g_intrpt_nested_level s"
  proof (cases "is_pend (tcb s t)")
    case True
    define ns where "ns = (if task_state (tcb s t) = K_PEND then K_RDY else K_SUSPENDED)"
    let ?r = "mutex_task_pri_reset t (unpend ns BLK_TIMEOUT t s)"
    have eq: "tick_expire_task t s = upd_task t (\<lambda>k. k\<lparr>blk_obj := None\<rparr>) ?r"
      using True unpend_rdy_eq(2,3) [OF b(3), of t BLK_TIMEOUT]
      by (auto simp: tick_expire_task_def is_pend_def ns_def Let_def)
    have "ns = K_RDY \<or> ns = K_SUSPENDED \<and> is_susp (tcb s t)"
      using True by (auto simp: ns_def is_pend_def is_susp_def)
    note u = kcore_unpend [OF c True this, of BLK_TIMEOUT]
    have "g_tick_head ?r = remove1 t (g_tick_head s)" "g_tick_count ?r = g_tick_count s"
        "g_intrpt_nested_level ?r = g_intrpt_nested_level s"
      using pri_frameD(8,9,10) [OF u(2)] by (simp_all add: unpend_def)
    then show ?thesis using u(1) unfolding eq by (simp add: upd_task_def)
  next
    case False
    then have sl: "is_sleep (tcb s t)" using tick_okD(3) [OF b(3) t] by blast
    define ns where "ns = (if task_state (tcb s t) = K_SLEEP then K_RDY else K_SUSPENDED)"
    let ?k = "(tcb s t)\<lparr>blk_state := BLK_FINISH, task_state := ns, tick_head := False\<rparr>"
    let ?q = "if ns = K_RDY then ready_list_add (prio (tcb s (g_active_task s))) (g_ready_queue s) t (prio (tcb s t))
      else g_ready_queue s"
    let ?s = "s\<lparr>tasks := (tasks s)(t := ?k), g_ready_queue := ?q, g_tick_head := remove1 t (g_tick_head s)\<rparr>"
    have nr: "task_state (tcb s t) \<noteq> K_RDY" and live: "is_live (tcb s t)" using sl by (auto simp: state_classes)
    have ac: "g_active_task s = t \<Longrightarrow> prio ?k = prio (tcb s (g_active_task s))" by simp
    have eq: "tick_expire_task t s = ?s"
      using sl t
      by (auto simp: tick_expire_task_def is_sleep_def ns_def upd_task_def tick_list_rm_def rdy_add_def Let_def fun_eq_iff
          intro!: kstate.equality)
    have "kcore X ?s"
    proof (rule kcore_set_task [OF c refl])
      show "rdy_ok ((tasks s)(t := ?k)) ?q"
        using rdy_ok_add [OF b(1) nr, of ?k "prio (tcb s t)"] rdy_ok_frame [OF b(1), of ?k t] nr
          prio_okD(6) [OF b(4) live] by (auto simp: rdy_view_def)
      show "tick_ok ((tasks s)(t := ?k)) (remove1 t (g_tick_head s)) (g_tick_count s)"
        by (rule tick_ok_rm [OF b(3)]) (auto simp: ns_def is_sleep_def)
      show "is_susp ?k \<Longrightarrow> suspend_count ?k \<noteq> 0"
        using prio_okD(5) [OF b(4), of t] sl by (auto simp: ns_def state_classes split: if_splits)
      show "0 < g_sched_lock s \<Longrightarrow> t = g_active_task s \<Longrightarrow> task_state ?k = K_RDY"
        using krestD(1) [OF kcoreD(3) [OF c]] nr by (simp add: lock_ok_def)
    qed (use sl idle in \<open>auto simp: pend_view_def state_classes ns_def\<close>)
    then show ?thesis unfolding eq by simp
  qed
  then show "kcore X (tick_expire_task t s)" "g_tick_head (tick_expire_task t s) = remove1 t (g_tick_head s)"
    "g_tick_count (tick_expire_task t s) = g_tick_count s"
    "g_intrpt_nested_level (tick_expire_task t s) = g_intrpt_nested_level s" by blast+
qed

section \<open>All due timeouts expire\<close>

lemma tick_delta_same [simp]: "tick_delta c c = 0"
  by (simp add: tick_delta_def)

lemma tick_expire_loop_ok:
  assumes "kcore X s" and "g_tick_head s = ts"
  shows "kgood X (tick_expire_loop ts s)" and "g_tick_count (tick_expire_loop ts s) = g_tick_count s"
    and "g_intrpt_nested_level (tick_expire_loop ts s) = g_intrpt_nested_level s"
proof -
  have "kgood X (tick_expire_loop ts s) \<and> g_tick_count (tick_expire_loop ts s) = g_tick_count s \<and>
      g_intrpt_nested_level (tick_expire_loop ts s) = g_intrpt_nested_level s"
    using assms
  proof (induction ts arbitrary: s)
    case Nil
    have "\<not> tick_head (tcb s t)" for t
      using tick_okD(2) [OF kbaseD(3) [OF kcoreD(1) [OF Nil.prems(1)]], of t] Nil.prems(2) by simp
    then show ?case using Nil by (simp add: kgood_kcore tick_pos_def)
  next
    case (Cons t ts)
    note tk = kbaseD(3) [OF kcoreD(1) [OF Cons.prems(1)]]
    have th: "tick_head (tcb s t)" using tick_okD(2) [OF tk, of t] Cons.prems(2) by simp
    note e = tick_expire_task_ok [OF Cons.prems(1) th]
    show ?case
    proof (cases "tick_delta (tick_match (tcb s t)) (g_tick_count s) \<le> 0")
      case True
      have "g_tick_head (tick_expire_task t s) = ts" using e(2) Cons.prems(2) by simp
      from Cons.IH [OF e(1) this] True e(3,4) show ?thesis by simp
    next
      case False
      then have first: "tick_match (tcb s t) - g_tick_count s \<noteq> 0" by auto
      have "tick_match (tcb s u) \<noteq> g_tick_count s" if "tick_head (tcb s u)" for u
      proof -
        have "u \<in> set (t # ts)" using tick_okD(2) [OF tk, of u] that Cons.prems(2) by simp
        then have "tick_match (tcb s t) - g_tick_count s \<le> tick_match (tcb s u) - g_tick_count s"
          using tick_okD(5) [OF tk] Cons.prems(2) by auto
        then show ?thesis using first by auto
      qed
      then show ?thesis using False Cons.prems(1) by (simp add: kgood_kcore tick_pos_def)
    qed
  qed
  then show "kgood X (tick_expire_loop ts s)" "g_tick_count (tick_expire_loop ts s) = g_tick_count s"
    "g_intrpt_nested_level (tick_expire_loop ts s) = g_intrpt_nested_level s" by blast+
qed

lemma tick_list_update_ok:
  assumes g: "kgood X s"
  shows "kgood X (tick_list_update 1 s)" and "g_tick_count (tick_list_update 1 s) = g_tick_count s + 1"
    and "g_intrpt_nested_level (tick_list_update 1 s) = g_intrpt_nested_level s"
  using tick_expire_loop_ok [OF kcore_tick [OF g] refl] by (simp_all add: tick_list_update_def)

section \<open>Round robin\<close>

lemma kgood_time_slice_update:
  assumes g: "kgood X s"
  shows "kgood X (time_slice_update s)"
proof (cases "cur_list_item (g_ready_queue s) (prio (tcb s (g_active_task s)))")
  case Nil
  then show ?thesis using g by (simp add: time_slice_update_def)
next
  case (Cons t rest)
  let ?p = "prio (tcb s (g_active_task s))"
  have fields: "kgood X (upd_task u f s)" if "kgood X s" "\<And>k. f k = k\<lparr>t_slice := t_slice (f k)\<rparr>" for s f u
  proof -
    have "same_core (tcb s u) (f (tcb s u))"
      using prio_okD(5) [OF kgood_parts(4) [OF that(1)], of u] by (subst that(2)) (simp add: same_core_def)
    with that(1) show ?thesis by (rule kgood_upd_task)
  qed
  let ?s1 = "if t_slice (tcb s t) > 0 then upd_task t (\<lambda>k. k\<lparr>t_slice := t_slice k - 1\<rparr>) s else s"
  have g1: "kgood X ?s1" using g fields [OF g] by simp
  have t: "task_state (tcb s t) = K_RDY" "prio (tcb s t) = ?p"
    using rdy_ok_member [OF kgood_parts(1) [OF g], of t ?p] Cons by auto
  then have t1: "task_state (tcb ?s1 t) = K_RDY" by (simp add: upd_task_def)
  obtain q where q: "ready_list_head_to_tail (g_ready_queue ?s1) (prio (tcb ?s1 t)) = Some q" "rdy_ok (tasks ?s1) q"
    using rdy_ok_rotate [OF kgood_parts(1) [OF g1] t1 refl] by blast
  have o: "obj_ok (?s1\<lparr>g_ready_queue := q\<rparr>) b = obj_ok ?s1 b" for b
    by (simp add: obj_ok_def split: kobj_type.split)
  have "kgood X (?s1\<lparr>g_ready_queue := q\<rparr>)"
    using g1 q(2) by (simp add: kgood_def kbase_def lock_ok_def o)
  then have g2: "kgood X (rdy_head_to_tail t ?s1)" using q(1) by (simp add: rdy_head_to_tail_def)
  then have "kgood X (upd_task t (\<lambda>k. k\<lparr>t_slice := time_total k\<rparr>) (rdy_head_to_tail t ?s1))" by (rule fields) simp
  with g g1 show ?thesis
    unfolding time_slice_update_def Cons by (simp add: Cons Let_def del: if_split)
qed

lemma time_slice_update_nested: "g_intrpt_nested_level (time_slice_update s) = g_intrpt_nested_level s"
  by (simp add: time_slice_update_def Let_def upd_task_def rdy_head_to_tail_def raise_fault_def split: list.split option.split)

section \<open>Interrupts and the scheduler lock\<close>

text \<open>In an interrupt handler only the scheduler lock constrains which task is active.\<close>

lemma kinv_in_intrpt: "kgood {} s \<Longrightarrow> g_intrpt_nested_level s \<noteq> 0 \<Longrightarrow> kinv s"
  using kgoodD(4) by (auto simp: kinv_def run_ok_def lock_ok_def)

lemma kgood_nested: "kgood X s \<Longrightarrow> kgood X (s\<lparr>g_intrpt_nested_level := n\<rparr>)"
  by (erule kgood_cong) simp_all

lemma kinv_intrpt_enter:
  assumes i: "kinv s" and n: "g_intrpt_nested_level s \<noteq> - 1"
  shows "kinv (snd (krhino_intrpt_enter s))"
proof -
  have "kgood {} (s\<lparr>g_intrpt_nested_level := g_intrpt_nested_level s + 1\<rparr>)" using kgood_nested [OF kinvD(1) [OF i]] .
  then show ?thesis
    using word_inc_nonzero [OF n] by (simp add: krhino_intrpt_enter_def kinv_in_intrpt)
qed

lemma intrpt_exit_core_sched:
  "krhino_intrpt_exit s = core_sched (s\<lparr>g_intrpt_nested_level := g_intrpt_nested_level s - 1\<rparr>)"
  by (simp add: krhino_intrpt_exit_def core_sched_def Let_def)

lemma kinv_intrpt_exit: "kinv s \<Longrightarrow> kinv (krhino_intrpt_exit s)"
  unfolding intrpt_exit_core_sched by (rule kinv_core_sched [OF kgood_nested [OF kinvD(1)]])

lemma kinv_tick_proc:
  assumes i: "kinv s" and n: "g_intrpt_nested_level s \<noteq> 0"
  shows "kinv (krhino_tick_proc s)"
proof (rule kinv_in_intrpt)
  show "kgood {} (krhino_tick_proc s)"
    using kgood_time_slice_update [OF tick_list_update_ok(1) [OF kinvD(1) [OF i]]] by (simp add: krhino_tick_proc_def)
  show "g_intrpt_nested_level (krhino_tick_proc s) \<noteq> 0"
    using n tick_list_update_ok(3) [OF kinvD(1) [OF i]] by (simp add: krhino_tick_proc_def time_slice_update_nested)
qed

lemma kinv_sched_disable:
  assumes i: "kinv s"
  shows "kinv (snd (krhino_sched_disable s))"
proof (cases "g_intrpt_nested_level s = 0 \<and> g_sched_lock s < 200")
  case True
  let ?s = "s\<lparr>g_sched_lock := g_sched_lock s + 1\<rparr>"
  have r: "task_state (tcb s (g_active_task s)) = K_RDY" using run_ok_active [OF kinvD(2) [OF i]] True by blast
  have l: "g_sched_lock s + 1 \<le> 200" "0 < g_sched_lock s + 1"
    using True by (auto simp: word_le_nat_alt word_less_nat_alt unat_word_ariths)
  have "obj_ok ?s b = obj_ok s b" for b by (simp add: obj_ok_def split: kobj_type.split)
  then have "kgood {} ?s" using kinvD(1) [OF i] l r by (simp add: kgood_def kbase_def lock_ok_def)
  moreover have "run_ok ?s" using r l by (auto simp: run_ok_def)
  ultimately show ?thesis using True by (auto simp: krhino_sched_disable_def kinv_def)
qed (use i in \<open>auto simp: krhino_sched_disable_def word_gt_0 not_less\<close>)

lemma kinv_sched_enable:
  assumes i: "kinv s"
  shows "kinv (snd (krhino_sched_enable s))"
proof (cases "g_intrpt_nested_level s = 0 \<and> g_sched_lock s \<noteq> 0")
  case True
  let ?s = "s\<lparr>g_sched_lock := g_sched_lock s - 1\<rparr>"
  have r: "task_state (tcb s (g_active_task s)) = K_RDY" using run_ok_active [OF kinvD(2) [OF i]] True by blast
  have l: "g_sched_lock s - 1 \<le> 200"
    using True kgoodD(7) [OF kinvD(1) [OF i]] by (simp add: word_le_nat_alt unat_minus_one)
  have "obj_ok ?s b = obj_ok s b" for b by (simp add: obj_ok_def split: kobj_type.split)
  then have g: "kgood {} ?s" using kinvD(1) [OF i] l r by (simp add: kgood_def kbase_def lock_ok_def)
  moreover have "run_ok ?s" if "0 < g_sched_lock ?s" using r that by (auto simp: run_ok_def)
  ultimately show ?thesis
    using True kinv_core_sched [OF g] by (auto simp: krhino_sched_enable_def kinv_def Let_def)
qed (use i in \<open>auto simp: krhino_sched_enable_def word_gt_0\<close>)

section \<open>The end of a blocking call\<close>

lemma kinv_pend_state_end_proc: "kinv s \<Longrightarrow> kinv (snd (pend_state_end_proc t s))"
  by (simp add: pend_state_end_proc_def kinv_err split: blk_state_t.split)

section \<open>The semaphore of a task\<close>

lemma kinv_task_sem_create:
  assumes i: "kinv s" and f: "free_obj s sem"
  shows "kinv (snd (krhino_task_sem_create task sem name_ok cnt s))"
proof -
  have "kinv (upd_task t (\<lambda>k. k\<lparr>task_sem_obj := v\<rparr>) s')" if "kinv s'" for s' t v
    using prio_okD(5) [OF kgood_parts(4) [OF kinvD(1) [OF that]], of t]
    by (intro kinv_upd_task [OF that]) (auto simp: same_core_def)
  then show ?thesis
    using i kinv_sem_create [OF i f, of name_ok cnt K_OBJ_STATIC_ALLOC]
    by (auto simp: krhino_task_sem_create_def krhino_sem_create_def split: option.splits prod.splits)
qed

lemma kinv_task_sem:
  assumes i: "kinv s"
  shows "kinv (snd (krhino_task_sem_del task s))" and "kinv (snd (krhino_task_sem_give task s))"
    and "may_block s \<Longrightarrow> kinv (snd (krhino_task_sem_take ticks s))"
    and "kinv (snd (krhino_task_sem_count_set task cnt s))"
  using kinv_sem_del [OF i] kinv_krhino_sem_give(1) [OF i] kinv_sem_take [OF i] kinv_sem_count_set [OF i] i
  by (auto simp: krhino_task_sem_del_def krhino_task_sem_give_def krhino_task_sem_take_def
      krhino_task_sem_count_set_def krhino_sem_del_def split: option.splits)

end
