(* ===== verification/Boot.thy ===== *)
theory Boot
  imports Task_Del Queue_Safe Event_Safe Tick_Safe
begin

text \<open>
  System start (\<^verbatim>\<open>k_sys.c\<close>), the kernel's own tasks: the idle task (\<^verbatim>\<open>k_idle.c\<close>) and the task that
  gives memory of deleted tasks back (\<^verbatim>\<open>k_dyn_mem_proc.c\<close>).  The lemmas show that the kernel
  starts in a state that satisfies the invariant, whatever tasks the application has created
  before the start.
\<close>

section \<open>The zero-initialised globals\<close>

definition zero_runqueue :: runqueue where
  "zero_runqueue = \<lparr>cur_list_item = (\<lambda>p. []), task_bit_map = [0, 0], highest_pri = 0\<rparr>"

definition zero_ringbuf :: k_ringbuf where
  "zero_ringbuf = ringbuf_init [0] RINGBUF_TYPE_DYN 0"

text \<open>
  The pointers \<^verbatim>\<open>g_active_task\<close> and \<^verbatim>\<open>g_preferred_ready_task\<close> are NULL until \<open>krhino_start\<close>
  sets them; no step before reads them, so the model takes any value, here the idle task.
\<close>

definition zero_kstate :: kstate where
  "zero_kstate = \<lparr>tasks = (\<lambda>t. zero_tcb),
     blks = (\<lambda>b. \<lparr>blk_list = [], blk_policy = BLK_POLICY_PRI, obj_type = RHINO_OBJ_TYPE_NONE\<rparr>),
     sems = (\<lambda>b. \<lparr>count = 0, peak_count = 0, sem_alloc = K_OBJ_NO_ALLOC\<rparr>),
     mutexes = (\<lambda>b. \<lparr>mutex_task = None, mutex_next = None, owner_nested = 0, mutex_alloc = K_OBJ_NO_ALLOC\<rparr>),
     queues = (\<lambda>b. \<lparr>q_ringbuf = zero_ringbuf, q_size = 0, q_cur_num = 0, q_peak_num = 0, q_alloc = K_OBJ_NO_ALLOC\<rparr>),
     events = (\<lambda>b. \<lparr>flags = 0, event_alloc = K_OBJ_NO_ALLOC\<rparr>),
     buf_queues = (\<lambda>b. \<lparr>bq_ringbuf = zero_ringbuf, bq_cur_num = 0, bq_peak_num = 0, max_msg_size = 0,
       min_free_buf_size = 0, bq_alloc = K_OBJ_NO_ALLOC\<rparr>),
     g_ready_queue = zero_runqueue, g_active_task = g_idle_task, g_preferred_ready_task = g_idle_task,
     g_sched_lock = 0, g_intrpt_nested_level = 0, g_sys_stat = RHINO_SUCCESS, g_idle_task_spawned = False,
     g_idle_count = 0, g_tick_count = 0, g_tick_head = [],
     g_kobj_list = \<lparr>task_head = [], mutex_head = [], sem_head = [], queue_head = [], event_head = [],
       buf_queue_head = []\<rparr>,
     g_res_list = [], errs = [], freed = [], fault = False\<rparr>"

section \<open>Start-up\<close>

definition kobj_list_init :: "kstate \<Rightarrow> kstate" where
  "kobj_list_init s = s\<lparr>g_kobj_list := \<lparr>task_head = [], mutex_head = [], sem_head = [], queue_head = [],
     event_head = [], buf_queue_head = []\<rparr>\<rparr>"

definition dyn_mem_proc_task_start :: "kstate \<Rightarrow> kstate" where
  "dyn_mem_proc_task_start s = snd (krhino_task_create (Some g_dyn_task) True 6 0 True 128 True True s)"

text \<open>\<^verbatim>\<open>sizeof(k_timer_queue_cb)\<close> is 24 and the queue has room for 20 commands.\<close>

definition ktimer_init :: "kstate \<Rightarrow> kstate" where
  "ktimer_init s =
     (let s = snd (krhino_fix_buf_queue_create (Some g_timer_queue) True (Some (replicate 480 0)) 24 20 s)
      in snd (krhino_task_create (Some g_timer_task) True 5 0 True 512 True True s))"

definition krhino_init :: "kstate \<Rightarrow> kstat \<times> kstate" where
  "krhino_init s =
     (let s = s\<lparr>g_sys_stat := RHINO_STOPPED\<rparr>;
          s = s\<lparr>g_ready_queue := runqueue_init (g_ready_queue s)\<rparr>;
          s = tick_list_init s;
          s = kobj_list_init s;
          s = s\<lparr>g_res_list := []\<rparr>;
          s = snd (krhino_sem_create (Some g_res_sem) True 0 s);
          s = dyn_mem_proc_task_start s;
          s = snd (krhino_task_create (Some g_idle_task) True RHINO_IDLE_PRI 0 True 128 True True s);
          s = ktimer_init s
      in (RHINO_SUCCESS, s))"

text \<open>\<open>krhino_start\<close> does not return when it starts the first task (\<open>Blocked\<close>).\<close>

definition krhino_start :: "kstate \<Rightarrow> kres \<times> kstate" where
  "krhino_start s =
     (if g_sys_stat s = RHINO_STOPPED then
        (case preferred_cpu_ready_task_get (g_ready_queue s) of
           None \<Rightarrow> (Blocked, raise_fault s)
         | Some preferred_task \<Rightarrow>
             let s = s\<lparr>g_preferred_ready_task := preferred_task\<rparr>;
                 s = s\<lparr>g_active_task := preferred_task\<rparr>
             in (Blocked, s\<lparr>g_sys_stat := RHINO_RUNNING\<rparr>))
      else (Returned RHINO_RUNNING, s))"

section \<open>The kernel's own tasks\<close>

text \<open>One round of the loop of the idle task.\<close>

definition idle_task :: "kstate \<Rightarrow> kstate" where
  "idle_task s = s\<lparr>g_idle_count := g_idle_count s + 1\<rparr>"

text \<open>
  The loop of \<^verbatim>\<open>dyn_mem_proc_task\<close> that runs when \<open>g_res_sem\<close> has been taken: while there is an
  entry, unlink it and free what it names.
\<close>

function dyn_mem_proc_task :: "kstate \<Rightarrow> kstate" where
  "dyn_mem_proc_task s =
     (case g_res_list s of
        [] \<Rightarrow> s
      | tmp # rest \<Rightarrow> dyn_mem_proc_task (fold krhino_mm_free tmp (s\<lparr>g_res_list := rest\<rparr>)))"
  by pat_completeness auto

lemma fold_mm_free: "fold krhino_mm_free ms s = s\<lparr>freed := freed s @ ms\<rparr>"
  by (induction ms arbitrary: s) (simp_all add: krhino_mm_free_def)

termination dyn_mem_proc_task
  by (relation "measure (\<lambda>s. length (g_res_list s))") (simp_all add: fold_mm_free)

declare dyn_mem_proc_task.simps [simp del]

lemma dyn_mem_proc_task_eq:
  "dyn_mem_proc_task s = s\<lparr>freed := freed s @ concat (g_res_list s), g_res_list := []\<rparr>"
proof (induction s rule: dyn_mem_proc_task.induct)
  case (1 s)
  show ?case
  proof (cases "g_res_list s")
    case Nil
    then show ?thesis by (simp add: dyn_mem_proc_task.simps [of s])
  next
    case (Cons tmp rest)
    from 1 [OF this] Cons show ?thesis by (simp add: dyn_mem_proc_task.simps [of s] fold_mm_free)
  qed
qed

lemma kinv_own_tasks: "kinv s \<Longrightarrow> kinv (idle_task s)" "kinv s \<Longrightarrow> kinv (dyn_mem_proc_task s)"
  by (erule kinv_cong; simp add: idle_task_def dyn_mem_proc_task_eq)+

section \<open>The state after initialisation\<close>

lemma rq_wf_zero: "rq_wf (runqueue_init zero_runqueue)"
  by (simp add: rq_wf_def runqueue_init_def zero_runqueue_def bitmap_test_def nth_Cons')

lemma rdy_ok_zero: "rdy_ok (\<lambda>t. zero_tcb) (runqueue_init zero_runqueue)"
  using rq_wf_zero by (simp add: rdy_ok_def rq.holds_def rdy_view_def zero_tcb_def runqueue_init_def zero_runqueue_def)

text \<open>Everything the invariant asks for, with \<open>g_sys_stat\<close> set as \<open>krhino_start\<close> will set it.\<close>

definition kready :: "kstate \<Rightarrow> bool" where
  "kready s \<longleftrightarrow> kgood {} (s\<lparr>g_sys_stat := RHINO_RUNNING\<rparr>) \<and> g_sys_stat s = RHINO_STOPPED \<and>
     g_intrpt_nested_level s = 0 \<and> g_sched_lock s = 0"

abbreviation boot_tasks :: "tid \<Rightarrow> ktask" where
  "boot_tasks \<equiv> (\<lambda>t. zero_tcb)
     (g_dyn_task := new_tcb 6 0 128 True K_OBJ_STATIC_ALLOC, g_idle_task := new_tcb 61 0 128 True K_OBJ_STATIC_ALLOC,
      g_timer_task := new_tcb 5 0 512 True K_OBJ_STATIC_ALLOC)"

lemmas boot_defs = krhino_init_def dyn_mem_proc_task_start_def ktimer_init_def kobj_list_init_def
  tick_list_init_def krhino_task_create_def task_create_def krhino_sem_create_def sem_create_def
  krhino_fix_buf_queue_create_def buf_queue_create_def upd_defs rdy_add_tail_def Let_def

lemma boot_fields:
  "tasks (snd (krhino_init zero_kstate)) = boot_tasks"
  "g_ready_queue (snd (krhino_init zero_kstate)) = ready_list_add_tail (ready_list_add_tail
     (ready_list_add_tail (runqueue_init zero_runqueue) g_dyn_task 6) g_idle_task 61) g_timer_task 5"
  "g_tick_head (snd (krhino_init zero_kstate)) = []" "errs (snd (krhino_init zero_kstate)) = []"
  "\<not> fault (snd (krhino_init zero_kstate))" "g_sys_stat (snd (krhino_init zero_kstate)) = RHINO_STOPPED"
  "g_intrpt_nested_level (snd (krhino_init zero_kstate)) = 0" "g_sched_lock (snd (krhino_init zero_kstate)) = 0"
  "g_idle_task_spawned (snd (krhino_init zero_kstate))" "g_res_list (snd (krhino_init zero_kstate)) = []"
  by (simp_all add: boot_defs zero_kstate_def g_idle_task_def g_dyn_task_def g_timer_task_def)

lemma boot_objects:
  "blk_list (blks (snd (krhino_init zero_kstate)) b) = []"
  "blk_policy (blks (snd (krhino_init zero_kstate)) b) = BLK_POLICY_PRI"
  "obj_type (blks (snd (krhino_init zero_kstate)) b) =
     (if b = g_res_sem then RHINO_SEM_OBJ_TYPE else if b = g_timer_queue then RHINO_BUF_QUEUE_OBJ_TYPE
      else RHINO_OBJ_TYPE_NONE)"
  "buf_queues (snd (krhino_init zero_kstate)) g_timer_queue =
     \<lparr>bq_ringbuf = ringbuf_init (replicate 480 0) RINGBUF_TYPE_FIX 24, bq_cur_num = 0, bq_peak_num = 0,
      max_msg_size = 24, min_free_buf_size = freesize (ringbuf_init (replicate 480 0) RINGBUF_TYPE_FIX 24),
      bq_alloc = K_OBJ_STATIC_ALLOC\<rparr>"
  by (simp_all add: boot_defs zero_kstate_def g_res_sem_def g_timer_queue_def)

lemma boot_ring: "rb_fifo (ringbuf_init (replicate 480 0) RINGBUF_TYPE_FIX 24) []"
    "blk_size (ringbuf_init (replicate 480 0) RINGBUF_TYPE_FIX 24) = 24"
    "rb_type (ringbuf_init (replicate 480 0) RINGBUF_TYPE_FIX 24) = RINGBUF_TYPE_FIX"
  by (rule rb_fifo_init) (simp_all add: ringbuf_init_def ringbuf_reset_def)

lemma boot_not_pend: "\<not> is_pend (boot_tasks t)" "\<not> is_sleep (boot_tasks t)" "\<not> is_susp (boot_tasks t)"
    "\<not> tick_head (boot_tasks t)" "mutex_list (boot_tasks t) = None" "prio (boot_tasks t) = b_prio (boot_tasks t)"
  by (simp_all add: state_classes) (simp_all add: zero_tcb_def)

lemma boot_rdy:
  "rdy_ok boot_tasks (ready_list_add_tail (ready_list_add_tail
     (ready_list_add_tail (runqueue_init zero_runqueue) g_dyn_task 6) g_idle_task 61) g_timer_task 5)"
  by (intro rdy_ok_add_tail rdy_ok_zero)
    (simp_all add: g_idle_task_def g_dyn_task_def g_timer_task_def zero_tcb_def)

lemma boot_prio: "prio_ok boot_tasks"
  using boot_not_pend(3)
  by (simp add: prio_ok_def g_idle_task_def g_dyn_task_def g_timer_task_def is_live_def zero_tcb_def)

theorem kready_init: "kready (snd (krhino_init zero_kstate))"
proof -
  let ?s = "snd (krhino_init zero_kstate)\<lparr>g_sys_stat := RHINO_RUNNING\<rparr>"
  have nm: "\<not> is_mutex (blks ?s m)" for m by (simp add: is_mutex_def boot_objects)
  have "kbase ?s"
    using boot_rdy boot_prio boot_not_pend by (simp add: kbase_def boot_fields blk_ok_def tick_ok_def boot_objects)
  moreover have "kmside ?s"
    using nm boot_not_pend
    by (auto simp: mside_def mtx_ok_def pi_ok_def pi_val_def holds_mutex_def waits_for_def boot_fields intro: exI [of _ "[]"])
  moreover have "obj_ok ?s b" for b
    using boot_ring by (simp add: obj_ok_def boot_objects buf_queue_ok_iff)
  ultimately show ?thesis
    using boot_not_pend by (simp add: kready_def kgood_def boot_fields tick_pos_def lock_ok_def)
qed

section \<open>Before the start\<close>

text \<open>Tasks and objects that the application creates before \<open>krhino_start\<close>.\<close>

lemma kready_task_create:
  assumes r: "kready s" and f: "free_tcb s task"
  shows "kready (snd (task_create task name_ok pri ticks buf_ok n entry_ok autorun a s))"
proof (cases task)
  case (Some t)
  let ?r = "s\<lparr>g_sys_stat := RHINO_RUNNING\<rparr>"
  have g: "kgood {} ?r" using r by (simp add: kready_def)
  show ?thesis
  proof (cases "name_ok \<and> entry_ok \<and> buf_ok \<and> n \<noteq> 0 \<and> pri < 61")
    case False
    then show ?thesis using r Some kgoodD(9) [OF g] by (auto simp: task_create_def kready_def)
  next
    case True
    let ?k = "new_tcb pri ticks n autorun a"
    have "\<not> is_live (tcb ?r t)" using f Some by (simp add: free_tcb_def)
    then have "kgood {} (?r\<lparr>tasks := (tasks ?r)(t := ?k), g_ready_queue := (if task_state ?k = K_RDY
        then ready_list_add_tail (g_ready_queue ?r) t (prio ?k) else g_ready_queue ?r)\<rparr>)"
      using True by (intro kgood_new_task [OF g]) simp_all
    then have "kgood {} (snd (task_create task name_ok pri ticks buf_ok n entry_ok autorun a s)\<lparr>g_sys_stat := RHINO_RUNNING\<rparr>)"
      by (rule kgood_cong) (use True r Some in \<open>auto simp: task_create_def Let_def upd_task_def rdy_add_tail_def kready_def\<close>)
    then show ?thesis
      using True r Some by (auto simp: kready_def task_create_def Let_def upd_task_def rdy_add_tail_def)
  qed
qed (simp add: task_create_def r)

lemma kinv_start:
  assumes "kready s"
  shows "kinv (snd (krhino_start s)) \<and> fst (krhino_start s) = Blocked"
proof -
  let ?r = "s\<lparr>g_sys_stat := RHINO_RUNNING\<rparr>"
  have g: "kgood {} ?r" using assms by (simp add: kready_def)
  note d = kgood_parts [OF g]
  obtain t where t: "preferred_cpu_ready_task_get (g_ready_queue s) = Some t" "task_state (tcb s t) = K_RDY"
    using rdy_ok_top [OF d(1) prio_okD(1) [OF d(4)]] by auto
  let ?s = "s\<lparr>g_preferred_ready_task := t, g_active_task := t, g_sys_stat := RHINO_RUNNING\<rparr>"
  have "kgood {} ?s"
  proof -
    have "obj_ok ?s b" for b using kgoodD(5) [OF g, of b] by (simp add: obj_ok_def split: kobj_type.splits)
    then show ?thesis using g t by (simp add: kgood_def kbase_def lock_ok_def)
  qed
  moreover have "run_ok ?s" using t by (simp add: run_ok_def)
  ultimately show ?thesis using assms t by (simp add: kinv_def krhino_start_def kready_def Let_def)
qed

end
