(* ===== verification/Kernel_Run.thy ===== *)
theory Kernel_Run
  imports Boot
begin

text \<open>
  The kernel as a transition system: one rule per call of the kernel interface, with the conditions
  under which a call is legal.  A call runs with interrupts masked, so a call is one step; a
  call that blocks is two, the second one when the task is scheduled again.  Which
  calls are made, by which task or interrupt handler and in which order, is left open.

  Conditions on the caller that the code does not check:
  an object or task control block is created in memory that holds no live one; the running task is
  not the idle task when it blocks; a mutex is not locked when that closes a cycle of
  waiting tasks; only live tasks are deleted; a buffer handed over has the size that is stated.
\<close>

section \<open>Steps\<close>

inductive sem_step :: "kstate \<Rightarrow> kstate \<Rightarrow> bool" where
  create: "free_obj s sem \<Longrightarrow> sem_step s (snd (krhino_sem_create sem name_ok cnt s))"
| del: "sem_step s (snd (krhino_sem_del sem s))"
| dyn_create: "free_obj s mem \<Longrightarrow> sem_step s (snd (snd (krhino_sem_dyn_create ptr_ok name_ok cnt mem s)))"
| dyn_del: "sem_step s (snd (krhino_sem_dyn_del sem s))"
| give: "sem_step s (snd (krhino_sem_give sem s))"
| give_all: "sem_step s (snd (krhino_sem_give_all sem s))"
| take: "may_block s \<Longrightarrow> sem_step s (snd (krhino_sem_take sem ticks s))"
| count_set: "sem_step s (snd (krhino_sem_count_set sem cnt s))"
| task_create: "free_obj s sem \<Longrightarrow> sem_step s (snd (krhino_task_sem_create task sem name_ok cnt s))"
| task_del: "sem_step s (snd (krhino_task_sem_del task s))"
| task_give: "sem_step s (snd (krhino_task_sem_give task s))"
| task_take: "may_block s \<Longrightarrow> sem_step s (snd (krhino_task_sem_take ticks s))"
| task_count_set: "sem_step s (snd (krhino_task_sem_count_set task cnt s))"

inductive mutex_step :: "kstate \<Rightarrow> kstate \<Rightarrow> bool" where
  create: "free_obj s mutex \<Longrightarrow> mutex_step s (snd (krhino_mutex_create mutex name_ok s))"
| del: "mutex_step s (snd (krhino_mutex_del mutex s))"
| dyn_create: "free_obj s mem \<Longrightarrow> mutex_step s (snd (snd (krhino_mutex_dyn_create ptr_ok name_ok mem s)))"
| dyn_del: "mutex_step s (snd (krhino_mutex_dyn_del mutex s))"
| lock: "may_lock s mutex \<Longrightarrow> mutex_step s (snd (krhino_mutex_lock mutex ticks s))"
| unlock: "mutex_step s (snd (krhino_mutex_unlock mutex s))"

inductive event_step :: "kstate \<Rightarrow> kstate \<Rightarrow> bool" where
  create: "free_obj s event \<Longrightarrow> event_step s (snd (krhino_event_create event name_ok fl s))"
| del: "event_step s (snd (krhino_event_del event s))"
| dyn_create: "free_obj s mem \<Longrightarrow> event_step s (snd (snd (krhino_event_dyn_create ptr_ok name_ok fl mem s)))"
| dyn_del: "event_step s (snd (krhino_event_dyn_del event s))"
| get: "may_block s \<Longrightarrow> event_step s (snd (snd (krhino_event_get event fl opt actl_ok ticks s)))"
| set: "event_step s (snd (krhino_event_set event fl opt s))"

inductive queue_step :: "kstate \<Rightarrow> kstate \<Rightarrow> bool" where
  create: "free_obj s queue \<Longrightarrow> queue_mem_ok start msg_num \<Longrightarrow>
    queue_step s (snd (krhino_queue_create queue name_ok start msg_num s))"
| del: "queue_step s (snd (krhino_queue_del queue s))"
| dyn_create: "free_obj s mem \<Longrightarrow> queue_mem_ok start msg_num \<Longrightarrow>
    queue_step s (snd (snd (krhino_queue_dyn_create ptr_ok name_ok msg_num mem start s)))"
| dyn_del: "queue_step s (snd (krhino_queue_dyn_del queue s))"
| back_send: "queue_step s (snd (krhino_queue_back_send queue m s))"
| all_send: "queue_step s (snd (krhino_queue_all_send queue m s))"
| recv: "may_block s \<Longrightarrow> queue_step s (snd (snd (krhino_queue_recv queue ticks ok s)))"
| flush: "queue_step s (snd (krhino_queue_flush queue s))"

inductive buf_queue_step :: "kstate \<Rightarrow> kstate \<Rightarrow> bool" where
  create: "free_obj s queue \<Longrightarrow> buf_mem_ok bf sz max_msg RINGBUF_TYPE_DYN \<Longrightarrow>
    buf_queue_step s (snd (krhino_buf_queue_create queue name_ok bf sz max_msg s))"
| fix_create: "free_obj s queue \<Longrightarrow> buf_mem_ok bf (msg_size * msg_num mod 2 ^ 32) msg_size RINGBUF_TYPE_FIX \<Longrightarrow>
    buf_queue_step s (snd (krhino_fix_buf_queue_create queue name_ok bf msg_size msg_num s))"
| del: "buf_queue_step s (snd (krhino_buf_queue_del queue s))"
| dyn_create: "free_obj s mem \<Longrightarrow> buf_mem_ok bf sz max_msg RINGBUF_TYPE_DYN \<Longrightarrow>
    buf_queue_step s (snd (snd (krhino_buf_queue_dyn_create ptr_ok name_ok sz max_msg mem bf s)))"
| dyn_del: "buf_queue_step s (snd (krhino_buf_queue_dyn_del queue s))"
| send: "send_ok s queue m sz \<Longrightarrow> buf_queue_step s (snd (krhino_buf_queue_send queue m sz s))"
| recv: "may_block s \<Longrightarrow> buf_queue_step s (snd (snd (krhino_buf_queue_recv queue ticks mptr_ok size_ok s)))"
| flush: "buf_queue_step s (snd (krhino_buf_queue_flush queue s))"

inductive task_step :: "kstate \<Rightarrow> kstate \<Rightarrow> bool" where
  create: "free_tcb s task \<Longrightarrow>
    task_step s (snd (krhino_task_create task name_ok pri ticks buf_ok stack entry_ok autorun s))"
| dyn_create: "free_tcb s mem \<Longrightarrow>
    task_step s (snd (snd (task_dyn_create ptr_ok name_ok pri ticks stack entry_ok autorun stk mem s)))"
| sleep: "may_block s \<Longrightarrow> task_step s (snd (krhino_task_sleep ticks s))"
| yield: "g_intrpt_nested_level s = 0 \<Longrightarrow> task_step s (snd (krhino_task_yield s))"
| suspend: "task_step s (snd (krhino_task_suspend task s))"
| resume: "task_step s (snd (krhino_task_resume task s))"
| pri_change: "(\<And>t. task = Some t \<Longrightarrow> task_state (tcb s t) \<noteq> K_SEED) \<Longrightarrow>
    task_step s (snd (snd (krhino_task_pri_change task pri old_ok s)))"
| wait_abort: "task_step s (snd (krhino_task_wait_abort task s))"
| del: "may_delete s task \<Longrightarrow> task_step s (snd (krhino_task_del task s))"
| dyn_del: "may_delete s task \<Longrightarrow> g_sched_lock s < SCHED_MAX_LOCK_COUNT \<Longrightarrow>
    task_step s (snd (krhino_task_dyn_del task s))"
| deathbed: "g_intrpt_nested_level s = 0 \<Longrightarrow> g_sched_lock s < SCHED_MAX_LOCK_COUNT \<Longrightarrow>
    task_step s (krhino_task_deathbed s)"
| time_slice_set: "task_step s (snd (krhino_task_time_slice_set task n s))"
| policy_set: "task_step s (snd (krhino_sched_policy_set task policy s))"
| info_set: "task_step s (snd (krhino_task_info_set task idx info s))"

text \<open>
  The scheduler lock, interrupts and the tick (in an interrupt handler), the end of a blocking call, and
  what the kernel's own tasks do.
\<close>

inductive sys_step :: "kstate \<Rightarrow> kstate \<Rightarrow> bool" where
  sched_disable: "sys_step s (snd (krhino_sched_disable s))"
| sched_enable: "sys_step s (snd (krhino_sched_enable s))"
| intrpt_enter: "g_intrpt_nested_level s \<noteq> - 1 \<Longrightarrow> sys_step s (snd (krhino_intrpt_enter s))"
| intrpt_exit: "g_intrpt_nested_level s \<noteq> 0 \<Longrightarrow> sys_step s (krhino_intrpt_exit s)"
| tick: "g_intrpt_nested_level s \<noteq> 0 \<Longrightarrow> sys_step s (krhino_tick_proc s)"
| block_end: "sys_step s (snd (pend_state_end_proc (g_active_task s) s))"
| idle: "sys_step s (idle_task s)"
| dyn_mem: "sys_step s (dyn_mem_proc_task s)"

inductive kstep :: "kstate \<Rightarrow> kstate \<Rightarrow> bool" where
  sem: "sem_step s s' \<Longrightarrow> kstep s s'"
| mutex: "mutex_step s s' \<Longrightarrow> kstep s s'"
| event: "event_step s s' \<Longrightarrow> kstep s s'"
| queue: "queue_step s s' \<Longrightarrow> kstep s s'"
| buf_queue: "buf_queue_step s s' \<Longrightarrow> kstep s s'"
| task: "task_step s s' \<Longrightarrow> kstep s s'"
| sys: "sys_step s s' \<Longrightarrow> kstep s s'"

text \<open>Booting: initialisation, any number of tasks, start.\<close>

inductive kboot :: "kstate \<Rightarrow> bool" where
  init: "kboot (snd (krhino_init zero_kstate))"
| create: "kboot s \<Longrightarrow> free_tcb s task \<Longrightarrow>
    kboot (snd (krhino_task_create task name_ok pri ticks buf_ok stack entry_ok autorun s))"

inductive kstarted :: "kstate \<Rightarrow> bool" where
  start: "kboot s \<Longrightarrow> kstarted (snd (krhino_start s))"

definition reachable :: "kstate \<Rightarrow> bool" where
  "reachable s \<longleftrightarrow> (\<exists>s0. kstarted s0 \<and> kstep\<^sup>*\<^sup>* s0 s)"

section \<open>Every step keeps the invariant\<close>

lemmas sem_kinv = kinv_sem_create kinv_sem_del kinv_sem_dyn_create kinv_sem_dyn_del kinv_krhino_sem_give
  kinv_sem_take kinv_sem_count_set kinv_task_sem_create kinv_task_sem

lemma kinv_sem_step: "sem_step s s' \<Longrightarrow> kinv s \<Longrightarrow> kinv s'"
  by (cases rule: sem_step.cases) (auto simp: krhino_sem_create_def krhino_sem_del_def intro: sem_kinv)

lemma kinv_mutex_step: "mutex_step s s' \<Longrightarrow> kinv s \<Longrightarrow> kinv s'"
  by (cases rule: mutex_step.cases) (auto simp: krhino_mutex_create_def krhino_mutex_del_def
      intro: kinv_mutex_create kinv_mutex_del kinv_mutex_dyn_create kinv_mutex_dyn_del kinv_mutex_lock kinv_mutex_unlock)

lemma kinv_event_step: "event_step s s' \<Longrightarrow> kinv s \<Longrightarrow> kinv s'"
  by (cases rule: event_step.cases) (auto simp: krhino_event_create_def krhino_event_del_def
      intro: kinv_event_create kinv_event_del kinv_event_dyn_create kinv_event_dyn_del kinv_event_get kinv_event_set)

lemma kinv_queue_step: "queue_step s s' \<Longrightarrow> kinv s \<Longrightarrow> kinv s'"
  by (cases rule: queue_step.cases) (auto simp: krhino_queue_create_def krhino_queue_del_def
      krhino_queue_back_send_def krhino_queue_all_send_def
      intro: kinv_queue_create kinv_queue_del kinv_queue_dyn_create kinv_queue_dyn_del kinv_msg_send
        kinv_queue_recv kinv_queue_flush)

lemma kinv_buf_queue_step: "buf_queue_step s s' \<Longrightarrow> kinv s \<Longrightarrow> kinv s'"
  by (cases rule: buf_queue_step.cases) (auto simp: krhino_buf_queue_create_def krhino_buf_queue_del_def
      krhino_fix_buf_queue_create_def
      intro: kinv_buf_queue_create kinv_buf_queue_del kinv_buf_queue_dyn_create kinv_buf_queue_dyn_del
        kinv_buf_queue_send kinv_buf_queue_recv kinv_buf_queue_flush)

lemma kinv_task_step: "task_step s s' \<Longrightarrow> kinv s \<Longrightarrow> kinv s'"
  by (cases rule: task_step.cases) (auto simp: krhino_task_create_def
      intro: kinv_task_create kinv_task_dyn_create kinv_task_sleep kinv_task_yield kinv_krhino_task_suspend
        kinv_krhino_task_resume kinv_task_pri_change kinv_task_wait_abort kinv_task_del kinv_task_dyn_del
        kinv_task_deathbed kinv_task_fields)

lemma kinv_sys_step: "sys_step s s' \<Longrightarrow> kinv s \<Longrightarrow> kinv s'"
  by (cases rule: sys_step.cases) (auto intro: kinv_sched_disable kinv_sched_enable kinv_intrpt_enter kinv_intrpt_exit
      kinv_tick_proc kinv_pend_state_end_proc kinv_own_tasks)

lemma kinv_kstep: "kstep s s' \<Longrightarrow> kinv s \<Longrightarrow> kinv s'"
  by (cases rule: kstep.cases) (auto intro: kinv_sem_step kinv_mutex_step kinv_event_step kinv_queue_step
      kinv_buf_queue_step kinv_task_step kinv_sys_step)

lemma kready_kboot: "kboot s \<Longrightarrow> kready s"
  by (induction rule: kboot.induct) (auto simp: kready_init krhino_task_create_def kready_task_create)

lemma kinv_kstarted: "kstarted s \<Longrightarrow> kinv s"
  by (cases rule: kstarted.cases) (auto simp: kinv_start dest: kready_kboot)

section \<open>The invariant of the kernel\<close>

interpretation kern: invariant_system kstarted kstep kinv
  by unfold_locales (auto intro: kinv_kstarted kinv_kstep)

lemma reachable_kinv: "reachable s \<Longrightarrow> kinv s"
  using kern.reach_inv by (auto simp: reachable_def)

lemma reachable_kstep: "reachable s \<Longrightarrow> kstep s s' \<Longrightarrow> reachable s'"
  unfolding reachable_def by (meson rtranclp.rtrancl_into_rtrancl)

section \<open>A started kernel\<close>

definition started_kernel :: kstate where
  "started_kernel = snd (krhino_start (snd (krhino_init zero_kstate)))"

lemma reachable_started: "reachable started_kernel"
  unfolding reachable_def started_kernel_def by (blast intro: kstarted.start kboot.init)

lemma boot_top: "preferred_cpu_ready_task_get (ready_list_add_tail (ready_list_add_tail
    (ready_list_add_tail (runqueue_init zero_runqueue) g_dyn_task 6) g_idle_task 61) g_timer_task 5) = Some g_timer_task"
  by (simp add: preferred_cpu_ready_task_get_def ready_list_add_tail_def is_ready_list_empty_def ready_list_init_def
      runqueue_init_def zero_runqueue_def Let_def)

lemma boot_count: "g_tick_count (snd (krhino_init zero_kstate)) = 0"
  by (simp add: boot_defs zero_kstate_def)

lemma started_fields:
  "tasks started_kernel = boot_tasks" "g_active_task started_kernel = g_timer_task"
  "g_intrpt_nested_level started_kernel = 0" "g_sched_lock started_kernel = 0"
  "g_tick_count started_kernel = 0" "g_tick_head started_kernel = []"
  "blks started_kernel = blks (snd (krhino_init zero_kstate))"
  "sems started_kernel = sems (snd (krhino_init zero_kstate))"
  using boot_count by (simp_all add: started_kernel_def krhino_start_def boot_fields boot_top Let_def)

end
