(* ===== verification/Time_Props.thy ===== *)
theory Time_Props
  imports Kernel_Run
begin

text \<open>
  Time: which tasks a tick wakes, how far the truncation of the remaining time to a 32-bit
  \<^verbatim>\<open>int\<close> in \<^verbatim>\<open>k_tick.c\<close> reaches, and the conversions between ticks and milliseconds.
\<close>

section \<open>One tick\<close>

text \<open>What the rest of a task is while another task's timeout expires.\<close>

definition tick_same :: "ktask \<Rightarrow> ktask \<Rightarrow> bool" where
  "tick_same k k' \<longleftrightarrow> task_state k' = task_state k \<and> tick_head k' = tick_head k \<and>
     tick_match k' = tick_match k \<and> blk_state k' = blk_state k \<and> blk_obj k' = blk_obj k"

lemma tick_same_refl [simp]: "tick_same k k"
  and tick_same_trans: "tick_same a b \<Longrightarrow> tick_same b c \<Longrightarrow> tick_same a c"
  by (simp_all add: tick_same_def)

lemma tick_same_pri_frame: "pri_frame s s' \<Longrightarrow> tick_same (tcb s u) (tcb s' u)"
  unfolding tick_same_def by (intro conjI; subst pri_frameD(18), assumption, simp)

text \<open>The state of a task whose timeout has expired.\<close>

definition expired :: "ktask \<Rightarrow> ktask \<Rightarrow> bool" where
  "expired k k' \<longleftrightarrow> \<not> tick_head k' \<and>
     task_state k' = (if is_susp k then K_SUSPENDED else K_RDY) \<and>
     blk_state k' = (if is_pend k then BLK_TIMEOUT else BLK_FINISH)"

lemma tick_expire_task_tcb:
  assumes c: "kcore X s" and t: "tick_head (tcb s t)"
  shows "expired (tcb s t) (tcb (tick_expire_task t s) t)"
    and "u \<noteq> t \<Longrightarrow> tick_same (tcb s u) (tcb (tick_expire_task t s) u)"
proof -
  note b = kbaseD [OF kcoreD(1) [OF c]]
  have "expired (tcb s t) (tcb (tick_expire_task t s) t) \<and>
    (u \<noteq> t \<longrightarrow> tick_same (tcb s u) (tcb (tick_expire_task t s) u))"
  proof (cases "is_pend (tcb s t)")
    case True
    define ns where "ns = (if task_state (tcb s t) = K_PEND then K_RDY else K_SUSPENDED)"
    let ?r = "mutex_task_pri_reset t (unpend ns BLK_TIMEOUT t s)"
    have eq: "tick_expire_task t s = upd_task t (\<lambda>k. k\<lparr>blk_obj := None\<rparr>) ?r"
      using True unpend_rdy_eq(2,3) [OF b(3), of t BLK_TIMEOUT]
      by (auto simp: tick_expire_task_def is_pend_def ns_def Let_def)
    have "ns = K_RDY \<or> ns = K_SUSPENDED \<and> is_susp (tcb s t)"
      using True by (auto simp: ns_def is_pend_def is_susp_def)
    note u = kcore_unpend(2) [OF c True this, of BLK_TIMEOUT]
    have tcb: "tcb ?r v = (tcb (unpend ns BLK_TIMEOUT t s) v)\<lparr>prio := prio (tcb ?r v)\<rparr>" for v
      by (rule pri_frameD(18) [OF u])
    have "task_state (tcb ?r t) = ns" "blk_state (tcb ?r t) = BLK_TIMEOUT" "\<not> tick_head (tcb ?r t)"
      by (subst tcb, simp add: unpend_def)+
    moreover have "tick_same (tcb s u) (tcb ?r u)" if "u \<noteq> t"
      using tick_same_pri_frame [OF u, of u] that by (simp add: unpend_def)
    ultimately show ?thesis
      using True unfolding eq by (auto simp: upd_task_def expired_def ns_def is_pend_def is_susp_def)
  next
    case False
    then have sl: "is_sleep (tcb s t)" using tick_okD(3) [OF b(3) t] by blast
    then show ?thesis
      using t False by (auto simp: tick_expire_task_def is_sleep_def is_susp_def expired_def tick_same_def upd_task_def
          tick_list_rm_def rdy_add_def Let_def)
  qed
  then show "expired (tcb s t) (tcb (tick_expire_task t s) t)"
    "u \<noteq> t \<Longrightarrow> tick_same (tcb s u) (tcb (tick_expire_task t s) u)" by blast+
qed

lemma tick_expire_loop_other:
  assumes "kcore X s" and "g_tick_head s = ts" and "\<not> tick_head (tcb s t)"
  shows "tick_same (tcb s t) (tcb (tick_expire_loop ts s) t)"
  using assms
proof (induction ts arbitrary: s)
  case (Cons u us)
  note tk = kbaseD(3) [OF kcoreD(1) [OF Cons.prems(1)]]
  have u: "tick_head (tcb s u)" using tick_okD(2) [OF tk, of u] Cons.prems(2) by simp
  note e = tick_expire_task_ok [OF Cons.prems(1) u]
  have same: "tick_same (tcb s t) (tcb (tick_expire_task u s) t)"
    using tick_expire_task_tcb(2) [OF Cons.prems(1) u, of t] u Cons.prems(3) by blast
  then have "\<not> tick_head (tcb (tick_expire_task u s) t)" using Cons.prems(3) by (simp add: tick_same_def)
  with Cons.IH [OF e(1)] e(2) Cons.prems(2) tick_same_trans [OF same] show ?case by simp
qed simp

text \<open>
  The loop over the sorted list expires exactly the due tasks, if the task looked at is less than
  \<open>2 ^ 31\<close> ticks away.
\<close>

lemma tick_expire_loop_tcb:
  assumes "kcore X s" and "g_tick_head s = ts" and "tick_head (tcb s t)"
    and "tick_match (tcb s t) - g_tick_count s < 2 ^ 31"
  shows "if tick_match (tcb s t) = g_tick_count s then expired (tcb s t) (tcb (tick_expire_loop ts s) t)
         else tick_same (tcb s t) (tcb (tick_expire_loop ts s) t)"
  using assms
proof (induction ts arbitrary: s)
  case Nil
  then show ?case using tick_okD(2) [OF kbaseD(3) [OF kcoreD(1) [OF Nil.prems(1)]], of t] by simp
next
  case (Cons u us)
  note tk = kbaseD(3) [OF kcoreD(1) [OF Cons.prems(1)]]
  let ?s = "tick_expire_task u s" and ?rem = "\<lambda>v. tick_match (tcb s v) - g_tick_count s"
  have u: "tick_head (tcb s u)" using tick_okD(2) [OF tk, of u] Cons.prems(2) by simp
  note e = tick_expire_task_ok [OF Cons.prems(1) u] and f = tick_expire_task_tcb [OF Cons.prems(1) u]
  have t: "t \<in> set (u # us)" using tick_okD(2) [OF tk, of t] Cons.prems(2,3) by simp
  then have le: "?rem u \<le> ?rem t" using tick_okD(5) [OF tk] Cons.prems(2) by auto
  then have d: "tick_delta (tick_match (tcb s u)) (g_tick_count s) = int (unat (?rem u))"
    using Cons.prems(4) unfolding tick_delta_def by (intro sint_diff_ucast_small) simp
  show ?case
  proof (cases "?rem u = 0")
    case False
    then have "?rem t \<noteq> 0" using le by auto
    moreover have "unat (?rem u) \<noteq> 0" using False by (simp add: unat_eq_0)
    then have "\<not> tick_delta (tick_match (tcb s u)) (g_tick_count s) \<le> 0" using d by linarith
    ultimately show ?thesis by auto
  next
    case True
    then have loop: "tick_expire_loop (u # us) s = tick_expire_loop us ?s" using d by simp
    have hd: "g_tick_head ?s = us" using e(2) Cons.prems(2) by simp
    show ?thesis
    proof (cases "u = t")
      case False
      have same: "tick_same (tcb s t) (tcb ?s t)" using f(2) [of t] False by simp
      from Cons.IH [OF e(1) hd] same Cons.prems(3,4) e(3)
      show ?thesis unfolding loop
        by (auto simp: tick_same_def expired_def is_susp_def is_pend_def split: if_splits)
    next
      case True
      have "\<not> tick_head (tcb ?s t)" using f(1) True by (simp add: expired_def)
      then have "tick_same (tcb ?s t) (tcb (tick_expire_loop us ?s) t)"
        by (intro tick_expire_loop_other [OF e(1) hd])
      then show ?thesis
        using f(1) True \<open>?rem u = 0\<close> unfolding loop by (auto simp: tick_same_def expired_def)
    qed
  qed
qed

lemma time_slice_update_same: "tick_same (tcb s t) (tcb (time_slice_update s) t)"
  by (simp add: time_slice_update_def Let_def upd_task_def rdy_head_to_tail_def raise_fault_def tick_same_def
      split: list.split option.split)

lemma tick_proc_tcb:
  assumes g: "kgood X s" and t: "tick_head (tcb s t)" and r: "tick_match (tcb s t) - g_tick_count s \<le> 2 ^ 31"
  shows "if tick_match (tcb s t) = g_tick_count s + 1 then expired (tcb s t) (tcb (krhino_tick_proc s) t)
         else tick_same (tcb s t) (tcb (krhino_tick_proc s) t)"
proof -
  let ?c = "s\<lparr>g_tick_count := g_tick_count s + 1\<rparr>" and ?r = "tick_match (tcb s t) - g_tick_count s"
  have nz: "?r \<noteq> 0" using kgoodD(3) [OF g] t by (auto simp: tick_pos_def)
  have "?r - 1 < 2 ^ 31"
  proof -
    have "unat (?r - 1) = unat ?r - 1" using nz by (rule unat_minus_one)
    moreover have "unat ?r \<le> 2 ^ 31" "unat ?r > 0" using r nz by (simp_all add: word_le_nat_alt unat_gt_0)
    ultimately show ?thesis by (simp add: word_less_nat_alt)
  qed
  then have "tick_match (tcb ?c t) - g_tick_count ?c < 2 ^ 31" by (simp add: diff_diff_eq)
  from tick_expire_loop_tcb [OF kcore_tick [OF g] refl _ this] t
  show ?thesis
    using time_slice_update_same [of "tick_list_update 1 s" t]
    by (auto simp: krhino_tick_proc_def tick_list_update_def expired_def tick_same_def split: if_splits)
qed

lemma mod_wrap:
  fixes u :: int
  assumes "2147483648 \<le> u" and "u < 4294967296"
  shows "(u + 2147483648) mod 4294967296 = u - 2147483648"
proof -
  have "(u + 2147483648) mod 4294967296 = (u - 2147483648 + 4294967296) mod 4294967296" by (simp add: add.commute)
  also have "\<dots> = (u - 2147483648) mod 4294967296" by (rule mod_add_self2)
  finally show ?thesis using assms by simp
qed

text \<open>A remaining time whose low 32 bits are negative as an \<^verbatim>\<open>int\<close> counts as expired.\<close>

lemma tick_delta_large:
  assumes "2 ^ 31 \<le> m - c" and "m - c < 2 ^ 32"
  shows "tick_delta m c < 0"
proof -
  let ?u = "uint (m - c)"
  have u: "?u < 2 ^ 32" "2 ^ 31 \<le> ?u" using assms by (simp_all add: word_less_alt word_le_def)
  then have "(?u + 2 ^ 31) mod 2 ^ 32 = ?u - 2 ^ 31"
    using mod_wrap [of ?u] by simp
  then have "signed_take_bit 31 ?u < 0"
    using u by (simp add: signed_take_bit_eq_take_bit_shift take_bit_eq_mod)
  then show ?thesis by (simp add: tick_delta_def ucast_minus_down signed_ucast_eq)
qed

section \<open>Conversions\<close>

text \<open>With 1000 ticks per second the conversions are exact and inverse to each other.\<close>

lemma word_mod_scale:
  fixes x :: "64 word"
  shows "(x mod 1000 * 1000) div 1000 = x mod 1000"
proof -
  have b: "unat (x mod 1000) < 1000" by (simp add: unat_mod)
  then have "unat (x mod 1000 * 1000) = unat (x mod 1000) * 1000"
    by (subst unat_mult_lem [THEN iffD1]) simp_all
  then show ?thesis by (simp add: word_unat_eq_iff unat_div)
qed

lemma ms_ticks_eq: "krhino_ms_to_ticks ms = ms" "krhino_ticks_to_ms t = t"
  using word_mod_scale [of ms] word_mod_scale [of t] div_mult_mod_eq [of ms 1000] div_mult_mod_eq [of t 1000]
  by (simp_all add: krhino_ms_to_ticks_def krhino_ticks_to_ms_def Let_def)

section \<open>A kernel whose first task sleeps\<close>

text \<open>The witnesses below run on the started kernel: its first task sleeps \<open>n\<close> ticks, then the tick interrupt comes.\<close>

definition sleeping_kernel :: "tick_t \<Rightarrow> kstate" where
  "sleeping_kernel n = snd (krhino_intrpt_enter (snd (krhino_task_sleep n started_kernel)))"

lemma sleeping_kernel:
  assumes "n \<noteq> 0"
  shows "reachable (sleeping_kernel n)" and "g_intrpt_nested_level (sleeping_kernel n) = 1"
    and "tick_head (tcb (sleeping_kernel n) g_timer_task)" and "g_tick_count (sleeping_kernel n) = 0"
    and "tick_match (tcb (sleeping_kernel n) g_timer_task) = n" and "g_tick_head (sleeping_kernel n) = [g_timer_task]"
    and "task_state (tcb (sleeping_kernel n) g_timer_task) = K_SLEEP"
proof -
  have r: "reachable (snd (krhino_task_sleep n started_kernel))"
    by (rule reachable_kstep [OF reachable_started]) (intro kstep.task task_step.sleep, simp add: may_block_def started_fields g_timer_task_def g_idle_task_def)
  have f: "g_intrpt_nested_level (snd (krhino_task_sleep n started_kernel)) = 0"
    "g_tick_count (snd (krhino_task_sleep n started_kernel)) = 0"
    "g_tick_head (snd (krhino_task_sleep n started_kernel)) = [g_timer_task]"
    "tcb (snd (krhino_task_sleep n started_kernel)) g_timer_task = (tcb started_kernel g_timer_task)
       \<lparr>task_state := K_SLEEP, tick_match := n, tick_remain := n, tick_head := True\<rparr>"
    using assms by (auto simp: krhino_task_sleep_def started_fields Let_def upd_task_def tick_list_insert_def
        tick_list_pri_insert_def rdy_rm_def raise_fault_def word_gt_0 split: option.split)
  show "reachable (sleeping_kernel n)"
    unfolding sleeping_kernel_def by (rule reachable_kstep [OF r]) (intro kstep.sys sys_step.intrpt_enter, simp add: f)
  show "g_intrpt_nested_level (sleeping_kernel n) = 1" "tick_head (tcb (sleeping_kernel n) g_timer_task)"
    "g_tick_count (sleeping_kernel n) = 0" "tick_match (tcb (sleeping_kernel n) g_timer_task) = n"
    "g_tick_head (sleeping_kernel n) = [g_timer_task]" "task_state (tcb (sleeping_kernel n) g_timer_task) = K_SLEEP"
    by (simp_all add: sleeping_kernel_def krhino_intrpt_enter_def f)
qed

section \<open>Properties\<close>





text \<open>
  The time that the power management may sleep is the least remaining time of all waiting
  tasks, and unlimited when no task waits for time.
\<close>

theorem next_sleep_ticks_least:
  assumes "reachable s"
  shows "if g_tick_head s = [] then krhino_next_sleep_ticks_get s = RHINO_WAIT_FOREVER
         else krhino_next_sleep_ticks_get s \<noteq> 0 \<and>
           krhino_next_sleep_ticks_get s = Min ((\<lambda>t. tick_match (tcb s t) - g_tick_count s) ` {t. tick_head (tcb s t)})"
proof (cases "g_tick_head s")
  case (Cons t ts)
  let ?f = "\<lambda>t. tick_match (tcb s t) - g_tick_count s"
  note g = kinvD(1) [OF reachable_kinv [OF assms]]
  note tk = kgood_parts(3) [OF g]
  have dom: "{t. tick_head (tcb s t)} = set (t # ts)" using tick_okD(2) [OF tk] Cons by auto
  have "?f t \<le> ?f u" if "u \<in> set (t # ts)" for u using tick_okD(5) [OF tk] Cons that by auto
  then have "Min (?f ` set (t # ts)) = ?f t" by (intro Min_eqI) auto
  moreover have "?f t \<noteq> 0" using kgoodD(3) [OF g] dom by (auto simp: tick_pos_def)
  ultimately show ?thesis unfolding dom using Cons by (simp add: krhino_next_sleep_ticks_get_def)
qed (simp add: krhino_next_sleep_ticks_get_def)

theorem next_sleep_ticks_least_witness: "krhino_next_sleep_ticks_get (sleeping_kernel 7) \<noteq> 0"
proof -
  have "reachable (sleeping_kernel 7)" "g_tick_head (sleeping_kernel 7) \<noteq> []" by (simp_all add: sleeping_kernel)
  then show ?thesis using next_sleep_ticks_least [of "sleeping_kernel 7"] by metis
qed

text \<open>
  With the 1000 ticks per second of the board, converting milliseconds to ticks and back is the
  identity, in both directions and for all 64-bit values.
\<close>

theorem ms_ticks_round_trip:
  "krhino_ticks_to_ms (krhino_ms_to_ticks ms) = ms \<and> krhino_ms_to_ticks (krhino_ticks_to_ms ticks) = ticks"
  by (simp add: ms_ticks_eq)

end
