(* ===== verification/Ipc_Props.thy ===== *)
theory Ipc_Props
  imports Time_Props
begin

text \<open>
  What the communication objects do for their clients, in reachable states: semaphores,
  mutexes, event flags and queues.  Each theorem describes one call on the branch that matters,
  with the task it wakes or blocks.
\<close>

section \<open>Waking one task\<close>

text \<open>The first waiter of an object, and what waking it means.\<close>

lemma first_waiter:
  assumes "kgood X s" and "blk_list (blks s b) = t # ts"
  shows "is_pend (tcb s t)" and "blk_obj (tcb s t) = Some b" and "t \<notin> set ts" and "distinct ts"
    and "blk_policy (blks s b) = BLK_POLICY_PRI \<Longrightarrow> u \<in> set ts \<Longrightarrow> prio (tcb s t) \<le> prio (tcb s u)"
proof -
  note b = kgood_parts(2) [OF assms(1)]
  show "is_pend (tcb s t)" "blk_obj (tcb s t) = Some b" using blk_okD(2) [OF b, of t b] assms(2) by auto
  show "t \<notin> set ts" "distinct ts" using blk_okD(1) [OF b, of b] assms(2) by auto
  show "prio (tcb s t) \<le> prio (tcb s u)" if "blk_policy (blks s b) = BLK_POLICY_PRI" "u \<in> set ts"
    using blk_okD(4) [OF b that(1)] assms(2) that(2) by simp
qed

lemma wakeup_first:
  assumes g: "kgood X s" and l: "blk_list (blks s b) = t # ts"
  shows "pend_task_wakeup t s = wake BLK_FINISH t s" and "blk_list (blks (wake BLK_FINISH t s) b) = ts"
    and "blk_list (blks (wake BLK_FINISH t s) c) = remove1 t (blk_list (blks s c))"
  using pend_task_wakeup_eq(1) [OF kgood_parts(3) [OF g] first_waiter(1) [OF g l]] l by (simp_all add: wake_def)

text \<open>\<open>woken k k'\<close>: the task was waiting and is not any more; its call will return success.\<close>

definition woken :: "ktask \<Rightarrow> ktask \<Rightarrow> bool" where
  "woken k k' \<longleftrightarrow> blk_state k' = BLK_FINISH \<and> blk_obj k' = None \<and> \<not> tick_head k' \<and>
     task_state k' = (if is_susp k then K_SUSPENDED else K_RDY)"

lemma woken_wake: "is_pend k \<Longrightarrow> woken k (wake_tcb BLK_FINISH k)"
  by (auto simp: woken_def is_pend_def is_susp_def)

section \<open>Blocking one task\<close>

lemma pend_to_blk_obj_nested:
  "g_intrpt_nested_level (pend_to_blk_obj b t ticks s) = g_intrpt_nested_level s"
  by (simp add: pend_to_blk_obj_def Let_def upd_task_def tick_list_insert_def tick_list_pri_insert_def rdy_rm_def
      raise_fault_def upd_blk_def pend_list_add_def split: option.split)


lemma pend_to_blk_obj_kind:
  "obj_type (blks (pend_to_blk_obj b t ticks s) c) = obj_type (blks s c)"
  "blk_policy (blks (pend_to_blk_obj b t ticks s) c) = blk_policy (blks s c)"
  by (simp_all add: pend_to_blk_obj_def Let_def upd_task_def tick_list_insert_def tick_list_pri_insert_def rdy_rm_def
      raise_fault_def upd_blk_def pend_list_add_def split: option.split)

lemma pend_to_blk_obj_fields:
  "tasks (pend_to_blk_obj b t ticks s) = (tasks s)(t := pend_tcb b ticks (g_tick_count s) (tcb s t))"
  "blk_list (blks (pend_to_blk_obj b t ticks s) b) = blk_list (blk_enter (tasks s) t (blks s b))"
  "mutexes (pend_to_blk_obj b t ticks s) = mutexes s" "g_sched_lock (pend_to_blk_obj b t ticks s) = g_sched_lock s"
  by (auto simp: pend_to_blk_obj_def Let_def upd_task_def tick_list_insert_def tick_list_pri_insert_def rdy_rm_def
      raise_fault_def upd_blk_def pend_list_add_def pend_tcb_def blk_enter_def fun_eq_iff word_gt_0
      intro: insert_before_cong split: option.split)

lemma rdy_pri_fields:
  "tasks (rdy_pri t p s) = (tasks s)(t := (tcb s t)\<lparr>prio := p\<rparr>)" "mutexes (rdy_pri t p s) = mutexes s"
  "g_sched_lock (rdy_pri t p s) = g_sched_lock s" "g_intrpt_nested_level (rdy_pri t p s) = g_intrpt_nested_level s"
  by (auto simp: rdy_pri_def rdy_rm_def raise_fault_def upd_task_def rdy_add_head_def rdy_add_tail_def Let_def fun_eq_iff
      split: option.split)

text \<open>
  \<open>queued T t L L'\<close>: \<open>t\<close> has been put into the waiting list \<open>L\<close> behind the tasks of the same or a
  higher priority and before the others.
\<close>

definition queued :: "(tid \<Rightarrow> ktask) \<Rightarrow> tid \<Rightarrow> tid list \<Rightarrow> tid list \<Rightarrow> bool" where
  "queued T t L L' \<longleftrightarrow> (\<exists>xs ys. L = xs @ ys \<and> L' = xs @ t # ys \<and>
     (\<forall>u \<in> set xs. prio (T u) \<le> prio (T t)) \<and> (\<forall>u \<in> set ys. prio (T t) < prio (T u)))"

lemma queued_insert_before:
  assumes "sorted (map (\<lambda>u. prio (T u)) L)"
  shows "queued T t L (insert_before (\<lambda>u. prio (T t) < prio (T u)) t L)"
  using assms
proof (induction L)
  case (Cons u L)
  show ?case
  proof (cases "prio (T t) < prio (T u)")
    case True
    then have "\<forall>v \<in> set (u # L). prio (T t) < prio (T v)" using Cons.prems by auto
    then show ?thesis using True unfolding queued_def by (intro exI [of _ "[]"] exI [of _ "u # L"]) simp
  next
    case False
    from Cons obtain xs ys where "L = xs @ ys" "insert_before (\<lambda>u. prio (T t) < prio (T u)) t L = xs @ t # ys"
      "\<forall>u \<in> set xs. prio (T u) \<le> prio (T t)" "\<forall>u \<in> set ys. prio (T t) < prio (T u)" by (auto simp: queued_def)
    with False show ?thesis unfolding queued_def by (intro exI [of _ "u # xs"] exI [of _ ys]) simp
  qed
qed (simp add: queued_def)

lemma block_on:
  fixes ticks :: tick_t
  assumes i: "kinv s" and n: "g_intrpt_nested_level s = 0" and l: "g_sched_lock s = 0"
    and a: "may_block s" and b: "\<not> is_mutex (blks s b)"
  defines "s' \<equiv> core_sched (pend_to_blk_obj b (g_active_task s) ticks s)" and "t \<equiv> g_active_task s"
  shows "task_state (tcb s' t) = K_PEND" and "blk_obj (tcb s' t) = Some b" and "sems s' = sems s"
    and "set (blk_list (blks s' b)) = insert t (set (blk_list (blks s b)))"
    and "blk_policy (blks s b) = BLK_POLICY_PRI \<Longrightarrow> queued (tasks s) t (blk_list (blks s b)) (blk_list (blks s' b))"
proof -
  have "g_active_task s \<noteq> g_idle_task" using a n by (simp add: may_block_def)
  with kgood_block [OF kgood_mono [OF kinvD(1) [OF i]] run_ok_active [OF kinvD(2) [OF i] n] _ b _ l, of "{b}" ticks]
  obtain q where q: "pend_to_blk_obj b t ticks s = block b t ticks q s" unfolding t_def by blast
  have f: "tasks s' = (tasks s)(t := pend_tcb b ticks (g_tick_count s) (tcb s t))"
    "blks s' = (blks s)(b := blk_enter (tasks s') t (blks s b))" "sems s' = sems s"
    using q by (simp_all add: s'_def t_def block_def Let_def)
  show "task_state (tcb s' t) = K_PEND" "blk_obj (tcb s' t) = Some b" "sems s' = sems s"
    "set (blk_list (blks s' b)) = insert t (set (blk_list (blks s b)))"
    by (simp_all add: f pend_tcb_def)
  show "queued (tasks s) t (blk_list (blks s b)) (blk_list (blks s' b))" if "blk_policy (blks s b) = BLK_POLICY_PRI"
  proof -
    have "prio (tcb s' u) = prio (tcb s u)" for u by (simp add: f pend_tcb_def)
    then have "blk_list (blks s' b) = insert_before (\<lambda>u. prio (tcb s t) < prio (tcb s u)) t (blk_list (blks s b))"
      using that by (subst f(2)) (simp add: blk_enter_def)
    then show ?thesis
      using queued_insert_before blk_okD(4) [OF kgood_parts(2) [OF kinvD(1) [OF i]] that] by metis
  qed
qed

section \<open>Semaphores\<close>

text \<open>A kernel with a new semaphore at address 7, for the witnesses.\<close>

definition sem_kernel :: "sem_count_t \<Rightarrow> kstate" where
  "sem_kernel n = snd (krhino_sem_create (Some 7) True n started_kernel)"

lemma free_7: "free_obj started_kernel (Some 7)"
  by (simp add: free_obj_def started_fields boot_objects g_res_sem_def g_timer_queue_def)

lemma sem_kernel:
  "reachable (sem_kernel n)" "obj_type (blks (sem_kernel n) 7) = RHINO_SEM_OBJ_TYPE" "count (sems (sem_kernel n) 7) = n"
  "blk_list (blks (sem_kernel n) 7) = []" "g_intrpt_nested_level (sem_kernel n) = 0" "g_sched_lock (sem_kernel n) = 0"
  "g_active_task (sem_kernel n) = g_timer_task" "blk_policy (blks (sem_kernel n) 7) = BLK_POLICY_PRI"
  "tasks (sem_kernel n) = boot_tasks"
proof -
  show "reachable (sem_kernel n)" unfolding sem_kernel_def
    by (rule reachable_kstep [OF reachable_started kstep.sem [OF sem_step.create [OF free_7]]])
qed (simp_all add: sem_kernel_def krhino_sem_create_def sem_create_def upd_defs Let_def started_fields)

text \<open>
  Taking an available semaphore takes one unit and nothing else.  Taking an unavailable one
  blocks the running task: it is queued on the semaphore behind every task of the same or a higher
  priority, and another task runs.  With \<open>RHINO_NO_WAIT\<close>, or while the scheduler is
  locked, the call fails and changes nothing.
\<close>

theorem sem_take_behaviour:
  assumes "reachable s" and "may_block s" and "g_intrpt_nested_level s = 0"
    and "obj_type (blks s b) = RHINO_SEM_OBJ_TYPE"
  shows "let r = krhino_sem_take (Some b) ticks s; s' = snd r; cur = g_active_task s in
    if count (sems s b) > 0
    then fst r = Returned RHINO_SUCCESS \<and> s' = s\<lparr>sems := (sems s)(b := (sems s b)\<lparr>count := count (sems s b) - 1\<rparr>)\<rparr>
    else if ticks = 0 then fst r = Returned RHINO_NO_PEND_WAIT \<and> s' = s
    else if g_sched_lock s > 0 then fst r = Returned RHINO_SCHED_DISABLE \<and> s' = s
    else fst r = Blocked \<and> task_state (tcb s' cur) = K_PEND \<and> blk_obj (tcb s' cur) = Some b \<and>
      g_active_task s' \<noteq> cur \<and> count (sems s' b) = 0 \<and>
      set (blk_list (blks s' b)) = insert cur (set (blk_list (blks s b))) \<and>
      (blk_policy (blks s b) = BLK_POLICY_PRI \<longrightarrow> queued (tasks s) cur (blk_list (blks s b)) (blk_list (blks s' b)))"
proof (cases "count (sems s b) > 0 \<or> ticks = 0 \<or> g_sched_lock s > 0")
  case True
  then show ?thesis using assms by (auto simp: krhino_sem_take_def upd_sem_def Let_def)
next
  case False
  let ?t = "g_active_task s"
  have i: "kinv s" using assms(1) by (rule reachable_kinv)
  have l: "g_sched_lock s = 0" and c: "count (sems s b) = 0" using False by (simp_all add: word_gt_0)
  let ?s' = "core_sched (pend_to_blk_obj b ?t ticks s)"
  have r: "krhino_sem_take (Some b) ticks s = (Blocked, ?s')"
    using False assms c by (simp add: krhino_sem_take_def)
  have nm: "\<not> is_mutex (blks s b)" using assms(4) by (simp add: is_mutex_def)
  note b = block_on [OF i assms(3) l assms(2) nm, of ticks]
  have i': "kinv ?s'" using kinv_sem_take [OF i assms(2), of "Some b" ticks] r by simp
  have "g_active_task ?s' \<noteq> ?t"
  proof -
    have "g_intrpt_nested_level ?s' = 0"
      using assms(3) by (simp add: pend_to_blk_obj_nested)
    from run_ok_active [OF kinvD(2) [OF i'] this] b(1) show ?thesis by auto
  qed
  then show ?thesis using r b c False by (simp add: Let_def)
qed

lemma may_block_started: "g_active_task s = g_timer_task \<Longrightarrow> may_block s"
  by (simp add: may_block_def g_timer_task_def g_idle_task_def)

theorem sem_take_behaviour_witness:
  "snd (krhino_sem_take (Some 7) 5 (sem_kernel 1)) =
     (sem_kernel 1)\<lparr>sems := (sems (sem_kernel 1))(7 := (sems (sem_kernel 1) 7)\<lparr>count := 0\<rparr>)\<rparr> \<and>
   fst (krhino_sem_take (Some 7) 5 (sem_kernel 0)) = Blocked"
  using sem_take_behaviour [of "sem_kernel 1" 7 5] sem_take_behaviour [of "sem_kernel 0" 7 5]
  by (simp add: sem_kernel may_block_started Let_def)

text \<open>A kernel whose first task waits for the semaphore at address 7.\<close>

definition waiting_kernel :: kstate where
  "waiting_kernel = snd (krhino_sem_take (Some 7) RHINO_WAIT_FOREVER (sem_kernel 0))"

lemma waiting_kernel:
  "reachable waiting_kernel" "obj_type (blks waiting_kernel 7) = RHINO_SEM_OBJ_TYPE"
  "blk_list (blks waiting_kernel 7) = [g_timer_task]" "task_state (tcb waiting_kernel g_timer_task) = K_PEND"
  "g_intrpt_nested_level waiting_kernel = 0" "blk_policy (blks waiting_kernel 7) = BLK_POLICY_PRI"
proof -
  note mb = may_block_started [OF sem_kernel(7)]
  show r: "reachable waiting_kernel" unfolding waiting_kernel_def
    by (rule reachable_kstep [OF sem_kernel(1) kstep.sem [OF sem_step.take [OF mb]]])
  have nm: "\<not> is_mutex (blks (sem_kernel 0) 7)" by (simp add: is_mutex_def sem_kernel)
  note b = block_on [OF reachable_kinv [OF sem_kernel(1)] sem_kernel(5,6) mb nm, of RHINO_WAIT_FOREVER]
  have eq: "waiting_kernel = core_sched (pend_to_blk_obj 7 (g_active_task (sem_kernel 0)) RHINO_WAIT_FOREVER (sem_kernel 0))"
    by (simp add: waiting_kernel_def krhino_sem_take_def sem_kernel)
  show "blk_list (blks waiting_kernel 7) = [g_timer_task]"
    using b(5) by (simp add: eq sem_kernel queued_def)
  show "task_state (tcb waiting_kernel g_timer_task) = K_PEND" using b(1) by (simp add: eq sem_kernel)
  show "g_intrpt_nested_level waiting_kernel = 0" by (simp add: eq pend_to_blk_obj_nested sem_kernel)
  show "obj_type (blks waiting_kernel 7) = RHINO_SEM_OBJ_TYPE" "blk_policy (blks waiting_kernel 7) = BLK_POLICY_PRI"
    by (simp_all add: eq pend_to_blk_obj_kind sem_kernel)
qed

text \<open>
  Giving a semaphore that tasks wait for wakes exactly one of them, the one with the highest
  priority that has waited longest, and hands the unit over to it: the count does not
  change, so no third task can take the unit first.
\<close>

theorem sem_give_wakes_first:
  assumes "reachable s" and "obj_type (blks s b) = RHINO_SEM_OBJ_TYPE" and "blk_list (blks s b) = t # ts"
  shows "let s' = snd (krhino_sem_give (Some b) s) in
    fst (krhino_sem_give (Some b) s) = RHINO_SUCCESS \<and> woken (tcb s t) (tcb s' t) \<and>
    blk_list (blks s' b) = ts \<and> sems s' = sems s \<and> (\<forall>u. u \<noteq> t \<longrightarrow> tcb s' u = tcb s u) \<and>
    (blk_policy (blks s b) = BLK_POLICY_PRI \<longrightarrow> (\<forall>u \<in> set ts. prio (tcb s t) \<le> prio (tcb s u)))"
proof -
  have g: "kgood {} s" using reachable_kinv [OF assms(1)] by (rule kinvD)
  note w = wakeup_first [OF g assms(3)] and f = first_waiter [OF g assms(3)]
  have "krhino_sem_give (Some b) s = (RHINO_SUCCESS, core_sched (wake BLK_FINISH t s))"
    using assms w(1) by (simp add: krhino_sem_give_def sem_give_def)
  then show ?thesis
    using w(2) f(1,5) woken_wake by (auto simp: Let_def) (auto simp: wake_def)
qed

theorem sem_give_wakes_first_witness:
  "woken (tcb waiting_kernel g_timer_task) (tcb (snd (krhino_sem_give (Some 7) waiting_kernel)) g_timer_task)"
  using sem_give_wakes_first [OF waiting_kernel(1,2,3)] by (simp add: Let_def)

text \<open>
  Giving a semaphore that nobody waits for and taking it again restores its count; at the
  largest count giving reports \<open>RHINO_SEM_OVF\<close> and changes nothing instead of wrapping
  around to zero.
\<close>

theorem sem_give_take_round_trip:
  assumes "obj_type (blks s b) = RHINO_SEM_OBJ_TYPE" and "blk_list (blks s b) = []" and "g_intrpt_nested_level s = 0"
  shows "if count (sems s b) = - 1 then krhino_sem_give (Some b) s = (RHINO_SEM_OVF, s)
    else let s1 = snd (krhino_sem_give (Some b) s); s2 = snd (krhino_sem_take (Some b) ticks s1) in
      fst (krhino_sem_give (Some b) s) = RHINO_SUCCESS \<and> count (sems s1 b) > count (sems s b) \<and>
      fst (krhino_sem_take (Some b) ticks s1) = Returned RHINO_SUCCESS \<and>
      count (sems s2 b) = count (sems s b) \<and> tasks s2 = tasks s \<and> blks s2 = blks s"
proof (cases "count (sems s b) = - 1")
  case False
  let ?c = "count (sems s b)"
  have c: "?c + 1 \<noteq> 0" using False by (rule word_inc_nonzero)
  have "?c < ?c + 1" using c unatSuc [of ?c] by (simp add: word_less_nat_alt add.commute)
  then show ?thesis
    using assms False c by (auto simp: krhino_sem_give_def sem_give_def krhino_sem_take_def upd_sem_def Let_def word_gt_0)
qed (use assms in \<open>simp add: krhino_sem_give_def sem_give_def\<close>)

theorem sem_give_take_round_trip_witness:
  "krhino_sem_give (Some 7) (sem_kernel (- 1)) = (RHINO_SEM_OVF, sem_kernel (- 1)) \<and>
   fst (krhino_sem_give (Some 7) (sem_kernel 3)) = RHINO_SUCCESS"
  using sem_give_take_round_trip [of "sem_kernel (- 1)" 7] sem_give_take_round_trip [of "sem_kernel 3" 7]
  by (simp add: sem_kernel Let_def)

section \<open>Mutexes\<close>

text \<open>Along a chain of waiting tasks priorities are inherited.\<close>

lemma waits_for_prio:
  assumes g: "kgood X s" and "(v, t) \<in> (waits_for (tasks s) (blks s) (mutexes s))\<^sup>+"
  shows "prio (tcb s v) \<le> prio (tcb s t)"
proof -
  have step: "prio (tcb s a) \<le> prio (tcb s b)" if ab: "(a, b) \<in> waits_for (tasks s) (blks s) (mutexes s)" for a b
  proof -
    obtain m where m: "waits_mutex (tasks s) b m" "holds_mutex (blks s) (mutexes s) a m"
      using ab by (auto simp: waits_for_def)
    then have "is_live (tcb s a)" using mtx_okD(2) [OF kgood_parts(5) [OF g]] by blast
    then show ?thesis using kgood_parts(6) [OF g] m by (auto simp: pi_ok_def pi_val_def)
  qed
  from assms(2) show ?thesis
    by (induction rule: trancl.induct) (blast intro: step order_trans)+
qed

lemma slot_set_run: "task_state (tcb (slot_set q v s) t) = task_state (tcb s t)"
  by (simp add: slot_set_def upd_task_def upd_mutex_def split: chain_slot.split)

text \<open>
  For the witnesses: the first task suspends itself, the second one locks the mutex at address 8 and
  resumes the first, which preempts it (\<open>mutex_kernel\<close>) and then waits for the mutex
  (\<open>contended_kernel\<close>).
\<close>

definition mutex_kernel :: kstate where
  "mutex_kernel = snd (krhino_task_resume (Some g_timer_task) (snd (krhino_mutex_lock (Some 8) 1
     (snd (krhino_task_suspend (Some g_timer_task) (snd (krhino_mutex_create (Some 8) True started_kernel)))))))"

definition contended_kernel :: kstate where
  "contended_kernel = snd (krhino_mutex_lock (Some 8) 1 mutex_kernel)"

lemma active_is:
  assumes "reachable s" and "g_intrpt_nested_level s = 0" and "g_sched_lock s = 0" and "task_state (tcb s t) = K_RDY"
    and "\<And>u. task_state (tcb s u) = K_RDY \<Longrightarrow> u \<noteq> t \<Longrightarrow> prio (tcb s t) < prio (tcb s u)"
  shows "g_active_task s = t"
proof -
  have i: "kinv s" using assms(1) by (rule reachable_kinv)
  have "preferred_cpu_ready_task_get (g_ready_queue s) = Some (g_active_task s)"
    using kinvD(2) [OF i] assms(2,3) by (simp add: run_ok_def)
  with rdy_ok_top [OF kgood_parts(1) [OF kinvD(1) [OF i]] assms(4)]
  have "task_state (tcb s (g_active_task s)) = K_RDY" "prio (tcb s (g_active_task s)) \<le> prio (tcb s t)"
    using assms(4) by auto
  then show ?thesis using assms(5) by fastforce
qed

lemma boot_tasks_state:
  "task_state (boot_tasks t) = (if t \<in> {g_idle_task, g_dyn_task, g_timer_task} then K_RDY else K_SEED)"
  "prio (boot_tasks g_timer_task) = 5" "prio (boot_tasks g_dyn_task) = 6" "prio (boot_tasks g_idle_task) = 61"
  by (simp_all add: zero_tcb_def) (simp_all add: g_idle_task_def g_dyn_task_def g_timer_task_def)

lemma own_tasks [simp]: "g_timer_task \<noteq> g_dyn_task" "g_timer_task \<noteq> g_idle_task" "g_dyn_task \<noteq> g_idle_task"
    "g_dyn_task \<noteq> g_timer_task" "g_idle_task \<noteq> g_timer_task" "g_idle_task \<noteq> g_dyn_task"
  by (simp_all add: g_idle_task_def g_dyn_task_def g_timer_task_def)

lemma rdy_rm_keeps [simp]:
  "tasks (rdy_rm t s) = tasks s" "blks (rdy_rm t s) = blks s" "mutexes (rdy_rm t s) = mutexes s"
  "g_sched_lock (rdy_rm t s) = g_sched_lock s" "g_intrpt_nested_level (rdy_rm t s) = g_intrpt_nested_level s"
  "g_sys_stat (rdy_rm t s) = g_sys_stat s"
  by (simp_all add: rdy_rm_def raise_fault_def split: option.split)

lemma mutex_kernel:
  shows "reachable mutex_kernel" and "g_active_task mutex_kernel = g_timer_task"
    and "g_intrpt_nested_level mutex_kernel = 0" and "g_sched_lock mutex_kernel = 0"
    and "obj_type (blks mutex_kernel 8) = RHINO_MUTEX_OBJ_TYPE" and "blk_list (blks mutex_kernel 8) = []"
    and "mutex_task (mutexes mutex_kernel 8) = Some g_dyn_task" and "owner_nested (mutexes mutex_kernel 8) = 1"
    and "task_state (tcb mutex_kernel t) = (if t \<in> {g_idle_task, g_dyn_task, g_timer_task} then K_RDY else K_SEED)"
    and "prio (tcb mutex_kernel t) = prio (boot_tasks t)"
proof -
  define k1 where "k1 = snd (krhino_mutex_create (Some 8) True started_kernel)"
  define k2 where "k2 = snd (krhino_task_suspend (Some g_timer_task) k1)"
  define k3 where "k3 = snd (krhino_mutex_lock (Some 8) 1 k2)"
  have fr: "free_obj started_kernel (Some 8)"
    by (simp add: free_obj_def started_fields boot_objects g_res_sem_def g_timer_queue_def)
  have r1: "reachable k1" unfolding k1_def
    by (rule reachable_kstep [OF reachable_started kstep.mutex [OF mutex_step.create [OF fr]]])
  have k1: "tasks k1 = boot_tasks" "g_active_task k1 = g_timer_task" "g_intrpt_nested_level k1 = 0" "g_sched_lock k1 = 0"
      "obj_type (blks k1 8) = RHINO_MUTEX_OBJ_TYPE" "mutex_task (mutexes k1 8) = None" "blk_list (blks k1 8) = []"
    by (simp_all add: k1_def krhino_mutex_create_def mutex_create_def upd_defs Let_def started_fields)
  have run: "g_sys_stat k = RHINO_RUNNING" if "reachable k" for k using kgoodD(8) [OF kinvD(1) [OF reachable_kinv [OF that]]] .
  have r2: "reachable k2" unfolding k2_def by (rule reachable_kstep [OF r1 kstep.task [OF task_step.suspend]])
  have k2: "tasks k2 = boot_tasks(g_timer_task := (boot_tasks g_timer_task)\<lparr>suspend_count := 1, task_state := K_SUSPENDED\<rparr>)"
      "g_intrpt_nested_level k2 = 0" "g_sched_lock k2 = 0" "blks k2 = blks k1" "mutexes k2 = mutexes k1"
    by (simp_all add: k2_def krhino_task_suspend_def task_suspend_def k1 upd_task_def Let_def)
  have a2: "g_active_task k2 = g_dyn_task"
    by (rule active_is [OF r2 k2(2,3)]) (auto simp: k2 zero_tcb_def split: if_splits)
  have ml: "may_lock k2 (Some 8)"
    using a2 k1(6) k2(5) by (auto simp: may_lock_def may_block_def holds_mutex_def)
  have r3: "reachable k3" unfolding k3_def by (rule reachable_kstep [OF r2 kstep.mutex [OF mutex_step.lock [OF ml]]])
  have k3: "tasks k3 = (tasks k2)(g_dyn_task := (tcb k2 g_dyn_task)\<lparr>mutex_list := Some 8\<rparr>)" "blks k3 = blks k1"
      "g_intrpt_nested_level k3 = 0" "g_sched_lock k3 = 0" "mutex_task (mutexes k3 8) = Some g_dyn_task"
      "owner_nested (mutexes k3 8) = 1"
    using run [OF r2] by (simp_all add: k3_def krhino_mutex_lock_def k1 k2 a2 mutex_own_def upd_mutex_def upd_task_def Let_def)
  have eq: "mutex_kernel = snd (krhino_task_resume (Some g_timer_task) k3)"
    by (simp add: mutex_kernel_def k3_def k2_def k1_def)
  show r4: "reachable mutex_kernel" unfolding eq by (rule reachable_kstep [OF r3 kstep.task [OF task_step.resume]])
  have k4: "tasks mutex_kernel = (tasks k3)(g_timer_task := (tcb k3 g_timer_task)\<lparr>suspend_count := 0, task_state := K_RDY\<rparr>)"
      "g_intrpt_nested_level mutex_kernel = 0" "g_sched_lock mutex_kernel = 0" "blks mutex_kernel = blks k1"
      "mutexes mutex_kernel = mutexes k3"
    by (simp_all add: eq krhino_task_resume_def task_resume_def k3 k2 upd_task_def rdy_add_def Let_def)
  show st: "task_state (tcb mutex_kernel t) = (if t \<in> {g_idle_task, g_dyn_task, g_timer_task} then K_RDY else K_SEED)"
    and pr: "prio (tcb mutex_kernel t) = prio (boot_tasks t)" for t
    by (simp_all add: k4 k3 k2) (simp add: zero_tcb_def)
  show "g_active_task mutex_kernel = g_timer_task"
    by (rule active_is [OF r4 k4(2,3)]) (auto simp: st pr boot_tasks_state split: if_splits simp del: fun_upd_apply)
  show "g_intrpt_nested_level mutex_kernel = 0" "g_sched_lock mutex_kernel = 0" "blk_list (blks mutex_kernel 8) = []"
    "obj_type (blks mutex_kernel 8) = RHINO_MUTEX_OBJ_TYPE" "mutex_task (mutexes mutex_kernel 8) = Some g_dyn_task"
    "owner_nested (mutexes mutex_kernel 8) = 1"
    by (simp_all add: k4 k3 k1)
qed

lemma may_lock_mutex_kernel: "may_lock mutex_kernel (Some 8)"
proof -
  have "\<not> waits_mutex (tasks mutex_kernel) w m" for w m by (simp add: waits_mutex_def is_pend_def mutex_kernel)
  then have "waits_for (tasks mutex_kernel) (blks mutex_kernel) (mutexes mutex_kernel) = {}" by (simp add: waits_for_def)
  then show ?thesis by (simp add: may_lock_def may_block_def mutex_kernel)
qed

text \<open>
  C22.  Locking a mutex that another task owns blocks the caller, and every owner in the chain of
  waiting owners that starts there runs at least at the caller's priority afterwards: no
  task of a priority in between can delay the caller.
\<close>

theorem mutex_lock_boosts_owners:
  assumes "reachable s" and "may_lock s (Some m)" and "g_intrpt_nested_level s = 0" and "g_sched_lock s = 0"
    and "obj_type (blks s m) = RHINO_MUTEX_OBJ_TYPE" and "mutex_task (mutexes s m) = Some u"
    and "u \<noteq> g_active_task s" and "ticks \<noteq> 0"
  shows "let s' = snd (krhino_mutex_lock (Some m) ticks s); cur = g_active_task s;
      W = waits_for (tasks s') (blks s') (mutexes s') in
    fst (krhino_mutex_lock (Some m) ticks s) = Blocked \<and> task_state (tcb s' cur) = K_PEND \<and>
    blk_obj (tcb s' cur) = Some m \<and> mutex_task (mutexes s' m) = Some u \<and> (u, cur) \<in> W \<and>
    prio (tcb s' cur) = prio (tcb s cur) \<and> (\<forall>v. (v, cur) \<in> W\<^sup>+ \<longrightarrow> prio (tcb s' v) \<le> prio (tcb s cur))"
proof -
  let ?t = "g_active_task s" and ?s' = "snd (krhino_mutex_lock (Some m) ticks s)"
  have i: "kinv s" using assms(1) by (rule reachable_kinv)
  note g = kinvD(1) [OF i]
  have mx: "is_mutex (blks s m)" using assms(5) by (simp add: is_mutex_def)
  have h: "holds_mutex (blks s) (mutexes s) u m" using mx assms(6) by (simp add: holds_mutex_def)
  have a: "?t \<noteq> g_idle_task" "(?t, u) \<notin> (waits_for (tasks s) (blks s) (mutexes s))\<^sup>*"
    using assms(2,3,7) h by (auto simp: may_lock_def may_block_def)
  define s1 where "s1 = lock_inherit ?t u s"
  have s1: "kbase s1" "pri_frame s s1" "prio (tcb s1 ?t) = prio (tcb s ?t)"
    using lock_inherit_ok [OF g mtx_okD(2,3) [OF kgood_parts(5) [OF g] h] a(2)] by (auto simp: s1_def Let_def)
  have r: "task_state (tcb s1 ?t) = K_RDY"
    using run_ok_active [OF kinvD(2) [OF i] assms(3)] by (simp add: pri_frame_tcb [OF s1(2)])
  obtain q where q: "pend_to_blk_obj m ?t ticks s1 = block m ?t ticks q s1"
    using kbase_block [OF s1(1) r a(1)] by blast
  have eq: "krhino_mutex_lock (Some m) ticks s = (Blocked, core_sched (block m ?t ticks q s1))"
    using krhino_mutex_lock_wait [OF mx assms(6,7,3,4,8) kgoodD(8) [OF g]] q by (simp add: s1_def)
  have g': "kgood {} ?s'" using kinv_mutex_lock [OF i assms(2)] by (rule kinvD)
  have f: "task_state (tcb ?s' ?t) = K_PEND" "blk_obj (tcb ?s' ?t) = Some m" "prio (tcb ?s' ?t) = prio (tcb s ?t)"
    "mutexes ?s' = mutexes s" "is_mutex (blks ?s' m)"
    using s1(3) pri_frameD(1,21) [OF s1(2)] mx
    by (simp_all add: eq block_def Let_def pend_tcb_def is_mutex_def blk_enter_def)
  then have w: "(u, ?t) \<in> waits_for (tasks ?s') (blks ?s') (mutexes ?s')"
    using assms(6) by (auto simp: waits_for_def waits_mutex_def holds_mutex_def is_pend_def)
  have "prio (tcb ?s' v) \<le> prio (tcb ?s' ?t)" if "(v, ?t) \<in> (waits_for (tasks ?s') (blks ?s') (mutexes ?s'))\<^sup>+" for v
    using waits_for_prio [OF g' that] .
  then show ?thesis using eq f w assms(6) by (simp add: Let_def)
qed

theorem mutex_lock_boosts_owners_witness:
  "prio (tcb mutex_kernel g_dyn_task) = 6 \<and> prio (tcb contended_kernel g_dyn_task) \<le> 5"
  using mutex_lock_boosts_owners [OF mutex_kernel(1) may_lock_mutex_kernel mutex_kernel(3-5,7), of 1]
  by (auto simp: mutex_kernel boot_tasks_state Let_def contended_kernel_def)

text \<open>
  Unlocking a mutex that tasks wait for makes the one with the highest priority the owner, with
  a nesting count of one, and wakes it; the mutex is never free in between.
\<close>

theorem mutex_unlock_hands_over:
  assumes "reachable s" and "g_intrpt_nested_level s = 0" and "obj_type (blks s m) = RHINO_MUTEX_OBJ_TYPE"
    and "mutex_task (mutexes s m) = Some (g_active_task s)" and "owner_nested (mutexes s m) = 1"
    and "blk_list (blks s m) = t # ts"
  shows "let s' = snd (krhino_mutex_unlock (Some m) s) in
    fst (krhino_mutex_unlock (Some m) s) = RHINO_SUCCESS \<and> mutex_task (mutexes s' m) = Some t \<and>
    owner_nested (mutexes s' m) = 1 \<and> woken (tcb s t) (tcb s' t) \<and> blk_list (blks s' m) = ts \<and>
    (\<forall>u \<in> set ts. prio (tcb s t) \<le> prio (tcb s u))"
proof -
  let ?t = "g_active_task s" and ?s1 = "upd_mutex m (\<lambda>x. x\<lparr>owner_nested := owner_nested x - 1\<rparr>) s"
  have i: "kinv s" using assms(1) by (rule reachable_kinv)
  have g: "kgood {} s" using i by (rule kinvD)
  have mx: "is_mutex (blks s m)" using assms(3) by (simp add: is_mutex_def)
  have i1: "kinv ?s1" by (rule kinv_upd_mutex [OF i]) simp_all
  have "task_state (tcb ?s1 ?t) = K_RDY" "holds_mutex (blks ?s1) (mutexes ?s1) ?t m"
    using run_ok_active [OF kinvD(2) [OF i] assms(2)] mx assms(4) by (simp_all add: upd_mutex_def holds_mutex_def)
  from kgood_release_active [OF kinvD(1) [OF i1] this(2,1)]
  obtain p q v where s2: "kgood {m} (hidden m (mutex_release ?t (Some m) ?s1))"
      "blks (mutex_release ?t (Some m) ?s1) = blks ?s1"
      "pri_frame (hidden m (slot_set q v ?s1)) (hidden m (mutex_release ?t (Some m) ?s1))" by blast
  let ?s2 = "mutex_release ?t (Some m) ?s1"
  have b2: "blks ?s2 = blks s" using s2(2) by (simp add: upd_mutex_def)
  have "tick_ok (tasks ?s2) (g_tick_head ?s2) (g_tick_count ?s2)" using kgood_parts(3) [OF s2(1)] by (simp add: hidden_def)
  moreover have tcb2: "task_state (tcb ?s2 t) = task_state (tcb s t)"
    using pri_frame_tcb(1) [OF s2(3), of t] by (simp add: hidden_def slot_set_run upd_mutex_def)
  then have "is_pend (tcb ?s2 t)" using first_waiter(1) [OF g assms(6)] by (simp add: is_pend_def)
  ultimately have w: "pend_task_wakeup t ?s2 = wake BLK_FINISH t ?s2" by (rule pend_task_wakeup_eq(1))
  let ?s3 = "upd_mutex m (\<lambda>x. x\<lparr>owner_nested := 1\<rparr>) (mutex_own m t (wake BLK_FINISH t ?s2))"
  have run: "g_sys_stat s = RHINO_RUNNING" using kgoodD(8) [OF g] .
  have eq: "krhino_mutex_unlock (Some m) s = (RHINO_SUCCESS, core_sched ?s3)"
    using run assms b2 w by (simp add: krhino_mutex_unlock_def Let_def upd_mutex_def)
  have "woken (tcb s t) (tcb ?s3 t)"
    using first_waiter(1) [OF g assms(6)] tcb2
    by (auto simp: woken_def mutex_own_def upd_mutex_def upd_task_def wake_def is_pend_def is_susp_def Let_def)
  moreover have "blk_list (blks ?s3 m) = ts"
    using assms(6) b2 by (simp add: mutex_own_def upd_mutex_def upd_task_def wake_def Let_def)
  ultimately show ?thesis
    using eq first_waiter(5) [OF g assms(6)] mtx_okD(4) [OF kgood_parts(5) [OF g] mx]
    by (simp add: Let_def mutex_own_def upd_mutex_def upd_task_def)
qed

lemma contended_kernel:
  "reachable contended_kernel" "g_intrpt_nested_level contended_kernel = 0" "g_active_task contended_kernel = g_dyn_task"
  "obj_type (blks contended_kernel 8) = RHINO_MUTEX_OBJ_TYPE" "blk_list (blks contended_kernel 8) = [g_timer_task]"
  "mutex_task (mutexes contended_kernel 8) = Some g_dyn_task" "owner_nested (mutexes contended_kernel 8) = 1"
proof -
  let ?s = "pend_to_blk_obj 8 g_timer_task 1 (rdy_pri g_dyn_task 5 mutex_kernel)"
  have "is_mutex (blks mutex_kernel 8)" by (simp add: is_mutex_def mutex_kernel)
  moreover have "g_sys_stat mutex_kernel = RHINO_RUNNING" using kgoodD(8) [OF kinvD(1) [OF reachable_kinv [OF mutex_kernel(1)]]] .
  ultimately have eq: "contended_kernel = core_sched ?s"
    using krhino_mutex_lock_wait [of mutex_kernel 8 g_dyn_task 1] task_pri_change_rdy [of mutex_kernel g_dyn_task 5]
    by (simp add: contended_kernel_def mutex_kernel lock_inherit_def boot_tasks_state del: fun_upd_apply)
  show r: "reachable contended_kernel" unfolding contended_kernel_def
    by (rule reachable_kstep [OF mutex_kernel(1) kstep.mutex [OF mutex_step.lock [OF may_lock_mutex_kernel]]])
  show n: "g_intrpt_nested_level contended_kernel = 0"
    by (simp add: eq pend_to_blk_obj_nested rdy_pri_fields mutex_kernel)
  have l: "g_sched_lock contended_kernel = 0"
    by (simp add: eq pend_to_blk_obj_fields rdy_pri_fields mutex_kernel)
  have st: "task_state (tcb contended_kernel t) = (if t = g_timer_task then K_PEND else task_state (tcb mutex_kernel t))" for t
    by (simp add: eq pend_to_blk_obj_fields rdy_pri_fields pend_tcb_def)
  have pr: "prio (tcb contended_kernel t) = (if t = g_dyn_task then 5 else prio (tcb mutex_kernel t))" for t
    by (simp add: eq pend_to_blk_obj_fields rdy_pri_fields pend_tcb_def)
  show "g_active_task contended_kernel = g_dyn_task"
    by (rule active_is [OF r n l]) (auto simp: st pr mutex_kernel boot_tasks_state split: if_splits simp del: fun_upd_apply)
  show "obj_type (blks contended_kernel 8) = RHINO_MUTEX_OBJ_TYPE"
    by (simp add: eq pend_to_blk_obj_kind rdy_pri_blks mutex_kernel)
  show "blk_list (blks contended_kernel 8) = [g_timer_task]"
    by (simp add: eq pend_to_blk_obj_fields rdy_pri_blks mutex_kernel blk_enter_def)
  show "mutex_task (mutexes contended_kernel 8) = Some g_dyn_task" "owner_nested (mutexes contended_kernel 8) = 1"
    by (simp_all add: eq pend_to_blk_obj_fields rdy_pri_fields mutex_kernel)
qed

theorem mutex_unlock_hands_over_witness:
  "mutex_task (mutexes (snd (krhino_mutex_unlock (Some 8) contended_kernel)) 8) = Some g_timer_task"
  using mutex_unlock_hands_over [OF contended_kernel(1,2,4) _ contended_kernel(7,5)] contended_kernel(3,6)
  by (simp add: Let_def)

text \<open>
  Locking a mutex that the running task already owns counts, and unlocking undoes it: the pair
  leaves the state as it was, whatever the nesting, and the count never wraps.
\<close>

theorem mutex_nested_lock_unlock:
  assumes "reachable s" and "g_intrpt_nested_level s = 0" and "obj_type (blks s m) = RHINO_MUTEX_OBJ_TYPE"
    and "mutex_task (mutexes s m) = Some (g_active_task s)" and "owner_nested (mutexes s m) > 0"
  shows "if owner_nested (mutexes s m) = - 1
    then krhino_mutex_lock (Some m) ticks s = (Returned RHINO_MUTEX_NESTED_OVF, k_err_proc RHINO_MUTEX_NESTED_OVF s)
    else fst (krhino_mutex_lock (Some m) ticks s) = Returned RHINO_MUTEX_OWNER_NESTED \<and>
      krhino_mutex_unlock (Some m) (snd (krhino_mutex_lock (Some m) ticks s)) = (RHINO_MUTEX_OWNER_NESTED, s)"
proof -
  have "g_sys_stat s = RHINO_RUNNING" using kgoodD(8) [OF kinvD(1) [OF reachable_kinv [OF assms(1)]]] .
  then show ?thesis
    using assms by (auto simp: krhino_mutex_lock_def krhino_mutex_unlock_def upd_mutex_def Let_def)
qed

theorem mutex_nested_lock_unlock_witness:
  "krhino_mutex_unlock (Some 8) (snd (krhino_mutex_lock (Some 8) 0 contended_kernel)) =
     (RHINO_MUTEX_OWNER_NESTED, contended_kernel)"
  using mutex_nested_lock_unlock [OF contended_kernel(1,2,4), of 0] by (simp add: contended_kernel)

end
