(* ===== verification/Queue_Props.thy ===== *)
theory Queue_Props
  imports Ipc_Props
begin

text \<open>
  Queues and event flags for their clients.  A queue of pointers and a buffer queue are bounded
  FIFO lists of messages; setting event flags wakes exactly the tasks whose request is met.
\<close>

unbundle bit_operations_syntax

section \<open>Pointer queues\<close>

lemma bytes_ptr_ptr_bytes [simp]: "bytes_ptr (ptr_bytes p) = p"
proof -
  have "unat p < 2 ^ 32" using unsigned_less [of p] by simp
  then show ?thesis by (simp add: bytes_ptr_def ptr_bytes_def bytes_size_size_bytes)
qed

text \<open>The messages in the queue at address \<open>b\<close>, oldest first.\<close>

definition queue_msgs :: "kstate \<Rightarrow> oid \<Rightarrow> u32 list \<Rightarrow> bool" where
  "queue_msgs s b ms \<longleftrightarrow> obj_type (blks s b) = RHINO_QUEUE_OBJ_TYPE \<and>
     rb_fifo (q_ringbuf (queues s b)) (map ptr_bytes ms) \<and> q_cur_num (queues s b) = length ms"

definition queue_kernel :: kstate where
  "queue_kernel = snd (krhino_queue_create (Some 7) True (Some (replicate 8 0)) 2 started_kernel)"

lemma queue_kernel: "reachable queue_kernel" "queue_msgs queue_kernel 7 []" "blk_list (blks queue_kernel 7) = []"
    "q_size (queues queue_kernel 7) = 2" "g_intrpt_nested_level queue_kernel = 0"
proof -
  have "queue_mem_ok (Some (replicate 8 0)) 2" by (simp add: queue_mem_ok_def)
  from kstep.queue [OF queue_step.create [OF free_7 this]]
  show "reachable queue_kernel" unfolding queue_kernel_def by (rule reachable_kstep [OF reachable_started])
  have "rb_fifo (ringbuf_init (replicate 8 0) RINGBUF_TYPE_FIX 4) []" by (rule rb_fifo_init) simp_all
  then show "queue_msgs queue_kernel 7 []"
    by (simp add: queue_msgs_def queue_kernel_def krhino_queue_create_def queue_create_def upd_defs Let_def)
qed (simp_all add: queue_kernel_def krhino_queue_create_def queue_create_def upd_defs Let_def started_fields)

text \<open>
  Sending to a queue: a full queue refuses the message and nothing changes; when tasks wait, the
  first one gets the message and is woken; otherwise the message is appended behind all others.
\<close>

theorem queue_send_fifo:
  assumes "reachable s" and "queue_msgs s b ms"
  shows "let s' = snd (krhino_queue_back_send (Some b) p s) in
    if q_size (queues s b) \<le> length ms then krhino_queue_back_send (Some b) p s = (RHINO_QUEUE_FULL, s)
    else fst (krhino_queue_back_send (Some b) p s) = RHINO_SUCCESS \<and>
      (case blk_list (blks s b) of
         [] \<Rightarrow> queue_msgs s' b (ms @ [p]) \<and> tasks s' = tasks s
       | t # ts \<Rightarrow> ms = [] \<and> queue_msgs s' b [] \<and> msg (tcb s' t) = p \<and> woken (tcb s t) (tcb s' t) \<and>
           blk_list (blks s' b) = ts)"
proof (cases "q_size (queues s b) \<le> length ms")
  case True
  then show ?thesis using assms(2) by (simp add: krhino_queue_back_send_def msg_send_def queue_msgs_def)
next
  case False
  note g = kinvD(1) [OF reachable_kinv [OF assms(1)]]
  have q: "obj_type (blks s b) = RHINO_QUEUE_OBJ_TYPE" "rb_fifo (q_ringbuf (queues s b)) (map ptr_bytes ms)"
    "q_cur_num (queues s b) = length ms" using assms(2) by (simp_all add: queue_msgs_def)
  have ok: "queue_ok (queues s b)" "q_cur_num (queues s b) > 0 \<longrightarrow> blk_list (blks s b) = []"
    using kgoodD(5) [OF g, of b] q(1) by (auto simp: obj_ok_queue)
  show ?thesis
  proof (cases "blk_list (blks s b)")
    case Nil
    obtain r' where "ringbuf_push (q_ringbuf (queues s b)) (ptr_bytes p) 4 = Some (RHINO_SUCCESS, r')"
      "rb_fifo r' (map ptr_bytes (ms @ [p]))"
      using queue_push [OF ok(1), of p] False q(2,3) by auto
    then show ?thesis
      using Nil False q by (simp add: krhino_queue_back_send_def msg_send_def queue_msgs_def upd_queue_def Let_def)
  next
    case (Cons t ts)
    let ?s = "upd_task t (\<lambda>k. k\<lparr>msg := p\<rparr>) s"
    have ms: "ms = []" using ok(2) Cons q(3) by auto
    have g1: "kgood {} ?s"
      using prio_okD(5) [OF kgood_parts(4) [OF g], of t] by (intro kgood_upd_task [OF g]) (auto simp: same_core_def)
    have l1: "blk_list (blks ?s b) = t # ts" using Cons by (simp add: upd_task_def)
    note w = wakeup_first [OF g1 l1]
    have eq: "krhino_queue_back_send (Some b) p s = (RHINO_SUCCESS, core_sched (wake BLK_FINISH t ?s))"
      using Cons False q w(1) by (simp add: krhino_queue_back_send_def msg_send_def task_msg_recv_def)
    have "woken (tcb s t) (tcb (wake BLK_FINISH t ?s) t)"
      using first_waiter(1) [OF g Cons] by (auto simp: woken_def wake_def wake_tcb_def upd_task_def is_pend_def is_susp_def)
    then show ?thesis
      using eq False q ms Cons w(2) by (simp add: Let_def queue_msgs_def) (simp add: wake_def wake_tcb_def upd_task_def)
  qed
qed

theorem queue_send_fifo_witness:
  "queue_msgs (snd (krhino_queue_back_send (Some 7) 42 queue_kernel)) 7 [42]"
  using queue_send_fifo [OF queue_kernel(1,2), of 42] by (simp add: queue_kernel Let_def)

text \<open>
  Receiving from a queue that holds messages returns the oldest one and removes it, without
  blocking, also in an interrupt handler that does not wait.
\<close>

theorem queue_recv_fifo:
  assumes "reachable s" and "queue_msgs s b (m # ms)" and "g_intrpt_nested_level s = 0 \<or> ticks = RHINO_NO_WAIT"
  shows "\<exists>s'. krhino_queue_recv (Some b) ticks True s = (Returned RHINO_SUCCESS, Some m, s') \<and>
    queue_msgs s' b ms \<and> tasks s' = tasks s \<and> blks s' = blks s"
proof -
  obtain r where "ringbuf_pop (q_ringbuf (queues s b)) = Some (RHINO_SUCCESS, ptr_bytes m, length (ptr_bytes m), r)"
    "rb_fifo r (map ptr_bytes ms)"
    using ringbuf_pop_ok [of _ "ptr_bytes m" "map ptr_bytes ms"] assms(2) by (auto simp: queue_msgs_def)
  then show ?thesis
    using assms(2,3) by (auto simp: krhino_queue_recv_def queue_msgs_def upd_queue_def)
qed

theorem queue_recv_fifo_witness:
  "\<exists>s'. krhino_queue_recv (Some 7) 0 True (snd (krhino_queue_back_send (Some 7) 42 queue_kernel)) =
     (Returned RHINO_SUCCESS, Some 42, s')"
proof -
  let ?s = "snd (krhino_queue_back_send (Some 7) 42 queue_kernel)"
  have "reachable ?s" by (rule reachable_kstep [OF queue_kernel(1) kstep.queue [OF queue_step.back_send]])
  moreover have "queue_msgs ?s 7 [42]"
    using queue_push [of "queues queue_kernel 7" 42] queue_kernel kgoodD(5) [OF kinvD(1) [OF reachable_kinv [OF queue_kernel(1)]], of 7]
    by (auto simp: krhino_queue_back_send_def msg_send_def queue_msgs_def upd_queue_def Let_def obj_ok_queue)
  ultimately show ?thesis using queue_recv_fifo [of ?s 7 42 "[]" 0] by auto
qed

section \<open>Buffer queues\<close>

definition buf_msgs :: "kstate \<Rightarrow> oid \<Rightarrow> byte list list \<Rightarrow> bool" where
  "buf_msgs s b ms \<longleftrightarrow> obj_type (blks s b) = RHINO_BUF_QUEUE_OBJ_TYPE \<and>
     rb_fifo (bq_ringbuf (buf_queues s b)) ms \<and> bq_cur_num (buf_queues s b) = length ms"

definition buf_kernel :: kstate where
  "buf_kernel = snd (krhino_buf_queue_create (Some 7) True (Some (replicate 16 0)) 16 8 started_kernel)"

lemma buf_kernel: "reachable buf_kernel" "buf_msgs buf_kernel 7 []" "blk_list (blks buf_kernel 7) = []"
    "max_msg_size (buf_queues buf_kernel 7) = 8" "g_intrpt_nested_level buf_kernel = 0"
    "bq_ringbuf (buf_queues buf_kernel 7) = ringbuf_init (replicate 16 0) RINGBUF_TYPE_DYN 8"
proof -
  have "buf_mem_ok (Some (replicate 16 0)) 16 8 RINGBUF_TYPE_DYN" by (simp add: buf_mem_ok_def)
  from kstep.buf_queue [OF buf_queue_step.create [OF free_7 this]]
  show "reachable buf_kernel" unfolding buf_kernel_def by (rule reachable_kstep [OF reachable_started])
  have "rb_fifo (ringbuf_init (replicate 16 0) RINGBUF_TYPE_DYN 8) []" by (rule rb_fifo_init) simp_all
  then show "buf_msgs buf_kernel 7 []"
    by (simp add: buf_msgs_def buf_kernel_def krhino_buf_queue_create_def buf_queue_create_def upd_defs Let_def)
qed (simp_all add: buf_kernel_def krhino_buf_queue_create_def buf_queue_create_def upd_defs Let_def started_fields)

text \<open>
  C24.  Sending \<open>m\<close> to a buffer queue: a waiting task gets the bytes and their number; otherwise the
  message is appended when its frame fits, and refused with \<open>RHINO_BUF_QUEUE_FULL\<close> and no change when not.
\<close>

theorem buf_queue_send_fifo:
  assumes "reachable s" and "buf_msgs s b ms" and "0 < length m" and "length m \<le> max_msg_size (buf_queues s b)"
    and "send_ok s (Some b) (Some m) (length m)"
  shows "let r = krhino_buf_queue_send (Some b) (Some m) (length m) s; s' = snd r in
    case blk_list (blks s b) of
      [] \<Rightarrow> if frame_size (bq_ringbuf (buf_queues s b)) m \<le> freesize (bq_ringbuf (buf_queues s b))
            then fst r = RHINO_SUCCESS \<and> buf_msgs s' b (ms @ [m]) \<and> tasks s' = tasks s
            else r = (RHINO_BUF_QUEUE_FULL, s)
    | t # ts \<Rightarrow> fst r = RHINO_SUCCESS \<and> ms = [] \<and> buf_msgs s' b [] \<and> msg_buf (tcb s' t) = m \<and>
        bq_msg_size (tcb s' t) = length m \<and> woken (tcb s t) (tcb s' t) \<and> blk_list (blks s' b) = ts"
proof -
  note g = kinvD(1) [OF reachable_kinv [OF assms(1)]]
  let ?r = "bq_ringbuf (buf_queues s b)"
  have q: "obj_type (blks s b) = RHINO_BUF_QUEUE_OBJ_TYPE" "rb_fifo ?r ms" "bq_cur_num (buf_queues s b) = length ms"
    using assms(2) by (simp_all add: buf_msgs_def)
  have ok: "buf_queue_ok (buf_queues s b)" "bq_cur_num (buf_queues s b) > 0 \<longrightarrow> blk_list (blks s b) = []"
    using kgoodD(5) [OF g, of b] q(1) by (auto simp: obj_ok_queue)
  have mo: "msg_ok ?r m"
    using ok(1) assms(3-5) by (auto simp: msg_ok_def buf_queue_ok_iff send_ok_def split: ringbuf_type.split)
  show ?thesis
  proof (cases "blk_list (blks s b)")
    case Nil
    then show ?thesis
      using q assms(3,4) ringbuf_push_ok [OF q(2) mo] ringbuf_push_full [OF q(2) mo]
      by (auto simp: krhino_buf_queue_send_def buf_queue_send_def buf_msgs_def upd_buf_queue_def Let_def)
  next
    case (Cons t ts)
    let ?s = "upd_task t (\<lambda>k. k\<lparr>msg_buf := m, bq_msg_size := length m\<rparr>) s"
    have ms: "ms = []" using ok(2) Cons q(3) by auto
    have g1: "kgood {} ?s"
      using prio_okD(5) [OF kgood_parts(4) [OF g], of t] by (intro kgood_upd_task [OF g]) (auto simp: same_core_def)
    have l1: "blk_list (blks ?s b) = t # ts" using Cons by (simp add: upd_task_def)
    note w = wakeup_first [OF g1 l1]
    have eq: "krhino_buf_queue_send (Some b) (Some m) (length m) s = (RHINO_SUCCESS, core_sched (wake BLK_FINISH t ?s))"
      using Cons q w(1) assms(3,4) by (simp add: krhino_buf_queue_send_def buf_queue_send_def memcpy_from_def)
    have "woken (tcb s t) (tcb (wake BLK_FINISH t ?s) t)"
      using first_waiter(1) [OF g Cons] by (auto simp: woken_def wake_def wake_tcb_def upd_task_def is_pend_def is_susp_def)
    then show ?thesis
      using eq q ms Cons w(2) by (simp add: Let_def buf_msgs_def) (simp add: wake_def wake_tcb_def upd_task_def)
  qed
qed

theorem buf_queue_send_fifo_witness:
  "buf_msgs (snd (krhino_buf_queue_send (Some 7) (Some [1, 2, 3]) 3 buf_kernel)) 7 [[1, 2, 3]]"
proof -
  have "frame_size (bq_ringbuf (buf_queues buf_kernel 7)) [1, 2, 3] \<le> freesize (bq_ringbuf (buf_queues buf_kernel 7))"
    "send_ok buf_kernel (Some 7) (Some [1, 2, 3]) (length [1, 2, 3 :: byte])"
    by (simp_all add: buf_kernel frame_size_def frame_def ringbuf_init_def ringbuf_reset_def send_ok_def)
  then show ?thesis
    using buf_queue_send_fifo [OF buf_kernel(1,2), of "[1, 2, 3]"] by (simp add: buf_kernel Let_def numeral_3_eq_3)
qed

text \<open>
  Receiving from a buffer queue that holds messages returns the oldest one, byte for byte and with
  its length, and removes it.
\<close>

theorem buf_queue_recv_fifo:
  assumes "buf_msgs s b (m # ms)" and "g_intrpt_nested_level s = 0 \<or> ticks = RHINO_NO_WAIT"
  shows "\<exists>s'. krhino_buf_queue_recv (Some b) ticks True True s = (Returned RHINO_SUCCESS, Some (m, length m), s') \<and>
    buf_msgs s' b ms \<and> tasks s' = tasks s \<and> blks s' = blks s"
proof -
  let ?r = "bq_ringbuf (buf_queues s b)"
  have q: "rb_fifo ?r (m # ms)" using assms(1) by (simp add: buf_msgs_def)
  obtain r where "ringbuf_pop ?r = Some (RHINO_SUCCESS, m, length m, r)" "rb_fifo r ms" using ringbuf_pop_ok [OF q] by blast
  moreover have "\<not> ringbuf_is_empty ?r" using rb_fifo_empty [OF q] by simp
  ultimately show ?thesis
    using assms by (auto simp: krhino_buf_queue_recv_def buf_msgs_def upd_buf_queue_def)
qed

theorem buf_queue_recv_fifo_witness:
  "\<exists>s s'. buf_msgs s 7 [[1, 2, 3]] \<and> krhino_buf_queue_recv (Some 7) 0 True True s = (Returned RHINO_SUCCESS, Some ([1, 2, 3], 3), s')"
proof -
  let ?r = "bq_ringbuf (buf_queues buf_kernel 7)" and ?m = "[1, 2, 3] :: byte list"
  have r: "rb_fifo ?r []" using buf_kernel(2) by (simp add: buf_msgs_def)
  have "msg_ok ?r ?m" "frame_size ?r ?m \<le> freesize ?r"
    by (simp_all add: buf_kernel msg_ok_def frame_size_def frame_def ringbuf_init_def ringbuf_reset_def)
  from ringbuf_push_ok [OF r this] obtain r' where r': "rb_fifo r' [?m]" by auto
  let ?s = "upd_buf_queue 7 (\<lambda>q. q\<lparr>bq_ringbuf := r', bq_cur_num := 1\<rparr>) buf_kernel"
  have "buf_msgs ?s 7 [?m]" using buf_kernel(2) r' by (simp add: buf_msgs_def upd_buf_queue_def)
  with buf_queue_recv_fifo [OF this, of 0] show ?thesis by (auto simp: numeral_3_eq_3)
qed

section \<open>Event flags\<close>

text \<open>What the loop of \<open>event_set\<close> does to each task.\<close>

definition event_served :: "u32 \<Rightarrow> ktask \<Rightarrow> ktask" where
  "event_served cur k = wake_tcb BLK_FINISH (k\<lparr>pend_info := cur\<rparr>)"

lemma event_set_task_tcb:
  assumes g: "kgood {b} s" and t: "t \<in> set (blk_list (blks s b))"
  shows "tcb (event_set_task b cur t s) u =
    (if u = t \<and> event_match cur (pend_flags (tcb s t)) (pend_option (tcb s t)) then event_served cur (tcb s t) else tcb s u)"
proof -
  let ?s1 = "upd_task t (\<lambda>k. k\<lparr>pend_info := cur\<rparr>) s"
  have g1: "kgood {b} ?s1"
    using prio_okD(5) [OF kgood_parts(4) [OF g], of t] by (intro kgood_upd_task [OF g]) (auto simp: same_core_def)
  have "is_pend (tcb s t)" using blk_okD(2) [OF kgood_parts(2) [OF g], of t b] t by auto
  then have "is_pend (tcb ?s1 t)" by (simp add: upd_task_def is_pend_def)
  from pend_task_wakeup_eq(1) [OF kgood_parts(3) [OF g1] this] show ?thesis
    by (simp add: event_set_task_def Let_def upd_event_def) (simp add: wake_def upd_task_def event_served_def)
qed

lemma event_set_fold_tcb:
  assumes "kgood {b} s" and "obj_type (blks s b) = RHINO_EVENT_OBJ_TYPE" and "distinct ts"
    and "set ts \<subseteq> set (blk_list (blks s b))"
  shows "tcb (fold (event_set_task b cur) ts s) u =
    (if u \<in> set ts \<and> event_match cur (pend_flags (tcb s u)) (pend_option (tcb s u)) then event_served cur (tcb s u) else tcb s u)"
  using assms
proof (induction ts arbitrary: s)
  case (Cons t ts)
  let ?s = "event_set_task b cur t s"
  have t: "t \<in> set (blk_list (blks s b))" using Cons.prems(4) by simp
  note e = event_set_task_ok [OF Cons.prems(1,2) t, of cur] and f = event_set_task_tcb [OF Cons.prems(1) t]
  have d: "distinct (blk_list (blks s b))" using blk_okD(1) [OF kgood_parts(2) [OF Cons.prems(1)]] .
  have sub: "set ts \<subseteq> set (blk_list (blks ?s b))"
    using e Cons.prems(3,4) d by (auto simp: Let_def set_remove1_distinct)
  from Cons.IH [of ?s] e sub Cons.prems(3) show ?case by (auto simp: Let_def f)
qed simp

definition event_kernel :: kstate where
  "event_kernel = snd (krhino_event_create (Some 7) True 0 started_kernel)"

definition event_wait_kernel :: kstate where
  "event_wait_kernel = snd (snd (krhino_event_get (Some 7) 3 RHINO_AND True RHINO_WAIT_FOREVER event_kernel))"

text \<open>
  Setting event flags wakes exactly the waiting tasks whose request the flags now meet, each
  with the flags it saw; every other task keeps waiting with nothing of it changed.
\<close>

theorem event_set_wakes_exactly:
  assumes "reachable s" and "obj_type (blks s b) = RHINO_EVENT_OBJ_TYPE"
  shows "let cur = flags (events s b) OR fl; s' = snd (krhino_event_set (Some b) fl RHINO_OR s) in
    fst (krhino_event_set (Some b) fl RHINO_OR s) = RHINO_SUCCESS \<and>
    (\<forall>t. if t \<in> set (blk_list (blks s b)) \<and> event_match cur (pend_flags (tcb s t)) (pend_option (tcb s t))
      then woken (tcb s t) (tcb s' t) \<and> pend_info (tcb s' t) = cur \<and> t \<notin> set (blk_list (blks s' b))
      else tcb s' t = tcb s t \<and> (t \<in> set (blk_list (blks s' b)) \<longleftrightarrow> t \<in> set (blk_list (blks s b))))"
proof -
  let ?s1 = "upd_event b (\<lambda>x. x\<lparr>flags := flags x OR fl\<rparr>) s" and ?cur = "flags (events s b) OR fl"
  let ?s2 = "fold (event_set_task b ?cur) (blk_list (blks s b)) ?s1"
  note i = reachable_kinv [OF assms(1)]
  have g: "kgood {b} s" using kgood_mono [OF kinvD(1) [OF i]] by simp
  have g1: "kgood {b} ?s1" using kgood_upd_event [OF g] by blast
  have eq: "krhino_event_set (Some b) fl RHINO_OR s = (RHINO_SUCCESS, core_sched ?s2)"
    using assms(2) by (simp add: krhino_event_set_def event_set_def Let_def upd_event_def)
  have tc: "tcb ?s2 t = (if t \<in> set (blk_list (blks s b)) \<and> event_match ?cur (pend_flags (tcb s t)) (pend_option (tcb s t))
      then event_served ?cur (tcb s t) else tcb s t)" for t
    using event_set_fold_tcb [OF g1, of "blk_list (blks s b)" ?cur t] assms(2) blk_okD(1) [OF kgood_parts(2) [OF g]]
    by (simp add: upd_event_def)
  have i2: "kinv (core_sched ?s2)" using kinv_event_set [OF i, of "Some b" fl RHINO_OR] eq by simp
  have mem: "t \<in> set (blk_list (blks ?s2 b)) \<longleftrightarrow> is_pend (tcb ?s2 t) \<and> blk_obj (tcb ?s2 t) = Some b" for t
    using blk_okD(2) [OF kgood_parts(2) [OF kinvD(1) [OF i2]], of t b] by simp
  have mem0: "t \<in> set (blk_list (blks s b)) \<longleftrightarrow> is_pend (tcb s t) \<and> blk_obj (tcb s t) = Some b" for t
    using blk_okD(2) [OF kgood_parts(2) [OF g], of t b] .
  have "woken k (event_served c k) \<and> pend_info (event_served c k) = c \<and> \<not> is_pend (event_served c k)" if "is_pend k" for c k
    using that by (auto simp: woken_def event_served_def wake_tcb_def is_pend_def is_susp_def)
  then show ?thesis unfolding Let_def eq fst_conv snd_conv core_sched_keeps using tc mem mem0 by auto
qed

lemma event_kernel: "reachable event_kernel" "obj_type (blks event_kernel 7) = RHINO_EVENT_OBJ_TYPE"
    "blk_list (blks event_kernel 7) = []" "blk_policy (blks event_kernel 7) = BLK_POLICY_PRI"
    "flags (events event_kernel 7) = 0" "g_active_task event_kernel = g_timer_task"
    "g_intrpt_nested_level event_kernel = 0" "g_sched_lock event_kernel = 0"
  using reachable_kstep [OF reachable_started kstep.event [OF event_step.create [OF free_7, of True 0]]]
  by (simp_all add: event_kernel_def krhino_event_create_def event_create_def upd_defs Let_def started_fields)

lemma event_wait_kernel:
  "reachable event_wait_kernel" "obj_type (blks event_wait_kernel 7) = RHINO_EVENT_OBJ_TYPE"
  "blk_list (blks event_wait_kernel 7) = [g_timer_task]" "pend_flags (tcb event_wait_kernel g_timer_task) = 3"
  "pend_option (tcb event_wait_kernel g_timer_task) = RHINO_AND"
proof -
  have mb: "may_block event_kernel" by (rule may_block_started [OF event_kernel(6)])
  show "reachable event_wait_kernel" unfolding event_wait_kernel_def
    by (rule reachable_kstep [OF event_kernel(1) kstep.event [OF event_step.get [OF mb]]])
  have eq: "event_wait_kernel = core_sched (pend_to_blk_obj 7 g_timer_task RHINO_WAIT_FOREVER
      (upd_task g_timer_task (\<lambda>k. k\<lparr>pend_option := RHINO_AND, pend_flags := 3\<rparr>) event_kernel))"
    by (simp add: event_wait_kernel_def krhino_event_get_def event_kernel event_match_def Let_def)
  show "obj_type (blks event_wait_kernel 7) = RHINO_EVENT_OBJ_TYPE" "blk_list (blks event_wait_kernel 7) = [g_timer_task]"
    "pend_flags (tcb event_wait_kernel g_timer_task) = 3" "pend_option (tcb event_wait_kernel g_timer_task) = RHINO_AND"
    by (simp_all add: eq pend_to_blk_obj_kind pend_to_blk_obj_fields upd_task_def event_kernel blk_enter_def pend_tcb_def)
qed

theorem event_set_wakes_exactly_witness:
  "woken (tcb event_wait_kernel g_timer_task)
     (tcb (snd (krhino_event_set (Some 7) (- 1) RHINO_OR event_wait_kernel)) g_timer_task)"
  using event_set_wakes_exactly [OF event_wait_kernel(1,2), of "- 1"]
  by (simp add: event_wait_kernel Let_def event_match_def)

end
