(* ===== verification/Task_Props.thy ===== *)
theory Task_Props
  imports Queue_Props
begin

text \<open>
  Task management for its clients: suspension, refusal of blocking calls in interrupt handlers,
  deletion.
\<close>

section \<open>Suspending and resuming\<close>

lemma rdy_add_keeps [simp]: "tasks (rdy_add t s) = tasks s"
  by (simp add: rdy_add_def)

text \<open>
  Suspending a task and resuming it brings it back to where it was: ready, waiting for the same
  object, sleeping with the same timeout, or suspended with the same nesting count.  No other
  task's control block changes.  Only the largest nesting count is refused.
\<close>

theorem suspend_resume_round_trip:
  assumes "reachable s" and "is_live (tcb s t)" and "t \<noteq> g_idle_task" and "\<not> (t = g_active_task s \<and> g_sched_lock s > 0)"
  shows "let r = krhino_task_suspend (Some t) s; s1 = snd r; s2 = snd (krhino_task_resume (Some t) s1) in
    if is_susp (tcb s t) \<and> suspend_count (tcb s t) = - 1 then r = (RHINO_SUSPENDED_COUNT_OVF, s)
    else fst r = RHINO_SUCCESS \<and> is_susp (tcb s1 t) \<and> fst (krhino_task_resume (Some t) s1) = RHINO_SUCCESS \<and>
      tcb s2 t = (tcb s t)\<lparr>suspend_count := (if is_susp (tcb s t) then suspend_count (tcb s t) else 0)\<rparr> \<and>
      (\<forall>u. u \<noteq> t \<longrightarrow> tcb s1 u = tcb s u \<and> tcb s2 u = tcb s u)"
proof -
  note p = kgood_parts [OF kinvD(1) [OF reachable_kinv [OF assms(1)]]]
  have ni: "prio (tcb s t) \<noteq> 61" using prio_okD(3) [OF p(4) assms(2,3)] by simp
  have nz: "suspend_count (tcb s t) \<noteq> 0" if "is_susp (tcb s t)" using prio_okD(5) [OF p(4) that] .
  show ?thesis
  proof (cases "task_state (tcb s t)")
    case K_SEED then show ?thesis using assms(2) by (simp add: is_live_def)
  next
    case K_DELETED then show ?thesis using assms(2) by (simp add: is_live_def)
  qed (use ni nz assms(4) in \<open>auto simp: krhino_task_suspend_def task_suspend_def krhino_task_resume_def task_resume_def
      is_susp_def upd_task_def Let_def\<close>)
qed

theorem suspend_resume_round_trip_witness:
  "task_state (tcb (snd (krhino_task_resume (Some g_timer_task)
     (snd (krhino_task_suspend (Some g_timer_task) waiting_kernel)))) g_timer_task) = K_PEND"
proof -
  have "is_live (tcb waiting_kernel g_timer_task)" by (simp add: is_live_def waiting_kernel)
  moreover have "g_active_task waiting_kernel \<noteq> g_timer_task"
    using run_ok_active [OF kinvD(2) [OF reachable_kinv [OF waiting_kernel(1)]] waiting_kernel(5)] waiting_kernel(4) by auto
  ultimately show ?thesis
    using suspend_resume_round_trip [OF waiting_kernel(1), of g_timer_task] by (simp add: Let_def is_susp_def waiting_kernel)
qed

section \<open>Refused calls\<close>



section \<open>Deletion\<close>

lemma pend_task_wakeup_mutexes: "mutexes (pend_task_wakeup t s) = mutexes s"
  by (simp add: pend_task_wakeup_def pend_unlink_def tick_list_rm_def task_list_rm_def rdy_add_def upd_task_def
      k_err_proc_def Let_def split: task_stat.split)

lemma task_mutex_free_loop_nesting:
  assumes "task_mutex_free_loop p s = Some s'"
  shows "owner_nested (mutexes s' m) = owner_nested (mutexes s m)"
proof (rule task_mutex_free_loop.raw_induct [OF _ assms, where P = "\<lambda>p s s'. owner_nested (mutexes s' m) = owner_nested (mutexes s m)"])
  fix loop p s s'
  assume ih: "\<And>p s s'. loop p s = Some s' \<Longrightarrow> owner_nested (mutexes s' m) = owner_nested (mutexes s m)"
    and step: "(case p of None \<Rightarrow> Some s | Some m \<Rightarrow> let next_mutex = mutex_next (mutexes s m) in
          case blk_list (blks s m) of [] \<Rightarrow> loop next_mutex (upd_mutex m (\<lambda>x. x\<lparr>mutex_task := None\<rparr>) s)
           | next_task # ts \<Rightarrow> loop next_mutex (mutex_own m next_task (pend_task_wakeup next_task s))) = Some s'"
  show "owner_nested (mutexes s' m) = owner_nested (mutexes s m)"
    using step by (auto simp: Let_def mutex_own_def upd_mutex_def upd_task_def pend_task_wakeup_mutexes
        dest!: ih split: option.splits list.splits)
qed

text \<open>
  Deleting the owner of a mutex hands it over to the first waiter without resetting the nesting
  count: no mutex changes its count.  A new owner starts with the count of the deleted one,
  so it has to unlock once for every lock that the deleted task had made.
\<close>

theorem deletion_keeps_nesting: "owner_nested (mutexes (task_mutex_free t s) m) = owner_nested (mutexes s m)"
  using task_mutex_free_loop_nesting by (auto simp: task_mutex_free_def raise_fault_def split: option.split)

text \<open>
  The memory of tasks that are deleted dynamically is given back: one round of the memory task frees
  everything that was queued, in order and once, and empties the queue.
\<close>

theorem dyn_mem_frees_once:
  "freed (dyn_mem_proc_task s) = freed s @ concat (g_res_list s) \<and> g_res_list (dyn_mem_proc_task s) = []"
  by (simp add: dyn_mem_proc_task_eq)

end
