(* ===== verification/Mblk.thy ===== *)
theory Mblk
  imports Kernel_Types "HOL-Library.Multiset"
begin

text \<open>
  Pools of memory blocks (\<^verbatim>\<open>k_mm_blk.c\<close>).  Addresses and sizes are 32-bit words; the memory maps
  an address to the word stored there, of which the pool uses the first word of each free
  block as the link to the next one.  The address \<open>0\<close> is NULL.  The spin lock masks interrupts on
  one CPU and is not modelled.
\<close>

unbundle bit_operations_syntax

section \<open>The operations\<close>

type_synonym addr = u32
type_synonym wmem = "addr \<Rightarrow> u32"

record mblk_pool_t =
  pool_start :: addr
  pool_end :: addr
  mblk_size :: u32 \<comment> \<open>\<^verbatim>\<open>blk_size\<close>\<close>
  blk_avail :: u32
  blk_whole :: u32
  avail_list :: addr

text \<open>\<^verbatim>\<open>while (blk_next < pool_end)\<close>; not returning is \<open>None\<close>.\<close>

partial_function (option) mblk_init_loop ::
  "u32 \<Rightarrow> addr \<Rightarrow> wmem \<Rightarrow> u32 \<Rightarrow> addr \<Rightarrow> addr \<Rightarrow> (wmem \<times> u32 \<times> addr \<times> addr) option" where
  "mblk_init_loop bsize pend m blks blk_cur blk_next =
     (if blk_next < pend
      then mblk_init_loop bsize pend (m(blk_cur := blk_next)) (blks + 1) blk_next (blk_next + bsize)
      else Some (m, blks, blk_cur, blk_next))"

declare mblk_init_loop.simps [code]

text \<open>The result: the status, and the pool and the memory on success.  \<open>None\<close>: the call does not return.\<close>

definition krhino_mblk_pool_init ::
  "bool \<Rightarrow> bool \<Rightarrow> addr \<Rightarrow> u32 \<Rightarrow> u32 \<Rightarrow> wmem \<Rightarrow> (kstat \<times> (mblk_pool_t \<times> wmem) option) option" where
  "krhino_mblk_pool_init pool_ok name_ok start bsize psize m =
     (if \<not> pool_ok \<or> \<not> name_ok \<or> start = 0 then Some (RHINO_NULL_PTR, None)
      else if psize < push_bit 1 bsize then Some (RHINO_BLK_POOL_SIZE_ERR, None)
      else if start AND 3 > 0 then Some (RHINO_INV_ALIGN, None)
      else if bsize AND 3 > 0 then Some (RHINO_INV_ALIGN, None)
      else if psize AND 3 > 0 then Some (RHINO_INV_ALIGN, None)
      else
        let pend = start + psize in
        case mblk_init_loop bsize pend m 0 start (start + bsize) of
          None \<Rightarrow> None
        | Some (m, blks, blk_cur, blk_next) \<Rightarrow>
            let blks = (if blk_next = pend then blks + 1 else blks);
                m = m(blk_cur := 0)
            in Some (RHINO_SUCCESS, Some (\<lparr>pool_start = start, pool_end = pend, mblk_size = bsize,
                 blk_avail = blks, blk_whole = blks, avail_list = start\<rparr>, m)))"

text \<open>The second result is the value written to \<^verbatim>\<open>*blk\<close>.\<close>

definition krhino_mblk_alloc :: "wmem \<Rightarrow> mblk_pool_t \<Rightarrow> kstat \<times> addr \<times> mblk_pool_t" where
  "krhino_mblk_alloc m pool =
     (if blk_avail pool > 0
      then let avail_blk = avail_list pool;
               pool = pool\<lparr>avail_list := m avail_blk\<rparr>
           in (RHINO_SUCCESS, avail_blk, pool\<lparr>blk_avail := blk_avail pool - 1\<rparr>)
      else (RHINO_NO_MEM, 0, pool))"

definition krhino_mblk_free :: "addr \<Rightarrow> mblk_pool_t \<Rightarrow> wmem \<Rightarrow> kstat \<times> mblk_pool_t \<times> wmem" where
  "krhino_mblk_free blk pool m =
     (if blk = 0 then (RHINO_NULL_PTR, pool, m)
      else
        let m = m(blk := avail_list pool);
            pool = pool\<lparr>avail_list := blk\<rparr>
        in (RHINO_SUCCESS, pool\<lparr>blk_avail := blk_avail pool + 1\<rparr>, m))"

definition krhino_mblk_check :: "mblk_pool_t option \<Rightarrow> addr \<Rightarrow> bool" where
  "krhino_mblk_check pool blk =
     (case pool of None \<Rightarrow> False | Some p \<Rightarrow> pool_start p \<le> blk \<and> blk < pool_end p)"

section \<open>The representation of the free list\<close>

lemma u32_bound: "unat (x :: u32) < 2 ^ 32"
  using unsigned_less [of x] by simp

fun avail_chain :: "wmem \<Rightarrow> addr \<Rightarrow> addr list \<Rightarrow> bool" where
  "avail_chain m p [] \<longleftrightarrow> True"
| "avail_chain m p (b # bs) \<longleftrightarrow> p = b \<and> avail_chain m (m b) bs"

definition blk_at :: "mblk_pool_t \<Rightarrow> nat \<Rightarrow> addr" where
  "blk_at pool i = pool_start pool + word_of_nat (i * unat (mblk_size pool))"

definition pool_blocks :: "mblk_pool_t \<Rightarrow> addr set" where
  "pool_blocks pool = blk_at pool ` {..<unat (blk_whole pool)}"

text \<open>\<open>mblk_ok pool m bs\<close>: \<open>bs\<close> are the free blocks, in the order in which they will be handed out.\<close>

definition mblk_ok :: "mblk_pool_t \<Rightarrow> wmem \<Rightarrow> addr list \<Rightarrow> bool" where
  "mblk_ok pool m bs \<longleftrightarrow> distinct bs \<and> set bs \<subseteq> pool_blocks pool \<and> 0 \<notin> pool_blocks pool \<and>
     length bs = unat (blk_avail pool) \<and> avail_chain m (avail_list pool) bs"

lemma avail_chain_cong: "(\<And>b. b \<in> set bs \<Longrightarrow> m' b = m b) \<Longrightarrow> avail_chain m' p bs = avail_chain m p bs"
  by (induction bs arbitrary: p) auto

text \<open>The client may write to blocks it holds: the links are in free blocks only.\<close>

lemma mblk_ok_client_write: "mblk_ok pool m bs \<Longrightarrow> (\<And>a. a \<in> set bs \<Longrightarrow> m' a = m a) \<Longrightarrow> mblk_ok pool m' bs"
  using avail_chain_cong [of bs m' m] by (simp add: mblk_ok_def)

lemma pool_blocks_upd [simp]:
  "pool_blocks (pool\<lparr>avail_list := a\<rparr>) = pool_blocks pool" "pool_blocks (pool\<lparr>blk_avail := n\<rparr>) = pool_blocks pool"
  by (simp_all add: pool_blocks_def blk_at_def)

lemma mblk_alloc_ok:
  assumes "mblk_ok pool m (b # bs)"
  shows "\<exists>pool'. krhino_mblk_alloc m pool = (RHINO_SUCCESS, b, pool') \<and> mblk_ok pool' m bs \<and>
    pool_blocks pool' = pool_blocks pool \<and> b \<in> pool_blocks pool"
proof -
  have n: "unat (blk_avail pool) = Suc (length bs)" using assms by (simp add: mblk_ok_def)
  then have "blk_avail pool \<noteq> 0" by auto
  then have "unat (blk_avail pool - 1) = length bs" using n by (simp add: unat_minus_one)
  with assms n \<open>blk_avail pool \<noteq> 0\<close> show ?thesis
    by (auto simp: krhino_mblk_alloc_def mblk_ok_def Let_def word_gt_0)
qed

lemma mblk_alloc_empty: "mblk_ok pool m [] \<Longrightarrow> krhino_mblk_alloc m pool = (RHINO_NO_MEM, 0, pool)"
  by (simp add: mblk_ok_def krhino_mblk_alloc_def word_gt_0 unat_eq_0)

lemma mblk_free_ok:
  assumes ok: "mblk_ok pool m bs" and b: "b \<in> pool_blocks pool" "b \<notin> set bs"
  shows "\<exists>pool' m'. krhino_mblk_free b pool m = (RHINO_SUCCESS, pool', m') \<and> mblk_ok pool' m' (b # bs) \<and>
    pool_blocks pool' = pool_blocks pool \<and> (\<forall>a. a \<noteq> b \<longrightarrow> m' a = m a)"
proof -
  have "b \<noteq> 0" using ok b(1) by (auto simp: mblk_ok_def)
  have fin: "card (pool_blocks pool) \<le> unat (blk_whole pool)"
    unfolding pool_blocks_def using card_image_le [of "{..<unat (blk_whole pool)}" "blk_at pool"] by simp
  have "card (set (b # bs)) \<le> card (pool_blocks pool)"
    using ok b by (intro card_mono) (auto simp: mblk_ok_def pool_blocks_def)
  then have "Suc (length bs) \<le> unat (blk_whole pool)"
    using ok b(2) fin by (simp add: mblk_ok_def distinct_card)
  then have "Suc (unat (blk_avail pool)) < 2 ^ 32"
    using ok u32_bound [of "blk_whole pool"] by (simp add: mblk_ok_def)
  then have "unat (blk_avail pool + 1) = Suc (unat (blk_avail pool))"
    by (subst unat_add_lem [THEN iffD1]) simp_all
  moreover have "avail_chain (m(b := avail_list pool)) p bs = avail_chain m p bs" for p
    using b(2) by (intro avail_chain_cong) auto
  ultimately show ?thesis
    using ok b \<open>b \<noteq> 0\<close> by (auto simp: krhino_mblk_free_def mblk_ok_def Let_def)
qed

section \<open>Initialisation\<close>

lemma unat_plus_nat:
  fixes a :: u32
  assumes "unat a + k < 2 ^ 32"
  shows "unat (a + word_of_nat k) = unat a + k"
proof -
  have "unat (word_of_nat k :: u32) = k" using assms by (simp add: unat_of_nat take_bit_nat_eq_self)
  then show ?thesis using assms by (subst unat_add_lem [THEN iffD1]) simp_all
qed

text \<open>The loop links \<open>n\<close> blocks to their successors when \<open>n\<close> is the last block that starts before the end.\<close>

lemma mblk_init_loop_ok:
  assumes "0 < unat bsize" and "unat cur + n * unat bsize < unat pend" and "unat pend \<le> unat cur + Suc n * unat bsize"
    and "unat pend + unat bsize < 2 ^ 32"
  shows "mblk_init_loop bsize pend m blks cur (cur + bsize) =
    Some (\<lambda>a. if \<exists>i<n. a = cur + word_of_nat (i * unat bsize) then a + bsize else m a,
      blks + word_of_nat n, cur + word_of_nat (n * unat bsize), cur + word_of_nat (Suc n * unat bsize))"
  using assms
proof (induction n arbitrary: m blks cur)
  case 0
  then have "unat (cur + bsize) = unat cur + unat bsize" by (subst unat_add_lem [THEN iffD1]) simp_all
  then have "\<not> cur + bsize < pend" using "0.prems"(3) by (simp add: word_less_nat_alt)
  then show ?case by (subst mblk_init_loop.simps) (simp add: fun_eq_iff)
next
  case (Suc n)
  let ?next = "cur + bsize"
  have nx: "unat ?next = unat cur + unat bsize" using Suc.prems by (subst unat_add_lem [THEN iffD1]) simp_all
  have lt: "?next < pend" using Suc.prems(1,2) nx by (simp add: word_less_nat_alt)
  have "mblk_init_loop bsize pend (m(cur := ?next)) (blks + 1) ?next (?next + bsize) =
    Some (\<lambda>a. if \<exists>i<n. a = ?next + word_of_nat (i * unat bsize) then a + bsize else (m(cur := ?next)) a,
      blks + 1 + word_of_nat n, ?next + word_of_nat (n * unat bsize), ?next + word_of_nat (Suc n * unat bsize))"
    using Suc.prems nx by (intro Suc.IH) simp_all
  moreover have "?next + word_of_nat k = cur + word_of_nat (unat bsize + k)" for k
    by (simp add: add.assoc)
  moreover have "(if \<exists>i<n. a = cur + word_of_nat (unat bsize + i * unat bsize) then a + bsize else (m(cur := ?next)) a) =
      (if \<exists>i<Suc n. a = cur + word_of_nat (i * unat bsize) then a + bsize else m a)" for a
    using Ex_less_Suc2 [of n "\<lambda>i. a = cur + word_of_nat (i * unat bsize)"] by (cases "a = cur") auto
  ultimately show ?case using lt by (subst mblk_init_loop.simps) (simp add: algebra_simps)
qed

lemma avail_chain_map:
  "(\<And>k. i \<le> k \<Longrightarrow> Suc k < i + n \<Longrightarrow> m (f k) = f (Suc k)) \<Longrightarrow> avail_chain m (f i) (map f [i..<i + n])"
proof (induction n arbitrary: i)
  case (Suc n)
  have "avail_chain m (f (Suc i)) (map f [Suc i..<Suc i + n])" using Suc.prems by (intro Suc.IH) auto
  moreover have "m (f i) = f (Suc i) \<or> n = 0" using Suc.prems [of i] by auto
  moreover have "[i..<i + Suc n] = i # [Suc i..<Suc i + n]" by (simp add: upt_rec)
  ultimately show ?case by auto
qed simp

definition pool_args_ok :: "addr \<Rightarrow> u32 \<Rightarrow> u32 \<Rightarrow> bool" where
  "pool_args_ok start bsize psize \<longleftrightarrow> start \<noteq> 0 \<and> start AND 3 = 0 \<and> bsize AND 3 = 0 \<and> psize AND 3 = 0 \<and>
     0 < unat bsize \<and> 2 * unat bsize \<le> unat psize \<and> unat start + unat psize + unat bsize < 2 ^ 32"

lemma last_block:
  assumes "0 < b" and "b \<le> (p :: nat)"
  shows "(p - 1) div b * b < p" and "p \<le> Suc ((p - 1) div b) * b"
    and "p div b = (if Suc ((p - 1) div b) * b = p then Suc ((p - 1) div b) else (p - 1) div b)"
proof -
  let ?n = "(p - 1) div b"
  have "?n * b \<le> p - 1" by (rule div_times_less_eq_dividend)
  then show lt: "?n * b < p" using assms by linarith
  have "p - 1 < Suc ?n * b" using assms(1) dividend_less_div_times [of b "p - 1"] by simp
  then show le: "p \<le> Suc ?n * b" by simp
  show "p div b = (if Suc ?n * b = p then Suc ?n else ?n)"
  proof (cases "Suc ?n * b = p")
    case True
    then have "p div b = Suc ?n" using assms(1) by (metis nonzero_mult_div_cancel_right not_gr_zero)
    with True show ?thesis by simp
  next
    case False
    then have "p < Suc ?n * b" using le by simp
    then have "p div b = ?n" using lt by (intro div_nat_eqI) (simp_all add: mult.commute)
    with False show ?thesis by simp
  qed
qed

lemma mblk_init_ok:
  assumes a: "pool_args_ok start bsize psize"
  shows "\<exists>pool m'. krhino_mblk_pool_init True True start bsize psize m = Some (RHINO_SUCCESS, Some (pool, m')) \<and>
    pool_start pool = start \<and> mblk_size pool = bsize \<and> unat (blk_whole pool) = unat psize div unat bsize \<and>
    mblk_ok pool m' (map (blk_at pool) [0..<unat psize div unat bsize]) \<and>
    (\<forall>x. m' x \<noteq> m x \<longrightarrow> start \<le> x \<and> x < start + psize)"
proof -
  define B P S where "B = unat bsize" and "P = unat psize" and "S = unat start"
  define n where "n = (P - 1) div B"
  define f where "f i = start + word_of_nat (i * B)" for i
  have b: "0 < B" "2 * B \<le> P" "S + P + B < 2 ^ 32" using a by (simp_all add: pool_args_ok_def B_def P_def S_def)
  have pe: "unat (start + psize) = S + P" using b by (subst unat_add_lem [THEN iffD1]) (simp_all add: S_def P_def)
  note l = last_block [of B P, folded n_def] 
  have nB: "n * B < P" "P \<le> Suc n * B" using l b by simp_all
  have uf: "unat (f i) = S + i * B" if "i \<le> Suc n" for i
  proof -
    have "i * B \<le> Suc n * B" using that by (rule mult_le_mono1)
    then show ?thesis unfolding f_def S_def using nB b by (intro unat_plus_nat) (simp add: S_def)
  qed
  let ?m = "\<lambda>x. if \<exists>i<n. x = f i then x + bsize else m x"
  have loop: "mblk_init_loop bsize (start + psize) m 0 start (start + bsize) = Some (?m, word_of_nat n, f n, f (Suc n))"
    using mblk_init_loop_ok [of bsize start n "start + psize" m 0] pe nB b
    by (simp add: f_def B_def S_def P_def)
  have ex: "f (Suc n) = start + psize \<longleftrightarrow> Suc n * B = P"
    using uf [of "Suc n"] pe by (simp add: word_unat_eq_iff)
  define w where "w = (if Suc n * B = P then Suc n else n)"
  have w: "w = P div B" "w \<le> Suc n" using l(3) b by (simp_all add: w_def)
  have nlt: "Suc n < 2 ^ 32"
  proof -
    have "Suc n \<le> Suc n * B" using mult_le_mono2 [of 1 B "Suc n"] b(1) by simp
    also have "\<dots> < 2 ^ 32" using nB(1) b by simp
    finally show ?thesis .
  qed
  have uw: "unat (word_of_nat k :: u32) = k" if "k \<le> Suc n" for k
    using that nlt by (simp add: unat_of_nat take_bit_nat_eq_self)
  let ?blks = "word_of_nat w :: u32" and ?m' = "?m(f n := 0)"
  let ?pool = "\<lparr>pool_start = start, pool_end = start + psize, mblk_size = bsize, blk_avail = ?blks, blk_whole = ?blks, avail_list = start\<rparr>"
  have shl: "\<not> psize < push_bit 1 bsize"
  proof -
    have "unat (push_bit 1 bsize) = 2 * B"
      using b by (simp add: push_bit_eq_mult B_def unat_word_ariths)
    then show ?thesis using b by (simp add: word_less_nat_alt P_def)
  qed
  have init: "krhino_mblk_pool_init True True start bsize psize m = Some (RHINO_SUCCESS, Some (?pool, ?m'))"
    using a shl loop ex by (auto simp: krhino_mblk_pool_init_def pool_args_ok_def Let_def w_def)
  have at: "blk_at ?pool i = f i" for i by (simp add: blk_at_def f_def B_def)
  have inj: "inj_on f {..Suc n}"
  proof (rule inj_onI)
    fix i j assume "i \<in> {..Suc n}" "j \<in> {..Suc n}" "f i = f j"
    then have "i * B = j * B" using uf [of i] uf [of j] by auto
    then show "i = j" using b(1) by simp
  qed
  have link: "?m' (f k) = f (Suc k)" if "Suc k < Suc n" for k
  proof -
    have "f k \<noteq> f n" using that inj_onD [OF inj, of k n] by auto
    moreover have "f k + bsize = f (Suc k)" by (simp add: f_def B_def algebra_simps)
    ultimately show ?thesis using that by auto
  qed
  have chain: "avail_chain ?m' (f 0) (map f [0..<0 + w])"
  proof (rule avail_chain_map)
    fix k assume "Suc k < 0 + w"
    then have "Suc k < Suc n" using w(2) by simp
    then show "?m' (f k) = f (Suc k)" by (rule link)
  qed
  have pb: "pool_blocks ?pool = f ` {..<w}"
    using uw [OF w(2)] by (simp add: pool_blocks_def at)
  have "f i \<noteq> 0" if "i < w" for i
  proof
    assume "f i = 0"
    then show False using uf [of i] that w(2) a by (simp add: S_def pool_args_ok_def unat_eq_0)
  qed
  then have "0 \<notin> pool_blocks ?pool" unfolding pb by auto
  moreover have "distinct (map f [0..<w])"
    using inj w(2) by (intro distinct_map [THEN iffD2] conjI) (auto intro: inj_on_subset)
  moreover have "avail_chain ?m' start (map f [0..<w])" using chain by (simp add: f_def)
  ultimately have "mblk_ok ?pool ?m' (map (blk_at ?pool) [0..<P div B])"
    using uw [OF w(2)] unfolding w(1) [symmetric] at [abs_def] mblk_ok_def pb by auto
  moreover have "start \<le> x \<and> x < start + psize" if ch: "?m' x \<noteq> m x" for x
  proof -
    have "x = f n \<or> (\<exists>i<n. x = f i)" using ch by (auto split: if_splits)
    then obtain i where i: "i \<le> n" "x = f i" using less_imp_le by blast
    have "i * B < P" using mult_le_mono1 [OF i(1), of B] nB(1) by linarith
    then show ?thesis using uf [of i] i pe nB by (simp add: word_le_nat_alt word_less_nat_alt S_def)
  qed
  moreover have "unat ?blks = P div B" using uw [OF w(2)] w(1) by simp
  ultimately show ?thesis using init by (auto simp: B_def P_def)
qed

text \<open>A block size of zero never reaches the end of the pool.\<close>

lemma mblk_init_loop_zero:
  assumes "cur < pend"
  shows "mblk_init_loop 0 pend m blks cur cur = None"
proof (rule ccontr)
  assume "mblk_init_loop 0 pend m blks cur cur \<noteq> None"
  then obtain r where r: "mblk_init_loop 0 pend m blks cur cur = Some r" by blast
  have "(0 :: u32) = 0 \<longrightarrow> \<not> cur < pend"
    by (rule mblk_init_loop.raw_induct [OF _ r, where P = "\<lambda>bsize pend m blks c n r. bsize = 0 \<longrightarrow> \<not> n < pend"])
      (auto split: if_splits)
  with assms show False by simp
qed

section \<open>The contract of a block allocator\<close>

text \<open>
  What a client relies on: a pool represents the list of its free blocks; allocation hands out the
  first of them or reports that there is none; freeing a block that is in use puts it back.  The
  client lemma: whatever the order of calls, blocks in use are distinct, and all blocks can be
  had before the pool is exhausted.
\<close>

locale block_allocator =
  fixes ok :: "'p \<Rightarrow> 'b list \<Rightarrow> bool" and blocks :: "'p \<Rightarrow> 'b set"
    and alloc :: "'p \<Rightarrow> ('b \<times> 'p) option" and free :: "'b \<Rightarrow> 'p \<Rightarrow> 'p"
  assumes ok_blocks: "ok p bs \<Longrightarrow> distinct bs \<and> set bs \<subseteq> blocks p"
    and alloc_first: "ok p (b # bs) \<Longrightarrow> \<exists>p'. alloc p = Some (b, p') \<and> ok p' bs \<and> blocks p' = blocks p"
    and alloc_none: "ok p [] \<Longrightarrow> alloc p = None"
    and free_back: "ok p bs \<Longrightarrow> b \<in> blocks p \<Longrightarrow> b \<notin> set bs \<Longrightarrow> ok (free b p) (b # bs) \<and> blocks (free b p) = blocks p"
begin

primrec alloc_n :: "nat \<Rightarrow> 'p \<Rightarrow> ('b list \<times> 'p) option" where
  "alloc_n 0 p = Some ([], p)"
| "alloc_n (Suc n) p = (case alloc p of None \<Rightarrow> None
     | Some (b, p') \<Rightarrow> (case alloc_n n p' of None \<Rightarrow> None | Some (bs, p'') \<Rightarrow> Some (b # bs, p'')))"

lemma alloc_n_take:
  "ok p bs \<Longrightarrow> n \<le> length bs \<Longrightarrow> \<exists>p'. alloc_n n p = Some (take n bs, p') \<and> ok p' (drop n bs) \<and> blocks p' = blocks p"
proof (induction n arbitrary: p bs)
  case (Suc n)
  then obtain b bs' where bs: "bs = b # bs'" by (cases bs) auto
  obtain p1 where p1: "alloc p = Some (b, p1)" "ok p1 bs'" "blocks p1 = blocks p"
    using alloc_first Suc.prems(1) bs by blast
  from Suc.IH [OF p1(2)] Suc.prems(2) bs p1 show ?case by auto
qed simp

lemma alloc_all:
  assumes "ok p bs"
  shows "\<exists>p'. alloc_n (length bs) p = Some (bs, p') \<and> alloc p' = None"
  using alloc_n_take [OF assms, of "length bs"] alloc_none by auto

lemma free_list:
  "ok p bs \<Longrightarrow> distinct xs \<Longrightarrow> set xs \<subseteq> blocks p \<Longrightarrow> set xs \<inter> set bs = {} \<Longrightarrow>
   ok (fold free xs p) (rev xs @ bs) \<and> blocks (fold free xs p) = blocks p"
proof (induction xs arbitrary: p bs)
  case (Cons x xs)
  have "ok (free x p) (x # bs)" "blocks (free x p) = blocks p" using free_back [of p bs x] Cons.prems by auto
  with Cons.IH [of "free x p" "x # bs"] Cons.prems show ?case by auto
qed simp

lemma alloc_free_all:
  assumes "ok p bs" and "alloc_n n p = Some (xs, p')" and "n \<le> length bs"
  shows "distinct xs \<and> set xs \<subseteq> blocks p \<and> (\<exists>bs'. ok (fold free xs p') bs' \<and> mset bs' = mset bs)"
proof -
  have x: "xs = take n bs" "ok p' (drop n bs)" "blocks p' = blocks p" using alloc_n_take [OF assms(1,3)] assms(2) by auto
  have d: "distinct bs" "set bs \<subseteq> blocks p" using ok_blocks [OF assms(1)] by auto
  have "ok (fold free xs p') (rev xs @ drop n bs)"
  proof -
    have "set (take n bs) \<inter> set (drop n bs) = {}" using d(1) by (simp add: set_take_disj_set_drop_if_distinct)
    then show ?thesis using free_list [OF x(2), of xs] d x(1,3) set_take_subset [of n bs] by auto
  qed
  moreover have "mset (rev xs @ drop n bs) = mset bs" using x(1) by (metis append_take_drop_id mset_append mset_rev)
  ultimately show ?thesis using d x(1) set_take_subset [of n bs] by auto
qed

end

definition pool_ok :: "mblk_pool_t \<times> wmem \<Rightarrow> addr list \<Rightarrow> bool" where
  "pool_ok p bs = mblk_ok (fst p) (snd p) bs"

definition pool_alloc :: "mblk_pool_t \<times> wmem \<Rightarrow> (addr \<times> mblk_pool_t \<times> wmem) option" where
  "pool_alloc p = (case krhino_mblk_alloc (snd p) (fst p) of
     (st, b, pool) \<Rightarrow> if st = RHINO_SUCCESS then Some (b, pool, snd p) else None)"

definition pool_free :: "addr \<Rightarrow> mblk_pool_t \<times> wmem \<Rightarrow> mblk_pool_t \<times> wmem" where
  "pool_free b p = snd (krhino_mblk_free b (fst p) (snd p))"

interpretation bp: block_allocator pool_ok "\<lambda>p. pool_blocks (fst p)" pool_alloc pool_free
proof (unfold_locales, goal_cases)
  case (1 p bs)
  then show ?case by (simp add: pool_ok_def mblk_ok_def)
next
  case (2 p b bs)
  then show ?case using mblk_alloc_ok [of "fst p" "snd p" b bs] by (auto simp: pool_ok_def pool_alloc_def)
next
  case (3 p)
  then show ?case by (simp add: pool_ok_def pool_alloc_def mblk_alloc_empty)
next
  case (4 p bs b)
  then show ?case using mblk_free_ok [of "fst p" "snd p" bs b] by (auto simp: pool_ok_def pool_free_def)
qed

section \<open>Properties\<close>

text \<open>
  Initialising a pool succeeds for aligned arguments with room for two blocks; then every
  whole block of the pool is free, once, in address order, and no memory outside the pool has
  been written, also when the pool size is not a multiple of the block size.
\<close>

theorem pool_init_correct:
  assumes "pool_args_ok start bsize psize"
  shows "\<exists>pool m'. krhino_mblk_pool_init True True start bsize psize m = Some (RHINO_SUCCESS, Some (pool, m')) \<and>
    mblk_ok pool m' (map (blk_at pool) [0..<unat psize div unat bsize]) \<and>
    pool_start pool = start \<and> mblk_size pool = bsize \<and> unat (blk_whole pool) = unat psize div unat bsize \<and>
    (\<forall>x. m' x \<noteq> m x \<longrightarrow> start \<le> x \<and> x < start + psize)"
  using mblk_init_ok [OF assms] by blast

theorem pool_init_correct_witness:
  "\<exists>pool m'. krhino_mblk_pool_init True True 4096 8 20 (\<lambda>a. 7) = Some (RHINO_SUCCESS, Some (pool, m')) \<and>
    unat (blk_whole pool) = 2"
proof -
  have "pool_args_ok 4096 8 20" by (simp add: pool_args_ok_def)
  from pool_init_correct [OF this, of "\<lambda>a. 7"] show ?thesis by auto
qed

text \<open>
  C26.  From a pool with \<open>n\<close> free blocks exactly \<open>n\<close> blocks can be allocated, all different and all
  inside the pool, then allocation fails; freeing allocated blocks in any number makes
  exactly the same blocks free again.
\<close>

theorem pool_alloc_free_correct:
  assumes "pool_ok p bs" and "n \<le> length bs"
  shows "\<exists>xs p'. bp.alloc_n n p = Some (xs, p') \<and> length xs = n \<and> distinct xs \<and> set xs \<subseteq> pool_blocks (fst p) \<and>
    (n = length bs \<longrightarrow> pool_alloc p' = None) \<and> (\<exists>bs'. pool_ok (fold pool_free xs p') bs' \<and> mset bs' = mset bs)"
proof -
  obtain p' where p': "bp.alloc_n n p = Some (take n bs, p')" "pool_ok p' (drop n bs)"
    using bp.alloc_n_take [OF assms] by blast
  then show ?thesis using bp.alloc_free_all [OF assms(1) p'(1) assms(2)] bp.alloc_none [of p'] assms(2) by auto
qed

theorem pool_alloc_free_correct_witness:
  "\<exists>p xs p'. bp.alloc_n 2 p = Some (xs, p') \<and> distinct xs \<and> pool_alloc p' = None"
proof -
  have "pool_args_ok 4096 8 20" by (simp add: pool_args_ok_def)
  from mblk_init_ok [OF this, of "\<lambda>a. 7"] obtain pool m' where "mblk_ok pool m' (map (blk_at pool) [0..<2])" by auto
  then have "pool_ok (pool, m') (map (blk_at pool) [0..<2])" by (simp add: pool_ok_def)
  from pool_alloc_free_correct [OF this, of 2]
  obtain xs p' where "bp.alloc_n 2 (pool, m') = Some (xs, p')" "distinct xs" "pool_alloc p' = None"
    unfolding length_map length_upt by fastforce
  then show ?thesis by blast
qed

text \<open>
  A block size of zero passes all checks, and the loop that links the blocks never ends.
\<close>

theorem pool_init_zero_size_diverges:
  assumes "start \<noteq> 0" and "start AND 3 = 0" and "psize AND 3 = 0" and "start < start + psize"
  shows "krhino_mblk_pool_init True True start 0 psize m = None"
  using assms mblk_init_loop_zero [OF assms(4)] by (simp add: krhino_mblk_pool_init_def)

theorem pool_init_zero_size_diverges_witness: "krhino_mblk_pool_init True True 4096 0 64 (\<lambda>a. 7) = None"
  using pool_init_zero_size_diverges [of 4096 64] by simp

end
