(* ===== verification/Timer.thy ===== *)
theory Timer
  imports Queue_Props
begin

text \<open>
  Software timers (\<^verbatim>\<open>k_timer.c\<close>).  Clients put commands into the kernel's buffer queue
  \<open>g_timer_queue\<close>; the timer task takes them out, keeps the list of running timers and calls the
  callbacks.  The state of the timer task is separate from the kernel state: nobody else
  touches it.  A callback is client code, which reaches the timers through commands only: its calls are
  recorded in \<open>t_fired\<close>, with the time of the timer task.
\<close>

section \<open>Timers and commands\<close>

datatype k_timer_state_t = TIMER_DEACTIVE | TIMER_ACTIVE

datatype timer_cmd =
  TIMER_CMD_CB | TIMER_CMD_START | TIMER_CMD_STOP | TIMER_CMD_CHG | TIMER_ARG_CHG | TIMER_ARG_CHG_AUTO
  | TIMER_CMD_DEL | TIMER_CMD_DYN_DEL

type_synonym timer_id = u32

record ktimer =
  to_head :: bool \<comment> \<open>\<^verbatim>\<open>to_head != NULL\<close>\<close>
  timer_cb_arg :: u32
  t_match :: sys_time_t
  t_remain :: sys_time_t
  init_count :: sys_time_t
  round_ticks :: sys_time_t
  timer_obj_type :: kobj_type
  timer_state :: k_timer_state_t
  timer_alloc :: alloc_flag

text \<open>\<open>cb_u\<close> is the union of \<^verbatim>\<open>round\<close> and \<^verbatim>\<open>arg\<close>.\<close>

record k_timer_queue_cb =
  cb_timer :: timer_id
  cb_num :: u8
  cb_pad :: "24 word" \<comment> \<open>alignment\<close>
  cb_first :: sys_time_t
  cb_u :: sys_time_t

record tstate =
  timers :: "timer_id \<Rightarrow> ktimer"
  g_timer_head :: "timer_id list"
  g_timer_count :: sys_time_t
  t_fired :: "(timer_id \<times> u32 \<times> sys_time_t) list"
  t_errs :: "kstat list"
  t_freed :: "timer_id list"

fun cmd_num :: "timer_cmd \<Rightarrow> u8" where
  "cmd_num TIMER_CMD_CB = 0" | "cmd_num TIMER_CMD_START = 1" | "cmd_num TIMER_CMD_STOP = 2" | "cmd_num TIMER_CMD_CHG = 3"
| "cmd_num TIMER_ARG_CHG = 4" | "cmd_num TIMER_ARG_CHG_AUTO = 5" | "cmd_num TIMER_CMD_DEL = 6" | "cmd_num TIMER_CMD_DYN_DEL = 7"

definition upd_timer :: "timer_id \<Rightarrow> (ktimer \<Rightarrow> ktimer) \<Rightarrow> tstate \<Rightarrow> tstate" where
  "upd_timer t f s = s\<lparr>timers := (timers s)(t := f (timers s t))\<rparr>"

section \<open>The list of running timers\<close>

definition timer_list_pri_insert :: "timer_id \<Rightarrow> tstate \<Rightarrow> tstate" where
  "timer_list_pri_insert t s =
     (let val = t_remain (timers s t)
      in s\<lparr>g_timer_head := insert_before (\<lambda>u. t_match (timers s u) - g_timer_count s > val) t (g_timer_head s)\<rparr>)"

definition timer_list_rm :: "timer_id \<Rightarrow> tstate \<Rightarrow> tstate" where
  "timer_list_rm t s =
     (if to_head (timers s t)
      then upd_timer t (\<lambda>k. k\<lparr>to_head := False\<rparr>) (s\<lparr>g_timer_head := remove1 t (g_timer_head s)\<rparr>) else s)"

section \<open>The timer task\<close>

text \<open>
  The body of the loop of \<open>timer_cb_proc\<close> for a due timer: callback, removal, and for a
  periodic timer the next period.
\<close>

definition timer_fire :: "timer_id \<Rightarrow> tstate \<Rightarrow> tstate" where
  "timer_fire t s =
     (let s = s\<lparr>t_fired := t_fired s @ [(t, timer_cb_arg (timers s t), g_timer_count s)]\<rparr>;
          s = timer_list_rm t s
      in if round_ticks (timers s t) > 0 then
           let s = upd_timer t (\<lambda>k. k\<lparr>t_remain := round_ticks k\<rparr>) s;
               s = upd_timer t (\<lambda>k. k\<lparr>t_match := g_timer_count s + t_remain k, to_head := True\<rparr>) s
           in timer_list_pri_insert t s
         else upd_timer t (\<lambda>k. k\<lparr>timer_state := TIMER_DEACTIVE\<rparr>) s)"

text \<open>The element after \<open>x\<close> in a list; \<open>None\<close> is the list head.\<close>

fun succ_in :: "'a list \<Rightarrow> 'a \<Rightarrow> 'a option" where
  "succ_in [] x = None"
| "succ_in (y # ys) x = (if x = y then (case ys of [] \<Rightarrow> None | z # zs \<Rightarrow> Some z) else succ_in ys x)"

definition first_of :: "'a list \<Rightarrow> 'a option" where
  "first_of xs = (case xs of [] \<Rightarrow> None | x # ys \<Rightarrow> Some x)"

text \<open>
  \<^verbatim>\<open>for (q = start->next; q != end; q = q->next)\<close>: when the timer at \<open>q\<close> has been put back at a later
  place, \<^verbatim>\<open>q->next\<close> is its successor there; when it has been removed, its links still lead to
  its former successor.
\<close>

partial_function (option) timer_cb_loop :: "timer_id option \<Rightarrow> tstate \<Rightarrow> tstate option" where
  "timer_cb_loop q s =
     (case q of
        None \<Rightarrow> Some s
      | Some t \<Rightarrow>
          if tick_delta (t_match (timers s t)) (g_timer_count s) \<le> 0 then
            (let s' = timer_fire t s
             in timer_cb_loop (succ_in (if round_ticks (timers s t) > 0 then g_timer_head s' else g_timer_head s) t) s')
          else Some s)"

definition timer_cb_proc :: "tstate \<Rightarrow> tstate option" where
  "timer_cb_proc s = timer_cb_loop (first_of (g_timer_head s)) s"

definition cmd_proc :: "k_timer_queue_cb \<Rightarrow> u8 \<Rightarrow> tstate \<Rightarrow> tstate" where
  "cmd_proc cb cmd s =
     (let t = cb_timer cb; k = timers s t in
      if cmd = cmd_num TIMER_CMD_START then
        if timer_obj_type k \<noteq> RHINO_TIMER_OBJ_TYPE then s
        else if timer_state k = TIMER_ACTIVE then s
        else
          let s = upd_timer t (\<lambda>k. k\<lparr>t_match := g_timer_count s + init_count k, t_remain := init_count k, to_head := True\<rparr>) s;
              s = timer_list_pri_insert t s
          in upd_timer t (\<lambda>k. k\<lparr>timer_state := TIMER_ACTIVE\<rparr>) s
      else if cmd = cmd_num TIMER_CMD_STOP then
        if timer_obj_type k \<noteq> RHINO_TIMER_OBJ_TYPE then s
        else if timer_state k = TIMER_DEACTIVE then s
        else upd_timer t (\<lambda>k. k\<lparr>timer_state := TIMER_DEACTIVE\<rparr>) (timer_list_rm t s)
      else if cmd = cmd_num TIMER_CMD_CHG then
        if cb_first cb = 0 then s
        else if timer_obj_type k \<noteq> RHINO_TIMER_OBJ_TYPE then s
        else if timer_state k \<noteq> TIMER_DEACTIVE then s
        else upd_timer t (\<lambda>k. k\<lparr>init_count := cb_first cb, round_ticks := cb_u cb\<rparr>) s
      else if cmd = cmd_num TIMER_ARG_CHG then
        if timer_obj_type k \<noteq> RHINO_TIMER_OBJ_TYPE then s
        else if timer_state k \<noteq> TIMER_DEACTIVE then s
        else upd_timer t (\<lambda>k. k\<lparr>timer_cb_arg := ucast (cb_u cb)\<rparr>) s
      else if cmd = cmd_num TIMER_CMD_DEL then
        if timer_obj_type k \<noteq> RHINO_TIMER_OBJ_TYPE then s
        else if timer_state k \<noteq> TIMER_DEACTIVE then s
        else if timer_alloc k \<noteq> K_OBJ_STATIC_ALLOC then s
        else upd_timer t (\<lambda>k. k\<lparr>timer_obj_type := RHINO_OBJ_TYPE_NONE\<rparr>) s
      else if cmd = cmd_num TIMER_CMD_DYN_DEL then
        if timer_obj_type k \<noteq> RHINO_TIMER_OBJ_TYPE then s
        else if timer_state k \<noteq> TIMER_DEACTIVE then s
        else if timer_alloc k \<noteq> K_OBJ_DYN_ALLOC then s
        else
          let s = upd_timer t (\<lambda>k. k\<lparr>timer_obj_type := RHINO_OBJ_TYPE_NONE\<rparr>) s
          in s\<lparr>t_freed := t_freed s @ [t]\<rparr>
      else s\<lparr>t_errs := t_errs s @ [RHINO_SYS_FATAL_ERR]\<rparr>)"

definition timer_cmd_proc :: "k_timer_queue_cb \<Rightarrow> tstate \<Rightarrow> tstate" where
  "timer_cmd_proc cb s =
     (if cb_num cb = cmd_num TIMER_ARG_CHG_AUTO
      then cmd_proc cb (cmd_num TIMER_CMD_START) (cmd_proc cb (cmd_num TIMER_ARG_CHG) (cmd_proc cb (cmd_num TIMER_CMD_STOP) s))
      else cmd_proc cb (cb_num cb) s)"

text \<open>
  The loop of \<open>timer_task\<close>.  With no timer running it waits for a command without limit, and processes
  it (\<open>timer_task_idle\<close>).  Otherwise it looks at the first timer at time \<open>tick_start\<close>
  (\<open>timer_task_wait\<close>): it waits for a command for the remaining time, or not at all when the timer is due.
  \<open>timer_task_run\<close> is the part of the loop up to the next wait, when it takes no time.
\<close>

definition timer_task_idle :: "kstat \<Rightarrow> k_timer_queue_cb \<Rightarrow> sys_time_t \<Rightarrow> tstate \<Rightarrow> tstate" where
  "timer_task_idle err cb tick_end s =
     (let s = (if err = RHINO_SUCCESS then s\<lparr>g_timer_count := tick_end\<rparr> else s\<lparr>t_errs := t_errs s @ [RHINO_SYS_FATAL_ERR]\<rparr>)
      in timer_cmd_proc cb s)"

definition timer_task_wait :: "sys_time_t \<Rightarrow> tstate \<Rightarrow> tick_t option" where
  "timer_task_wait tick_start s =
     (case g_timer_head s of
        [] \<Rightarrow> Some RHINO_WAIT_FOREVER
      | t # ts \<Rightarrow>
          let delta = tick_delta (t_match (timers s t)) tick_start
          in if delta > 0 then Some (word_of_int delta) else None)"

text \<open>After waiting with a limit: the limit has passed, or a command has come.\<close>

definition timer_task_woken :: "kstat \<Rightarrow> k_timer_queue_cb \<Rightarrow> sys_time_t \<Rightarrow> tstate \<Rightarrow> tstate option" where
  "timer_task_woken err cb tick_end s =
     timer_cb_proc
       (if err = RHINO_BLK_TIMEOUT then s\<lparr>g_timer_count := tick_end\<rparr>
        else if err = RHINO_SUCCESS then timer_cmd_proc cb (s\<lparr>g_timer_count := tick_end\<rparr>)
        else s\<lparr>t_errs := t_errs s @ [RHINO_SYS_FATAL_ERR]\<rparr>)"

partial_function (option) timer_task_run :: "sys_time_t \<Rightarrow> tstate \<Rightarrow> tstate option" where
  "timer_task_run tick_start s =
     (case timer_task_wait tick_start s of
        Some w \<Rightarrow> Some s
      | None \<Rightarrow>
          (case timer_cb_proc (s\<lparr>g_timer_count := tick_start\<rparr>) of
             None \<Rightarrow> None
           | Some s' \<Rightarrow> timer_task_run tick_start s'))"

declare timer_cb_loop.simps [code] timer_task_run.simps [code]

section \<open>Commands as bytes\<close>

text \<open>The layout of \<^verbatim>\<open>k_timer_queue_cb\<close> in memory: 24 bytes, little endian, with 3 bytes of alignment.\<close>

definition le_bytes :: "nat \<Rightarrow> 'a::len word \<Rightarrow> byte list" where
  "le_bytes n w = map (\<lambda>i. ucast (drop_bit (8 * i) w)) [0..<n]"

primrec le_word :: "byte list \<Rightarrow> 'a::len word" where
  "le_word [] = 0"
| "le_word (b # bs) = ucast b OR push_bit 8 (le_word bs)"

abbreviation (input) CB_SIZE :: nat where "CB_SIZE \<equiv> 24" \<comment> \<open>\<^verbatim>\<open>sizeof(k_timer_queue_cb)\<close>\<close>

definition cb_bytes :: "k_timer_queue_cb \<Rightarrow> byte list" where
  "cb_bytes cb = le_bytes 4 (cb_timer cb) @ [cb_num cb] @ le_bytes 3 (cb_pad cb) @ le_bytes 8 (cb_first cb) @ le_bytes 8 (cb_u cb)"

definition bytes_cb :: "byte list \<Rightarrow> k_timer_queue_cb" where
  "bytes_cb bs = \<lparr>cb_timer = le_word (take 4 bs), cb_num = bs ! 4, cb_pad = le_word (take 3 (drop 5 bs)),
     cb_first = le_word (take 8 (drop 8 bs)), cb_u = le_word (take 8 (drop 16 bs))\<rparr>"

section \<open>The calls of the clients\<close>

text \<open>
  Each call fills a command on the stack, whose other fields \<open>cb\<close> are not initialised, and sends it.
  The 32-bit argument is the first half of the union.
\<close>

definition timer_send :: "k_timer_queue_cb \<Rightarrow> kstate \<Rightarrow> kstat \<times> kstate" where
  "timer_send cb s = krhino_buf_queue_send (Some g_timer_queue) (Some (cb_bytes cb)) CB_SIZE s"

definition krhino_timer_del :: "k_timer_queue_cb \<Rightarrow> timer_id option \<Rightarrow> kstate \<Rightarrow> kstat \<times> kstate" where
  "krhino_timer_del cb timer s =
     (case timer of None \<Rightarrow> (RHINO_NULL_PTR, s)
      | Some t \<Rightarrow> timer_send (cb\<lparr>cb_timer := t, cb_num := cmd_num TIMER_CMD_DEL\<rparr>) s)"

definition krhino_timer_dyn_del :: "k_timer_queue_cb \<Rightarrow> timer_id option \<Rightarrow> kstate \<Rightarrow> kstat \<times> kstate" where
  "krhino_timer_dyn_del cb timer s =
     (case timer of None \<Rightarrow> (RHINO_NULL_PTR, s)
      | Some t \<Rightarrow> timer_send (cb\<lparr>cb_timer := t, cb_num := cmd_num TIMER_CMD_DYN_DEL\<rparr>) s)"

definition krhino_timer_start :: "k_timer_queue_cb \<Rightarrow> timer_id option \<Rightarrow> kstate \<Rightarrow> kstat \<times> kstate" where
  "krhino_timer_start cb timer s =
     (case timer of None \<Rightarrow> (RHINO_NULL_PTR, s)
      | Some t \<Rightarrow> timer_send (cb\<lparr>cb_timer := t, cb_num := cmd_num TIMER_CMD_START\<rparr>) s)"

definition krhino_timer_stop :: "k_timer_queue_cb \<Rightarrow> timer_id option \<Rightarrow> kstate \<Rightarrow> kstat \<times> kstate" where
  "krhino_timer_stop cb timer s =
     (case timer of None \<Rightarrow> (RHINO_NULL_PTR, s)
      | Some t \<Rightarrow> timer_send (cb\<lparr>cb_timer := t, cb_num := cmd_num TIMER_CMD_STOP\<rparr>) s)"

abbreviation (input) MAX_TIMER_TICKS :: sys_time_t where "MAX_TIMER_TICKS \<equiv> drop_bit 1 (- 1)"

definition krhino_timer_change ::
  "k_timer_queue_cb \<Rightarrow> timer_id option \<Rightarrow> sys_time_t \<Rightarrow> sys_time_t \<Rightarrow> kstate \<Rightarrow> kstat \<times> kstate" where
  "krhino_timer_change cb timer first round s =
     (case timer of None \<Rightarrow> (RHINO_NULL_PTR, s)
      | Some t \<Rightarrow>
          if first = 0 then (RHINO_INV_PARAM, s)
          else if first \<ge> MAX_TIMER_TICKS then (RHINO_INV_PARAM, s)
          else if round \<ge> MAX_TIMER_TICKS then (RHINO_INV_PARAM, s)
          else timer_send (cb\<lparr>cb_timer := t, cb_first := first, cb_u := round, cb_num := cmd_num TIMER_CMD_CHG\<rparr>) s)"

definition set_arg :: "u32 \<Rightarrow> sys_time_t \<Rightarrow> sys_time_t" where
  "set_arg arg u = (u AND push_bit 32 (- 1)) OR ucast arg"

definition krhino_timer_arg_change :: "k_timer_queue_cb \<Rightarrow> timer_id option \<Rightarrow> u32 \<Rightarrow> kstate \<Rightarrow> kstat \<times> kstate" where
  "krhino_timer_arg_change cb timer arg s =
     (case timer of None \<Rightarrow> (RHINO_NULL_PTR, s)
      | Some t \<Rightarrow> timer_send (cb\<lparr>cb_timer := t, cb_u := set_arg arg (cb_u cb), cb_num := cmd_num TIMER_ARG_CHG\<rparr>) s)"

definition krhino_timer_arg_change_auto :: "k_timer_queue_cb \<Rightarrow> timer_id option \<Rightarrow> u32 \<Rightarrow> kstate \<Rightarrow> kstat \<times> kstate" where
  "krhino_timer_arg_change_auto cb timer arg s =
     (case timer of None \<Rightarrow> (RHINO_NULL_PTR, s)
      | Some t \<Rightarrow> timer_send (cb\<lparr>cb_timer := t, cb_u := set_arg arg (cb_u cb), cb_num := cmd_num TIMER_ARG_CHG_AUTO\<rparr>) s)"

text \<open>Creation writes the timer itself, in memory of the client, and may send a start command.\<close>

definition timer_create ::
  "k_timer_queue_cb \<Rightarrow> timer_id option \<Rightarrow> bool \<Rightarrow> bool \<Rightarrow> sys_time_t \<Rightarrow> sys_time_t \<Rightarrow> u32 \<Rightarrow> bool \<Rightarrow> alloc_flag \<Rightarrow>
   kstate \<Rightarrow> tstate \<Rightarrow> kstat \<times> kstate \<times> tstate" where
  "timer_create cb timer name_ok cb_ok first round arg auto_run mm_alloc_flag s ts =
     (case timer of
        None \<Rightarrow> (RHINO_NULL_PTR, s, ts)
      | Some t \<Rightarrow>
          if \<not> name_ok \<or> \<not> cb_ok then (RHINO_NULL_PTR, s, ts)
          else if first = 0 then (RHINO_INV_PARAM, s, ts)
          else if first \<ge> MAX_TIMER_TICKS then (RHINO_INV_PARAM, s, ts)
          else if round \<ge> MAX_TIMER_TICKS then (RHINO_INV_PARAM, s, ts)
          else
            let ts = upd_timer t (\<lambda>k. \<lparr>to_head = False, timer_cb_arg = arg, t_match = 0, t_remain = 0, init_count = first,
                  round_ticks = round, timer_obj_type = RHINO_TIMER_OBJ_TYPE, timer_state = TIMER_DEACTIVE,
                  timer_alloc = mm_alloc_flag\<rparr>) ts
            in if auto_run then (case krhino_timer_start cb (Some t) s of (err, s) \<Rightarrow> (err, s, ts))
               else (RHINO_SUCCESS, s, ts))"

definition krhino_timer_create ::
  "k_timer_queue_cb \<Rightarrow> timer_id option \<Rightarrow> bool \<Rightarrow> bool \<Rightarrow> sys_time_t \<Rightarrow> sys_time_t \<Rightarrow> u32 \<Rightarrow> bool \<Rightarrow>
   kstate \<Rightarrow> tstate \<Rightarrow> kstat \<times> kstate \<times> tstate" where
  "krhino_timer_create cb timer name_ok cb_ok first round arg auto_run s ts =
     timer_create cb timer name_ok cb_ok first round arg auto_run K_OBJ_STATIC_ALLOC s ts"

text \<open>\<open>mem\<close> is the result of \<^verbatim>\<open>krhino_mm_alloc\<close>; the second result is what is stored in \<^verbatim>\<open>*timer\<close>.\<close>

definition krhino_timer_dyn_create ::
  "k_timer_queue_cb \<Rightarrow> bool \<Rightarrow> bool \<Rightarrow> bool \<Rightarrow> sys_time_t \<Rightarrow> sys_time_t \<Rightarrow> u32 \<Rightarrow> bool \<Rightarrow> timer_id option \<Rightarrow>
   kstate \<Rightarrow> tstate \<Rightarrow> kstat \<times> timer_id option \<times> kstate \<times> tstate" where
  "krhino_timer_dyn_create cb ptr_ok name_ok cb_ok first round arg auto_run mem s ts =
     (if \<not> ptr_ok then (RHINO_NULL_PTR, None, s, ts)
      else case mem of
        None \<Rightarrow> (RHINO_NO_MEM, None, s, ts)
      | Some t \<Rightarrow>
          (case timer_create cb (Some t) name_ok cb_ok first round arg auto_run K_OBJ_DYN_ALLOC s ts of
             (ret, s, ts) \<Rightarrow>
               if ret \<noteq> RHINO_SUCCESS then (ret, None, s, ts\<lparr>t_freed := t_freed ts @ [t]\<rparr>) else (ret, Some t, s, ts)))"

lemma bit_le_word: "bit (le_word bs :: 'a::len word) i \<longleftrightarrow> i < LENGTH('a) \<and> i div 8 < length bs \<and> bit (bs ! (i div 8)) (i mod 8)"
proof (induction bs arbitrary: i)
  case (Cons b bs)
  show ?case
  proof (cases "i < 8")
    case True
    then show ?thesis by (auto simp: bit_simps)
  next
    case False
    then obtain j where j: "i = j + 8" using le_Suc_ex by (metis add.commute not_less)
    have "\<not> bit b i" using False by (auto simp: bit_simps dest: bit_imp_le_length)
    moreover have "(j + 8) div 8 = Suc (j div 8)" by simp
    ultimately show ?thesis using Cons.IH [of j] by (auto simp: bit_simps j)
  qed
qed simp

lemma length_le_bytes [simp]: "length (le_bytes n w) = n"
  by (simp add: le_bytes_def)

lemma le_word_le_bytes:
  assumes "LENGTH('a::len) = 8 * n"
  shows "le_word (le_bytes n (w :: 'a word)) = w"
proof (rule bit_word_eqI)
  fix i assume i: "i < LENGTH('a)"
  then have "i div 8 < n" using assms by linarith
  then show "bit (le_word (le_bytes n w) :: 'a word) i = bit w i"
    using i by (auto simp: bit_le_word le_bytes_def bit_simps)
qed

lemma length_cb_bytes [simp]: "length (cb_bytes cb) = CB_SIZE"
  by (simp add: cb_bytes_def)

lemma bytes_cb_bytes: "bytes_cb (cb_bytes cb) = cb"
  by (simp add: bytes_cb_def cb_bytes_def le_word_le_bytes nth_append)

end
