(* ===== verification/Timer_Props.thy ===== *)
theory Timer_Props
  imports Timer
begin

text \<open>
  Properties of the timers (\<^verbatim>\<open>k_timer.c\<close>): the structure of the list, the end of the loops of
  the timer task, and the times at which timers fire.
\<close>

section \<open>The list of running timers\<close>

definition listed :: "tstate \<Rightarrow> timer_id \<Rightarrow> bool" where
  "listed s t \<longleftrightarrow> t \<in> set (g_timer_head s)"

definition tinv :: "tstate \<Rightarrow> bool" where
  "tinv s \<longleftrightarrow> distinct (g_timer_head s) \<and>
     (\<forall>t. (t \<in> set (g_timer_head s) \<longrightarrow> timer_obj_type (timers s t) = RHINO_TIMER_OBJ_TYPE) \<and>
          (timer_obj_type (timers s t) = RHINO_TIMER_OBJ_TYPE \<longrightarrow>
             (to_head (timers s t) \<longleftrightarrow> t \<in> set (g_timer_head s)) \<and>
             (timer_state (timers s t) = TIMER_ACTIVE \<longleftrightarrow> t \<in> set (g_timer_head s))))"

lemma tinvD:
  assumes "tinv s"
  shows "distinct (g_timer_head s)" "t \<in> set (g_timer_head s) \<Longrightarrow> to_head (timers s t)"
    "t \<in> set (g_timer_head s) \<Longrightarrow> timer_obj_type (timers s t) = RHINO_TIMER_OBJ_TYPE"
    "timer_obj_type (timers s t) = RHINO_TIMER_OBJ_TYPE \<Longrightarrow> timer_state (timers s t) = TIMER_ACTIVE \<longleftrightarrow> t \<in> set (g_timer_head s)"
  using assms by (auto simp: tinv_def)

definition due :: "tstate \<Rightarrow> timer_id \<Rightarrow> bool" where
  "due s t \<longleftrightarrow> tick_delta (t_match (timers s t)) (g_timer_count s) \<le> 0"

text \<open>What firing does to the timer and to the list.\<close>

definition fired_timer :: "sys_time_t \<Rightarrow> ktimer \<Rightarrow> ktimer" where
  "fired_timer now k =
     (if round_ticks k > 0 then k\<lparr>t_remain := round_ticks k, t_match := now + round_ticks k, to_head := True\<rparr>
      else k\<lparr>to_head := False, timer_state := TIMER_DEACTIVE\<rparr>)"

definition reinsert :: "sys_time_t \<Rightarrow> (timer_id \<Rightarrow> ktimer) \<Rightarrow> timer_id \<Rightarrow> timer_id list \<Rightarrow> timer_id list" where
  "reinsert now ks t xs =
     (if round_ticks (ks t) > 0
      then insert_before (\<lambda>u. t_match (ks u) - now > round_ticks (ks t)) t (remove1 t xs) else remove1 t xs)"

lemma timer_fire_eq:
  assumes "tinv s" and "t \<in> set (g_timer_head s)"
  shows "timer_fire t s =
    s\<lparr>timers := (timers s)(t := fired_timer (g_timer_count s) (timers s t)),
      g_timer_head := reinsert (g_timer_count s) (timers s) t (g_timer_head s),
      t_fired := t_fired s @ [(t, timer_cb_arg (timers s t), g_timer_count s)]\<rparr>"
proof -
  have h: "to_head (timers s t)" and d: "t \<notin> set (remove1 t (g_timer_head s))"
    using assms tinvD [OF assms(1)] by auto
  have "insert_before (\<lambda>u. round_ticks (timers s t) < t_match (if u = t then z else timers s u) - g_timer_count s) t
      (remove1 t (g_timer_head s)) =
    insert_before (\<lambda>u. round_ticks (timers s t) < t_match (timers s u) - g_timer_count s) t (remove1 t (g_timer_head s))" for z
    using d by (intro insert_before_cong) auto
  then show ?thesis using h
    by (cases s) (simp add: timer_fire_def timer_list_rm_def upd_timer_def timer_list_pri_insert_def Let_def fired_timer_def
        reinsert_def fun_upd_def cong: if_cong)
qed

lemma set_reinsert: "distinct xs \<Longrightarrow> t \<in> set xs \<Longrightarrow>
    set (reinsert now ks t xs) = (if round_ticks (ks t) > 0 then set xs else set xs - {t})"
  by (auto simp: reinsert_def)

lemma distinct_reinsert: "distinct xs \<Longrightarrow> distinct (reinsert now ks t xs)"
  by (simp add: reinsert_def distinct_remove1)

lemma fired_timer_simps [simp]:
  "round_ticks (fired_timer now k) = round_ticks k" "timer_obj_type (fired_timer now k) = timer_obj_type k"
  "timer_cb_arg (fired_timer now k) = timer_cb_arg k"
  "init_count (fired_timer now k) = init_count k" "to_head (fired_timer now k) = (round_ticks k > 0)"
  "round_ticks k > 0 \<Longrightarrow> timer_state (fired_timer now k) = timer_state k"
  "round_ticks k > 0 \<Longrightarrow> t_match (fired_timer now k) = now + round_ticks k"
  "\<not> round_ticks k > 0 \<Longrightarrow> timer_state (fired_timer now k) = TIMER_DEACTIVE"
  by (auto simp: fired_timer_def)

lemma tinv_fire:
  assumes "tinv s" and "t \<in> set (g_timer_head s)"
  shows "tinv (timer_fire t s)"
  using assms by (simp add: timer_fire_eq tinv_def set_reinsert distinct_reinsert)

section \<open>The loops of the timer task\<close>

text \<open>
  Both loops do nothing but fire listed timers that are due.  With periods below \<open>2 ^ 31\<close> a timer
  that has fired is not due any more, so the loops end.
\<close>

definition due_set :: "tstate \<Rightarrow> timer_id set" where
  "due_set s = {t \<in> set (g_timer_head s). due s t}"

inductive fire_step :: "tstate \<Rightarrow> tstate \<Rightarrow> bool" where
  "t \<in> due_set s \<Longrightarrow> fire_step s (timer_fire t s)"

definition rounds_ok :: "tstate \<Rightarrow> bool" where
  "rounds_ok s \<longleftrightarrow> (\<forall>t \<in> set (g_timer_head s). round_ticks (timers s t) < 2 ^ 31)"

lemma tick_delta_round:
  assumes "r < 2 ^ 31"
  shows "tick_delta (now + r) now = uint r"
proof -
  have "now + r - now = r" by simp
  then show ?thesis using assms sint_diff_ucast_small [of "now + r" now] by (simp add: tick_delta_def)
qed

lemma due_set_fire:
  assumes "tinv s" and "rounds_ok s" and "t \<in> due_set s"
  shows "due_set (timer_fire t s) = due_set s - {t}" "rounds_ok (timer_fire t s)"
proof -
  have t: "t \<in> set (g_timer_head s)" using assms by (simp add: due_set_def)
  note d = tinvD(1) [OF assms(1)]
  have "\<not> tick_delta (g_timer_count s + round_ticks (timers s t)) (g_timer_count s) \<le> 0" if "round_ticks (timers s t) > 0"
    using that assms(2) t by (simp add: tick_delta_round rounds_ok_def word_less_def)
  then show "due_set (timer_fire t s) = due_set s - {t}"
    using assms t d by (auto simp: timer_fire_eq due_set_def due_def set_reinsert)
  show "rounds_ok (timer_fire t s)"
    using assms(2) t by (auto simp: timer_fire_eq [OF assms(1) t] rounds_ok_def set_reinsert [OF d t])
qed

lemma fire_steps_inv:
  assumes "fire_step\<^sup>*\<^sup>* s s'" and "tinv s" and "rounds_ok s"
  shows "tinv s' \<and> rounds_ok s' \<and> g_timer_count s' = g_timer_count s \<and> due_set s' \<subseteq> due_set s"
  using assms
proof (induction rule: rtranclp_induct)
  case (step x y)
  then obtain t where t: "t \<in> due_set x" "y = timer_fire t x" and x: "tinv x" "rounds_ok x"
    by (auto elim: fire_step.cases)
  then have "t \<in> set (g_timer_head x)" by (simp add: due_set_def)
  then show ?case using t x step.IH step.prems due_set_fire [OF x t(1)] tinv_fire [of x t]
    by (auto simp: timer_fire_eq)
qed simp

lemma succ_in_mem: "succ_in xs t = Some u \<Longrightarrow> distinct xs \<Longrightarrow> u \<in> set xs \<and> u \<noteq> t"
proof (induction xs)
  case (Cons x xs)
  then show ?case by (cases xs) (auto split: if_splits)
qed simp

lemma timer_cb_loop_fires:
  assumes "tinv s" and "rounds_ok s" and "\<And>t. q = Some t \<Longrightarrow> t \<in> set (g_timer_head s)"
  shows "\<exists>s'. timer_cb_loop q s = Some s' \<and> fire_step\<^sup>*\<^sup>* s s' \<and> (\<forall>t. q = Some t \<and> due s t \<longrightarrow> due_set s' \<subset> due_set s)"
  using assms
proof (induction "card (due_set s)" arbitrary: q s rule: less_induct)
  case less
  show ?case
  proof (cases "\<exists>t. q = Some t \<and> due s t")
    case False
    then have "timer_cb_loop q s = Some s" by (subst timer_cb_loop.simps) (auto simp: due_def split: option.split)
    then show ?thesis using False by blast
  next
    case True
    then obtain t where t: "q = Some t" "due s t" by blast
    then have l: "t \<in> set (g_timer_head s)" and ds: "t \<in> due_set s" using less.prems by (auto simp: due_set_def)
    let ?s = "timer_fire t s"
    let ?q = "succ_in (if round_ticks (timers s t) > 0 then g_timer_head ?s else g_timer_head s) t"
    have fs: "due_set ?s = due_set s - {t}" "rounds_ok ?s" "tinv ?s"
      using due_set_fire less.prems ds tinv_fire l by blast+
    have "finite (due_set s)" by (simp add: due_set_def)
    then have "card (due_set ?s) < card (due_set s)" unfolding fs(1) using ds by (rule card_Diff1_less)
    moreover have "distinct (if round_ticks (timers s t) > 0 then g_timer_head ?s else g_timer_head s)"
      using tinvD(1) [OF less.prems(1)] tinvD(1) [OF fs(3)] by simp
    then have "u \<in> set (g_timer_head ?s)" if "?q = Some u" for u
      using succ_in_mem [OF that] l tinvD(1) [OF less.prems(1)]
      by (auto simp: timer_fire_eq [OF less.prems(1) l] set_reinsert split: if_splits)
    ultimately obtain s' where s': "timer_cb_loop ?q ?s = Some s'" "fire_step\<^sup>*\<^sup>* ?s s'"
      using less.hyps [of ?s ?q] fs(2,3) by blast
    have "timer_cb_loop q s = Some s'" 
      using t s'(1) by (subst timer_cb_loop.simps) (simp add: due_def Let_def)
    moreover have "fire_step\<^sup>*\<^sup>* s s'" using s'(2) ds by (meson converse_rtranclp_into_rtranclp fire_step.intros)
    moreover have "due_set s' \<subset> due_set s" using fire_steps_inv [OF s'(2) fs(3,2)] fs(1) ds by blast
    ultimately show ?thesis by (intro exI [of _ s']) simp
  qed
qed

lemma timer_cb_proc_fires:
  assumes "tinv s" and "rounds_ok s"
  shows "\<exists>s'. timer_cb_proc s = Some s' \<and> fire_step\<^sup>*\<^sup>* s s' \<and>
    (g_timer_head s \<noteq> [] \<and> due s (hd (g_timer_head s)) \<longrightarrow> due_set s' \<subset> due_set s)"
proof -
  have "t \<in> set (g_timer_head s)" if "first_of (g_timer_head s) = Some t" for t
    using that by (auto simp: first_of_def split: list.splits)
  from timer_cb_loop_fires [OF assms, of "first_of (g_timer_head s)", OF this] show ?thesis
    by (cases "g_timer_head s") (simp_all add: timer_cb_proc_def first_of_def)
qed

lemma timer_task_wait_None: "timer_task_wait now s = None \<longleftrightarrow> g_timer_head s \<noteq> [] \<and> due (s\<lparr>g_timer_count := now\<rparr>) (hd (g_timer_head s))"
  by (auto simp: timer_task_wait_def due_def Let_def split: list.splits)

lemma tinv_count [simp]: "tinv (s\<lparr>g_timer_count := now\<rparr>) = tinv s" "rounds_ok (s\<lparr>g_timer_count := now\<rparr>) = rounds_ok s"
  by (simp_all add: tinv_def rounds_ok_def)

text \<open>A run of the timer task, with the time of the start set when something is due.\<close>

lemma timer_task_run_fires:
  assumes "tinv s" and "rounds_ok s" and "g_timer_count s = now"
  shows "\<exists>s'. timer_task_run now s = Some s' \<and> fire_step\<^sup>*\<^sup>* s s' \<and> timer_task_wait now s' \<noteq> None"
  using assms
proof (induction "card (due_set s)" arbitrary: s rule: less_induct)
  case less
  have eq: "s\<lparr>g_timer_count := now\<rparr> = s" using less.prems by simp
  show ?case
  proof (cases "timer_task_wait now s")
    case None
    then have "g_timer_head s \<noteq> [] \<and> due s (hd (g_timer_head s))" by (simp add: timer_task_wait_None eq)
    then obtain s1 where s1: "timer_cb_proc s = Some s1" "fire_step\<^sup>*\<^sup>* s s1" "due_set s1 \<subset> due_set s"
      using timer_cb_proc_fires [OF less.prems(1,2)] by blast
    have "card (due_set s1) < card (due_set s)" using s1(3) by (auto intro: psubset_card_mono simp: due_set_def)
    moreover note fire_steps_inv [OF s1(2) less.prems(1,2)]
    ultimately obtain s' where "timer_task_run now s1 = Some s'" "fire_step\<^sup>*\<^sup>* s1 s'" "timer_task_wait now s' \<noteq> None"
      using less.hyps [of s1] less.prems by auto
    moreover have "timer_task_run now s = timer_task_run now s1"
      using None s1(1) by (subst timer_task_run.simps) (simp add: eq)
    ultimately show ?thesis using s1(2) by (metis rtranclp_trans)
  next
    case (Some w)
    then have "timer_task_run now s = Some s" by (subst timer_task_run.simps) simp
    then show ?thesis using Some by blast
  qed
qed

text \<open>What a sequence of firings leaves: each timer that was due and is not due now has fired once.\<close>

lemma fire_steps_effect:
  assumes "fire_step\<^sup>*\<^sup>* s s'" and "tinv s" and "rounds_ok s"
  shows "\<exists>fs. t_fired s' = t_fired s @ fs \<and> distinct (map fst fs) \<and>
      set fs = (\<lambda>t. (t, timer_cb_arg (timers s t), g_timer_count s)) ` (due_set s - due_set s') \<and>
      (\<forall>u. timers s' u = (if u \<in> due_set s - due_set s' then fired_timer (g_timer_count s) (timers s u) else timers s u)) \<and>
      set (g_timer_head s') = {u \<in> set (g_timer_head s). u \<in> due_set s - due_set s' \<longrightarrow> round_ticks (timers s u) > 0}"
  using assms
proof (induction rule: rtranclp_induct)
  case base
  then show ?case by (intro exI [of _ "[]"]) auto
next
  case (step x y)
  obtain t where t: "t \<in> due_set x" "y = timer_fire t x" using step.hyps(2) by (auto elim: fire_step.cases)
  obtain fs where fs: "t_fired x = t_fired s @ fs" "distinct (map fst fs)"
      "set fs = (\<lambda>t. (t, timer_cb_arg (timers s t), g_timer_count s)) ` (due_set s - due_set x)"
      "\<forall>u. timers x u = (if u \<in> due_set s - due_set x then fired_timer (g_timer_count s) (timers s u) else timers s u)"
      "set (g_timer_head x) = {u \<in> set (g_timer_head s). u \<in> due_set s - due_set x \<longrightarrow> round_ticks (timers s u) > 0}"
    using step.IH step.prems by blast
  note x = fire_steps_inv [OF step.hyps(1) step.prems]
  have l: "t \<in> set (g_timer_head x)" and ts: "timers x t = timers s t" using t(1) fs(4) by (auto simp: due_set_def)
  have ds: "due_set s - due_set y = insert t (due_set s - due_set x)" "t \<in> due_set s" "due_set y = due_set x - {t}"
    using due_set_fire(1) [of x t] x t by auto
  have "timers y = (timers x)(t := fired_timer (g_timer_count s) (timers s t))"
      "t_fired y = t_fired s @ fs @ [(t, timer_cb_arg (timers s t), g_timer_count s)]"
      "set (g_timer_head y) = (if round_ticks (timers s t) > 0 then set (g_timer_head x) else set (g_timer_head x) - {t})"
    using x l ts fs(1) tinvD(1) by (auto simp: t(2) timer_fire_eq set_reinsert)
  moreover have "t \<notin> fst ` set fs" using fs(3) t(1) by auto
  ultimately show ?case using fs ds t(1)
    by (intro exI [of _ "fs @ [(t, timer_cb_arg (timers s t), g_timer_count s)]"]) auto
qed

section \<open>Timers on time\<close>

text \<open>
  \<open>timely now s\<close>: no timer has missed its time and all are at most \<open>2 ^ 31\<close> ticks away, so the list is sorted by
  the remaining time.
\<close>

definition timely :: "sys_time_t \<Rightarrow> tstate \<Rightarrow> bool" where
  "timely now s \<longleftrightarrow> tinv s \<and> rounds_ok s \<and> sorted (map (\<lambda>t. t_match (timers s t) - now) (g_timer_head s)) \<and>
     (\<forall>t \<in> set (g_timer_head s). t_match (timers s t) - now < 2 ^ 31)"

lemma timely_due:
  assumes "timely now s" and "t \<in> set (g_timer_head s)" and "g_timer_count s = now"
  shows "due s t \<longleftrightarrow> t_match (timers s t) = now"
proof -
  have "tick_delta (t_match (timers s t)) now = int (unat (t_match (timers s t) - now))"
    unfolding tick_delta_def using assms by (intro sint_diff_ucast_small) (simp add: timely_def)
  then show ?thesis using assms(3) by (simp add: due_def uint_0_iff)
qed

lemma timely_fire:
  assumes "timely now s" and "t \<in> set (g_timer_head s)" and "g_timer_count s = now" and "due s t"
  shows "timely now (timer_fire t s)"
proof -
  have inv: "tinv s" "rounds_ok s" and so: "sorted (map (\<lambda>t. t_match (timers s t) - now) (g_timer_head s))"
    using assms by (auto simp: timely_def)
  have ds: "t \<in> due_set s" using assms by (simp add: due_set_def)
  note d = tinvD(1) [OF inv(1)]
  let ?xs = "remove1 t (g_timer_head s)" and ?r = "round_ticks (timers s t)"
  let ?f = "\<lambda>u. t_match (((timers s)(t := fired_timer now (timers s t))) u) - now"
  have notin: "t \<notin> set ?xs" using d by simp
  have "sorted (map (\<lambda>t. t_match (timers s t) - now) ?xs)" using so by (rule sorted_map_remove1)
  also have "map (\<lambda>t. t_match (timers s t) - now) ?xs = map ?f ?xs" using notin by (intro map_cong) auto
  finally have s1: "sorted (map ?f ?xs)" .
  have "insert_before (\<lambda>u. t_match (timers s u) - now > ?r) t ?xs = insert_before (\<lambda>u. ?f t < ?f u) t ?xs" if "?r > 0"
    using that notin by (intro insert_before_cong) auto
  then have "reinsert now (timers s) t (g_timer_head s) = (if ?r > 0 then insert_before (\<lambda>u. ?f t < ?f u) t ?xs else ?xs)"
    unfolding reinsert_def by argo
  then have "sorted (map ?f (reinsert now (timers s) t (g_timer_head s)))"
    using s1 sorted_key_insert_before [OF s1, of t] by metis
  then show ?thesis
    using tinv_fire [OF inv(1) assms(2)] due_set_fire(2) [OF inv ds] assms inv
    by (auto simp: timely_def timer_fire_eq [OF inv(1) assms(2)] set_reinsert [OF d assms(2)] rounds_ok_def)
qed

lemma timely_fire_steps: "fire_step\<^sup>*\<^sup>* s s' \<Longrightarrow> timely now s \<Longrightarrow> g_timer_count s = now \<Longrightarrow> timely now s' \<and> g_timer_count s' = now"
proof (induction rule: rtranclp_induct)
  case (step x y)
  then show ?case using timely_fire [of now x]
    by (auto elim!: fire_step.cases simp: due_set_def timely_def timer_fire_eq)
qed simp

text \<open>\<open>on_time\<close>: in addition nothing is due at the moment.\<close>

definition on_time :: "sys_time_t \<Rightarrow> tstate \<Rightarrow> bool" where
  "on_time now s \<longleftrightarrow> timely now s \<and> (\<forall>t \<in> set (g_timer_head s). t_match (timers s t) \<noteq> now)"

lemma timely_count [simp]: "timely now (s\<lparr>g_timer_count := c\<rparr>) = timely now s" "on_time now (s\<lparr>g_timer_count := c\<rparr>) = on_time now s"
  by (simp_all add: timely_def on_time_def)

text \<open>Time passes, up to the time of the first timer.\<close>

lemma timely_later:
  assumes "timely now s" and "\<And>t. t \<in> set (g_timer_head s) \<Longrightarrow> d \<le> t_match (timers s t) - now"
  shows "timely (now + d) s"
proof -
  let ?f = "\<lambda>t. t_match (timers s t) - now"
  have eq: "t_match (timers s t) - (now + d) = ?f t - d" for t by (simp add: algebra_simps)
  have mono: "?f t - d \<le> ?f u - d" if "?f t \<le> ?f u" "t \<in> set (g_timer_head s)" for t u
    using that assms(2) [of t] by (simp add: word_le_nat_alt unat_sub)
  have "sorted_wrt (\<lambda>t u. ?f t \<le> ?f u) (g_timer_head s)" using assms(1) by (simp add: timely_def sorted_map)
  then have "sorted_wrt (\<lambda>t u. ?f t - d \<le> ?f u - d) (g_timer_head s)"
    by (rule sorted_wrt_mono_rel [rotated]) (rule mono)
  moreover have "?f t - d < 2 ^ 31" if t: "t \<in> set (g_timer_head s)" for t
  proof -
    have "?f t - d \<le> ?f t" using assms(2) [OF t] by (simp add: word_le_nat_alt unat_sub)
    then show ?thesis using assms(1) t by (auto simp: timely_def)
  qed
  ultimately show ?thesis using assms(1) by (simp add: timely_def sorted_map eq)
qed

lemma timely_least:
  assumes "timely now s" and "g_timer_head s = t # ts" and "u \<in> set (g_timer_head s)"
  shows "t_match (timers s t) - now \<le> t_match (timers s u) - now"
  using assms by (auto simp: timely_def)

text \<open>A run at time \<open>now\<close> fires exactly the timers whose time is \<open>now\<close>.\<close>

lemma timely_run:
  assumes "timely now s" and "g_timer_count s = now"
  shows "\<exists>s' fs. timer_task_run now s = Some s' \<and> on_time now s' \<and>
    t_fired s' = t_fired s @ fs \<and> distinct (map fst fs) \<and>
    set fs = (\<lambda>u. (u, timer_cb_arg (timers s u), now)) ` {u \<in> set (g_timer_head s). t_match (timers s u) = now} \<and>
    (\<forall>u. timers s' u = (if u \<in> set (g_timer_head s) \<and> t_match (timers s u) = now then fired_timer now (timers s u) else timers s u))"
proof -
  have inv: "tinv s" "rounds_ok s" using assms by (simp_all add: timely_def)
  obtain s' where s': "timer_task_run now s = Some s'" "fire_step\<^sup>*\<^sup>* s s'" "timer_task_wait now s' \<noteq> None"
    using timer_task_run_fires [OF inv assms(2)] by blast
  have t': "timely now s'" "g_timer_count s' = now" using timely_fire_steps [OF s'(2) assms] by auto
  have "t_match (timers s' u) \<noteq> now" if u: "u \<in> set (g_timer_head s')" for u
  proof (cases "g_timer_head s'")
    case (Cons t ts)
    then have "\<not> due s' t" using s'(3) t'(2) by (simp add: timer_task_wait_None due_def)
    then have "t_match (timers s' t) - now \<noteq> 0" using timely_due [OF t'(1) _ t'(2), of t] Cons by simp
    moreover have "t_match (timers s' t) - now \<le> t_match (timers s' u) - now" using timely_least [OF t'(1) Cons u] .
    ultimately show ?thesis by auto
  qed (use u in simp)
  then have on: "on_time now s'" using t' by (simp add: on_time_def)
  then have "due_set s' = {}" using timely_due [OF t'(1) _ t'(2)] by (auto simp: due_set_def on_time_def)
  then have "due_set s - due_set s' = {u \<in> set (g_timer_head s). t_match (timers s u) = now}"
    using timely_due [OF assms(1) _ assms(2)] by (auto simp: due_set_def)
  then show ?thesis using fire_steps_effect [OF s'(2) inv] s'(1) on assms(2) by auto
qed

section \<open>The commands\<close>

lemma tinv_start:
  assumes "tinv s" and "timer_obj_type (timers s t) = RHINO_TIMER_OBJ_TYPE" and "t \<notin> set (g_timer_head s)"
  shows "tinv (s\<lparr>timers := (timers s)(t := (timers s t)\<lparr>t_match := m, t_remain := r, to_head := True, timer_state := TIMER_ACTIVE\<rparr>),
    g_timer_head := insert_before P t (g_timer_head s)\<rparr>)"
  using assms by (auto simp: tinv_def)

lemma cmd_start_eq:
  assumes "cb_timer cb = t" and "timer_obj_type (timers s t) = RHINO_TIMER_OBJ_TYPE"
    and "timer_state (timers s t) \<noteq> TIMER_ACTIVE" and "t \<notin> set (g_timer_head s)"
  shows "cmd_proc cb (cmd_num TIMER_CMD_START) s =
    s\<lparr>timers := (timers s)(t := (timers s t)\<lparr>t_match := g_timer_count s + init_count (timers s t),
        t_remain := init_count (timers s t), to_head := True, timer_state := TIMER_ACTIVE\<rparr>),
      g_timer_head := insert_before (\<lambda>u. t_match (timers s u) - g_timer_count s > init_count (timers s t)) t (g_timer_head s)\<rparr>"
proof -
  have "insert_before (\<lambda>u. init_count (timers s t) < t_match (if u = t then z else timers s u) - g_timer_count s) t (g_timer_head s) =
    insert_before (\<lambda>u. init_count (timers s t) < t_match (timers s u) - g_timer_count s) t (g_timer_head s)" for z
    using assms(4) by (intro insert_before_cong) auto
  then show ?thesis using assms
    by (cases s) (simp add: cmd_proc_def Let_def upd_timer_def timer_list_pri_insert_def fun_upd_def cong: if_cong)
qed

lemma tinv_upd:
  assumes "tinv s" and "\<And>k. to_head (f k) = to_head k \<and> timer_obj_type (f k) = timer_obj_type k \<and> timer_state (f k) = timer_state k"
  shows "tinv (upd_timer t f s)"
  using assms by (simp add: tinv_def upd_timer_def)

lemma tinv_del:
  assumes "tinv s" and "t \<notin> set (g_timer_head s)"
  shows "tinv (upd_timer t (\<lambda>k. k\<lparr>timer_obj_type := RHINO_OBJ_TYPE_NONE\<rparr>) s)"
  using assms by (simp add: tinv_def upd_timer_def)

lemma tinv_stop:
  assumes "tinv s" and "timer_obj_type (timers s t) = RHINO_TIMER_OBJ_TYPE" and "timer_state (timers s t) = TIMER_ACTIVE"
  shows "tinv (upd_timer t (\<lambda>k. k\<lparr>timer_state := TIMER_DEACTIVE\<rparr>) (timer_list_rm t s))"
proof -
  have "t \<in> set (g_timer_head s)" "to_head (timers s t)" using assms tinvD by auto
  then show ?thesis using assms by (auto simp: tinv_def upd_timer_def timer_list_rm_def)
qed

lemma tinv_cmd_proc:
  assumes "tinv s"
  shows "tinv (cmd_proc cb cmd s)"
proof (cases "cmd = cmd_num TIMER_CMD_START \<and> timer_obj_type (timers s (cb_timer cb)) = RHINO_TIMER_OBJ_TYPE \<and>
    timer_state (timers s (cb_timer cb)) \<noteq> TIMER_ACTIVE")
  case True
  then have "cb_timer cb \<notin> set (g_timer_head s)" using tinvD(4) [OF assms] by auto
  then show ?thesis using cmd_start_eq [OF refl] True assms by (simp add: tinv_start)
next
  case False
  let ?t = "cb_timer cb" and ?k = "timers s (cb_timer cb)"
  have act: "?t \<notin> set (g_timer_head s)" if "timer_state ?k = TIMER_DEACTIVE"
    using that tinvD(3,4) [OF assms, of ?t] by auto
  have stop: "tinv (upd_timer ?t (\<lambda>k. k\<lparr>timer_state := TIMER_DEACTIVE\<rparr>) (timer_list_rm ?t s))"
    if "timer_obj_type ?k = RHINO_TIMER_OBJ_TYPE" "timer_state ?k \<noteq> TIMER_DEACTIVE"
    using that k_timer_state_t.exhaust [of "timer_state ?k"] by (intro tinv_stop assms) auto
  have others: "tinv (s\<lparr>t_errs := e\<rparr>)" "tinv (s'\<lparr>t_freed := fr\<rparr>) = tinv s'" for e fr and s' :: tstate
    using assms by (simp_all add: tinv_def)
  show ?thesis using False act stop others
    by (simp add: cmd_proc_def Let_def assms tinv_upd tinv_del)
qed

lemma tinv_timer_cmd_proc: "tinv s \<Longrightarrow> tinv (timer_cmd_proc cb s)"
  by (simp add: timer_cmd_proc_def tinv_cmd_proc)

section \<open>The timer service as a transition system\<close>

lemma tinv_cb_loop:
  assumes "timer_cb_loop q s = Some s'" and "tinv s" and "\<And>t. q = Some t \<Longrightarrow> t \<in> set (g_timer_head s)"
  shows "tinv s'"
proof -
  have "tinv s \<and> (\<forall>t. q = Some t \<longrightarrow> t \<in> set (g_timer_head s)) \<longrightarrow> tinv s'"
  proof (rule timer_cb_loop.raw_induct [OF _ assms(1), where P = "\<lambda>q s s'. tinv s \<and> (\<forall>t. q = Some t \<longrightarrow> t \<in> set (g_timer_head s)) \<longrightarrow> tinv s'"])
    fix loop q s s'
    assume IH: "\<And>q s s'. loop q s = Some s' \<Longrightarrow> tinv s \<and> (\<forall>t. q = Some t \<longrightarrow> t \<in> set (g_timer_head s)) \<longrightarrow> tinv s'"
      and r: "(case q of None \<Rightarrow> Some s | Some t \<Rightarrow>
          if tick_delta (t_match (timers s t)) (g_timer_count s) \<le> 0 then
            (let s' = timer_fire t s
             in loop (succ_in (if round_ticks (timers s t) > 0 then g_timer_head s' else g_timer_head s) t) s')
          else Some s) = Some s'"
    show "tinv s \<and> (\<forall>t. q = Some t \<longrightarrow> t \<in> set (g_timer_head s)) \<longrightarrow> tinv s'"
    proof
      assume h: "tinv s \<and> (\<forall>t. q = Some t \<longrightarrow> t \<in> set (g_timer_head s))"
      show "tinv s'"
      proof (cases "\<exists>t. q = Some t \<and> due s t")
        case True
        then obtain t where t: "q = Some t" "due s t" "t \<in> set (g_timer_head s)" using h by blast
        let ?s = "timer_fire t s" and ?xs = "if round_ticks (timers s t) > 0 then g_timer_head (timer_fire t s) else g_timer_head s"
        have inv: "tinv ?s" using tinv_fire h t(3) by blast
        have "distinct ?xs" using tinvD(1) h inv by simp
        then have "u \<in> set (g_timer_head ?s)" if "succ_in ?xs t = Some u" for u
          using succ_in_mem [OF that] h t(3) tinvD(1) by (auto simp: timer_fire_eq set_reinsert split: if_splits)
        moreover have "loop (succ_in ?xs t) ?s = Some s'" using r t by (simp add: due_def Let_def)
        ultimately show ?thesis using IH inv by blast
      qed (use h r in \<open>auto simp: due_def split: option.splits if_splits\<close>)
    qed
  qed
  then show ?thesis using assms by blast
qed

lemma tinv_cb_proc: "timer_cb_proc s = Some s' \<Longrightarrow> tinv s \<Longrightarrow> tinv s'"
  unfolding timer_cb_proc_def by (rule tinv_cb_loop) (auto simp: first_of_def split: list.splits)

lemma tinv_errs [simp]: "tinv (s\<lparr>t_errs := e\<rparr>) = tinv s" "tinv (s\<lparr>t_freed := f\<rparr>) = tinv s"
  by (simp_all add: tinv_def)

lemma tinv_create:
  assumes "tinv s" and "t \<notin> set (g_timer_head s)"
  shows "tinv (snd (snd (timer_create cb (Some t) n c first round arg auto_run flag ks s)))"
  using assms by (auto simp: timer_create_def tinv_def upd_timer_def Let_def split: prod.split)

text \<open>
  The service starts with an empty list and no timer created.  A timer is created
  in memory that is not a running timer (\<open>create\<close>); memory that is not a timer may be used for anything (\<open>reuse\<close>).
  The other rules are the turns of the loops of \<open>timer_task\<close>, at any time and with any command.
\<close>

inductive tstep :: "tstate \<Rightarrow> tstate \<Rightarrow> bool" where
  idle: "g_timer_head s = [] \<Longrightarrow> tstep s (timer_task_idle err cb now s)"
| woken: "timer_task_wait start s \<noteq> None \<Longrightarrow> g_timer_head s \<noteq> [] \<Longrightarrow> timer_task_woken err cb now s = Some s' \<Longrightarrow> tstep s s'"
| late: "timer_task_wait now s = None \<Longrightarrow> timer_cb_proc (s\<lparr>g_timer_count := now\<rparr>) = Some s' \<Longrightarrow> tstep s s'"
| create: "t \<notin> set (g_timer_head s) \<Longrightarrow>
    tstep s (snd (snd (timer_create cb (Some t) n c first round arg auto_run flag ks s)))"
| reuse: "timer_obj_type (timers s t) \<noteq> RHINO_TIMER_OBJ_TYPE \<Longrightarrow> timer_obj_type k \<noteq> RHINO_TIMER_OBJ_TYPE \<Longrightarrow>
    tstep s (upd_timer t (\<lambda>_. k) s)"

definition tstarted :: "tstate \<Rightarrow> bool" where
  "tstarted s \<longleftrightarrow> g_timer_head s = [] \<and> (\<forall>t. timer_obj_type (timers s t) \<noteq> RHINO_TIMER_OBJ_TYPE)"

lemma tinv_tstep:
  assumes "tstep s s'" and "tinv s"
  shows "tinv s'"
  using assms
proof cases
  case (woken start err cb now)
  then show ?thesis using assms(2) tinv_cb_proc
    by (fastforce simp: timer_task_woken_def tinv_timer_cmd_proc split: if_splits)
next
  case (reuse t k)
  then show ?thesis using assms(2) by (auto simp: tinv_def upd_timer_def)
qed (auto simp: timer_task_idle_def tinv_timer_cmd_proc tinv_create assms(2) intro: tinv_cb_proc)

lemma tinv_tstarted: "tstarted s \<Longrightarrow> tinv s"
  by (simp add: tstarted_def tinv_def)

interpretation tserv: invariant_system tstarted tstep tinv
  by unfold_locales (auto intro: tinv_tstep tinv_tstarted)

section \<open>Properties\<close>

text \<open>A service with two timers, one of them periodic; both come due at time 110.\<close>

definition zero_timer :: ktimer where
  "zero_timer = \<lparr>to_head = False, timer_cb_arg = 0, t_match = 0, t_remain = 0, init_count = 0, round_ticks = 0,
     timer_obj_type = RHINO_OBJ_TYPE_NONE, timer_state = TIMER_DEACTIVE, timer_alloc = K_OBJ_NO_ALLOC\<rparr>"

definition running :: "u32 \<Rightarrow> sys_time_t \<Rightarrow> sys_time_t \<Rightarrow> ktimer" where
  "running arg m r = zero_timer\<lparr>to_head := True, timer_cb_arg := arg, t_match := m, round_ticks := r,
     timer_obj_type := RHINO_TIMER_OBJ_TYPE, timer_state := TIMER_ACTIVE\<rparr>"

definition idle_service :: tstate where
  "idle_service = \<lparr>timers = \<lambda>_. zero_timer, g_timer_head = [], g_timer_count = 100, t_fired = [], t_errs = [], t_freed = []\<rparr>"

definition two_timers :: tstate where
  "two_timers = idle_service\<lparr>timers := (\<lambda>_. zero_timer)(1 := running 7 110 10, 2 := running 8 110 0), g_timer_head := [1, 2]\<rparr>"

definition start_cmd :: "timer_id \<Rightarrow> k_timer_queue_cb" where
  "start_cmd t = \<lparr>cb_timer = t, cb_num = cmd_num TIMER_CMD_START, cb_pad = 0, cb_first = 0, cb_u = 0\<rparr>"

lemmas timer_examples = zero_timer_def running_def idle_service_def two_timers_def

lemma on_time_two_timers: "on_time 100 two_timers"
  by (auto simp: timer_examples on_time_def timely_def tinv_def rounds_ok_def)



lemma timer_cb_proc_none:
  assumes "g_timer_head s = [] \<or> \<not> due s (hd (g_timer_head s))"
  shows "timer_cb_proc s = Some s"
  unfolding timer_cb_proc_def first_of_def using assms
  by (subst timer_cb_loop.simps) (auto simp: due_def split: list.split)

lemma on_time_quiet:
  assumes "on_time now s" and "g_timer_count s = now"
  shows "timer_cb_proc s = Some s"
proof (cases "g_timer_head s")
  case (Cons t ts)
  then have "\<not> due s t" using timely_due [of now s t] assms by (simp add: on_time_def)
  then show ?thesis using Cons by (intro timer_cb_proc_none) simp
qed (simp add: timer_cb_proc_none)

text \<open>
  A start command that comes before the next timer is due makes the timer fire \<open>init_count\<close> ticks
  later: the timer joins the list at its place, nothing fires, no other timer changes, and the
  service stays on time.
\<close>

theorem timer_start_on_time:
  assumes "on_time now s" and "\<forall>u \<in> set (g_timer_head s). d < t_match (timers s u) - now"
    and "cb_num cb = cmd_num TIMER_CMD_START" and "timer_obj_type (timers s (cb_timer cb)) = RHINO_TIMER_OBJ_TYPE"
    and "timer_state (timers s (cb_timer cb)) = TIMER_DEACTIVE"
    and "0 < init_count (timers s (cb_timer cb))" and "init_count (timers s (cb_timer cb)) < 2 ^ 31"
    and "round_ticks (timers s (cb_timer cb)) < 2 ^ 31"
  shows "\<exists>s'. (if g_timer_head s = [] then timer_task_idle RHINO_SUCCESS cb (now + d) s = s'
      else timer_task_woken RHINO_SUCCESS cb (now + d) s = Some s') \<and>
    on_time (now + d) s' \<and> set (g_timer_head s') = insert (cb_timer cb) (set (g_timer_head s)) \<and> t_fired s' = t_fired s \<and>
    timer_state (timers s' (cb_timer cb)) = TIMER_ACTIVE \<and>
    t_match (timers s' (cb_timer cb)) = now + d + init_count (timers s (cb_timer cb)) \<and>
    (\<forall>u. u \<noteq> cb_timer cb \<longrightarrow> timers s' u = timers s u)"
proof -
  let ?t = "cb_timer cb" and ?n = "now + d"
  let ?i = "init_count (timers s ?t)" and ?s = "s\<lparr>g_timer_count := now + d\<rparr>"
  have tm: "timely ?n s" "tinv s" using assms(1,2) timely_later [of now s d] by (auto simp: on_time_def timely_def less_imp_le)
  have new: "?t \<notin> set (g_timer_head s)" using tinvD(3,4) [OF tm(2)] assms(4,5) by force
  have later: "t_match (timers s u) \<noteq> ?n" if "u \<in> set (g_timer_head s)" for u
    using that assms(2) by (auto simp: algebra_simps)
  define s' where "s' = cmd_proc cb (cmd_num TIMER_CMD_START) ?s"
  have eq: "s' = ?s\<lparr>timers := (timers s)(?t := (timers s ?t)\<lparr>t_match := ?n + ?i, t_remain := ?i, to_head := True, timer_state := TIMER_ACTIVE\<rparr>),
      g_timer_head := insert_before (\<lambda>u. t_match (timers s u) - ?n > ?i) ?t (g_timer_head s)\<rparr>"
    unfolding s'_def using cmd_start_eq [OF refl, of ?s cb] assms(4,5) new by simp
  let ?f = "\<lambda>u. t_match (timers s' u) - ?n"
  have mp: "map ?f (g_timer_head s) = map (\<lambda>u. t_match (timers s u) - ?n) (g_timer_head s)"
    using new by (intro map_cong) (auto simp: eq)
  have "sorted (map ?f (g_timer_head s))" unfolding mp using tm(1) unfolding timely_def by blast
  note sorted_key_insert_before [OF this, of ?t]
  moreover have "insert_before (\<lambda>u. ?f ?t < ?f u) ?t (g_timer_head s) = g_timer_head s'"
    unfolding eq using new by (auto intro!: insert_before_cong)
  ultimately have so: "sorted (map ?f (g_timer_head s'))" by simp
  have "tinv s'" unfolding s'_def using tm(2) by (intro tinv_cmd_proc) simp
  then have on: "on_time ?n s'" using so tm(1) later assms(6-8)
    by (auto simp: on_time_def timely_def eq rounds_ok_def)
  have "timer_cb_proc s' = Some s'" using on by (rule on_time_quiet) (simp add: eq)
  moreover have "timer_cmd_proc cb ?s = s'" by (simp add: timer_cmd_proc_def assms(3) s'_def)
  ultimately show ?thesis using on
    by (intro exI [of _ s']) (simp add: timer_task_idle_def timer_task_woken_def, simp add: eq)
qed

text \<open>A third timer, created and not yet started.\<close>

definition three_timers :: tstate where
  "three_timers = two_timers\<lparr>timers := (timers two_timers)
     (3 := zero_timer\<lparr>init_count := 20, timer_obj_type := RHINO_TIMER_OBJ_TYPE\<rparr>)\<rparr>"

lemma on_time_three_timers: "on_time 100 three_timers"
  by (auto simp: three_timers_def timer_examples on_time_def timely_def tinv_def rounds_ok_def)

theorem timer_start_on_time_witness:
  "\<exists>s'. timer_task_woken RHINO_SUCCESS (start_cmd 3) 104 three_timers = Some s' \<and> on_time 104 s' \<and> t_match (timers s' 3) = 124"
  using timer_start_on_time [OF on_time_three_timers, of 4 "start_cmd 3"]
  by (auto simp: three_timers_def timer_examples start_cmd_def)



text \<open>
  With periods below \<open>2 ^ 31\<close> the timer task gets back to waiting, in every state and however late
  it is.  On the way no timer fires early (its remaining time is not positive) and none fires
  twice.
\<close>

theorem timer_task_returns:
  assumes "tinv s" and "rounds_ok s"
  shows "\<exists>s' fs. timer_task_run now s = Some s' \<and> timer_task_wait now s' \<noteq> None \<and> t_fired s' = t_fired s @ fs \<and>
    distinct (map fst fs) \<and>
    (\<forall>(t, arg, time) \<in> set fs. t \<in> set (g_timer_head s) \<and> tick_delta (t_match (timers s t)) now \<le> 0 \<and>
      arg = timer_cb_arg (timers s t) \<and> time = now)"
proof (cases "timer_task_wait now s")
  case None
  let ?s = "s\<lparr>g_timer_count := now\<rparr>"
  have inv: "tinv ?s" "rounds_ok ?s" using assms by simp_all
  obtain s' where s': "timer_task_run now ?s = Some s'" "fire_step\<^sup>*\<^sup>* ?s s'" "timer_task_wait now s' \<noteq> None"
    using timer_task_run_fires [OF inv] by auto
  have "timer_task_wait now ?s = None" using None by (simp add: timer_task_wait_def split: list.splits)
  then have "timer_task_run now s = timer_task_run now ?s"
    using None by (simp add: timer_task_run.simps [of now s] timer_task_run.simps [of now ?s])
  moreover obtain fs where "t_fired s' = t_fired ?s @ fs" "distinct (map fst fs)"
      "set fs = (\<lambda>t. (t, timer_cb_arg (timers ?s t), g_timer_count ?s)) ` (due_set ?s - due_set s')"
    using fire_steps_effect [OF s'(2) inv] by blast
  ultimately show ?thesis using s'
    by (intro exI [of _ s'] exI [of _ fs]) (auto simp: due_set_def due_def)
next
  case (Some w)
  then have "timer_task_run now s = Some s" by (subst timer_task_run.simps) simp
  then show ?thesis using Some by (intro exI [of _ s] exI [of _ "[]"]) simp
qed

theorem timer_task_returns_witness: "\<exists>s'. timer_task_run 115 two_timers = Some s' \<and> timer_task_wait 115 s' \<noteq> None"
proof -
  have "tinv two_timers" "rounds_ok two_timers" using on_time_two_timers by (simp_all add: on_time_def timely_def)
  then show ?thesis using timer_task_returns by blast
qed

definition late_service :: tstate where
  "late_service = idle_service\<lparr>timers := (\<lambda>_. zero_timer)(1 := running 7 95 10, 2 := running 8 97 0, 3 := running 9 102 0),
     g_timer_head := [1, 2, 3]\<rparr>"

lemma on_time_late_service: "on_time 90 late_service"
  by (auto simp: late_service_def timer_examples on_time_def timely_def tinv_def rounds_ok_def)

lemma late_service_run:
  "map_option (\<lambda>s. (g_timer_head s, timer_task_wait 100 s, t_match (timers s 3))) (timer_task_run 100 late_service) =
    Some ([1, 3], Some 10, 102)"
  by code_simp


text \<open>
  A period of \<open>2 ^ 31\<close> ticks or more, which \<open>timer_create\<close> accepts, keeps the timer task busy for ever:
  the truncated remaining time is negative, so the timer is due again as soon as it has fired.
\<close>

lemma long_period_never_ends:
  assumes "tinv s" and "g_timer_head s = [t]" and "tick_delta (t_match (timers s t)) now \<le> 0"
    and "2 ^ 31 \<le> round_ticks (timers s t)" and "round_ticks (timers s t) < 2 ^ 32"
  shows "timer_task_run now s = None"
proof (rule ccontr)
  let ?P = "\<lambda>s. tinv s \<and> g_timer_head s = [t] \<and> tick_delta (t_match (timers s t)) now \<le> 0 \<and>
    2 ^ 31 \<le> round_ticks (timers s t) \<and> round_ticks (timers s t) < 2 ^ 32"
  assume "timer_task_run now s \<noteq> None"
  then obtain s' where r: "timer_task_run now s = Some s'" by blast
  have "n = now \<longrightarrow> \<not> ?P s" if "timer_task_run n s = Some s'" for n s s'
  proof (rule timer_task_run.raw_induct [OF _ that, where P = "\<lambda>n s s'. n = now \<longrightarrow> \<not> ?P s"])
    fix run n s s'
    assume IH: "\<And>n s s'. run n s = Some s' \<Longrightarrow> n = now \<longrightarrow> \<not> ?P s"
      and r: "(case timer_task_wait n s of None \<Rightarrow> (case timer_cb_proc (s\<lparr>g_timer_count := n\<rparr>) of None \<Rightarrow> None | Some s' \<Rightarrow> run n s')
         | Some w \<Rightarrow> Some s) = Some s'"
    show "n = now \<longrightarrow> \<not> ?P s"
    proof (intro impI notI)
      assume n: "n = now" and P: "?P s"
      let ?s = "s\<lparr>g_timer_count := now\<rparr>"
      let ?r = "round_ticks (timers s t)"
      have "?r \<noteq> 0" using P by auto
      then have "?r > 0" using word_neq_0_conv by blast
      then have fire: "timer_fire t ?s = ?s\<lparr>timers := (timers s)(t := fired_timer now (timers s t)),
          t_fired := t_fired s @ [(t, timer_cb_arg (timers s t), now)]\<rparr>"
        using P by (subst timer_fire_eq) (auto simp: reinsert_def)
      have "timer_cb_loop (Some t) ?s = timer_cb_loop None (timer_fire t ?s)"
        using P \<open>?r > 0\<close> by (subst timer_cb_loop.simps) (simp add: fire)
      then have "timer_cb_proc ?s = Some (timer_fire t ?s)"
        using P by (simp add: timer_cb_proc_def first_of_def timer_cb_loop.simps [of None])
      moreover have "tick_delta (now + ?r) now < 0" using P by (intro tick_delta_large) simp_all
      then have "?P (timer_fire t ?s)" using P tinv_fire [of ?s t] fire \<open>?r > 0\<close> by simp
      moreover have "timer_task_wait now s = None" using P by (simp add: timer_task_wait_def)
      ultimately show False using r IH [of now "timer_fire t ?s"] n by simp
    qed
  qed
  then show False using r assms by blast
qed

end
