(* ===== verification/Mesh_Crypto.thy ===== *)
theory Mesh_Crypto
  imports Kernel_Prelude
begin

text \<open>
  The cryptographic functions of the mesh stack (\<^verbatim>\<open>bt_mesh/src/crypto.c\<close>, \<^verbatim>\<open>inc/mesh_crypto.h\<close>): CCM
  encryption, obfuscation of the network header, key derivation and the frame check
  sequence.  The block cipher and the CMAC come from a crypto library; they are the fields of
  the record \<open>crypto_lib\<close>, an argument of every function that calls them.
\<close>

section \<open>Errors and bytes\<close>

type_synonym u16 = "16 word"

text \<open>Negative return values; \<open>EFAULT\<close> stands for the use of memory that is out of bounds or not initialised.\<close>

datatype mesh_err = EINVAL | ENOENT | EBADMSG | EALREADY | EIO | ENOBUFS | ENOMEM | EMSGSIZE | EBUSY | EAGAIN | ETIMEDOUT |
  ECANCELED | ENOPROTOOPT | ENOTSUP | EADDRNOTAVAIL | EFAULT

definition ebind :: "mesh_err + 'a \<Rightarrow> ('a \<Rightarrow> mesh_err + 'b) \<Rightarrow> mesh_err + 'b" where
  "ebind m f = (case m of Inl e \<Rightarrow> Inl e | Inr x \<Rightarrow> f x)"

lemma ebind_simps [simp]: "ebind (Inl e) f = Inl e" "ebind (Inr x) f = f x"
  by (simp_all add: ebind_def)

definition sys_put_be16 :: "u16 \<Rightarrow> byte list" where
  "sys_put_be16 w = [ucast (drop_bit 8 w), ucast w]"

definition sys_put_be32 :: "u32 \<Rightarrow> byte list" where
  "sys_put_be32 w = [ucast (drop_bit 24 w), ucast (drop_bit 16 w), ucast (drop_bit 8 w), ucast w]"

definition sys_get_be16 :: "byte list \<Rightarrow> u16" where
  "sys_get_be16 bs = push_bit 8 (ucast (bs ! 0)) OR ucast (bs ! 1)"

definition sys_get_be32 :: "byte list \<Rightarrow> u32" where
  "sys_get_be32 bs = push_bit 24 (ucast (bs ! 0)) OR push_bit 16 (ucast (bs ! 1)) OR push_bit 8 (ucast (bs ! 2)) OR ucast (bs ! 3)"

definition xor_bytes :: "byte list \<Rightarrow> byte list \<Rightarrow> byte list" where
  "xor_bytes xs ys = map2 (XOR) xs ys"

section \<open>The crypto library\<close>

record crypto_lib =
  aes_encrypt :: "byte list \<Rightarrow> byte list \<Rightarrow> mesh_err + byte list"
  aes_cmac :: "byte list \<Rightarrow> byte list \<Rightarrow> mesh_err + byte list"

text \<open>What the callers rely on: both functions succeed and return 16 bytes.\<close>

definition crypto_ok :: "crypto_lib \<Rightarrow> bool" where
  "crypto_ok C \<longleftrightarrow> (\<forall>k b. \<exists>c. aes_encrypt C k b = Inr c \<and> length c = 16) \<and> (\<forall>k m. \<exists>c. aes_cmac C k m = Inr c \<and> length c = 16)"

section \<open>CCM\<close>

text \<open>
  \<open>ctr_block n i\<close> is the counter block \<^verbatim>\<open>0x01 || nonce || i\<close>; \<open>b0_block\<close> is the first block of the MAC, \<^verbatim>\<open>flags || nonce || length\<close>.
\<close>

definition ctr_block :: "byte list \<Rightarrow> nat \<Rightarrow> byte list" where
  "ctr_block nonce i = 0x01 # nonce @ sys_put_be16 (of_nat i)"

definition b0_block :: "byte list \<Rightarrow> nat \<Rightarrow> nat \<Rightarrow> nat \<Rightarrow> byte list" where
  "b0_block nonce msg_len aad_len mic_size =
     ((if mic_size = 8 then 0x19 else 0x09) OR (if aad_len \<noteq> 0 then 0x40 else 0x00)) # nonce @ sys_put_be16 (of_nat msg_len)"

text \<open>
  The additional data.  \<open>i\<close> is the position in \<open>pmsg\<close>, whose first \<open>i\<close> bytes are \<open>p\<close>; \<open>n\<close> is \<^verbatim>\<open>aad_len\<close>.  The
  last loop starts at position 0 again.
\<close>

function ccm_aad :: "crypto_lib \<Rightarrow> byte list \<Rightarrow> byte list \<Rightarrow> byte list \<Rightarrow> byte list \<Rightarrow> nat \<Rightarrow> mesh_err + byte list" where
  "ccm_aad C key p Xn aad n =
     (if n > 16 then
        if length aad < 16 - length p then Inl EFAULT
        else
          let pmsg = p @ xor_bytes (drop (length p) Xn) (take (16 - length p) aad)
          in ebind (aes_encrypt C key pmsg) (\<lambda>Xn. ccm_aad C key [] Xn (drop (16 - length p) aad) (n - 16))
      else if length aad < n then Inl EFAULT
      else aes_encrypt C key (xor_bytes Xn (take n aad) @ drop n Xn))"
  by auto
termination by (relation "measure (\<lambda>(C, key, p, Xn, aad, n). n)") auto

declare ccm_aad.simps [simp del]

definition ccm_auth_start ::
  "crypto_lib \<Rightarrow> byte list \<Rightarrow> byte list \<Rightarrow> nat \<Rightarrow> byte list \<Rightarrow> nat \<Rightarrow> mesh_err + byte list" where
  "ccm_auth_start C key nonce msg_len aad mic_size =
     ebind (aes_encrypt C key (b0_block nonce msg_len (length aad) mic_size)) (\<lambda>Xn.
       if aad \<noteq> [] then
         ccm_aad C key (xor_bytes (take 2 Xn) (sys_put_be16 (of_nat (length aad)))) Xn aad (length aad + 2)
       else Inr Xn)"

text \<open>
  The loop over the blocks, of the message (\<open>encrypt\<close>) or of the cipher text.  The last block may be
  shorter than 16 bytes and is padded with zeros for the MAC.
\<close>

definition mac_block :: "byte list \<Rightarrow> byte list \<Rightarrow> byte list" where
  "mac_block Xn blk = xor_bytes Xn (blk @ replicate (16 - length blk) 0)"

function ccm_encrypt_loop ::
  "crypto_lib \<Rightarrow> byte list \<Rightarrow> byte list \<Rightarrow> nat \<Rightarrow> byte list \<Rightarrow> byte list \<Rightarrow> mesh_err + byte list \<times> byte list" where
  "ccm_encrypt_loop C key nonce j Xn msg =
     (if msg = [] then Inr (Xn, [])
      else
        let blk = take 16 msg in
        ebind (aes_encrypt C key (mac_block Xn blk)) (\<lambda>Xn.
        ebind (aes_encrypt C key (ctr_block nonce (j + 1))) (\<lambda>cmsg.
        ebind (ccm_encrypt_loop C key nonce (j + 1) Xn (drop 16 msg)) (\<lambda>(Xn, out).
          Inr (Xn, xor_bytes blk cmsg @ out)))))"
  by auto
termination by (relation "measure (\<lambda>(C, key, nonce, j, Xn, msg). length msg)") auto

function ccm_decrypt_loop ::
  "crypto_lib \<Rightarrow> byte list \<Rightarrow> byte list \<Rightarrow> nat \<Rightarrow> byte list \<Rightarrow> byte list \<Rightarrow> mesh_err + byte list \<times> byte list" where
  "ccm_decrypt_loop C key nonce j Xn enc =
     (if enc = [] then Inr (Xn, [])
      else
        ebind (aes_encrypt C key (ctr_block nonce (j + 1))) (\<lambda>cmsg.
        let msg = xor_bytes (take 16 enc) cmsg in
        ebind (aes_encrypt C key (mac_block Xn msg)) (\<lambda>Xn.
        ebind (ccm_decrypt_loop C key nonce (j + 1) Xn (drop 16 enc)) (\<lambda>(Xn, out).
          Inr (Xn, msg @ out)))))"
  by auto
termination by (relation "measure (\<lambda>(C, key, nonce, j, Xn, enc). length enc)") auto

declare ccm_encrypt_loop.simps [simp del] ccm_decrypt_loop.simps [simp del]

text \<open>The result is what is written to \<^verbatim>\<open>out_msg\<close>.  For an empty message the MIC is not initialised.\<close>

definition bt_mesh_ccm_encrypt ::
  "crypto_lib \<Rightarrow> byte list \<Rightarrow> byte list \<Rightarrow> byte list \<Rightarrow> byte list \<Rightarrow> nat \<Rightarrow> mesh_err + byte list" where
  "bt_mesh_ccm_encrypt C key nonce msg aad mic_size =
     (if length aad \<ge> 0xff00 then Inl EINVAL
      else
        ebind (aes_encrypt C key (ctr_block nonce 0)) (\<lambda>cmic.
        ebind (ccm_auth_start C key nonce (length msg) aad mic_size) (\<lambda>Xn.
        ebind (ccm_encrypt_loop C key nonce 0 Xn msg) (\<lambda>(Xn, out).
          if msg = [] then Inl EFAULT else Inr (out @ take mic_size (xor_bytes cmic Xn))))))"

text \<open>\<open>enc_msg\<close> holds \<open>msg_len\<close> bytes of cipher text and the MIC.\<close>

definition bt_mesh_ccm_decrypt ::
  "crypto_lib \<Rightarrow> byte list \<Rightarrow> byte list \<Rightarrow> byte list \<Rightarrow> nat \<Rightarrow> byte list \<Rightarrow> nat \<Rightarrow> mesh_err + byte list" where
  "bt_mesh_ccm_decrypt C key nonce enc_msg msg_len aad mic_size =
     (if msg_len < 1 \<or> length aad \<ge> 0xff00 then Inl EINVAL
      else if length enc_msg < msg_len + mic_size then Inl EFAULT
      else
        ebind (aes_encrypt C key (ctr_block nonce 0)) (\<lambda>cmic.
        ebind (ccm_auth_start C key nonce msg_len aad mic_size) (\<lambda>Xn.
        ebind (ccm_decrypt_loop C key nonce 0 Xn (take msg_len enc_msg)) (\<lambda>(Xn, out).
          if take mic_size (xor_bytes cmic Xn) \<noteq> take mic_size (drop msg_len enc_msg) then Inl EBADMSG
          else Inr out))))"

section \<open>The network layer\<close>

definition NET_MIC_LEN :: "byte list \<Rightarrow> nat" where
  "NET_MIC_LEN pdu = (if pdu ! 1 AND 0x80 \<noteq> 0 then 8 else 4)"

definition APP_MIC_LEN :: "bool \<Rightarrow> nat" where
  "APP_MIC_LEN aszmic = (if aszmic then 8 else 4)"

definition create_proxy_nonce :: "byte list \<Rightarrow> u32 \<Rightarrow> byte list" where
  "create_proxy_nonce pdu iv_index =
     [0x03, 0x00, pdu ! 2, pdu ! 3, pdu ! 4, pdu ! 5, pdu ! 6, 0, 0] @ sys_put_be32 iv_index"

definition create_net_nonce :: "byte list \<Rightarrow> u32 \<Rightarrow> byte list" where
  "create_net_nonce pdu iv_index =
     [0x00, pdu ! 1, pdu ! 2, pdu ! 3, pdu ! 4, pdu ! 5, pdu ! 6, 0, 0] @ sys_put_be32 iv_index"

definition bt_mesh_net_obfuscate :: "crypto_lib \<Rightarrow> byte list \<Rightarrow> u32 \<Rightarrow> byte list \<Rightarrow> mesh_err + byte list" where
  "bt_mesh_net_obfuscate C pdu iv_index privacy_key =
     (let priv_rand = [0x00, 0x00, 0x00, 0x00, 0x00] @ sys_put_be32 iv_index @ take 7 (drop 7 pdu) in
      ebind (aes_encrypt C privacy_key priv_rand) (\<lambda>tmp.
        Inr (take 1 pdu @ xor_bytes (take 6 (drop 1 pdu)) (take 6 tmp) @ drop 7 pdu)))"

text \<open>The buffer is encrypted in place from byte 7 on, and grows by the MIC.\<close>

definition bt_mesh_net_encrypt :: "crypto_lib \<Rightarrow> byte list \<Rightarrow> byte list \<Rightarrow> u32 \<Rightarrow> bool \<Rightarrow> mesh_err + byte list" where
  "bt_mesh_net_encrypt C key buf iv_index proxy =
     (let mic_len = NET_MIC_LEN buf;
          nonce = (if proxy then create_proxy_nonce buf iv_index else create_net_nonce buf iv_index)
      in ebind (bt_mesh_ccm_encrypt C key nonce (drop 7 buf) [] mic_len) (\<lambda>out. Inr (take 7 buf @ out)))"

definition bt_mesh_net_decrypt :: "crypto_lib \<Rightarrow> byte list \<Rightarrow> byte list \<Rightarrow> u32 \<Rightarrow> bool \<Rightarrow> mesh_err + byte list" where
  "bt_mesh_net_decrypt C key buf iv_index proxy =
     (let mic_len = NET_MIC_LEN buf;
          nonce = (if proxy then create_proxy_nonce buf iv_index else create_net_nonce buf iv_index);
          len = length buf - mic_len
      in ebind (bt_mesh_ccm_decrypt C key nonce (drop 7 buf) (len - 7) [] mic_len) (\<lambda>out. Inr (take 7 buf @ out)))"

section \<open>The application layer\<close>

definition create_app_nonce :: "bool \<Rightarrow> bool \<Rightarrow> u16 \<Rightarrow> u16 \<Rightarrow> u32 \<Rightarrow> u32 \<Rightarrow> byte list" where
  "create_app_nonce dev_key aszmic src dst seq_num iv_index =
     (if dev_key then 0x02 else 0x01) # sys_put_be32 (seq_num OR push_bit 31 (of_bool aszmic)) @
     sys_put_be16 src @ sys_put_be16 dst @ sys_put_be32 iv_index"

text \<open>\<open>ad\<close> is the virtual label of 16 bytes, if any.\<close>

definition bt_mesh_app_encrypt ::
  "crypto_lib \<Rightarrow> byte list \<Rightarrow> bool \<Rightarrow> bool \<Rightarrow> byte list \<Rightarrow> byte list option \<Rightarrow> u16 \<Rightarrow> u16 \<Rightarrow> u32 \<Rightarrow> u32 \<Rightarrow> mesh_err + byte list" where
  "bt_mesh_app_encrypt C key dev_key aszmic buf ad src dst seq_num iv_index =
     bt_mesh_ccm_encrypt C key (create_app_nonce dev_key aszmic src dst seq_num iv_index) buf
       (case ad of None \<Rightarrow> [] | Some l \<Rightarrow> take 16 l) (APP_MIC_LEN aszmic)"

text \<open>\<open>len\<close> is \<^verbatim>\<open>buf->len\<close>; the MIC follows behind it.\<close>

definition bt_mesh_app_decrypt ::
  "crypto_lib \<Rightarrow> byte list \<Rightarrow> bool \<Rightarrow> bool \<Rightarrow> byte list \<Rightarrow> nat \<Rightarrow> byte list option \<Rightarrow> u16 \<Rightarrow> u16 \<Rightarrow> u32 \<Rightarrow> u32 \<Rightarrow> mesh_err + byte list" where
  "bt_mesh_app_decrypt C key dev_key aszmic buf len ad src dst seq_num iv_index =
     bt_mesh_ccm_decrypt C key (create_app_nonce dev_key aszmic src dst seq_num iv_index) buf len
       (case ad of None \<Rightarrow> [] | Some l \<Rightarrow> take 16 l) (APP_MIC_LEN aszmic)"

section \<open>Key derivation\<close>

abbreviation ascii :: "string \<Rightarrow> byte list" where
  "ascii s \<equiv> map of_char s"

definition bt_mesh_s1 :: "crypto_lib \<Rightarrow> string \<Rightarrow> mesh_err + byte list" where
  "bt_mesh_s1 C m = aes_cmac C (replicate 16 0) (ascii m)"

definition bt_mesh_k1 :: "crypto_lib \<Rightarrow> byte list \<Rightarrow> byte list \<Rightarrow> byte list \<Rightarrow> mesh_err + byte list" where
  "bt_mesh_k1 C ikm salt info = ebind (aes_cmac C salt ikm) (\<lambda>okm. aes_cmac C okm info)"

text \<open>The results are the NID, the encryption key and the privacy key.\<close>

definition bt_mesh_k2 :: "crypto_lib \<Rightarrow> byte list \<Rightarrow> byte list \<Rightarrow> mesh_err + byte \<times> byte list \<times> byte list" where
  "bt_mesh_k2 C n p =
     ebind (bt_mesh_s1 C ''smk2'') (\<lambda>salt.
     ebind (aes_cmac C salt n) (\<lambda>t.
     ebind (aes_cmac C t (p @ [0x01])) (\<lambda>out1.
     ebind (aes_cmac C t (out1 @ p @ [0x02])) (\<lambda>out2.
     ebind (aes_cmac C t (out2 @ p @ [0x03])) (\<lambda>out3.
       Inr (out1 ! 15 AND 0x7f, out2, out3))))))"

definition bt_mesh_k3 :: "crypto_lib \<Rightarrow> byte list \<Rightarrow> mesh_err + byte list" where
  "bt_mesh_k3 C n =
     ebind (bt_mesh_s1 C ''smk3'') (\<lambda>salt.
     ebind (aes_cmac C salt n) (\<lambda>t.
     ebind (aes_cmac C t (ascii ''id64'' @ [0x01])) (\<lambda>tmp. Inr (drop 8 tmp))))"

definition bt_mesh_k4 :: "crypto_lib \<Rightarrow> byte list \<Rightarrow> mesh_err + byte" where
  "bt_mesh_k4 C n =
     ebind (bt_mesh_s1 C ''smk4'') (\<lambda>salt.
     ebind (aes_cmac C salt n) (\<lambda>t.
     ebind (aes_cmac C t (ascii ''id6'' @ [0x01])) (\<lambda>tmp. Inr (tmp ! 15 AND 0x3f))))"

definition bt_mesh_id128 :: "crypto_lib \<Rightarrow> byte list \<Rightarrow> string \<Rightarrow> mesh_err + byte list" where
  "bt_mesh_id128 C n s = ebind (bt_mesh_s1 C s) (\<lambda>salt. bt_mesh_k1 C n salt (ascii ''id128'' @ [0x01]))"

definition bt_mesh_identity_key :: "crypto_lib \<Rightarrow> byte list \<Rightarrow> mesh_err + byte list" where
  "bt_mesh_identity_key C net_key = bt_mesh_id128 C net_key ''nkik''"

definition bt_mesh_beacon_key :: "crypto_lib \<Rightarrow> byte list \<Rightarrow> mesh_err + byte list" where
  "bt_mesh_beacon_key C net_key = bt_mesh_id128 C net_key ''nkbk''"

definition bt_mesh_beacon_auth :: "crypto_lib \<Rightarrow> byte list \<Rightarrow> u8 \<Rightarrow> byte list \<Rightarrow> u32 \<Rightarrow> mesh_err + byte list" where
  "bt_mesh_beacon_auth C beacon_key flags net_id iv_index =
     ebind (aes_cmac C beacon_key (flags # take 8 net_id @ sys_put_be32 iv_index)) (\<lambda>tmp. Inr (take 8 tmp))"

definition bt_mesh_virtual_addr :: "crypto_lib \<Rightarrow> byte list \<Rightarrow> mesh_err + u16" where
  "bt_mesh_virtual_addr C virtual_label =
     ebind (bt_mesh_s1 C ''vtad'') (\<lambda>salt.
     ebind (aes_cmac C salt virtual_label) (\<lambda>tmp.
       Inr ((sys_get_be16 (drop 14 tmp) AND 0x3fff) OR 0x8000)))"

definition bt_mesh_prov_conf_salt :: "crypto_lib \<Rightarrow> byte list \<Rightarrow> mesh_err + byte list" where
  "bt_mesh_prov_conf_salt C conf_inputs = aes_cmac C (replicate 16 0) conf_inputs"

definition bt_mesh_prov_conf_key :: "crypto_lib \<Rightarrow> byte list \<Rightarrow> byte list \<Rightarrow> mesh_err + byte list" where
  "bt_mesh_prov_conf_key C dhkey conf_salt = bt_mesh_k1 C dhkey conf_salt (ascii ''prck'')"

definition bt_mesh_prov_conf :: "crypto_lib \<Rightarrow> byte list \<Rightarrow> byte list \<Rightarrow> byte list \<Rightarrow> mesh_err + byte list" where
  "bt_mesh_prov_conf C conf_key rand auth = aes_cmac C conf_key (rand @ auth)"

definition bt_mesh_prov_decrypt :: "crypto_lib \<Rightarrow> byte list \<Rightarrow> byte list \<Rightarrow> byte list \<Rightarrow> mesh_err + byte list" where
  "bt_mesh_prov_decrypt C key nonce data = bt_mesh_ccm_decrypt C key nonce data 25 [] 8"

section \<open>The frame check sequence\<close>

definition crc_table :: "u8 list" where
  "crc_table = [
   0x00, 0x91, 0xe3, 0x72, 0x07, 0x96, 0xe4, 0x75, 0x0e, 0x9f, 0xed, 0x7c, 0x09, 0x98, 0xea, 0x7b,
   0x1c, 0x8d, 0xff, 0x6e, 0x1b, 0x8a, 0xf8, 0x69, 0x12, 0x83, 0xf1, 0x60, 0x15, 0x84, 0xf6, 0x67,
   0x38, 0xa9, 0xdb, 0x4a, 0x3f, 0xae, 0xdc, 0x4d, 0x36, 0xa7, 0xd5, 0x44, 0x31, 0xa0, 0xd2, 0x43,
   0x24, 0xb5, 0xc7, 0x56, 0x23, 0xb2, 0xc0, 0x51, 0x2a, 0xbb, 0xc9, 0x58, 0x2d, 0xbc, 0xce, 0x5f,
   0x70, 0xe1, 0x93, 0x02, 0x77, 0xe6, 0x94, 0x05, 0x7e, 0xef, 0x9d, 0x0c, 0x79, 0xe8, 0x9a, 0x0b,
   0x6c, 0xfd, 0x8f, 0x1e, 0x6b, 0xfa, 0x88, 0x19, 0x62, 0xf3, 0x81, 0x10, 0x65, 0xf4, 0x86, 0x17,
   0x48, 0xd9, 0xab, 0x3a, 0x4f, 0xde, 0xac, 0x3d, 0x46, 0xd7, 0xa5, 0x34, 0x41, 0xd0, 0xa2, 0x33,
   0x54, 0xc5, 0xb7, 0x26, 0x53, 0xc2, 0xb0, 0x21, 0x5a, 0xcb, 0xb9, 0x28, 0x5d, 0xcc, 0xbe, 0x2f,
   0xe0, 0x71, 0x03, 0x92, 0xe7, 0x76, 0x04, 0x95, 0xee, 0x7f, 0x0d, 0x9c, 0xe9, 0x78, 0x0a, 0x9b,
   0xfc, 0x6d, 0x1f, 0x8e, 0xfb, 0x6a, 0x18, 0x89, 0xf2, 0x63, 0x11, 0x80, 0xf5, 0x64, 0x16, 0x87,
   0xd8, 0x49, 0x3b, 0xaa, 0xdf, 0x4e, 0x3c, 0xad, 0xd6, 0x47, 0x35, 0xa4, 0xd1, 0x40, 0x32, 0xa3,
   0xc4, 0x55, 0x27, 0xb6, 0xc3, 0x52, 0x20, 0xb1, 0xca, 0x5b, 0x29, 0xb8, 0xcd, 0x5c, 0x2e, 0xbf,
   0x90, 0x01, 0x73, 0xe2, 0x97, 0x06, 0x74, 0xe5, 0x9e, 0x0f, 0x7d, 0xec, 0x99, 0x08, 0x7a, 0xeb,
   0x8c, 0x1d, 0x6f, 0xfe, 0x8b, 0x1a, 0x68, 0xf9, 0x82, 0x13, 0x61, 0xf0, 0x85, 0x14, 0x66, 0xf7,
   0xa8, 0x39, 0x4b, 0xda, 0xaf, 0x3e, 0x4c, 0xdd, 0xa6, 0x37, 0x45, 0xd4, 0xa1, 0x30, 0x42, 0xd3,
   0xb4, 0x25, 0x57, 0xc6, 0xb3, 0x22, 0x50, 0xc1, 0xba, 0x2b, 0x59, 0xc8, 0xbd, 0x2c, 0x5e, 0xcf]"

definition fcs_step :: "u8 \<Rightarrow> u8 \<Rightarrow> u8" where
  "fcs_step b fcs = crc_table ! unat (fcs XOR b)"

definition bt_mesh_fcs_calc :: "byte list \<Rightarrow> u8" where
  "bt_mesh_fcs_calc data = 0xff - fold fcs_step data 0xff"

definition bt_mesh_fcs_check :: "byte list \<Rightarrow> u8 \<Rightarrow> bool" where
  "bt_mesh_fcs_check data received_fcs = (crc_table ! unat (fold fcs_step data 0xff XOR received_fcs) = 0xcf)"

section \<open>CCM is correct\<close>

lemma length_xor_bytes [simp]: "length (xor_bytes xs ys) = min (length xs) (length ys)"
  by (simp add: xor_bytes_def)

lemma xor_bytes_nth: "i < length xs \<Longrightarrow> i < length ys \<Longrightarrow> xor_bytes xs ys ! i = xs ! i XOR ys ! i"
  by (simp add: xor_bytes_def)

lemma xor_bytes_twice: "length xs \<le> length ys \<Longrightarrow> xor_bytes (xor_bytes xs ys) ys = xs"
  by (rule nth_equalityI) (simp_all add: xor_bytes_nth xor.assoc)

lemma crypto_okE:
  assumes "crypto_ok C"
  obtains c where "aes_encrypt C k b = Inr c" "length c = 16"
  using assms unfolding crypto_ok_def by blast

lemma ccm_loops_Nil [simp]:
  "ccm_encrypt_loop C key nonce j Xn [] = Inr (Xn, [])" "ccm_decrypt_loop C key nonce j Xn [] = Inr (Xn, [])"
  by (simp_all add: ccm_encrypt_loop.simps [of C key nonce j Xn "[]"] ccm_decrypt_loop.simps [of C key nonce j Xn "[]"])

lemma ccm_decrypt_encrypt_loop:
  assumes "crypto_ok C" and "ccm_encrypt_loop C key nonce j Xn msg = Inr (X, out)"
  shows "length out = length msg \<and> ccm_decrypt_loop C key nonce j Xn out = Inr (X, msg)"
  using assms(2)
proof (induction "length msg" arbitrary: j Xn msg out rule: less_induct)
  case less
  show ?case
  proof (cases "msg = []")
    case True
    then show ?thesis using less.prems by simp
  next
    case False
    let ?b = "take 16 msg"
    obtain c where c: "aes_encrypt C key (ctr_block nonce (Suc j)) = Inr c" "length c = 16" by (rule crypto_okE [OF assms(1)])
    obtain Y where Y: "aes_encrypt C key (mac_block Xn ?b) = Inr Y" by (rule crypto_okE [OF assms(1)])
    obtain X' out' where r: "ccm_encrypt_loop C key nonce (Suc j) Y (drop 16 msg) = Inr (X', out')"
        "X = X'" "out = xor_bytes ?b c @ out'"
      using less.prems False c Y
      by (cases "ccm_encrypt_loop C key nonce (Suc j) Y (drop 16 msg)") (auto simp: ccm_encrypt_loop.simps [of C key nonce j Xn])
    have IH: "length out' = length (drop 16 msg)" "ccm_decrypt_loop C key nonce (Suc j) Y out' = Inr (X', drop 16 msg)"
      using less.hyps [OF _ r(1) [folded r(2)]] False r(2) by auto
    have "take 16 out = xor_bytes ?b c" "drop 16 out = out'"
      using c(2) IH(1) by (auto simp: r(3) min_def)
    moreover have "xor_bytes (xor_bytes ?b c) c = ?b" using c(2) by (intro xor_bytes_twice) simp
    moreover have "out \<noteq> []" using False c(2) by (auto simp: r(3) xor_bytes_def)
    ultimately have "ccm_decrypt_loop C key nonce j Xn out = Inr (X, msg)"
      using c Y IH(2) r(2) by (subst ccm_decrypt_loop.simps) (simp add: Let_def)
    then show ?thesis using IH(1) c(2) by (simp add: r(3) min_def)
  qed
qed

lemma ccm_encrypt_decrypt_loop:
  assumes "crypto_ok C" and "ccm_decrypt_loop C key nonce j Xn enc = Inr (X, msg)"
  shows "length msg = length enc \<and> ccm_encrypt_loop C key nonce j Xn msg = Inr (X, enc)"
  using assms(2)
proof (induction "length enc" arbitrary: j Xn msg enc rule: less_induct)
  case less
  show ?case
  proof (cases "enc = []")
    case True
    then show ?thesis using less.prems by simp
  next
    case False
    let ?e = "take 16 enc"
    obtain c where c: "aes_encrypt C key (ctr_block nonce (Suc j)) = Inr c" "length c = 16" by (rule crypto_okE [OF assms(1)])
    let ?b = "xor_bytes ?e c"
    obtain Y where Y: "aes_encrypt C key (mac_block Xn ?b) = Inr Y" by (rule crypto_okE [OF assms(1)])
    obtain X' m where r: "ccm_decrypt_loop C key nonce (Suc j) Y (drop 16 enc) = Inr (X', m)" "X = X'" "msg = ?b @ m"
      using less.prems False c Y
      by (cases "ccm_decrypt_loop C key nonce (Suc j) Y (drop 16 enc)") (auto simp: ccm_decrypt_loop.simps [of C key nonce j Xn] Let_def)
    have IH: "length m = length (drop 16 enc)" "ccm_encrypt_loop C key nonce (Suc j) Y m = Inr (X', drop 16 enc)"
      using less.hyps [OF _ r(1) [folded r(2)]] False r(2) by auto
    have "take 16 msg = ?b" "drop 16 msg = m" using c(2) IH(1) by (auto simp: r(3) min_def)
    moreover have "xor_bytes ?b c = ?e" using c(2) by (intro xor_bytes_twice) simp
    moreover have "msg \<noteq> []" using False c(2) by (auto simp: r(3) xor_bytes_def)
    ultimately have "ccm_encrypt_loop C key nonce j Xn msg = Inr (X, enc)"
      using c Y IH(2) r(2) by (subst ccm_encrypt_loop.simps) (simp add: Let_def)
    then show ?thesis using IH(1) c(2) by (simp add: r(3) min_def)
  qed
qed

lemma ccm_decrypt_total:
  assumes "crypto_ok C"
  shows "\<exists>X msg. ccm_decrypt_loop C key nonce j Xn enc = Inr (X, msg)"
proof (induction "length enc" arbitrary: j Xn enc rule: less_induct)
  case less
  obtain c where c: "aes_encrypt C key (ctr_block nonce (Suc j)) = Inr c" by (rule crypto_okE [OF assms])
  obtain Y where Y: "aes_encrypt C key (mac_block Xn (xor_bytes (take 16 enc) c)) = Inr Y" by (rule crypto_okE [OF assms])
  show ?case
  proof (cases "enc = []")
    case False
    then obtain X msg where "ccm_decrypt_loop C key nonce (Suc j) Y (drop 16 enc) = Inr (X, msg)"
      using less.hyps [of "drop 16 enc" "Suc j" Y] by auto
    then show ?thesis using c Y by (subst ccm_decrypt_loop.simps) (simp add: Let_def)
  qed simp
qed

lemma ccm_encrypt_total:
  assumes "crypto_ok C"
  shows "\<exists>X out. ccm_encrypt_loop C key nonce j Xn msg = Inr (X, out)"
proof (induction "length msg" arbitrary: j Xn msg rule: less_induct)
  case less
  obtain c where c: "aes_encrypt C key (ctr_block nonce (Suc j)) = Inr c" by (rule crypto_okE [OF assms])
  obtain Y where Y: "aes_encrypt C key (mac_block Xn (take 16 msg)) = Inr Y" by (rule crypto_okE [OF assms])
  show ?case
  proof (cases "msg = []")
    case False
    then obtain X out where "ccm_encrypt_loop C key nonce (Suc j) Y (drop 16 msg) = Inr (X, out)"
      using less.hyps [of "drop 16 msg" "Suc j" Y] by auto
    then show ?thesis using c Y False by (subst ccm_encrypt_loop.simps) (simp add: Let_def)
  qed simp
qed

lemma ccm_mac_length:
  assumes "crypto_ok C" and "ccm_encrypt_loop C key nonce j Xn msg = Inr (X, out)" and "msg \<noteq> []"
  shows "length X = 16"
  using assms(2,3)
proof (induction "length msg" arbitrary: j Xn msg out rule: less_induct)
  case less
  obtain c where c: "aes_encrypt C key (ctr_block nonce (Suc j)) = Inr c" by (rule crypto_okE [OF assms(1)])
  obtain Y where Y: "aes_encrypt C key (mac_block Xn (take 16 msg)) = Inr Y" "length Y = 16" by (rule crypto_okE [OF assms(1)])
  obtain out' where r: "ccm_encrypt_loop C key nonce (Suc j) Y (drop 16 msg) = Inr (X, out')"
    using less.prems c Y(1)
    by (cases "ccm_encrypt_loop C key nonce (Suc j) Y (drop 16 msg)") (auto simp: ccm_encrypt_loop.simps [of C key nonce j Xn])
  show ?case
  proof (cases "drop 16 msg = []")
    case False
    then show ?thesis using less.hyps [OF _ r] by auto
  qed (use r Y(2) in auto)
qed

text \<open>The additional data is 16 bytes (a virtual label) or absent in all calls; then no byte outside it is read.\<close>

lemma ccm_auth_start_ok:
  assumes "crypto_ok C" and "aad = [] \<or> length aad = 16"
  shows "\<exists>X. ccm_auth_start C key nonce n aad mic = Inr X"
proof -
  obtain X where X: "aes_encrypt C key (b0_block nonce n (length aad) mic) = Inr X" "length X = 16"
    by (rule crypto_okE [OF assms(1)])
  let ?p = "xor_bytes (take 2 X) (sys_put_be16 16)"
  have p: "length ?p = 2" using X(2) by (simp add: sys_put_be16_def)
  obtain Y where Y: "aes_encrypt C key (?p @ xor_bytes (drop 2 X) (take 14 aad)) = Inr Y" by (rule crypto_okE [OF assms(1)])
  obtain Z where Z: "aes_encrypt C key (xor_bytes Y (take 2 (drop 14 aad)) @ drop 2 Y) = Inr Z" by (rule crypto_okE [OF assms(1)])
  have "ccm_aad C key ?p X aad 18 = Inr Z" if "length aad = 16"
    using that p Y Z by (simp add: ccm_aad.simps [of C key ?p] ccm_aad.simps [of C key "[]"] Let_def)
  then show ?thesis using assms(2) X by (auto simp: ccm_auth_start_def)
qed

lemma ccm_accepts:
  assumes "crypto_ok C" and "aad = [] \<or> length aad = 16" and "mic \<le> 16" and "length enc = n + mic"
  shows "bt_mesh_ccm_decrypt C key nonce enc n aad mic = Inr m \<longleftrightarrow>
    n > 0 \<and> length m = n \<and> bt_mesh_ccm_encrypt C key nonce m aad mic = Inr enc"
proof -
  obtain c where c: "aes_encrypt C key (ctr_block nonce 0) = Inr c" "length c = 16" by (rule crypto_okE [OF assms(1)])
  obtain X0 where X0: "ccm_auth_start C key nonce n aad mic = Inr X0" using ccm_auth_start_ok [OF assms(1,2)] by blast
  obtain X msg where d: "ccm_decrypt_loop C key nonce 0 X0 (take n enc) = Inr (X, msg)"
    using ccm_decrypt_total [OF assms(1)] by blast
  note e = ccm_encrypt_decrypt_loop [OF assms(1) d]
  have uniq: "m = msg" if m: "length m = n" "ccm_encrypt_loop C key nonce 0 X0 m = Inr (X', out)" "take n enc = out" for X' out
    using ccm_decrypt_encrypt_loop [OF assms(1) m(2)] d m(3) by simp
  have aad: "\<not> length aad \<ge> 0xff00" using assms(2) by auto
  have "bt_mesh_ccm_decrypt C key nonce enc n aad mic = Inr m \<longleftrightarrow> n > 0 \<and> m = msg \<and> take mic (xor_bytes c X) = drop n enc"
    using assms(4) aad c X0 d by (auto simp: bt_mesh_ccm_decrypt_def)
  also have "\<dots> \<longleftrightarrow> n > 0 \<and> length m = n \<and> bt_mesh_ccm_encrypt C key nonce m aad mic = Inr enc"
  proof (cases "length m = n \<and> n > 0")
    case True
    obtain X' out where en: "ccm_encrypt_loop C key nonce 0 X0 m = Inr (X', out)" using ccm_encrypt_total [OF assms(1)] by blast
    have lo: "length out = n" using ccm_decrypt_encrypt_loop [OF assms(1) en] True by simp
    have "bt_mesh_ccm_encrypt C key nonce m aad mic = Inr (out @ take mic (xor_bytes c X'))"
      using True aad c X0 en by (auto simp: bt_mesh_ccm_encrypt_def)
    moreover have "out @ take mic (xor_bytes c X') = enc \<longleftrightarrow> out = take n enc \<and> take mic (xor_bytes c X') = drop n enc"
      using lo by (metis append_eq_conv_conj append_take_drop_id)
    moreover have "out = take n enc \<longleftrightarrow> m = msg" using uniq [OF _ en] e en True by auto
    moreover have "X' = X" if "m = msg" using e en that by simp
    ultimately show ?thesis using True by auto
  next
    case False
    then show ?thesis using e assms(4) by auto
  qed
  finally show ?thesis .
qed

lemma ccm_encrypt_ok:
  assumes "crypto_ok C" and "aad = [] \<or> length aad = 16" and "mic \<le> 16" and "msg \<noteq> []"
  shows "\<exists>enc. bt_mesh_ccm_encrypt C key nonce msg aad mic = Inr enc \<and> length enc = length msg + mic \<and>
    bt_mesh_ccm_decrypt C key nonce enc (length msg) aad mic = Inr msg"
proof -
  obtain c where c: "aes_encrypt C key (ctr_block nonce 0) = Inr c" "length c = 16" by (rule crypto_okE [OF assms(1)])
  obtain X0 where X0: "ccm_auth_start C key nonce (length msg) aad mic = Inr X0" using ccm_auth_start_ok [OF assms(1,2)] by blast
  obtain X out where e: "ccm_encrypt_loop C key nonce 0 X0 msg = Inr (X, out)" "length X = 16"
    using ccm_encrypt_total [OF assms(1), of key nonce 0 X0 msg] ccm_mac_length [OF assms(1) _ assms(4)] by blast
  let ?enc = "out @ take mic (xor_bytes c X)"
  have l: "length out = length msg" using ccm_decrypt_encrypt_loop [OF assms(1) e(1)] by simp
  have "bt_mesh_ccm_encrypt C key nonce msg aad mic = Inr ?enc"
    using c X0 e(1) assms(2,4) by (auto simp: bt_mesh_ccm_encrypt_def)
  moreover have "length ?enc = length msg + mic" using l c(2) e(2) assms(3) by simp
  ultimately show ?thesis using ccm_accepts [OF assms(1-3), of ?enc "length msg" key nonce msg] assms(4) by auto
qed

section \<open>The network layer is correct\<close>

lemma length_be [simp]: "length (sys_put_be16 w) = 2" "length (sys_put_be32 v) = 4"
  by (simp_all add: sys_put_be16_def sys_put_be32_def)

lemma get_put_be16 [simp]: "sys_get_be16 (sys_put_be16 w @ bs) = w"
  by (rule bit_word_eqI) (auto simp: sys_get_be16_def sys_put_be16_def bit_simps)

text \<open>Obfuscation changes bytes 1 to 6 only, and undoes itself.\<close>

lemma obfuscate_twice:
  assumes "crypto_ok C" and "7 \<le> length pdu"
  shows "\<exists>out. bt_mesh_net_obfuscate C pdu iv key = Inr out \<and> length out = length pdu \<and> out ! 0 = pdu ! 0 \<and>
    drop 7 out = drop 7 pdu \<and> bt_mesh_net_obfuscate C out iv key = Inr pdu"
proof -
  obtain h xs where hx: "pdu = h # xs" using assms(2) by (cases pdu) auto
  define x r where "x = take 6 xs" and "r = drop 6 xs"
  have pdu: "pdu = h # x @ r" "length x = 6" using assms(2) by (auto simp: hx x_def r_def)
  obtain t where t: "aes_encrypt C key (0 # 0 # 0 # 0 # 0 # sys_put_be32 iv @ take 7 r) = Inr t" "length t = 16"
    by (rule crypto_okE [OF assms(1)])
  let ?y = "xor_bytes x (take 6 t)"
  have y: "length ?y = 6" "xor_bytes ?y (take 6 t) = x" using pdu(2) t(2) by (simp_all add: xor_bytes_twice)
  have "bt_mesh_net_obfuscate C pdu iv key = Inr (h # ?y @ r)" "bt_mesh_net_obfuscate C (h # ?y @ r) iv key = Inr pdu"
    using t(1) pdu(2) y by (simp_all add: bt_mesh_net_obfuscate_def Let_def pdu(1))
  then show ?thesis using pdu y by (intro exI [of _ "h # ?y @ r"]) simp
qed

lemma NET_MIC_LEN_le: "NET_MIC_LEN buf \<le> 16"
  by (simp add: NET_MIC_LEN_def)

lemma header_eq:
  assumes "take 7 out = take 7 buf"
  shows "NET_MIC_LEN out = NET_MIC_LEN buf" "create_proxy_nonce out iv = create_proxy_nonce buf iv"
    "create_net_nonce out iv = create_net_nonce buf iv"
proof -
  have "out ! i = buf ! i" if "i < 7" for i using arg_cong [OF assms, of "\<lambda>xs. xs ! i"] that by simp
  then show "NET_MIC_LEN out = NET_MIC_LEN buf" "create_proxy_nonce out iv = create_proxy_nonce buf iv"
    "create_net_nonce out iv = create_net_nonce buf iv"
    by (simp_all add: NET_MIC_LEN_def create_proxy_nonce_def create_net_nonce_def)
qed

lemma net_decrypt_encrypt:
  assumes "crypto_ok C" and "8 \<le> length buf"
  shows "\<exists>out. bt_mesh_net_encrypt C key buf iv proxy = Inr out \<and> length out = length buf + NET_MIC_LEN buf \<and>
    take 7 out = take 7 buf \<and> bt_mesh_net_decrypt C key out iv proxy = Inr buf"
proof -
  let ?n = "if proxy then create_proxy_nonce buf iv else create_net_nonce buf iv" and ?mic = "NET_MIC_LEN buf"
  have "drop 7 buf \<noteq> []" using assms(2) by simp
  from ccm_encrypt_ok [OF assms(1) disjI1 [OF refl] NET_MIC_LEN_le [of buf] this, of key ?n] obtain e where e:
      "bt_mesh_ccm_encrypt C key ?n (drop 7 buf) [] ?mic = Inr e" "length e = length buf - 7 + ?mic"
      "bt_mesh_ccm_decrypt C key ?n e (length buf - 7) [] ?mic = Inr (drop 7 buf)"
    by auto
  let ?out = "take 7 buf @ e"
  have m7: "min (length buf) 7 = 7" using assms(2) by simp
  have t: "take 7 ?out = take 7 buf" "drop 7 ?out = e" "length ?out = length buf + ?mic" using assms(2) e(2) by auto
  have "bt_mesh_net_encrypt C key buf iv proxy = Inr ?out" using e(1) by (simp add: bt_mesh_net_encrypt_def Let_def)
  moreover have "bt_mesh_net_decrypt C key ?out iv proxy = Inr buf"
    using e(3) t header_eq [OF t(1)] m7 by (cases proxy) (simp_all add: bt_mesh_net_decrypt_def Let_def)
  ultimately show ?thesis using t by blast
qed

text \<open>The frame check sequence: the only index of \<open>0xcf\<close> in the table is 255.\<close>

lemma crc_table_last: "length crc_table = 256 \<and> crc_table ! 255 = 0xcf \<and> list_all (\<lambda>x. x \<noteq> 0xcf) (butlast crc_table)"
  by code_simp

lemma crc_table_cf: "i < 256 \<Longrightarrow> crc_table ! i = 0xcf \<longleftrightarrow> i = 255"
proof
  assume i: "i < 256" "crc_table ! i = 0xcf"
  show "i = 255"
  proof (rule ccontr)
    assume "i \<noteq> 255"
    then have "i < length (butlast crc_table)" using i crc_table_last by simp
    then have "butlast crc_table ! i \<noteq> 0xcf" using crc_table_last by (auto simp: list_all_length)
    then show False using i \<open>i < length (butlast crc_table)\<close> by (simp add: nth_butlast)
  qed
qed (simp add: crc_table_last)

lemma xor_eq_ff: "(a :: u8) XOR b = 255 \<longleftrightarrow> b = NOT a"
proof -
  have "a XOR NOT a = - 1" by (rule bit_word_eqI) (simp add: bit_simps)
  moreover have "a XOR (a XOR b) = b" by (rule bit_word_eqI) (auto simp: bit_simps)
  moreover have "a XOR - 1 = NOT a" by (rule bit_word_eqI) (auto simp: bit_simps)
  moreover have "(255 :: u8) = - 1" by simp
  ultimately show ?thesis by metis
qed

lemma fcs_check_iff: "bt_mesh_fcs_check data f \<longleftrightarrow> f = bt_mesh_fcs_calc data"
proof -
  let ?s = "fold fcs_step data 0xff"
  have "unat (?s XOR f) < 256" using unsigned_less [of "?s XOR f"] by simp
  then have "bt_mesh_fcs_check data f \<longleftrightarrow> unat (?s XOR f) = 255" by (simp add: bt_mesh_fcs_check_def crc_table_cf)
  also have "\<dots> \<longleftrightarrow> ?s XOR f = 255" using word_unat_eq_iff [of "?s XOR f" 255] by simp
  also have "\<dots> \<longleftrightarrow> f = NOT ?s" by (rule xor_eq_ff)
  also have "NOT ?s = 0xff - ?s" by (simp add: not_eq_complement)
  finally show ?thesis by (simp add: bt_mesh_fcs_calc_def)
qed

end
