(* ===== verification/Mesh_Net.thy ===== *)
theory Mesh_Net
  imports Mesh_Crypto
begin

text \<open>
  The network layer of the mesh stack (\<^verbatim>\<open>bt_mesh/src/net.c\<close>, \<^verbatim>\<open>inc/net.h\<close>) and the processing of secure network beacons
  (\<^verbatim>\<open>src/beacon.c\<close>), configured as for the light application (\<^verbatim>\<open>light_ctl.mk\<close>: GATT proxy and configuration
  client, no friend and no low-power feature).  Pointers to subnets are indices into the array \<open>sub\<close>.
  Calls into other parts are arguments: the crypto library, the time, and the
  answers of the other layers in \<open>mesh_env\<close>.  What is handed to the bearers is recorded in \<open>outbox\<close>.
\<close>

section \<open>State\<close>

abbreviation (input) BT_MESH_KEY_UNUSED :: u16 where "BT_MESH_KEY_UNUSED \<equiv> 0xffff"
abbreviation (input) BT_MESH_KEY_ANY :: u16 where "BT_MESH_KEY_ANY \<equiv> 0xffff"
abbreviation (input) BT_MESH_KEY_PRIMARY :: u16 where "BT_MESH_KEY_PRIMARY \<equiv> 0x0000"
abbreviation (input) BT_MESH_ADDR_UNASSIGNED :: u16 where "BT_MESH_ADDR_UNASSIGNED \<equiv> 0x0000"
abbreviation (input) BT_MESH_TTL_DEFAULT :: u8 where "BT_MESH_TTL_DEFAULT \<equiv> 0xff"
abbreviation (input) BT_MESH_KR_NORMAL :: u8 where "BT_MESH_KR_NORMAL \<equiv> 0"
abbreviation (input) BT_MESH_KR_PHASE_1 :: u8 where "BT_MESH_KR_PHASE_1 \<equiv> 1"
abbreviation (input) BT_MESH_KR_PHASE_2 :: u8 where "BT_MESH_KR_PHASE_2 \<equiv> 2"
abbreviation (input) IV_UPDATE_SEQ_LIMIT :: nat where "IV_UPDATE_SEQ_LIMIT \<equiv> 0xB0E500"

definition BT_MESH_ADDR_IS_UNICAST :: "u16 \<Rightarrow> bool" where
  "BT_MESH_ADDR_IS_UNICAST addr \<longleftrightarrow> addr \<noteq> 0 \<and> addr < 0x8000"

definition BT_MESH_ADDR_IS_VIRTUAL :: "u16 \<Rightarrow> bool" where
  "BT_MESH_ADDR_IS_VIRTUAL addr \<longleftrightarrow> 0x8000 \<le> addr \<and> addr < 0xc000"

definition BT_MESH_ADDR_IS_RFU :: "u16 \<Rightarrow> bool" where
  "BT_MESH_ADDR_IS_RFU addr \<longleftrightarrow> 0xff00 \<le> addr \<and> addr \<le> 0xfffb"

record subnet_keys =
  sk_net :: "byte list"
  sk_nid :: u8
  sk_enc :: "byte list"
  sk_net_id :: "byte list"
  sk_identity :: "byte list"
  sk_privacy :: "byte list"
  sk_beacon :: "byte list"

record bt_mesh_subnet =
  beacon_sent :: u32
  beacons_last :: u8
  beacons_cur :: u8
  beacon_cache :: "byte list"
  net_idx :: u16
  kr_flag :: bool
  kr_phase :: u8
  node_id :: u8
  node_id_start :: u32
  sub_auth :: "byte list"
  subnet_active :: bool
  keys0 :: subnet_keys
  keys1 :: subnet_keys

record bt_mesh_app_key =
  ak_net_idx :: u16
  ak_app_idx :: u16
  ak_updated :: bool
  ak_active :: bool
  ak_key0 :: "u8 \<times> byte list"
  ak_key1 :: "u8 \<times> byte list"

record bt_mesh_rpl =
  rpl_src :: u16
  rpl_old_iv :: bool
  rpl_seq :: u32

datatype mesh_out = Adv "byte list" | Local "byte list" | Proxy_Beacon "nat option"

text \<open>
  \<open>bt_mesh_net\<close> is the structure of \<^verbatim>\<open>net.h\<close> with the static variables of \<^verbatim>\<open>net.c\<close> and \<^verbatim>\<open>main.c\<close>; \<open>rpl_index\<close> is the static
  variable of \<open>is_replay\<close>; \<open>ivu_timer\<close> says whether the delayed work \<^verbatim>\<open>ivu_complete\<close> is submitted.
\<close>

record bt_mesh_net =
  iv_index :: u32
  seq :: "24 word"
  iv_update :: bool
  ivu_initiator :: bool
  ivu_test :: bool
  pending_update :: bool
  valid :: bool
  last_update :: "64 word"
  ivu_timer :: bool
  app_keys :: "bt_mesh_app_key list"
  sub :: "bt_mesh_subnet list"
  rpl :: "bt_mesh_rpl list"
  rpl_index :: nat
  msg_cache :: "u64 list"
  msg_cache_next :: nat
  dup_cache :: "u32 list"
  dup_cache_next :: nat
  provisioned :: bool
  outbox :: "mesh_out list"

text \<open>\<open>adv_bufs\<close> is the number of free advertising buffers when the operation starts; \<open>rx_sdu_max\<close> is \<^verbatim>\<open>CONFIG_BT_MESH_RX_SDU_MAX\<close>.\<close>

record mesh_env =
  relay_enabled :: bool
  gatt_proxy_enabled :: bool
  beacon_enabled :: bool
  default_ttl :: u8
  elem_find :: "u16 \<Rightarrow> bool"
  fixed_group_match :: "u16 \<Rightarrow> bool"
  proxy_relay :: "byte list \<Rightarrow> u16 \<Rightarrow> bool"
  adv_bufs :: nat
  tx_in_progress :: bool
  primary_addr :: u16
  label_uuid_get :: "u16 \<Rightarrow> byte list option"
  rx_sdu_max :: nat

definition upd_sub :: "nat \<Rightarrow> (bt_mesh_subnet \<Rightarrow> bt_mesh_subnet) \<Rightarrow> 'a bt_mesh_net_scheme \<Rightarrow> 'a bt_mesh_net_scheme" where
  "upd_sub i f st = st\<lparr>sub := (sub st)[i := f (sub st ! i)]\<rparr>"

definition emit :: "mesh_out \<Rightarrow> 'a bt_mesh_net_scheme \<Rightarrow> 'a bt_mesh_net_scheme" where
  "emit x st = st\<lparr>outbox := outbox st @ [x]\<rparr>"

text \<open>\<^verbatim>\<open>sub->keys[sub->kr_flag]\<close>\<close>

definition cur_keys :: "bt_mesh_subnet \<Rightarrow> subnet_keys" where
  "cur_keys s = (if kr_flag s then keys1 s else keys0 s)"

text \<open>Fields of a network PDU, and the IV index of sending and of receiving.\<close>

definition IVI :: "byte list \<Rightarrow> u8" where "IVI pdu = drop_bit 7 (pdu ! 0)"
definition NID :: "byte list \<Rightarrow> u8" where "NID pdu = pdu ! 0 AND 0x7f"
definition CTL :: "byte list \<Rightarrow> bool" where "CTL pdu = (drop_bit 7 (pdu ! 1) \<noteq> 0)"
definition TTL :: "byte list \<Rightarrow> u8" where "TTL pdu = pdu ! 1 AND 0x7f"
definition SEQ :: "byte list \<Rightarrow> u32" where
  "SEQ pdu = push_bit 16 (ucast (pdu ! 2)) OR push_bit 8 (ucast (pdu ! 3)) OR ucast (pdu ! 4)"
definition SRC :: "byte list \<Rightarrow> u16" where "SRC pdu = sys_get_be16 (drop 5 pdu)"
definition DST :: "byte list \<Rightarrow> u16" where "DST pdu = sys_get_be16 (drop 7 pdu)"

definition BT_MESH_NET_IVI_TX :: "'a bt_mesh_net_scheme \<Rightarrow> u32" where
  "BT_MESH_NET_IVI_TX st = iv_index st - of_bool (iv_update st)"

definition BT_MESH_IV_UPDATE :: "u8 \<Rightarrow> bool" where "BT_MESH_IV_UPDATE flags = bit flags 1"
definition BT_MESH_KEY_REFRESH :: "u8 \<Rightarrow> bool" where "BT_MESH_KEY_REFRESH flags = bit flags 0"

section \<open>The caches of received messages\<close>

definition check_dup :: "byte list \<Rightarrow> 'a bt_mesh_net_scheme \<Rightarrow> bool \<times> 'a bt_mesh_net_scheme" where
  "check_dup data st =
     (let n = length data;
          val = sys_get_be32 (drop (n - 4) data) XOR sys_get_be32 (drop (n - 8) data)
      in if val \<in> set (dup_cache st) then (True, st)
         else (False, st\<lparr>dup_cache := (dup_cache st)[dup_cache_next st := val],
                         dup_cache_next := (dup_cache_next st + 1) mod length (dup_cache st)\<rparr>))"

text \<open>\<^verbatim>\<open>memcpy\<close> into \<^verbatim>\<open>hash2\<close> is little endian.  \<open>iv_rx\<close> is \<^verbatim>\<open>BT_MESH_NET_IVI_RX(rx)\<close>.\<close>

definition msg_hash :: "u32 \<Rightarrow> byte list \<Rightarrow> u64" where
  "msg_hash iv_rx pdu =
     (let hash1 = push_bit 8 iv_rx OR ucast (pdu ! 2);
          hash2 = (ucast (pdu ! 3) OR push_bit 8 (ucast (pdu ! 4)) OR push_bit 16 (ucast (pdu ! 5)) OR push_bit 24 (ucast (pdu ! 6)) :: u32)
      in push_bit 32 (ucast hash1) OR ucast hash2)"

definition msg_cache_match :: "u32 \<Rightarrow> byte list \<Rightarrow> 'a bt_mesh_net_scheme \<Rightarrow> bool \<times> 'a bt_mesh_net_scheme" where
  "msg_cache_match iv_rx pdu st =
     (let hash = msg_hash iv_rx pdu in
      if hash \<in> set (msg_cache st) then (True, st)
      else (False, st\<lparr>msg_cache := (msg_cache st)[msg_cache_next st := hash],
                      msg_cache_next := (msg_cache_next st + 1) mod length (msg_cache st)\<rparr>))"

section \<open>Subnets and keys\<close>

fun find_index :: "('a \<Rightarrow> bool) \<Rightarrow> 'a list \<Rightarrow> nat option" where
  "find_index P [] = None"
| "find_index P (x # xs) = (if P x then Some 0 else map_option Suc (find_index P xs))"

definition bt_mesh_subnet_get :: "u16 \<Rightarrow> 'a bt_mesh_net_scheme \<Rightarrow> nat option" where
  "bt_mesh_subnet_get idx st =
     (if idx = BT_MESH_KEY_ANY then Some 0 else find_index (\<lambda>s. net_idx s = idx) (sub st))"

definition bt_mesh_net_keys_create :: "crypto_lib \<Rightarrow> byte list \<Rightarrow> mesh_err + subnet_keys" where
  "bt_mesh_net_keys_create C key =
     ebind (bt_mesh_k2 C key [0]) (\<lambda>(nid, enc, privacy).
     ebind (bt_mesh_k3 C key) (\<lambda>net_id.
     ebind (bt_mesh_identity_key C key) (\<lambda>identity.
     ebind (bt_mesh_beacon_key C key) (\<lambda>beacon.
       Inr \<lparr>sk_net = key, sk_nid = nid, sk_enc = enc, sk_net_id = net_id, sk_identity = identity,
            sk_privacy = privacy, sk_beacon = beacon\<rparr>))))"

definition bt_mesh_net_flags :: "bt_mesh_subnet option \<Rightarrow> 'a bt_mesh_net_scheme \<Rightarrow> u8" where
  "bt_mesh_net_flags s st =
     (let flags = (case s of Some x \<Rightarrow> if kr_flag x then 0x00 OR 0x01 else 0x00 | None \<Rightarrow> 0x00)
      in if iv_update st then flags OR 0x02 else flags)"

definition bt_mesh_net_beacon_update :: "crypto_lib \<Rightarrow> nat \<Rightarrow> 'a bt_mesh_net_scheme \<Rightarrow> 'a bt_mesh_net_scheme" where
  "bt_mesh_net_beacon_update C i st =
     (let s = sub st ! i; flags = bt_mesh_net_flags (Some s) st; k = keys0 s
      in case bt_mesh_beacon_auth C (sk_beacon k) flags (sk_net_id k) (iv_index st) of
           Inl e \<Rightarrow> st
         | Inr a \<Rightarrow> upd_sub i (\<lambda>s. s\<lparr>sub_auth := a\<rparr>) st)"

definition bt_mesh_net_create ::
  "crypto_lib \<Rightarrow> u16 \<Rightarrow> u8 \<Rightarrow> byte list \<Rightarrow> u32 \<Rightarrow> 64 word \<Rightarrow> 'a bt_mesh_net_scheme \<Rightarrow> mesh_err option \<times> 'a bt_mesh_net_scheme" where
  "bt_mesh_net_create C idx flags key iv now st =
     (if valid st then (Some EALREADY, st)
      else
        let st = st\<lparr>msg_cache := replicate (length (msg_cache st)) 0, msg_cache_next := 0\<rparr>;
            st = upd_sub 0 (\<lambda>s. s\<lparr>kr_flag := BT_MESH_KEY_REFRESH flags\<rparr>) st
        in case bt_mesh_net_keys_create C key of
             Inl e \<Rightarrow> (Some EIO, st)
           | Inr k \<Rightarrow>
               let st = (if BT_MESH_KEY_REFRESH flags then upd_sub 0 (\<lambda>s. s\<lparr>keys1 := k, kr_phase := BT_MESH_KR_PHASE_2\<rparr>) st
                         else upd_sub 0 (\<lambda>s. s\<lparr>keys0 := k\<rparr>) st);
                   st = upd_sub 0 (\<lambda>s. s\<lparr>net_idx := idx, node_id := 0x01, node_id_start := ucast now\<rparr>) (st\<lparr>valid := True\<rparr>);
                   st = st\<lparr>iv_index := iv, iv_update := BT_MESH_IV_UPDATE flags, last_update := now\<rparr>
               in (None, bt_mesh_net_beacon_update C 0 st))"

definition bt_mesh_net_revoke_keys :: "nat \<Rightarrow> 'a bt_mesh_net_scheme \<Rightarrow> 'a bt_mesh_net_scheme" where
  "bt_mesh_net_revoke_keys i st =
     (let st = upd_sub i (\<lambda>s. s\<lparr>keys0 := keys1 s\<rparr>) st
      in st\<lparr>app_keys := map (\<lambda>k. if ak_net_idx k \<noteq> net_idx (sub st ! i) \<or> \<not> ak_updated k then k
                                   else k\<lparr>ak_key0 := ak_key1 k, ak_updated := False\<rparr>) (app_keys st)\<rparr>)"

definition bt_mesh_kr_update :: "nat \<Rightarrow> bool \<Rightarrow> bool \<Rightarrow> 'a bt_mesh_net_scheme \<Rightarrow> bool \<times> 'a bt_mesh_net_scheme" where
  "bt_mesh_kr_update i new_kr new_key st =
     (if new_kr \<noteq> kr_flag (sub st ! i) \<and> kr_phase (sub st ! i) = BT_MESH_KR_NORMAL then (False, st)
      else
        let st = upd_sub i (\<lambda>s. s\<lparr>kr_flag := new_kr\<rparr>) st; phase = kr_phase (sub st ! i) in
        if new_kr then
          if phase = BT_MESH_KR_PHASE_1 then (True, upd_sub i (\<lambda>s. s\<lparr>kr_phase := BT_MESH_KR_PHASE_2\<rparr>) st) else (False, st)
        else
          if phase = BT_MESH_KR_PHASE_1 \<and> new_key \<or> phase = BT_MESH_KR_PHASE_2
          then (True, upd_sub i (\<lambda>s. s\<lparr>kr_phase := BT_MESH_KR_NORMAL\<rparr>) (bt_mesh_net_revoke_keys i st))
          else (False, st))"

section \<open>IV update\<close>

definition zero_rpl :: bt_mesh_rpl where
  "zero_rpl = \<lparr>rpl_src = 0, rpl_old_iv = False, rpl_seq = 0\<rparr>"

definition bt_mesh_rpl_reset :: "'a bt_mesh_net_scheme \<Rightarrow> 'a bt_mesh_net_scheme" where
  "bt_mesh_rpl_reset st =
     st\<lparr>rpl := map (\<lambda>r. if rpl_src r \<noteq> 0 then if rpl_old_iv r then zero_rpl else r\<lparr>rpl_old_iv := True\<rparr> else r) (rpl st)\<rparr>"

definition rpl_clear :: "'a bt_mesh_net_scheme \<Rightarrow> 'a bt_mesh_net_scheme" where
  "rpl_clear st = st\<lparr>rpl := replicate (length (rpl st)) zero_rpl\<rparr>"

text \<open>The code behind the label \<^verbatim>\<open>do_update\<close>.\<close>

definition do_iv_update :: "crypto_lib \<Rightarrow> 64 word \<Rightarrow> u32 \<Rightarrow> bool \<Rightarrow> 'a bt_mesh_net_scheme \<Rightarrow> 'a bt_mesh_net_scheme" where
  "do_iv_update C now iv upd st =
     (let st = st\<lparr>iv_update := upd\<rparr>;
          st = (if upd then (bt_mesh_rpl_reset (st\<lparr>iv_index := iv\<rparr>))\<lparr>ivu_timer := True\<rparr>
                else st\<lparr>seq := 0, ivu_timer := False\<rparr>);
          st = st\<lparr>last_update := now\<rparr>
      in fold (\<lambda>i st. if net_idx (sub st ! i) \<noteq> BT_MESH_KEY_UNUSED then bt_mesh_net_beacon_update C i st else st)
           [0..<length (sub st)] st)"

abbreviation (input) K_HOURS_96 :: int where "K_HOURS_96 \<equiv> 96 * 60 * 60 * 1000"

text \<open>The checks in front of the label: the least duration of a state, and pending transfers.\<close>

definition iv_update_allowed ::
  "crypto_lib \<Rightarrow> mesh_env \<Rightarrow> 64 word \<Rightarrow> u32 \<Rightarrow> bool \<Rightarrow> 'a bt_mesh_net_scheme \<Rightarrow> bool \<times> 'a bt_mesh_net_scheme" where
  "iv_update_allowed C E now iv upd st =
     (if \<not> ivu_test st \<and> sint (now - last_update st) < K_HOURS_96 then (False, st)
      else if \<not> upd \<and> tx_in_progress E then (False, st\<lparr>pending_update := True\<rparr>)
      else (True, do_iv_update C now iv upd st))"

definition iv_recovery :: "crypto_lib \<Rightarrow> 64 word \<Rightarrow> u32 \<Rightarrow> bool \<Rightarrow> 'a bt_mesh_net_scheme \<Rightarrow> bool \<times> 'a bt_mesh_net_scheme" where
  "iv_recovery C now iv upd st = (True, do_iv_update C now iv upd ((rpl_clear st)\<lparr>iv_index := iv, seq := 0\<rparr>))"

definition bt_mesh_net_iv_update ::
  "crypto_lib \<Rightarrow> mesh_env \<Rightarrow> 64 word \<Rightarrow> u32 \<Rightarrow> bool \<Rightarrow> 'a bt_mesh_net_scheme \<Rightarrow> bool \<times> 'a bt_mesh_net_scheme" where
  "bt_mesh_net_iv_update C E now iv upd st =
     (if iv_update st then
        if iv \<noteq> iv_index st then (False, st)
        else if upd then (False, st)
        else iv_update_allowed C E now iv upd st
      else
        if iv = iv_index st then (False, st)
        else if iv < iv_index st \<or> iv > iv_index st + 42 then (False, st)
        else if iv > iv_index st + 1 then iv_recovery C now iv upd st
        else if iv = iv_index st + 1 \<and> \<not> upd then iv_recovery C now iv upd st
        else if \<not> upd then (False, st)
        else if iv \<noteq> iv_index st + 1 then (False, st)
        else iv_update_allowed C E now iv upd st)"

definition bt_mesh_net_sec_update :: "mesh_env \<Rightarrow> nat option \<Rightarrow> 'a bt_mesh_net_scheme \<Rightarrow> 'a bt_mesh_net_scheme" where
  "bt_mesh_net_sec_update E s st = (if gatt_proxy_enabled E then emit (Proxy_Beacon s) st else st)"

text \<open>The timer of the beacons, which the function also starts or stops, is not part of the state.\<close>

definition bt_mesh_beacon_ivu_initiator :: "bool \<Rightarrow> 'a bt_mesh_net_scheme \<Rightarrow> 'a bt_mesh_net_scheme" where
  "bt_mesh_beacon_ivu_initiator enable st = st\<lparr>ivu_initiator := enable\<rparr>"

definition ivu_complete :: "crypto_lib \<Rightarrow> mesh_env \<Rightarrow> 64 word \<Rightarrow> 'a bt_mesh_net_scheme \<Rightarrow> 'a bt_mesh_net_scheme" where
  "ivu_complete C E now st =
     (let st = bt_mesh_beacon_ivu_initiator True st in snd (bt_mesh_net_iv_update C E now (iv_index st) False st))"

section \<open>Sending\<close>

record bt_mesh_net_tx =
  tx_sub :: nat
  tx_app_idx :: u16
  tx_addr :: u16
  tx_ttl :: u8
  tx_send_rel :: bool
  tx_src :: u16
  tx_aszmic :: bool
  tx_aid :: u8

definition seq_bytes :: "24 word \<Rightarrow> byte list" where
  "seq_bytes n = [ucast (drop_bit 16 n), ucast (drop_bit 8 n), ucast n]"

text \<open>The result is the encoded PDU.  The sequence number is used up also when encryption fails.\<close>

definition bt_mesh_net_encode ::
  "crypto_lib \<Rightarrow> bt_mesh_net_tx \<Rightarrow> byte list \<Rightarrow> nat \<Rightarrow> bool \<Rightarrow> 'a bt_mesh_net_scheme \<Rightarrow> (mesh_err + byte list) \<times> 'a bt_mesh_net_scheme" where
  "bt_mesh_net_encode C tx buf tailroom proxy st =
     (let ctl = (tx_app_idx tx = BT_MESH_KEY_UNUSED) in
      if ctl \<and> tailroom < 8 then (Inl EINVAL, st)
      else if tailroom < 4 then (Inl EINVAL, st)
      else
        let buf = sys_put_be16 (tx_src tx) @ sys_put_be16 (tx_addr tx) @ buf;
            buf = seq_bytes (seq st) @ buf;
            st = st\<lparr>seq := seq st + 1\<rparr>;
            buf = (if ctl then tx_ttl tx OR 0x80 else tx_ttl tx) # buf;
            k = cur_keys (sub st ! tx_sub tx);
            iv = BT_MESH_NET_IVI_TX st;
            buf = (sk_nid k OR push_bit 7 (ucast (iv AND 1))) # buf
        in (ebind (bt_mesh_net_encrypt C (sk_enc k) buf iv proxy) (\<lambda>buf.
            bt_mesh_net_obfuscate C buf iv (sk_privacy k)), st))"

text \<open>
  The result is the error, or the encoded PDU and what becomes of it: \<open>Completed\<close> when the callbacks have been
  called before the function returns (the PDU went to a proxy client or to the local interface), \<open>Queued\<close> when
  the advertising thread will call them, and \<open>Dropped\<close> when the PDU goes nowhere and no callback is called.
  \<open>Local\<close> is the queue of the local network interface.
\<close>

datatype net_sent = Completed | Queued | Dropped

definition bt_mesh_net_send ::
  "crypto_lib \<Rightarrow> mesh_env \<Rightarrow> bt_mesh_net_tx \<Rightarrow> byte list \<Rightarrow> nat \<Rightarrow> 'a bt_mesh_net_scheme \<Rightarrow>
   (mesh_err + byte list \<times> net_sent) \<times> 'a bt_mesh_net_scheme" where
  "bt_mesh_net_send C E tx buf tailroom st =
     (let tx = (if tx_ttl tx = BT_MESH_TTL_DEFAULT then tx\<lparr>tx_ttl := default_ttl E\<rparr> else tx) in
      case bt_mesh_net_encode C tx buf tailroom False st of
        (Inl e, st) \<Rightarrow> (Inl e, st)
      | (Inr pdu, st) \<Rightarrow>
          if tx_ttl tx \<noteq> 1 \<and> proxy_relay E pdu (tx_addr tx) \<and> BT_MESH_ADDR_IS_UNICAST (tx_addr tx) then (Inr (pdu, Completed), st)
          else if fixed_group_match E (tx_addr tx) \<or> elem_find E (tx_addr tx) then (Inr (pdu, Completed), emit (Local pdu) st)
          else if tx_ttl tx \<noteq> 1 then (Inr (pdu, Queued), emit (Adv pdu) st)
          else (Inr (pdu, Dropped), st))"

text \<open>The result is the error, or the PDU that is handed to the advertising thread.\<close>

definition bt_mesh_net_resend ::
  "crypto_lib \<Rightarrow> mesh_env \<Rightarrow> 64 word \<Rightarrow> nat \<Rightarrow> byte list \<Rightarrow> bool \<Rightarrow> 'a bt_mesh_net_scheme \<Rightarrow>
   (mesh_err + byte list) \<times> 'a bt_mesh_net_scheme" where
  "bt_mesh_net_resend C E now i buf new_key st =
     (let k = (if new_key then keys1 (sub st ! i) else keys0 (sub st ! i)); iv = BT_MESH_NET_IVI_TX st in
      case ebind (bt_mesh_net_obfuscate C buf iv (sk_privacy k)) (\<lambda>buf. bt_mesh_net_decrypt C (sk_enc k) buf iv False) of
        Inl e \<Rightarrow> (Inl e, st)
      | Inr buf \<Rightarrow>
          let buf = take 2 buf @ seq_bytes (seq st) @ drop 5 buf;
              st = st\<lparr>seq := seq st + 1\<rparr>
          in case ebind (bt_mesh_net_encrypt C (sk_enc k) buf iv False) (\<lambda>buf. bt_mesh_net_obfuscate C buf iv (sk_privacy k)) of
               Inl e \<Rightarrow> (Inl e, st)
             | Inr buf \<Rightarrow>
                 let st = emit (Adv buf) st in
                 if \<not> iv_update st \<and> unat (seq st) > IV_UPDATE_SEQ_LIMIT then
                   let st = bt_mesh_beacon_ivu_initiator True st;
                       st = snd (bt_mesh_net_iv_update C E now (iv_index st + 1) True st)
                   in (Inr buf, bt_mesh_net_sec_update E None st)
                 else (Inr buf, st))"

section \<open>Receiving\<close>

datatype bt_mesh_net_if = BT_MESH_NET_IF_ADV | BT_MESH_NET_IF_LOCAL | BT_MESH_NET_IF_PROXY | BT_MESH_NET_IF_PROXY_CFG

record bt_mesh_net_rx =
  rx_sub :: nat
  rx_net_idx :: u16
  rx_app_idx :: u16
  rx_addr :: u16
  rx_recv_ttl :: u8
  rx_send_ttl :: u8
  rx_seq :: u32
  rx_dst :: u16
  rx_old_iv :: bool
  rx_new_key :: bool
  rx_friend_cred :: bool
  rx_ctl :: bool
  rx_net_if :: bt_mesh_net_if
  rx_local_match :: bool
  rx_friend_match :: bool

definition zero_rx :: bt_mesh_net_rx where
  "zero_rx = \<lparr>rx_sub = 0, rx_net_idx = 0, rx_app_idx = 0, rx_addr = 0, rx_recv_ttl = 0, rx_send_ttl = 0, rx_seq = 0,
     rx_dst = 0, rx_old_iv = False, rx_new_key = False, rx_friend_cred = False, rx_ctl = False,
     rx_net_if = BT_MESH_NET_IF_ADV, rx_local_match = False, rx_friend_match = False\<rparr>"

definition BT_MESH_NET_IVI_RX :: "'a bt_mesh_net_scheme \<Rightarrow> bt_mesh_net_rx \<Rightarrow> u32" where
  "BT_MESH_NET_IVI_RX st rx = iv_index st - of_bool (rx_old_iv rx)"

definition net_decrypt ::
  "crypto_lib \<Rightarrow> byte list \<Rightarrow> byte list \<Rightarrow> byte list \<Rightarrow> bt_mesh_net_rx \<Rightarrow> 'a bt_mesh_net_scheme \<Rightarrow>
   (mesh_err + byte list) \<times> bt_mesh_net_rx \<times> 'a bt_mesh_net_scheme" where
  "net_decrypt C enc priv data rx st =
     (let rx = rx\<lparr>rx_old_iv := (IVI data \<noteq> ucast (iv_index st AND 1))\<rparr>;
          iv = BT_MESH_NET_IVI_RX st rx
      in case bt_mesh_net_obfuscate C data iv priv of
           Inl e \<Rightarrow> (Inl ENOENT, rx, st)
         | Inr buf \<Rightarrow>
             (case (if rx_net_if rx = BT_MESH_NET_IF_ADV then msg_cache_match iv buf st else (False, st)) of
                (True, st) \<Rightarrow> (Inl EALREADY, rx, st)
              | (False, st) \<Rightarrow>
                  let rx = rx\<lparr>rx_addr := SRC buf\<rparr> in
                  if \<not> BT_MESH_ADDR_IS_UNICAST (rx_addr rx) then (Inl EINVAL, rx, st)
                  else (bt_mesh_net_decrypt C enc buf iv (rx_net_if rx = BT_MESH_NET_IF_PROXY_CFG), rx, st)))"

text \<open>The loop over the subnets; \<open>n\<close> is the index of the first one.\<close>

fun net_find_loop ::
  "crypto_lib \<Rightarrow> byte list \<Rightarrow> nat \<Rightarrow> bt_mesh_subnet list \<Rightarrow> bt_mesh_net_rx \<Rightarrow> 'a bt_mesh_net_scheme \<Rightarrow>
   byte list option \<times> bt_mesh_net_rx \<times> 'a bt_mesh_net_scheme" where
  "net_find_loop C data n [] rx st = (None, rx, st)"
| "net_find_loop C data n (s # ss) rx st =
     (if net_idx s = BT_MESH_KEY_UNUSED then net_find_loop C data (n + 1) ss rx st
      else
        case (if NID data = sk_nid (keys0 s) then net_decrypt C (sk_enc (keys0 s)) (sk_privacy (keys0 s)) data rx st
              else (Inl ENOENT, rx, st)) of
          (Inr buf, rx, st) \<Rightarrow> (Some buf, rx\<lparr>rx_net_idx := net_idx s, rx_sub := n\<rparr>, st)
        | (Inl e, rx, st) \<Rightarrow>
            if kr_phase s = BT_MESH_KR_NORMAL then net_find_loop C data (n + 1) ss rx st
            else
              case (if NID data = sk_nid (keys1 s) then net_decrypt C (sk_enc (keys1 s)) (sk_privacy (keys1 s)) data rx st
                    else (Inl ENOENT, rx, st)) of
                (Inr buf, rx, st) \<Rightarrow> (Some buf, rx\<lparr>rx_new_key := True, rx_net_idx := net_idx s, rx_sub := n\<rparr>, st)
              | (Inl e, rx, st) \<Rightarrow> net_find_loop C data (n + 1) ss rx st)"

definition net_find_and_decrypt ::
  "crypto_lib \<Rightarrow> byte list \<Rightarrow> bt_mesh_net_rx \<Rightarrow> 'a bt_mesh_net_scheme \<Rightarrow> byte list option \<times> bt_mesh_net_rx \<times> 'a bt_mesh_net_scheme" where
  "net_find_and_decrypt C data rx st = net_find_loop C data 0 (sub st) rx st"

abbreviation (input) BT_MESH_NET_MIN_PDU_LEN :: nat where "BT_MESH_NET_MIN_PDU_LEN \<equiv> 9 + 1 + 8"

definition bt_mesh_net_decode ::
  "crypto_lib \<Rightarrow> mesh_env \<Rightarrow> byte list \<Rightarrow> bt_mesh_net_if \<Rightarrow> bt_mesh_net_rx \<Rightarrow> 'a bt_mesh_net_scheme \<Rightarrow>
   (mesh_err + byte list) \<times> bt_mesh_net_rx \<times> 'a bt_mesh_net_scheme" where
  "bt_mesh_net_decode C E data net_if rx st =
     (if length data < BT_MESH_NET_MIN_PDU_LEN then (Inl EINVAL, rx, st)
      else case (if net_if = BT_MESH_NET_IF_ADV then check_dup data st else (False, st)) of
        (True, st) \<Rightarrow> (Inl EINVAL, rx, st)
      | (False, st) \<Rightarrow>
          (case net_find_and_decrypt C data (rx\<lparr>rx_net_if := net_if\<rparr>) st of
             (None, rx, st) \<Rightarrow> (Inl ENOENT, rx, st)
           | (Some buf, rx, st) \<Rightarrow>
               let rx = rx\<lparr>rx_app_idx := BT_MESH_KEY_UNUSED, rx_recv_ttl := TTL buf\<rparr>;
                   rx = rx\<lparr>rx_send_ttl := (if rx_recv_ttl rx = 0 then 0 else BT_MESH_TTL_DEFAULT)\<rparr>;
                   rx = rx\<lparr>rx_ctl := CTL buf, rx_seq := SEQ buf, rx_dst := DST buf\<rparr>
               in if net_if \<noteq> BT_MESH_NET_IF_PROXY_CFG \<and> rx_dst rx = BT_MESH_ADDR_UNASSIGNED then (Inl EBADMSG, rx, st)
                  else if BT_MESH_ADDR_IS_RFU (rx_dst rx) then (Inl EBADMSG, rx, st)
                  else if net_if \<noteq> BT_MESH_NET_IF_LOCAL \<and> elem_find E (rx_addr rx) then (Inl EBADMSG, rx, st)
                  else (Inr buf, rx, st)))"

definition relay_to_adv :: "mesh_env \<Rightarrow> bt_mesh_net_if \<Rightarrow> bool" where
  "relay_to_adv E net_if =
     (case net_if of
        BT_MESH_NET_IF_LOCAL \<Rightarrow> True
      | BT_MESH_NET_IF_ADV \<Rightarrow> relay_enabled E
      | BT_MESH_NET_IF_PROXY \<Rightarrow> gatt_proxy_enabled E
      | BT_MESH_NET_IF_PROXY_CFG \<Rightarrow> False)"

definition bt_mesh_net_relay ::
  "crypto_lib \<Rightarrow> mesh_env \<Rightarrow> byte list \<Rightarrow> bt_mesh_net_rx \<Rightarrow> 'a bt_mesh_net_scheme \<Rightarrow> 'a bt_mesh_net_scheme" where
  "bt_mesh_net_relay C E sbuf rx st =
     (if rx_net_if rx = BT_MESH_NET_IF_LOCAL \<and> rx_recv_ttl rx = 1 then st
      else if rx_net_if rx \<noteq> BT_MESH_NET_IF_LOCAL \<and> rx_recv_ttl rx \<le> 1 then st
      else if rx_net_if rx = BT_MESH_NET_IF_ADV \<and> \<not> relay_enabled E \<and> \<not> gatt_proxy_enabled E then st
      else if adv_bufs E = 0 then st
      else
        let buf = (if rx_net_if rx \<noteq> BT_MESH_NET_IF_LOCAL
                   then sbuf[1 := (sbuf ! 1 AND 0x80) OR (rx_recv_ttl rx - 1)] else sbuf);
            k = cur_keys (sub st ! rx_sub rx);
            buf = (if rx_friend_cred rx then buf[0 := (buf ! 0 AND 0x80) OR sk_nid k] else buf);
            iv = BT_MESH_NET_IVI_RX st rx
        in case ebind (bt_mesh_net_encrypt C (sk_enc k) buf iv False) (\<lambda>buf. bt_mesh_net_obfuscate C buf iv (sk_privacy k)) of
             Inl e \<Rightarrow> st
           | Inr buf \<Rightarrow>
               if (gatt_proxy_enabled E \<or> rx_net_if rx = BT_MESH_NET_IF_LOCAL) \<and>
                  proxy_relay E buf (rx_dst rx) \<and> BT_MESH_ADDR_IS_UNICAST (rx_dst rx) then st
               else if relay_to_adv E (rx_net_if rx) then emit (Adv buf) st
               else st)"

text \<open>\<open>trans_recv\<close> is the transport layer (\<^verbatim>\<open>bt_mesh_trans_recv\<close>).\<close>

definition bt_mesh_net_recv ::
  "crypto_lib \<Rightarrow> mesh_env \<Rightarrow> (byte list \<Rightarrow> bt_mesh_net_rx \<Rightarrow> 'a bt_mesh_net_scheme \<Rightarrow> bt_mesh_net_rx \<times> 'a bt_mesh_net_scheme) \<Rightarrow>
   byte list \<Rightarrow> bt_mesh_net_if \<Rightarrow> 'a bt_mesh_net_scheme \<Rightarrow> 'a bt_mesh_net_scheme" where
  "bt_mesh_net_recv C E trans_recv data net_if st =
     (if length data > 29 then st
      else if \<not> provisioned st then st
      else case bt_mesh_net_decode C E data net_if zero_rx st of
        (Inl e, rx, st) \<Rightarrow> st
      | (Inr buf, rx, st) \<Rightarrow>
          let rx = rx\<lparr>rx_local_match := (fixed_group_match E (rx_dst rx) \<or> elem_find E (rx_dst rx))\<rparr>
          in case trans_recv buf rx st of
               (rx, st) \<Rightarrow>
                 if \<not> BT_MESH_ADDR_IS_UNICAST (rx_dst rx) \<or> \<not> rx_local_match rx \<and> \<not> rx_friend_match rx
                 then bt_mesh_net_relay C E buf rx st else st)"

section \<open>Secure network beacons\<close>

definition auth_match :: "crypto_lib \<Rightarrow> subnet_keys \<Rightarrow> byte list \<Rightarrow> u8 \<Rightarrow> u32 \<Rightarrow> byte list \<Rightarrow> bool" where
  "auth_match C k net_id flags iv auth \<longleftrightarrow>
     take 8 net_id = sk_net_id k \<and> bt_mesh_beacon_auth C (sk_beacon k) flags (sk_net_id k) iv = Inr (take 8 auth)"

text \<open>The result is the index of the subnet and whether the new key matched.\<close>

fun subnet_find_loop ::
  "crypto_lib \<Rightarrow> byte list \<Rightarrow> u8 \<Rightarrow> u32 \<Rightarrow> byte list \<Rightarrow> nat \<Rightarrow> bt_mesh_subnet list \<Rightarrow> (nat \<times> bool) option" where
  "subnet_find_loop C net_id flags iv auth n [] = None"
| "subnet_find_loop C net_id flags iv auth n (s # ss) =
     (if net_idx s = BT_MESH_KEY_UNUSED then subnet_find_loop C net_id flags iv auth (n + 1) ss
      else if auth_match C (keys0 s) net_id flags iv auth then Some (n, False)
      else if kr_phase s = BT_MESH_KR_NORMAL then subnet_find_loop C net_id flags iv auth (n + 1) ss
      else if auth_match C (keys1 s) net_id flags iv auth then Some (n, True)
      else subnet_find_loop C net_id flags iv auth (n + 1) ss)"

definition bt_mesh_subnet_find :: "crypto_lib \<Rightarrow> byte list \<Rightarrow> u8 \<Rightarrow> u32 \<Rightarrow> byte list \<Rightarrow> 'a bt_mesh_net_scheme \<Rightarrow> (nat \<times> bool) option" where
  "bt_mesh_subnet_find C net_id flags iv auth st = subnet_find_loop C net_id flags iv auth 0 (sub st)"

definition cache_check :: "byte list \<Rightarrow> 'a bt_mesh_net_scheme \<Rightarrow> nat option" where
  "cache_check data st = find_index (\<lambda>s. net_idx s \<noteq> BT_MESH_KEY_UNUSED \<and> beacon_cache s = take 21 data) (sub st)"

definition cache_add :: "byte list \<Rightarrow> nat \<Rightarrow> 'a bt_mesh_net_scheme \<Rightarrow> 'a bt_mesh_net_scheme" where
  "cache_add data i st = upd_sub i (\<lambda>s. s\<lparr>beacon_cache := take 21 data\<rparr>) st"

definition beacon_stats :: "mesh_env \<Rightarrow> nat \<Rightarrow> 'a bt_mesh_net_scheme \<Rightarrow> 'a bt_mesh_net_scheme" where
  "beacon_stats E i st =
     (if beacon_enabled E \<and> beacons_cur (sub st ! i) < 0xff then upd_sub i (\<lambda>s. s\<lparr>beacons_cur := beacons_cur s + 1\<rparr>) st else st)"

definition secure_beacon_recv :: "crypto_lib \<Rightarrow> mesh_env \<Rightarrow> 64 word \<Rightarrow> byte list \<Rightarrow> 'a bt_mesh_net_scheme \<Rightarrow> 'a bt_mesh_net_scheme" where
  "secure_beacon_recv C E now buf st =
     (if length buf < 21 then st
      else case cache_check buf st of
        Some i \<Rightarrow> beacon_stats E i st
      | None \<Rightarrow>
          let flags = buf ! 0; net_id = take 8 (drop 1 buf); iv = sys_get_be32 (drop 9 buf); auth = drop 13 buf in
          (case bt_mesh_subnet_find C net_id flags iv auth st of
             None \<Rightarrow> st
           | Some (i, new_key) \<Rightarrow>
               if kr_phase (sub st ! i) = BT_MESH_KR_PHASE_2 \<and> \<not> new_key then st
               else
                 let st = cache_add buf i st in
                 if bt_mesh_subnet_get BT_MESH_KEY_PRIMARY st \<noteq> None \<and> net_idx (sub st ! i) \<noteq> BT_MESH_KEY_PRIMARY
                 then beacon_stats E i st
                 else
                   let st = (if ivu_initiator st \<and> iv_update st = BT_MESH_IV_UPDATE flags
                             then bt_mesh_beacon_ivu_initiator False st else st)
                   in case bt_mesh_net_iv_update C E now iv (BT_MESH_IV_UPDATE flags) st of
                        (iv_change, st) \<Rightarrow>
                          (case bt_mesh_kr_update i (BT_MESH_KEY_REFRESH flags) new_key st of
                             (kr_change, st) \<Rightarrow>
                               let st = (if kr_change then bt_mesh_net_beacon_update C i st else st);
                                   st = (if iv_change then bt_mesh_net_sec_update E None st
                                         else if kr_change then bt_mesh_net_sec_update E (Some i) st else st)
                               in beacon_stats E i st)))"

definition bt_mesh_beacon_recv :: "crypto_lib \<Rightarrow> mesh_env \<Rightarrow> 64 word \<Rightarrow> byte list \<Rightarrow> 'a bt_mesh_net_scheme \<Rightarrow> 'a bt_mesh_net_scheme" where
  "bt_mesh_beacon_recv C E now buf st =
     (case buf of
        [] \<Rightarrow> st
      | ty # rest \<Rightarrow> if ty = 0x01 then secure_beacon_recv C E now rest st else st)"

text \<open>The beacon that this node sends.\<close>

definition bt_mesh_beacon_create :: "nat \<Rightarrow> 'a bt_mesh_net_scheme \<Rightarrow> byte list" where
  "bt_mesh_beacon_create i st =
     (let s = sub st ! i; flags = bt_mesh_net_flags (Some s) st
      in 0x01 # flags # take 8 (sk_net_id (keys0 s)) @ sys_put_be32 (iv_index st) @ take 8 (sub_auth s))"

end
