(* ===== verification/Mesh_Trans.thy ===== *)
theory Mesh_Trans
  imports Mesh_Net
begin

text \<open>
  The transport layer of the mesh stack (\<^verbatim>\<open>bt_mesh/src/transport.c\<close>): replay protection, encryption with application keys,
  segmentation, acknowledgement and reassembly, without the friend and low-power features.  The state \<open>mesh_state\<close> adds the static variables of \<^verbatim>\<open>transport.c\<close>
  to the state of the network layer; \<open>delivered\<close> records the calls of \<^verbatim>\<open>bt_mesh_model_recv\<close>,
  \<open>heartbeats\<close> those of \<^verbatim>\<open>bt_mesh_heartbeat\<close> and \<open>tx_ends\<close> those of the callback of a sender.
\<close>

section \<open>State\<close>

abbreviation (input) BT_MESH_KEY_DEV :: u16 where "BT_MESH_KEY_DEV \<equiv> 0xfffe"
abbreviation (input) BT_MESH_TX_SEG_COUNT :: nat where "BT_MESH_TX_SEG_COUNT \<equiv> 8"
abbreviation (input) BT_MESH_TX_SDU_MAX :: nat where "BT_MESH_TX_SDU_MAX \<equiv> 8 * 12"
abbreviation (input) BT_MESH_ADV_DATA_SIZE :: nat where "BT_MESH_ADV_DATA_SIZE \<equiv> 29"
abbreviation (input) BT_MESH_NET_HDR_LEN :: nat where "BT_MESH_NET_HDR_LEN \<equiv> 9"
abbreviation (input) SEG_RETRANSMIT_ATTEMPTS :: u8 where "SEG_RETRANSMIT_ATTEMPTS \<equiv> 1"
abbreviation (input) TRANS_CTL_OP_ACK :: u8 where "TRANS_CTL_OP_ACK \<equiv> 0x00"
abbreviation (input) TRANS_CTL_OP_HEARTBEAT :: u8 where "TRANS_CTL_OP_HEARTBEAT \<equiv> 0x0a"

text \<open>A segment that waits for its acknowledgement: the advertising buffer with its number of attempts.\<close>

record adv_seg =
  seg_pdu :: "byte list"
  attempts :: u8
  busy :: bool

record seg_tx =
  stx_sub :: "nat option"
  stx_seg :: "adv_seg option list"
  stx_seq_auth :: u64
  stx_dst :: u16
  stx_seg_n :: nat
  stx_new_key :: bool
  nack_count :: nat
  stx_cb :: bool
  stx_retransmit :: bool

text \<open>\<open>srx_ack\<close> is the time of the delayed work \<^verbatim>\<open>ack\<close>, if it is submitted; \<open>buf_data\<close> is the array of \<^verbatim>\<open>CONFIG_BT_MESH_RX_SDU_MAX\<close> bytes.\<close>

record seg_rx =
  srx_sub :: nat
  srx_seq_auth :: u64
  srx_seg_n :: nat
  srx_ctl :: bool
  in_use :: bool
  obo :: bool
  srx_hdr :: u8
  srx_ttl :: u8
  srx_src :: u16
  srx_dst :: u16
  block :: u32
  srx_last :: u32
  srx_ack :: "nat option"
  buf_len :: nat
  buf_data :: "byte list"

record mesh_state = bt_mesh_net +
  dev_key :: "byte list"
  seg_txs :: "seg_tx list"
  seg_rxs :: "seg_rx list"
  hb_sub_dst :: u16
  delivered :: "(bt_mesh_net_rx \<times> byte list) list"
  heartbeats :: "(u16 \<times> u16 \<times> u8 \<times> u16) list"
  tx_ends :: "(nat \<times> mesh_err option) list"

definition upd_tx :: "nat \<Rightarrow> (seg_tx \<Rightarrow> seg_tx) \<Rightarrow> mesh_state \<Rightarrow> mesh_state" where
  "upd_tx i f st = st\<lparr>seg_txs := (seg_txs st)[i := f (seg_txs st ! i)]\<rparr>"

definition upd_rx :: "nat \<Rightarrow> (seg_rx \<Rightarrow> seg_rx) \<Rightarrow> mesh_state \<Rightarrow> mesh_state" where
  "upd_rx i f st = st\<lparr>seg_rxs := (seg_rxs st)[i := f (seg_rxs st ! i)]\<rparr>"

definition SEG :: "byte list \<Rightarrow> bool" where "SEG data = bit (data ! 0) 7"
definition AKF :: "byte \<Rightarrow> bool" where "AKF hdr = bit hdr 6"
definition AID :: "byte \<Rightarrow> byte" where "AID hdr = hdr AND 0x3f"
definition ASZMIC :: "byte list \<Rightarrow> bool" where "ASZMIC data = bit (data ! 1) 7"

definition UNSEG_HDR :: "bool \<Rightarrow> byte \<Rightarrow> byte" where
  "UNSEG_HDR akf aid = push_bit 6 (of_bool akf) OR (aid AND 0x3f)"

definition SEG_HDR :: "bool \<Rightarrow> byte \<Rightarrow> byte" where
  "SEG_HDR akf aid = UNSEG_HDR akf aid OR 0x80"

definition BLOCK_COMPLETE :: "nat \<Rightarrow> u32" where
  "BLOCK_COMPLETE seg_n = ucast (push_bit (seg_n + 1) (1 :: u64) - 1)"

definition SEQ_AUTH :: "u32 \<Rightarrow> u32 \<Rightarrow> u64" where
  "SEQ_AUTH iv sq = push_bit 24 (ucast iv) OR ucast sq"

section \<open>Sending\<close>

definition bt_mesh_tx_in_progress :: "mesh_state \<Rightarrow> bool" where
  "bt_mesh_tx_in_progress st = list_ex (\<lambda>tx. nack_count tx \<noteq> 0) (seg_txs st)"

text \<open>The environment of the network layer: a transfer is in progress when the transport layer says so.\<close>

definition with_tx :: "mesh_env \<Rightarrow> mesh_state \<Rightarrow> mesh_env" where
  "with_tx E st = E\<lparr>tx_in_progress := bt_mesh_tx_in_progress st\<rparr>"

text \<open>The payload of an advertising buffer is behind the space reserved for the network header.\<close>

definition adv_tailroom :: "byte list \<Rightarrow> nat" where
  "adv_tailroom payload = BT_MESH_ADV_DATA_SIZE - BT_MESH_NET_HDR_LEN - length payload"

definition send_unseg ::
  "crypto_lib \<Rightarrow> mesh_env \<Rightarrow> bt_mesh_net_tx \<Rightarrow> byte list \<Rightarrow> mesh_state \<Rightarrow> mesh_err option \<times> mesh_state" where
  "send_unseg C E tx sdu st =
     (if adv_bufs E = 0 then (Some ENOBUFS, st)
      else
        let payload = (if tx_app_idx tx = BT_MESH_KEY_DEV then UNSEG_HDR False 0 else UNSEG_HDR True (tx_aid tx)) # sdu in
        if BT_MESH_NET_HDR_LEN + length payload > BT_MESH_ADV_DATA_SIZE then (Some EFAULT, st)
        else case bt_mesh_net_send C E tx payload (adv_tailroom payload) st of
          (Inl e, st) \<Rightarrow> (Some e, st)
        | (Inr r, st) \<Rightarrow> (None, st))"

definition seg_tx_reset :: "crypto_lib \<Rightarrow> mesh_env \<Rightarrow> 64 word \<Rightarrow> nat \<Rightarrow> mesh_state \<Rightarrow> mesh_state" where
  "seg_tx_reset C E now i st =
     (let st = upd_tx i (\<lambda>t. t\<lparr>stx_retransmit := False, stx_cb := False, stx_seq_auth := 0, stx_sub := None,
                                 stx_dst := BT_MESH_ADDR_UNASSIGNED\<rparr>) st;
          t = seg_txs st ! i
      in if nack_count t = 0 then st
         else
           let st = upd_tx i (\<lambda>t. t\<lparr>stx_seg := replicate (stx_seg_n t + 1) None @ drop (stx_seg_n t + 1) (stx_seg t),
                                      nack_count := 0\<rparr>) st
           in if pending_update st then
                let st = st\<lparr>pending_update := False\<rparr>
                in case bt_mesh_net_iv_update C (with_tx E st) now (iv_index st) False st of
                     (True, st) \<Rightarrow> bt_mesh_net_sec_update E None st
                   | (False, st) \<Rightarrow> st
              else st)"

definition seg_tx_complete ::
  "crypto_lib \<Rightarrow> mesh_env \<Rightarrow> 64 word \<Rightarrow> nat \<Rightarrow> mesh_err option \<Rightarrow> mesh_state \<Rightarrow> mesh_state" where
  "seg_tx_complete C E now i err st =
     seg_tx_reset C E now i (if stx_cb (seg_txs st ! i) then st\<lparr>tx_ends := tx_ends st @ [(i, err)]\<rparr> else st)"

text \<open>The callback of the bearer when a segment has been sent.\<close>

definition seg_sent :: "crypto_lib \<Rightarrow> mesh_env \<Rightarrow> 64 word \<Rightarrow> nat \<Rightarrow> mesh_state \<Rightarrow> mesh_state" where
  "seg_sent C E now i st =
     (if \<not> BT_MESH_ADDR_IS_UNICAST (stx_dst (seg_txs st ! i)) then seg_tx_complete C E now i (Some ENOPROTOOPT) st
      else upd_tx i (\<lambda>t. t\<lparr>stx_retransmit := True\<rparr>) st)"

text \<open>The loop over the segments \<open>os\<close>.  The decrement of \<open>attempts\<close> wraps around.\<close>

fun send_unacked_loop :: "crypto_lib \<Rightarrow> mesh_env \<Rightarrow> 64 word \<Rightarrow> nat \<Rightarrow> nat list \<Rightarrow> mesh_state \<Rightarrow> mesh_state" where
  "send_unacked_loop C E now i [] st = st"
| "send_unacked_loop C E now i (k # os) st =
     (let t = seg_txs st ! i in
      case stx_seg t ! k of
        None \<Rightarrow> send_unacked_loop C E now i os st
      | Some s \<Rightarrow>
          if busy s then send_unacked_loop C E now i os st
          else
            let st = upd_tx i (\<lambda>t. t\<lparr>stx_seg := (stx_seg t)[k := Some (s\<lparr>attempts := attempts s - 1\<rparr>)]\<rparr>) st in
            if attempts s = 0 then seg_tx_complete C E now i (Some ETIMEDOUT) st
            else case stx_sub t of
              None \<Rightarrow> seg_tx_complete C E now i (Some EFAULT) st
            | Some sb \<Rightarrow>
                (case bt_mesh_net_resend C (with_tx E st) now sb (seg_pdu s) (stx_new_key t) st of
                   (Inl e, st) \<Rightarrow> seg_tx_complete C E now i (Some EIO) st
                 | (Inr p, st) \<Rightarrow>
                     send_unacked_loop C E now i os
                       (upd_tx i (\<lambda>t. t\<lparr>stx_seg := (stx_seg t)[k := Some \<lparr>seg_pdu = p, attempts = attempts s - 1, busy = True\<rparr>]\<rparr>) st)))"

definition seg_tx_send_unacked :: "crypto_lib \<Rightarrow> mesh_env \<Rightarrow> 64 word \<Rightarrow> nat \<Rightarrow> mesh_state \<Rightarrow> mesh_state" where
  "seg_tx_send_unacked C E now i st = send_unacked_loop C E now i [0..<stx_seg_n (seg_txs st ! i) + 1] st"

text \<open>The work of the retransmission timer.\<close>

definition seg_retransmit :: "crypto_lib \<Rightarrow> mesh_env \<Rightarrow> 64 word \<Rightarrow> nat \<Rightarrow> mesh_state \<Rightarrow> mesh_state" where
  "seg_retransmit C E now i st =
     seg_tx_send_unacked C E now i (upd_tx i (\<lambda>t. t\<lparr>stx_retransmit := False\<rparr>) st)"

text \<open>The header of segment \<open>k\<close>.\<close>

definition seg_header :: "byte \<Rightarrow> bool \<Rightarrow> u16 \<Rightarrow> nat \<Rightarrow> nat \<Rightarrow> byte list" where
  "seg_header hdr aszmic seq_zero k seg_n =
     [hdr,
      push_bit 7 (of_bool aszmic) OR ucast (drop_bit 6 seq_zero),
      push_bit 2 (ucast (seq_zero AND 0x3f)) OR drop_bit 3 (of_nat k),
      push_bit 5 (of_nat k AND 0x07) OR of_nat seg_n]"

text \<open>The loop over the segments of the SDU; \<open>k\<close> is the number of the next one.\<close>

function send_seg_loop ::
  "crypto_lib \<Rightarrow> mesh_env \<Rightarrow> 64 word \<Rightarrow> nat \<Rightarrow> bt_mesh_net_tx \<Rightarrow> byte \<Rightarrow> u16 \<Rightarrow> nat \<Rightarrow> nat \<Rightarrow> byte list \<Rightarrow> mesh_state \<Rightarrow>
   mesh_err option \<times> mesh_state" where
  "send_seg_loop C E now i tx hdr seq_zero seg_n k sdu st =
     (if sdu = [] then (None, st)
      else if k \<ge> adv_bufs E then (Some ENOBUFS, seg_tx_reset C E now i st)
      else
        let payload = seg_header hdr (tx_aszmic tx) seq_zero k seg_n @ take 12 sdu;
            st = upd_tx i (\<lambda>t. t\<lparr>stx_seg := (stx_seg t)[k := Some \<lparr>seg_pdu = payload, attempts = SEG_RETRANSMIT_ATTEMPTS, busy = False\<rparr>]\<rparr>) st
        in case bt_mesh_net_send C E tx payload (adv_tailroom payload) st of
             (Inl e, st) \<Rightarrow> (Some e, seg_tx_reset C E now i st)
           | (Inr (p, how), st) \<Rightarrow>
               let st = upd_tx i (\<lambda>t. t\<lparr>stx_seg := (stx_seg t)[k := Some \<lparr>seg_pdu = p, attempts = SEG_RETRANSMIT_ATTEMPTS, busy = (how = Queued)\<rparr>]\<rparr>) st;
                   st = (if how = Completed then seg_sent C E now i st else st)
               in send_seg_loop C E now i tx hdr seq_zero seg_n (k + 1) (drop 12 sdu) st)"
  by auto
termination by (relation "measure (\<lambda>(C, E, now, i, tx, hdr, seq_zero, seg_n, k, sdu, st). length sdu)") auto

declare send_seg_loop.simps [simp del]

definition send_seg ::
  "crypto_lib \<Rightarrow> mesh_env \<Rightarrow> 64 word \<Rightarrow> bt_mesh_net_tx \<Rightarrow> byte list \<Rightarrow> bool \<Rightarrow> mesh_state \<Rightarrow> mesh_err option \<times> mesh_state" where
  "send_seg C E now tx sdu cb st =
     (if length sdu < 1 then (Some EINVAL, st)
      else if length sdu > BT_MESH_TX_SDU_MAX then (Some EMSGSIZE, st)
      else case find_index (\<lambda>t. nack_count t = 0) (seg_txs st) of
        None \<Rightarrow> (Some EBUSY, st)
      | Some i \<Rightarrow>
          let hdr = (if tx_app_idx tx = BT_MESH_KEY_DEV then SEG_HDR False 0 else SEG_HDR True (tx_aid tx));
              seg_n = (length sdu - 1) div 12;
              seq_auth = SEQ_AUTH (BT_MESH_NET_IVI_TX st) (ucast (seq st));
              st = upd_tx i (\<lambda>t. t\<lparr>stx_dst := tx_addr tx, stx_seg_n := seg_n, nack_count := seg_n + 1, stx_seq_auth := seq_auth,
                                     stx_sub := Some (tx_sub tx), stx_new_key := kr_flag (sub st ! tx_sub tx), stx_cb := cb\<rparr>) st
          in send_seg_loop C E now i tx hdr (ucast (seq_auth AND 0x1fff)) seg_n 0 sdu st)"

definition bt_mesh_app_key_find :: "u16 \<Rightarrow> 'a bt_mesh_net_scheme \<Rightarrow> bt_mesh_app_key option" where
  "bt_mesh_app_key_find idx st = find (\<lambda>k. ak_net_idx k \<noteq> BT_MESH_KEY_UNUSED \<and> ak_app_idx k = idx) (app_keys st)"

text \<open>The key and its identifier with which a message is encrypted.\<close>

definition trans_key :: "bt_mesh_net_tx \<Rightarrow> mesh_state \<Rightarrow> (byte list \<times> u8) option" where
  "trans_key tx st =
     (if tx_app_idx tx = BT_MESH_KEY_DEV then Some (dev_key st, 0)
      else map_option
        (\<lambda>k. let (aid, key) = (if kr_phase (sub st ! tx_sub tx) = BT_MESH_KR_PHASE_2 \<and> ak_updated k then ak_key1 k else ak_key0 k)
             in (key, aid))
        (bt_mesh_app_key_find (tx_app_idx tx) st))"

definition bt_mesh_trans_send ::
  "crypto_lib \<Rightarrow> mesh_env \<Rightarrow> 64 word \<Rightarrow> bt_mesh_net_tx \<Rightarrow> byte list \<Rightarrow> nat \<Rightarrow> bool \<Rightarrow> mesh_state \<Rightarrow> mesh_err option \<times> mesh_state" where
  "bt_mesh_trans_send C E now tx msg tailroom cb st =
     (if tailroom < 4 then (Some EINVAL, st)
      else
        let tx = (if length msg > 11 then tx\<lparr>tx_send_rel := True\<rparr> else tx) in
        case trans_key tx st of
          None \<Rightarrow> (Some EINVAL, st)
        | Some (key, aid) \<Rightarrow>
            let tx = tx\<lparr>tx_aid := aid, tx_aszmic := tx_send_rel tx \<and> \<not> tailroom < 8\<rparr>;
                ad = (if BT_MESH_ADDR_IS_VIRTUAL (tx_addr tx) then label_uuid_get E (tx_addr tx) else None)
            in case bt_mesh_app_encrypt C key (tx_app_idx tx = BT_MESH_KEY_DEV) (tx_aszmic tx) msg ad (tx_src tx) (tx_addr tx)
                      (ucast (seq st)) (BT_MESH_NET_IVI_TX st) of
                 Inl e \<Rightarrow> (Some e, st)
               | Inr sdu \<Rightarrow> if tx_send_rel tx then send_seg C E now tx sdu cb st else send_unseg C E tx sdu st)"

section \<open>Replay protection\<close>

text \<open>The loop over the list; \<open>None\<close> when it is full and has no entry of the source.\<close>

fun rpl_loop :: "bt_mesh_net_rx \<Rightarrow> bt_mesh_rpl list \<Rightarrow> (bool \<times> bt_mesh_rpl list) option" where
  "rpl_loop rx [] = None"
| "rpl_loop rx (r # rs) =
     (if rpl_src r = 0 then Some (False, \<lparr>rpl_src = rx_addr rx, rpl_old_iv = rx_old_iv rx, rpl_seq = rx_seq rx\<rparr> # rs)
      else if rpl_src r = rx_addr rx then
        if rx_old_iv rx \<and> \<not> rpl_old_iv r then Some (True, r # rs)
        else if \<not> rx_old_iv rx \<and> rpl_old_iv r \<or> rpl_seq r < rx_seq rx
             then Some (False, r\<lparr>rpl_seq := rx_seq rx, rpl_old_iv := rx_old_iv rx\<rparr> # rs)
        else Some (True, r # rs)
      else map_option (apsnd (Cons r)) (rpl_loop rx rs))"

definition is_replay :: "bt_mesh_net_rx \<Rightarrow> 'a bt_mesh_net_scheme \<Rightarrow> bool \<times> 'a bt_mesh_net_scheme" where
  "is_replay rx st =
     (case rpl_loop rx (rpl st) of
        Some (b, l) \<Rightarrow> (b, st\<lparr>rpl := l\<rparr>)
      | None \<Rightarrow>
          (False, st\<lparr>rpl := (rpl st)[rpl_index st := \<lparr>rpl_src = rx_addr rx, rpl_old_iv = rx_old_iv rx, rpl_seq = rx_seq rx\<rparr>],
                     rpl_index := (rpl_index st + 1) mod 256 mod length (rpl st)\<rparr>))"

section \<open>Receiving\<close>

definition model_recv :: "bt_mesh_net_rx \<Rightarrow> byte list \<Rightarrow> mesh_state \<Rightarrow> mesh_state" where
  "model_recv rx sdu st = st\<lparr>delivered := delivered st @ [(rx, sdu)]\<rparr>"

fun app_key_loop ::
  "crypto_lib \<Rightarrow> bt_mesh_net_rx \<Rightarrow> byte \<Rightarrow> bool \<Rightarrow> byte list \<Rightarrow> nat \<Rightarrow> byte list option \<Rightarrow> u32 \<Rightarrow> u16 \<Rightarrow> bt_mesh_app_key list \<Rightarrow>
   (u16 \<times> byte list) option" where
  "app_key_loop C rx hdr aszmic buf len ad iv nidx [] = None"
| "app_key_loop C rx hdr aszmic buf len ad iv nidx (k # ks) =
     (let (aid, key) = (if rx_new_key rx \<and> ak_updated k then ak_key1 k else ak_key0 k) in
      if ak_net_idx k \<noteq> nidx \<or> AID hdr \<noteq> aid then app_key_loop C rx hdr aszmic buf len ad iv nidx ks
      else case bt_mesh_app_decrypt C key False aszmic buf len ad (rx_addr rx) (rx_dst rx) (rx_seq rx) iv of
        Inl e \<Rightarrow> app_key_loop C rx hdr aszmic buf len ad iv nidx ks
      | Inr sdu \<Rightarrow> Some (ak_app_idx k, sdu))"

definition sdu_recv ::
  "crypto_lib \<Rightarrow> mesh_env \<Rightarrow> bt_mesh_net_rx \<Rightarrow> byte \<Rightarrow> bool \<Rightarrow> byte list \<Rightarrow> mesh_state \<Rightarrow> mesh_err option \<times> mesh_state" where
  "sdu_recv C E rx hdr aszmic buf st =
     (if length buf < 1 + APP_MIC_LEN aszmic then (Some EINVAL, st)
      else
        let ad = (if BT_MESH_ADDR_IS_VIRTUAL (rx_dst rx) then label_uuid_get E (rx_dst rx) else None);
            len = length buf - APP_MIC_LEN aszmic;
            iv = BT_MESH_NET_IVI_RX st rx
        in if \<not> AKF hdr then
             case bt_mesh_app_decrypt C (dev_key st) True aszmic buf len ad (rx_addr rx) (rx_dst rx) (rx_seq rx) iv of
               Inl e \<Rightarrow> (Some EINVAL, st)
             | Inr sdu \<Rightarrow> (None, model_recv (rx\<lparr>rx_app_idx := BT_MESH_KEY_DEV\<rparr>) sdu st)
           else
             case app_key_loop C rx hdr aszmic buf len ad iv (net_idx (sub st ! rx_sub rx)) (app_keys st) of
               None \<Rightarrow> (Some EINVAL, st)
             | Some (idx, sdu) \<Rightarrow> (None, model_recv (rx\<lparr>rx_app_idx := idx\<rparr>) sdu st))"

text \<open>The result is the index of the context; the address of the context may change.\<close>

fun seg_tx_lookup :: "u16 \<Rightarrow> bool \<Rightarrow> u16 \<Rightarrow> seg_tx list \<Rightarrow> (nat \<times> seg_tx list) option" where
  "seg_tx_lookup seq_zero ob addr [] = None"
| "seg_tx_lookup seq_zero ob addr (t # ts) =
     (if ucast (stx_seq_auth t AND 0x1fff) \<noteq> seq_zero then map_option (map_prod Suc (Cons t)) (seg_tx_lookup seq_zero ob addr ts)
      else if stx_dst t = addr then Some (0, t # ts)
      else if ob \<and> nack_count t = stx_seg_n t + 1 then Some (0, t\<lparr>stx_dst := addr\<rparr> # ts)
      else map_option (map_prod Suc (Cons t)) (seg_tx_lookup seq_zero ob addr ts))"

text \<open>The loops of \<open>find_msb_set\<close> and \<open>find_lsb_set\<close> end after at most 32 shifts, since the argument is not 0.\<close>

fun msb_loop :: "nat \<Rightarrow> nat \<Rightarrow> u32 \<Rightarrow> u32 \<Rightarrow> nat" where
  "msb_loop 0 n msk data = 32 - n"
| "msb_loop (Suc k) n msk data = (if data AND msk = 0 then msb_loop k (n + 1) (drop_bit 1 msk) data else 32 - n)"

definition find_msb_set :: "u32 \<Rightarrow> nat" where
  "find_msb_set data = (if data = 0 then 0 else msb_loop 32 0 0x80000000 data)"

fun lsb_loop :: "nat \<Rightarrow> nat \<Rightarrow> u32 \<Rightarrow> u32 \<Rightarrow> nat" where
  "lsb_loop 0 n msk data = n"
| "lsb_loop (Suc k) n msk data = (if data AND msk = 0 then lsb_loop k (n + 1) (push_bit 1 msk) data else n)"

definition find_lsb_set :: "u32 \<Rightarrow> nat" where
  "find_lsb_set data = (if data = 0 then 0 else lsb_loop 32 1 1 data)"

text \<open>One round of the loop over the bits of an acknowledgement, and the loop, which ends after at most 32 rounds.\<close>

definition ack_segment :: "nat \<Rightarrow> seg_tx \<Rightarrow> seg_tx" where
  "ack_segment k t = (if stx_seg t ! k \<noteq> None then t\<lparr>stx_seg := (stx_seg t)[k := None], nack_count := nack_count t - 1\<rparr> else t)"

fun ack_loop :: "nat \<Rightarrow> u32 \<Rightarrow> seg_tx \<Rightarrow> seg_tx" where
  "ack_loop 0 ack t = t"
| "ack_loop (Suc n) ack t =
     (let b = find_lsb_set ack in
      if b = 0 then t else ack_loop n (ack AND NOT (push_bit (b - 1) 1)) (ack_segment (b - 1) t))"

definition trans_ack ::
  "crypto_lib \<Rightarrow> mesh_env \<Rightarrow> 64 word \<Rightarrow> bt_mesh_net_rx \<Rightarrow> byte list \<Rightarrow> mesh_state \<Rightarrow> mesh_err option \<times> mesh_state" where
  "trans_ack C E now rx buf st =
     (if length buf < 6 then (Some EINVAL, st)
      else
        let w = sys_get_be16 buf; ob = bit w 15; seq_zero = drop_bit 2 w AND 0x1fff; ack = sys_get_be32 (drop 2 buf) in
        case seg_tx_lookup seq_zero ob (rx_addr rx) (seg_txs st) of
          None \<Rightarrow> (Some EINVAL, st)
        | Some (i, ts) \<Rightarrow>
            let st = st\<lparr>seg_txs := ts\<rparr> in
            if ack = 0 then (None, seg_tx_complete C E now i (Some ECANCELED) st)
            else if find_msb_set ack - 1 > stx_seg_n (seg_txs st ! i) then (Some EINVAL, st)
            else
              let st = upd_tx i (\<lambda>t. ack_loop 32 ack (t\<lparr>stx_retransmit := False\<rparr>)) st
              in (None, if nack_count (seg_txs st ! i) \<noteq> 0 then seg_tx_send_unacked C E now i st
                        else seg_tx_complete C E now i None st))"

definition trans_heartbeat :: "bt_mesh_net_rx \<Rightarrow> byte list \<Rightarrow> mesh_state \<Rightarrow> mesh_err option \<times> mesh_state" where
  "trans_heartbeat rx buf st =
     (if length buf < 3 then (Some EINVAL, st)
      else if rx_dst rx \<noteq> hb_sub_dst st then (None, st)
      else
        let init_ttl = buf ! 0 AND 0x7f; feat = sys_get_be16 (drop 1 buf); hops = init_ttl - rx_recv_ttl rx + 1
        in (None, st\<lparr>heartbeats := heartbeats st @ [(rx_addr rx, rx_dst rx, hops, feat)]\<rparr>))"

definition ctl_recv ::
  "crypto_lib \<Rightarrow> mesh_env \<Rightarrow> 64 word \<Rightarrow> bt_mesh_net_rx \<Rightarrow> byte \<Rightarrow> byte list \<Rightarrow> mesh_state \<Rightarrow> mesh_err option \<times> mesh_state" where
  "ctl_recv C E now rx hdr buf st =
     (let ctl_op = hdr AND 0x7f in
      if ctl_op = TRANS_CTL_OP_ACK then trans_ack C E now rx buf st
      else if ctl_op = TRANS_CTL_OP_HEARTBEAT then trans_heartbeat rx buf st
      else if \<not> rx_local_match rx then (None, st)
      else (Some ENOENT, st))"

definition trans_unseg ::
  "crypto_lib \<Rightarrow> mesh_env \<Rightarrow> 64 word \<Rightarrow> byte list \<Rightarrow> bt_mesh_net_rx \<Rightarrow> mesh_state \<Rightarrow> mesh_err option \<times> mesh_state" where
  "trans_unseg C E now buf rx st =
     (if length buf < 1 then (Some EINVAL, st)
      else case (if rx_local_match rx then is_replay rx st else (False, st)) of
        (True, st) \<Rightarrow> (Some EINVAL, st)
      | (False, st) \<Rightarrow>
          let hdr = buf ! 0; buf = drop 1 buf in
          if rx_ctl rx then ctl_recv C E now rx hdr buf st
          else if \<not> rx_local_match rx \<and> \<not> rx_friend_match rx then (None, st)
          else sdu_recv C E rx hdr False buf st)"

definition ack_timeout :: "seg_rx \<Rightarrow> nat" where
  "ack_timeout rx =
     (let to = 150 + 50 * unat (srx_ttl rx) + (srx_seg_n rx + 1 - length (filter (bit (block rx)) [0..<32])) * 100 in max to 400)"

definition bt_mesh_ctl_send ::
  "crypto_lib \<Rightarrow> mesh_env \<Rightarrow> bt_mesh_net_tx \<Rightarrow> u8 \<Rightarrow> byte list \<Rightarrow> mesh_state \<Rightarrow> mesh_err option \<times> mesh_state" where
  "bt_mesh_ctl_send C E tx ctl_op data st =
     (if adv_bufs E = 0 then (Some ENOBUFS, st)
      else
        let payload = (ctl_op AND 0x7f) # data in
        if BT_MESH_NET_HDR_LEN + length payload > BT_MESH_ADV_DATA_SIZE then (Some EFAULT, st)
        else case bt_mesh_net_send C E tx payload (adv_tailroom payload) st of
          (Inl e, st) \<Rightarrow> (Some e, st)
        | (Inr r, st) \<Rightarrow> (None, st))"

definition send_ack ::
  "crypto_lib \<Rightarrow> mesh_env \<Rightarrow> nat \<Rightarrow> u16 \<Rightarrow> u16 \<Rightarrow> u8 \<Rightarrow> u64 \<Rightarrow> u32 \<Rightarrow> bool \<Rightarrow> mesh_state \<Rightarrow> mesh_state" where
  "send_ack C E sb src dst ttl seq_auth blk ob st =
     (let tx = \<lparr>tx_sub = sb, tx_app_idx = BT_MESH_KEY_UNUSED, tx_addr = dst, tx_ttl = ttl, tx_send_rel = False,
                tx_src = (if ob then primary_addr E else src), tx_aszmic = False, tx_aid = 0\<rparr>;
          seq_zero = ucast (seq_auth AND 0x1fff) :: u16
      in if \<not> BT_MESH_ADDR_IS_UNICAST src then st
         else snd (bt_mesh_ctl_send C E tx TRANS_CTL_OP_ACK
                (sys_put_be16 ((push_bit 2 seq_zero AND 0x7ffc) OR push_bit 15 (of_bool ob)) @ sys_put_be32 blk) st))"

definition seg_rx_reset :: "seg_rx \<Rightarrow> seg_rx" where
  "seg_rx_reset rx = rx\<lparr>srx_ack := None, in_use := False\<rparr>"

text \<open>The work of the acknowledgement timer.\<close>

definition seg_ack :: "crypto_lib \<Rightarrow> mesh_env \<Rightarrow> 64 word \<Rightarrow> nat \<Rightarrow> mesh_state \<Rightarrow> mesh_state" where
  "seg_ack C E now i st =
     (let st = upd_rx i (\<lambda>r. r\<lparr>srx_ack := None\<rparr>) st; rx = seg_rxs st ! i in
      if ucast now - srx_last rx > 60 * 1000 then
        upd_rx i seg_rx_reset (send_ack C E (srx_sub rx) (srx_dst rx) (srx_src rx) (srx_ttl rx) (srx_seq_auth rx) 0 (obo rx) st)
      else
        upd_rx i (\<lambda>r. r\<lparr>srx_ack := Some (ack_timeout r)\<rparr>)
          (send_ack C E (srx_sub rx) (srx_dst rx) (srx_src rx) (srx_ttl rx) (srx_seq_auth rx) (block rx) (obo rx) st))"

definition seg_len :: "bool \<Rightarrow> nat" where
  "seg_len ctl = (if ctl then 8 else 12)"

definition sdu_len_is_ok :: "mesh_env \<Rightarrow> bool \<Rightarrow> nat \<Rightarrow> bool" where
  "sdu_len_is_ok E ctl seg_n \<longleftrightarrow> seg_n * seg_len ctl + 1 \<le> rx_sdu_max E"

text \<open>The result is the index of the context, if any, and the contexts: a context of another SDU is given up.\<close>

fun seg_rx_find :: "bt_mesh_net_rx \<Rightarrow> u64 \<Rightarrow> seg_rx list \<Rightarrow> nat option \<times> seg_rx list" where
  "seg_rx_find net_rx seq_auth [] = (None, [])"
| "seg_rx_find net_rx seq_auth (r # rs) =
     (if srx_src r \<noteq> rx_addr net_rx \<or> srx_dst r \<noteq> rx_dst net_rx
      then map_prod (map_option Suc) (Cons r) (seg_rx_find net_rx seq_auth rs)
      else if srx_seq_auth r = seq_auth then (Some 0, r # rs)
      else if in_use r then (None, seg_rx_reset r # rs)
      else map_prod (map_option Suc) (Cons r) (seg_rx_find net_rx seq_auth rs))"

definition seg_rx_is_valid :: "seg_rx \<Rightarrow> bt_mesh_net_rx \<Rightarrow> byte \<Rightarrow> nat \<Rightarrow> bool" where
  "seg_rx_is_valid rx net_rx hdr seg_n \<longleftrightarrow>
     srx_hdr rx = hdr \<and> srx_seg_n rx = seg_n \<and> srx_src rx = rx_addr net_rx \<and> srx_dst rx = rx_dst net_rx \<and> srx_ctl rx = rx_ctl net_rx"

definition seg_rx_alloc :: "bt_mesh_net_rx \<Rightarrow> byte \<Rightarrow> u64 \<Rightarrow> nat \<Rightarrow> seg_rx list \<Rightarrow> (nat \<times> seg_rx list) option" where
  "seg_rx_alloc net_rx hdr seq_auth seg_n rs =
     map_option
       (\<lambda>i. (i, rs[i := (rs ! i)\<lparr>in_use := True, buf_len := 0, srx_sub := rx_sub net_rx, srx_ctl := rx_ctl net_rx,
                                 srx_seq_auth := seq_auth, srx_seg_n := seg_n, srx_hdr := hdr, srx_ttl := rx_send_ttl net_rx,
                                 srx_src := rx_addr net_rx, srx_dst := rx_dst net_rx, block := 0\<rparr>]))
       (find_index (\<lambda>r. \<not> in_use r) rs)"

text \<open>The code behind the label \<^verbatim>\<open>found_rx\<close>; \<open>i\<close> is the index of the context and \<open>data\<close> the segment.\<close>

definition found_rx ::
  "crypto_lib \<Rightarrow> mesh_env \<Rightarrow> 64 word \<Rightarrow> nat \<Rightarrow> byte \<Rightarrow> bool \<Rightarrow> nat \<Rightarrow> nat \<Rightarrow> byte list \<Rightarrow> u64 \<Rightarrow> bt_mesh_net_rx \<Rightarrow> mesh_state \<Rightarrow>
   mesh_err option \<times> bt_mesh_net_rx \<times> mesh_state" where
  "found_rx C E now i hdr aszmic seg_o seg_n data seq_auth net_rx st =
     (let rx = seg_rxs st ! i; ofs = seg_o * seg_len (srx_ctl rx); len' = seg_n * seg_len (srx_ctl rx) + length data in
      if bit (block rx) seg_o then (Some EALREADY, net_rx, st)
      else if seg_o = seg_n \<and> len' > rx_sdu_max E then
        (Some EMSGSIZE, net_rx,
         upd_rx i seg_rx_reset
           (send_ack C E (rx_sub net_rx) (rx_dst net_rx) (rx_addr net_rx) (rx_send_ttl net_rx) seq_auth 0 (obo rx)
             (upd_rx i (\<lambda>r. r\<lparr>buf_len := len'\<rparr>) st)))
      else if seg_o \<noteq> seg_n \<and> length data \<noteq> seg_len (srx_ctl rx) then (Some EINVAL, net_rx, st)
      else if ofs + length data > length (buf_data rx) then (Some EFAULT, net_rx, st)
      else
        let st = upd_rx i (\<lambda>r. r\<lparr>buf_len := (if seg_o = seg_n then len' else buf_len r), srx_last := ucast now,
                                   srx_ack := (case srx_ack r of None \<Rightarrow> Some (ack_timeout r) | Some t \<Rightarrow> Some t),
                                   buf_data := take ofs (buf_data r) @ data @ drop (ofs + length data) (buf_data r),
                                   block := block r OR push_bit seg_o 1\<rparr>) st
        in if block (seg_rxs st ! i) \<noteq> BLOCK_COMPLETE seg_n then (None, net_rx, st)
           else case (if rx_local_match net_rx then is_replay net_rx st else (False, st)) of
             (True, st) \<Rightarrow> (Some EINVAL, net_rx, upd_rx i (\<lambda>r. r\<lparr>block := block r AND NOT (push_bit seg_o 1)\<rparr>) st)
           | (False, st) \<Rightarrow>
               let rx = seg_rxs st ! i;
                   net_rx = (if \<not> rx_friend_match net_rx then net_rx\<lparr>rx_seq := ucast (srx_seq_auth rx AND 0xffffff)\<rparr> else net_rx);
                   st = send_ack C E (rx_sub net_rx) (rx_dst net_rx) (rx_addr net_rx) (rx_send_ttl net_rx) seq_auth (block rx) (obo rx)
                          (upd_rx i (\<lambda>r. r\<lparr>srx_ack := None\<rparr>) st);
                   sdu = take (buf_len rx) (buf_data rx)
               in case (if rx_ctl net_rx then ctl_recv C E now net_rx hdr sdu st else sdu_recv C E net_rx hdr aszmic sdu st) of
                    (err, st) \<Rightarrow> (err, net_rx, upd_rx i seg_rx_reset st))"

definition trans_seg ::
  "crypto_lib \<Rightarrow> mesh_env \<Rightarrow> 64 word \<Rightarrow> byte list \<Rightarrow> bt_mesh_net_rx \<Rightarrow> mesh_state \<Rightarrow> mesh_err option \<times> bt_mesh_net_rx \<times> mesh_state" where
  "trans_seg C E now buf net_rx st =
     (if length buf < 5 then (Some EINVAL, net_rx, st)
      else
        let hdr = buf ! 0; aszmic = ASZMIC buf;
            w = sys_get_be16 (drop 1 buf); s = buf ! 3; data = drop 4 buf;
            seg_o = unat (push_bit 3 (ucast (w AND 0x03)) OR drop_bit 5 s);
            seq_zero = drop_bit 2 w AND 0x1fff;
            seg_n = unat (s AND 0x1f)
        in if seg_o > seg_n then (Some EINVAL, net_rx, st)
           else
             let seq_auth = SEQ_AUTH (BT_MESH_NET_IVI_RX st net_rx) ((rx_seq net_rx AND 0xffffe000) OR ucast seq_zero) in
             case seg_rx_find net_rx seq_auth (seg_rxs st) of
               (Some i, rs) \<Rightarrow>
                 let rx = seg_rxs st ! i in
                 if \<not> seg_rx_is_valid rx net_rx hdr seg_n then (Some EINVAL, net_rx, st)
                 else if in_use rx then found_rx C E now i hdr aszmic seg_o seg_n data seq_auth net_rx st
                 else if block rx = BLOCK_COMPLETE (srx_seg_n rx) then
                   (Some EALREADY, net_rx,
                    send_ack C E (rx_sub net_rx) (rx_dst net_rx) (rx_addr net_rx) (rx_send_ttl net_rx) seq_auth (block rx) (obo rx) st)
                 else (Some EINVAL, net_rx, st)
             | (None, rs) \<Rightarrow>
                 let st = st\<lparr>seg_rxs := rs\<rparr> in
                 if \<not> sdu_len_is_ok E (rx_ctl net_rx) seg_n then
                   (Some EMSGSIZE, net_rx,
                    send_ack C E (rx_sub net_rx) (rx_dst net_rx) (rx_addr net_rx) (rx_send_ttl net_rx) seq_auth 0 (rx_friend_match net_rx) st)
                 else case seg_rx_alloc net_rx hdr seq_auth seg_n (seg_rxs st) of
                   None \<Rightarrow> (Some ENOMEM, net_rx, st)
                 | Some (i, rs) \<Rightarrow>
                     found_rx C E now i hdr aszmic seg_o seg_n data seq_auth net_rx
                       (upd_rx i (\<lambda>r. r\<lparr>obo := rx_friend_match net_rx\<rparr>) (st\<lparr>seg_rxs := rs\<rparr>)))"

definition bt_mesh_trans_recv ::
  "crypto_lib \<Rightarrow> mesh_env \<Rightarrow> 64 word \<Rightarrow> byte list \<Rightarrow> bt_mesh_net_rx \<Rightarrow> mesh_state \<Rightarrow> mesh_err option \<times> bt_mesh_net_rx \<times> mesh_state" where
  "bt_mesh_trans_recv C E now buf rx st =
     (let rx = rx\<lparr>rx_friend_match := False\<rparr>; buf = drop BT_MESH_NET_HDR_LEN buf in
      if SEG buf then
        if \<not> rx_local_match rx \<and> \<not> rx_friend_match rx then (None, rx, st)
        else trans_seg C E now buf rx st
      else case trans_unseg C E now buf rx st of (err, st) \<Rightarrow> (err, rx, st))"

definition bt_mesh_rx_reset :: "mesh_state \<Rightarrow> mesh_state" where
  "bt_mesh_rx_reset st =
     st\<lparr>seg_rxs := map (\<lambda>r. (seg_rx_reset r)\<lparr>srx_src := BT_MESH_ADDR_UNASSIGNED, srx_dst := BT_MESH_ADDR_UNASSIGNED\<rparr>) (seg_rxs st)\<rparr>"

definition bt_mesh_tx_reset :: "crypto_lib \<Rightarrow> mesh_env \<Rightarrow> 64 word \<Rightarrow> mesh_state \<Rightarrow> mesh_state" where
  "bt_mesh_tx_reset C E now st = fold (\<lambda>i st. seg_tx_reset C E now i st) [0..<length (seg_txs st)] st"

text \<open>A PDU goes through the network layer and the transport layer.\<close>

definition mesh_recv :: "crypto_lib \<Rightarrow> mesh_env \<Rightarrow> 64 word \<Rightarrow> byte list \<Rightarrow> bt_mesh_net_if \<Rightarrow> mesh_state \<Rightarrow> mesh_state" where
  "mesh_recv C E now data net_if st =
     bt_mesh_net_recv C E (\<lambda>buf rx st. snd (bt_mesh_trans_recv C E now buf rx st)) data net_if st"

end
