(* ===== verification/Mesh_Witness.thy ===== *)
theory Mesh_Witness
  imports Mesh_Trans
begin

text \<open>
  Concrete values for the witnesses of the theorems on the mesh stack: a crypto library, an environment, a
  provisioned node and messages.  With the library \<open>null_crypto\<close> a PDU is sent in clear.
\<close>

text \<open>A crypto library for the witnesses: every block and every MAC is 16 zero bytes.\<close>

definition null_crypto :: crypto_lib where
  "null_crypto = \<lparr>aes_encrypt = \<lambda>k b. Inr (replicate 16 0), aes_cmac = \<lambda>k m. Inr (replicate 16 0)\<rparr>"

lemma null_crypto_ok [simp]: "crypto_ok null_crypto"
  by (simp add: crypto_ok_def null_crypto_def)

definition quiet_env :: mesh_env where
  "quiet_env = \<lparr>relay_enabled = True, gatt_proxy_enabled = True, beacon_enabled = True, default_ttl = 7, elem_find = \<lambda>a. a = 1,
     fixed_group_match = \<lambda>a. a = 0xffff, proxy_relay = \<lambda>b a. False, adv_bufs = 8, tx_in_progress = False, primary_addr = 1,
     label_uuid_get = \<lambda>a. None, rx_sdu_max = 384\<rparr>"

definition boot_subnet :: bt_mesh_subnet where
  "boot_subnet =
     (let k = \<lparr>sk_net = replicate 16 0, sk_nid = 0, sk_enc = replicate 16 0, sk_net_id = replicate 8 0, sk_identity = replicate 16 0,
               sk_privacy = replicate 16 0, sk_beacon = replicate 16 0\<rparr>
      in \<lparr>beacon_sent = 0, beacons_last = 0, beacons_cur = 0, beacon_cache = replicate 21 0, net_idx = 0, kr_flag = False,
          kr_phase = BT_MESH_KR_NORMAL, node_id = 0, node_id_start = 0, sub_auth = replicate 8 0, subnet_active = True,
          keys0 = k, keys1 = k\<rparr>)"

definition boot_net :: bt_mesh_net where
  "boot_net = \<lparr>iv_index = 5, seq = 0, iv_update = False, ivu_initiator = False, ivu_test = False, pending_update = False, valid = True,
     last_update = 0, ivu_timer = False, app_keys = [], sub = [boot_subnet], rpl = replicate 5 zero_rpl, rpl_index = 0,
     msg_cache = replicate 10 0, msg_cache_next = 0, dup_cache = replicate 4 0, dup_cache_next = 0, provisioned = True, outbox = []\<rparr>"

definition msg_from :: "u16 \<Rightarrow> u32 \<Rightarrow> bool \<Rightarrow> bt_mesh_net_rx" where
  "msg_from a s old = zero_rx\<lparr>rx_addr := a, rx_seq := s, rx_old_iv := old\<rparr>"

definition a_tx :: bt_mesh_net_tx where
  "a_tx = \<lparr>tx_sub = 0, tx_app_idx = 0, tx_addr = 3, tx_ttl = 4, tx_send_rel = False, tx_src = 1, tx_aszmic = False, tx_aid = 0\<rparr>"


section \<open>Encryption with the null library\<close>

lemma xor_zeros: "length xs \<le> n \<Longrightarrow> xor_bytes xs (replicate n 0) = xs"
  by (rule nth_equalityI) (simp_all add: xor_bytes_nth)

lemma null_aes [simp]: "aes_encrypt null_crypto key b = Inr (replicate 16 0)"
  by (simp add: null_crypto_def)

lemma null_loop: "ccm_encrypt_loop null_crypto key nonce j Xn msg = Inr (if msg = [] then Xn else replicate 16 0, msg)"
proof (induction "length msg" arbitrary: j Xn msg rule: less_induct)
  case less
  show ?case
  proof (cases "msg = []")
    case False
    have "xor_bytes (take 16 msg) (replicate 16 0) = take 16 msg" by (rule xor_zeros) simp
    then show ?thesis
      using less.hyps [of "drop 16 msg" "j + 1" "replicate 16 0"] False by (subst ccm_encrypt_loop.simps) (simp add: Let_def)
  qed simp
qed

lemma null_ccm:
  assumes "msg \<noteq> []" and "mic \<le> 16"
  shows "bt_mesh_ccm_encrypt null_crypto key nonce msg [] mic = Inr (msg @ replicate mic 0)"
  using assms xor_zeros [of "replicate 16 0" 16]
  by (simp add: bt_mesh_ccm_encrypt_def ccm_auth_start_def null_loop min_def)

lemma null_obfuscate:
  assumes "7 \<le> length buf"
  shows "bt_mesh_net_obfuscate null_crypto buf iv key = Inr buf"
proof -
  have "xor_bytes (take 6 (drop 1 buf)) (replicate 6 0) = take 6 (drop 1 buf)" by (rule xor_zeros) simp
  moreover have "take 1 buf @ take 6 (drop 1 buf) @ drop 7 buf = buf"
    by (metis append.assoc append_take_drop_id drop_drop numeral_plus_one semiring_norm(5) add.commute semiring_norm(2) take_add)
  ultimately show ?thesis by (simp add: bt_mesh_net_obfuscate_def Let_def)
qed

lemma null_net_encrypt:
  assumes "8 \<le> length buf"
  shows "bt_mesh_net_encrypt null_crypto key buf iv proxy = Inr (buf @ replicate (NET_MIC_LEN buf) 0)"
  using assms by (simp add: bt_mesh_net_encrypt_def Let_def null_ccm NET_MIC_LEN_le append.assoc [symmetric] del: append.assoc)

end
