(* ===== verification/Mesh_Fresh.thy ===== *)
theory Mesh_Fresh
  imports Mesh_Witness
begin

text \<open>
  Freshness.  Two parts of the stack emit a stream of values that must not repeat: the replay protection accepts
  messages, each with its source, IV index and sequence number, and the network layer uses nonces to send.  The locale
  \<open>fresh_stream\<close> states what a step promises; the interpretations prove it of \<open>is_replay\<close> and
  \<open>bt_mesh_net_iv_update\<close>, and of \<open>bt_mesh_net_encode\<close>, \<open>bt_mesh_net_resend\<close> and the IV update.
\<close>

section \<open>Streams of fresh values\<close>

primrec stream_run :: "('e \<Rightarrow> 's \<Rightarrow> 'm option \<times> 's) \<Rightarrow> 'e list \<Rightarrow> 's \<Rightarrow> 'm list" where
  "stream_run step [] s = []"
| "stream_run step (e # es) s =
     (case step e s of (None, s) \<Rightarrow> stream_run step es s | (Some m, s) \<Rightarrow> m # stream_run step es s)"

primrec all_steps :: "('e \<Rightarrow> 's \<Rightarrow> bool) \<Rightarrow> ('e \<Rightarrow> 's \<Rightarrow> 'm option \<times> 's) \<Rightarrow> 'e list \<Rightarrow> 's \<Rightarrow> bool" where
  "all_steps ok step [] s = True"
| "all_steps ok step (e # es) s \<longleftrightarrow> ok e s \<and> all_steps ok step es (snd (step e s))"

locale fresh_stream =
  fixes step :: "'e \<Rightarrow> 's \<Rightarrow> 'm option \<times> 's"
    and ok :: "'e \<Rightarrow> 's \<Rightarrow> bool"
    and inv :: "'m set \<Rightarrow> 's \<Rightarrow> bool"
    and newer :: "'m \<Rightarrow> 'm \<Rightarrow> bool"
  assumes silent: "inv A s \<Longrightarrow> ok e s \<Longrightarrow> step e s = (None, s') \<Longrightarrow> inv A s'"
    and emits: "inv A s \<Longrightarrow> ok e s \<Longrightarrow> step e s = (Some m, s') \<Longrightarrow> inv (insert m A) s'"
    and fresh: "inv A s \<Longrightarrow> ok e s \<Longrightarrow> step e s = (Some m, s') \<Longrightarrow> a \<in> A \<Longrightarrow> newer a m"
begin

lemma run_fresh:
  "inv A s \<Longrightarrow> all_steps ok step es s \<Longrightarrow> sorted_wrt newer (stream_run step es s) \<and> (\<forall>a\<in>A. \<forall>m\<in>set (stream_run step es s). newer a m)"
proof (induction es arbitrary: A s)
  case (Cons e es)
  obtain o' s' where st: "step e s = (o', s')" by (cases "step e s")
  show ?case
  proof (cases o')
    case None
    then show ?thesis using Cons silent [of A s e s'] st by simp
  next
    case (Some m)
    have "inv (insert m A) s'" using emits [of A s e m s'] Cons.prems st Some by simp
    from Cons.IH [OF this] show ?thesis using Cons.prems st Some fresh [of A s e m s'] by auto
  qed
qed simp

lemma run_sorted: "inv {} s \<Longrightarrow> all_steps ok step es s \<Longrightarrow> sorted_wrt newer (stream_run step es s)"
  using run_fresh by blast

end

section \<open>Replay protection\<close>

text \<open>The absolute IV index of a message or of an entry of the list.\<close>

definition abs_iv :: "'a bt_mesh_net_scheme \<Rightarrow> bool \<Rightarrow> int" where
  "abs_iv st old = uint (iv_index st) - of_bool old"

datatype rx_event = Receive bt_mesh_net_rx | Iv_Update "64 word" u32 bool

type_synonym msg_key = "u16 \<times> int \<times> u32"

fun rx_step :: "crypto_lib \<Rightarrow> mesh_env \<Rightarrow> rx_event \<Rightarrow> 'a bt_mesh_net_scheme \<Rightarrow> msg_key option \<times> 'a bt_mesh_net_scheme" where
  "rx_step C E (Receive rx) st =
     (case is_replay rx st of
        (True, st') \<Rightarrow> (None, st')
      | (False, st') \<Rightarrow> (Some (rx_addr rx, abs_iv st (rx_old_iv rx), rx_seq rx), st'))"
| "rx_step C E (Iv_Update now iv upd) st = (None, snd (bt_mesh_net_iv_update C E now iv upd st))"

text \<open>
  The conditions under which the list protects: the source has an entry or there is an empty one; the
  IV index does not advance by one without an update in progress; and no entry is two updates old when the next update starts.
\<close>

fun rx_ok :: "rx_event \<Rightarrow> 'a bt_mesh_net_scheme \<Rightarrow> bool" where
  "rx_ok (Receive rx) st \<longleftrightarrow> rx_addr rx \<noteq> 0 \<and> list_ex (\<lambda>r. rpl_src r = rx_addr rx \<or> rpl_src r = 0) (rpl st)"
| "rx_ok (Iv_Update now iv upd) st \<longleftrightarrow>
     iv_update st \<or> iv \<noteq> iv_index st + 1 \<or> upd \<and> list_all (\<lambda>r. \<not> rpl_old_iv r) (rpl st)"

definition msg_newer :: "msg_key \<Rightarrow> msg_key \<Rightarrow> bool" where
  "msg_newer a b \<longleftrightarrow> fst a = fst b \<longrightarrow> fst (snd a) < fst (snd b) \<or> fst (snd a) = fst (snd b) \<and> snd (snd a) < snd (snd b)"

text \<open>The used entries are in front and have different sources.\<close>

definition rpl_compact :: "bt_mesh_rpl list \<Rightarrow> bool" where
  "rpl_compact l \<longleftrightarrow>
     (let us = takeWhile (\<lambda>r. rpl_src r \<noteq> 0) l in
      distinct (map rpl_src us) \<and> list_all (\<lambda>r. r = zero_rpl) (dropWhile (\<lambda>r. rpl_src r \<noteq> 0) l))"

text \<open>A message of the past is too old to be received, or an entry of its source is as new.\<close>

definition rpl_covers :: "'a bt_mesh_net_scheme \<Rightarrow> msg_key \<Rightarrow> bool" where
  "rpl_covers st m \<longleftrightarrow>
     (case m of (a, v, s) \<Rightarrow>
        v < uint (iv_index st) - 1 \<or>
        (\<exists>r\<in>set (rpl st). rpl_src r = a \<and> (v < abs_iv st (rpl_old_iv r) \<or> v = abs_iv st (rpl_old_iv r) \<and> s \<le> rpl_seq r)))"

definition rpl_inv :: "msg_key set \<Rightarrow> 'a bt_mesh_net_scheme \<Rightarrow> bool" where
  "rpl_inv A st \<longleftrightarrow> rpl_compact (rpl st) \<and> (\<forall>m\<in>A. fst m \<noteq> 0 \<and> fst (snd m) \<le> uint (iv_index st) \<and> rpl_covers st m)"


subsection \<open>One message\<close>

definition rpl_entry :: "bt_mesh_net_rx \<Rightarrow> bt_mesh_rpl" where
  "rpl_entry rx = \<lparr>rpl_src = rx_addr rx, rpl_old_iv = rx_old_iv rx, rpl_seq = rx_seq rx\<rparr>"

definition rpl_stale :: "bt_mesh_net_rx \<Rightarrow> bt_mesh_rpl \<Rightarrow> bool" where
  "rpl_stale rx r \<longleftrightarrow> rx_old_iv rx \<and> \<not> rpl_old_iv r \<or> (rx_old_iv rx = rpl_old_iv r \<and> rx_seq rx \<le> rpl_seq r)"

lemma rpl_loop_skip:
  "\<forall>r\<in>set p. rpl_src r \<noteq> 0 \<and> rpl_src r \<noteq> rx_addr rx \<Longrightarrow> rpl_loop rx (p @ l) = map_option (apsnd ((@) p)) (rpl_loop rx l)"
  by (induction p) (auto simp: option.map_comp comp_def apsnd_def map_prod_def option.map_id split: prod.splits intro!: map_option_cong)

lemma rpl_compact_iff:
  "rpl_compact l \<longleftrightarrow> (\<exists>us vs. l = us @ vs \<and> (\<forall>r\<in>set us. rpl_src r \<noteq> 0) \<and> distinct (map rpl_src us) \<and> (\<forall>r\<in>set vs. r = zero_rpl))"
  (is "_ \<longleftrightarrow> (\<exists>us vs. ?split us vs)")
proof
  assume "rpl_compact l"
  then have "?split (takeWhile (\<lambda>r. rpl_src r \<noteq> 0) l) (dropWhile (\<lambda>r. rpl_src r \<noteq> 0) l)"
    by (auto simp: rpl_compact_def Let_def list_all_iff dest: set_takeWhileD)
  then show "\<exists>us vs. ?split us vs" by blast
next
  assume "\<exists>us vs. ?split us vs"
  then obtain us vs where s: "?split us vs" by blast
  have "takeWhile (\<lambda>r. rpl_src r \<noteq> 0) vs = []" "dropWhile (\<lambda>r. rpl_src r \<noteq> 0) vs = vs"
    using s by (cases vs; simp add: zero_rpl_def)+
  then show "rpl_compact l" using s by (simp add: rpl_compact_def list_all_iff)
qed

lemma is_replay_cases:
  assumes "rpl_compact (rpl st)" and "rx_ok (Receive rx) st"
  obtains (known) us r ws where "rpl st = us @ r # ws" "rpl_src r = rx_addr rx" "\<forall>x\<in>set us \<union> set ws. rpl_src x \<noteq> rx_addr rx"
      "is_replay rx st = (if rpl_stale rx r then (True, st) else (False, st\<lparr>rpl := us @ rpl_entry rx # ws\<rparr>))"
      "rpl_compact (us @ rpl_entry rx # ws)"
    | (new) us ws where "rpl st = us @ zero_rpl # ws" "\<forall>x\<in>set (rpl st). rpl_src x \<noteq> rx_addr rx"
      "is_replay rx st = (False, st\<lparr>rpl := us @ rpl_entry rx # ws\<rparr>)" "rpl_compact (us @ rpl_entry rx # ws)"
proof -
  obtain us vs where l: "rpl st = us @ vs" "\<forall>r\<in>set us. rpl_src r \<noteq> 0" "distinct (map rpl_src us)" "\<forall>r\<in>set vs. r = zero_rpl"
    using assms(1) unfolding rpl_compact_iff by blast
  have a: "rx_addr rx \<noteq> 0" using assms(2) by simp
  show thesis
  proof (cases "rx_addr rx \<in> rpl_src ` set us")
    case True
    then obtain p r q where us: "us = p @ r # q" "rpl_src r = rx_addr rx" by (auto dest: split_list)
    have ne: "\<forall>x\<in>set p \<union> set q. rpl_src x \<noteq> rx_addr rx" using l(3) us by (auto simp: image_iff)
    have vs: "\<forall>x\<in>set vs. rpl_src x \<noteq> rx_addr rx" using l(4) a by (auto simp: zero_rpl_def)
    have nz: "\<forall>x\<in>set p. rpl_src x \<noteq> 0" using l(2) us(1) by auto
    have e: "r\<lparr>rpl_seq := rx_seq rx, rpl_old_iv := rx_old_iv rx\<rparr> = rpl_entry rx" using us(2) by (simp add: rpl_entry_def)
    have "rpl_loop rx (p @ r # q @ vs) = Some (rpl_stale rx r, p @ (if rpl_stale rx r then r else rpl_entry rx) # q @ vs)"
      using ne nz us(2) a e by (subst rpl_loop_skip) (auto simp: rpl_stale_def not_le)
    then have "is_replay rx st = (if rpl_stale rx r then (True, st) else (False, st\<lparr>rpl := p @ rpl_entry rx # q @ vs\<rparr>))"
      using l(1) us(1) by (auto simp: is_replay_def)
    moreover have "rpl_compact (p @ rpl_entry rx # q @ vs)"
      unfolding rpl_compact_iff
      using l us a by (intro exI [of _ "p @ rpl_entry rx # q"] exI [of _ vs]) (auto simp: rpl_entry_def)
    ultimately show thesis using known [of p r "q @ vs"] l(1) us ne vs by auto
  next
    case False
    then obtain ws where ws: "vs = zero_rpl # ws"
      using assms(2) l(1,2,4) a by (cases vs) (auto simp: list_ex_iff image_iff)
    have ne: "\<forall>x\<in>set us. rpl_src x \<noteq> 0 \<and> rpl_src x \<noteq> rx_addr rx" using False l(2) by (auto simp: image_iff)
    have "rpl_loop rx (us @ zero_rpl # ws) = Some (False, us @ rpl_entry rx # ws)"
      using rpl_loop_skip [OF ne] by (simp add: zero_rpl_def rpl_entry_def)
    then have "is_replay rx st = (False, st\<lparr>rpl := us @ rpl_entry rx # ws\<rparr>)" using l(1) ws by (simp add: is_replay_def)
    moreover have "rpl_compact (us @ rpl_entry rx # ws)"
      unfolding rpl_compact_iff
      using l ne ws a by (intro exI [of _ "us @ [rpl_entry rx]"] exI [of _ ws]) (auto simp: rpl_entry_def)
    moreover have "\<forall>x\<in>set (rpl st). rpl_src x \<noteq> rx_addr rx" using ne l(1,4) a by (auto simp: zero_rpl_def)
    ultimately show thesis using new [of us ws] l(1) ws by auto
  qed
qed


lemma rpl_stale_iff:
  "rpl_stale rx r \<longleftrightarrow> abs_iv st (rx_old_iv rx) < abs_iv st (rpl_old_iv r) \<or>
    abs_iv st (rx_old_iv rx) = abs_iv st (rpl_old_iv r) \<and> rx_seq rx \<le> rpl_seq r"
  by (auto simp: rpl_stale_def abs_iv_def)

lemma rpl_covers_upd:
  "rpl_covers (st\<lparr>rpl := l\<rparr>) (a, v, s) \<longleftrightarrow> v < uint (iv_index st) - 1 \<or>
     (\<exists>r\<in>set l. rpl_src r = a \<and> (v < abs_iv st (rpl_old_iv r) \<or> v = abs_iv st (rpl_old_iv r) \<and> s \<le> rpl_seq r))"
  by (simp add: rpl_covers_def abs_iv_def)

lemma is_replay_fresh:
  assumes "rpl_inv A st" and "rx_ok (Receive rx) st" and "is_replay rx st = (False, st')" and "m \<in> A"
  shows "msg_newer m (rx_addr rx, abs_iv st (rx_old_iv rx), rx_seq rx)"
proof -
  obtain a v s where m: "m = (a, v, s)" by (cases m)
  have c: "rpl_compact (rpl st)" "rpl_covers st (a, v, s)" using assms(1,4) by (auto simp: rpl_inv_def m)
  have old: "v < uint (iv_index st) - 1 \<Longrightarrow> ?thesis" by (simp add: m msg_newer_def abs_iv_def)
  from c(1) assms(2) show ?thesis
  proof (cases rule: is_replay_cases)
    case (known us r ws)
    have "\<not> rpl_stale rx r" using known(4) assms(3) by (auto split: if_splits)
    then show ?thesis
      using c(2) old known(1-3) by (auto simp: rpl_covers_def m msg_newer_def rpl_stale_iff [of rx r st])
  next
    case (new us ws)
    then show ?thesis using c(2) old by (auto simp: rpl_covers_def m msg_newer_def)
  qed
qed

lemma is_replay_accepts:
  assumes "rpl_inv A st" and "rx_ok (Receive rx) st" and "is_replay rx st = (False, st')"
  shows "rpl_inv (insert (rx_addr rx, abs_iv st (rx_old_iv rx), rx_seq rx) A) st'"
proof -
  have main: "rpl_inv (insert (rx_addr rx, abs_iv st (rx_old_iv rx), rx_seq rx) A) (st\<lparr>rpl := us @ rpl_entry rx # ws\<rparr>)"
    if l: "rpl st = us @ r # ws" "rpl_compact (us @ rpl_entry rx # ws)"
       and r: "rpl_src r = 0 \<or> rpl_src r = rx_addr rx \<and> \<not> rpl_stale rx r" for us r ws
  proof -
    have "rpl_covers (st\<lparr>rpl := us @ rpl_entry rx # ws\<rparr>) m" if "m \<in> A" for m
    proof -
      obtain a v s where m: "m = (a, v, s)" by (cases m)
      have "a \<noteq> 0" "rpl_covers st (a, v, s)" using assms(1) that by (auto simp: rpl_inv_def m)
      then show ?thesis
        using r l(1) unfolding m rpl_covers_upd by (auto simp: rpl_covers_def rpl_entry_def rpl_stale_iff [of rx r st])
    qed
    then show ?thesis
      using assms(1,2) l(2) by (auto simp: rpl_inv_def rpl_covers_upd rpl_entry_def) (auto simp: abs_iv_def)
  qed
  have "rpl_compact (rpl st)" using assms(1) by (simp add: rpl_inv_def)
  from this assms(2) show ?thesis
  proof (cases rule: is_replay_cases)
    case (known us r ws)
    then show ?thesis using main [of us r ws] assms(3) by (auto split: if_splits)
  next
    case (new us ws)
    then show ?thesis using main [of us zero_rpl ws] assms(3) by (simp add: zero_rpl_def)
  qed
qed

lemma is_replay_rejects:
  assumes "rpl_inv A st" and "rx_ok (Receive rx) st" and "is_replay rx st = (True, st')"
  shows "st' = st"
proof -
  have "rpl_compact (rpl st)" using assms(1) by (simp add: rpl_inv_def)
  from this assms(2) show ?thesis using assms(3) by (cases rule: is_replay_cases) (auto split: if_splits)
qed

subsection \<open>The IV update\<close>

lemma upd_sub_fields [simp]:
  "iv_index (upd_sub i f st) = iv_index st" "rpl (upd_sub i f st) = rpl st" "seq (upd_sub i f st) = seq st"
  "iv_update (upd_sub i f st) = iv_update st" "rpl_index (upd_sub i f st) = rpl_index st" "outbox (upd_sub i f st) = outbox st"
  by (simp_all add: upd_sub_def)

lemma beacon_update_fields [simp]:
  "iv_index (bt_mesh_net_beacon_update C i st) = iv_index st" "rpl (bt_mesh_net_beacon_update C i st) = rpl st"
  "seq (bt_mesh_net_beacon_update C i st) = seq st" "iv_update (bt_mesh_net_beacon_update C i st) = iv_update st"
  by (simp_all add: bt_mesh_net_beacon_update_def Let_def split: sum.splits)

lemma beacon_fold_fields [simp]:
  fixes st :: "'a bt_mesh_net_scheme"
  defines "f \<equiv> \<lambda>C i (st :: 'a bt_mesh_net_scheme). if net_idx (sub st ! i) \<noteq> BT_MESH_KEY_UNUSED then bt_mesh_net_beacon_update C i st else st"
  shows "iv_index (fold (f C) is st) = iv_index st" "rpl (fold (f C) is st) = rpl st"
    "seq (fold (f C) is st) = seq st" "iv_update (fold (f C) is st) = iv_update st"
  unfolding f_def by (induction "is" arbitrary: st) simp_all

lemma do_iv_update_fields [simp]:
  "iv_index (do_iv_update C now iv upd st) = (if upd then iv else iv_index st)"
  "rpl (do_iv_update C now iv upd st) = (if upd then rpl (bt_mesh_rpl_reset st) else rpl st)"
  "seq (do_iv_update C now iv upd st) = (if upd then seq st else 0)"
  "iv_update (do_iv_update C now iv upd st) = upd"
  by (simp_all add: do_iv_update_def bt_mesh_rpl_reset_def Let_def)

text \<open>What a call does to the IV index, the sequence number and the replay protection list.\<close>

lemma iv_update_cases:
  obtains (same) "iv_index (snd (bt_mesh_net_iv_update C E now iv upd st)) = iv_index st"
      "seq (snd (bt_mesh_net_iv_update C E now iv upd st)) = seq st" "rpl (snd (bt_mesh_net_iv_update C E now iv upd st)) = rpl st"
      "iv_update (snd (bt_mesh_net_iv_update C E now iv upd st)) = iv_update st"
    | (start) "\<not> iv_update st" "upd" "iv = iv_index st + 1" "iv_index st < iv"
      "bt_mesh_net_iv_update C E now iv upd st = (True, do_iv_update C now iv True st)"
    | (finish) "iv_update st" "\<not> upd" "iv = iv_index st"
      "bt_mesh_net_iv_update C E now iv upd st = (True, do_iv_update C now iv False st)"
    | (recover) "\<not> iv_update st" "iv_index st < iv" "iv \<noteq> iv_index st + 1 \<or> \<not> upd"
      "bt_mesh_net_iv_update C E now iv upd st = iv_recovery C now iv upd st"
proof (cases "iv_update st")
  case True
  then consider "bt_mesh_net_iv_update C E now iv upd st = (False, st)"
    | "bt_mesh_net_iv_update C E now iv upd st = (False, st\<lparr>pending_update := True\<rparr>)"
    | "\<not> upd" "iv = iv_index st" "bt_mesh_net_iv_update C E now iv upd st = (True, do_iv_update C now iv False st)"
    by (cases "iv = iv_index st \<and> \<not> upd"; cases "\<not> ivu_test st \<and> sint (now - last_update st) < K_HOURS_96"; cases "tx_in_progress E")
       (auto simp: bt_mesh_net_iv_update_def iv_update_allowed_def)
  then show thesis using same finish True by cases simp_all
next
  case False
  show thesis
  proof (cases "iv \<le> iv_index st \<or> iv > iv_index st + 42")
    case True
    then show thesis using False same by (auto simp: bt_mesh_net_iv_update_def)
  next
    case in_range: False
    then have lt: "iv_index st < iv" by (simp add: not_le)
    show thesis
    proof (cases "iv = iv_index st + 1 \<and> upd")
      case True
      then have "bt_mesh_net_iv_update C E now iv upd st = iv_update_allowed C E now iv True st"
        using False in_range less_not_sym [OF lt] lt by (simp add: bt_mesh_net_iv_update_def)
      then consider "bt_mesh_net_iv_update C E now iv upd st = (False, st)"
        | "bt_mesh_net_iv_update C E now iv upd st = (True, do_iv_update C now iv True st)"
        by (cases "\<not> ivu_test st \<and> sint (now - last_update st) < K_HOURS_96") (auto simp: iv_update_allowed_def)
      then show thesis using same start True False lt by cases simp_all
    next
      case rec: False
      have "iv_index st + 1 \<le> iv" using lt by (simp add: inc_le)
      then have "bt_mesh_net_iv_update C E now iv upd st = iv_recovery C now iv upd st"
        using False in_range rec lt by (auto simp: bt_mesh_net_iv_update_def)
      then show thesis using recover False lt rec by blast
    qed
  qed
qed

lemma rpl_compact_zeros [simp]: "rpl_compact (replicate n zero_rpl)"
  unfolding rpl_compact_iff by (rule exI [of _ "[]"], rule exI [of _ "replicate n zero_rpl"]) auto

lemma rpl_reset_young:
  assumes "\<forall>r\<in>set (rpl st). \<not> rpl_old_iv r"
  shows "rpl (bt_mesh_rpl_reset st) = map (\<lambda>r. if rpl_src r \<noteq> 0 then r\<lparr>rpl_old_iv := True\<rparr> else r) (rpl st)"
  using assms by (simp add: bt_mesh_rpl_reset_def)

lemma rpl_reset_compact:
  assumes "\<forall>r\<in>set (rpl st). \<not> rpl_old_iv r" and "rpl_compact (rpl st)"
  shows "rpl_compact (rpl (bt_mesh_rpl_reset st))"
proof -
  obtain us vs where l: "rpl st = us @ vs" "\<forall>r\<in>set us. rpl_src r \<noteq> 0" "distinct (map rpl_src us)" "\<forall>r\<in>set vs. r = zero_rpl"
    using assms(2) unfolding rpl_compact_iff by blast
  let ?us = "map (\<lambda>r. r\<lparr>rpl_old_iv := True\<rparr>) us"
  have "map (\<lambda>r. if rpl_src r \<noteq> 0 then r\<lparr>rpl_old_iv := True\<rparr> else r) vs = vs"
    using l(4) by (auto intro!: map_idI simp: zero_rpl_def)
  moreover have "map (\<lambda>r. if rpl_src r \<noteq> 0 then r\<lparr>rpl_old_iv := True\<rparr> else r) us = ?us" using l(2) by simp
  ultimately have "rpl (bt_mesh_rpl_reset st) = ?us @ vs" by (simp only: rpl_reset_young [OF assms(1)] l(1) map_append)
  then show ?thesis
    unfolding rpl_compact_iff using l(2-4) by (intro exI [of _ ?us] exI [of _ vs]) (simp add: comp_def)
qed

lemma uint_next: "(j :: u32) < iv \<Longrightarrow> uint (j + 1) = uint j + 1"
  using uint_lt2p [of iv] by (simp add: uint_word_ariths word_less_def)

lemma iv_update_inv:
  assumes "rpl_inv A st" and "rx_ok (Iv_Update now iv upd) st"
  shows "rpl_inv A (snd (bt_mesh_net_iv_update C E now iv upd st))" (is "rpl_inv A ?st")
proof (cases rule: iv_update_cases [where C = C and E = E and now = now and iv = iv and upd = upd and st = st])
  case same
  then show ?thesis using assms(1) by (auto simp: rpl_inv_def rpl_covers_def abs_iv_def)
next
  case start
  have young: "\<forall>r\<in>set (rpl st). \<not> rpl_old_iv r" using assms(2) start by (auto simp: list_all_iff)
  have iv: "uint iv = uint (iv_index st) + 1" using uint_next [OF start(4)] start(3) by simp
  have st: "iv_index ?st = iv" "rpl ?st = rpl (bt_mesh_rpl_reset st)" using start(5) by simp_all
  have "rpl_covers ?st m" if "m \<in> A" for m
  proof -
    obtain a v s where m: "m = (a, v, s)" by (cases m)
    have "a \<noteq> 0" "rpl_covers st (a, v, s)" using assms(1) that by (auto simp: rpl_inv_def m)
    moreover have "r\<lparr>rpl_old_iv := True\<rparr> \<in> set (rpl ?st)" if "r \<in> set (rpl st)" "rpl_src r \<noteq> 0" for r
      using that by (auto simp: st rpl_reset_young [OF young] image_iff)
    ultimately show ?thesis using young iv by (fastforce simp: m rpl_covers_def abs_iv_def st(1))
  qed
  then show ?thesis using assms(1) rpl_reset_compact [OF young] iv by (auto simp: rpl_inv_def st)
next
  case finish
  then show ?thesis using assms(1) by (auto simp: rpl_inv_def rpl_covers_def abs_iv_def)
next
  case recover
  have "iv \<noteq> iv_index st + 1" using recover assms(2) by auto
  then have "uint (iv_index st + 1) < uint iv"
    using inc_le [OF recover(2)] by (simp add: word_le_def word_uint_eq_iff order_less_le eq_commute)
  then have iv: "uint (iv_index st) + 1 < uint iv" by (simp add: uint_next [OF recover(2)])
  have "iv_index ?st = iv" "rpl ?st = replicate (length (rpl st)) zero_rpl"
    using recover(4) by (auto simp: iv_recovery_def rpl_clear_def bt_mesh_rpl_reset_def zero_rpl_def)
  then show ?thesis using assms(1) iv by (auto simp: rpl_inv_def rpl_covers_def)
qed

interpretation rplf: fresh_stream "rx_step C E" rx_ok rpl_inv msg_newer for C E
proof
  fix A and st st' :: "'a bt_mesh_net_scheme" and e m a
  assume inv: "rpl_inv A st" and ok: "rx_ok e st"
  show "rpl_inv A st'" if "rx_step C E e st = (None, st')"
    using that inv ok is_replay_rejects [OF inv] iv_update_inv [OF inv]
    by (cases e) (auto split: prod.splits bool.splits)
  show "rpl_inv (insert m A) st'" if "rx_step C E e st = (Some m, st')"
    using that ok is_replay_accepts [OF inv] by (cases e) (auto split: prod.splits bool.splits)
  show "msg_newer a m" if "rx_step C E e st = (Some m, st')" "a \<in> A"
    using that(1) ok is_replay_fresh [OF inv _ _ that(2)] by (cases e) (auto split: prod.splits bool.splits)
qed


section \<open>Nonces\<close>

text \<open>
  The nonce of a PDU that is sent holds the IV index and the sequence number.  A step emits them when a PDU leaves the function.
\<close>

datatype tx_event =
    Encode bt_mesh_net_tx "byte list" nat bool
  | Resend "64 word" nat "byte list" bool
  | Tx_Iv_Update "64 word" u32 bool

type_synonym nonce_key = "int \<times> 24 word"

definition nonce_of :: "'a bt_mesh_net_scheme \<Rightarrow> nonce_key" where
  "nonce_of st = (uint (BT_MESH_NET_IVI_TX st), seq st)"

fun tx_step :: "crypto_lib \<Rightarrow> mesh_env \<Rightarrow> tx_event \<Rightarrow> 'a bt_mesh_net_scheme \<Rightarrow> nonce_key option \<times> 'a bt_mesh_net_scheme" where
  "tx_step C E (Encode tx buf tailroom proxy) st =
     (case bt_mesh_net_encode C tx buf tailroom proxy st of
        (Inl e, st') \<Rightarrow> (None, st') | (Inr pdu, st') \<Rightarrow> (Some (nonce_of st), st'))"
| "tx_step C E (Resend now i buf new_key) st =
     (case bt_mesh_net_resend C E now i buf new_key st of
        (Inl e, st') \<Rightarrow> (None, st') | (Inr pdu, st') \<Rightarrow> (Some (nonce_of st), st'))"
| "tx_step C E (Tx_Iv_Update now iv upd) st = (None, snd (bt_mesh_net_iv_update C E now iv upd st))"

text \<open>A PDU is sent only while there is a sequence number left.\<close>

fun tx_ok :: "tx_event \<Rightarrow> 'a bt_mesh_net_scheme \<Rightarrow> bool" where
  "tx_ok (Tx_Iv_Update now iv upd) st = True"
| "tx_ok e st = (seq st \<noteq> 0xffffff)"

definition nonce_less :: "nonce_key \<Rightarrow> nonce_key \<Rightarrow> bool" where
  "nonce_less a b \<longleftrightarrow> fst a < fst b \<or> fst a = fst b \<and> snd a < snd b"

definition nonce_inv :: "nonce_key set \<Rightarrow> 'a bt_mesh_net_scheme \<Rightarrow> bool" where
  "nonce_inv A st \<longleftrightarrow> (iv_update st \<longrightarrow> iv_index st \<noteq> 0) \<and> (\<forall>a\<in>A. nonce_less a (nonce_of st))"

lemma nonce_less_trans: "nonce_less a b \<Longrightarrow> nonce_less b c \<Longrightarrow> nonce_less a c"
  by (auto simp: nonce_less_def)

lemma nonce_inv_step:
  assumes "nonce_inv A st" and "iv_update st' \<longrightarrow> iv_index st' \<noteq> 0" and "nonce_of st' = nonce_of st \<or> nonce_less (nonce_of st) (nonce_of st')"
  shows "nonce_inv A st'"
  using assms nonce_less_trans unfolding nonce_inv_def by metis

lemma seq_next: "(n :: 24 word) \<noteq> 0xffffff \<Longrightarrow> n < n + 1"
proof -
  assume "n \<noteq> 0xffffff"
  then have "uint n \<noteq> 0xffffff" by (simp add: word_uint_eq_iff)
  then show ?thesis using uint_lt2p [of n] by (simp add: word_less_def uint_word_ariths)
qed

lemma uint_prev: "(w :: u32) \<noteq> 0 \<Longrightarrow> uint (w - 1) = uint w - 1"
  using uint_lt2p [of w] word_gt_0 [of w] by (simp add: uint_word_ariths word_less_def)

lemma nonce_iv_update:
  assumes "nonce_inv A st"
  shows "nonce_inv A (snd (bt_mesh_net_iv_update C E now iv upd st))" (is "nonce_inv A ?st")
proof (rule nonce_inv_step [OF assms])
  have z: "iv_update st \<longrightarrow> iv_index st \<noteq> 0" using assms by (simp add: nonce_inv_def)
  note d = nonce_of_def nonce_less_def BT_MESH_NET_IVI_TX_def
  have "(iv_update ?st \<longrightarrow> iv_index ?st \<noteq> 0) \<and> (nonce_of ?st = nonce_of st \<or> nonce_less (nonce_of st) (nonce_of ?st))"
  proof (cases rule: iv_update_cases [where C = C and E = E and now = now and iv = iv and upd = upd and st = st])
    case same
    then show ?thesis using z by (simp add: d)
  next
    case start
    then show ?thesis by (auto simp: d)
  next
    case finish
    have "iv_index st - 1 < iv_index st" using finish(1) z by (simp add: word_less_def uint_prev)
    then show ?thesis using finish by (simp add: d word_less_def)
  next
    case recover
    have "iv \<noteq> 0" using recover(2) by auto
    moreover have "iv_index st < iv - of_bool upd"
    proof (cases upd)
      case True
      then have "iv_index st + 1 < iv" using recover(2,3) inc_le [OF recover(2)] by auto
      then show ?thesis using True \<open>iv \<noteq> 0\<close> by (simp add: word_less_def uint_next [OF recover(2)] uint_prev)
    qed (use recover in simp)
    ultimately show ?thesis using recover(1,4) by (cases upd) (auto simp: d iv_recovery_def rpl_clear_def word_less_def)
  qed
  then show "iv_update ?st \<longrightarrow> iv_index ?st \<noteq> 0" "nonce_of ?st = nonce_of st \<or> nonce_less (nonce_of st) (nonce_of ?st)" by blast+
qed


lemma nonce_inv_sub: "nonce_inv (insert a A) st \<Longrightarrow> nonce_inv A st"
  by (simp add: nonce_inv_def)

lemma nonce_bump:
  assumes "nonce_inv A st" and "seq st \<noteq> 0xffffff"
  shows "nonce_inv (insert (nonce_of st) A) (st\<lparr>seq := seq st + 1\<rparr>)"
proof -
  have "nonce_less (nonce_of st) (nonce_of (st\<lparr>seq := seq st + 1\<rparr>))"
    using seq_next [OF assms(2)] by (simp add: nonce_less_def nonce_of_def BT_MESH_NET_IVI_TX_def)
  moreover from this have "nonce_inv A (st\<lparr>seq := seq st + 1\<rparr>)"
    using assms(1) by (intro nonce_inv_step [OF assms(1)]) (auto simp: nonce_inv_def)
  ultimately show ?thesis by (simp add: nonce_inv_def)
qed

lemma nonce_inv_frame [simp]:
  "nonce_inv A (emit x st) = nonce_inv A st" "nonce_inv A (bt_mesh_beacon_ivu_initiator b st) = nonce_inv A st"
  "nonce_inv A (bt_mesh_net_sec_update E i st) = nonce_inv A st"
  by (simp_all add: nonce_inv_def nonce_of_def BT_MESH_NET_IVI_TX_def emit_def bt_mesh_beacon_ivu_initiator_def bt_mesh_net_sec_update_def)

lemma encode_state:
  "bt_mesh_net_encode C tx buf tailroom proxy st = (r, st') \<Longrightarrow>
    st' = st\<lparr>seq := seq st + 1\<rparr> \<or> st' = st \<and> r = Inl EINVAL"
  by (auto simp: bt_mesh_net_encode_def Let_def split: if_splits)

text \<open>With enough room for the MIC, encoding succeeds.\<close>

lemma encode_ok:
  assumes "crypto_ok C" and "8 \<le> tailroom"
  shows "\<exists>p. bt_mesh_net_encode C tx buf tailroom proxy st = (Inr p, st\<lparr>seq := seq st + 1\<rparr>)"
proof -
  let ?st = "st\<lparr>seq := seq st + 1\<rparr>"
  let ?k = "cur_keys (sub st ! tx_sub tx)" and ?iv = "BT_MESH_NET_IVI_TX ?st"
  let ?h = "(sk_nid ?k OR push_bit 7 (ucast (?iv AND 1))) # (if tx_app_idx tx = BT_MESH_KEY_UNUSED then tx_ttl tx OR 0x80 else tx_ttl tx) #
    seq_bytes (seq st) @ sys_put_be16 (tx_src tx) @ sys_put_be16 (tx_addr tx) @ buf"
  have "8 \<le> length ?h" by (simp add: seq_bytes_def)
  from net_decrypt_encrypt [OF assms(1) this, of "sk_enc ?k" ?iv proxy]
  obtain out where out: "bt_mesh_net_encrypt C (sk_enc ?k) ?h ?iv proxy = Inr out" "length out = length ?h + NET_MIC_LEN ?h" by blast
  have "7 \<le> length out" using out(2) by (simp add: seq_bytes_def)
  from obfuscate_twice [OF assms(1) this, of ?iv "sk_privacy ?k"]
  obtain p where "bt_mesh_net_obfuscate C out ?iv (sk_privacy ?k) = Inr p" by blast
  then show ?thesis using out(1) assms(2) by (simp add: bt_mesh_net_encode_def Let_def)
qed

lemma encode_step:
  assumes "crypto_ok C" and "8 \<le> tailroom"
  shows "tx_step C E (Encode tx buf tailroom proxy) st = (Some (nonce_of st), st\<lparr>seq := seq st + 1\<rparr>)"
proof -
  obtain p where "bt_mesh_net_encode C tx buf tailroom proxy st = (Inr p, st\<lparr>seq := seq st + 1\<rparr>)" using encode_ok [OF assms] by blast
  then show ?thesis by simp
qed

lemma resend_inv:
  assumes "nonce_inv A st" and "seq st \<noteq> 0xffffff" and "bt_mesh_net_resend C E now i buf new_key st = (r, st')"
  shows "nonce_inv A st' \<and> (\<forall>p. r = Inr p \<longrightarrow> nonce_inv (insert (nonce_of st) A) st')"
proof -
  note b = nonce_bump [OF assms(1,2)]
  then show ?thesis
    using assms(1,3) nonce_inv_sub [OF b]
    by (auto simp: bt_mesh_net_resend_def Let_def nonce_iv_update dest: nonce_inv_sub split: sum.splits if_splits)
qed

interpretation txn: fresh_stream "tx_step C E" tx_ok nonce_inv nonce_less for C E
proof
  fix A and st st' :: "'a bt_mesh_net_scheme" and e m a
  assume inv: "nonce_inv A st" and ok: "tx_ok e st"
  note bump = nonce_bump [OF inv] and sub = nonce_inv_sub
  show "nonce_inv A st'" if "tx_step C E e st = (None, st')"
    using that inv ok resend_inv [OF inv] nonce_iv_update [OF inv] sub [OF bump]
    by (cases e) (auto dest!: encode_state split: prod.splits sum.splits)
  show "nonce_inv (insert m A) st'" if "tx_step C E e st = (Some m, st')"
    using that ok encode_state resend_inv [OF inv] bump by (cases e) (fastforce split: prod.splits sum.splits)+
  show "nonce_less a m" if "tx_step C E e st = (Some m, st')" "a \<in> A"
    using that inv by (cases e) (auto simp: nonce_inv_def split: prod.splits sum.splits)
qed


section \<open>Properties\<close>


definition rx_history :: "rx_event list" where
  "rx_history = [Receive (msg_from 2 7 False), Receive (msg_from 2 7 False), Receive (msg_from 3 1 False), Receive (msg_from 2 9 False),
     Iv_Update 0x20000000 6 True, Receive (msg_from 2 9 True), Receive (msg_from 2 10 True), Receive (msg_from 2 0 False)]"




definition tx_history :: "tx_event list" where
  "tx_history = [Encode a_tx [1, 2, 3] 8 False, Tx_Iv_Update 0x20000000 6 True, Encode a_tx [4] 8 False]"


text \<open>
  C36.  The bound on the sequence number is not checked by the code: \<open>bt_mesh_net_encode\<close> never refuses, and neither starts nor
  asks for an IV update.  After \<open>2 ^ 24\<close> PDUs the sequence number has wrapped around, and the next PDU has the nonce of the first one.
\<close>

theorem nonce_repeats:
  fixes st :: "'a bt_mesh_net_scheme"
  assumes "crypto_ok C" and "8 \<le> tailroom"
  shows "stream_run (tx_step C E) (replicate (Suc n) (Encode tx buf tailroom proxy)) st ! n = (uint (BT_MESH_NET_IVI_TX st), seq st + of_nat n) \<and>
    stream_run (tx_step C E) (replicate (Suc (2 ^ 24)) (Encode tx buf tailroom proxy)) st ! (2 ^ 24) = nonce_of st"
proof -
  have run: "stream_run (tx_step C E) (replicate (Suc n) (Encode tx buf tailroom proxy)) st ! n = (uint (BT_MESH_NET_IVI_TX st), seq st + of_nat n)"
    for n and st :: "'a bt_mesh_net_scheme"
  proof (induction n arbitrary: st)
    case 0
    then show ?case by (simp add: encode_step [OF assms] nonce_of_def del: tx_step.simps)
  next
    case (Suc n)
    then show ?case
      using Suc.IH [of "st\<lparr>seq := seq st + 1\<rparr>"]
      by (simp add: encode_step [OF assms] BT_MESH_NET_IVI_TX_def ac_simps del: tx_step.simps)
  qed
  have "of_nat (2 ^ 24) = (0 :: 24 word)" by simp
  then show ?thesis using run [of n st] run [of "2 ^ 24" st] by (simp only: nonce_of_def add_0_right)
qed

theorem nonce_repeats_witness:
  "stream_run (tx_step null_crypto quiet_env) (replicate (Suc (2 ^ 24)) (Encode a_tx [1] 8 False)) boot_net ! (2 ^ 24) = (5, 0)"
proof -
  have "(8 :: nat) \<le> 8" "nonce_of boot_net = (5, 0)" by (simp_all add: nonce_of_def BT_MESH_NET_IVI_TX_def boot_net_def)
  then show ?thesis
    using conjunct2 [OF nonce_repeats [OF null_crypto_ok, of 8 quiet_env 0 a_tx "[1]" False boot_net]] by (simp only: simp_thms)
qed

end
