(* ===== verification/Mesh_Net_Props.thy ===== *)
theory Mesh_Net_Props
  imports Mesh_Fresh
begin

text \<open>
  The network layer end to end: a PDU that one node encodes or relays is decoded by a node with the same keys, the time to live
  decreases at every hop, and the procedures for the IV index and for the refresh of keys follow their state machines.
\<close>

section \<open>Sealed PDUs\<close>

text \<open>Encryption and obfuscation of a PDU with its header in clear, as in \<open>bt_mesh_net_encode\<close> and \<open>bt_mesh_net_relay\<close>.\<close>

definition seal :: "crypto_lib \<Rightarrow> subnet_keys \<Rightarrow> u32 \<Rightarrow> byte list \<Rightarrow> mesh_err + byte list" where
  "seal C k iv h = ebind (bt_mesh_net_encrypt C (sk_enc k) h iv False) (\<lambda>buf. bt_mesh_net_obfuscate C buf iv (sk_privacy k))"

lemma take_nth_eq: "take n xs = take n ys \<Longrightarrow> i < n \<Longrightarrow> xs ! i = ys ! i"
  by (metis nth_take)

lemma seal_ok:
  assumes "crypto_ok C" and "8 \<le> length h"
  obtains p out where "seal C k iv h = Inr p" "length p = length h + NET_MIC_LEN h" "p ! 0 = h ! 0"
    "bt_mesh_net_obfuscate C p iv (sk_privacy k) = Inr out" "take 7 out = take 7 h" "bt_mesh_net_decrypt C (sk_enc k) out iv False = Inr h"
proof -
  obtain out where out: "bt_mesh_net_encrypt C (sk_enc k) h iv False = Inr out" "length out = length h + NET_MIC_LEN h"
      "take 7 out = take 7 h" "bt_mesh_net_decrypt C (sk_enc k) out iv False = Inr h"
    using net_decrypt_encrypt [OF assms, of "sk_enc k" iv False] by blast
  have "7 \<le> length out" using out(2) assms(2) by simp
  from obfuscate_twice [OF assms(1) this, of iv "sk_privacy k"] obtain p where p:
      "bt_mesh_net_obfuscate C out iv (sk_privacy k) = Inr p" "length p = length out" "p ! 0 = out ! 0"
      "bt_mesh_net_obfuscate C p iv (sk_privacy k) = Inr out" by blast
  then show thesis using that out take_nth_eq [OF out(3), of 0] by (simp add: seal_def)
qed

lemma header_fields:
  assumes "take 7 out = take 7 h" and "7 \<le> length h"
  shows "SRC out = SRC h" "msg_hash iv out = msg_hash iv h"
proof -
  have "length (take 7 out) = 7" using assms by simp
  then have "7 \<le> length out" by simp
  then show "SRC out = SRC h" "msg_hash iv out = msg_hash iv h"
    using take_nth_eq [OF assms(1)] assms(2) by (simp_all add: SRC_def msg_hash_def sys_get_be16_def)
qed

text \<open>
  What a receiver must have: the keys in its first subnet, an IV index that differs by at most one update, the first bit of
  the PDU as the sender sets it, and no memory of the PDU.
\<close>

definition can_open :: "subnet_keys \<Rightarrow> u32 \<Rightarrow> byte list \<Rightarrow> byte list \<Rightarrow> bt_mesh_net_if \<Rightarrow> 'a bt_mesh_net_scheme \<Rightarrow> bool" where
  "can_open k iv h p net_if st \<longleftrightarrow>
     (\<exists>s ss. sub st = s # ss \<and> net_idx s \<noteq> BT_MESH_KEY_UNUSED \<and> keys0 s = k) \<and>
     (iv_index st = iv \<or> iv_index st = iv + 1) \<and> NID h = sk_nid k \<and> IVI h = ucast (iv AND 1) \<and>
     (net_if = BT_MESH_NET_IF_ADV \<longrightarrow> \<not> fst (check_dup p st) \<and> \<not> fst (msg_cache_match iv h st))"


lemma iv_rx:
  assumes "iv_index st = iv \<or> iv_index st = iv + 1" and "IVI h = ucast (iv AND 1)" and "p ! 0 = h ! 0"
    and "rx_old_iv rx = (IVI p \<noteq> ucast (iv_index st AND 1))"
  shows "BT_MESH_NET_IVI_RX st rx = iv"
proof -
  have "IVI p = ucast (iv AND 1)" using assms(2,3) by (simp add: IVI_def)
  moreover have "(ucast ((iv + 1) AND 1) :: u8) \<noteq> ucast (iv AND 1)"
  proof -
    have "bit ((iv + 1) AND 1) 0 \<noteq> bit (iv AND 1) 0" by (simp add: bit_0 even_and_iff)
    then have "bit (ucast ((iv + 1) AND 1) :: u8) 0 \<noteq> bit (ucast (iv AND 1) :: u8) 0" by (simp add: bit_simps)
    then show ?thesis by metis
  qed
  ultimately show ?thesis using assms(1,4) by (auto simp: BT_MESH_NET_IVI_RX_def)
qed

text \<open>The receiver finds the key and gets the PDU in clear.\<close>

lemma find_sealed:
  assumes "crypto_ok C" and "8 \<le> length h" and "seal C k iv h = Inr p" and "can_open k iv h p net_if st"
    and "rx_net_if rx = net_if" and "net_if \<noteq> BT_MESH_NET_IF_PROXY_CFG" and "BT_MESH_ADDR_IS_UNICAST (SRC h)"
    and "st' = (if net_if = BT_MESH_NET_IF_ADV then snd (check_dup p st) else st)"
  shows "\<exists>st''. net_find_and_decrypt C p rx st' =
    (Some h, rx\<lparr>rx_old_iv := (IVI p \<noteq> ucast (iv_index st AND 1)), rx_addr := SRC h, rx_net_idx := net_idx (hd (sub st)), rx_sub := 0\<rparr>, st'')"
proof -
  obtain s ss where s: "sub st = s # ss" "net_idx s \<noteq> BT_MESH_KEY_UNUSED" "keys0 s = k" using assms(4) unfolding can_open_def by blast
  obtain p' out where p: "seal C k iv h = Inr p'" "p' ! 0 = h ! 0" "bt_mesh_net_obfuscate C p' iv (sk_privacy k) = Inr out"
      "take 7 out = take 7 h" "bt_mesh_net_decrypt C (sk_enc k) out iv False = Inr h"
    by (rule seal_ok [OF assms(1,2)])
  have pp: "p' = p" using p(1) assms(3) by simp
  have d: "sub st' = sub st" "iv_index st' = iv_index st" "msg_cache st' = msg_cache st"
    by (auto simp: assms(8) check_dup_def Let_def)
  let ?rx = "rx\<lparr>rx_old_iv := (IVI p \<noteq> ucast (iv_index st AND 1))\<rparr>"
  have iv: "BT_MESH_NET_IVI_RX st' ?rx = iv"
    using iv_rx [of st' iv h p ?rx] assms(4) p(2) d(2) by (simp add: can_open_def pp)
  have nid: "NID p = sk_nid k" using assms(4) p(2) by (simp add: can_open_def NID_def pp)
  have hf: "SRC out = SRC h" "msg_hash iv out = msg_hash iv h" using header_fields [OF p(4)] assms(2) by simp_all
  have "\<exists>st''. (if net_if = BT_MESH_NET_IF_ADV then msg_cache_match iv out st' else (False, st')) = (False, st'')"
    using assms(4) d(3) hf(2) by (auto simp: can_open_def msg_cache_match_def Let_def split: if_splits)
  then obtain st'' where "(if net_if = BT_MESH_NET_IF_ADV then msg_cache_match iv out st' else (False, st')) = (False, st'')" by blast
  then have "net_decrypt C (sk_enc k) (sk_privacy k) p rx st' = (Inr h, ?rx\<lparr>rx_addr := SRC h\<rparr>, st'')"
    using p(3,5) iv hf(1) assms(5-7) d(2) by (cases "net_if = BT_MESH_NET_IF_ADV") (simp_all add: net_decrypt_def Let_def pp)
  then show ?thesis using s d(1) nid by (simp add: net_find_and_decrypt_def)
qed


text \<open>The fields of the message that the layers above get.\<close>

definition rx_of :: "byte list \<Rightarrow> bt_mesh_net_if \<Rightarrow> bool \<Rightarrow> bt_mesh_subnet \<Rightarrow> bt_mesh_net_rx \<Rightarrow> bt_mesh_net_rx" where
  "rx_of h net_if old s rx =
     rx\<lparr>rx_net_if := net_if, rx_old_iv := old, rx_addr := SRC h, rx_net_idx := net_idx s, rx_sub := 0, rx_app_idx := BT_MESH_KEY_UNUSED,
        rx_recv_ttl := TTL h, rx_send_ttl := (if TTL h = 0 then 0 else BT_MESH_TTL_DEFAULT), rx_ctl := CTL h, rx_seq := SEQ h, rx_dst := DST h\<rparr>"

definition well_addressed :: "mesh_env \<Rightarrow> bt_mesh_net_if \<Rightarrow> byte list \<Rightarrow> bool" where
  "well_addressed E net_if h \<longleftrightarrow>
     BT_MESH_ADDR_IS_UNICAST (SRC h) \<and> DST h \<noteq> BT_MESH_ADDR_UNASSIGNED \<and> \<not> BT_MESH_ADDR_IS_RFU (DST h) \<and>
     (net_if \<noteq> BT_MESH_NET_IF_LOCAL \<longrightarrow> \<not> elem_find E (SRC h))"

lemma decode_sealed:
  assumes "crypto_ok C" and "BT_MESH_NET_MIN_PDU_LEN \<le> length h + NET_MIC_LEN h" and "8 \<le> length h"
    and "seal C k iv h = Inr p" and "can_open k iv h p net_if st" and "net_if \<noteq> BT_MESH_NET_IF_PROXY_CFG" and "well_addressed E net_if h"
  shows "\<exists>st'. bt_mesh_net_decode C E p net_if rx st =
    (Inr h, rx_of h net_if (iv_index st \<noteq> iv) (hd (sub st)) rx, st')"
proof -
  let ?st = "if net_if = BT_MESH_NET_IF_ADV then snd (check_dup p st) else st"
  have old: "(IVI p \<noteq> ucast (iv_index st AND 1)) \<longleftrightarrow> iv_index st \<noteq> iv"
  proof -
    obtain p' where "seal C k iv h = Inr p'" "p' ! 0 = h ! 0" by (rule seal_ok [OF assms(1,3)])
    then have p0: "p ! 0 = h ! 0" using assms(4) by simp
    let ?rx = "zero_rx\<lparr>rx_old_iv := (IVI p \<noteq> ucast (iv_index st AND 1))\<rparr>"
    have "BT_MESH_NET_IVI_RX st ?rx = iv" using iv_rx [of st iv h p ?rx] p0 assms(5) by (simp add: can_open_def)
    then show ?thesis by (auto simp: BT_MESH_NET_IVI_RX_def split: if_splits)
  qed
  have len: "\<not> length p < BT_MESH_NET_MIN_PDU_LEN"
    using assms(2,4) seal_ok [OF assms(1,3), of k iv] by (metis not_le old.sum.inject(2))
  have dup: "(if net_if = BT_MESH_NET_IF_ADV then check_dup p st else (False, st)) = (False, ?st)"
    using assms(5) by (auto simp: can_open_def prod_eq_iff)
  obtain st' where f: "net_find_and_decrypt C p (rx\<lparr>rx_net_if := net_if\<rparr>) ?st = (Some h, rx\<lparr>rx_net_if := net_if,
      rx_old_iv := (iv_index st \<noteq> iv), rx_addr := SRC h, rx_net_idx := net_idx (hd (sub st)), rx_sub := 0\<rparr>, st')"
    using find_sealed [OF assms(1,3,4,5), of "rx\<lparr>rx_net_if := net_if\<rparr>" ?st] assms(6,7) old by (auto simp: well_addressed_def)
  show ?thesis
    using len f assms(6,7) unfolding bt_mesh_net_decode_def dup
    by (cases "net_if = BT_MESH_NET_IF_LOCAL") (simp_all add: rx_of_def well_addressed_def Let_def)
qed


section \<open>From node to node\<close>

text \<open>The PDU in clear that \<open>bt_mesh_net_encode\<close> builds.\<close>

definition plain_pdu :: "bt_mesh_net_tx \<Rightarrow> byte list \<Rightarrow> 'a bt_mesh_net_scheme \<Rightarrow> byte list" where
  "plain_pdu tx payload st =
     (sk_nid (cur_keys (sub st ! tx_sub tx)) OR push_bit 7 (ucast (BT_MESH_NET_IVI_TX st AND 1))) #
     (if tx_app_idx tx = BT_MESH_KEY_UNUSED then tx_ttl tx OR 0x80 else tx_ttl tx) #
     seq_bytes (seq st) @ sys_put_be16 (tx_src tx) @ sys_put_be16 (tx_addr tx) @ payload"

lemma encode_seal:
  assumes "8 \<le> tailroom"
  shows "bt_mesh_net_encode C tx payload tailroom False st =
    (seal C (cur_keys (sub st ! tx_sub tx)) (BT_MESH_NET_IVI_TX st) (plain_pdu tx payload st), st\<lparr>seq := seq st + 1\<rparr>)"
  using assms by (simp add: bt_mesh_net_encode_def Let_def seal_def plain_pdu_def BT_MESH_NET_IVI_TX_def)

lemma u8_eqI:
  fixes x y :: u8
  assumes "bit x 0 = bit y 0" "bit x 1 = bit y 1" "bit x 2 = bit y 2" "bit x 3 = bit y 3"
    "bit x 4 = bit y 4" "bit x 5 = bit y 5" "bit x 6 = bit y 6" "bit x 7 = bit y 7"
  shows "x = y"
proof (rule bit_word_eqI)
  fix n assume "n < LENGTH(8)"
  then show "bit x n = bit y n" using assms by (auto simp: less_Suc_eq numeral_eq_Suc)
qed

lemma u8_7bit: "(x :: u8) < 0x80 \<Longrightarrow> \<not> bit x 7"
proof -
  assume "x < 0x80"
  then have "unat x div 2 ^ 7 = 0" by (simp add: word_less_nat_alt)
  then have "\<not> bit (unat x) 7" unfolding bit_iff_odd by simp
  then show ?thesis by (simp add: bit_simps)
qed

lemma header_byte:
  assumes "(x :: u8) < 0x80"
  shows "(x OR 0x80) AND 0x7f = x" "x AND 0x7f = x" "drop_bit 7 (x OR 0x80) \<noteq> 0" "drop_bit 7 x = 0"
    "((y AND 0x80) OR x) AND 0x7f = x" "drop_bit 7 ((y AND 0x80) OR x) = drop_bit 7 y"
    "(x OR push_bit 7 (ucast (v AND 1 :: u32))) AND 0x7f = x" "drop_bit 7 (x OR push_bit 7 (ucast (v AND 1 :: u32))) = ucast (v AND 1)"
proof -
  have n: "\<not> bit x 7" by (rule u8_7bit [OF assms])
  show "(x OR 0x80) AND 0x7f = x" by (rule u8_eqI) (auto simp: bit_simps n dest: bit_imp_le_length)
  show "x AND 0x7f = x" by (rule u8_eqI) (auto simp: bit_simps n dest: bit_imp_le_length)
  show "drop_bit 7 x = 0" by (rule u8_eqI) (auto simp: bit_simps n dest: bit_imp_le_length)
  show "((y AND 0x80) OR x) AND 0x7f = x" by (rule u8_eqI) (auto simp: bit_simps n)
  show "drop_bit 7 ((y AND 0x80) OR x) = drop_bit 7 y" by (rule u8_eqI) (auto simp: bit_simps n dest: bit_imp_le_length)
  show "drop_bit 7 (x OR 0x80) \<noteq> 0"
  proof
    assume "drop_bit 7 (x OR 0x80) = 0"
    then have "\<not> bit (drop_bit 7 (x OR 0x80)) 0" by simp
    then show False by (simp add: bit_simps)
  qed
  show "(x OR push_bit 7 (ucast (v AND 1 :: u32))) AND 0x7f = x" by (rule u8_eqI) (auto simp: bit_simps n dest: bit_imp_le_length)
  show "drop_bit 7 (x OR push_bit 7 (ucast (v AND 1 :: u32))) = ucast (v AND 1)" by (rule u8_eqI) (auto simp: bit_simps n dest: bit_imp_le_length)
qed

lemma seq_round: "SEQ (a # b # seq_bytes n @ r) = ucast n"
proof -
  have "bit (SEQ (a # b # seq_bytes n @ r)) i = bit (ucast n :: u32) i" if "i < 32" for i
  proof -
    consider "i < 8" | "8 \<le> i" "i < 16" | "16 \<le> i" "i < 24" | "24 \<le> i" by linarith
    then show ?thesis by cases (auto simp: SEQ_def seq_bytes_def bit_simps dest: bit_imp_le_length)
  qed
  then show ?thesis by (intro bit_word_eqI) simp
qed


lemma plain_pdu_fields:
  fixes st :: "'a bt_mesh_net_scheme" and payload :: "byte list"
  assumes "sk_nid (cur_keys (sub st ! tx_sub tx)) < 0x80" and "tx_ttl tx < 0x80"
  defines "h \<equiv> plain_pdu tx payload st"
  shows "NID h = sk_nid (cur_keys (sub st ! tx_sub tx))" "IVI h = ucast (BT_MESH_NET_IVI_TX st AND 1)" "CTL h \<longleftrightarrow> tx_app_idx tx = BT_MESH_KEY_UNUSED"
    "TTL h = tx_ttl tx" "SEQ h = ucast (seq st)" "SRC h = tx_src tx" "DST h = tx_addr tx" "drop 9 h = payload" "length h = length payload + 9"
proof -
  note b = header_byte [OF assms(1)] header_byte [OF assms(2)]
  show "NID h = sk_nid (cur_keys (sub st ! tx_sub tx))" "IVI h = ucast (BT_MESH_NET_IVI_TX st AND 1)" "CTL h \<longleftrightarrow> tx_app_idx tx = BT_MESH_KEY_UNUSED"
    "TTL h = tx_ttl tx" using b by (simp_all add: h_def plain_pdu_def NID_def IVI_def CTL_def TTL_def)
  show "SEQ h = ucast (seq st)" by (simp add: h_def plain_pdu_def seq_round)
  show "SRC h = tx_src tx" "DST h = tx_addr tx" "drop 9 h = payload" "length h = length payload + 9"
    by (simp_all add: h_def plain_pdu_def SRC_def DST_def seq_bytes_def)
qed


lemma mic_len_ctl: "CTL h \<longleftrightarrow> NET_MIC_LEN h = 8"
proof -
  have "drop_bit 7 (x :: u8) \<noteq> 0 \<longleftrightarrow> x AND 0x80 \<noteq> 0" for x
  proof -
    have "drop_bit 7 x = 0 \<longleftrightarrow> \<not> bit x 7"
    proof
      assume "drop_bit 7 x = 0"
      then have "\<not> bit (drop_bit 7 x) 0" by simp
      then show "\<not> bit x 7" by (simp add: bit_simps)
    next
      assume "\<not> bit x 7"
      then have "\<not> bit x (7 + n)" for n using bit_imp_le_length [of x "7 + n"] by (cases n) auto
      then show "drop_bit 7 x = 0" by (intro bit_word_eqI) (simp add: bit_simps)
    qed
    moreover have "x AND 0x80 = 0 \<longleftrightarrow> \<not> bit x 7"
    proof
      assume "x AND 0x80 = 0"
      then have "\<not> bit (x AND 0x80) 7" by simp
      then show "\<not> bit x 7" by (simp add: bit_simps)
    next
      assume "\<not> bit x 7"
      then show "x AND 0x80 = 0" by (intro u8_eqI) (simp_all add: bit_simps)
    qed
    ultimately show ?thesis by simp
  qed
  then show ?thesis by (simp add: CTL_def NET_MIC_LEN_def)
qed



lemma null_seal:
  assumes "8 \<le> length h"
  shows "seal null_crypto k iv h = Inr (h @ replicate (NET_MIC_LEN h) 0)"
  using assms by (simp add: seal_def null_net_encrypt null_obfuscate)

definition peer_env :: mesh_env where
  "peer_env = quiet_env\<lparr>elem_find := \<lambda>a. a = 3\<rparr>"



section \<open>Relaying\<close>

text \<open>The PDU in clear that a relay sends on.\<close>

definition relayed :: "byte list \<Rightarrow> byte list" where
  "relayed h = h[1 := (h ! 1 AND 0x80) OR (TTL h - 1)]"

lemma TTL_less: "TTL h < 0x80"
proof -
  have "TTL h \<le> 0x7f" by (simp add: TTL_def word_and_le1)
  then show ?thesis by (rule le_less_trans) simp
qed

lemma relayed_fields:
  assumes "1 < TTL h" and "9 \<le> length h"
  shows "TTL (relayed h) = TTL h - 1" "CTL (relayed h) = CTL h" "SEQ (relayed h) = SEQ h" "SRC (relayed h) = SRC h" "DST (relayed h) = DST h"
    "NID (relayed h) = NID h" "IVI (relayed h) = IVI h" "drop 9 (relayed h) = drop 9 h" "length (relayed h) = length h"
    "msg_hash v (relayed h) = msg_hash v h"
proof -
  have "TTL h - 1 < TTL h" using assms(1) by (simp add: word_less_nat_alt unat_sub_if_size word_le_nat_alt)
  then have t: "TTL h - 1 < 0x80" using TTL_less less_trans by blast
  show "TTL (relayed h) = TTL h - 1" using header_byte [OF t] assms(2) by (simp add: TTL_def relayed_def)
  show "CTL (relayed h) = CTL h" using header_byte [OF t] assms(2) by (simp add: CTL_def relayed_def)
qed (use assms(2) in \<open>simp_all add: relayed_def SEQ_def SRC_def DST_def NID_def IVI_def msg_hash_def drop_update_cancel\<close>)

text \<open>A message that comes from the advertising bearer is relayed when its time to live is at least 2.\<close>

lemma relay_emits:
  assumes "crypto_ok C" and "rx_net_if rx = BT_MESH_NET_IF_ADV" and "rx_recv_ttl rx = TTL h" and "9 \<le> length h" and "\<not> rx_friend_cred rx"
    and "relay_enabled E" and "0 < adv_bufs E" and "\<forall>b. \<not> proxy_relay E b (rx_dst rx)"
  shows "if TTL h \<le> 1 then bt_mesh_net_relay C E h rx st = st
    else \<exists>p. seal C (cur_keys (sub st ! rx_sub rx)) (BT_MESH_NET_IVI_RX st rx) (relayed h) = Inr p \<and>
      bt_mesh_net_relay C E h rx st = emit (Adv p) st"
proof (cases "TTL h \<le> 1")
  case True
  then show ?thesis using assms(2,3) by (simp add: bt_mesh_net_relay_def)
next
  case False
  have "8 \<le> length (relayed h)" using assms(4) by (simp add: relayed_def)
  then obtain p where p: "seal C (cur_keys (sub st ! rx_sub rx)) (BT_MESH_NET_IVI_RX st rx) (relayed h) = Inr p"
    by (rule seal_ok [OF assms(1)])
  then have "bt_mesh_net_relay C E h rx st = emit (Adv p) st"
    using False assms(2-8) by (simp add: bt_mesh_net_relay_def Let_def relayed_def seal_def relay_to_adv_def)
  then show ?thesis using False p by auto
qed

text \<open>
  Relaying: a node that gets a message with time to live at least 2 sends it on, and the next node decodes the same
  message: source, destination, sequence number, control flag and payload, with the time to live less by one.  A message
  with time to live 0 or 1 is not sent on.
\<close>

theorem relay_next_hop:
  fixes st :: "'a bt_mesh_net_scheme" and st2 :: "'b bt_mesh_net_scheme"
  assumes "crypto_ok C" and "rx_net_if rx = BT_MESH_NET_IF_ADV" and "rx_recv_ttl rx = TTL h" and "\<not> rx_friend_cred rx"
    and "BT_MESH_NET_MIN_PDU_LEN \<le> length h + NET_MIC_LEN h" and "9 \<le> length h"
    and "relay_enabled E" and "0 < adv_bufs E" and "\<forall>b. \<not> proxy_relay E b (rx_dst rx)" and "well_addressed E2 BT_MESH_NET_IF_ADV h"
    and "\<forall>p. seal C (cur_keys (sub st ! rx_sub rx)) (BT_MESH_NET_IVI_RX st rx) (relayed h) = Inr p \<longrightarrow>
          can_open (cur_keys (sub st ! rx_sub rx)) (BT_MESH_NET_IVI_RX st rx) (relayed h) p BT_MESH_NET_IF_ADV st2"
  shows "if TTL h \<le> 1 then bt_mesh_net_relay C E h rx st = st
    else \<exists>p h2 rx2 st2'. bt_mesh_net_relay C E h rx st = emit (Adv p) st \<and>
      bt_mesh_net_decode C E2 p BT_MESH_NET_IF_ADV zero_rx st2 = (Inr h2, rx2, st2') \<and> drop 9 h2 = drop 9 h \<and>
      rx_addr rx2 = SRC h \<and> rx_dst rx2 = DST h \<and> rx_seq rx2 = SEQ h \<and> rx_ctl rx2 = CTL h \<and> rx_recv_ttl rx2 = TTL h - 1"
proof (cases "TTL h \<le> 1")
  case True
  then show ?thesis using relay_emits [OF assms(1,2,3,6,4,7-9), of st] by simp
next
  case False
  let ?k = "cur_keys (sub st ! rx_sub rx)" and ?iv = "BT_MESH_NET_IVI_RX st rx"
  obtain p where p: "seal C ?k ?iv (relayed h) = Inr p" "bt_mesh_net_relay C E h rx st = emit (Adv p) st"
    using relay_emits [OF assms(1,2,3,6,4,7-9), of st] False by auto
  have "1 < TTL h" using False by simp
  note f = relayed_fields [OF this assms(6)]
  have mic: "NET_MIC_LEN (relayed h) = NET_MIC_LEN h" using f(2) mic_len_ctl [of h] mic_len_ctl [of "relayed h"]
    by (auto simp: NET_MIC_LEN_def split: if_splits)
  have "well_addressed E2 BT_MESH_NET_IF_ADV (relayed h)" using assms(10) f(4,5) by (simp add: well_addressed_def)
  then obtain st2' where "bt_mesh_net_decode C E2 p BT_MESH_NET_IF_ADV zero_rx st2 =
      (Inr (relayed h), rx_of (relayed h) BT_MESH_NET_IF_ADV (iv_index st2 \<noteq> ?iv) (hd (sub st2)) zero_rx, st2')"
    using decode_sealed [OF assms(1) _ _ p(1), of BT_MESH_NET_IF_ADV st2 E2 zero_rx] assms(5,6,11) p(1) f(9) mic by auto
  then show ?thesis using False p(2) f by (auto simp: rx_of_def)
qed


lemma boot_keys: "cur_keys boot_subnet = keys0 boot_subnet" "sk_nid (keys0 boot_subnet) = 0" "net_idx boot_subnet = 0"
  by (simp_all add: cur_keys_def boot_subnet_def Let_def)

theorem relay_next_hop_witness:
  "\<exists>p h2 rx2 st2'. bt_mesh_net_relay null_crypto quiet_env [0x80, 4, 0, 0, 0, 0, 1, 0, 3, 1, 2, 3, 4, 5] (zero_rx\<lparr>rx_recv_ttl := 4, rx_dst := 3\<rparr>) boot_net =
      emit (Adv p) boot_net \<and>
    bt_mesh_net_decode null_crypto peer_env p BT_MESH_NET_IF_ADV zero_rx boot_net = (Inr h2, rx2, st2') \<and> drop 9 h2 = [1, 2, 3, 4, 5] \<and> rx_recv_ttl rx2 = 3"
proof -
  let ?h = "[0x80, 4, 0, 0, 0, 0, 1, 0, 3, 1, 2, 3, 4, 5] :: byte list" and ?rx = "zero_rx\<lparr>rx_recv_ttl := 4, rx_dst := 3\<rparr>"
  let ?h' = "[0x80, 3, 0, 0, 0, 0, 1, 0, 3, 1, 2, 3, 4, 5] :: byte list"
  have f: "TTL ?h = 4" "NET_MIC_LEN ?h = 4" "relayed ?h = ?h'" "NET_MIC_LEN ?h' = 4" "NID ?h' = 0" "IVI ?h' = ucast (5 AND 1 :: u32)"
    by code_simp+
  have w: "well_addressed peer_env BT_MESH_NET_IF_ADV ?h" by code_simp
  have dup: "\<not> fst (check_dup (?h' @ replicate 4 0) boot_net)" "\<not> fst (msg_cache_match 5 ?h' boot_net)" by code_simp+
  have st: "sub boot_net = [boot_subnet]" "rx_sub ?rx = 0" "iv_index boot_net = 5" "BT_MESH_NET_IVI_RX boot_net ?rx = 5"
    by (simp_all add: boot_net_def BT_MESH_NET_IVI_RX_def zero_rx_def)
  have "can_open (keys0 boot_subnet) 5 ?h' (?h' @ replicate 4 0) BT_MESH_NET_IF_ADV boot_net"
    using dup f st boot_keys by (simp add: can_open_def)
  then have "\<forall>p. seal null_crypto (cur_keys (sub boot_net ! rx_sub ?rx)) (BT_MESH_NET_IVI_RX boot_net ?rx) (relayed ?h) = Inr p \<longrightarrow>
      can_open (cur_keys (sub boot_net ! rx_sub ?rx)) (BT_MESH_NET_IVI_RX boot_net ?rx) (relayed ?h) p BT_MESH_NET_IF_ADV boot_net"
    using st f boot_keys by (simp add: null_seal)
  moreover have "rx_net_if ?rx = BT_MESH_NET_IF_ADV" "rx_recv_ttl ?rx = TTL ?h" "\<not> rx_friend_cred ?rx" "BT_MESH_NET_MIN_PDU_LEN \<le> length ?h + NET_MIC_LEN ?h"
      "9 \<le> length ?h" "relay_enabled quiet_env" "0 < adv_bufs quiet_env" "\<forall>b. \<not> proxy_relay quiet_env b (rx_dst ?rx)"
    using f by (simp_all add: zero_rx_def quiet_env_def)
  moreover have ne: "\<not> TTL ?h \<le> 1" by code_simp
  ultimately have r: "if TTL ?h \<le> 1 then bt_mesh_net_relay null_crypto quiet_env ?h ?rx boot_net = boot_net
    else \<exists>p h2 rx2 st2'. bt_mesh_net_relay null_crypto quiet_env ?h ?rx boot_net = emit (Adv p) boot_net \<and>
      bt_mesh_net_decode null_crypto peer_env p BT_MESH_NET_IF_ADV zero_rx boot_net = (Inr h2, rx2, st2') \<and> drop 9 h2 = drop 9 ?h \<and>
      rx_addr rx2 = SRC ?h \<and> rx_dst rx2 = DST ?h \<and> rx_seq rx2 = SEQ ?h \<and> rx_ctl rx2 = CTL ?h \<and> rx_recv_ttl rx2 = TTL ?h - 1"
    using w by (intro relay_next_hop [OF null_crypto_ok])
  have "drop 9 ?h = [1, 2, 3, 4, 5]" "TTL ?h - 1 = 3" using f(1) by simp_all
  then show ?thesis using r [unfolded if_not_P [OF ne]] by metis
qed

section \<open>Secure network beacons\<close>

text \<open>The state without the counters of the beacons that have been heard.\<close>

definition no_stats :: "'a bt_mesh_net_scheme \<Rightarrow> 'a bt_mesh_net_scheme" where
  "no_stats st = st\<lparr>sub := map (\<lambda>s. s\<lparr>beacons_cur := 0\<rparr>) (sub st)\<rparr>"

lemma beacon_stats_no_stats [simp]: "no_stats (beacon_stats E i st) = no_stats st"
proof -
  have "map f (xs[i := g (xs ! i)]) = map f xs" if "\<And>x. f (g x) = f x" for f g and xs :: "bt_mesh_subnet list"
    using that by (cases "i < length xs") (simp_all add: map_update list_update_same_conv list_update_beyond)
  from this [of "\<lambda>s. s\<lparr>beacons_cur := 0\<rparr>" "\<lambda>s. s\<lparr>beacons_cur := beacons_cur s + 1\<rparr>" "sub st"]
  show ?thesis by (simp add: no_stats_def beacon_stats_def upd_sub_def)
qed

lemma subnet_find_loop_None:
  "subnet_find_loop C net_id flags iv auth n ss = None \<longleftrightarrow>
    (\<forall>s\<in>set ss. net_idx s \<noteq> BT_MESH_KEY_UNUSED \<longrightarrow> \<not> auth_match C (keys0 s) net_id flags iv auth \<and>
      (kr_phase s \<noteq> BT_MESH_KR_NORMAL \<longrightarrow> \<not> auth_match C (keys1 s) net_id flags iv auth))"
  by (induction ss arbitrary: n) auto

text \<open>
  C17.  A beacon is acted upon only when it is authenticated: if neither key of any subnet in use gives the
  authentication value of the beacon, then a secure network beacon changes at most the counters of the beacons heard.
\<close>

theorem beacon_needs_authentication:
  fixes st :: "'a bt_mesh_net_scheme"
  assumes "\<forall>s\<in>set (sub st). net_idx s \<noteq> BT_MESH_KEY_UNUSED \<longrightarrow>
      \<not> auth_match C (keys0 s) (take 8 (drop 1 buf)) (buf ! 0) (sys_get_be32 (drop 9 buf)) (drop 13 buf) \<and>
      (kr_phase s \<noteq> BT_MESH_KR_NORMAL \<longrightarrow> \<not> auth_match C (keys1 s) (take 8 (drop 1 buf)) (buf ! 0) (sys_get_be32 (drop 9 buf)) (drop 13 buf))"
  shows "no_stats (bt_mesh_beacon_recv C E now (0x01 # buf) st) = no_stats st"
proof -
  have "bt_mesh_subnet_find C (take 8 (drop 1 buf)) (buf ! 0) (sys_get_be32 (drop 9 buf)) (drop 13 buf) st = None"
    using assms by (simp add: bt_mesh_subnet_find_def subnet_find_loop_None)
  then show ?thesis by (auto simp: bt_mesh_beacon_recv_def secure_beacon_recv_def Let_def split: option.splits)
qed


theorem beacon_needs_authentication_witness:
  "no_stats (bt_mesh_beacon_recv null_crypto quiet_env 0 (0x01 # replicate 13 1 @ replicate 8 0) boot_net) = no_stats boot_net"
proof (rule beacon_needs_authentication)
  show "\<forall>s\<in>set (sub boot_net). net_idx s \<noteq> BT_MESH_KEY_UNUSED \<longrightarrow>
      \<not> auth_match null_crypto (keys0 s) (take 8 (drop 1 (replicate 13 1 @ replicate 8 0))) ((replicate 13 1 @ replicate 8 0) ! 0)
        (sys_get_be32 (drop 9 (replicate 13 1 @ replicate 8 0))) (drop 13 (replicate 13 1 @ replicate 8 0)) \<and>
      (kr_phase s \<noteq> BT_MESH_KR_NORMAL \<longrightarrow> \<not> auth_match null_crypto (keys1 s) (take 8 (drop 1 (replicate 13 1 @ replicate 8 0)))
        ((replicate 13 1 @ replicate 8 0) ! 0) (sys_get_be32 (drop 9 (replicate 13 1 @ replicate 8 0))) (drop 13 (replicate 13 1 @ replicate 8 0)))"
    by (simp add: boot_net_def boot_subnet_def Let_def auth_match_def)
qed

lemma get_put_be32 [simp]: "sys_get_be32 (sys_put_be32 w @ bs) = w"
proof (rule bit_word_eqI)
  fix n assume "n < LENGTH(32)"
  then consider "n < 8" | "8 \<le> n" "n < 16" | "16 \<le> n" "n < 24" | "24 \<le> n" "n < 32" by fastforce
  then show "bit (sys_get_be32 (sys_put_be32 w @ bs)) n = bit w n"
    by cases (auto simp: sys_get_be32_def sys_put_be32_def bit_simps)
qed

lemma flags_bits:
  "BT_MESH_IV_UPDATE (bt_mesh_net_flags (Some s) st) = iv_update st" "BT_MESH_KEY_REFRESH (bt_mesh_net_flags (Some s) st) = kr_flag s"
  by (auto simp: bt_mesh_net_flags_def BT_MESH_IV_UPDATE_def BT_MESH_KEY_REFRESH_def Let_def bit_simps)

lemma frames [simp]:
  "iv_index (emit x st) = iv_index st" "iv_update (emit x st) = iv_update st"
  "iv_index (bt_mesh_net_sec_update E i st) = iv_index st" "iv_update (bt_mesh_net_sec_update E i st) = iv_update st"
  "iv_index (beacon_stats E j st) = iv_index st" "iv_update (beacon_stats E j st) = iv_update st"
  "iv_index (cache_add d j st) = iv_index st" "iv_update (cache_add d j st) = iv_update st" "last_update (cache_add d j st) = last_update st"
  "ivu_test (cache_add d j st) = ivu_test st"
  "iv_index (bt_mesh_beacon_ivu_initiator b st) = iv_index st" "iv_update (bt_mesh_beacon_ivu_initiator b st) = iv_update st"
  "last_update (bt_mesh_beacon_ivu_initiator b st) = last_update st" "ivu_test (bt_mesh_beacon_ivu_initiator b st) = ivu_test st"
  by (simp_all add: emit_def bt_mesh_net_sec_update_def beacon_stats_def cache_add_def upd_sub_def bt_mesh_beacon_ivu_initiator_def)

lemma kr_update_frame [simp]:
  "iv_index (snd (bt_mesh_kr_update i kr nk st)) = iv_index st" "iv_update (snd (bt_mesh_kr_update i kr nk st)) = iv_update st"
  by (simp_all add: bt_mesh_kr_update_def bt_mesh_net_revoke_keys_def Let_def)

text \<open>
  The state of the IV update procedure one step before the state \<open>(iv, upd)\<close>, with an IV index that is far enough from the greatest one
  that the sum of the range check does not wrap around.
\<close>

definition one_step_behind :: "mesh_env \<Rightarrow> 'a bt_mesh_net_scheme \<Rightarrow> u32 \<Rightarrow> bool \<Rightarrow> bool" where
  "one_step_behind E st iv upd \<longleftrightarrow>
     (if upd then \<not> iv_update st \<and> iv = iv_index st + 1 \<and> iv_index st < iv \<and> iv \<le> iv_index st + 42
      else iv_update st \<and> iv = iv_index st \<and> \<not> tx_in_progress E)"

lemma iv_update_follows:
  assumes "one_step_behind E st iv upd" and "ivu_test st \<or> K_HOURS_96 \<le> sint (now - last_update st)"
  shows "bt_mesh_net_iv_update C E now iv upd st = (True, do_iv_update C now iv upd st)"
proof (cases upd)
  case True
  then have lt: "iv_index st < iv" and eq: "iv = iv_index st + 1" "\<not> iv_update st" using assms(1) by (auto simp: one_step_behind_def)
  moreover have "\<not> iv_index st + 42 < iv" using assms(1) True by (auto simp: one_step_behind_def)
  ultimately show ?thesis
    using True less_not_sym [OF lt] assms(2) by (auto simp: bt_mesh_net_iv_update_def iv_update_allowed_def not_less)
next
  case False
  then show ?thesis
    using assms by (auto simp: one_step_behind_def bt_mesh_net_iv_update_def iv_update_allowed_def not_less)
qed


text \<open>An authenticated beacon of the primary subnet goes to the two procedures.\<close>

lemma secure_beacon_accepted:
  assumes "\<not> length buf < 21" and "cache_check buf st = None"
    and "bt_mesh_subnet_find C (take 8 (drop 1 buf)) (buf ! 0) (sys_get_be32 (drop 9 buf)) (drop 13 buf) st = Some (i, new_key)"
    and "kr_phase (sub st ! i) \<noteq> BT_MESH_KR_PHASE_2 \<or> new_key" and "net_idx (sub (cache_add buf i st) ! i) = BT_MESH_KEY_PRIMARY"
    and "st1 = (if ivu_initiator (cache_add buf i st) \<and> iv_update st = BT_MESH_IV_UPDATE (buf ! 0)
                then bt_mesh_beacon_ivu_initiator False (cache_add buf i st) else cache_add buf i st)"
    and "bt_mesh_net_iv_update C E now (sys_get_be32 (drop 9 buf)) (BT_MESH_IV_UPDATE (buf ! 0)) st1 = (True, st2)"
    and "bt_mesh_kr_update i (BT_MESH_KEY_REFRESH (buf ! 0)) new_key st2 = (kc, st3)"
  shows "secure_beacon_recv C E now buf st =
    beacon_stats E i (bt_mesh_net_sec_update E None (if kc then bt_mesh_net_beacon_update C i st3 else st3))"
proof -
  have st1: "(if ivu_initiator (cache_add buf i st) \<and> iv_update (cache_add buf i st) = BT_MESH_IV_UPDATE (buf ! 0)
              then bt_mesh_beacon_ivu_initiator False (cache_add buf i st) else cache_add buf i st) = st1"
    using assms(6) by simp
  show ?thesis
    unfolding secure_beacon_recv_def Let_def if_not_P [OF assms(1)] assms(2,3) option.case prod.case
    unfolding st1 assms(5,7,8) prod.case using assms(4) by auto
qed

text \<open>
  The IV update spreads: a node in subnet 0 with the same keys that is one step behind in the procedure, has been in its
  state for 96 hours and has not just heard the same beacon takes over the IV index and the state of the node that sends the beacon.
\<close>

theorem beacon_spreads_iv_update:
  fixes stA :: "'a bt_mesh_net_scheme" and stB :: "'b bt_mesh_net_scheme" and C :: crypto_lib
  defines "beacon \<equiv> bt_mesh_beacon_create 0 (bt_mesh_net_beacon_update C 0 stA)"
  assumes "crypto_ok C" and "sub stA = sA # ssA" and "\<not> kr_flag sA" and "length (sk_net_id (keys0 sA)) = 8"
    and "sub stB = sB # ssB" and "keys0 sB = keys0 sA" and "net_idx sB = BT_MESH_KEY_PRIMARY" and "\<not> kr_flag sB" and "kr_phase sB = BT_MESH_KR_NORMAL"
    and "cache_check (tl beacon) stB = None"
    and "one_step_behind E stB (iv_index stA) (iv_update stA)" and "ivu_test stB \<or> K_HOURS_96 \<le> sint (now - last_update stB)"
  shows "iv_index (bt_mesh_beacon_recv C E now beacon stB) = iv_index stA \<and> iv_update (bt_mesh_beacon_recv C E now beacon stB) = iv_update stA"
proof -
  let ?flags = "bt_mesh_net_flags (Some sA) stA" and ?k = "keys0 sA"
  obtain c where c: "aes_cmac C (sk_beacon ?k) (?flags # sk_net_id ?k @ sys_put_be32 (iv_index stA)) = Inr c" "length c = 16"
    using assms(2) unfolding crypto_ok_def by blast
  have auth: "bt_mesh_beacon_auth C (sk_beacon ?k) ?flags (sk_net_id ?k) (iv_index stA) = Inr (take 8 c)"
    using c(1) assms(5) by (simp add: bt_mesh_beacon_auth_def)
  have flags: "bt_mesh_net_flags (Some (sA\<lparr>sub_auth := a\<rparr>)) (stA\<lparr>sub := l\<rparr>) = ?flags" for a l
    by (simp add: bt_mesh_net_flags_def)
  have b: "beacon = 0x01 # ?flags # sk_net_id ?k @ sys_put_be32 (iv_index stA) @ take 8 c"
    using assms(3,5) c(2) by (simp add: beacon_def bt_mesh_beacon_create_def bt_mesh_net_beacon_update_def auth upd_sub_def Let_def flags)
  let ?buf = "?flags # sk_net_id ?k @ sys_put_be32 (iv_index stA) @ take 8 c"
  have len: "\<not> length ?buf < 21" using assms(5) c(2) by simp
  have find: "bt_mesh_subnet_find C (sk_net_id ?k) ?flags (iv_index stA) (take 8 c) stB = Some (0, False)"
    using assms(5-8) auth by (simp add: bt_mesh_subnet_find_def auth_match_def)
  have parts: "take 8 (drop 1 ?buf) = sk_net_id ?k" "sys_get_be32 (drop 9 ?buf) = iv_index stA" "drop 13 ?buf = take 8 c" "?buf ! 0 = ?flags"
    using assms(5) by simp_all
  define st1 where "st1 = (if ivu_initiator (cache_add ?buf 0 stB) \<and> iv_update stB = BT_MESH_IV_UPDATE (?buf ! 0)
    then bt_mesh_beacon_ivu_initiator False (cache_add ?buf 0 stB) else cache_add ?buf 0 stB)"
  have iv: "bt_mesh_net_iv_update C E now (sys_get_be32 (drop 9 ?buf)) (BT_MESH_IV_UPDATE (?buf ! 0)) st1 =
      (True, do_iv_update C now (iv_index stA) (iv_update stA) st1)"
    unfolding parts flags_bits using assms(12,13) by (intro iv_update_follows) (auto simp: one_step_behind_def st1_def)
  have ph: "kr_phase (sub stB ! 0) \<noteq> BT_MESH_KR_PHASE_2 \<or> False" "net_idx (sub (cache_add ?buf 0 stB) ! 0) = BT_MESH_KEY_PRIMARY"
    using assms(6,8,10) by (simp_all add: cache_add_def upd_sub_def)
  obtain kc st2 where kr: "bt_mesh_kr_update 0 (BT_MESH_KEY_REFRESH (?buf ! 0)) False (do_iv_update C now (iv_index stA) (iv_update stA) st1) = (kc, st2)"
    by fastforce
  have "iv_index st1 = iv_index stB" "iv_update st1 = iv_update stB" by (simp_all add: st1_def)
  then have st2: "iv_index st2 = iv_index stA" "iv_update st2 = iv_update stA"
    using arg_cong [OF kr, of "\<lambda>p. iv_index (snd p)"] arg_cong [OF kr, of "\<lambda>p. iv_update (snd p)"] assms(12)
    by (auto simp: one_step_behind_def split: if_splits)
  have "cache_check ?buf stB = None" using assms(11) by (simp add: b)
  from secure_beacon_accepted [OF len this _ ph st1_def iv kr] find
  have "secure_beacon_recv C E now ?buf stB = beacon_stats E 0 (bt_mesh_net_sec_update E None (if kc then bt_mesh_net_beacon_update C 0 st2 else st2))"
    unfolding parts by blast
  moreover have "bt_mesh_beacon_recv C E now beacon stB = secure_beacon_recv C E now ?buf stB" by (simp add: b bt_mesh_beacon_recv_def)
  ultimately show ?thesis using st2 by simp
qed


theorem beacon_spreads_iv_update_witness:
  "iv_index (bt_mesh_beacon_recv null_crypto quiet_env 0x20000000
     (bt_mesh_beacon_create 0 (bt_mesh_net_beacon_update null_crypto 0 (boot_net\<lparr>iv_index := 6, iv_update := True\<rparr>))) boot_net) = 6 \<and>
   iv_update (bt_mesh_beacon_recv null_crypto quiet_env 0x20000000
     (bt_mesh_beacon_create 0 (bt_mesh_net_beacon_update null_crypto 0 (boot_net\<lparr>iv_index := 6, iv_update := True\<rparr>))) boot_net)"
proof -
  let ?A = "boot_net\<lparr>iv_index := 6, iv_update := True\<rparr>"
  let ?b = "bt_mesh_beacon_create 0 (bt_mesh_net_beacon_update null_crypto 0 ?A)"
  have s: "sub ?A = boot_subnet # []" "sub boot_net = boot_subnet # []" "iv_index ?A = 6" "iv_update ?A" by (simp_all add: boot_net_def)
  have k: "\<not> kr_flag boot_subnet" "length (sk_net_id (keys0 boot_subnet)) = 8" "net_idx boot_subnet = BT_MESH_KEY_PRIMARY" "kr_phase boot_subnet = BT_MESH_KR_NORMAL"
    by (simp_all add: boot_subnet_def Let_def)
  have c: "cache_check (tl ?b) boot_net = None" by code_simp
  have o: "one_step_behind quiet_env boot_net (iv_index ?A) (iv_update ?A)" by code_simp
  have t: "ivu_test boot_net \<or> K_HOURS_96 \<le> sint (0x20000000 - last_update boot_net)" by code_simp
  from beacon_spreads_iv_update [OF null_crypto_ok s(1) k(1,2) s(2) refl k(3,1,4) c o t] show ?thesis using s(3,4) by simp
qed

end
