(* ===== verification/Mesh_Sar.thy ===== *)
theory Mesh_Sar
  imports Mesh_Net_Props
begin

text \<open>
  Segmentation and reassembly: the segments that \<open>send_seg\<close> makes of an SDU, received in any order and more than once, are put together
  to the SDU by \<open>trans_seg\<close>, and the message is delivered once.
\<close>

section \<open>Segments\<close>

definition last_seg :: "byte list \<Rightarrow> nat" where
  "last_seg sdu = (length sdu - 1) div 12"

text \<open>The payload of segment \<open>k\<close>.\<close>

definition segment :: "byte \<Rightarrow> bool \<Rightarrow> u16 \<Rightarrow> byte list \<Rightarrow> nat \<Rightarrow> byte list" where
  "segment hdr aszmic seq_zero sdu k = seg_header hdr aszmic seq_zero k (last_seg sdu) @ take 12 (drop (12 * k) sdu)"

lemma u16_eqI:
  fixes x y :: u16
  assumes "bit x 0 = bit y 0" "bit x 1 = bit y 1" "bit x 2 = bit y 2" "bit x 3 = bit y 3" "bit x 4 = bit y 4" "bit x 5 = bit y 5"
    "bit x 6 = bit y 6" "bit x 7 = bit y 7" "bit x 8 = bit y 8" "bit x 9 = bit y 9" "bit x 10 = bit y 10" "bit x 11 = bit y 11"
    "bit x 12 = bit y 12" "bit x 13 = bit y 13" "bit x 14 = bit y 14" "bit x 15 = bit y 15"
  shows "x = y"
proof (rule bit_word_eqI)
  fix n assume "n < LENGTH(16)"
  then show "bit x n = bit y n" using assms by (auto simp: less_Suc_eq numeral_eq_Suc)
qed

lemma small_word_bit:
  fixes x :: "'a::len word"
  assumes "unat x < 2 ^ m" and "m \<le> n"
  shows "\<not> bit x n"
proof -
  have "unat x < 2 ^ n" by (rule less_le_trans [OF assms(1) power_increasing [OF assms(2)]]) simp
  then have "\<not> bit (unat x) n" unfolding bit_iff_odd by simp
  then show ?thesis by (metis bit_imp_le_length bit_unsigned_iff possible_bit_nat)
qed

lemma parse_header:
  fixes x y :: u8 and z :: u16 and a :: bool and r :: "byte list"
  assumes "unat x < 32" "unat y < 32" "unat z < 0x2000"
  defines "w \<equiv> sys_get_be16 ([push_bit 7 (of_bool a) OR ucast (drop_bit 6 z), push_bit 2 (ucast (z AND 0x3f)) OR drop_bit 3 x] @ r)"
    and "s \<equiv> push_bit 5 (x AND 0x07) OR y"
  shows "drop_bit 2 w AND 0x1fff = z" "push_bit 3 (ucast (w AND 0x03)) OR drop_bit 5 s = x" "s AND 0x1f = y"
    "bit (push_bit 7 (of_bool a) OR ucast (drop_bit 6 z) :: u8) 7 = a"
proof -
  have x: "5 \<le> n \<Longrightarrow> \<not> bit x n" and y: "5 \<le> n \<Longrightarrow> \<not> bit y n" for n
    using small_word_bit [of x 5] small_word_bit [of y 5] assms(1,2) by simp_all
  have z: "13 \<le> n \<Longrightarrow> \<not> bit z n" for n using small_word_bit [of z 13] assms(3) by simp
  note b = w_def s_def sys_get_be16_def bit_simps
  show "drop_bit 2 w AND 0x1fff = z" by (rule u16_eqI) (simp_all add: b x z)
  show "push_bit 3 (ucast (w AND 0x03)) OR drop_bit 5 s = x" by (rule u8_eqI) (simp_all add: b x y)
  show "s AND 0x1f = y" by (rule u8_eqI) (simp_all add: b y)
  show "bit (push_bit 7 (of_bool a) OR ucast (drop_bit 6 z) :: u8) 7 = a" using z by (simp add: bit_simps)
qed


lemma segment_lengths:
  assumes "sdu \<noteq> []" and "k \<le> last_seg sdu"
  shows "k < last_seg sdu \<Longrightarrow> length (take 12 (drop (12 * k) sdu)) = 12"
    "k = last_seg sdu \<Longrightarrow> last_seg sdu * 12 + length (take 12 (drop (12 * k) sdu)) = length sdu"
    "0 < length (take 12 (drop (12 * k) sdu))" "k * 12 + length (take 12 (drop (12 * k) sdu)) \<le> length sdu"
proof -
  define n where "n = last_seg sdu"
  have "0 < length sdu" using assms(1) by simp
  moreover have "12 * n + (length sdu - 1) mod 12 = length sdu - 1" by (simp add: n_def last_seg_def)
  moreover have "(length sdu - 1) mod 12 < 12" by simp
  ultimately have n: "12 * n + 1 \<le> length sdu" "length sdu \<le> 12 * n + 12" by linarith+
  then show "k < last_seg sdu \<Longrightarrow> length (take 12 (drop (12 * k) sdu)) = 12"
    "k = last_seg sdu \<Longrightarrow> last_seg sdu * 12 + length (take 12 (drop (12 * k) sdu)) = length sdu"
    "0 < length (take 12 (drop (12 * k) sdu))" "k * 12 + length (take 12 (drop (12 * k) sdu)) \<le> length sdu"
    using assms(2) unfolding n_def [symmetric] by (auto simp: min_def)
qed

section \<open>One session\<close>

definition session_of :: "seg_rx \<Rightarrow> bt_mesh_net_rx \<Rightarrow> byte \<Rightarrow> u64 \<Rightarrow> nat \<Rightarrow> bool" where
  "session_of r rx hdr sa n \<longleftrightarrow>
     in_use r \<and> srx_seq_auth r = sa \<and> srx_seg_n r = n \<and> srx_hdr r = hdr \<and> srx_src r = rx_addr rx \<and> srx_dst r = rx_dst rx \<and> \<not> srx_ctl r"

text \<open>The segments \<open>K\<close> are in the buffer.\<close>

definition assembled :: "seg_rx \<Rightarrow> byte list \<Rightarrow> nat set \<Rightarrow> bool" where
  "assembled r sdu K \<longleftrightarrow>
     (\<forall>b<32. bit (block r) b \<longleftrightarrow> b \<in> K) \<and> (\<forall>j<length sdu. j div 12 \<in> K \<longrightarrow> buf_data r ! j = sdu ! j) \<and>
     (last_seg sdu \<in> K \<longrightarrow> buf_len r = length sdu) \<and> length sdu \<le> length (buf_data r)"

text \<open>The update of the context when a segment is stored.\<close>

definition store_segment :: "64 word \<Rightarrow> nat \<Rightarrow> nat \<Rightarrow> byte list \<Rightarrow> seg_rx \<Rightarrow> seg_rx" where
  "store_segment now seg_o seg_n data r =
     (let ofs = seg_o * seg_len (srx_ctl r); len' = seg_n * seg_len (srx_ctl r) + length data in
      r\<lparr>buf_len := (if seg_o = seg_n then len' else buf_len r), srx_last := ucast now,
        srx_ack := (case srx_ack r of None \<Rightarrow> Some (ack_timeout r) | Some t \<Rightarrow> Some t),
        buf_data := take ofs (buf_data r) @ data @ drop (ofs + length data) (buf_data r),
        block := block r OR push_bit seg_o 1\<rparr>)"

lemma store_assembled:
  assumes "assembled r sdu K" and "sdu \<noteq> []" and "k \<le> last_seg sdu" and "k < 32" and "\<not> srx_ctl r"
  shows "assembled (store_segment now k (last_seg sdu) (take 12 (drop (12 * k) sdu)) r) sdu (insert k K)"
proof -
  let ?d = "take 12 (drop (12 * k) sdu)"
  note l = segment_lengths [OF assms(2,3)]
  let ?r = "store_segment now k (last_seg sdu) ?d r"
  have data: "buf_data ?r = take (12 * k) (buf_data r) @ ?d @ drop (12 * k + length ?d) (buf_data r)"
    using assms(5) by (simp add: store_segment_def seg_len_def mult.commute Let_def)
  have len: "length sdu \<le> length (buf_data r)" using assms(1) by (simp add: assembled_def)
  have "buf_data ?r ! j = sdu ! j" if j: "j < length sdu" "j div 12 \<in> insert k K" for j
  proof (cases "12 * k \<le> j \<and> j < 12 * k + length ?d")
    case True
    then have i: "\<not> j < 12 * k" "j - 12 * k < length ?d" by linarith+
    have "buf_data ?r ! j = ?d ! (j - 12 * k)"
      using i len j(1) unfolding data by (simp only: nth_append length_take) (simp add: min_def)
    moreover have "12 * k \<le> length sdu" using i(1) j(1) by simp
    ultimately show ?thesis using i by simp
  next
    case False
    moreover have "12 * (j div 12) + j mod 12 = j" "j mod 12 < 12" by simp_all
    ultimately have "j div 12 \<noteq> k" using j(1) by auto
    then have "buf_data r ! j = sdu ! j" using j assms(1) by (simp add: assembled_def)
    moreover have "buf_data ?r ! j = buf_data r ! j"
      using False j(1) len l(4) unfolding data by (auto simp: nth_append mult.commute min_def split: if_splits)
    ultimately show ?thesis by simp
  qed
  moreover have "bit (block ?r) b \<longleftrightarrow> b \<in> insert k K" if "b < 32" for b
    using that assms(1,4) by (auto simp: store_segment_def Let_def assembled_def bit_simps)
  moreover have "last_seg sdu \<in> insert k K \<longrightarrow> buf_len ?r = length sdu"
    using assms(1,5) l(2) by (auto simp: store_segment_def Let_def assembled_def seg_len_def)
  moreover have "length (buf_data ?r) = length (buf_data r)"
  proof -
    have "12 * k + length ?d \<le> length (buf_data r)" using len l(4) by (simp only: mult.commute [of k])
    then have "length (take (12 * k) xs @ d @ ys) = 12 * k + length d + length ys" if "xs = buf_data r" "d = ?d" for xs d ys :: "byte list"
      using that by (simp del: length_take add: length_take [of "12 * k"] min_absorb2)
    then show ?thesis using \<open>12 * k + length ?d \<le> length (buf_data r)\<close> unfolding data by simp
  qed
  ultimately show ?thesis using len by (simp add: assembled_def)
qed

lemma bit_block_complete: "n < 32 \<Longrightarrow> b < 32 \<Longrightarrow> bit (BLOCK_COMPLETE n) b \<longleftrightarrow> b \<le> n"
proof -
  assume "n < 32" "b < 32"
  moreover have "push_bit (n + 1) (1 :: u64) - 1 = mask (n + 1)" by (simp add: mask_eq_exp_minus_1)
  then have "bit (BLOCK_COMPLETE n) b \<longleftrightarrow> possible_bit TYPE(u32) b \<and> bit (mask (n + 1) :: u64) b"
    by (simp only: BLOCK_COMPLETE_def bit_unsigned_iff)
  moreover have "bit (mask (n + 1) :: u64) b \<longleftrightarrow> possible_bit TYPE(u64) b \<and> b < n + 1" by (rule bit_mask_iff)
  ultimately show ?thesis by (auto simp: possible_bit_def)
qed

lemma block_complete_iff:
  assumes "assembled r sdu K" and "last_seg sdu < 32" and "K \<subseteq> {..last_seg sdu}"
  shows "block r = BLOCK_COMPLETE (last_seg sdu) \<longleftrightarrow> K = {..last_seg sdu}"
proof
  assume "block r = BLOCK_COMPLETE (last_seg sdu)"
  then have "b \<in> K \<longleftrightarrow> b \<le> last_seg sdu" if "b < 32" for b
    using that assms(1) bit_block_complete [OF assms(2)] by (simp add: assembled_def)
  moreover have "b < 32" if "b \<in> K \<or> b \<le> last_seg sdu" for b using that assms(2,3) by auto
  ultimately show "K = {..last_seg sdu}" by blast
next
  assume "K = {..last_seg sdu}"
  then show "block r = BLOCK_COMPLETE (last_seg sdu)"
    using assms bit_block_complete [OF assms(2)] by (intro bit_word_eqI) (simp add: assembled_def)
qed

lemma assembled_complete:
  assumes "assembled r sdu {..last_seg sdu}"
  shows "take (buf_len r) (buf_data r) = sdu"
proof -
  have "j div 12 \<le> last_seg sdu" if "j < length sdu" for j using that by (simp add: last_seg_def div_le_mono)
  then show ?thesis using assms by (intro nth_equalityI) (auto simp: assembled_def)
qed


text \<open>
  The invariant of a session: context \<open>i\<close> is the only one of this source and destination, and it holds the segments \<open>K\<close>.
\<close>

definition sar_inv :: "bt_mesh_net_rx \<Rightarrow> byte \<Rightarrow> u64 \<Rightarrow> byte list \<Rightarrow> nat \<Rightarrow> nat set \<Rightarrow> seg_rx list \<Rightarrow> bool" where
  "sar_inv rx hdr sa sdu i K rs \<longleftrightarrow>
     i < length rs \<and> session_of (rs ! i) rx hdr sa (last_seg sdu) \<and> assembled (rs ! i) sdu K \<and>
     (\<forall>j<length rs. j \<noteq> i \<longrightarrow> srx_src (rs ! j) \<noteq> rx_addr rx \<or> srx_dst (rs ! j) \<noteq> rx_dst rx)"

lemma found_rx_stored:
  assumes "sar_inv rx hdr sa sdu i K (seg_rxs st)" and "sdu \<noteq> []" and "length sdu \<le> rx_sdu_max E" and "k \<le> last_seg sdu" and "k < 32"
  shows "found_rx C E now i hdr aszmic k (last_seg sdu) (take 12 (drop (12 * k) sdu)) sa' net_rx st =
    (if k \<in> K then (Some EALREADY, net_rx, st)
     else
       let st = upd_rx i (store_segment now k (last_seg sdu) (take 12 (drop (12 * k) sdu))) st in
       if block (seg_rxs st ! i) \<noteq> BLOCK_COMPLETE (last_seg sdu) then (None, net_rx, st)
       else case (if rx_local_match net_rx then is_replay net_rx st else (False, st)) of
         (True, st) \<Rightarrow> (Some EINVAL, net_rx, upd_rx i (\<lambda>r. r\<lparr>block := block r AND NOT (push_bit k 1)\<rparr>) st)
       | (False, st) \<Rightarrow>
           let rx = seg_rxs st ! i;
               net_rx = (if \<not> rx_friend_match net_rx then net_rx\<lparr>rx_seq := ucast (srx_seq_auth rx AND 0xffffff)\<rparr> else net_rx);
               st = send_ack C E (rx_sub net_rx) (rx_dst net_rx) (rx_addr net_rx) (rx_send_ttl net_rx) sa' (block rx) (obo rx)
                      (upd_rx i (\<lambda>r. r\<lparr>srx_ack := None\<rparr>) st);
               sdu' = take (buf_len rx) (buf_data rx)
           in case (if rx_ctl net_rx then ctl_recv C E now net_rx hdr sdu' st else sdu_recv C E net_rx hdr aszmic sdu' st) of
                (err, st) \<Rightarrow> (err, net_rx, upd_rx i seg_rx_reset st))"
proof -
  let ?r = "seg_rxs st ! i"
  note l = segment_lengths [OF assms(2,4)]
  have r: "\<not> srx_ctl ?r" "bit (block ?r) k \<longleftrightarrow> k \<in> K" "length sdu \<le> length (buf_data ?r)"
    using assms(1,5) by (auto simp: sar_inv_def session_of_def assembled_def)
  have c: "\<not> (k = last_seg sdu \<and> last_seg sdu * seg_len (srx_ctl ?r) + length (take 12 (drop (12 * k) sdu)) > rx_sdu_max E)"
    "\<not> (k \<noteq> last_seg sdu \<and> length (take 12 (drop (12 * k) sdu)) \<noteq> seg_len (srx_ctl ?r))"
    "\<not> k * seg_len (srx_ctl ?r) + length (take 12 (drop (12 * k) sdu)) > length (buf_data ?r)"
    using l assms(3) r(1,3) assms(4) by (cases "k = last_seg sdu"; auto simp: seg_len_def simp del: length_take)+
  have f: "upd_rx i (\<lambda>r. r\<lparr>buf_len := (if k = last_seg sdu then last_seg sdu * seg_len (srx_ctl ?r) + length d else buf_len r), srx_last := ucast now,
        srx_ack := (case srx_ack r of None \<Rightarrow> Some (ack_timeout r) | Some t \<Rightarrow> Some t),
        buf_data := take (k * seg_len (srx_ctl ?r)) (buf_data r) @ d @ drop (k * seg_len (srx_ctl ?r) + length d) (buf_data r),
        block := block r OR push_bit k 1\<rparr>) st = upd_rx i (store_segment now k (last_seg sdu) d) st" for d
    by (simp add: upd_rx_def store_segment_def Let_def)
  show ?thesis
    unfolding found_rx_def Let_def if_not_P [OF c(1)] if_not_P [OF c(2)] if_not_P [OF c(3)] f using r(2) by simp
qed


lemma upd_rx_seg_rxs [simp]: "i < length (seg_rxs st) \<Longrightarrow> seg_rxs (upd_rx i f st) ! i = f (seg_rxs st ! i)"
  by (simp add: upd_rx_def)

lemma sar_inv_store:
  assumes "sar_inv rx hdr sa sdu i K (seg_rxs st)" and "sdu \<noteq> []" and "k \<le> last_seg sdu" and "k < 32"
  shows "sar_inv rx hdr sa sdu i (insert k K) (seg_rxs (upd_rx i (store_segment now k (last_seg sdu) (take 12 (drop (12 * k) sdu))) st))"
proof -
  let ?r = "seg_rxs st ! i" and ?d = "take 12 (drop (12 * k) sdu)"
  have "assembled (store_segment now k (last_seg sdu) ?d ?r) sdu (insert k K)"
    using assms by (intro store_assembled) (auto simp: sar_inv_def session_of_def)
  moreover have "session_of (store_segment now k (last_seg sdu) ?d ?r) rx hdr sa (last_seg sdu)"
    using assms(1) by (simp add: sar_inv_def session_of_def store_segment_def Let_def)
  ultimately show ?thesis using assms(1) by (auto simp: sar_inv_def upd_rx_def nth_list_update)
qed

text \<open>A segment that does not complete the SDU.\<close>

lemma found_rx_partial:
  assumes "sar_inv rx hdr sa sdu i K (seg_rxs st)" and "sdu \<noteq> []" and "length sdu \<le> rx_sdu_max E" and "last_seg sdu < 32" and "K \<subseteq> {..last_seg sdu}"
    and "k \<le> last_seg sdu" and "insert k K \<noteq> {..last_seg sdu}"
  shows "\<exists>rs err. found_rx C E now i hdr aszmic k (last_seg sdu) (take 12 (drop (12 * k) sdu)) sa' net_rx st = (err, net_rx, st\<lparr>seg_rxs := rs\<rparr>) \<and>
    sar_inv rx hdr sa sdu i (insert k K) rs"
proof (cases "k \<in> K")
  case True
  then show ?thesis
    using found_rx_stored [OF assms(1-3,6), of C now aszmic sa' net_rx] assms(1,4,6)
    by (intro exI [of _ "seg_rxs st"] exI [of _ "Some EALREADY"]) (simp add: insert_absorb)
next
  case False
  let ?st = "upd_rx i (store_segment now k (last_seg sdu) (take 12 (drop (12 * k) sdu))) st"
  have k: "k < 32" using assms(4,6) by simp
  note inv = sar_inv_store [OF assms(1,2,6) k, of now]
  have "block (seg_rxs ?st ! i) \<noteq> BLOCK_COMPLETE (last_seg sdu)"
    using block_complete_iff [of "seg_rxs ?st ! i" sdu "insert k K"] inv assms(4-7) unfolding sar_inv_def by blast
  then have "found_rx C E now i hdr aszmic k (last_seg sdu) (take 12 (drop (12 * k) sdu)) sa' net_rx st = (None, net_rx, ?st)"
    using found_rx_stored [OF assms(1-3,6) k, of C now aszmic sa' net_rx] False by (simp add: Let_def)
  then show ?thesis using inv by (intro exI [of _ "seg_rxs ?st"] exI [of _ None]) (simp add: upd_rx_def)
qed


subsection \<open>What the rest of the stack does in between\<close>

lemma keep_outbox [intro]: "\<exists>q' out. st\<lparr>seq := q\<rparr> = st\<lparr>seq := q', outbox := out\<rparr>"
  by (rule exI [of _ q], rule exI [of _ "outbox st"]) simp

lemma keep_seq_outbox [intro]: "\<exists>q out. st = st\<lparr>seq := q, outbox := out\<rparr>"
  by (rule exI [of _ "seq st"], rule exI [of _ "outbox st"]) simp

lemma net_send_frame: "\<exists>q out. snd (bt_mesh_net_send C E tx buf room st) = st\<lparr>seq := q, outbox := out\<rparr>"
proof -
  define tx' where "tx' = (if tx_ttl tx = BT_MESH_TTL_DEFAULT then tx\<lparr>tx_ttl := default_ttl E\<rparr> else tx)"
  obtain r st1 where e: "bt_mesh_net_encode C tx' buf room False st = (r, st1)" by fastforce
  have "\<exists>q. st1 = st\<lparr>seq := q\<rparr>"
  proof (cases "st1 = st")
    case True
    then show ?thesis by (intro exI [of _ "seq st"]) simp
  qed (use encode_state [OF e] in blast)
  then obtain q where q: "st1 = st\<lparr>seq := q\<rparr>" by blast
  have "snd (bt_mesh_net_send C E tx buf room st) = st1 \<or> (\<exists>x. snd (bt_mesh_net_send C E tx buf room st) = emit x st1)"
    using e by (cases r) (auto simp: bt_mesh_net_send_def tx'_def [symmetric] Let_def)
  then show ?thesis
  proof (elim disjE exE)
    assume "snd (bt_mesh_net_send C E tx buf room st) = st1"
    then show ?thesis using keep_outbox [of q st] by (simp add: q)
  next
    fix x assume "snd (bt_mesh_net_send C E tx buf room st) = emit x st1"
    then show ?thesis by (intro exI [of _ q] exI [of _ "outbox st @ [x]"]) (simp add: q emit_def)
  qed
qed

lemma ctl_send_frame: "\<exists>q out. snd (bt_mesh_ctl_send C E tx op data st) = st\<lparr>seq := q, outbox := out\<rparr>"
proof -
  let ?p = "(op AND 0x7f) # data"
  obtain r st' where s: "bt_mesh_net_send C E tx ?p (adv_tailroom ?p) st = (r, st')" by fastforce
  have "snd (bt_mesh_ctl_send C E tx op data st) = st \<or> snd (bt_mesh_ctl_send C E tx op data st) = st'"
    using s by (cases r) (auto simp: bt_mesh_ctl_send_def Let_def)
  then show ?thesis
  proof
    assume "snd (bt_mesh_ctl_send C E tx op data st) = st'"
    then show ?thesis using net_send_frame [of C E tx ?p "adv_tailroom ?p" st] s by simp
  next
    assume "snd (bt_mesh_ctl_send C E tx op data st) = st"
    then show ?thesis using keep_seq_outbox by simp
  qed
qed

lemma send_ack_frame: "\<exists>q out. send_ack C E sb src dst ttl sa blk ob st = st\<lparr>seq := q, outbox := out\<rparr>"
  using ctl_send_frame keep_seq_outbox [of st] by (cases "BT_MESH_ADDR_IS_UNICAST src") (simp_all add: send_ack_def Let_def)

lemma is_replay_frame: "\<exists>l x. snd (is_replay rx st) = st\<lparr>rpl := l, rpl_index := x\<rparr>"
proof (cases "rpl_loop rx (rpl st)")
  case None
  then show ?thesis by (auto simp: is_replay_def)
next
  case (Some p)
  then show ?thesis by (cases p) (auto simp: is_replay_def intro!: exI [of _ "snd p"] exI [of _ "rpl_index st"])
qed

lemma is_replay_fst: "fst (is_replay rx (st\<lparr>seg_rxs := rs\<rparr>)) = fst (is_replay rx st)"
  by (simp add: is_replay_def split: option.splits)

text \<open>The parts of the state on which the reception of an SDU depends.\<close>

definition same_keys :: "mesh_state \<Rightarrow> mesh_state \<Rightarrow> bool" where
  "same_keys st st' \<longleftrightarrow> dev_key st' = dev_key st \<and> app_keys st' = app_keys st \<and> sub st' = sub st \<and> iv_index st' = iv_index st \<and>
     delivered st' = delivered st"

lemma found_rx_complete:
  assumes "sar_inv rx hdr sa sdu i K (seg_rxs st)" and "sdu \<noteq> []" and "length sdu \<le> rx_sdu_max E" and "last_seg sdu < 32" and "K \<subseteq> {..last_seg sdu}"
    and "k \<le> last_seg sdu" and "k \<notin> K" and "insert k K = {..last_seg sdu}"
    and "\<not> rx_ctl net_rx" and "\<not> rx_friend_match net_rx" and "rx_local_match net_rx" and "\<not> fst (is_replay net_rx st)"
  shows "\<exists>st'. same_keys st st' \<and> sar_inv rx hdr sa sdu i {..last_seg sdu} (seg_rxs st') \<and>
    found_rx C E now i hdr aszmic k (last_seg sdu) (take 12 (drop (12 * k) sdu)) sa' net_rx st =
      (case sdu_recv C E (net_rx\<lparr>rx_seq := ucast (sa AND 0xffffff)\<rparr>) hdr aszmic sdu st' of
         (err, st'') \<Rightarrow> (err, net_rx\<lparr>rx_seq := ucast (sa AND 0xffffff)\<rparr>, upd_rx i seg_rx_reset st''))"
proof -
  let ?st = "upd_rx i (store_segment now k (last_seg sdu) (take 12 (drop (12 * k) sdu))) st"
  have k: "k < 32" using assms(4,6) by simp
  have inv: "sar_inv rx hdr sa sdu i {..last_seg sdu} (seg_rxs ?st)" using sar_inv_store [OF assms(1,2,6) k, of now] assms(8) by simp
  then have b: "block (seg_rxs ?st ! i) = BLOCK_COMPLETE (last_seg sdu)"
    using block_complete_iff [OF _ assms(4)] by (auto simp: sar_inv_def)
  have st: "?st = st\<lparr>seg_rxs := seg_rxs ?st\<rparr>" by (simp add: upd_rx_def)
  obtain l x where rp: "is_replay net_rx ?st = (False, ?st\<lparr>rpl := l, rpl_index := x\<rparr>)"
    using is_replay_frame [of net_rx ?st] is_replay_fst [of net_rx _ st] assms(12) st by (metis prod.collapse)
  let ?st1 = "?st\<lparr>rpl := l, rpl_index := x\<rparr>" and ?net = "net_rx\<lparr>rx_seq := ucast (sa AND 0xffffff)\<rparr>"
  let ?r = "seg_rxs ?st1 ! i"
  have r: "take (buf_len ?r) (buf_data ?r) = sdu" "srx_seq_auth ?r = sa"
    using inv assembled_complete by (auto simp: sar_inv_def session_of_def)
  obtain q out where a: "send_ack C E (rx_sub ?net) (rx_dst ?net) (rx_addr ?net) (rx_send_ttl ?net) sa' (block ?r) (obo ?r)
      (upd_rx i (\<lambda>r. r\<lparr>srx_ack := None\<rparr>) ?st1) = (upd_rx i (\<lambda>r. r\<lparr>srx_ack := None\<rparr>) ?st1)\<lparr>seq := q, outbox := out\<rparr>"
    using send_ack_frame by blast
  let ?st2 = "(upd_rx i (\<lambda>r. r\<lparr>srx_ack := None\<rparr>) ?st1)\<lparr>seq := q, outbox := out\<rparr>"
  have "found_rx C E now i hdr aszmic k (last_seg sdu) (take 12 (drop (12 * k) sdu)) sa' net_rx st =
      (case sdu_recv C E ?net hdr aszmic sdu ?st2 of (err, st'') \<Rightarrow> (err, ?net, upd_rx i seg_rx_reset st''))"
    unfolding found_rx_stored [OF assms(1-3,6) k] Let_def
    using assms(7,9,10,11) b rp r a by (simp add: Let_def)
  moreover have "same_keys st ?st2" by (simp add: same_keys_def upd_rx_def)
  moreover have "sar_inv rx hdr sa sdu i {..last_seg sdu} (seg_rxs ?st2)"
    using inv by (auto simp: sar_inv_def session_of_def assembled_def upd_rx_def nth_list_update)
  ultimately show ?thesis by blast
qed


section \<open>Receiving the segments\<close>

text \<open>The values that \<open>trans_seg\<close> reads from a segment.\<close>

lemma trans_seg_segment:
  assumes "sdu \<noteq> []" and "k \<le> last_seg sdu" and "last_seg sdu < 32" and "unat seq_zero < 0x2000"
    and "sa = SEQ_AUTH (BT_MESH_NET_IVI_RX st net_rx) ((rx_seq net_rx AND 0xffffe000) OR ucast seq_zero)"
  shows "trans_seg C E now (segment hdr aszmic seq_zero sdu k) net_rx st =
    (case seg_rx_find net_rx sa (seg_rxs st) of
       (Some i, rs) \<Rightarrow>
         let rx = seg_rxs st ! i in
         if \<not> seg_rx_is_valid rx net_rx hdr (last_seg sdu) then (Some EINVAL, net_rx, st)
         else if in_use rx then found_rx C E now i hdr aszmic k (last_seg sdu) (take 12 (drop (12 * k) sdu)) sa net_rx st
         else if block rx = BLOCK_COMPLETE (srx_seg_n rx) then
           (Some EALREADY, net_rx,
            send_ack C E (rx_sub net_rx) (rx_dst net_rx) (rx_addr net_rx) (rx_send_ttl net_rx) sa (block rx) (obo rx) st)
         else (Some EINVAL, net_rx, st)
     | (None, rs) \<Rightarrow>
         let st = st\<lparr>seg_rxs := rs\<rparr> in
         if \<not> sdu_len_is_ok E (rx_ctl net_rx) (last_seg sdu) then
           (Some EMSGSIZE, net_rx,
            send_ack C E (rx_sub net_rx) (rx_dst net_rx) (rx_addr net_rx) (rx_send_ttl net_rx) sa 0 (rx_friend_match net_rx) st)
         else case seg_rx_alloc net_rx hdr sa (last_seg sdu) (seg_rxs st) of
           None \<Rightarrow> (Some ENOMEM, net_rx, st)
         | Some (i, rs) \<Rightarrow>
             found_rx C E now i hdr aszmic k (last_seg sdu) (take 12 (drop (12 * k) sdu)) sa net_rx
               (upd_rx i (\<lambda>r. r\<lparr>obo := rx_friend_match net_rx\<rparr>) (st\<lparr>seg_rxs := rs\<rparr>)))"
proof -
  let ?x = "of_nat k :: u8" and ?y = "of_nat (last_seg sdu) :: u8"
  have u: "unat ?x = k" "unat ?y = last_seg sdu" using assms(2,3) by (simp_all add: unat_of_nat)
  have xy: "unat ?x < 32" "unat ?y < 32" using u assms(2,3) by simp_all
  let ?b1 = "push_bit 7 (of_bool aszmic) OR ucast (drop_bit 6 seq_zero) :: u8" and ?b2 = "push_bit 2 (ucast (seq_zero AND 0x3f)) OR drop_bit 3 ?x"
  let ?s = "push_bit 5 (?x AND 0x07) OR ?y" and ?d = "take 12 (drop (12 * k) sdu)"
  have seg: "segment hdr aszmic seq_zero sdu k = hdr # [?b1, ?b2] @ ?s # ?d"
    by (simp add: segment_def seg_header_def)
  note h = parse_header(1,2) [OF xy assms(4), of aszmic "?s # ?d"] parse_header(3) [OF xy assms(4)] parse_header(4) [OF xy assms(4), of aszmic]
  have len: "\<not> length (segment hdr aszmic seq_zero sdu k) < 5" using segment_lengths(3) [OF assms(1,2)] unfolding seg by (simp del: length_take)
  have f: "segment hdr aszmic seq_zero sdu k ! 0 = hdr" "ASZMIC (segment hdr aszmic seq_zero sdu k) = aszmic"
    "drop 1 (segment hdr aszmic seq_zero sdu k) = [?b1, ?b2] @ ?s # ?d" "segment hdr aszmic seq_zero sdu k ! 3 = ?s"
    "drop 4 (segment hdr aszmic seq_zero sdu k) = ?d"
    using h(4) by (simp_all add: seg ASZMIC_def numeral_3_eq_3)
  have o: "\<not> k > last_seg sdu" using assms(2) by simp
  show ?thesis
    unfolding trans_seg_def if_not_P [OF len] Let_def f h u if_not_P [OF o] assms(5) [symmetric] ..
qed


lemma find_index_Some: "find_index P xs = Some i \<Longrightarrow> i < length xs \<and> P (xs ! i)"
  by (induction xs arbitrary: i) (auto split: if_splits)

lemma seg_rx_find_unique:
  assumes "i < length rs" and "srx_src (rs ! i) = rx_addr net_rx" and "srx_dst (rs ! i) = rx_dst net_rx" and "srx_seq_auth (rs ! i) = sa"
    and "\<forall>j<length rs. j \<noteq> i \<longrightarrow> srx_src (rs ! j) \<noteq> rx_addr net_rx \<or> srx_dst (rs ! j) \<noteq> rx_dst net_rx"
  shows "seg_rx_find net_rx sa rs = (Some i, rs)"
  using assms
proof (induction rs arbitrary: i)
  case (Cons r rs)
  show ?case
  proof (cases i)
    case 0
    then show ?thesis using Cons.prems by simp
  next
    case (Suc j)
    have "srx_src r \<noteq> rx_addr net_rx \<or> srx_dst r \<noteq> rx_dst net_rx" using Cons.prems(5) Suc by force
    moreover have "seg_rx_find net_rx sa rs = (Some j, rs)"
      using Cons.prems Suc by (intro Cons.IH) force+
    ultimately show ?thesis using Suc by simp
  qed
qed simp

lemma seg_rx_find_none:
  "\<forall>r\<in>set rs. srx_src r \<noteq> rx_addr net_rx \<or> srx_dst r \<noteq> rx_dst net_rx \<Longrightarrow> seg_rx_find net_rx sa rs = (None, rs)"
  by (induction rs) auto

text \<open>The session when the SDU has been received.\<close>

definition done_inv :: "bt_mesh_net_rx \<Rightarrow> byte \<Rightarrow> u64 \<Rightarrow> nat \<Rightarrow> nat \<Rightarrow> seg_rx list \<Rightarrow> bool" where
  "done_inv rx hdr sa n i rs \<longleftrightarrow>
     i < length rs \<and> \<not> in_use (rs ! i) \<and> session_of ((rs ! i)\<lparr>in_use := True\<rparr>) rx hdr sa n \<and> block (rs ! i) = BLOCK_COMPLETE n \<and>
     (\<forall>j<length rs. j \<noteq> i \<longrightarrow> srx_src (rs ! j) \<noteq> rx_addr rx \<or> srx_dst (rs ! j) \<noteq> rx_dst rx)"

text \<open>
  What stays the same while the segments of one SDU arrive: \<open>s\<close> is the sequence number of the PDU, and \<open>seq0\<close> that of the
  first segment, both in the same block of 8192 sequence numbers.
\<close>

definition seg_arrival :: "bt_mesh_net_rx \<Rightarrow> u32 \<Rightarrow> byte \<Rightarrow> bool \<Rightarrow> byte list \<Rightarrow> nat \<times> u32 \<Rightarrow> byte list \<times> bt_mesh_net_rx" where
  "seg_arrival rx seq0 hdr aszmic sdu ks = (segment hdr aszmic (ucast (seq0 AND 0x1fff)) sdu (fst ks), rx\<lparr>rx_seq := snd ks\<rparr>)"

definition same_block :: "u32 \<Rightarrow> u32 \<Rightarrow> bool" where
  "same_block s seq0 \<longleftrightarrow> s AND 0xffffe000 = seq0 AND 0xffffe000"

lemma seq_zero_facts:
  assumes "same_block s seq0"
  shows "unat (ucast (seq0 AND 0x1fff) :: u16) < 0x2000" "(s AND 0xffffe000) OR ucast (ucast (seq0 AND 0x1fff) :: u16) = seq0"
proof -
  have m: "(0x1fff :: u32) = mask 13" "(0xffffe000 :: u32) = NOT (mask 13)" by (simp_all add: mask_eq_exp_minus_1)
  have "(ucast (seq0 AND 0x1fff) :: u16) = take_bit 13 (ucast seq0)"
    unfolding m by (rule bit_word_eqI) (auto simp: bit_simps)
  then have "unat (ucast (seq0 AND 0x1fff) :: u16) = take_bit 13 (unat (ucast seq0 :: u16))" by (simp add: unsigned_take_bit_eq)
  then show "unat (ucast (seq0 AND 0x1fff) :: u16) < 0x2000" using take_bit_nat_less_exp [of 13 "unat (ucast seq0 :: u16)"] by simp
  have "(seq0 AND NOT (mask 13)) OR ucast (ucast (seq0 AND mask 13) :: u16) = seq0"
    by (rule bit_word_eqI) (auto simp: bit_simps)
  then show "(s AND 0xffffe000) OR ucast (ucast (seq0 AND 0x1fff) :: u16) = seq0" using assms unfolding same_block_def m by simp
qed


lemma seq_auth_low:
  assumes "seq0 < 0x1000000"
  shows "ucast (SEQ_AUTH iv seq0 AND 0xffffff) = seq0"
proof -
  have m: "(0xffffff :: u64) = mask 24" by (simp add: mask_eq_exp_minus_1)
  have lt: "n < 24" if "bit seq0 n" for n
    using assms that small_word_bit [of seq0 24 n] by (simp add: word_less_nat_alt) (meson not_le)
  show ?thesis unfolding m SEQ_AUTH_def by (intro bit_word_eqI) (auto simp: bit_simps dest: lt)
qed

text \<open>The conditions on the receiver and on the message, in the state \<open>st\<close> before the first segment.\<close>

definition sar_ready :: "mesh_env \<Rightarrow> bt_mesh_net_rx \<Rightarrow> u32 \<Rightarrow> byte list \<Rightarrow> mesh_state \<Rightarrow> bool" where
  "sar_ready E rx seq0 sdu st \<longleftrightarrow>
     sdu \<noteq> [] \<and> length sdu \<le> rx_sdu_max E \<and> length sdu \<le> 32 * 12 \<and> seq0 < 0x1000000 \<and>
     \<not> rx_ctl rx \<and> \<not> rx_friend_match rx \<and> rx_local_match rx \<and>
     (\<forall>r\<in>set (seg_rxs st). (srx_src r \<noteq> rx_addr rx \<or> srx_dst r \<noteq> rx_dst rx) \<and> length (buf_data r) = rx_sdu_max E) \<and>
     (\<exists>r\<in>set (seg_rxs st). \<not> in_use r)"

lemma find_index_ex: "\<exists>x\<in>set xs. P x \<Longrightarrow> \<exists>i. find_index P xs = Some i"
  by (induction xs) auto

lemma last_seg_less: "length sdu \<le> 32 * 12 \<Longrightarrow> sdu \<noteq> [] \<Longrightarrow> last_seg sdu < 32"
  by (simp add: last_seg_def less_mult_imp_div_less)

lemma first_segment:
  assumes "sar_ready E rx seq0 sdu st" and "k \<le> last_seg sdu" and "same_block s seq0"
    and "sa = SEQ_AUTH (BT_MESH_NET_IVI_RX st rx) seq0" and "net_rx = rx\<lparr>rx_seq := s\<rparr>"
  shows "\<exists>i rs. sar_inv rx hdr sa sdu i {} rs \<and>
    trans_seg C E now (segment hdr aszmic (ucast (seq0 AND 0x1fff)) sdu k) net_rx st =
    found_rx C E now i hdr aszmic k (last_seg sdu) (take 12 (drop (12 * k) sdu)) sa net_rx (st\<lparr>seg_rxs := rs\<rparr>)"
proof -
  have r: "sdu \<noteq> []" "last_seg sdu < 32" "\<not> rx_ctl rx" "\<forall>r\<in>set (seg_rxs st). srx_src r \<noteq> rx_addr rx \<or> srx_dst r \<noteq> rx_dst rx"
    using assms(1) by (auto simp: sar_ready_def intro: last_seg_less)
  obtain i where i: "find_index (\<lambda>r. \<not> in_use r) (seg_rxs st) = Some i" using assms(1) find_index_ex [of "seg_rxs st" "\<lambda>r. \<not> in_use r"] by (auto simp: sar_ready_def)
  then have il: "i < length (seg_rxs st)" "\<not> in_use (seg_rxs st ! i)" using find_index_Some by fastforce+
  have sa: "sa = SEQ_AUTH (BT_MESH_NET_IVI_RX st net_rx) ((rx_seq net_rx AND 0xffffe000) OR ucast (ucast (seq0 AND 0x1fff) :: u16))"
    using assms(4,5) seq_zero_facts(2) [OF assms(3)] by (simp add: BT_MESH_NET_IVI_RX_def)
  have find: "seg_rx_find net_rx sa (seg_rxs st) = (None, seg_rxs st)" using r(4) assms(5) by (intro seg_rx_find_none) simp
  let ?r = "(seg_rxs st ! i)\<lparr>in_use := True, buf_len := 0, srx_sub := rx_sub net_rx, srx_ctl := rx_ctl net_rx,
     srx_seq_auth := sa, srx_seg_n := last_seg sdu, srx_hdr := hdr, srx_ttl := rx_send_ttl net_rx,
     srx_src := rx_addr net_rx, srx_dst := rx_dst net_rx, block := 0, obo := rx_friend_match net_rx\<rparr>"
  let ?rs = "(seg_rxs st)[i := ?r]"
  have len: "length (buf_data (seg_rxs st ! i)) = rx_sdu_max E" "length sdu \<le> rx_sdu_max E"
    using assms(1) il(1) by (auto simp: sar_ready_def)
  have ok: "sdu_len_is_ok E (rx_ctl net_rx) (last_seg sdu)"
    using segment_lengths(3,4) [OF r(1) order_refl] len(2) r(3) assms(5) by (simp add: sdu_len_is_ok_def seg_len_def)
  have "trans_seg C E now (segment hdr aszmic (ucast (seq0 AND 0x1fff)) sdu k) net_rx st =
    found_rx C E now i hdr aszmic k (last_seg sdu) (take 12 (drop (12 * k) sdu)) sa net_rx (st\<lparr>seg_rxs := ?rs\<rparr>)"
    unfolding trans_seg_segment [OF r(1) assms(2) r(2) seq_zero_facts(1) [OF assms(3)] sa] find
    using ok i il(1) by (simp add: seg_rx_alloc_def upd_rx_def Let_def)
  moreover have "sar_inv rx hdr sa sdu i {} ?rs"
    using il(1) len r(3,4) assms(5) by (auto simp: sar_inv_def session_of_def assembled_def nth_list_update)
  ultimately show ?thesis by blast
qed

lemma next_segment:
  assumes "sar_inv rx hdr sa sdu i K (seg_rxs st)" and "sdu \<noteq> []" and "last_seg sdu < 32" and "k \<le> last_seg sdu" and "same_block s seq0"
    and "sa = SEQ_AUTH (BT_MESH_NET_IVI_RX st rx) seq0" and "net_rx = rx\<lparr>rx_seq := s\<rparr>" and "\<not> rx_ctl rx"
  shows "trans_seg C E now (segment hdr aszmic (ucast (seq0 AND 0x1fff)) sdu k) net_rx st =
    found_rx C E now i hdr aszmic k (last_seg sdu) (take 12 (drop (12 * k) sdu)) sa net_rx st"
proof -
  have sa: "sa = SEQ_AUTH (BT_MESH_NET_IVI_RX st net_rx) ((rx_seq net_rx AND 0xffffe000) OR ucast (ucast (seq0 AND 0x1fff) :: u16))"
    using assms(6,7) seq_zero_facts(2) [OF assms(5)] by (simp add: BT_MESH_NET_IVI_RX_def)
  have find: "seg_rx_find net_rx sa (seg_rxs st) = (Some i, seg_rxs st)"
    using assms(1,7) by (intro seg_rx_find_unique) (auto simp: sar_inv_def session_of_def)
  show ?thesis
    unfolding trans_seg_segment [OF assms(2,4,3) seq_zero_facts(1) [OF assms(5)] sa] find
    using assms(1,7,8) by (simp add: sar_inv_def session_of_def seg_rx_is_valid_def Let_def)
qed

lemma late_segment:
  assumes "done_inv rx hdr sa (last_seg sdu) i (seg_rxs st)" and "sdu \<noteq> []" and "last_seg sdu < 32" and "k \<le> last_seg sdu" and "same_block s seq0"
    and "sa = SEQ_AUTH (BT_MESH_NET_IVI_RX st rx) seq0" and "net_rx = rx\<lparr>rx_seq := s\<rparr>" and "\<not> rx_ctl rx"
  shows "\<exists>q out. trans_seg C E now (segment hdr aszmic (ucast (seq0 AND 0x1fff)) sdu k) net_rx st = (Some EALREADY, net_rx, st\<lparr>seq := q, outbox := out\<rparr>)"
proof -
  have sa: "sa = SEQ_AUTH (BT_MESH_NET_IVI_RX st net_rx) ((rx_seq net_rx AND 0xffffe000) OR ucast (ucast (seq0 AND 0x1fff) :: u16))"
    using assms(6,7) seq_zero_facts(2) [OF assms(5)] by (simp add: BT_MESH_NET_IVI_RX_def)
  have find: "seg_rx_find net_rx sa (seg_rxs st) = (Some i, seg_rxs st)"
    using assms(1,7) by (intro seg_rx_find_unique) (auto simp: done_inv_def session_of_def)
  show ?thesis
    unfolding trans_seg_segment [OF assms(2,4,3) seq_zero_facts(1) [OF assms(5)] sa] find
    using assms(1,7,8) send_ack_frame by (auto simp: done_inv_def session_of_def seg_rx_is_valid_def Let_def)
qed


text \<open>The state after one segment, and after a list of them.\<close>

definition recv_segment :: "crypto_lib \<Rightarrow> mesh_env \<Rightarrow> 64 word \<Rightarrow> byte list \<times> bt_mesh_net_rx \<Rightarrow> mesh_state \<Rightarrow> mesh_state" where
  "recv_segment C E now x st = snd (snd (trans_seg C E now (fst x) (snd x) st))"

definition sdu_opens :: "crypto_lib \<Rightarrow> mesh_env \<Rightarrow> bt_mesh_net_rx \<Rightarrow> byte \<Rightarrow> bool \<Rightarrow> byte list \<Rightarrow> u16 \<Rightarrow> byte list \<Rightarrow> mesh_state \<Rightarrow> bool" where
  "sdu_opens C E rx hdr aszmic sdu idx msg st \<longleftrightarrow>
     (\<forall>st'. same_keys st st' \<longrightarrow> sdu_recv C E rx hdr aszmic sdu st' = (None, model_recv (rx\<lparr>rx_app_idx := idx\<rparr>) msg st'))"

text \<open>The two phases of a session: segments \<open>K\<close> are there, or the message has been delivered.\<close>

definition sar_partial :: "bt_mesh_net_rx \<Rightarrow> byte \<Rightarrow> u64 \<Rightarrow> byte list \<Rightarrow> nat set \<Rightarrow> mesh_state \<Rightarrow> mesh_state \<Rightarrow> bool" where
  "sar_partial rx hdr sa sdu K st0 st \<longleftrightarrow> (\<exists>i. sar_inv rx hdr sa sdu i K (seg_rxs st)) \<and> (\<exists>rs. st = st0\<lparr>seg_rxs := rs\<rparr>)"

definition sar_done :: "bt_mesh_net_rx \<Rightarrow> byte \<Rightarrow> u64 \<Rightarrow> nat \<Rightarrow> bt_mesh_net_rx \<times> byte list \<Rightarrow> mesh_state \<Rightarrow> mesh_state \<Rightarrow> bool" where
  "sar_done rx hdr sa n x st0 st \<longleftrightarrow>
     (\<exists>i. done_inv rx hdr sa n i (seg_rxs st)) \<and> delivered st = delivered st0 @ [x] \<and> iv_index st = iv_index st0"

lemma store_phase:
  fixes now :: "64 word"
  assumes "sar_inv rx hdr sa sdu i K rs" and "sar_ready E rx seq0 sdu st0" and "K \<subseteq> {..last_seg sdu}" and "K \<noteq> {..last_seg sdu}" and "k \<le> last_seg sdu"
    and "sa = SEQ_AUTH (BT_MESH_NET_IVI_RX st0 rx) seq0" and "net_rx = rx\<lparr>rx_seq := s\<rparr>" and "\<not> fst (is_replay net_rx st0)"
    and "sdu_opens C E (rx\<lparr>rx_seq := seq0\<rparr>) hdr aszmic sdu idx msg st0"
  defines "st \<equiv> snd (snd (found_rx C E now i hdr aszmic k (last_seg sdu) (take 12 (drop (12 * k) sdu)) sa net_rx (st0\<lparr>seg_rxs := rs\<rparr>)))"
  shows "if insert k K = {..last_seg sdu} then sar_done rx hdr sa (last_seg sdu) (rx\<lparr>rx_seq := seq0, rx_app_idx := idx\<rparr>, msg) st0 st
    else sar_partial rx hdr sa sdu (insert k K) st0 st"
proof -
  have r: "sdu \<noteq> []" "length sdu \<le> rx_sdu_max E" "last_seg sdu < 32" "\<not> rx_ctl net_rx" "\<not> rx_friend_match net_rx" "rx_local_match net_rx"
      "ucast (sa AND 0xffffff) = seq0"
    using assms(2,6,7) seq_auth_low by (auto simp: sar_ready_def intro: last_seg_less)
  let ?st = "st0\<lparr>seg_rxs := rs\<rparr>"
  have inv: "sar_inv rx hdr sa sdu i K (seg_rxs ?st)" using assms(1) by simp
  show ?thesis
  proof (cases "insert k K = {..last_seg sdu}")
    case True
    then have "k \<notin> K" using assms(4) by (auto simp: insert_absorb)
    have "\<not> fst (is_replay net_rx ?st)" using assms(8) by (simp add: is_replay_fst)
    from found_rx_complete [OF inv r(1-3) assms(3,5) \<open>k \<notin> K\<close> True r(4-6) this, of C now aszmic sa]
    obtain st' where st': "same_keys ?st st'" "sar_inv rx hdr sa sdu i {..last_seg sdu} (seg_rxs st')"
        "found_rx C E now i hdr aszmic k (last_seg sdu) (take 12 (drop (12 * k) sdu)) sa net_rx ?st =
          (case sdu_recv C E (net_rx\<lparr>rx_seq := seq0\<rparr>) hdr aszmic sdu st' of
             (err, st'') \<Rightarrow> (err, net_rx\<lparr>rx_seq := seq0\<rparr>, upd_rx i seg_rx_reset st''))"
      unfolding r(7) by blast
    have "same_keys st0 st'" using st'(1) by (simp add: same_keys_def)
    then have st: "st = upd_rx i seg_rx_reset (model_recv (rx\<lparr>rx_seq := seq0, rx_app_idx := idx\<rparr>) msg st')"
      using st'(3) assms(7,9) by (simp add: sdu_opens_def st_def)
    have "block (seg_rxs st' ! i) = BLOCK_COMPLETE (last_seg sdu)"
      using st'(2) block_complete_iff [OF _ r(3)] by (auto simp: sar_inv_def)
    then have "done_inv rx hdr sa (last_seg sdu) i (seg_rxs st)"
      using st'(2) by (auto simp: st done_inv_def sar_inv_def session_of_def upd_rx_def model_recv_def seg_rx_reset_def nth_list_update)
    moreover have "delivered st = delivered st0 @ [(rx\<lparr>rx_seq := seq0, rx_app_idx := idx\<rparr>, msg)]" "iv_index st = iv_index st0"
      using \<open>same_keys st0 st'\<close> by (simp_all add: st upd_rx_def model_recv_def same_keys_def)
    ultimately show ?thesis using True by (auto simp: sar_done_def)
  next
    case False
    from found_rx_partial [OF inv r(1-3) assms(3,5) False, of C now aszmic sa net_rx]
    show ?thesis using False unfolding st_def sar_partial_def by auto
  qed
qed

lemma segments_phase:
  fixes now :: "64 word"
  assumes "sar_ready E rx seq0 sdu st0" and "sa = SEQ_AUTH (BT_MESH_NET_IVI_RX st0 rx) seq0"
    and "sdu_opens C E (rx\<lparr>rx_seq := seq0\<rparr>) hdr aszmic sdu idx msg st0"
    and "\<forall>(k, s)\<in>set es. k \<le> last_seg sdu \<and> same_block s seq0 \<and> \<not> fst (is_replay (rx\<lparr>rx_seq := s\<rparr>) st0)" and "es \<noteq> []"
  defines "st \<equiv> fold (recv_segment C E now) (map (seg_arrival rx seq0 hdr aszmic sdu) es) st0"
  shows "if fst ` set es = {..last_seg sdu} then sar_done rx hdr sa (last_seg sdu) (rx\<lparr>rx_seq := seq0, rx_app_idx := idx\<rparr>, msg) st0 st
    else sar_partial rx hdr sa sdu (fst ` set es) st0 st"
  using assms(4,5) unfolding st_def
proof (induction es rule: rev_induct)
  case (snoc e es)
  obtain k s where e: "e = (k, s)" by (cases e)
  let ?K = "fst ` set es" and ?net = "rx\<lparr>rx_seq := s\<rparr>" and ?x = "(rx\<lparr>rx_seq := seq0, rx_app_idx := idx\<rparr>, msg)"
  let ?st = "fold (recv_segment C E now) (map (seg_arrival rx seq0 hdr aszmic sdu) es) st0"
  have k: "k \<le> last_seg sdu" "same_block s seq0" "\<not> fst (is_replay ?net st0)" using snoc.prems(1) by (auto simp: e)
  have r: "sdu \<noteq> []" "last_seg sdu < 32" "\<not> rx_ctl rx" using assms(1) by (auto simp: sar_ready_def intro: last_seg_less)
  have K: "?K \<subseteq> {..last_seg sdu}" using snoc.prems(1) by auto
  have KK: "fst ` set (es @ [e]) = insert k ?K" by (auto simp: e)
  let ?st' = "snd (snd (trans_seg C E now (segment hdr aszmic (ucast (seq0 AND 0x1fff)) sdu k) ?net ?st))"
  have st': "fold (recv_segment C E now) (map (seg_arrival rx seq0 hdr aszmic sdu) (es @ [e])) st0 = ?st'"
    by (simp add: recv_segment_def seg_arrival_def e)
  have fin: "{} \<noteq> {..last_seg sdu}" by blast
  consider "es = []" | "es \<noteq> []" "?K \<noteq> {..last_seg sdu}" | "es \<noteq> []" "?K = {..last_seg sdu}" by blast
  then show ?case
  proof cases
    case 1
    obtain i rs where f: "sar_inv rx hdr sa sdu i {} rs" "trans_seg C E now (segment hdr aszmic (ucast (seq0 AND 0x1fff)) sdu k) ?net ?st =
        found_rx C E now i hdr aszmic k (last_seg sdu) (take 12 (drop (12 * k) sdu)) sa ?net (st0\<lparr>seg_rxs := rs\<rparr>)"
      using first_segment [OF assms(1) k(1,2) assms(2) refl, of hdr C now aszmic] 1 by auto
    from store_phase [OF f(1) assms(1) _ fin k(1) assms(2) refl k(3) assms(3), of now] show ?thesis
      unfolding st' KK f(2) using 1 by simp
  next
    case 2
    then have "sar_partial rx hdr sa sdu ?K st0 ?st" using snoc.IH snoc.prems(1) by auto
    then obtain i rs where p: "sar_inv rx hdr sa sdu i ?K (seg_rxs ?st)" "?st = st0\<lparr>seg_rxs := rs\<rparr>" unfolding sar_partial_def by blast
    have sa: "sa = SEQ_AUTH (BT_MESH_NET_IVI_RX ?st rx) seq0" unfolding p(2) assms(2) by (simp add: BT_MESH_NET_IVI_RX_def)
    have inv: "sar_inv rx hdr sa sdu i ?K rs" using p(1) unfolding p(2) by simp
    from store_phase [OF inv assms(1) K 2(2) k(1) assms(2) refl k(3) assms(3), of now] show ?thesis
      unfolding st' KK next_segment [OF p(1) r(1,2) k(1,2) sa refl r(3)] unfolding p(2) .
  next
    case 3
    then have d: "sar_done rx hdr sa (last_seg sdu) ?x st0 ?st" using snoc.IH snoc.prems(1) by auto
    then obtain i where i: "done_inv rx hdr sa (last_seg sdu) i (seg_rxs ?st)" unfolding sar_done_def by blast
    have sa: "sa = SEQ_AUTH (BT_MESH_NET_IVI_RX ?st rx) seq0" using d by (simp add: sar_done_def assms(2) BT_MESH_NET_IVI_RX_def)
    obtain q out where "?st' = ?st\<lparr>seq := q, outbox := out\<rparr>"
      using late_segment [OF i r(1,2) k(1,2) sa refl r(3), of C E now aszmic] by auto
    then have "sar_done rx hdr sa (last_seg sdu) ?x st0 ?st'" using d by (simp add: sar_done_def)
    moreover have "insert k ?K = {..last_seg sdu}" using 3(2) k(1) by auto
    ultimately show ?thesis unfolding st' KK by simp
  qed
qed simp


section \<open>Delivery\<close>

text \<open>The key with which the receiver opens the SDU, and the index that the model gets.\<close>

definition rx_app_key :: "bt_mesh_net_rx \<Rightarrow> bt_mesh_app_key \<Rightarrow> u8 \<times> byte list" where
  "rx_app_key rx k = (if rx_new_key rx \<and> ak_updated k then ak_key1 k else ak_key0 k)"

definition holds_key :: "bt_mesh_net_rx \<Rightarrow> byte \<Rightarrow> byte list \<Rightarrow> u16 \<Rightarrow> mesh_state \<Rightarrow> bool" where
  "holds_key rx hdr key idx st \<longleftrightarrow>
     (if \<not> AKF hdr then key = dev_key st \<and> idx = BT_MESH_KEY_DEV
      else
        let nidx = net_idx (sub st ! rx_sub rx); ks = filter (\<lambda>k. ak_net_idx k = nidx \<and> fst (rx_app_key rx k) = AID hdr) (app_keys st)
        in ks \<noteq> [] \<and> snd (rx_app_key rx (hd ks)) = key \<and> ak_app_idx (hd ks) = idx)"

lemma holds_key_seq [simp]: "holds_key (rx\<lparr>rx_seq := s\<rparr>) hdr key idx st = holds_key rx hdr key idx st"
  by (simp add: holds_key_def rx_app_key_def)

lemma app_key_loop_first:
  assumes "filter (\<lambda>k. ak_net_idx k = nidx \<and> fst (rx_app_key rx k) = AID hdr) ks = k # ks'"
    and "bt_mesh_app_decrypt C (snd (rx_app_key rx k)) False aszmic buf len ad (rx_addr rx) (rx_dst rx) (rx_seq rx) iv = Inr msg"
  shows "app_key_loop C rx hdr aszmic buf len ad iv nidx ks = Some (ak_app_idx k, msg)"
  using assms by (induction ks) (auto simp: rx_app_key_def Let_def split: if_splits prod.splits)

lemma app_round_trip:
  assumes "crypto_ok C" and "msg \<noteq> []" and "\<forall>l. ad = Some l \<longrightarrow> 16 \<le> length l"
    and "bt_mesh_app_encrypt C key dev aszmic msg ad src dst sq iv = Inr sdu"
  shows "length sdu = length msg + APP_MIC_LEN aszmic"
    "bt_mesh_app_decrypt C key dev aszmic sdu (length sdu - APP_MIC_LEN aszmic) ad src dst sq iv = Inr msg"
proof -
  let ?aad = "case ad of None \<Rightarrow> [] | Some l \<Rightarrow> take 16 l"
  have "?aad = [] \<or> length ?aad = 16" using assms(3) by (cases ad) auto
  moreover have "APP_MIC_LEN aszmic \<le> 16" by (simp add: APP_MIC_LEN_def)
  ultimately show "length sdu = length msg + APP_MIC_LEN aszmic"
    "bt_mesh_app_decrypt C key dev aszmic sdu (length sdu - APP_MIC_LEN aszmic) ad src dst sq iv = Inr msg"
    using ccm_encrypt_ok [OF assms(1) _ _ assms(2), of ?aad "APP_MIC_LEN aszmic" key "create_app_nonce dev aszmic src dst sq iv"] assms(4)
    by (auto simp: bt_mesh_app_encrypt_def bt_mesh_app_decrypt_def)
qed

definition label_of :: "mesh_env \<Rightarrow> u16 \<Rightarrow> byte list option" where
  "label_of E dst = (if BT_MESH_ADDR_IS_VIRTUAL dst then label_uuid_get E dst else None)"

lemma opens_encrypted:
  assumes "crypto_ok C" and "msg \<noteq> []" and "\<forall>l. label_of E (rx_dst rx) = Some l \<longrightarrow> 16 \<le> length l" and "holds_key rx hdr key idx st"
    and "bt_mesh_app_encrypt C key (\<not> AKF hdr) aszmic msg (label_of E (rx_dst rx)) (rx_addr rx) (rx_dst rx) (rx_seq rx) (BT_MESH_NET_IVI_RX st rx) = Inr sdu"
  shows "sdu_opens C E rx hdr aszmic sdu idx msg st"
proof -
  note t = app_round_trip [OF assms(1-3,5)]
  have len: "\<not> length sdu < 1 + APP_MIC_LEN aszmic" using t(1) assms(2) by (cases msg) auto
  have "sdu_recv C E rx hdr aszmic sdu st' = (None, model_recv (rx\<lparr>rx_app_idx := idx\<rparr>) msg st')" if "same_keys st st'" for st'
  proof (cases "AKF hdr")
    case False
    then show ?thesis
      using that t(2) len assms(4) by (simp add: sdu_recv_def Let_def label_of_def holds_key_def same_keys_def BT_MESH_NET_IVI_RX_def)
  next
    case True
    let ?P = "\<lambda>k. ak_net_idx k = net_idx (sub st ! rx_sub rx) \<and> fst (rx_app_key rx k) = AID hdr"
    obtain k ks where k: "filter ?P (app_keys st) = k # ks" "snd (rx_app_key rx k) = key" "ak_app_idx k = idx"
      using assms(4) True by (cases "filter ?P (app_keys st)") (auto simp: holds_key_def Let_def)
    have "app_key_loop C rx hdr aszmic sdu (length sdu - APP_MIC_LEN aszmic) (label_of E (rx_dst rx)) (BT_MESH_NET_IVI_RX st rx)
        (net_idx (sub st ! rx_sub rx)) (app_keys st) = Some (idx, msg)"
      using app_key_loop_first [OF k(1)] t(2) k(2,3) True by simp
    then show ?thesis
      using that len True by (simp add: sdu_recv_def Let_def label_of_def same_keys_def BT_MESH_NET_IVI_RX_def)
  qed
  then show ?thesis by (simp add: sdu_opens_def)
qed



definition idle_rx :: seg_rx where
  "idle_rx = \<lparr>srx_sub = 0, srx_seq_auth = 0, srx_seg_n = 0, srx_ctl = False, in_use = False, obo = False, srx_hdr = 0, srx_ttl = 0, srx_src = 0,
     srx_dst = 0, block = 0, srx_last = 0, srx_ack = None, buf_len = 0, buf_data = replicate 384 0\<rparr>"

definition idle_tx :: seg_tx where
  "idle_tx = \<lparr>stx_sub = None, stx_seg = replicate 8 None, stx_seq_auth = 0, stx_dst = 0, stx_seg_n = 0, stx_new_key = False, nack_count = 0,
     stx_cb = False, stx_retransmit = False\<rparr>"

definition boot_mesh :: mesh_state where
  "boot_mesh = bt_mesh_net.extend boot_net
     (mesh_state.fields (replicate 16 0) (replicate 6 idle_tx) (replicate 4 idle_rx) 0 [] [] [])"

lemma boot_mesh_fields:
  "dev_key boot_mesh = replicate 16 0" "seg_txs boot_mesh = replicate 6 idle_tx" "seg_rxs boot_mesh = replicate 4 idle_rx" "delivered boot_mesh = []"
  "rpl boot_mesh = replicate 5 zero_rpl" "iv_index boot_mesh = 5" "sub boot_mesh = [boot_subnet]" "seq boot_mesh = 0" "iv_update boot_mesh = False"
  "outbox boot_mesh = []"
  by (simp_all add: boot_mesh_def bt_mesh_net.defs mesh_state.defs boot_net_def)




end
