(* ===== verification/Mesh_Wf.thy ===== *)
theory Mesh_Wf
  imports Mesh_Sar
begin

text \<open>
  The mesh stack as a transition system: the events that reach it and the well-formedness of its state, which every event keeps.  In a
  well-formed state all indices are within their arrays, and the reassembly never writes outside its buffers.
\<close>

section \<open>Well-formed states\<close>

definition net_wf :: "'a bt_mesh_net_scheme \<Rightarrow> bool" where
  "net_wf st \<longleftrightarrow>
     sub st \<noteq> [] \<and> dup_cache_next st < length (dup_cache st) \<and> msg_cache_next st < length (msg_cache st) \<and>
     rpl_index st < length (rpl st) \<and> length (rpl st) \<le> 255"

definition tx_wf :: "nat \<Rightarrow> seg_tx \<Rightarrow> bool" where
  "tx_wf n t \<longleftrightarrow> length (stx_seg t) = BT_MESH_TX_SEG_COUNT \<and> stx_seg_n t < BT_MESH_TX_SEG_COUNT \<and> (\<forall>i. stx_sub t = Some i \<longrightarrow> i < n)"

text \<open>\<open>m\<close> is the size of the reassembly buffers.\<close>

definition rx_wf :: "nat \<Rightarrow> nat \<Rightarrow> seg_rx \<Rightarrow> bool" where
  "rx_wf m n r \<longleftrightarrow> length (buf_data r) = m \<and> srx_sub r < n \<and>
     (in_use r \<longrightarrow> srx_seg_n r < 32 \<and> srx_seg_n r * seg_len (srx_ctl r) + 1 \<le> m \<and> buf_len r \<le> m)"

definition mesh_wf :: "nat \<Rightarrow> mesh_state \<Rightarrow> bool" where
  "mesh_wf m st \<longleftrightarrow> net_wf st \<and> list_all (tx_wf (length (sub st))) (seg_txs st) \<and> list_all (rx_wf m (length (sub st))) (seg_rxs st)"

text \<open>The table of keys: the network and the index of every application key, the index of every network key, and whether there is a network.\<close>

definition key_table :: "'a bt_mesh_net_scheme \<Rightarrow> (u16 \<times> u16) list \<times> u16 list \<times> bool" where
  "key_table st = (map (\<lambda>k. (ak_net_idx k, ak_app_idx k)) (app_keys st), map net_idx (sub st), valid st)"

text \<open>
  An operation of the network layer keeps the shape: \<open>net_ok st st'\<close> says that the state \<open>st'\<close> is well formed if \<open>st\<close> is, has as many subnets, the
  same table of keys, and the same variables of the transport layer.
\<close>

definition net_ok :: "'a bt_mesh_net_scheme \<Rightarrow> 'a bt_mesh_net_scheme \<Rightarrow> bool" where
  "net_ok st st' \<longleftrightarrow> (net_wf st \<longrightarrow> net_wf st') \<and> length (sub st') = length (sub st) \<and> key_table st' = key_table st \<and> bt_mesh_net.more st' = bt_mesh_net.more st"

lemma key_table_fields [simp]:
  "key_table (st\<lparr>iv_index := v\<rparr>) = key_table st" "key_table (st\<lparr>seq := q\<rparr>) = key_table st" "key_table (st\<lparr>iv_update := b\<rparr>) = key_table st"
  "key_table (st\<lparr>ivu_initiator := b\<rparr>) = key_table st" "key_table (st\<lparr>pending_update := b\<rparr>) = key_table st"
  "key_table (st\<lparr>last_update := t\<rparr>) = key_table st" "key_table (st\<lparr>ivu_timer := b\<rparr>) = key_table st" "key_table (st\<lparr>outbox := out\<rparr>) = key_table st"
  "key_table (st\<lparr>rpl := l\<rparr>) = key_table st" "key_table (st\<lparr>rpl_index := i\<rparr>) = key_table st" "key_table (st\<lparr>dup_cache := d\<rparr>) = key_table st"
  "key_table (st\<lparr>dup_cache_next := i\<rparr>) = key_table st" "key_table (st\<lparr>msg_cache := c\<rparr>) = key_table st" "key_table (st\<lparr>msg_cache_next := i\<rparr>) = key_table st"
  by (simp_all add: key_table_def)

lemma key_table_upd_sub [simp]: "(\<And>s. net_idx (f s) = net_idx s) \<Longrightarrow> key_table (upd_sub i f st) = key_table st"
  by (cases "i < length (sub st)") (auto simp: key_table_def upd_sub_def map_update list_update_beyond intro!: nth_equalityI simp: nth_list_update)

lemma net_ok_refl [simp]: "net_ok st st"
  by (simp add: net_ok_def)

lemma net_ok_trans [trans]: "net_ok a b \<Longrightarrow> net_ok b c \<Longrightarrow> net_ok a c"
  by (simp add: net_ok_def)

text \<open>Variables that are not arrays, and updates that keep the length of an array.\<close>

lemma net_ok_fields [simp]:
  "net_ok st (st\<lparr>iv_index := v\<rparr>)" "net_ok st (st\<lparr>seq := q\<rparr>)" "net_ok st (st\<lparr>iv_update := b\<rparr>)" "net_ok st (st\<lparr>ivu_initiator := b\<rparr>)"
  "net_ok st (st\<lparr>pending_update := b\<rparr>)" "net_ok st (st\<lparr>last_update := t\<rparr>)" "net_ok st (st\<lparr>ivu_timer := b\<rparr>)"
  "net_ok st (st\<lparr>outbox := out\<rparr>)"
  by (simp_all add: net_ok_def net_wf_def)

lemma net_ok_rpl: "length l = length (rpl st) \<Longrightarrow> net_ok st (st\<lparr>rpl := l\<rparr>)"
  by (simp add: net_ok_def net_wf_def)

lemma net_ok_upd_sub [simp]: "(\<And>s. net_idx (f s) = net_idx s) \<Longrightarrow> net_ok st (upd_sub i f st)"
  by (simp add: net_ok_def) (simp add: net_wf_def upd_sub_def)

lemma net_ok_simps [simp]:
  "net_ok st (emit x st)" "net_ok st (bt_mesh_rpl_reset st)" "net_ok st (rpl_clear st)"
  "net_ok st (bt_mesh_net_sec_update E j st)" "net_ok st (bt_mesh_beacon_ivu_initiator b st)"
  by (simp_all add: net_ok_def net_wf_def emit_def bt_mesh_rpl_reset_def rpl_clear_def bt_mesh_net_sec_update_def
      bt_mesh_beacon_ivu_initiator_def)

lemma net_ok_cache_add [simp]: "net_ok st (cache_add d i st)"
  by (simp add: cache_add_def)

lemma net_ok_beacon_update [simp]: "net_ok st (bt_mesh_net_beacon_update C i st)"
  by (simp add: bt_mesh_net_beacon_update_def Let_def split: sum.splits)

lemma net_ok_beacon_stats [simp]: "net_ok st (beacon_stats E i st)"
  by (simp add: beacon_stats_def)

lemma net_ok_fold: "(\<And>x s. net_ok s (f x s)) \<Longrightarrow> net_ok st (fold f xs st)"
  by (induction xs arbitrary: st) (auto intro: net_ok_trans)

lemma net_ok_do_iv_update [simp]: "net_ok st (do_iv_update C now iv upd st)"
proof -
  let ?f = "\<lambda>i st. if net_idx (sub st ! i) \<noteq> BT_MESH_KEY_UNUSED then bt_mesh_net_beacon_update C i st else st"
  let ?st = "(if upd then (bt_mesh_rpl_reset (st\<lparr>iv_update := upd, iv_index := iv\<rparr>))\<lparr>ivu_timer := True\<rparr>
              else st\<lparr>iv_update := upd, seq := 0, ivu_timer := False\<rparr>)\<lparr>last_update := now\<rparr>"
  have "net_ok st ?st" by (simp add: net_ok_def net_wf_def bt_mesh_rpl_reset_def)
  moreover have "net_ok ?st (fold ?f [0..<length (sub ?st)] ?st)" by (rule net_ok_fold) simp
  ultimately have "net_ok st (fold ?f [0..<length (sub ?st)] ?st)" by (rule net_ok_trans)
  then show ?thesis unfolding do_iv_update_def Let_def by simp
qed

lemma net_ok_iv_update [simp]: "net_ok st (snd (bt_mesh_net_iv_update C E now iv upd st))"
proof -
  have "net_ok st (snd (iv_recovery C now iv upd st))" for iv upd
    unfolding iv_recovery_def snd_conv by (rule net_ok_trans [OF _ net_ok_do_iv_update]) (simp add: net_ok_def net_wf_def rpl_clear_def)
  moreover have "net_ok st (snd (iv_update_allowed C E now iv upd st))" for iv upd by (simp add: iv_update_allowed_def)
  ultimately show ?thesis by (simp add: bt_mesh_net_iv_update_def)
qed

lemma net_ok_revoke_keys [simp]: "net_ok st (bt_mesh_net_revoke_keys i st)"
proof -
  have "key_table (st\<lparr>app_keys := map (\<lambda>k. if P k then k else k\<lparr>ak_key0 := ak_key1 k, ak_updated := False\<rparr>) (app_keys st)\<rparr>) = key_table st"
    for P and st :: "'a bt_mesh_net_scheme" by (simp add: key_table_def)
  then have "net_ok st (st\<lparr>app_keys := map (\<lambda>k. if P k then k else k\<lparr>ak_key0 := ak_key1 k, ak_updated := False\<rparr>) (app_keys st)\<rparr>)"
    for P and st :: "'a bt_mesh_net_scheme" by (simp add: net_ok_def net_wf_def)
  then show ?thesis unfolding bt_mesh_net_revoke_keys_def Let_def by (rule net_ok_trans [rotated]) simp
qed

lemma net_ok_kr_update [simp]: "net_ok st (snd (bt_mesh_kr_update i kr nk st))"
proof -
  let ?a = "upd_sub i (\<lambda>s. s\<lparr>kr_flag := kr\<rparr>) st"
  have a: "net_ok st ?a" by simp
  moreover have "net_ok st (upd_sub i (\<lambda>s. s\<lparr>kr_phase := ph\<rparr>) ?a)" for ph by (rule net_ok_trans [OF a]) simp
  moreover have "net_ok st (upd_sub i (\<lambda>s. s\<lparr>kr_phase := ph\<rparr>) (bt_mesh_net_revoke_keys i ?a))" for ph
    by (rule net_ok_trans [OF net_ok_trans [OF a net_ok_revoke_keys [of _ i]]]) simp
  ultimately show ?thesis by (cases kr) (simp_all add: bt_mesh_kr_update_def Let_def)
qed

lemma net_ok_ivu_complete [simp]: "net_ok st (ivu_complete C E now st)"
  unfolding ivu_complete_def Let_def by (rule net_ok_trans [OF _ net_ok_iv_update]) simp

lemma net_ok_is_replay [simp]: "net_ok st (snd (is_replay rx st))"
proof (cases "rpl_loop rx (rpl st)")
  case None
  then show ?thesis by (auto simp: is_replay_def net_ok_def net_wf_def intro!: mod_less_divisor)
next
  case (Some p)
  have "rpl_loop rx l = Some (b, l') \<Longrightarrow> length l' = length l" for l b l'
    by (induction l arbitrary: l') (auto split: if_splits)
  then show ?thesis using Some by (cases p) (simp add: is_replay_def net_ok_rpl)
qed


lemma net_ok_encode [simp]: "net_ok st (snd (bt_mesh_net_encode C tx buf room proxy st))"
  by (simp add: bt_mesh_net_encode_def Let_def)

lemma net_ok_send [simp]: "net_ok st (snd (bt_mesh_net_send C E tx buf room st))"
proof -
  obtain q out where "snd (bt_mesh_net_send C E tx buf room st) = st\<lparr>seq := q, outbox := out\<rparr>" using net_send_frame by blast
  then show ?thesis by (simp add: net_ok_def net_wf_def)
qed

lemmas net_ok_steps =
  net_ok_trans [OF _ net_ok_simps(1)] net_ok_trans [OF _ net_ok_simps(4)] net_ok_trans [OF _ net_ok_simps(5)] net_ok_trans [OF _ net_ok_cache_add]
  net_ok_trans [OF _ net_ok_iv_update] net_ok_trans [OF _ net_ok_kr_update] net_ok_trans [OF _ net_ok_beacon_update]
  net_ok_trans [OF _ net_ok_beacon_stats] net_ok_trans [OF _ net_ok_is_replay]

lemma net_ok_resend [simp]: "net_ok st (snd (bt_mesh_net_resend C E now i buf nk st))"
proof -
  have "net_ok st (emit x (st\<lparr>seq := q\<rparr>))" for x q by (intro net_ok_steps net_ok_fields)
  moreover have "net_ok st (bt_mesh_net_sec_update E None (snd (bt_mesh_net_iv_update C E now iv True (bt_mesh_beacon_ivu_initiator True (emit x (st\<lparr>seq := q\<rparr>))))))"
    for iv x q by (intro net_ok_steps net_ok_fields)
  ultimately show ?thesis by (simp add: bt_mesh_net_resend_def Let_def split: sum.splits)
qed

lemma net_ok_caches [simp]: "net_ok st (snd (check_dup d st))" "net_ok st (snd (msg_cache_match iv d st))"
  by (auto simp: check_dup_def msg_cache_match_def Let_def net_ok_def net_wf_def intro!: mod_less_divisor)

lemma net_ok_net_decrypt:
  assumes "net_decrypt C enc priv data rx st = (r, rx', st')"
  shows "net_ok st st' \<and> rx_sub rx' = rx_sub rx"
proof -
  let ?rx = "rx\<lparr>rx_old_iv := (IVI data \<noteq> ucast (iv_index st AND 1))\<rparr>"
  let ?iv = "BT_MESH_NET_IVI_RX st ?rx"
  show ?thesis
  proof (cases "bt_mesh_net_obfuscate C data ?iv priv")
    case (Inl e)
    then show ?thesis using assms by (auto simp: net_decrypt_def Let_def)
  next
    case (Inr buf)
    obtain b st1 where m: "(if rx_net_if rx = BT_MESH_NET_IF_ADV then msg_cache_match ?iv buf st else (False, st)) = (b, st1)" by fastforce
    then have "st1 = snd (if rx_net_if rx = BT_MESH_NET_IF_ADV then msg_cache_match ?iv buf st else (False, st))" by simp
    then have "net_ok st st1" by simp
    moreover have "st' = st1 \<and> rx_sub rx' = rx_sub rx" using assms Inr m by (cases b) (auto simp: net_decrypt_def Let_def split: if_splits)
    ultimately show ?thesis by simp
  qed
qed

lemma net_ok_find_loop:
  "net_find_loop C data n ss rx st = (r, rx', st') \<Longrightarrow> rx_sub rx < n + length ss \<Longrightarrow> net_ok st st' \<and> rx_sub rx' < n + length ss"
proof (induction ss arbitrary: n rx st)
  case (Cons s ss)
  let ?a = "if NID data = sk_nid (keys0 s) then net_decrypt C (sk_enc (keys0 s)) (sk_privacy (keys0 s)) data rx st else (Inl ENOENT, rx, st)"
  obtain r1 rx1 st1 where a: "?a = (r1, rx1, st1)" by (cases ?a)
  have 1: "net_ok st st1" "rx_sub rx1 = rx_sub rx" using a by (auto split: if_splits dest: net_ok_net_decrypt)
  let ?b = "if NID data = sk_nid (keys1 s) then net_decrypt C (sk_enc (keys1 s)) (sk_privacy (keys1 s)) data rx1 st1 else (Inl ENOENT, rx1, st1)"
  obtain r2 rx2 st2 where b: "?b = (r2, rx2, st2)" by (cases ?b)
  have 2: "net_ok st1 st2" "rx_sub rx2 = rx_sub rx1" using b by (auto split: if_splits dest: net_ok_net_decrypt)
  have lt: "rx_sub rx < n + 1 + length ss" using Cons.prems(2) by simp
  note IH = Cons.IH [of "n + 1"]
  have eq: "net_find_loop C data n (s # ss) rx st =
     (if net_idx s = BT_MESH_KEY_UNUSED then net_find_loop C data (n + 1) ss rx st
      else case r1 of
        Inr buf \<Rightarrow> (Some buf, rx1\<lparr>rx_net_idx := net_idx s, rx_sub := n\<rparr>, st1)
      | Inl e \<Rightarrow>
          if kr_phase s = BT_MESH_KR_NORMAL then net_find_loop C data (n + 1) ss rx1 st1
          else case r2 of
            Inr buf \<Rightarrow> (Some buf, rx2\<lparr>rx_new_key := True, rx_net_idx := net_idx s, rx_sub := n\<rparr>, st2)
          | Inl e \<Rightarrow> net_find_loop C data (n + 1) ss rx2 st2)"
    using a b by (auto split: sum.splits)
  show ?case
  proof (cases "net_idx s = BT_MESH_KEY_UNUSED")
    case True
    then show ?thesis using IH [of rx st] Cons.prems eq lt by simp
  next
    case False
    consider buf where "r1 = Inr buf" | e where "r1 = Inl e" "kr_phase s = BT_MESH_KR_NORMAL"
      | e buf where "r1 = Inl e" "kr_phase s \<noteq> BT_MESH_KR_NORMAL" "r2 = Inr buf" | e e' where "r1 = Inl e" "kr_phase s \<noteq> BT_MESH_KR_NORMAL" "r2 = Inl e'"
      by (cases r1; cases r2) auto
    then show ?thesis
    proof cases
      case (2 e)
      then show ?thesis using IH [of rx1 st1] Cons.prems(1) eq lt False 1 net_ok_trans [OF 1(1)] by simp
    next
      case (3 e buf)
      then show ?thesis using Cons.prems(1) eq False net_ok_trans [OF 1(1) 2(1)] by auto
    next
      case (4 e e')
      then show ?thesis using IH [of rx2 st2] Cons.prems(1) eq lt False 1 2 net_ok_trans [OF net_ok_trans [OF 1(1) 2(1)]] by simp
    qed (use Cons.prems(1) eq False 1 in auto)
  qed
qed simp


lemma net_ok_decode:
  assumes "bt_mesh_net_decode C E data net_if rx st = (r, rx', st')" and "rx_sub rx < length (sub st)"
  shows "net_ok st st' \<and> rx_sub rx' < length (sub st')"
proof -
  obtain b st1 where d: "(if net_if = BT_MESH_NET_IF_ADV then check_dup data st else (False, st)) = (b, st1)" by fastforce
  then have "st1 = snd (if net_if = BT_MESH_NET_IF_ADV then check_dup data st else (False, st))" by simp
  then have 1: "net_ok st st1" by simp
  obtain f rx1 st2 where f: "net_find_and_decrypt C data (rx\<lparr>rx_net_if := net_if\<rparr>) st1 = (f, rx1, st2)" by (cases "net_find_and_decrypt C data (rx\<lparr>rx_net_if := net_if\<rparr>) st1")
  have 2: "net_ok st1 st2 \<and> rx_sub rx1 < length (sub st1)"
    using net_ok_find_loop [of C data 0 "sub st1" "rx\<lparr>rx_net_if := net_if\<rparr>" st1 f rx1 st2] f assms(2) 1 by (simp add: net_find_and_decrypt_def net_ok_def)
  have "(st' = st \<or> st' = st1) \<and> rx' = rx \<or> st' = st2 \<and> rx_sub rx' = rx_sub rx1"
    using assms(1) d f by (cases b; cases f) (auto simp: bt_mesh_net_decode_def Let_def split: if_splits)
  then show ?thesis using 1 2 assms(2) net_ok_trans [OF 1, of st2] by (auto simp: net_ok_def)
qed

lemma net_ok_relay [simp]: "net_ok st (bt_mesh_net_relay C E buf rx st)"
  by (simp add: bt_mesh_net_relay_def Let_def split: sum.splits)

lemma net_ok_secure_beacon [simp]: "net_ok st (bt_mesh_beacon_recv C E now buf st)"
proof -
  have s: "net_ok st (secure_beacon_recv C E now b st)" for b
  proof (cases "cache_check b st")
    case None
    define st1 where "st1 i = (if ivu_initiator (cache_add b i st) \<and> iv_update (cache_add b i st) = BT_MESH_IV_UPDATE (b ! 0)
      then bt_mesh_beacon_ivu_initiator False (cache_add b i st) else cache_add b i st)" for i
    have 1: "net_ok st (st1 i)" for i by (simp add: st1_def) (intro impI net_ok_steps net_ok_refl)
    show ?thesis
    proof (cases "bt_mesh_subnet_find C (take 8 (drop 1 b)) (b ! 0) (sys_get_be32 (drop 9 b)) (drop 13 b) st")
      case (Some p)
      obtain i nk where p: "p = (i, nk)" by (cases p)
      obtain vc st2 where v: "bt_mesh_net_iv_update C E now (sys_get_be32 (drop 9 b)) (BT_MESH_IV_UPDATE (b ! 0)) (st1 i) = (vc, st2)" by fastforce
      obtain kc st3 where k: "bt_mesh_kr_update i (BT_MESH_KEY_REFRESH (b ! 0)) nk st2 = (kc, st3)" by fastforce
      have "st2 = snd (bt_mesh_net_iv_update C E now (sys_get_be32 (drop 9 b)) (BT_MESH_IV_UPDATE (b ! 0)) (st1 i))" using v by simp
      then have 2: "net_ok st st2" by (simp only:) (intro net_ok_steps 1)
      have "st3 = snd (bt_mesh_kr_update i (BT_MESH_KEY_REFRESH (b ! 0)) nk st2)" using k by simp
      then have 3: "net_ok st st3" by (simp only:) (intro net_ok_steps 2)
      let ?s = "if kc then bt_mesh_net_beacon_update C i st3 else st3"
      have s: "net_ok st ?s" by (cases kc; simp only: if_True if_False) (intro net_ok_steps 3)+
      have "net_ok st (beacon_stats E i (if vc then bt_mesh_net_sec_update E None ?s else if kc then bt_mesh_net_sec_update E (Some i) ?s else ?s))"
        by (rule net_ok_steps, cases vc; cases kc; simp only: if_True if_False) (use s in \<open>auto intro: net_ok_steps\<close>)
      moreover have "net_ok st (beacon_stats E i (cache_add b i st))" by (intro net_ok_steps net_ok_refl)
      ultimately show ?thesis
        unfolding secure_beacon_recv_def Let_def None Some p option.case prod.case st1_def [symmetric] v k by simp
    qed (simp add: secure_beacon_recv_def None Let_def)
  qed (simp add: secure_beacon_recv_def)
  then show ?thesis by (simp add: bt_mesh_beacon_recv_def split: list.splits)
qed


section \<open>The transport layer keeps states well formed\<close>

definition mesh_ok :: "nat \<Rightarrow> mesh_state \<Rightarrow> mesh_state \<Rightarrow> bool" where
  "mesh_ok m st st' \<longleftrightarrow> (mesh_wf m st \<longrightarrow> mesh_wf m st') \<and> length (sub st') = length (sub st) \<and> key_table st' = key_table st"

lemma key_table_trans_fields [simp]:
  "key_table (st\<lparr>seg_txs := t\<rparr>) = key_table st" "key_table (st\<lparr>seg_rxs := r\<rparr>) = key_table st" "key_table (st\<lparr>delivered := d\<rparr>) = key_table st"
  "key_table (st\<lparr>heartbeats := h\<rparr>) = key_table st" "key_table (st\<lparr>tx_ends := e\<rparr>) = key_table st" "key_table (st\<lparr>provisioned := b\<rparr>) = key_table st"
  "key_table (st\<lparr>dev_key := k\<rparr>) = key_table st" "key_table (st\<lparr>hb_sub_dst := a\<rparr>) = key_table st" for st :: mesh_state
  by (simp_all add: key_table_def)

lemma mesh_ok_refl [simp]: "mesh_ok m st st"
  by (simp add: mesh_ok_def)

lemma mesh_ok_trans [trans]: "mesh_ok m a b \<Longrightarrow> mesh_ok m b c \<Longrightarrow> mesh_ok m a c"
  by (simp add: mesh_ok_def)

lemma mesh_ok_if: "mesh_ok m st a \<Longrightarrow> mesh_ok m st b \<Longrightarrow> mesh_ok m st (if c then a else b)"
  by simp

lemma more_seg: "bt_mesh_net.more s = bt_mesh_net.more t \<Longrightarrow> seg_txs s = seg_txs t \<and> seg_rxs s = seg_rxs t" for s t :: mesh_state
  by (cases s; cases t) simp

lemma mesh_ok_net: "net_ok st st' \<Longrightarrow> mesh_ok m st st'"
  using more_seg [of st st'] by (auto simp: net_ok_def mesh_ok_def mesh_wf_def)

lemma list_all_update: "list_all P xs \<Longrightarrow> (i < length xs \<Longrightarrow> P y) \<Longrightarrow> list_all P (xs[i := y])"
  by (cases "i < length xs") (auto simp: list_all_length nth_list_update list_update_beyond)

lemma mesh_ok_upd_tx:
  assumes "\<And>t. tx_wf (length (sub st)) t \<Longrightarrow> tx_wf (length (sub st)) (f t)"
  shows "mesh_ok m st (upd_tx i f st)"
proof -
  have "list_all (tx_wf (length (sub st))) ((seg_txs st)[i := f (seg_txs st ! i)])" if "list_all (tx_wf (length (sub st))) (seg_txs st)"
    using that assms by (intro list_all_update) (auto simp: list_all_length)
  then show ?thesis by (auto simp: mesh_ok_def mesh_wf_def upd_tx_def net_wf_def)
qed

lemma mesh_ok_upd_rx:
  assumes "\<And>r. r = seg_rxs st ! i \<Longrightarrow> rx_wf m (length (sub st)) r \<Longrightarrow> rx_wf m (length (sub st)) (f r)"
  shows "mesh_ok m st (upd_rx i f st)"
proof -
  have "list_all (rx_wf m (length (sub st))) ((seg_rxs st)[i := f (seg_rxs st ! i)])" if "list_all (rx_wf m (length (sub st))) (seg_rxs st)"
    using that assms by (intro list_all_update) (auto simp: list_all_length)
  then show ?thesis by (auto simp: mesh_ok_def mesh_wf_def upd_rx_def net_wf_def)
qed

lemma mesh_ok_trace [simp]: "mesh_ok m st (st\<lparr>delivered := d\<rparr>)" "mesh_ok m st (st\<lparr>heartbeats := h\<rparr>)" "mesh_ok m st (st\<lparr>tx_ends := e\<rparr>)"
  by (auto simp: mesh_ok_def mesh_wf_def net_wf_def)

lemma tx_wf_updates [simp]:
  "tx_wf n (t\<lparr>stx_retransmit := b\<rparr>) = tx_wf n t" "tx_wf n (t\<lparr>nack_count := c\<rparr>) = tx_wf n t" "tx_wf n (t\<lparr>stx_dst := d\<rparr>) = tx_wf n t"
  "tx_wf n t \<Longrightarrow> tx_wf n (t\<lparr>stx_seg := (stx_seg t)[k := x]\<rparr>)"
  by (simp_all add: tx_wf_def)

lemma mesh_ok_tx_reset [simp]: "mesh_ok m st (seg_tx_reset C E now i st)"
proof -
  let ?a = "upd_tx i (\<lambda>t. t\<lparr>stx_retransmit := False, stx_cb := False, stx_seq_auth := 0, stx_sub := None, stx_dst := BT_MESH_ADDR_UNASSIGNED\<rparr>) st"
  let ?b = "upd_tx i (\<lambda>t. t\<lparr>stx_seg := replicate (stx_seg_n t + 1) None @ drop (stx_seg_n t + 1) (stx_seg t), nack_count := 0\<rparr>) ?a"
  let ?c = "?b\<lparr>pending_update := False\<rparr>"
  let ?u = "bt_mesh_net_iv_update C (with_tx E ?c) now (iv_index ?c) False ?c"
  have 1: "mesh_ok m st ?a" by (rule mesh_ok_upd_tx) (simp add: tx_wf_def)
  have 2: "mesh_ok m st ?b" by (rule mesh_ok_trans [OF 1 mesh_ok_upd_tx]) (auto simp: tx_wf_def)
  have n: "net_ok ?b (snd ?u)" by (intro net_ok_steps net_ok_fields)
  have 3: "mesh_ok m st (snd ?u)" by (rule mesh_ok_trans [OF 2 mesh_ok_net [OF n]])
  have 4: "mesh_ok m st (bt_mesh_net_sec_update E None (snd ?u))" by (rule mesh_ok_trans [OF 3 mesh_ok_net]) simp
  obtain b st' where u: "?u = (b, st')" by fastforce
  then have "mesh_ok m st st'" "mesh_ok m st (bt_mesh_net_sec_update E None st')" using 3 4 by simp_all
  then show ?thesis using 1 2 u by (cases b) (simp_all add: seg_tx_reset_def Let_def)
qed

lemma mesh_ok_tx_complete [simp]: "mesh_ok m st (seg_tx_complete C E now i err st)"
  unfolding seg_tx_complete_def by (rule mesh_ok_trans [OF _ mesh_ok_tx_reset]) simp

lemma mesh_ok_seg_sent [simp]: "mesh_ok m st (seg_sent C E now i st)"
proof -
  have "mesh_ok m st (upd_tx i (\<lambda>t. t\<lparr>stx_retransmit := True\<rparr>) st)" by (rule mesh_ok_upd_tx) simp
  then show ?thesis by (simp add: seg_sent_def)
qed

lemma mesh_ok_unacked_loop: "mesh_ok m st (send_unacked_loop C E now i ks st)"
proof (induction C E now i ks st rule: send_unacked_loop.induct)
  case (2 C E now i k os st)
  let ?t = "seg_txs st ! i"
  show ?case
  proof (cases "stx_seg ?t ! k")
    case None
    then show ?thesis using 2 by (simp add: Let_def)
  next
    case (Some s)
    let ?a = "upd_tx i (\<lambda>t. t\<lparr>stx_seg := (stx_seg t)[k := Some (s\<lparr>attempts := attempts s - 1\<rparr>)]\<rparr>) st"
    have a: "mesh_ok m st ?a" by (rule mesh_ok_upd_tx) simp
    have c: "mesh_ok m st (seg_tx_complete C E now i e ?a)" for e by (rule mesh_ok_trans [OF a]) simp
    show ?thesis
    proof (cases "busy s \<or> attempts s = 0 \<or> stx_sub ?t = None")
      case True
      then show ?thesis using 2(2) [OF refl Some] Some c by (auto simp: Let_def)
    next
      case False
      then obtain sb where sb: "stx_sub ?t = Some sb" by auto
      obtain r st1 where rs: "bt_mesh_net_resend C (with_tx E ?a) now sb (seg_pdu s) (stx_new_key ?t) ?a = (r, st1)" by fastforce
      then have "st1 = snd (bt_mesh_net_resend C (with_tx E ?a) now sb (seg_pdu s) (stx_new_key ?t) ?a)" by simp
      then have 1: "mesh_ok m st st1" by (simp only:) (rule mesh_ok_trans [OF a mesh_ok_net], simp)
      show ?thesis
      proof (cases r)
        case (Inl e)
        then show ?thesis using False Some sb rs mesh_ok_trans [OF 1 mesh_ok_tx_complete] by (simp add: Let_def)
      next
        case (Inr p)
        let ?b = "upd_tx i (\<lambda>t. t\<lparr>stx_seg := (stx_seg t)[k := Some \<lparr>seg_pdu = p, attempts = attempts s - 1, busy = True\<rparr>]\<rparr>) st1"
        have b: "mesh_ok m st ?b" by (rule mesh_ok_trans [OF 1 mesh_ok_upd_tx]) simp
        have "mesh_ok m ?b (send_unacked_loop C E now i os ?b)" using 2(3) [OF refl Some] False sb rs Inr by auto
        then show ?thesis using False Some sb rs Inr mesh_ok_trans [OF b] by (simp add: Let_def)
      qed
    qed
  qed
qed simp


lemma mesh_ok_retransmit [simp]: "mesh_ok m st (seg_tx_send_unacked C E now i st)" "mesh_ok m st (seg_retransmit C E now i st)"
proof -
  show 1: "mesh_ok m st (seg_tx_send_unacked C E now i st)" for st by (simp add: seg_tx_send_unacked_def mesh_ok_unacked_loop)
  show "mesh_ok m st (seg_retransmit C E now i st)"
    unfolding seg_retransmit_def by (rule mesh_ok_trans [OF mesh_ok_upd_tx 1]) simp
qed

lemma mesh_ok_net_send: "bt_mesh_net_send C E tx buf room st = (r, st') \<Longrightarrow> mesh_ok m st st'"
  using mesh_ok_net [OF net_ok_send [of st C E tx buf room]] by simp

lemma mesh_ok_send_unseg [simp]: "mesh_ok m st (snd (send_unseg C E tx sdu st))"
  by (auto simp: send_unseg_def Let_def split: prod.splits sum.splits dest: mesh_ok_net_send)

lemma mesh_ok_seg_loop: "mesh_ok m st (snd (send_seg_loop C E now i tx hdr seq_zero seg_n k sdu st))"
proof (induction C E now i tx hdr seq_zero seg_n k sdu st rule: send_seg_loop.induct)
  case (1 C E now i tx hdr seq_zero seg_n k sdu st)
  let ?p = "seg_header hdr (tx_aszmic tx) seq_zero k seg_n @ take 12 sdu"
  let ?a = "upd_tx i (\<lambda>t. t\<lparr>stx_seg := (stx_seg t)[k := Some \<lparr>seg_pdu = ?p, attempts = SEG_RETRANSMIT_ATTEMPTS, busy = False\<rparr>]\<rparr>) st"
  have a: "mesh_ok m st ?a" by (rule mesh_ok_upd_tx) simp
  obtain r st1 where s: "bt_mesh_net_send C E tx ?p (adv_tailroom ?p) ?a = (r, st1)" by fastforce
  have 1: "mesh_ok m st st1" by (rule mesh_ok_trans [OF a mesh_ok_net_send [OF s]])
  show ?case
  proof (cases "sdu = [] \<or> k \<ge> adv_bufs E")
    case True
    then show ?thesis by (subst send_seg_loop.simps) auto
  next
    case False
    show ?thesis
    proof (cases r)
      case (Inl e)
      have "mesh_ok m st (seg_tx_reset C E now i st1)" by (rule mesh_ok_trans [OF 1]) simp
      then show ?thesis using False s Inl by (subst send_seg_loop.simps) (simp add: Let_def)
    next
      case (Inr q)
      obtain p how where q: "q = (p, how)" by (cases q)
      let ?b = "upd_tx i (\<lambda>t. t\<lparr>stx_seg := (stx_seg t)[k := Some \<lparr>seg_pdu = p, attempts = SEG_RETRANSMIT_ATTEMPTS, busy = (how = Queued)\<rparr>]\<rparr>) st1"
      let ?c = "if how = Completed then seg_sent C E now i ?b else ?b"
      have b: "mesh_ok m st ?b" by (rule mesh_ok_trans [OF 1 mesh_ok_upd_tx]) simp
      have "mesh_ok m st ?c" by (intro mesh_ok_if b mesh_ok_trans [OF b mesh_ok_seg_sent])
      moreover have "mesh_ok m ?c (snd (send_seg_loop C E now i tx hdr seq_zero seg_n (k + 1) (drop 12 sdu) ?c))"
        using "1.IH" [OF _ _ refl refl s [symmetric] Inr q [symmetric] refl refl] False by simp
      ultimately have "mesh_ok m st (snd (send_seg_loop C E now i tx hdr seq_zero seg_n (k + 1) (drop 12 sdu) ?c))" by (rule mesh_ok_trans)
      then show ?thesis using False s Inr q by (subst send_seg_loop.simps) (simp add: Let_def)
    qed
  qed
qed

lemma mesh_ok_send_seg:
  assumes "tx_sub tx < length (sub st)"
  shows "mesh_ok m st (snd (send_seg C E now tx sdu cb st))"
proof -
  let ?f = "\<lambda>t. t\<lparr>stx_dst := tx_addr tx, stx_seg_n := (length sdu - 1) div 12, nack_count := (length sdu - 1) div 12 + 1,
    stx_seq_auth := SEQ_AUTH (BT_MESH_NET_IVI_TX st) (ucast (seq st)), stx_sub := Some (tx_sub tx),
    stx_new_key := kr_flag (sub st ! tx_sub tx), stx_cb := cb\<rparr>"
  have "mesh_ok m st (upd_tx i ?f st)" if "length sdu \<le> BT_MESH_TX_SDU_MAX" for i
    using that assms by (intro mesh_ok_upd_tx) (auto simp: tx_wf_def)
  then have "mesh_ok m st (snd (send_seg_loop C E now i tx hdr z n k sdu (upd_tx i ?f st)))" if "length sdu \<le> BT_MESH_TX_SDU_MAX" for i hdr z n k
    using that mesh_ok_trans mesh_ok_seg_loop by blast
  then show ?thesis by (simp add: send_seg_def Let_def split: option.splits)
qed

lemma mesh_ok_trans_send:
  assumes "tx_sub tx < length (sub st)"
  shows "mesh_ok m st (snd (bt_mesh_trans_send C E now tx msg room cb st))"
  using assms mesh_ok_send_seg
  by (auto simp: bt_mesh_trans_send_def Let_def split: option.splits sum.splits)

lemma mesh_ok_ctl_send [simp]: "mesh_ok m st (snd (bt_mesh_ctl_send C E tx op data st))"
  by (auto simp: bt_mesh_ctl_send_def Let_def split: prod.splits sum.splits dest: mesh_ok_net_send)

lemma mesh_ok_send_ack [simp]: "mesh_ok m st (send_ack C E sb src dst ttl sa blk ob st)"
  by (simp add: send_ack_def Let_def)

lemma ack_segment_wf: "tx_wf n t \<Longrightarrow> tx_wf n (ack_segment k t)"
  by (simp add: ack_segment_def tx_wf_def)

lemma ack_loop_wf: "tx_wf n t \<Longrightarrow> tx_wf n (ack_loop f ack t)"
  by (induction f arbitrary: ack t) (simp_all add: Let_def ack_segment_wf)

lemma seg_tx_lookup_wf: "seg_tx_lookup z ob a ts = Some (i, ts') \<Longrightarrow> list_all (tx_wf n) ts \<Longrightarrow> list_all (tx_wf n) ts' \<and> i < length ts'"
  by (induction ts arbitrary: i ts') (auto split: if_splits)

lemma mesh_ok_trans_ack [simp]: "mesh_ok m st (snd (trans_ack C E now rx buf st))"
proof (cases "seg_tx_lookup (drop_bit 2 (sys_get_be16 buf) AND 0x1fff) (bit (sys_get_be16 buf) 15) (rx_addr rx) (seg_txs st)")
  case (Some p)
  obtain i ts where p: "p = (i, ts)" by (cases p)
  let ?a = "st\<lparr>seg_txs := ts\<rparr>"
  let ?b = "upd_tx i (\<lambda>t. ack_loop 32 (sys_get_be32 (drop 2 buf)) (t\<lparr>stx_retransmit := False\<rparr>)) ?a"
  have a: "mesh_ok m st ?a" using seg_tx_lookup_wf [OF Some [unfolded p]] by (auto simp: mesh_ok_def mesh_wf_def net_wf_def)
  have b: "mesh_ok m st ?b" by (rule mesh_ok_trans [OF a mesh_ok_upd_tx]) (simp add: ack_loop_wf)
  have "mesh_ok m st (seg_tx_complete C E now i e ?a)" for e by (rule mesh_ok_trans [OF a]) simp
  moreover have "mesh_ok m st (seg_tx_complete C E now i e ?b)" for e by (rule mesh_ok_trans [OF b]) simp
  moreover have "mesh_ok m st (seg_tx_send_unacked C E now i ?b)" by (rule mesh_ok_trans [OF b]) simp
  ultimately show ?thesis using a Some p by (simp add: trans_ack_def Let_def)
qed (simp add: trans_ack_def Let_def)

lemma trans_ack_no_fault [simp]: "fst (trans_ack C E now rx buf st) \<noteq> Some EFAULT"
  by (simp add: trans_ack_def Let_def split: option.splits)

lemma mesh_ok_sdu_recv [simp]: "mesh_ok m st (snd (sdu_recv C E rx hdr aszmic buf st))" "fst (sdu_recv C E rx hdr aszmic buf st) \<noteq> Some EFAULT"
  by (simp_all add: sdu_recv_def model_recv_def Let_def split: sum.splits option.splits prod.splits)

lemma mesh_ok_ctl_recv [simp]: "mesh_ok m st (snd (ctl_recv C E now rx hdr buf st))" "fst (ctl_recv C E now rx hdr buf st) \<noteq> Some EFAULT"
  by (simp_all add: ctl_recv_def trans_heartbeat_def Let_def)

lemma mesh_ok_replay: "(if c then is_replay rx st else (False, st)) = (b, st') \<Longrightarrow> mesh_ok m st st'"
  using mesh_ok_net [OF net_ok_is_replay [of st rx]] by (auto split: if_splits)

lemma mesh_ok_trans_unseg [simp]: "mesh_ok m st (snd (trans_unseg C E now buf rx st))" "fst (trans_unseg C E now buf rx st) \<noteq> Some EFAULT"
proof -
  obtain b st1 where r: "(if rx_local_match rx then is_replay rx st else (False, st)) = (b, st1)" by fastforce
  note 1 = mesh_ok_replay [OF r, of m]
  have "mesh_ok m st (snd (ctl_recv C E now rx hdr d st1))" "mesh_ok m st (snd (sdu_recv C E rx hdr False d st1))" for hdr d
    by (rule mesh_ok_trans [OF 1]; simp)+
  then show "mesh_ok m st (snd (trans_unseg C E now buf rx st))" using r 1 by (cases b) (simp_all add: trans_unseg_def Let_def)
  show "fst (trans_unseg C E now buf rx st) \<noteq> Some EFAULT" using r by (cases b) (simp_all add: trans_unseg_def Let_def)
qed

lemma rx_wf_updates [simp]:
  "rx_wf m n (r\<lparr>srx_ack := a\<rparr>) = rx_wf m n r" "rx_wf m n (r\<lparr>block := b\<rparr>) = rx_wf m n r" "rx_wf m n (r\<lparr>obo := o'\<rparr>) = rx_wf m n r"
  "rx_wf m n (r\<lparr>srx_last := t\<rparr>) = rx_wf m n r" "rx_wf m n r \<Longrightarrow> rx_wf m n (seg_rx_reset r)"
  by (simp_all add: rx_wf_def seg_rx_reset_def)

lemma mesh_ok_rx_reset [simp]: "mesh_ok m st (upd_rx i seg_rx_reset st)"
  by (rule mesh_ok_upd_rx) simp

text \<open>
  The reassembly: the segment lies within the buffer of a context in use, since the last segment is checked against the size of the buffer and the others
  have their full length.
\<close>

lemma mesh_ok_too_long:
  "mesh_ok m st (upd_rx i seg_rx_reset (send_ack C E sb src dst ttl sa blk ob (upd_rx i (\<lambda>r. r\<lparr>buf_len := l\<rparr>) st)))"
proof -
  obtain q out where "send_ack C E sb src dst ttl sa blk ob (upd_rx i (\<lambda>r. r\<lparr>buf_len := l\<rparr>) st) = (upd_rx i (\<lambda>r. r\<lparr>buf_len := l\<rparr>) st)\<lparr>seq := q, outbox := out\<rparr>"
    using send_ack_frame by blast
  moreover have "upd_rx i seg_rx_reset ((upd_rx i (\<lambda>r. r\<lparr>buf_len := l\<rparr>) st)\<lparr>seq := q, outbox := out\<rparr>) =
      upd_rx i (\<lambda>r. seg_rx_reset (r\<lparr>buf_len := l\<rparr>)) (st\<lparr>seq := q, outbox := out\<rparr>)"
    by (cases "i < length (seg_rxs st)") (simp_all add: upd_rx_def list_update_beyond)
  moreover have "mesh_ok m st (upd_rx i (\<lambda>r. seg_rx_reset (r\<lparr>buf_len := l\<rparr>)) (st\<lparr>seq := q, outbox := out\<rparr>))"
    by (rule mesh_ok_trans [OF mesh_ok_net mesh_ok_upd_rx]) (simp_all add: net_ok_def net_wf_def rx_wf_def seg_rx_reset_def)
  ultimately show ?thesis by simp
qed

lemma mesh_ok_found:
  assumes "mesh_wf m st" and "i < length (seg_rxs st)" and "rx_sdu_max E = m" and "seg_o \<le> seg_n"
    and "in_use (seg_rxs st ! i)" and "srx_seg_n (seg_rxs st ! i) = seg_n"
    and eq: "found_rx C E now i hdr aszmic seg_o seg_n data seq_auth net_rx st = (err, rx', st')"
  shows "mesh_ok m st st' \<and> err \<noteq> Some EFAULT \<and> rx_sub rx' = rx_sub net_rx"
proof -
  let ?r = "seg_rxs st ! i"
  let ?l = "seg_len (srx_ctl ?r)"
  have r: "rx_wf m (length (sub st)) ?r" using assms(1,2) by (simp add: mesh_wf_def list_all_length)
  consider (dup) "bit (block ?r) seg_o" | (long) "\<not> bit (block ?r) seg_o" "seg_o = seg_n" "seg_n * ?l + length data > m"
    | (short) "\<not> bit (block ?r) seg_o" "seg_o \<noteq> seg_n" "length data \<noteq> ?l"
    | (fits) "\<not> bit (block ?r) seg_o" "seg_o = seg_n \<Longrightarrow> seg_n * ?l + length data \<le> m" "seg_o \<noteq> seg_n \<Longrightarrow> length data = ?l"
    by (metis not_le)
  then show ?thesis
  proof cases
    case fits
    have o: "seg_o * ?l + length data \<le> m"
    proof (cases "seg_o = seg_n")
      case False
      then have "Suc seg_o * ?l \<le> seg_n * ?l" using assms(4) by (intro mult_right_mono) auto
      then show ?thesis using fits(3) [OF False] r assms(5,6) by (simp add: rx_wf_def)
    qed (use fits in simp)
    let ?f = "\<lambda>r. r\<lparr>buf_len := (if seg_o = seg_n then seg_n * ?l + length data else buf_len r), srx_last := ucast now,
        srx_ack := (case srx_ack r of None \<Rightarrow> Some (ack_timeout r) | Some t \<Rightarrow> Some t),
        buf_data := take (seg_o * ?l) (buf_data r) @ data @ drop (seg_o * ?l + length data) (buf_data r), block := block r OR push_bit seg_o 1\<rparr>"
    let ?a = "upd_rx i ?f st"
    have a: "mesh_ok m st ?a" by (rule mesh_ok_upd_rx) (use o fits in \<open>auto simp: rx_wf_def\<close>)
    obtain b st1 where rp: "(if rx_local_match net_rx then is_replay net_rx ?a else (False, ?a)) = (b, st1)" by fastforce
    have 1: "mesh_ok m st st1" by (rule mesh_ok_trans [OF a mesh_ok_replay [OF rp]])
    have 2: "mesh_ok m st (upd_rx i (\<lambda>r. r\<lparr>block := block r AND NOT (push_bit seg_o 1)\<rparr>) st1)" by (rule mesh_ok_trans [OF 1 mesh_ok_upd_rx]) simp
    define net' where "net' = (if \<not> rx_friend_match net_rx then net_rx\<lparr>rx_seq := ucast (srx_seq_auth (seg_rxs st1 ! i) AND 0xffffff)\<rparr> else net_rx)"
    define st2 where "st2 = send_ack C E (rx_sub net') (rx_dst net') (rx_addr net') (rx_send_ttl net') seq_auth (block (seg_rxs st1 ! i)) (obo (seg_rxs st1 ! i))
      (upd_rx i (\<lambda>r. r\<lparr>srx_ack := None\<rparr>) st1)"
    have "mesh_ok m st (upd_rx i (\<lambda>r. r\<lparr>srx_ack := None\<rparr>) st1)" by (rule mesh_ok_trans [OF 1 mesh_ok_upd_rx]) simp
    then have 3: "mesh_ok m st st2" unfolding st2_def by (rule mesh_ok_trans) simp
    let ?d = "take (buf_len (seg_rxs st1 ! i)) (buf_data (seg_rxs st1 ! i))"
    obtain e st3 where d: "(if rx_ctl net' then ctl_recv C E now net' hdr ?d st2 else sdu_recv C E net' hdr aszmic ?d st2) = (e, st3)" by fastforce
    then have "st3 = snd (if rx_ctl net' then ctl_recv C E now net' hdr ?d st2 else sdu_recv C E net' hdr aszmic ?d st2)"
      "e = fst (if rx_ctl net' then ctl_recv C E now net' hdr ?d st2 else sdu_recv C E net' hdr aszmic ?d st2)" by simp_all
    then have d3: "mesh_ok m st2 st3" and f: "e \<noteq> Some EFAULT" by simp_all
    have 4: "mesh_ok m st (upd_rx i seg_rx_reset st3)" by (rule mesh_ok_trans [OF mesh_ok_trans [OF 3 d3] mesh_ok_rx_reset])
    have "found_rx C E now i hdr aszmic seg_o seg_n data seq_auth net_rx st =
        (if block (seg_rxs ?a ! i) \<noteq> BLOCK_COMPLETE seg_n then (None, net_rx, ?a)
         else if b then (Some EINVAL, net_rx, upd_rx i (\<lambda>r. r\<lparr>block := block r AND NOT (push_bit seg_o 1)\<rparr>) st1)
         else (e, net', upd_rx i seg_rx_reset st3))"
      unfolding found_rx_def Let_def rp prod.case net'_def [symmetric] st2_def [symmetric] d
      using fits o r assms(3) by (cases b) (auto simp: rx_wf_def not_less)
    then show ?thesis using eq a 2 4 f by (auto simp: net'_def split: if_splits)
  next
    case long
    then show ?thesis using eq assms(3) mesh_ok_too_long by (auto simp: found_rx_def Let_def)
  qed (use eq in \<open>auto simp: found_rx_def Let_def\<close>)
qed

lemma seg_rx_find_wf:
  "seg_rx_find rx sa rs = (f, rs') \<Longrightarrow> list_all (rx_wf m n) rs \<Longrightarrow> list_all (rx_wf m n) rs' \<and> (\<forall>i. f = Some i \<longrightarrow> i < length rs \<and> rs' = rs)"
proof (induction rs arbitrary: f rs')
  case (Cons r rs)
  obtain g rs1 where "seg_rx_find rx sa rs = (g, rs1)" by fastforce
  then show ?case using Cons by (auto split: if_splits)
qed simp

lemma seg_rx_alloc_wf:
  assumes "seg_rx_alloc rx hdr sa seg_n rs = Some (i, rs')" and "list_all (rx_wf m n) rs" and "rx_sub rx < n" and "seg_n < 32"
    and "seg_n * seg_len (rx_ctl rx) + 1 \<le> m"
  shows "list_all (rx_wf m n) rs' \<and> i < length rs' \<and> in_use (rs' ! i) \<and> srx_seg_n (rs' ! i) = seg_n"
proof -
  let ?r = "(rs ! i)\<lparr>in_use := True, buf_len := 0, srx_sub := rx_sub rx, srx_ctl := rx_ctl rx, srx_seq_auth := sa, srx_seg_n := seg_n, srx_hdr := hdr,
    srx_ttl := rx_send_ttl rx, srx_src := rx_addr rx, srx_dst := rx_dst rx, block := 0\<rparr>"
  have i: "find_index (\<lambda>r. \<not> in_use r) rs = Some i" and rs': "rs' = rs[i := ?r]" using assms(1) by (auto simp: seg_rx_alloc_def)
  have l: "i < length rs" using i find_index_Some by blast
  then have "rx_wf m n (rs ! i)" using assms(2) by (simp add: list_all_length)
  then have "rx_wf m n ?r" using assms by (simp add: rx_wf_def)
  then show ?thesis using l assms(2) rs' list_all_update by fastforce
qed

lemma mesh_ok_trans_seg:
  assumes wf: "mesh_wf m st" and m: "rx_sdu_max E = m" and sb: "rx_sub net_rx < length (sub st)"
    and eq: "trans_seg C E now buf net_rx st = (err, rx', st')"
  shows "mesh_ok m st st' \<and> err \<noteq> Some EFAULT \<and> rx_sub rx' = rx_sub net_rx"
proof -
  let ?w = "sys_get_be16 (drop 1 buf)"
  define seg_o where "seg_o = unat (push_bit 3 (ucast (?w AND 0x03)) OR drop_bit 5 (buf ! 3))"
  define seg_n where "seg_n = unat (buf ! 3 AND 0x1f)"
  define sa where "sa = SEQ_AUTH (BT_MESH_NET_IVI_RX st net_rx) ((rx_seq net_rx AND 0xffffe000) OR ucast (drop_bit 2 ?w AND 0x1fff))"
  note eq = eq [unfolded trans_seg_def Let_def, folded seg_o_def seg_n_def sa_def]
  have n: "seg_n < 32" using word_and_le1 [of "buf ! 3" "0x1f"] by (simp add: word_le_nat_alt seg_n_def)
  show ?thesis
  proof (cases "length buf < 5 \<or> seg_o > seg_n")
    case True
    then show ?thesis using eq by (auto split: if_splits)
  next
    case False
    obtain f rs where f: "seg_rx_find net_rx sa (seg_rxs st) = (f, rs)" by fastforce
    have w: "list_all (rx_wf m (length (sub st))) rs \<and> (\<forall>i. f = Some i \<longrightarrow> i < length (seg_rxs st) \<and> rs = seg_rxs st)"
      by (rule seg_rx_find_wf [OF f]) (use wf in \<open>simp add: mesh_wf_def\<close>)
    let ?a = "st\<lparr>seg_rxs := rs\<rparr>"
    have a: "mesh_wf m ?a" using wf w by (simp add: mesh_wf_def net_wf_def)
    show ?thesis
    proof (cases f)
      case (Some i)
      then show ?thesis
        using eq False f w wf m mesh_ok_found [of m st i E seg_o seg_n C now "buf ! 0" "ASZMIC buf" "drop 4 buf" sa net_rx err rx' st']
        by (auto simp: seg_rx_is_valid_def split: if_splits)
    next
      case None
      have ok: "mesh_ok m st ?a" using a by (simp add: mesh_ok_def)
      show ?thesis
      proof (cases "\<not> sdu_len_is_ok E (rx_ctl net_rx) seg_n \<or> seg_rx_alloc net_rx (buf ! 0) sa seg_n rs = None")
        case True
        then show ?thesis using eq False f None ok mesh_ok_trans [OF ok mesh_ok_send_ack] by (auto split: if_splits)
      next
        case ok': False
        then obtain i rs1 where al: "seg_rx_alloc net_rx (buf ! 0) sa seg_n rs = Some (i, rs1)" by auto
        have g: "list_all (rx_wf m (length (sub st))) rs1 \<and> i < length rs1 \<and> in_use (rs1 ! i) \<and> srx_seg_n (rs1 ! i) = seg_n"
          by (rule seg_rx_alloc_wf [OF al]) (use w sb n ok' m in \<open>auto simp: sdu_len_is_ok_def\<close>)
        let ?b = "st\<lparr>seg_rxs := rs1\<rparr>"
        let ?c = "upd_rx i (\<lambda>r. r\<lparr>obo := rx_friend_match net_rx\<rparr>) ?b"
        have b: "mesh_wf m ?b" using wf g by (simp add: mesh_wf_def net_wf_def)
        have "mesh_ok m ?b ?c" by (rule mesh_ok_upd_rx) simp
        then have c: "mesh_wf m ?c" "length (sub ?c) = length (sub st)" using b by (simp_all add: mesh_ok_def)
        have "found_rx C E now i (buf ! 0) (ASZMIC buf) seg_o seg_n (drop 4 buf) sa net_rx ?c = (err, rx', st')"
          using eq False f None ok' al by simp
        then have "mesh_ok m ?c st' \<and> err \<noteq> Some EFAULT \<and> rx_sub rx' = rx_sub net_rx"
          by (intro mesh_ok_found [OF c(1) _ m]) (use False g in \<open>auto simp: upd_rx_def\<close>)
        then show ?thesis using c by (simp add: mesh_ok_def upd_rx_def)
      qed
    qed
  qed
qed

lemma mesh_ok_trans_recv:
  assumes wf: "mesh_wf m st" and m: "rx_sdu_max E = m" and sb: "rx_sub rx < length (sub st)"
    and eq: "bt_mesh_trans_recv C E now buf rx st = (err, rx', st')"
  shows "mesh_ok m st st' \<and> err \<noteq> Some EFAULT"
proof -
  let ?rx = "rx\<lparr>rx_friend_match := False\<rparr>" and ?b = "drop BT_MESH_NET_HDR_LEN buf"
  obtain e st1 where u: "trans_unseg C E now ?b ?rx st = (e, st1)" by fastforce
  then have "mesh_ok m st st1 \<and> e \<noteq> Some EFAULT"
    using mesh_ok_trans_unseg(1) [of m st C E now ?b ?rx] mesh_ok_trans_unseg(2) [of C E now ?b ?rx st] by simp
  then show ?thesis
    using eq u mesh_ok_trans_seg [OF wf m, of ?rx C now ?b err rx' st'] sb by (auto simp: bt_mesh_trans_recv_def Let_def split: if_splits)
qed

lemma mesh_recv_cases:
  assumes wf: "mesh_wf m st" and m: "rx_sdu_max E = m"
  shows "mesh_ok m st (mesh_recv C E now data net_if st)"
proof -
  obtain r rx st1 where d: "bt_mesh_net_decode C E data net_if zero_rx st = (r, rx, st1)" by (cases "bt_mesh_net_decode C E data net_if zero_rx st")
  have "0 < length (sub st)" using wf by (simp add: mesh_wf_def net_wf_def)
  then have 1: "net_ok st st1 \<and> rx_sub rx < length (sub st1)" using net_ok_decode [OF d] by (simp add: zero_rx_def)
  then have 2: "mesh_ok m st st1" using mesh_ok_net by blast
  then have w: "mesh_wf m st1" using wf by (simp add: mesh_ok_def)
  show ?thesis
  proof (cases r)
    case (Inr buf)
    let ?rx = "rx\<lparr>rx_local_match := (fixed_group_match E (rx_dst rx) \<or> elem_find E (rx_dst rx))\<rparr>"
    obtain err rx2 st2 where t: "bt_mesh_trans_recv C E now buf ?rx st1 = (err, rx2, st2)" by (cases "bt_mesh_trans_recv C E now buf ?rx st1")
    have "mesh_ok m st1 st2" using mesh_ok_trans_recv [OF w m _ t] 1 by simp
    then have "mesh_ok m st st2" by (rule mesh_ok_trans [OF 2])
    moreover have "mesh_ok m st2 (bt_mesh_net_relay C E buf rx2 st2)" by (rule mesh_ok_net) simp
    ultimately show ?thesis using d Inr t mesh_ok_trans by (auto simp: mesh_recv_def bt_mesh_net_recv_def Let_def)
  qed (use d 2 in \<open>simp add: mesh_recv_def bt_mesh_net_recv_def\<close>)
qed

lemma mesh_ok_seg_ack [simp]: "mesh_ok m st (seg_ack C E now i st)"
proof -
  let ?a = "upd_rx i (\<lambda>r. r\<lparr>srx_ack := None\<rparr>) st"
  have a: "mesh_ok m st ?a" by (rule mesh_ok_upd_rx) simp
  have s: "mesh_ok m st (send_ack C E sb src dst ttl sa blk ob ?a)" for sb src dst ttl sa blk ob by (rule mesh_ok_trans [OF a]) simp
  have "mesh_ok m st (upd_rx i seg_rx_reset (send_ack C E sb src dst ttl sa blk ob ?a))" for sb src dst ttl sa blk ob
    by (rule mesh_ok_trans [OF s mesh_ok_rx_reset])
  moreover have "mesh_ok m st (upd_rx i (\<lambda>r. r\<lparr>srx_ack := Some (ack_timeout r)\<rparr>) (send_ack C E sb src dst ttl sa blk ob ?a))" for sb src dst ttl sa blk ob
    by (rule mesh_ok_trans [OF s mesh_ok_upd_rx]) simp
  ultimately show ?thesis by (simp add: seg_ack_def Let_def)
qed

lemma mesh_ok_resets [simp]: "mesh_ok m st (bt_mesh_rx_reset st)" "mesh_ok m st (bt_mesh_tx_reset C E now st)"
proof -
  show "mesh_ok m st (bt_mesh_rx_reset st)"
    by (auto simp: mesh_ok_def mesh_wf_def net_wf_def bt_mesh_rx_reset_def list_all_iff rx_wf_def seg_rx_reset_def)
  have "mesh_ok m st (fold (seg_tx_reset C E now) xs st)" for xs
    by (induction xs arbitrary: st) (auto intro: mesh_ok_trans [OF mesh_ok_tx_reset])
  then show "mesh_ok m st (bt_mesh_tx_reset C E now st)" by (simp add: bt_mesh_tx_reset_def)
qed

section \<open>The mesh stack as a transition system\<close>

text \<open>The state at start: the static variables are zero, and \<^verbatim>\<open>bt_mesh_trans_init\<close> gives each reassembly context its buffer.\<close>

definition mesh_init :: "nat \<Rightarrow> mesh_state \<Rightarrow> bool" where
  "mesh_init m st \<longleftrightarrow>
     sub st \<noteq> [] \<and> dup_cache st \<noteq> [] \<and> dup_cache_next st = 0 \<and> msg_cache st \<noteq> [] \<and> msg_cache_next st = 0 \<and>
     rpl st \<noteq> [] \<and> length (rpl st) \<le> 255 \<and> rpl_index st = 0 \<and>
     list_all (\<lambda>t. stx_seg t = replicate BT_MESH_TX_SEG_COUNT None \<and> stx_seg_n t = 0 \<and> nack_count t = 0 \<and> stx_sub t = None) (seg_txs st) \<and>
     list_all (\<lambda>r. \<not> in_use r \<and> srx_sub r = 0 \<and> length (buf_data r) = m) (seg_rxs st)"

text \<open>
  What happens to the stack: a PDU or a beacon arrives, a model sends a message, a timer expires (only if it is running), the bearer has sent a segment
  (and is no longer busy with it), the contexts are reset.  The other layers (\<open>E\<close>) and the time may differ from event to event.
\<close>

inductive mesh_step :: "crypto_lib \<Rightarrow> nat \<Rightarrow> mesh_state \<Rightarrow> mesh_state \<Rightarrow> bool" for C m where
  recv: "rx_sdu_max E = m \<Longrightarrow> mesh_step C m st (mesh_recv C E now data net_if st)"
| beacon: "mesh_step C m st (bt_mesh_beacon_recv C (with_tx E st) now buf st)"
| send: "tx_sub tx < length (sub st) \<Longrightarrow> mesh_step C m st (snd (bt_mesh_trans_send C E now tx msg room cb st))"
| ack_timer: "i < length (seg_rxs st) \<Longrightarrow> srx_ack (seg_rxs st ! i) \<noteq> None \<Longrightarrow> mesh_step C m st (seg_ack C E now i st)"
| retransmit_timer: "i < length (seg_txs st) \<Longrightarrow> stx_retransmit (seg_txs st ! i) \<Longrightarrow> mesh_step C m st (seg_retransmit C E now i st)"
| sent: "i < length (seg_txs st) \<Longrightarrow> stx_seg (seg_txs st ! i) ! k = Some s \<Longrightarrow> busy s \<Longrightarrow>
    mesh_step C m st (seg_sent C E now i (upd_tx i (\<lambda>t. t\<lparr>stx_seg := (stx_seg t)[k := Some (s\<lparr>busy := False\<rparr>)]\<rparr>) st))"
| iv_timer: "ivu_timer st \<Longrightarrow> mesh_step C m st (ivu_complete C (with_tx E st) now st)"
| rx_reset: "mesh_step C m st (bt_mesh_rx_reset st)"
| tx_reset: "mesh_step C m st (bt_mesh_tx_reset C E now st)"

inductive_cases mesh_stepE: "mesh_step C m st st'"

lemma mesh_step_keeps: "mesh_step C m st st' \<Longrightarrow> mesh_wf m st \<Longrightarrow> mesh_ok m st st'"
proof (induction rule: mesh_step.induct)
  case (recv E st now data net_if)
  then show ?case using mesh_recv_cases [OF recv(2,1)] by simp
next
  case (beacon st E now buf)
  then show ?case using mesh_ok_net [OF net_ok_secure_beacon] by blast
next
  case (send tx st E now msg room cb)
  then show ?case using mesh_ok_trans_send [OF send(1)] by blast
next
  case (sent i st k s E now)
  have "mesh_ok m st (upd_tx i (\<lambda>t. t\<lparr>stx_seg := (stx_seg t)[k := Some (s\<lparr>busy := False\<rparr>)]\<rparr>) st)" by (rule mesh_ok_upd_tx) simp
  then show ?case by (rule mesh_ok_trans [OF _ mesh_ok_seg_sent])
next
  case (iv_timer st E now)
  then show ?case using mesh_ok_net [OF net_ok_ivu_complete] by blast
qed simp_all

lemma mesh_step_ok: "mesh_step C m st st' \<Longrightarrow> mesh_wf m st \<Longrightarrow> mesh_wf m st'"
  using mesh_step_keeps [of C m st st'] by (auto simp: mesh_ok_def)

interpretation mesh: invariant_system "mesh_init m" "mesh_step C m" "mesh_wf m"
proof
  show "mesh_wf m st" if "mesh_init m st" for st
    using that by (auto simp: mesh_init_def mesh_wf_def net_wf_def tx_wf_def rx_wf_def list_all_iff)
qed (rule mesh_step_ok)

text \<open>
  C8.  Every state that the mesh stack reaches from its start, by any sequence of received PDUs and beacons, sent messages, expired timers,
  reports of the bearer and resets, is well formed: the indices of the caches and of the replay list are within them, every transmission
  context has its segments and every reassembly context in use its data within its arrays.
\<close>

theorem mesh_state_well_formed:
  assumes "mesh_init m st0" and "(mesh_step C m)\<^sup>*\<^sup>* st0 st"
  shows "mesh_wf m st"
  using assms by (rule mesh.reach_inv)

lemma boot_mesh_init: "mesh_init 384 boot_mesh"
  by (simp add: mesh_init_def boot_mesh_fields idle_tx_def idle_rx_def) (simp add: boot_mesh_def bt_mesh_net.defs mesh_state.defs boot_net_def list_all_iff)

theorem mesh_state_well_formed_witness:
  "mesh_wf 384 (snd (bt_mesh_trans_send null_crypto quiet_env 0 (a_tx\<lparr>tx_app_idx := BT_MESH_KEY_DEV\<rparr>) (replicate 20 7) 8 False boot_mesh))"
proof (rule mesh_state_well_formed [OF boot_mesh_init])
  show "(mesh_step null_crypto 384)\<^sup>*\<^sup>* boot_mesh (snd (bt_mesh_trans_send null_crypto quiet_env 0 (a_tx\<lparr>tx_app_idx := BT_MESH_KEY_DEV\<rparr>) (replicate 20 7) 8 False boot_mesh))"
    by (rule r_into_rtranclp, rule mesh_step.send) (simp add: a_tx_def boot_mesh_fields)
qed

text \<open>
  C9.  The transport layer never writes outside a reassembly buffer: in every state that the stack reaches, a PDU that the network layer hands over is
  processed without an access out of bounds, whatever its segment header and length are.
\<close>

theorem reassembly_in_bounds:
  assumes "mesh_init (rx_sdu_max E) st0" and "(mesh_step C (rx_sdu_max E))\<^sup>*\<^sup>* st0 st" and "rx_sub rx < length (sub st)"
  shows "fst (bt_mesh_trans_recv C E now buf rx st) \<noteq> Some EFAULT"
proof -
  obtain err rx' st' where "bt_mesh_trans_recv C E now buf rx st = (err, rx', st')" by (cases "bt_mesh_trans_recv C E now buf rx st")
  then show ?thesis using mesh_ok_trans_recv [OF mesh.reach_inv [OF assms(1,2)] refl assms(3)] by fastforce
qed

theorem reassembly_in_bounds_witness:
  "fst (bt_mesh_trans_recv null_crypto quiet_env 0 (replicate 9 0 @ [0x80, 0, 3, 0xff, 1]) (zero_rx\<lparr>rx_local_match := True\<rparr>) boot_mesh) \<noteq> Some EFAULT"
  by (rule reassembly_in_bounds [of _ boot_mesh])
    (use boot_mesh_init in \<open>simp_all add: boot_mesh_fields quiet_env_def zero_rx_def\<close>)

end
