(* ===== verification/Mesh_Tx.thy ===== *)
theory Mesh_Tx
  imports Mesh_Wf
begin

text \<open>
  The sender of a segmented message: the segments that \<open>send_seg\<close> hands to the bearer, and the acknowledgements that remove them.
\<close>

section \<open>The bits of an acknowledgement\<close>

lemma lsb_loop_bit:
  "(\<forall>j<k. \<not> bit data j) \<Longrightarrow> k + n = 32 \<Longrightarrow> data \<noteq> 0 \<Longrightarrow>
   \<exists>j. lsb_loop n (k + 1) (push_bit k 1) data = j + 1 \<and> j < 32 \<and> bit data j \<and> (\<forall>i<j. \<not> bit data i)"
proof (induction n arbitrary: k)
  case 0
  then have "\<not> bit data j" for j by (cases "j < 32") (auto dest: bit_imp_le_length)
  then have "data = 0" by (intro bit_word_eqI) simp
  then show ?case using 0 by simp
next
  case (Suc n)
  have b: "data AND push_bit k 1 = 0 \<longleftrightarrow> \<not> bit data k" by (simp add: and_exp_eq_0_iff_not_bit)
  show ?case
  proof (cases "bit data k")
    case False
    have "\<forall>j<k + 1. \<not> bit data j" using Suc.prems(1) False by (auto simp: less_Suc_eq)
    then show ?thesis using Suc.IH [of "k + 1"] Suc.prems False b by (simp add: push_bit_double mult.commute)
  qed (use b Suc.prems in auto)
qed

lemma find_lsb_set_bit:
  assumes "data \<noteq> 0"
  obtains j where "find_lsb_set data = j + 1" "j < 32" "bit data j" "\<forall>i<j. \<not> bit data i"
  using lsb_loop_bit [of 0 data 32] assms by (auto simp: find_lsb_set_def)

lemma msb_loop_bit:
  "(\<forall>j. 32 - n \<le> j \<longrightarrow> \<not> bit data j) \<Longrightarrow> n \<le> 32 \<Longrightarrow> data \<noteq> 0 \<Longrightarrow>
   \<exists>j. msb_loop (32 - n) n (drop_bit n 0x80000000) data = j + 1 \<and> j < 32 \<and> bit data j \<and> (\<forall>i>j. \<not> bit data i)"
proof (induction "32 - n" arbitrary: n)
  case 0
  then have "data = 0" by (intro bit_word_eqI) simp
  then show ?case using 0 by simp
next
  case (Suc l)
  have n: "n < 32" "l = 32 - (n + 1)" "32 - n = Suc (32 - (n + 1))" using Suc.hyps(2) by simp_all
  have "(0x80000000 :: u32) = 2 ^ 31" by simp
  then have p: "bit (0x80000000 :: u32) i \<longleftrightarrow> i = 31" for i by (simp only: bit_exp_iff) auto
  have m: "drop_bit n (0x80000000 :: u32) = 2 ^ (31 - n)"
  proof (rule bit_word_eqI)
    fix i assume "i < LENGTH(32)"
    then have "bit (2 ^ (31 - n) :: u32) i \<longleftrightarrow> n + i = 31" using n(1) by (auto simp: bit_exp_iff)
    then show "bit (drop_bit n (0x80000000 :: u32)) i \<longleftrightarrow> bit (2 ^ (31 - n) :: u32) i" by (simp only: bit_drop_bit_eq o_apply p)
  qed
  have b: "data AND 2 ^ (31 - n) = 0 \<longleftrightarrow> \<not> bit data (31 - n)" by (rule and_exp_eq_0_iff_not_bit)
  show ?case
  proof (cases "bit data (31 - n)")
    case False
    have "\<forall>j. 32 - (n + 1) \<le> j \<longrightarrow> \<not> bit data j"
    proof (intro allI impI)
      fix j assume "32 - (n + 1) \<le> j"
      then have "j = 31 - n \<or> 32 - n \<le> j" by linarith
      then show "\<not> bit data j" using False Suc.prems(1) by blast
    qed
    then have "\<exists>j. msb_loop (32 - (n + 1)) (n + 1) (drop_bit (n + 1) 0x80000000) data = j + 1 \<and> j < 32 \<and> bit data j \<and> (\<forall>i>j. \<not> bit data i)"
      using Suc.hyps(1) [OF n(2)] n(1) Suc.prems(3) by simp
    moreover have "drop_bit 1 (drop_bit n (0x80000000 :: u32)) = drop_bit (n + 1) 0x80000000" by simp
    ultimately show ?thesis unfolding n(3) msb_loop.simps using b False m by simp
  next
    case True
    have "\<forall>i>31 - n. \<not> bit data i"
    proof (intro allI impI)
      fix i assume "31 - n < i"
      then have "32 - n \<le> i" by linarith
      then show "\<not> bit data i" using Suc.prems(1) by blast
    qed
    moreover have "32 - n = 31 - n + 1" "31 - n < 32" using n(1) by simp_all
    ultimately show ?thesis unfolding n(3) msb_loop.simps m using b True by auto
  qed
qed

lemma find_msb_set_bit:
  assumes "data \<noteq> 0"
  obtains j where "find_msb_set data = j + 1" "j < 32" "bit data j" "\<forall>i>j. \<not> bit data i"
proof -
  have "\<forall>j. 32 - (0::nat) \<le> j \<longrightarrow> \<not> bit data j" by (auto dest: bit_imp_le_length)
  then show ?thesis using msb_loop_bit [of 0 data] assms that by (auto simp: find_msb_set_def)
qed

lemma msb_beyond: "ack \<noteq> 0 \<Longrightarrow> find_msb_set ack - 1 > n \<longleftrightarrow> (\<exists>k>n. bit ack k)"
  by (rule find_msb_set_bit [of ack]) (auto, metis linorder_not_le not_less_iff_gr_or_eq order_le_less_trans)

section \<open>Acknowledged segments\<close>

definition unacked :: "adv_seg option list \<Rightarrow> nat" where
  "unacked segs = length (filter (\<lambda>s. s \<noteq> None) segs)"

text \<open>What an acknowledgement leaves of the segments.\<close>

definition left_of :: "u32 \<Rightarrow> adv_seg option list \<Rightarrow> adv_seg option list" where
  "left_of ack segs = map (\<lambda>k. if bit ack k then None else segs ! k) [0..<length segs]"

lemma unacked_update:
  "k < length segs \<Longrightarrow> unacked (segs[k := None]) = (if segs ! k = None then unacked segs else unacked segs - 1)"
proof (induction segs arbitrary: k)
  case (Cons x segs)
  have "unacked segs > 0" if "segs ! j \<noteq> None" "j < length segs" for j
    using that nth_mem [of j segs] by (fastforce simp: unacked_def filter_empty_conv)
  then show ?case using Cons by (cases k) (auto simp: unacked_def)
qed simp

lemma ack_loop_exact:
  assumes "\<forall>k. bit ack k \<longrightarrow> k < length (stx_seg t)" and "nack_count t = unacked (stx_seg t)" and "card {k. bit ack k} \<le> n"
  shows "ack_loop n ack t = t\<lparr>stx_seg := left_of ack (stx_seg t), nack_count := unacked (left_of ack (stx_seg t))\<rparr>"
  using assms
proof (induction n arbitrary: ack t)
  case 0
  have "finite {k. bit ack k}" by (rule finite_subset [of _ "{..<32}"]) (auto dest: bit_imp_le_length)
  then have "\<not> bit ack k" for k using 0(3) by auto
  then have "left_of ack (stx_seg t) = stx_seg t" by (simp add: left_of_def map_nth)
  then show ?case using 0(2) by simp
next
  case (Suc n)
  show ?case
  proof (cases "ack = 0")
    case True
    then have "left_of ack (stx_seg t) = stx_seg t" by (simp add: left_of_def map_nth)
    then show ?thesis using True Suc.prems(2) by (simp add: find_lsb_set_def)
  next
    case False
    then obtain j where j: "find_lsb_set ack = j + 1" "j < 32" "bit ack j" by (rule find_lsb_set_bit)
    let ?ack = "ack AND NOT (2 ^ j)" and ?t = "ack_segment j t"
    have l: "j < length (stx_seg t)" using Suc.prems(1) j(3) by blast
    have b: "bit ?ack k \<longleftrightarrow> bit ack k \<and> k \<noteq> j" for k
      using j(2) by (cases "k < 32") (auto simp: bit_and_iff bit_not_iff bit_exp_iff dest: bit_imp_le_length)
    have s: "stx_seg ?t = (stx_seg t)[j := None]" "nack_count ?t = unacked (stx_seg ?t)"
      using Suc.prems(2) unacked_update [OF l] list_update_id [of "stx_seg t" j] by (auto simp: ack_segment_def simp del: list_update_id)
    have fin: "finite {k. bit ack k}" by (rule finite_subset [of _ "{..<32}"]) (auto dest: bit_imp_le_length)
    have "{k. bit ?ack k} = {k. bit ack k} - {j}" using b by blast
    then have "card {k. bit ?ack k} \<le> n" using Suc.prems(3) fin j(3) by simp
    then have "ack_loop n ?ack ?t = ?t\<lparr>stx_seg := left_of ?ack (stx_seg ?t), nack_count := unacked (left_of ?ack (stx_seg ?t))\<rparr>"
      using Suc.prems(1) by (intro Suc.IH) (simp_all add: s b)
    moreover have "left_of ?ack (stx_seg ?t) = left_of ack (stx_seg t)"
      by (rule nth_equalityI) (auto simp: left_of_def s b j(3) nth_list_update)
    moreover have "?t\<lparr>stx_seg := x, nack_count := y\<rparr> = t\<lparr>stx_seg := x, nack_count := y\<rparr>" for x y by (simp add: ack_segment_def)
    ultimately show ?thesis using j(1) by simp
  qed
qed

text \<open>The transmission context after an acknowledgement.\<close>

definition acknowledged :: "u32 \<Rightarrow> seg_tx \<Rightarrow> seg_tx" where
  "acknowledged ack t = t\<lparr>stx_retransmit := False, stx_seg := left_of ack (stx_seg t), nack_count := unacked (left_of ack (stx_seg t))\<rparr>"

lemma lookup_counts:
  "seg_tx_lookup z ob a ts = Some (i, ts') \<Longrightarrow> list_all (\<lambda>t. nack_count t = unacked (stx_seg t)) ts \<Longrightarrow>
   i < length ts' \<and> nack_count (ts' ! i) = unacked (stx_seg (ts' ! i))"
  by (induction ts arbitrary: i ts') (auto split: if_splits)

text \<open>
  C16.  An acknowledgement is processed by its meaning as a set of bits: with no bit set the message is cancelled, with a bit
  beyond the last segment it is ignored; otherwise exactly the segments whose bits are set are removed, the transmission completes if none is left, and
  the others are sent again at once.
\<close>

theorem acknowledgement_exact:
  fixes buf :: "byte list" and rx :: bt_mesh_net_rx and st :: mesh_state
  defines "w \<equiv> sys_get_be16 buf" and "ack \<equiv> sys_get_be32 (drop 2 buf)"
  assumes "mesh_wf m st" and "list_all (\<lambda>t. nack_count t = unacked (stx_seg t)) (seg_txs st)" and "6 \<le> length buf"
    and look: "seg_tx_lookup (drop_bit 2 w AND 0x1fff) (bit w 15) (rx_addr rx) (seg_txs st) = Some (i, ts)"
  shows "trans_ack C E now rx buf st =
    (let st1 = st\<lparr>seg_txs := ts\<rparr>; st2 = upd_tx i (acknowledged ack) st1 in
     if {k. bit ack k} = {} then (None, seg_tx_complete C E now i (Some ECANCELED) st1)
     else if \<not> {k. bit ack k} \<subseteq> {..stx_seg_n (ts ! i)} then (Some EINVAL, st1)
     else if {k. stx_seg (ts ! i) ! k \<noteq> None \<and> k < BT_MESH_TX_SEG_COUNT} \<subseteq> {k. bit ack k} then (None, seg_tx_complete C E now i None st2)
     else (None, seg_tx_send_unacked C E now i st2))"
proof -
  let ?t = "ts ! i" and ?st1 = "st\<lparr>seg_txs := ts\<rparr>"
  have t: "i < length ts" "nack_count ?t = unacked (stx_seg ?t)" using lookup_counts [OF look] assms(4) by simp_all
  have "list_all (tx_wf (length (sub st))) ts" using seg_tx_lookup_wf [OF look] assms(3) by (simp add: mesh_wf_def)
  then have wf: "length (stx_seg ?t) = 8" "stx_seg_n ?t < 8" using t(1) by (simp_all add: list_all_length tx_wf_def)
  have emp: "{k. bit ack k} = {} \<longleftrightarrow> ack = 0" by (auto intro: bit_word_eqI)
  have d: "trans_ack C E now rx buf st =
      (if ack = 0 then (None, seg_tx_complete C E now i (Some ECANCELED) ?st1)
       else if find_msb_set ack - 1 > stx_seg_n ?t then (Some EINVAL, ?st1)
       else let st2 = upd_tx i (\<lambda>t. ack_loop 32 ack (t\<lparr>stx_retransmit := False\<rparr>)) ?st1
            in (None, if nack_count (seg_txs st2 ! i) \<noteq> 0 then seg_tx_send_unacked C E now i st2 else seg_tx_complete C E now i None st2))"
    using look assms(5) by (simp add: trans_ack_def w_def ack_def Let_def)
  show ?thesis
  proof (cases "ack = 0 \<or> (\<exists>k>stx_seg_n ?t. bit ack k)")
    case True
    then show ?thesis unfolding d using msb_beyond [of ack "stx_seg_n ?t"] by (auto simp: emp Let_def not_le)
  next
    case False
    then have le: "bit ack k \<Longrightarrow> k \<le> stx_seg_n ?t" for k by (meson not_le)
    have "{k. bit ack k} \<subseteq> {..<32}" by (auto dest: bit_imp_le_length)
    then have "card {k. bit ack k} \<le> 32" using card_mono [of "{..<32::nat}"] by fastforce
    then have a: "ack_loop 32 ack (?t\<lparr>stx_retransmit := False\<rparr>) = acknowledged ack ?t"
      using ack_loop_exact [of ack "?t\<lparr>stx_retransmit := False\<rparr>" 32] le wf t(2) by (fastforce simp: acknowledged_def)
    have z: "unacked (left_of ack (stx_seg ?t)) = 0 \<longleftrightarrow> {k. stx_seg ?t ! k \<noteq> None \<and> k < 8} \<subseteq> {k. bit ack k}"
      using wf(1) by (auto simp: unacked_def left_of_def filter_empty_conv)
    have u: "upd_tx i (\<lambda>t. ack_loop 32 ack (t\<lparr>stx_retransmit := False\<rparr>)) ?st1 = upd_tx i (acknowledged ack) ?st1"
      using a by (simp add: upd_tx_def)
    have n: "nack_count (seg_txs (upd_tx i (acknowledged ack) ?st1) ! i) = unacked (left_of ack (stx_seg ?t))"
      using t(1) by (simp add: upd_tx_def acknowledged_def)
    have "\<not> find_msb_set ack - 1 > stx_seg_n ?t" "{k. bit ack k} \<subseteq> {..stx_seg_n ?t}" using msb_beyond [of ack "stx_seg_n ?t"] False le by auto
    then show ?thesis unfolding d u Let_def n z using False emp by auto
  qed
qed

definition in_flight :: mesh_state where
  "in_flight = boot_mesh\<lparr>seg_txs := [idle_tx\<lparr>stx_dst := 3, stx_seg_n := 1, nack_count := 2,
     stx_seg := replicate 2 (Some \<lparr>seg_pdu = [], attempts = 1, busy = False\<rparr>) @ replicate 6 None\<rparr>]\<rparr>"

theorem acknowledgement_exact_witness:
  "trans_ack null_crypto quiet_env 0 (zero_rx\<lparr>rx_addr := 3\<rparr>) [0, 0, 0, 0, 0, 3] in_flight =
     (None, seg_tx_complete null_crypto quiet_env 0 0 None (upd_tx 0 (acknowledged 3) in_flight))"
proof -
  have g: "sys_get_be16 [0, 0, 0, 0, 0, 3] = 0" "sys_get_be32 (drop 2 [0, 0, 0, 0, 0, 3]) = 3" by code_simp+
  have wf: "mesh_wf 384 in_flight"
    using boot_mesh_init mesh.init_inv by (auto simp: in_flight_def mesh_wf_def net_wf_def tx_wf_def idle_tx_def)
  have l: "seg_tx_lookup 0 False 3 (seg_txs in_flight) = Some (0, seg_txs in_flight)" by (simp add: in_flight_def idle_tx_def)
  have "bit (3 :: u32) k \<longleftrightarrow> k < 2" for k by (cases k; cases "k - 1") (auto simp: bit_Suc)
  then have b: "{k. bit (3 :: u32) k} = {..<2}" by auto
  have ne: "{..<2 :: nat} \<noteq> {}" by (simp add: lessThan_empty_iff)
  have c: "list_all (\<lambda>t. nack_count t = unacked (stx_seg t)) (seg_txs in_flight)" "{..<2} \<subseteq> {..stx_seg_n (seg_txs in_flight ! 0)}"
    "{k. stx_seg (seg_txs in_flight ! 0) ! k \<noteq> None \<and> k < 8} \<subseteq> {..<2}" "in_flight\<lparr>seg_txs := seg_txs in_flight\<rparr> = in_flight"
    by (auto simp: in_flight_def idle_tx_def unacked_def nth_append)
  show ?thesis
    using acknowledgement_exact [OF wf c(1), of "[0, 0, 0, 0, 0, 3]" "zero_rx\<lparr>rx_addr := 3\<rparr>" 0 "seg_txs in_flight" null_crypto quiet_env 0, unfolded g b] l c ne
    by (simp add: Let_def)
qed

section \<open>The segments of a message\<close>

lemma encode_seal_seg:
  assumes "4 \<le> tailroom" and "tx_app_idx tx \<noteq> BT_MESH_KEY_UNUSED"
  shows "bt_mesh_net_encode C tx payload tailroom False st =
    (seal C (cur_keys (sub st ! tx_sub tx)) (BT_MESH_NET_IVI_TX st) (plain_pdu tx payload st), st\<lparr>seq := seq st + 1\<rparr>)"
  using assms by (simp add: bt_mesh_net_encode_def Let_def seal_def plain_pdu_def BT_MESH_NET_IVI_TX_def)

text \<open>A message for another node goes to the advertising bearer.\<close>

definition goes_out :: "mesh_env \<Rightarrow> bt_mesh_net_tx \<Rightarrow> bool" where
  "goes_out E tx \<longleftrightarrow> BT_MESH_ADDR_IS_UNICAST (tx_addr tx) \<and> \<not> elem_find E (tx_addr tx) \<and> \<not> fixed_group_match E (tx_addr tx) \<and>
     tx_ttl tx \<noteq> 1 \<and> tx_ttl tx \<noteq> BT_MESH_TTL_DEFAULT \<and> (\<forall>p. \<not> proxy_relay E p (tx_addr tx))"

lemma send_out:
  assumes "crypto_ok C" and "goes_out E tx" and "tx_app_idx tx \<noteq> BT_MESH_KEY_UNUSED" and "length payload \<le> 16"
  obtains p where "seal C (cur_keys (sub st ! tx_sub tx)) (BT_MESH_NET_IVI_TX st) (plain_pdu tx payload st) = Inr p"
    "bt_mesh_net_send C E tx payload (adv_tailroom payload) st = (Inr (p, Queued), emit (Adv p) (st\<lparr>seq := seq st + 1\<rparr>))"
proof -
  have "8 \<le> length (plain_pdu tx payload st)" by (simp add: plain_pdu_def seq_bytes_def sys_put_be16_def)
  then obtain p where "seal C (cur_keys (sub st ! tx_sub tx)) (BT_MESH_NET_IVI_TX st) (plain_pdu tx payload st) = Inr p"
    using seal_ok [OF assms(1)] by metis
  moreover have "4 \<le> adv_tailroom payload" using assms(4) by (simp add: adv_tailroom_def)
  ultimately have "bt_mesh_net_encode C tx payload (adv_tailroom payload) False st = (Inr p, st\<lparr>seq := seq st + 1\<rparr>)"
    by (simp add: encode_seal_seg assms(3))
  then show ?thesis using that \<open>seal _ _ _ _ = Inr p\<close> assms(2) by (simp add: bt_mesh_net_send_def goes_out_def)
qed

text \<open>The PDU of segment \<open>k\<close>, sent in the state \<open>st\<close> with the next sequence numbers.\<close>

definition seg_pdu_of :: "crypto_lib \<Rightarrow> bt_mesh_net_tx \<Rightarrow> byte \<Rightarrow> u16 \<Rightarrow> byte list \<Rightarrow> mesh_state \<Rightarrow> nat \<Rightarrow> mesh_err + byte list" where
  "seg_pdu_of C tx hdr seq_zero sdu st k =
     seal C (cur_keys (sub st ! tx_sub tx)) (BT_MESH_NET_IVI_TX st)
       (plain_pdu tx (segment hdr (tx_aszmic tx) seq_zero sdu k) (st\<lparr>seq := seq st + of_nat k\<rparr>))"

definition waiting :: "byte list \<Rightarrow> adv_seg option" where
  "waiting p = Some \<lparr>seg_pdu = p, attempts = SEG_RETRANSMIT_ATTEMPTS, busy = True\<rparr>"

lemma drop_segs: "sdu \<noteq> [] \<Longrightarrow> drop (12 * k) sdu = [] \<longleftrightarrow> last_seg sdu < k"
  by (cases sdu) (auto simp: last_seg_def)

definition sent_segs :: "nat \<Rightarrow> byte list list \<Rightarrow> mesh_state \<Rightarrow> mesh_state" where
  "sent_segs i ps st = (upd_tx i (\<lambda>t. t\<lparr>stx_seg := map waiting ps @ drop (length ps) (stx_seg t)\<rparr>) st)
     \<lparr>seq := seq st + of_nat (length ps), outbox := outbox st @ map Adv ps\<rparr>"

lemma sent_segs_Nil: "sent_segs i [] st = st"
  by (simp add: sent_segs_def upd_tx_def)

lemma segs_update: "length ps < length segs \<Longrightarrow> (map waiting ps @ drop (length ps) segs)[length ps := waiting p] = map waiting (ps @ [p]) @ drop (Suc (length ps)) segs"
  by (simp add: list_update_append upd_conv_take_nth_drop flip: Cons_nth_drop_Suc)

lemma sent_segs_snoc:
  assumes "i < length (seg_txs st)" and "length ps < length (stx_seg (seg_txs st ! i))"
  shows "upd_tx i (\<lambda>t. t\<lparr>stx_seg := (stx_seg t)[length ps := waiting p]\<rparr>)
      (emit (Adv p) ((upd_tx i (\<lambda>t. t\<lparr>stx_seg := (stx_seg t)[length ps := x]\<rparr>) (sent_segs i ps st))\<lparr>seq := seq (sent_segs i ps st) + 1\<rparr>)) =
    sent_segs i (ps @ [p]) st"
proof -
  have "(map waiting ps @ drop (length ps) (stx_seg (seg_txs st ! i)))[length ps := x, length ps := waiting p] =
      map waiting (ps @ [p]) @ drop (Suc (length ps)) (stx_seg (seg_txs st ! i))"
    using segs_update [OF assms(2)] by simp
  then show ?thesis using assms(1) by (simp add: sent_segs_def upd_tx_def emit_def add.commute)
qed

lemma send_seg_loop_sends:
  assumes "crypto_ok C" and "goes_out E tx" and "tx_app_idx tx \<noteq> BT_MESH_KEY_UNUSED" and "sdu \<noteq> []" and "last_seg sdu < adv_bufs E"
    and "i < length (seg_txs st)" and "last_seg sdu < length (stx_seg (seg_txs st ! i))"
    and "list_all2 (\<lambda>k p. seg_pdu_of C tx hdr z sdu st k = Inr p) [0..<length ps] ps" and "length ps \<le> Suc (last_seg sdu)"
  shows "\<exists>qs. list_all2 (\<lambda>k p. seg_pdu_of C tx hdr z sdu st k = Inr p) [0..<Suc (last_seg sdu)] qs \<and>
    send_seg_loop C E now i tx hdr z (last_seg sdu) (length ps) (drop (12 * length ps) sdu) (sent_segs i ps st) = (None, sent_segs i qs st)"
  using assms(8,9)
proof (induction "Suc (last_seg sdu) - length ps" arbitrary: ps)
  case 0
  then have "length ps = Suc (last_seg sdu)" by simp
  moreover from this have "drop (12 * length ps) sdu = []" using drop_segs [OF assms(4)] by (metis lessI)
  ultimately show ?case using 0 by (intro exI [of _ ps]) (simp add: send_seg_loop.simps)
next
  case (Suc n)
  then have k: "length ps \<le> last_seg sdu" by simp
  then have d: "drop (12 * length ps) sdu \<noteq> []" using drop_segs [OF assms(4)] by simp
  let ?pay = "seg_header hdr (tx_aszmic tx) z (length ps) (last_seg sdu) @ take 12 (drop (12 * length ps) sdu)"
  let ?x = "Some \<lparr>seg_pdu = ?pay, attempts = SEG_RETRANSMIT_ATTEMPTS, busy = False\<rparr>"
  let ?a = "upd_tx i (\<lambda>t. t\<lparr>stx_seg := (stx_seg t)[length ps := ?x]\<rparr>) (sent_segs i ps st)"
  have len: "length ?pay \<le> 16" by (simp add: seg_header_def)
  obtain p where p: "seal C (cur_keys (sub ?a ! tx_sub tx)) (BT_MESH_NET_IVI_TX ?a) (plain_pdu tx ?pay ?a) = Inr p"
      "bt_mesh_net_send C E tx ?pay (adv_tailroom ?pay) ?a = (Inr (p, Queued), emit (Adv p) (?a\<lparr>seq := seq ?a + 1\<rparr>))"
    by (rule send_out [OF assms(1-3) len, where st = ?a])
  have f: "sub ?a = sub st" "BT_MESH_NET_IVI_TX ?a = BT_MESH_NET_IVI_TX st" "seq ?a = seq st + of_nat (length ps)" "seq ?a = seq (sent_segs i ps st)"
    by (simp_all add: upd_tx_def sent_segs_def BT_MESH_NET_IVI_TX_def)
  have "plain_pdu tx ?pay ?a = plain_pdu tx (segment hdr (tx_aszmic tx) z sdu (length ps)) (st\<lparr>seq := seq st + of_nat (length ps)\<rparr>)"
    unfolding plain_pdu_def segment_def f(1-3) by (simp add: BT_MESH_NET_IVI_TX_def)
  then have "seg_pdu_of C tx hdr z sdu st (length ps) = Inr p" using p(1) by (simp add: seg_pdu_of_def f)
  then have l: "list_all2 (\<lambda>k p. seg_pdu_of C tx hdr z sdu st k = Inr p) [0..<length (ps @ [p])] (ps @ [p])"
    using Suc.prems(1) by (simp add: list_all2_appendI)
  have b: "length ps < adv_bufs E" "length ps < length (stx_seg (seg_txs st ! i))" using k assms(5,7) by simp_all
  have "send_seg_loop C E now i tx hdr z (last_seg sdu) (length ps) (drop (12 * length ps) sdu) (sent_segs i ps st) =
      send_seg_loop C E now i tx hdr z (last_seg sdu) (length (ps @ [p])) (drop (12 * length (ps @ [p])) sdu) (sent_segs i (ps @ [p]) st)"
    using d b(1) p(2) sent_segs_snoc [OF assms(6) b(2), of p ?x, unfolded waiting_def]
    by (subst send_seg_loop.simps) (simp add: Let_def f(4) add.commute)
  moreover have "n = Suc (last_seg sdu) - length (ps @ [p])" using Suc.hyps(2) by simp
  ultimately show ?case using Suc.hyps(1) [OF _ l] k by simp
qed

lemma seq_zero_of_auth: "ucast (SEQ_AUTH iv s AND 0x1fff) = (ucast (s AND 0x1fff) :: u16)"
proof -
  have m: "(0x1fff :: u64) = mask 13" "(0x1fff :: u32) = mask 13" by (simp_all add: mask_eq_exp_minus_1)
  show ?thesis
    unfolding m SEQ_AUTH_def by (rule bit_word_eqI) (auto simp: bit_simps)
qed

definition seg_hdr_of :: "bt_mesh_net_tx \<Rightarrow> byte" where
  "seg_hdr_of tx = (if tx_app_idx tx = BT_MESH_KEY_DEV then SEG_HDR False 0 else SEG_HDR True (tx_aid tx))"



end
