(* ===== verification/Mesh_Node.thy ===== *)
theory Mesh_Node
  imports Mesh_Trans
begin

text \<open>
  The state of a mesh node above the transport layer: its composition of elements and models (\<^verbatim>\<open>inc/api/mesh/access.h\<close>), the
  publication contexts, and the state of the configuration server (\<^verbatim>\<open>inc/api/mesh/cfg_srv.h\<close>, \<^verbatim>\<open>src/cfg_srv.c\<close>).  A pointer to a
  model is a \<open>mod_ptr\<close>: the index of its element, whether it is in the array of vendor models, and its index there.  A pointer to a publication context
  is an index into \<open>pubs\<close>, and a pointer to a message handler is a number that \<open>op_func\<close> holds.
\<close>

section \<open>Composition\<close>

abbreviation (input) BT_MESH_ADDR_ALL_NODES :: u16 where "BT_MESH_ADDR_ALL_NODES \<equiv> 0xffff"
abbreviation (input) BT_MESH_ADDR_PROXIES :: u16 where "BT_MESH_ADDR_PROXIES \<equiv> 0xfffc"
abbreviation (input) BT_MESH_ADDR_FRIENDS :: u16 where "BT_MESH_ADDR_FRIENDS \<equiv> 0xfffd"
abbreviation (input) BT_MESH_ADDR_RELAYS :: u16 where "BT_MESH_ADDR_RELAYS \<equiv> 0xfffe"
abbreviation (input) BT_MESH_ADDR_GENIE_ALL_NODES :: u16 where "BT_MESH_ADDR_GENIE_ALL_NODES \<equiv> 0xcfff"
abbreviation (input) BT_MESH_TTL_MAX :: u8 where "BT_MESH_TTL_MAX \<equiv> 0x7f"
abbreviation (input) BT_MESH_MODEL_ID_CFG_SRV :: u16 where "BT_MESH_MODEL_ID_CFG_SRV \<equiv> 0x0000"
abbreviation (input) BT_MESH_MODEL_ID_CFG_CLI :: u16 where "BT_MESH_MODEL_ID_CFG_CLI \<equiv> 0x0001"
abbreviation (input) BT_MESH_MODEL_ID_HEALTH_SRV :: u16 where "BT_MESH_MODEL_ID_HEALTH_SRV \<equiv> 0x0002"

definition BT_MESH_ADDR_IS_GROUP :: "u16 \<Rightarrow> bool" where
  "BT_MESH_ADDR_IS_GROUP addr \<longleftrightarrow> 0xc000 \<le> addr \<and> addr \<le> 0xff00"

type_synonym mod_ptr = "nat \<times> bool \<times> nat"

record bt_mesh_model_op =
  opcode :: u32
  min_len :: nat
  op_func :: nat

text \<open>The union of the identifiers: \<^verbatim>\<open>id\<close> and \<^verbatim>\<open>vnd.company\<close> are the same bytes.\<close>

datatype model_id = Sig u16 | Vnd u16 u16

fun sig_id :: "model_id \<Rightarrow> u16" where
  "sig_id (Sig i) = i"
| "sig_id (Vnd c i) = c"

fun vnd_id :: "model_id \<Rightarrow> u16 \<times> u16" where
  "vnd_id (Sig i) = (i, 0)"
| "vnd_id (Vnd c i) = (c, i)"

record bt_mesh_model =
  mod_id :: model_id
  mod_elem :: "nat option"
  mod_pub :: "nat option"
  mod_keys :: "u16 list"
  mod_groups :: "u16 list"
  mod_op :: "bt_mesh_model_op list"

text \<open>\<open>pub_update\<close> says whether the callback \<^verbatim>\<open>update\<close> is given; \<open>pub_timer\<close> is the delay with which the timer was last submitted, if it runs.\<close>

record bt_mesh_model_pub =
  pub_mod :: "mod_ptr option"
  pub_addr :: u16
  pub_key :: u16
  pub_ttl :: u8
  pub_retransmit :: u8
  pub_period :: u8
  period_div :: "4 word"
  pub_cred :: bool
  pub_count :: "3 word"
  period_start :: u32
  pub_msg :: "byte list"
  pub_update :: bool
  pub_timer :: "nat option"

record bt_mesh_elem =
  el_addr :: u16
  grop_addr :: u16
  el_loc :: u16
  el_models :: "bt_mesh_model list"
  el_vnd_models :: "bt_mesh_model list"

record bt_mesh_comp =
  cid :: u16
  pid :: u16
  vid :: u16
  elems :: "bt_mesh_elem list"

section \<open>The configuration server\<close>

text \<open>\<open>hb_timer\<close> is the delay with which the timer of the heartbeat publication was last submitted, if it runs.\<close>

record hb_pub =
  hb_timer :: "nat option"
  hbp_dst :: u16
  hbp_count :: u16
  hbp_period :: u8
  hbp_ttl :: u8
  hbp_feat :: u16
  hbp_net_idx :: u16

record hb_sub =
  hbs_expiry :: "64 word"
  hbs_src :: u16
  hbs_dst :: u16
  hbs_count :: u16
  hbs_min_hops :: u8
  hbs_max_hops :: u8

record bt_mesh_cfg_srv =
  cfg_model :: "mod_ptr option"
  net_transmit :: u8
  relay :: u8
  relay_retransmit :: u8
  beacon :: u8
  gatt_proxy :: u8
  frnd :: u8
  cfg_ttl :: u8
  cfg_hb_pub :: hb_pub
  cfg_hb_sub :: hb_sub

abbreviation (input) BT_MESH_RELAY_ENABLED :: u8 where "BT_MESH_RELAY_ENABLED \<equiv> 0x01"
abbreviation (input) BT_MESH_RELAY_NOT_SUPPORTED :: u8 where "BT_MESH_RELAY_NOT_SUPPORTED \<equiv> 0x02"
abbreviation (input) BT_MESH_BEACON_DISABLED :: u8 where "BT_MESH_BEACON_DISABLED \<equiv> 0x00"
abbreviation (input) BT_MESH_BEACON_ENABLED :: u8 where "BT_MESH_BEACON_ENABLED \<equiv> 0x01"
abbreviation (input) BT_MESH_GATT_PROXY_ENABLED :: u8 where "BT_MESH_GATT_PROXY_ENABLED \<equiv> 0x01"
abbreviation (input) BT_MESH_GATT_PROXY_NOT_SUPPORTED :: u8 where "BT_MESH_GATT_PROXY_NOT_SUPPORTED \<equiv> 0x02"
abbreviation (input) BT_MESH_FRIEND_ENABLED :: u8 where "BT_MESH_FRIEND_ENABLED \<equiv> 0x01"
abbreviation (input) BT_MESH_FRIEND_NOT_SUPPORTED :: u8 where "BT_MESH_FRIEND_NOT_SUPPORTED \<equiv> 0x02"

section \<open>The node\<close>

text \<open>
  \<open>dev_comp\<close>, \<open>dev_primary_addr\<close> and \<open>appkey_id\<close> are the static variables of \<^verbatim>\<open>access.c\<close>; \<open>cfg_srv\<close>, \<open>labels\<close> and \<open>g_sub_list\<close> those of the
  configuration server, where \<open>conf\<close> says whether the pointer \<^verbatim>\<open>conf\<close> has been set to \<^verbatim>\<open>cfg_srv\<close>.
  \<open>suspended\<close> is a static variable of \<^verbatim>\<open>main.c\<close>.
  \<open>calls\<close> records the calls of message handlers, and \<open>inits\<close> those of the initialisation functions of the models that
  \<^verbatim>\<open>cfg_srv.c\<close> does not implement.
\<close>

record node =
  mesh :: mesh_state
  dev_comp :: "bt_mesh_comp option"
  dev_primary_addr :: u16
  appkey_id :: u16
  pubs :: "bt_mesh_model_pub list"
  cfg_srv :: bt_mesh_cfg_srv
  conf :: bool
  labels :: "(u16 \<times> byte list) list"
  g_sub_list :: "u16 list"
  suspended :: bool
  calls :: "(nat \<times> mod_ptr \<times> bt_mesh_net_rx \<times> byte list) list"
  inits :: "(mod_ptr \<times> u16 \<times> bool) list"

text \<open>The composition is registered before the stack runs, so that a null pointer is never followed; it is read here as no elements.\<close>

definition dev_elems :: "node \<Rightarrow> bt_mesh_elem list" where
  "dev_elems st = (case dev_comp st of None \<Rightarrow> [] | Some c \<Rightarrow> elems c)"

definition upd_elem :: "nat \<Rightarrow> (bt_mesh_elem \<Rightarrow> bt_mesh_elem) \<Rightarrow> node \<Rightarrow> node" where
  "upd_elem i f st = st\<lparr>dev_comp := map_option (\<lambda>c. c\<lparr>elems := (elems c)[i := f (elems c ! i)]\<rparr>) (dev_comp st)\<rparr>"

definition elem_mods :: "bool \<Rightarrow> bt_mesh_elem \<Rightarrow> bt_mesh_model list" where
  "elem_mods vnd e = (if vnd then el_vnd_models e else el_models e)"

definition get_mod :: "mod_ptr \<Rightarrow> node \<Rightarrow> bt_mesh_model" where
  "get_mod p st = (case p of (i, vnd, j) \<Rightarrow> elem_mods vnd (dev_elems st ! i) ! j)"

definition upd_mod :: "mod_ptr \<Rightarrow> (bt_mesh_model \<Rightarrow> bt_mesh_model) \<Rightarrow> node \<Rightarrow> node" where
  "upd_mod p f st = (case p of (i, vnd, j) \<Rightarrow>
     upd_elem i (\<lambda>e. if vnd then e\<lparr>el_vnd_models := (el_vnd_models e)[j := f (el_vnd_models e ! j)]\<rparr>
                     else e\<lparr>el_models := (el_models e)[j := f (el_models e ! j)]\<rparr>) st)"

definition upd_pub :: "nat \<Rightarrow> (bt_mesh_model_pub \<Rightarrow> bt_mesh_model_pub) \<Rightarrow> node \<Rightarrow> node" where
  "upd_pub k f st = st\<lparr>pubs := (pubs st)[k := f (pubs st ! k)]\<rparr>"

text \<open>\<open>mod->elem->addr\<close>\<close>

definition mod_addr :: "mod_ptr \<Rightarrow> node \<Rightarrow> u16" where
  "mod_addr p st = el_addr (dev_elems st ! the (mod_elem (get_mod p st)))"

section \<open>Values of the configuration server that the other layers read\<close>

definition bt_mesh_net_transmit_get :: "node \<Rightarrow> u8" where
  "bt_mesh_net_transmit_get st = (if conf st then net_transmit (cfg_srv st) else 0)"

definition bt_mesh_relay_get :: "node \<Rightarrow> u8" where
  "bt_mesh_relay_get st = (if conf st then relay (cfg_srv st) else BT_MESH_RELAY_NOT_SUPPORTED)"

definition bt_mesh_relay_set :: "u8 \<Rightarrow> node \<Rightarrow> node" where
  "bt_mesh_relay_set r st = (if conf st then st\<lparr>cfg_srv := (cfg_srv st)\<lparr>relay := r\<rparr>\<rparr> else st)"

definition bt_mesh_friend_get :: "node \<Rightarrow> u8" where
  "bt_mesh_friend_get st = (if conf st then frnd (cfg_srv st) else BT_MESH_FRIEND_NOT_SUPPORTED)"

definition bt_mesh_relay_retransmit_get :: "node \<Rightarrow> u8" where
  "bt_mesh_relay_retransmit_get st = (if conf st then relay_retransmit (cfg_srv st) else 0)"

definition bt_mesh_beacon_get :: "node \<Rightarrow> u8" where
  "bt_mesh_beacon_get st = (if conf st then beacon (cfg_srv st) else BT_MESH_BEACON_DISABLED)"

definition bt_mesh_gatt_proxy_get :: "node \<Rightarrow> u8" where
  "bt_mesh_gatt_proxy_get st = (if conf st then gatt_proxy (cfg_srv st) else BT_MESH_GATT_PROXY_NOT_SUPPORTED)"

definition bt_mesh_default_ttl_get :: "node \<Rightarrow> u8" where
  "bt_mesh_default_ttl_get st = (if conf st then cfg_ttl (cfg_srv st) else 7)"

definition bt_mesh_label_uuid_get :: "u16 \<Rightarrow> node \<Rightarrow> byte list option" where
  "bt_mesh_label_uuid_get addr st = map_option snd (find (\<lambda>l. fst l = addr) (labels st))"

text \<open>Little-endian values in messages.\<close>

definition sys_get_le16 :: "byte list \<Rightarrow> u16" where
  "sys_get_le16 bs = push_bit 8 (ucast (bs ! 1)) OR ucast (bs ! 0)"

definition sys_put_le16 :: "u16 \<Rightarrow> byte list" where
  "sys_put_le16 w = [ucast w, ucast (drop_bit 8 w)]"

end
