(* ===== verification/Mesh_Access.thy ===== *)
theory Mesh_Access
  imports Mesh_Node
begin

text \<open>
  The access layer of the mesh stack (\<^verbatim>\<open>bt_mesh/src/access.c\<close>): the registration of the composition, the dispatch of
  messages to the handlers of the models, sending, and periodic publication.  The handlers and the callbacks \<^verbatim>\<open>update\<close> belong to the models and are arguments:
  \<open>H f p rx buf st\<close> is the effect of handler \<open>f\<close> of model \<open>p\<close> on a message with the context of \<open>rx\<close>, and \<open>U p st\<close> that of the callback of model \<open>p\<close>, with its error.
\<close>

section \<open>Models and elements\<close>

text \<open>The order in which \<open>bt_mesh_model_foreach\<close> visits the models.\<close>

definition mod_ptrs :: "node \<Rightarrow> mod_ptr list" where
  "mod_ptrs st = concat (map (\<lambda>i.
       map (\<lambda>j. (i, False, j)) [0..<length (el_models (dev_elems st ! i))] @
       map (\<lambda>j. (i, True, j)) [0..<length (el_vnd_models (dev_elems st ! i))])
     [0..<length (dev_elems st)])"

definition bt_mesh_model_foreach :: "(mod_ptr \<Rightarrow> node \<Rightarrow> node) \<Rightarrow> node \<Rightarrow> node" where
  "bt_mesh_model_foreach func st = fold func (mod_ptrs st) st"

definition conf_is_valid :: "bt_mesh_cfg_srv \<Rightarrow> bool" where
  "conf_is_valid cfg \<longleftrightarrow> \<not> relay cfg > 0x02 \<and> \<not> beacon cfg > 0x01 \<and> \<not> cfg_ttl cfg > BT_MESH_TTL_MAX"

text \<open>Relay and GATT proxy are enabled in the configuration of the application, the friend feature is not.\<close>

definition bt_mesh_cfg_srv_init :: "mod_ptr \<Rightarrow> node \<Rightarrow> node" where
  "bt_mesh_cfg_srv_init p st =
     (if \<not> conf_is_valid (cfg_srv st) then st
      else
        let st = upd_mod p (\<lambda>m. m\<lparr>mod_keys := (mod_keys m)[0 := BT_MESH_KEY_DEV]\<rparr>) st;
            c = cfg_srv st
        in st\<lparr>cfg_srv := c\<lparr>frnd := BT_MESH_FRIEND_NOT_SUPPORTED, cfg_hb_pub := (cfg_hb_pub c)\<lparr>hb_timer := None\<rparr>,
                 cfg_hb_sub := (cfg_hb_sub c)\<lparr>hbs_expiry := 0\<rparr>, cfg_model := Some p\<rparr>, conf := True\<rparr>)"

text \<open>The loop over the table \<^verbatim>\<open>model_init\<close>: its entries have different identifiers.\<close>

definition model_init :: "u16 \<Rightarrow> mod_ptr \<Rightarrow> node \<Rightarrow> node" where
  "model_init i p st =
     (if i = BT_MESH_MODEL_ID_CFG_SRV then bt_mesh_cfg_srv_init p st
      else if i = BT_MESH_MODEL_ID_HEALTH_SRV \<or> i = BT_MESH_MODEL_ID_CFG_CLI then st\<lparr>inits := inits st @ [(p, i, fst p = 0)]\<rparr>
      else st)"

definition mod_init :: "mod_ptr \<Rightarrow> node \<Rightarrow> node" where
  "mod_init p st =
     (let st = upd_mod p (\<lambda>m. m\<lparr>mod_elem := Some (fst p)\<rparr>) st;
          st = (case mod_pub (get_mod p st) of
                  Some k \<Rightarrow> upd_pub k (\<lambda>b. b\<lparr>pub_mod := Some p, pub_timer := None\<rparr>) st
                | None \<Rightarrow> st);
          st = upd_mod p (\<lambda>m. m\<lparr>mod_keys := replicate (length (mod_keys m)) BT_MESH_KEY_UNUSED\<rparr>) st
      in if fst (snd p) then st else model_init (sig_id (mod_id (get_mod p st))) p st)"

definition bt_mesh_comp_register :: "bt_mesh_comp \<Rightarrow> node \<Rightarrow> mesh_err option \<times> node" where
  "bt_mesh_comp_register c st =
     (if elems c = [] then (Some EINVAL, st)
      else (None, bt_mesh_model_foreach mod_init (st\<lparr>dev_comp := Some c\<rparr>)))"

text \<open>The address of an element wraps around.\<close>

definition bt_mesh_comp_provision :: "u16 \<Rightarrow> node \<Rightarrow> node" where
  "bt_mesh_comp_provision addr st =
     fold (\<lambda>i st. upd_elem i (\<lambda>e. e\<lparr>el_addr := addr + of_nat i\<rparr>) st) [0..<length (dev_elems st)] (st\<lparr>dev_primary_addr := addr\<rparr>)"

definition bt_mesh_comp_unprovision :: "node \<Rightarrow> node" where
  "bt_mesh_comp_unprovision st = bt_mesh_model_foreach mod_init (st\<lparr>dev_primary_addr := BT_MESH_ADDR_UNASSIGNED\<rparr>)"

text \<open>The result is the place that holds the group: an entry of the list of the model, or the group of its element.\<close>

datatype group_slot = In_Model nat | In_Elem

definition bt_mesh_model_find_group :: "bt_mesh_model \<Rightarrow> u16 \<Rightarrow> node \<Rightarrow> group_slot option" where
  "bt_mesh_model_find_group m addr st =
     (case find_index (\<lambda>g. g = addr) (mod_groups m) of
        Some i \<Rightarrow> Some (In_Model i)
      | None \<Rightarrow>
          (case mod_elem m of
             Some e \<Rightarrow> if addr = grop_addr (dev_elems st ! e) \<or> addr = BT_MESH_ADDR_GENIE_ALL_NODES then Some In_Elem else None
           | None \<Rightarrow> None))"

definition bt_mesh_elem_find_group :: "bt_mesh_elem \<Rightarrow> u16 \<Rightarrow> node \<Rightarrow> bt_mesh_model option" where
  "bt_mesh_elem_find_group e addr st =
     find (\<lambda>m. bt_mesh_model_find_group m addr st \<noteq> None) (el_models e @ el_vnd_models e)"

definition bt_mesh_elem_find :: "u16 \<Rightarrow> node \<Rightarrow> nat option" where
  "bt_mesh_elem_find addr st =
     find_index (\<lambda>e. if BT_MESH_ADDR_IS_GROUP addr \<or> BT_MESH_ADDR_IS_VIRTUAL addr
                     then bt_mesh_elem_find_group e addr st \<noteq> None else el_addr e = addr) (dev_elems st)"

definition bt_mesh_elem_find_by_id :: "nat \<Rightarrow> node \<Rightarrow> nat option" where
  "bt_mesh_elem_find_by_id i st = (if i < length (dev_elems st) then Some i else None)"

definition model_has_key :: "bt_mesh_model \<Rightarrow> u16 \<Rightarrow> bool" where
  "model_has_key m key \<longleftrightarrow> key \<in> set (mod_keys m)"

definition bt_mesh_elem_find_id :: "nat \<Rightarrow> node \<Rightarrow> u8" where
  "bt_mesh_elem_find_id i st = (case find_index (\<lambda>j. j = i) [0..<length (dev_elems st)] of Some j \<Rightarrow> of_nat j | None \<Rightarrow> 0xff)"

definition bt_mesh_model_get_appkey_id :: "node \<Rightarrow> u16" where
  "bt_mesh_model_get_appkey_id st = appkey_id st"

definition bt_mesh_model_set_appkey_id :: "u16 \<Rightarrow> node \<Rightarrow> node" where
  "bt_mesh_model_set_appkey_id key_id st = st\<lparr>appkey_id := key_id\<rparr>"

text \<open>The result is the index of the model and its operation.\<close>

fun find_op :: "bt_mesh_model list \<Rightarrow> u16 \<Rightarrow> u32 \<Rightarrow> (nat \<times> bt_mesh_model_op) option" where
  "find_op [] app_idx oc = None"
| "find_op (m # ms) app_idx oc =
     (if \<not> model_has_key m app_idx then map_option (apfst Suc) (find_op ms app_idx oc)
      else case find (\<lambda>op. opcode op = oc) (mod_op m) of
        Some op \<Rightarrow> Some (0, op)
      | None \<Rightarrow> map_option (apfst Suc) (find_op ms app_idx oc))"

definition bt_mesh_model_find :: "bt_mesh_elem \<Rightarrow> u16 \<Rightarrow> nat option" where
  "bt_mesh_model_find e i = find_index (\<lambda>m. sig_id (mod_id m) = i) (el_models e)"

definition bt_mesh_model_find_vnd :: "bt_mesh_elem \<Rightarrow> u16 \<Rightarrow> u16 \<Rightarrow> nat option" where
  "bt_mesh_model_find_vnd e company i = find_index (\<lambda>m. vnd_id (mod_id m) = (company, i)) (el_vnd_models e)"

section \<open>Operation codes\<close>

text \<open>An access message has at least one byte: \<open>sdu_recv\<close> refuses shorter ones.\<close>

definition get_opcode :: "byte list \<Rightarrow> mesh_err + u32 \<times> byte list" where
  "get_opcode buf =
     (if buf = [] then Inl EINVAL
      else if drop_bit 6 (buf ! 0) = 0x00 \<or> drop_bit 6 (buf ! 0) = 0x01 then
        if buf ! 0 = 0x7f then Inl EINVAL else Inr (ucast (buf ! 0), drop 1 buf)
      else if drop_bit 6 (buf ! 0) = 0x02 then
        if length buf < 2 then Inl EINVAL else Inr (ucast (sys_get_be16 buf), drop 2 buf)
      else
        if length buf < 3 then Inl EINVAL
        else Inr (push_bit 16 (ucast (buf ! 0)) OR ucast (sys_get_le16 (drop 1 buf)), drop 3 buf))"

definition bt_mesh_model_msg_init :: "u32 \<Rightarrow> byte list" where
  "bt_mesh_model_msg_init oc =
     (if oc < 0x100 then [ucast oc]
      else if oc < 0x10000 then sys_put_be16 (ucast oc)
      else ucast (drop_bit 16 oc AND 0xff) # sys_put_le16 (ucast (oc AND 0xffff)))"

section \<open>Receiving\<close>

definition bt_mesh_fixed_group_match :: "u16 \<Rightarrow> node \<Rightarrow> bool" where
  "bt_mesh_fixed_group_match addr st =
     (if addr = BT_MESH_ADDR_ALL_NODES \<or> addr = BT_MESH_ADDR_GENIE_ALL_NODES then True
      else if addr = BT_MESH_ADDR_PROXIES then False
      else if addr = BT_MESH_ADDR_FRIENDS then bt_mesh_friend_get st = BT_MESH_FRIEND_ENABLED
      else if addr = BT_MESH_ADDR_RELAYS then bt_mesh_relay_get st = BT_MESH_RELAY_ENABLED
      else False)"

text \<open>Whether the loop over the elements goes on with element \<open>i\<close> for a message to \<open>dst\<close>.\<close>

definition elem_addressed :: "u16 \<Rightarrow> nat \<Rightarrow> node \<Rightarrow> bool" where
  "elem_addressed dst i st =
     (let e = dev_elems st ! i in
      if BT_MESH_ADDR_IS_UNICAST dst then el_addr e = dst
      else if BT_MESH_ADDR_IS_GROUP dst \<or> BT_MESH_ADDR_IS_VIRTUAL dst then bt_mesh_elem_find_group e dst st \<noteq> None
      else i = 0 \<and> bt_mesh_fixed_group_match dst st)"

type_synonym handlers = "nat \<Rightarrow> mod_ptr \<Rightarrow> bt_mesh_net_rx \<Rightarrow> byte list \<Rightarrow> node \<Rightarrow> node"

definition model_recv_elem :: "handlers \<Rightarrow> bt_mesh_net_rx \<Rightarrow> u32 \<Rightarrow> byte list \<Rightarrow> nat \<Rightarrow> node \<Rightarrow> node" where
  "model_recv_elem H rx oc buf i st =
     (if \<not> elem_addressed (rx_dst rx) i st then st
      else
        let vnd = (\<not> oc < 0x10000) in
        case find_op (elem_mods vnd (dev_elems st ! i)) (rx_app_idx rx) oc of
          None \<Rightarrow> st
        | Some (j, op) \<Rightarrow>
            if length buf < min_len op then st
            else H (op_func op) (i, vnd, j) rx buf (st\<lparr>calls := calls st @ [(op_func op, (i, vnd, j), rx, buf)]\<rparr>))"

definition bt_mesh_model_recv :: "handlers \<Rightarrow> bt_mesh_net_rx \<Rightarrow> byte list \<Rightarrow> node \<Rightarrow> node" where
  "bt_mesh_model_recv H rx buf st =
     (case get_opcode buf of
        Inl e \<Rightarrow> st
      | Inr (oc, buf) \<Rightarrow> fold (model_recv_elem H rx oc buf) [0..<length (dev_elems st)] st)"

section \<open>Sending\<close>

text \<open>What the lower layers ask the access layer and the configuration server.\<close>

definition node_env :: "mesh_env \<Rightarrow> node \<Rightarrow> mesh_env" where
  "node_env E st = E\<lparr>relay_enabled := (bt_mesh_relay_get st = BT_MESH_RELAY_ENABLED),
     gatt_proxy_enabled := (bt_mesh_gatt_proxy_get st = BT_MESH_GATT_PROXY_ENABLED),
     beacon_enabled := (bt_mesh_beacon_get st = BT_MESH_BEACON_ENABLED),
     default_ttl := bt_mesh_default_ttl_get st,
     elem_find := (\<lambda>a. bt_mesh_elem_find a st \<noteq> None),
     fixed_group_match := (\<lambda>a. bt_mesh_fixed_group_match a st),
     primary_addr := dev_primary_addr st,
     label_uuid_get := (\<lambda>a. bt_mesh_label_uuid_get a st)\<rparr>"

text \<open>A message buffer is its contents and the space behind them.  The callback of the sender is asked for by \<open>cb\<close>.\<close>

definition model_send ::
  "crypto_lib \<Rightarrow> mesh_env \<Rightarrow> 64 word \<Rightarrow> bt_mesh_model \<Rightarrow> bt_mesh_net_tx \<Rightarrow> bool \<Rightarrow> byte list \<Rightarrow> nat \<Rightarrow> bool \<Rightarrow> node \<Rightarrow> mesh_err option \<times> node" where
  "model_send C E now m tx implicit_bind msg tailroom cb st =
     (if \<not> provisioned (mesh st) then (Some EAGAIN, st)
      else if tailroom < 4 then (Some EINVAL, st)
      else if length msg > BT_MESH_TX_SDU_MAX - 4 then (Some EMSGSIZE, st)
      else if \<not> implicit_bind \<and> \<not> model_has_key m (tx_app_idx tx) then (Some EINVAL, st)
      else case bt_mesh_trans_send C (node_env E st) now tx msg tailroom cb (mesh st) of
        (err, ms) \<Rightarrow> (err, st\<lparr>mesh := ms\<rparr>))"

record bt_mesh_msg_ctx =
  ctx_net_idx :: u16
  ctx_app_idx :: u16
  ctx_addr :: u16
  ctx_send_rel :: bool
  ctx_send_ttl :: u8

definition tx_of :: "bt_mesh_msg_ctx \<Rightarrow> nat \<Rightarrow> u16 \<Rightarrow> bt_mesh_net_tx" where
  "tx_of ctx sb src = \<lparr>tx_sub = sb, tx_app_idx = ctx_app_idx ctx, tx_addr = ctx_addr ctx, tx_ttl = ctx_send_ttl ctx,
     tx_send_rel = ctx_send_rel ctx, tx_src = src, tx_aszmic = False, tx_aid = 0\<rparr>"

definition bt_mesh_model_send ::
  "crypto_lib \<Rightarrow> mesh_env \<Rightarrow> 64 word \<Rightarrow> mod_ptr \<Rightarrow> bt_mesh_msg_ctx \<Rightarrow> byte list \<Rightarrow> nat \<Rightarrow> bool \<Rightarrow> node \<Rightarrow> mesh_err option \<times> node" where
  "bt_mesh_model_send C E now p ctx msg tailroom cb st =
     (case bt_mesh_subnet_get (ctx_net_idx ctx) (mesh st) of
        None \<Rightarrow> (Some EINVAL, st)
      | Some sb \<Rightarrow> model_send C E now (get_mod p st) (tx_of ctx sb (mod_addr p st)) False msg tailroom cb st)"

section \<open>Publication\<close>

definition BT_MESH_PUB_TRANSMIT_COUNT :: "u8 \<Rightarrow> 3 word" where
  "BT_MESH_PUB_TRANSMIT_COUNT transmit = ucast (transmit AND 0x07)"

definition BT_MESH_PUB_TRANSMIT_INT :: "u8 \<Rightarrow> nat" where
  "BT_MESH_PUB_TRANSMIT_INT transmit = (unat (drop_bit 3 transmit) + 1) * 50"

text \<open>The period in milliseconds.  All values fit a signed 32-bit integer.\<close>

definition pub_period_ms :: "bt_mesh_model_pub \<Rightarrow> nat" where
  "pub_period_ms b =
     (let steps = unat (pub_period b AND 0x3f); unit = unat (drop_bit 6 (pub_period b));
          period = (if unit = 0 then steps * 100
                    else if unit = 1 then steps * 1000
                    else if unit = 2 then steps * 10 * 1000
                    else steps * 10 * 60 * 1000)
      in period div 2 ^ unat (period_div b))"

definition bt_mesh_model_pub_period_get :: "mod_ptr \<Rightarrow> node \<Rightarrow> nat" where
  "bt_mesh_model_pub_period_get p st =
     (case mod_pub (get_mod p st) of None \<Rightarrow> 0 | Some k \<Rightarrow> pub_period_ms (pubs st ! k))"

definition next_period :: "64 word \<Rightarrow> bt_mesh_model_pub \<Rightarrow> nat" where
  "next_period now b =
     (let period = pub_period_ms b in
      if period = 0 then 0
      else
        let elapsed = unat (ucast now - period_start b) in
        if elapsed > period then 1 else period - elapsed)"

definition publish_sent :: "64 word \<Rightarrow> nat \<Rightarrow> node \<Rightarrow> node" where
  "publish_sent now k st =
     (let b = pubs st ! k;
          delay = (if pub_count b \<noteq> 0 then BT_MESH_PUB_TRANSMIT_INT (pub_retransmit b) else next_period now b)
      in if delay \<noteq> 0 then upd_pub k (\<lambda>b. b\<lparr>pub_timer := Some delay\<rparr>) st else st)"

text \<open>
  The number of calls of the callback before a sending function returns.  Those for a segmented message are in \<open>tx_ends\<close>.  A message in one
  PDU is complete when it went to a proxy client, which leaves nothing in \<open>outbox\<close>, or to the local interface; with a time to live of 1 it may go nowhere.
\<close>

definition ended_at_once :: "mesh_env \<Rightarrow> bt_mesh_net_tx \<Rightarrow> byte list \<Rightarrow> mesh_err option \<Rightarrow> mesh_state \<Rightarrow> mesh_state \<Rightarrow> nat" where
  "ended_at_once E tx msg err ms ms' =
     (if length msg > 11 then length (tx_ends ms') - length (tx_ends ms)
      else if err \<noteq> None then 0
      else if outbox ms' = outbox ms then
        if (if tx_ttl tx = BT_MESH_TTL_DEFAULT then default_ttl E else tx_ttl tx) \<noteq> 1 then 1 else 0
      else case last (outbox ms') of Local pdu \<Rightarrow> 1 | Adv pdu \<Rightarrow> 0 | Proxy_Beacon s \<Rightarrow> 0)"

definition pub_ctx :: "bt_mesh_model_pub \<Rightarrow> bt_mesh_app_key \<Rightarrow> bt_mesh_msg_ctx" where
  "pub_ctx b key = \<lparr>ctx_net_idx = ak_net_idx key, ctx_app_idx = ak_app_idx key, ctx_addr = pub_addr b,
     ctx_send_rel = False, ctx_send_ttl = pub_ttl b\<rparr>"

definition bt_mesh_model_publish :: "crypto_lib \<Rightarrow> mesh_env \<Rightarrow> 64 word \<Rightarrow> mod_ptr \<Rightarrow> node \<Rightarrow> mesh_err option \<times> node" where
  "bt_mesh_model_publish C E now p st =
     (case mod_pub (get_mod p st) of
        None \<Rightarrow> (Some ENOTSUP, st)
      | Some k \<Rightarrow>
          let b = pubs st ! k in
          if pub_addr b = BT_MESH_ADDR_UNASSIGNED then (Some EADDRNOTAVAIL, st)
          else case bt_mesh_app_key_find (pub_key b) (mesh st) of
            None \<Rightarrow> (Some EADDRNOTAVAIL, st)
          | Some key \<Rightarrow>
              if length (pub_msg b) + 4 > BT_MESH_TX_SDU_MAX then (Some EMSGSIZE, st)
              else
                let st = (if pub_count b \<noteq> 0 then upd_pub k (\<lambda>b. b\<lparr>pub_timer := None\<rparr>) st else st) in
                case bt_mesh_subnet_get (ak_net_idx key) (mesh st) of
                  None \<Rightarrow> (Some EINVAL, st)
                | Some sb \<Rightarrow>
                    let st = upd_pub k (\<lambda>b. b\<lparr>pub_count := BT_MESH_PUB_TRANSMIT_COUNT (pub_retransmit b)\<rparr>) st;
                        tx = tx_of (pub_ctx b key) sb (mod_addr p st);
                        (err, st') = model_send C E now (get_mod p st) tx True (pub_msg b) (BT_MESH_TX_SDU_MAX - length (pub_msg b)) True st;
                        st' = (publish_sent now k ^^ ended_at_once (node_env E st) tx (pub_msg b) err (mesh st) (mesh st')) st'
                    in if err \<noteq> None then (err, upd_pub k (\<lambda>b. b\<lparr>pub_count := 0\<rparr>) st') else (None, st'))"

definition publish_retransmit :: "crypto_lib \<Rightarrow> mesh_env \<Rightarrow> 64 word \<Rightarrow> mod_ptr \<Rightarrow> nat \<Rightarrow> node \<Rightarrow> mesh_err option \<times> node" where
  "publish_retransmit C E now p k st =
     (let b = pubs st ! k in
      case bt_mesh_app_key_find (pub_key b) (mesh st) of
        None \<Rightarrow> (Some EADDRNOTAVAIL, st)
      | Some key \<Rightarrow>
          (case bt_mesh_subnet_get (ak_net_idx key) (mesh st) of
             None \<Rightarrow> (Some EINVAL, st)
           | Some sb \<Rightarrow>
               let st = upd_pub k (\<lambda>b. b\<lparr>pub_count := pub_count b - 1\<rparr>) st;
                   tx = tx_of (pub_ctx b key) sb (mod_addr p st);
                   (err, ms) = bt_mesh_trans_send C (node_env E st) now tx (pub_msg b) (BT_MESH_TX_SDU_MAX - length (pub_msg b)) True (mesh st)
               in (err, (publish_sent now k ^^ ended_at_once (node_env E st) tx (pub_msg b) err (mesh st) ms) (st\<lparr>mesh := ms\<rparr>))))"

text \<open>
  The work of the timer of context \<open>k\<close>, which \<open>mod_init\<close> has connected with its model.  When the period is not 0 the callback \<^verbatim>\<open>update\<close> is given,
  since \<open>_mod_pub_set\<close> refuses a period without it.
\<close>

definition mod_publish ::
  "crypto_lib \<Rightarrow> mesh_env \<Rightarrow> 64 word \<Rightarrow> (mod_ptr \<Rightarrow> node \<Rightarrow> mesh_err option \<times> node) \<Rightarrow> nat \<Rightarrow> node \<Rightarrow> node" where
  "mod_publish C E now U k st =
     (let st = upd_pub k (\<lambda>b. b\<lparr>pub_timer := None\<rparr>) st;
          p = the (pub_mod (pubs st ! k));
          period_ms = bt_mesh_model_pub_period_get p st
      in if pub_count (pubs st ! k) \<noteq> 0 then
           (case publish_retransmit C E now p k st of
              (None, st) \<Rightarrow> st
            | (Some e, st) \<Rightarrow>
                let st = upd_pub k (\<lambda>b. b\<lparr>pub_count := 0\<rparr>) st
                in if period_ms \<noteq> 0 then upd_pub k (\<lambda>b. b\<lparr>pub_timer := Some period_ms\<rparr>) st else st)
         else if period_ms = 0 then st
         else
           case U p (upd_pub k (\<lambda>b. b\<lparr>period_start := ucast now\<rparr>) st) of
             (Some e, st) \<Rightarrow> st
           | (None, st) \<Rightarrow>
               let st = snd (bt_mesh_model_publish C E now p st)
               in if pub_count (pubs st ! k) \<noteq> 0 then upd_pub k (\<lambda>b. b\<lparr>pub_timer := None\<rparr>) st else st)"

end
