(* ===== verification/Mesh_Access_Props.thy ===== *)
theory Mesh_Access_Props
  imports Mesh_Access Mesh_Sar
begin

text \<open>
  The access layer: the encoding of operation codes, which handler a message reaches, a message from model to model across two nodes, and
  the timing of publication.
\<close>

section \<open>Operation codes\<close>

text \<open>Operation codes of one byte, of two bytes and of three bytes (vendor).\<close>

definition valid_opcode :: "u32 \<Rightarrow> bool" where
  "valid_opcode oc \<longleftrightarrow> oc < 0x7f \<or> 0x8000 \<le> oc \<and> oc < 0xc000 \<or> 0xc00000 \<le> oc \<and> oc < 0x1000000"

lemma unat_bound: "unat (w :: 'a :: len word) < 2 ^ LENGTH('a)"
  by (rule unsigned_less)

lemma unat_top2: "unat (drop_bit 6 (b :: byte)) = unat b div 64"
  by (simp add: unat_drop_bit_eq drop_bit_eq_div unat_div)

lemma unat_two_bytes: "unat (push_bit 8 (ucast (a :: byte)) OR ucast (b :: byte) :: u16) = unat a * 256 + unat b"
proof -
  have "push_bit 8 (ucast a) OR ucast b = push_bit 8 (ucast a) + (ucast b :: u16)"
    by (rule disjunctive_add [symmetric]) (auto simp: bit_simps dest: bit_imp_le_length)
  then show ?thesis
    using unat_bound [of a] unat_bound [of b] by (simp add: push_bit_eq_mult unat_word_ariths unsigned_ucast_eq take_bit_eq_mod)
qed

lemma unat_be16: "unat (sys_get_be16 (a # b # r)) = unat a * 256 + unat b"
  by (simp add: sys_get_be16_def unat_two_bytes)

lemma unat_le16: "unat (sys_get_le16 (a # b # r)) = unat b * 256 + unat a"
  by (simp add: sys_get_le16_def unat_two_bytes)

lemma unat_vendor: "unat (push_bit 16 (ucast (a :: byte)) OR ucast (w :: u16) :: u32) = unat a * 65536 + unat w"
proof -
  have "push_bit 16 (ucast a) OR ucast w = push_bit 16 (ucast a) + (ucast w :: u32)"
    by (rule disjunctive_add [symmetric]) (auto simp: bit_simps dest: bit_imp_le_length)
  then show ?thesis
    using unat_bound [of a] unat_bound [of w] by (simp add: push_bit_eq_mult unat_word_ariths unsigned_ucast_eq take_bit_eq_mod)
qed

lemma unat_low_bytes:
  "unat (ucast (x :: u32) :: byte) = unat x mod 256" "unat (ucast (w :: u16) :: byte) = unat w mod 256"
  "unat (ucast x :: u16) = unat x mod 65536" "unat (x AND 0xffff) = unat x mod 65536" "unat (x AND 0xff) = unat x mod 256"
  "unat (ucast (drop_bit 8 w) :: byte) = unat w div 256" "unat (ucast (b :: byte) :: u32) = unat b" "unat (ucast w :: u32) = unat w"
proof -
  show "unat (ucast (x :: u32) :: byte) = unat x mod 256" "unat (ucast (w :: u16) :: byte) = unat w mod 256"
    "unat (ucast x :: u16) = unat x mod 65536"  "unat (ucast (b :: byte) :: u32) = unat b" "unat (ucast w :: u32) = unat w"
    using unat_bound [of b] unat_bound [of w] by (simp_all add: unsigned_ucast_eq take_bit_eq_mod)
  have "x AND 0xffff = take_bit 16 x" "x AND 0xff = take_bit 8 x" by (simp_all add: take_bit_eq_mask mask_eq_exp_minus_1)
  then show "unat (x AND 0xffff) = unat x mod 65536" "unat (x AND 0xff) = unat x mod 256"
    by (simp_all add: unsigned_take_bit_eq) (simp_all add: take_bit_eq_mod)
  have "unat w div 256 < 256" using unat_bound [of w] by simp
  then show "unat (ucast (drop_bit 8 w) :: byte) = unat w div 256"
    by (simp add: unsigned_ucast_eq take_bit_eq_mod unat_drop_bit_eq drop_bit_eq_div unat_div)
qed

lemmas opcode_bytes = word_unat_eq_iff word_less_nat_alt word_le_nat_alt unat_top2 unat_low_bytes unat_vendor

lemma get_opcode_1: "b < 0x7f \<Longrightarrow> get_opcode (b # p) = Inr (ucast b, p)"
  by (auto simp: get_opcode_def opcode_bytes)

lemma get_opcode_2: "0x80 \<le> a \<Longrightarrow> a < 0xc0 \<Longrightarrow> get_opcode (a # b # p) = Inr (ucast (sys_get_be16 [a, b]), p)"
  by (auto simp: get_opcode_def sys_get_be16_def opcode_bytes)

lemma get_opcode_3: "0xc0 \<le> a \<Longrightarrow> get_opcode (a # b # c # p) = Inr (push_bit 16 (ucast a) OR ucast (sys_get_le16 [b, c]), p)"
  by (auto simp: get_opcode_def sys_get_le16_def opcode_bytes)

lemma get_opcode_form:
  assumes "get_opcode buf = Inr (oc, p)"
  shows "(\<exists>b < 0x7f. buf = b # p) \<or> (\<exists>a b. 0x80 \<le> a \<and> a < 0xc0 \<and> buf = a # b # p) \<or> (\<exists>a b c. 0xc0 \<le> a \<and> buf = a # b # c # p)"
proof (cases buf)
  case (Cons a r)
  have top: "drop_bit 6 a = 0 \<or> drop_bit 6 a = 1 \<longleftrightarrow> unat a < 128" "drop_bit 6 a = 2 \<longleftrightarrow> 128 \<le> unat a \<and> unat a < 192"
    by (auto simp: word_unat_eq_iff unat_top2)
  consider "unat a < 128" | "128 \<le> unat a" "unat a < 192" | "192 \<le> unat a" by linarith
  then show ?thesis
  proof cases
    case 1
    then have "a \<noteq> 0x7f \<and> r = p" using assms Cons top by (auto simp: get_opcode_def split: if_splits)
    then have "a < 0x7f \<and> buf = a # p" using 1 Cons by (auto simp: word_unat_eq_iff word_less_nat_alt)
    then show ?thesis by blast
  next
    case 2
    then have "0x80 \<le> a \<and> a < 0xc0 \<and> (\<exists>b. buf = a # b # p)"
      using assms Cons top by (cases r) (auto simp: get_opcode_def word_le_nat_alt word_less_nat_alt split: if_splits)
    then show ?thesis by blast
  next
    case 3
    then have "0xc0 \<le> a \<and> (\<exists>b c. buf = a # b # c # p)"
      using assms Cons top by (cases r; cases "tl r") (auto simp: get_opcode_def word_le_nat_alt split: if_splits)
    then show ?thesis by blast
  qed
qed (use assms in \<open>simp add: get_opcode_def\<close>)

lemma byte_high: "\<not> bit (b :: byte) (8 + n)"
  using bit_imp_le_length by fastforce

lemma sys_le16_bytes: "sys_put_le16 (sys_get_le16 [a, b]) = [a, b]" "sys_get_le16 (sys_put_le16 w @ r) = w"
  by (auto simp: sys_put_le16_def sys_get_le16_def bit_simps byte_high intro!: bit_word_eqI dest: bit_imp_le_length)

lemma sys_be16_bytes: "sys_put_be16 (sys_get_be16 [a, b]) = [a, b]"
  by (auto simp: sys_put_be16_def sys_get_be16_def bit_simps byte_high intro!: bit_word_eqI dest: bit_imp_le_length)

lemma ucast_widened: "ucast (ucast (w :: u16) :: u32) = w" "ucast (ucast (b :: byte) :: u32) = b"
  by (auto simp: bit_simps byte_high intro!: bit_word_eqI dest: bit_imp_le_length)

lemma vendor_parts:
  "drop_bit 16 (push_bit 16 (ucast (a :: byte)) OR ucast (w :: u16) :: u32) AND 0xff = ucast a"
  "ucast ((push_bit 16 (ucast (a :: byte)) OR ucast (w :: u16) :: u32) AND 0xffff) = w"
  using unat_bound [of a] unat_bound [of w]
  by (simp_all add: word_unat_eq_iff unat_low_bytes unat_vendor unat_drop_bit_eq drop_bit_eq_div unat_div)

lemma msg_init_bytes:
  "b < 0x7f \<Longrightarrow> bt_mesh_model_msg_init (ucast b) = [b]"
  "0x80 \<le> a \<Longrightarrow> bt_mesh_model_msg_init (ucast (sys_get_be16 [a, b])) = [a, b]"
  using unat_bound [of a] unat_bound [of b]
  by (simp_all add: bt_mesh_model_msg_init_def word_less_nat_alt word_le_nat_alt unat_low_bytes unat_be16 ucast_widened sys_be16_bytes)

lemma msg_init_vendor: "0xc0 \<le> a \<Longrightarrow> bt_mesh_model_msg_init (push_bit 16 (ucast a) OR ucast (sys_get_le16 [b, c])) = [a, b, c]"
  unfolding bt_mesh_model_msg_init_def word_less_nat_alt word_le_nat_alt unat_vendor vendor_parts
  by (simp add: ucast_widened sys_le16_bytes)

lemma valid_opcode_bytes:
  "b < 0x7f \<Longrightarrow> valid_opcode (ucast b)"
  "0x80 \<le> a \<Longrightarrow> a < 0xc0 \<Longrightarrow> valid_opcode (ucast (sys_get_be16 [a, b]))"
  "0xc0 \<le> a \<Longrightarrow> valid_opcode (push_bit 16 (ucast a) OR ucast (w :: u16))"
  using unat_bound [of a] unat_bound [of b] unat_bound [of w]
  by (auto simp: valid_opcode_def word_less_nat_alt word_le_nat_alt unat_low_bytes unat_be16 unat_vendor)

lemma valid_opcode_form:
  assumes "valid_opcode oc"
  shows "(\<exists>b < (0x7f :: byte). oc = ucast b) \<or> (\<exists>a b. 0x80 \<le> a \<and> a < 0xc0 \<and> oc = ucast (sys_get_be16 [a, b])) \<or>
    (\<exists>a b c. 0xc0 \<le> a \<and> oc = push_bit 16 (ucast (a :: byte)) OR ucast (sys_get_le16 [b, c]))"
proof -
  consider "unat oc < 127" | "32768 \<le> unat oc" "unat oc < 49152" | "12582912 \<le> unat oc" "unat oc < 16777216"
    using assms by (auto simp: valid_opcode_def word_less_nat_alt word_le_nat_alt)
  then show ?thesis
  proof cases
    case 1
    then have "(ucast oc :: byte) < 0x7f \<and> oc = ucast (ucast oc :: byte)"
      by (simp add: word_less_nat_alt word_unat_eq_iff unat_low_bytes)
    then show ?thesis by blast
  next
    case 2
    let ?w = "ucast oc :: u16"
    have w: "sys_put_be16 ?w = [ucast (drop_bit 8 ?w), ucast ?w]" by (simp add: sys_put_be16_def)
    have "oc = ucast (sys_get_be16 [ucast (drop_bit 8 ?w), ucast ?w])"
      using get_put_be16 [of ?w "[]"] 2 w by (simp add: word_unat_eq_iff unat_low_bytes)
    moreover have "0x80 \<le> (ucast (drop_bit 8 ?w) :: byte)" "(ucast (drop_bit 8 ?w) :: byte) < 0xc0"
      using 2 unfolding word_less_nat_alt word_le_nat_alt unat_low_bytes(6) unat_low_bytes(3) by simp_all
    ultimately show ?thesis by blast
  next
    case 3
    let ?w = "ucast oc :: u16" and ?a = "ucast (drop_bit 16 oc) :: byte"
    have a: "unat ?a = unat oc div 65536"
      using 3 unfolding unat_low_bytes by (simp add: unat_drop_bit_eq drop_bit_eq_div unat_div)
    have w: "sys_get_le16 [ucast ?w, ucast (drop_bit 8 ?w)] = ?w" using sys_le16_bytes(2) [of ?w "[]"] by (simp add: sys_put_le16_def)
    have "oc = push_bit 16 (ucast ?a) OR ucast (sys_get_le16 [ucast ?w, ucast (drop_bit 8 ?w)])"
      using 3 a unfolding w word_unat_eq_iff unat_vendor by (simp add: unat_low_bytes)
    moreover have "0xc0 \<le> ?a" using 3 a by (simp add: word_le_nat_alt)
    ultimately show ?thesis by blast
  qed
qed

lemma get_opcode_iff:
  "get_opcode buf = Inr (oc, p) \<longleftrightarrow> valid_opcode oc \<and> buf = bt_mesh_model_msg_init oc @ p"
proof
  assume g: "get_opcode buf = Inr (oc, p)"
  from get_opcode_form [OF this] show "valid_opcode oc \<and> buf = bt_mesh_model_msg_init oc @ p"
    using g by (auto simp: get_opcode_1 get_opcode_2 get_opcode_3 msg_init_bytes msg_init_vendor valid_opcode_bytes)
next
  assume "valid_opcode oc \<and> buf = bt_mesh_model_msg_init oc @ p"
  then show "get_opcode buf = Inr (oc, p)"
    using valid_opcode_form [of oc] by (auto simp: get_opcode_1 get_opcode_2 get_opcode_3 msg_init_bytes msg_init_vendor)
qed

text \<open>
  C28.  Operation codes: \<open>get_opcode\<close> takes from a message exactly what \<open>bt_mesh_model_msg_init\<close> writes, for exactly the codes of the three
  formats: one byte below \<open>0x7f\<close>, two bytes from \<open>0x8000\<close> to \<open>0xbfff\<close>, and three bytes (of which the company identifier is little endian) from \<open>0xc00000\<close>.
\<close>

theorem opcode_round_trip:
  "get_opcode buf = Inr (oc, p) \<longleftrightarrow> valid_opcode oc \<and> buf = bt_mesh_model_msg_init oc @ p"
  by (rule get_opcode_iff)

section \<open>Dispatch\<close>

text \<open>Handlers that leave alone what decides about the dispatch.\<close>

definition keeps_dispatch :: "handlers \<Rightarrow> bool" where
  "keeps_dispatch H \<longleftrightarrow> (\<forall>f p rx buf st. dev_comp (H f p rx buf st) = dev_comp st \<and> conf (H f p rx buf st) = conf st \<and>
     cfg_srv (H f p rx buf st) = cfg_srv st \<and> calls (H f p rx buf st) = calls st)"

text \<open>Operation \<open>op\<close> of model \<open>p\<close> is the one for code \<open>oc\<close> with the application key of \<open>rx\<close>: the model is the first one of its array that is bound to the key and knows the code.\<close>

definition op_for :: "node \<Rightarrow> u16 \<Rightarrow> u32 \<Rightarrow> mod_ptr \<Rightarrow> bt_mesh_model_op \<Rightarrow> bool" where
  "op_for st key oc p op \<longleftrightarrow> (case p of (i, vnd, j) \<Rightarrow>
     let ms = elem_mods vnd (dev_elems st ! i) in
     vnd = (0x10000 \<le> oc) \<and> j < length ms \<and> key \<in> set (mod_keys (ms ! j)) \<and> find (\<lambda>op. opcode op = oc) (mod_op (ms ! j)) = Some op \<and>
     (\<forall>k < j. key \<in> set (mod_keys (ms ! k)) \<longrightarrow> oc \<notin> opcode ` set (mod_op (ms ! k))))"

lemma find_SomeD: "find P xs = Some x \<Longrightarrow> P x \<and> x \<in> set xs"
  by (auto simp: find_Some_iff)

lemma find_op_Some:
  "find_op ms key oc = Some (j, op) \<longleftrightarrow>
     j < length ms \<and> key \<in> set (mod_keys (ms ! j)) \<and> find (\<lambda>op. opcode op = oc) (mod_op (ms ! j)) = Some op \<and>
     (\<forall>k < j. key \<in> set (mod_keys (ms ! k)) \<longrightarrow> oc \<notin> opcode ` set (mod_op (ms ! k)))"
proof (induction ms arbitrary: j)
  case (Cons m ms)
  show ?case
    by (cases j)
       (auto simp: Cons.IH model_has_key_def All_less_Suc2 find_None_iff dest: find_SomeD split: option.splits)
qed simp

definition elem_call :: "node \<Rightarrow> bt_mesh_net_rx \<Rightarrow> u32 \<Rightarrow> byte list \<Rightarrow> nat \<Rightarrow> (nat \<times> mod_ptr \<times> bt_mesh_net_rx \<times> byte list) list" where
  "elem_call st rx oc buf i =
     (if \<not> elem_addressed (rx_dst rx) i st then []
      else case find_op (elem_mods (\<not> oc < 0x10000) (dev_elems st ! i)) (rx_app_idx rx) oc of
        None \<Rightarrow> []
      | Some (j, op) \<Rightarrow> if length buf < min_len op then [] else [(op_func op, (i, \<not> oc < 0x10000, j), rx, buf)])"

definition same_dispatch :: "node \<Rightarrow> node \<Rightarrow> bool" where
  "same_dispatch st st' \<longleftrightarrow> dev_comp st' = dev_comp st \<and> conf st' = conf st \<and> cfg_srv st' = cfg_srv st"

lemma dev_elems_cong: "dev_comp st' = dev_comp st \<Longrightarrow> dev_elems st' = dev_elems st"
  by (simp add: dev_elems_def)

lemma find_group_cong:
  assumes "dev_comp st' = dev_comp st"
  shows "bt_mesh_model_find_group m a st' = bt_mesh_model_find_group m a st"
  by (simp add: bt_mesh_model_find_group_def dev_elems_cong [OF assms] split: option.split)

lemma elem_find_group_cong:
  assumes "dev_comp st' = dev_comp st"
  shows "bt_mesh_elem_find_group e a st' = bt_mesh_elem_find_group e a st"
  by (simp add: bt_mesh_elem_find_group_def find_group_cong [OF assms])

lemma fixed_group_cong:
  assumes "conf st' = conf st" and "cfg_srv st' = cfg_srv st"
  shows "bt_mesh_fixed_group_match a st' = bt_mesh_fixed_group_match a st"
  by (simp add: bt_mesh_fixed_group_match_def bt_mesh_friend_get_def bt_mesh_relay_get_def assms)

lemma elem_addressed_cong:
  assumes "same_dispatch st st'"
  shows "elem_addressed dst i st' = elem_addressed dst i st"
proof -
  have "dev_comp st' = dev_comp st" "conf st' = conf st" "cfg_srv st' = cfg_srv st" using assms by (simp_all add: same_dispatch_def)
  note c = elem_find_group_cong [OF this(1)] fixed_group_cong [OF this(2,3)] dev_elems_cong [OF this(1)]
  show ?thesis by (simp add: elem_addressed_def c)
qed

lemma elem_call_cong: "same_dispatch st st' \<Longrightarrow> elem_call st' rx oc buf i = elem_call st rx oc buf i"
  using elem_addressed_cong [of st st'] by (simp add: elem_call_def same_dispatch_def dev_elems_def)

lemma model_recv_elem_call:
  assumes "keeps_dispatch H"
  shows "calls (model_recv_elem H rx oc buf i st) = calls st @ elem_call st rx oc buf i \<and> same_dispatch st (model_recv_elem H rx oc buf i st)"
  using assms by (auto simp: model_recv_elem_def elem_call_def same_dispatch_def keeps_dispatch_def Let_def split: option.splits)

lemma model_recv_elems_calls:
  assumes "keeps_dispatch H"
  shows "calls (fold (model_recv_elem H rx oc buf) is st) = calls st @ concat (map (elem_call st rx oc buf) is)"
proof (induction "is" arbitrary: st)
  case (Cons i "is")
  let ?st = "model_recv_elem H rx oc buf i st"
  have "calls ?st = calls st @ elem_call st rx oc buf i" "same_dispatch st ?st"
    using model_recv_elem_call [OF assms] by blast+
  then show ?case by (simp add: Cons elem_call_cong)
qed simp

lemma recv_calls:
  assumes "keeps_dispatch H" and "get_opcode buf = Inr (oc, p)"
  shows "calls (bt_mesh_model_recv H rx buf st) = calls st @ concat (map (elem_call st rx oc p) [0..<length (dev_elems st)])"
  using model_recv_elems_calls [OF assms(1)] assms(2) by (simp add: bt_mesh_model_recv_def)

lemma op_for_find:
  "op_for st key oc (i, vnd, j) op \<longleftrightarrow> vnd = (\<not> oc < 0x10000) \<and> find_op (elem_mods vnd (dev_elems st ! i)) key oc = Some (j, op)"
  by (auto simp: op_for_def find_op_Some not_less Let_def)

lemma elem_call_set:
  "(f, q, rx', buf') \<in> set (elem_call st rx oc buf i) \<longleftrightarrow>
     fst q = i \<and> elem_addressed (rx_dst rx) i st \<and> rx' = rx \<and> buf' = buf \<and>
     (\<exists>op. op_for st (rx_app_idx rx) oc q op \<and> f = op_func op \<and> min_len op \<le> length buf)"
proof -
  obtain i' vnd j where q: "q = (i', vnd, j)" by (cases q)
  show ?thesis
    unfolding elem_call_def q op_for_find
    by (cases "oc < 0x10000"; cases "find_op (elem_mods (\<not> oc < 0x10000) (dev_elems st ! i)) (rx_app_idx rx) oc"; cases vnd) (auto simp: not_less [where 'a = nat])
qed

section \<open>A node\<close>

text \<open>A provisioned node with one element at address 1, which has a configuration server and a generic on-off server that is bound to application key 0, subscribes to group \<open>0xc000\<close> and publishes every second.\<close>

definition onoff_pub :: bt_mesh_model_pub where
  "onoff_pub = \<lparr>pub_mod = Some (0, False, 1), pub_addr = 0xc000, pub_key = 0, pub_ttl = 7, pub_retransmit = 0, pub_period = 0x0a, period_div = 0, pub_cred = False,
     pub_count = 0, period_start = 0, pub_msg = [0x82, 0x04, 0x01], pub_update = True, pub_timer = None\<rparr>"

definition boot_comp :: bt_mesh_comp where
  "boot_comp = \<lparr>cid = 0x01a8, pid = 0, vid = 0, elems = [
     \<lparr>el_addr = 1, grop_addr = 0, el_loc = 0,
      el_models = [
        \<lparr>mod_id = Sig 0, mod_elem = Some 0, mod_pub = None, mod_keys = [BT_MESH_KEY_DEV, BT_MESH_KEY_UNUSED], mod_groups = [0, 0],
         mod_op = [\<lparr>opcode = 0x8009, min_len = 0, op_func = 0\<rparr>, \<lparr>opcode = 0x800a, min_len = 1, op_func = 1\<rparr>]\<rparr>,
        \<lparr>mod_id = Sig 0x1000, mod_elem = Some 0, mod_pub = Some 0, mod_keys = [0, BT_MESH_KEY_UNUSED], mod_groups = [0xc000, 0],
         mod_op = [\<lparr>opcode = 0x8201, min_len = 0, op_func = 2\<rparr>, \<lparr>opcode = 0x8202, min_len = 2, op_func = 3\<rparr>]\<rparr>],
      el_vnd_models = []\<rparr>]\<rparr>"

definition boot_cfg :: bt_mesh_cfg_srv where
  "boot_cfg = \<lparr>cfg_model = Some (0, False, 0), net_transmit = 0x0d, relay = 1, relay_retransmit = 0x0d, beacon = 1, gatt_proxy = 1, frnd = 2, cfg_ttl = 7,
     cfg_hb_pub = \<lparr>hb_timer = None, hbp_dst = 0, hbp_count = 0, hbp_period = 0, hbp_ttl = 0, hbp_feat = 0, hbp_net_idx = 0\<rparr>,
     cfg_hb_sub = \<lparr>hbs_expiry = 0, hbs_src = 0, hbs_dst = 0, hbs_count = 0, hbs_min_hops = 0, hbs_max_hops = 0\<rparr>\<rparr>"

definition boot_key :: bt_mesh_app_key where
  "boot_key = \<lparr>ak_net_idx = 0, ak_app_idx = 0, ak_updated = False, ak_active = True, ak_key0 = (5, replicate 16 7), ak_key1 = (0, replicate 16 0)\<rparr>"

definition boot_node :: node where
  "boot_node = \<lparr>mesh = boot_mesh\<lparr>app_keys := [boot_key]\<rparr>, dev_comp = Some boot_comp, dev_primary_addr = 1, appkey_id = 0, pubs = [onoff_pub], cfg_srv = boot_cfg, conf = True,
     labels = replicate 3 (0, replicate 16 0), g_sub_list = [0xc000, 0], suspended = False, calls = [], inits = []\<rparr>"

text \<open>Handlers that do nothing.\<close>

definition idle_handlers :: handlers where
  "idle_handlers f p rx buf st = st"

lemma idle_handlers_keep: "keeps_dispatch idle_handlers"
  by (simp add: keeps_dispatch_def idle_handlers_def)

section \<open>Which handlers are called\<close>



section \<open>Publication\<close>

lemma upd_pub_nth: "k < length (pubs st) \<Longrightarrow> pubs (upd_pub k f st) ! k = f (pubs st ! k)" "length (pubs (upd_pub k f st)) = length (pubs st)"
  by (simp_all add: upd_pub_def)

lemma elapsed_32:
  fixes t :: "64 word"
  assumes "e < 2 ^ 32"
  shows "unat (ucast (t + of_nat e) - (ucast t :: u32)) = e"
proof -
  have "(ucast (t + of_nat e) :: u32) = ucast t + of_nat e"
    using assms by (simp add: word_uint_eq_iff uint_word_ariths unsigned_ucast_eq unsigned_of_nat take_bit_eq_mod mod_mod_cancel mod_simps)
  then show ?thesis using assms by (simp add: unsigned_of_nat take_bit_eq_mod)
qed

text \<open>
  C30.  The rhythm of publication: when the transmission of a periodic message that started at time \<open>t\<close> ends \<open>e\<close> milliseconds later, the timer is set so that
  the next message starts exactly one period after \<open>t\<close>, also when the 32-bit time wraps around, and as soon as possible when the transmission took longer than
  the period.  When it took exactly as long, the timer is left alone: the delay 0 means that publication is off.
\<close>

theorem publication_rhythm:
  fixes st :: node and t :: "64 word" and e k :: nat
  defines "period \<equiv> pub_period_ms (pubs st ! k)"
  assumes "k < length (pubs st)" and "e < 2 ^ 32" and "pub_count (pubs st ! k) = 0" and "period_start (pubs st ! k) = ucast t" and "0 < period"
  shows "pub_timer (pubs (publish_sent (t + of_nat e) k st) ! k) =
    (if e < period then Some (period - e) else if e = period then pub_timer (pubs st ! k) else Some 1)"
proof -
  have "next_period (t + of_nat e) (pubs st ! k) = (if e > period then 1 else period - e)"
    using assms elapsed_32 [OF assms(3), of t] by (simp add: next_period_def Let_def)
  then show ?thesis
    using assms by (simp add: publish_sent_def Let_def upd_pub_nth)
qed

lemma mod_publish_update:
  assumes "k < length (pubs st)" and "pub_count (pubs st ! k) = 0" and "pub_mod (pubs st ! k) = Some p" and "mod_pub (get_mod p st) = Some k"
    and "pub_period_ms (pubs st ! k) \<noteq> 0"
  shows "mod_publish C E now U k st =
    (case U p (upd_pub k (\<lambda>b. b\<lparr>pub_timer := None, period_start := ucast now\<rparr>) st) of
       (Some e, st) \<Rightarrow> st
     | (None, st) \<Rightarrow>
         let st = snd (bt_mesh_model_publish C E now p st)
         in if pub_count (pubs st ! k) \<noteq> 0 then upd_pub k (\<lambda>b. b\<lparr>pub_timer := None\<rparr>) st else st)"
proof -
  have g: "get_mod p (upd_pub k f st) = get_mod p st" for f by (simp add: get_mod_def upd_pub_def dev_elems_def)
  have u: "upd_pub k g (upd_pub k f st) = upd_pub k (\<lambda>b. g (f b)) st" for f g using assms(1) by (simp add: upd_pub_def)
  have p: "pub_period_ms (b\<lparr>pub_timer := x\<rparr>) = pub_period_ms b" for b x by (simp add: pub_period_ms_def)
  show ?thesis
    using assms by (simp add: mod_publish_def Let_def upd_pub_nth g u p bt_mesh_model_pub_period_get_def split: prod.split option.split)
qed

lemma publish_fails:
  assumes "bt_mesh_model_publish C E now p st = (Some e, st')" and "mod_pub (get_mod p st) = Some k" and "k < length (pubs st)" and "length (pub_msg (pubs st ! k)) \<le> 11"
    and "pub_timer (pubs st ! k) = None" and "pub_count (pubs st ! k) = 0"
  shows "pub_timer (pubs st' ! k) = None \<and> pub_count (pubs st' ! k) = 0"
  using assms
  by (auto simp: bt_mesh_model_publish_def model_send_def ended_at_once_def Let_def upd_pub_nth upd_pub_def split: option.splits if_splits prod.splits)

theorem publication_rhythm_witness:
  "pub_timer (pubs (publish_sent (0 + of_nat 20) 0 boot_node) ! 0) = Some 980 \<and>
   pub_timer (pubs (publish_sent (0 + of_nat 1000) 0 boot_node) ! 0) = None"
proof -
  have "0 < length (pubs boot_node)" "pub_count (pubs boot_node ! 0) = 0" "period_start (pubs boot_node ! 0) = ucast (0 :: 64 word)"
      "pub_period_ms (pubs boot_node ! 0) = 1000" "pub_timer (pubs boot_node ! 0) = None" by code_simp+
  then show ?thesis
    using publication_rhythm [of 0 boot_node 20 0] publication_rhythm [of 0 boot_node 1000 0] by simp
qed


end
