(* ===== verification/Mesh_Deliver.thy ===== *)
theory Mesh_Deliver
  imports Mesh_Access_Props Mesh_Net_Props
begin

text \<open>
  The layers together: a message that a model of one node sends in a single PDU reaches the handler of a model on another node.
\<close>

section \<open>What receiving keeps\<close>

definition caches_only :: "'a bt_mesh_net_scheme \<Rightarrow> 'a bt_mesh_net_scheme \<Rightarrow> bool" where
  "caches_only st st' \<longleftrightarrow> (\<exists>a b c d. st' = st\<lparr>dup_cache := a, dup_cache_next := b, msg_cache := c, msg_cache_next := d\<rparr>)"

lemma caches_only_refl [simp]: "caches_only st st"
proof -
  have "st = st\<lparr>dup_cache := dup_cache st, dup_cache_next := dup_cache_next st, msg_cache := msg_cache st, msg_cache_next := msg_cache_next st\<rparr>" by simp
  then show ?thesis unfolding caches_only_def by blast
qed

lemma caches_only_trans: "caches_only st st' \<Longrightarrow> caches_only st' st'' \<Longrightarrow> caches_only st st''"
  by (auto simp: caches_only_def) blast

lemma caches_only_dup [simp]: "caches_only st (snd (check_dup data st))"
proof -
  have "caches_only st (st\<lparr>dup_cache := a, dup_cache_next := b\<rparr>)" for a b
    unfolding caches_only_def by (intro exI [of _ a] exI [of _ b] exI [of _ "msg_cache st"] exI [of _ "msg_cache_next st"]) simp
  then show ?thesis by (simp add: check_dup_def Let_def)
qed

lemma caches_only_msg [simp]: "caches_only st (snd (msg_cache_match iv data st))"
proof -
  have "caches_only st (st\<lparr>msg_cache := a, msg_cache_next := b\<rparr>)" for a b
    unfolding caches_only_def by (intro exI [of _ "dup_cache st"] exI [of _ "dup_cache_next st"] exI [of _ a] exI [of _ b]) simp
  then show ?thesis by (simp add: msg_cache_match_def Let_def)
qed

lemma caches_only_decrypt: "net_decrypt C enc priv data rx st = (r, rx', st') \<Longrightarrow> caches_only st st'"
  by (auto simp: net_decrypt_def Let_def split: sum.splits prod.splits if_splits bool.splits)
     (metis caches_only_msg snd_conv)+

lemma caches_only_find_loop: "net_find_loop C data n ss rx st = (r, rx', st') \<Longrightarrow> caches_only st st'"
proof (induction ss arbitrary: n rx st)
  case (Cons s ss)
  then show ?case
    by (auto simp: Let_def split: sum.splits prod.splits if_splits dest!: caches_only_decrypt intro: caches_only_trans)
qed simp

lemma caches_only_decode:
  assumes "bt_mesh_net_decode C E data net_if rx st = (r, rx', st')"
  shows "caches_only st st'"
proof -
  obtain b st1 where d: "(if net_if = BT_MESH_NET_IF_ADV then check_dup data st else (False, st)) = (b, st1)" by fastforce
  then have 1: "caches_only st st1" by (metis caches_only_dup caches_only_refl snd_conv)
  obtain f rx1 st2 where f: "net_find_and_decrypt C data (rx\<lparr>rx_net_if := net_if\<rparr>) st1 = (f, rx1, st2)"
    by (cases "net_find_and_decrypt C data (rx\<lparr>rx_net_if := net_if\<rparr>) st1")
  then have 2: "caches_only st1 st2" using caches_only_find_loop by (auto simp: net_find_and_decrypt_def)
  have "st' = st \<or> st' = st1 \<or> st' = st2"
    using assms f unfolding bt_mesh_net_decode_def d by (auto simp: Let_def split: option.splits if_splits bool.splits)
  then show ?thesis using 1 2 caches_only_trans by (metis caches_only_refl)
qed

lemma caches_only_fields:
  assumes "caches_only st (st' :: mesh_state)"
  shows "same_keys st st'" "rpl st' = rpl st" "rpl_index st' = rpl_index st" "provisioned st' = provisioned st" "delivered st' = delivered st"
  using assms by (auto simp: caches_only_def same_keys_def)

lemma relay_delivered [simp]: "delivered (bt_mesh_net_relay C E buf rx st) = delivered st"
  by (simp add: bt_mesh_net_relay_def Let_def emit_def split: sum.split)

section \<open>A message in one PDU\<close>

text \<open>The header of the PDU, and the time to live.\<close>

definition unseg_hdr :: "u16 \<Rightarrow> u8 \<Rightarrow> byte" where
  "unseg_hdr app_idx aid = (if app_idx = BT_MESH_KEY_DEV then UNSEG_HDR False 0 else UNSEG_HDR True aid)"

definition ttl_of :: "mesh_env \<Rightarrow> bt_mesh_net_tx \<Rightarrow> bt_mesh_net_tx" where
  "ttl_of E tx = (if tx_ttl tx = BT_MESH_TTL_DEFAULT then tx\<lparr>tx_ttl := default_ttl E\<rparr> else tx)"

lemma encode_seal_access:
  assumes "4 \<le> tailroom" and "tx_app_idx tx \<noteq> BT_MESH_KEY_UNUSED"
  shows "bt_mesh_net_encode C tx payload tailroom False st =
    (seal C (cur_keys (sub st ! tx_sub tx)) (BT_MESH_NET_IVI_TX st) (plain_pdu tx payload st), st\<lparr>seq := seq st + 1\<rparr>)"
  using assms by (simp add: bt_mesh_net_encode_def Let_def seal_def plain_pdu_def BT_MESH_NET_IVI_TX_def)

lemma net_send_seals:
  assumes "4 \<le> tailroom" and "tx_app_idx tx \<noteq> BT_MESH_KEY_UNUSED"
    and "bt_mesh_net_send C E tx payload tailroom st = (Inr r, st')" and "outbox st' = outbox st @ [Adv pdu]"
  shows "seal C (cur_keys (sub st ! tx_sub tx)) (BT_MESH_NET_IVI_TX st) (plain_pdu (ttl_of E tx) payload st) = Inr pdu"
proof -
  let ?tx = "ttl_of E tx"
  have t: "tx_app_idx ?tx \<noteq> BT_MESH_KEY_UNUSED" "tx_sub ?tx = tx_sub tx" "tx_addr ?tx = tx_addr tx" using assms(2) by (auto simp: ttl_of_def)
  note e = encode_seal_access [OF assms(1) t(1), of C payload st]
  show ?thesis
    using assms(3,4) e t(2) unfolding bt_mesh_net_send_def Let_def ttl_of_def [symmetric]
    by (auto simp: emit_def split: sum.splits if_splits)
qed

lemma trans_send_short:
  assumes "bt_mesh_trans_send C E now tx msg room cb st = (None, st')" and "outbox st' = outbox st @ [Adv pdu]"
    and "length msg \<le> 11" and "\<not> tx_send_rel tx" and "tx_app_idx tx \<noteq> BT_MESH_KEY_UNUSED" and "crypto_ok C" and "msg \<noteq> []"
    and "\<forall>l. label_of E (tx_addr tx) = Some l \<longrightarrow> 16 \<le> length l"
  shows "\<exists>key aid sdu. trans_key tx st = Some (key, aid) \<and>
    bt_mesh_app_encrypt C key (tx_app_idx tx = BT_MESH_KEY_DEV) False msg (label_of E (tx_addr tx)) (tx_src tx) (tx_addr tx) (ucast (seq st)) (BT_MESH_NET_IVI_TX st) = Inr sdu \<and>
    seal C (cur_keys (sub st ! tx_sub tx)) (BT_MESH_NET_IVI_TX st) (plain_pdu (ttl_of E tx) (unseg_hdr (tx_app_idx tx) aid # sdu) st) = Inr pdu"
proof -
  obtain key aid where k: "trans_key tx st = Some (key, aid)"
    using assms(1,3) by (auto simp: bt_mesh_trans_send_def Let_def split: if_splits option.splits)
  let ?tx = "tx\<lparr>tx_aid := aid, tx_aszmic := False\<rparr>"
  obtain sdu where s: "bt_mesh_app_encrypt C key (tx_app_idx tx = BT_MESH_KEY_DEV) False msg (label_of E (tx_addr tx)) (tx_src tx) (tx_addr tx) (ucast (seq st)) (BT_MESH_NET_IVI_TX st) = Inr sdu"
      and u: "send_unseg C E ?tx sdu st = (None, st')"
    using assms(1,3,4) k by (auto simp: bt_mesh_trans_send_def Let_def label_of_def split: if_splits sum.splits)
  have len: "length sdu \<le> 15" using app_round_trip(1) [OF assms(6,7,8) s] assms(3) by (simp add: APP_MIC_LEN_def)
  let ?pay = "unseg_hdr (tx_app_idx tx) aid # sdu"
  have "4 \<le> adv_tailroom ?pay" using len by (simp add: adv_tailroom_def)
  moreover obtain r where "bt_mesh_net_send C E ?tx ?pay (adv_tailroom ?pay) st = (Inr r, st')"
    using u by (auto simp: send_unseg_def unseg_hdr_def Let_def split: if_splits sum.splits prod.splits)
  ultimately have "seal C (cur_keys (sub st ! tx_sub tx)) (BT_MESH_NET_IVI_TX st) (plain_pdu (ttl_of E ?tx) ?pay st) = Inr pdu"
    using net_send_seals [of _ ?tx C E ?pay st r st' pdu] assms(2,5) by simp
  moreover have "plain_pdu (ttl_of E ?tx) ?pay st = plain_pdu (ttl_of E tx) ?pay st" by (simp add: plain_pdu_def ttl_of_def)
  ultimately show ?thesis using k s by auto
qed

lemma is_replay_cong: "rpl st' = rpl st \<Longrightarrow> fst (is_replay rx st') = fst (is_replay rx st)"
  by (auto simp: is_replay_def split: option.splits)

lemma recv_sealed:
  assumes "crypto_ok C" and "8 \<le> length h" and "BT_MESH_NET_MIN_PDU_LEN \<le> length h + NET_MIC_LEN h" and "length pdu \<le> 29"
    and "seal C k iv h = Inr pdu" and "can_open k iv h pdu BT_MESH_NET_IF_ADV st" and "well_addressed E BT_MESH_NET_IF_ADV h"
    and "drop 9 h = hdr # sdu" and "\<not> bit hdr 7" and "\<not> CTL h" and "provisioned st" and "fixed_group_match E (DST h) \<or> elem_find E (DST h)"
    and rx: "rx = (rx_of h BT_MESH_NET_IF_ADV (iv_index st \<noteq> iv) (hd (sub st)) zero_rx)\<lparr>rx_local_match := True, rx_friend_match := False\<rparr>"
    and "\<not> fst (is_replay rx st)" and "sdu_opens C E rx hdr False sdu idx msg st"
  shows "delivered (mesh_recv C E now pdu BT_MESH_NET_IF_ADV st) = delivered st @ [(rx\<lparr>rx_app_idx := idx\<rparr>, msg)]"
proof -
  let ?rx = "rx_of h BT_MESH_NET_IF_ADV (iv_index st \<noteq> iv) (hd (sub st)) zero_rx"
  obtain st' where d: "bt_mesh_net_decode C E pdu BT_MESH_NET_IF_ADV zero_rx st = (Inr h, ?rx, st')"
    using decode_sealed [OF assms(1,3,2,5,6) _ assms(7)] by auto
  note f = caches_only_fields [OF caches_only_decode [OF d]]
  obtain st'' where r: "is_replay rx st' = (False, st'')"
    using is_replay_cong [OF f(2), of rx] assms(14) by (cases "is_replay rx st'") auto
  have k: "same_keys st st''"
    using is_replay_frame [of rx st'] r f(1) by (auto simp: same_keys_def)
  have rxd: "rx_dst ?rx = DST h" "rx_dst rx = DST h" "rx_ctl rx = False" "rx_local_match rx" using assms(10) by (simp_all add: rx rx_of_def)
  have u: "trans_unseg C E now (hdr # sdu) rx st' = (None, model_recv (rx\<lparr>rx_app_idx := idx\<rparr>) msg st'')"
    using r rxd assms(15) k by (simp add: trans_unseg_def sdu_opens_def)
  have t: "bt_mesh_trans_recv C E now h (?rx\<lparr>rx_local_match := True\<rparr>) st' = (None, rx, model_recv (rx\<lparr>rx_app_idx := idx\<rparr>) msg st'')"
    using u assms(8,9) by (simp add: bt_mesh_trans_recv_def Let_def SEG_def rx)
  have "delivered (model_recv (rx\<lparr>rx_app_idx := idx\<rparr>) msg st'') = delivered st @ [(rx\<lparr>rx_app_idx := idx\<rparr>, msg)]"
    using k by (simp add: model_recv_def same_keys_def)
  then show ?thesis
    using d t assms(4,11,12) rxd by (simp add: mesh_recv_def bt_mesh_net_recv_def Let_def)
qed

section \<open>From model to model\<close>

text \<open>
  Node \<open>B\<close> can receive what node \<open>A\<close> sends with \<open>tx\<close>: it has the key of the subnet, an IV index that is the one of \<open>A\<close> or the next one, it has
  not seen the PDU, the sequence number is no replay, and the source is not one of its elements.
\<close>

definition tuned_to :: "node \<Rightarrow> bt_mesh_net_tx \<Rightarrow> byte list \<Rightarrow> node \<Rightarrow> bool" where
  "tuned_to A tx pdu B \<longleftrightarrow>
     (let iv = BT_MESH_NET_IVI_TX (mesh A) in
      provisioned (mesh B) \<and> (\<exists>s ss. sub (mesh B) = s # ss \<and> net_idx s \<noteq> BT_MESH_KEY_UNUSED \<and> keys0 s = cur_keys (sub (mesh A) ! tx_sub tx)) \<and>
      (iv_index (mesh B) = iv \<or> iv_index (mesh B) = iv + 1) \<and>
      \<not> fst (check_dup pdu (mesh B)) \<and> \<not> fst (msg_cache_match iv (plain_pdu tx [] (mesh A)) (mesh B)) \<and>
      \<not> fst (is_replay (msg_from (tx_src tx) (ucast (seq (mesh A))) (iv_index (mesh B) \<noteq> iv)) (mesh B)) \<and>
      bt_mesh_elem_find (tx_src tx) B = None)"

text \<open>The key that \<open>A\<close> uses for \<open>tx\<close> is the device key of \<open>B\<close>, or the first application key of the subnet on \<open>B\<close> that has its identifier, where it has index \<open>idx\<close>.\<close>

definition shares_key :: "node \<Rightarrow> bt_mesh_net_tx \<Rightarrow> node \<Rightarrow> u16 \<Rightarrow> bool" where
  "shares_key A tx B idx \<longleftrightarrow>
     (if tx_app_idx tx = BT_MESH_KEY_DEV then dev_key (mesh B) = dev_key (mesh A) \<and> idx = BT_MESH_KEY_DEV
      else case trans_key tx (mesh A) of
        None \<Rightarrow> False
      | Some (key, aid) \<Rightarrow>
          aid < 0x40 \<and>
          (case filter (\<lambda>k. ak_net_idx k = net_idx (hd (sub (mesh B))) \<and> fst (ak_key0 k) = aid) (app_keys (mesh B)) of
             [] \<Rightarrow> False
           | k # ks \<Rightarrow> snd (ak_key0 k) = key \<and> ak_app_idx k = idx))"

lemma is_replay_fields:
  assumes "rx_addr rx' = rx_addr rx" and "rx_old_iv rx' = rx_old_iv rx" and "rx_seq rx' = rx_seq rx"
  shows "is_replay rx' st = is_replay rx st"
proof -
  have "rpl_loop rx' l = rpl_loop rx l" for l using assms by (induction l) simp_all
  then show ?thesis using assms by (simp add: is_replay_def split: option.split)
qed

lemma unseg_hdr_bits:
  "\<not> bit (unseg_hdr app_idx aid) 7" "AKF (unseg_hdr app_idx aid) \<longleftrightarrow> app_idx \<noteq> BT_MESH_KEY_DEV"
  "app_idx \<noteq> BT_MESH_KEY_DEV \<Longrightarrow> aid < 0x40 \<Longrightarrow> AID (unseg_hdr app_idx aid) = aid"
proof -
  show "\<not> bit (unseg_hdr app_idx aid) 7" "AKF (unseg_hdr app_idx aid) \<longleftrightarrow> app_idx \<noteq> BT_MESH_KEY_DEV"
    by (simp_all add: unseg_hdr_def UNSEG_HDR_def AKF_def bit_simps)
  assume "app_idx \<noteq> BT_MESH_KEY_DEV" "aid < 0x40"
  then have "\<not> bit aid 6" "\<not> bit aid 7" using small_word_bit [of aid 6] by (simp_all add: word_less_nat_alt)
  then show "AID (unseg_hdr app_idx aid) = aid" using \<open>app_idx \<noteq> BT_MESH_KEY_DEV\<close>
    by (intro u8_eqI) (simp_all add: AID_def unseg_hdr_def UNSEG_HDR_def bit_simps)
qed

lemma addressed_matches:
  assumes "elem_addressed dst i B" and "i < length (dev_elems B)"
  shows "bt_mesh_fixed_group_match dst B \<or> bt_mesh_elem_find dst B \<noteq> None"
proof -
  have u: "BT_MESH_ADDR_IS_UNICAST dst \<Longrightarrow> \<not> BT_MESH_ADDR_IS_GROUP dst \<and> \<not> BT_MESH_ADDR_IS_VIRTUAL dst"
    by (auto simp: BT_MESH_ADDR_IS_UNICAST_def BT_MESH_ADDR_IS_GROUP_def BT_MESH_ADDR_IS_VIRTUAL_def word_less_nat_alt word_le_nat_alt)
  have "\<exists>j. bt_mesh_elem_find dst B = Some j" if "\<not> (\<not> BT_MESH_ADDR_IS_UNICAST dst \<and> \<not> BT_MESH_ADDR_IS_GROUP dst \<and> \<not> BT_MESH_ADDR_IS_VIRTUAL dst)"
    unfolding bt_mesh_elem_find_def
    using assms that u by (intro find_index_ex bexI [of _ "dev_elems B ! i"]) (auto simp: elem_addressed_def Let_def split: if_splits)
  then show ?thesis using assms(1) by (auto simp: elem_addressed_def Let_def split: if_splits)
qed

lemma plain_pdu_hash: "msg_hash iv (plain_pdu tx payload st) = msg_hash iv (plain_pdu tx [] st)"
  by (simp add: msg_hash_def plain_pdu_def seq_bytes_def sys_put_be16_def nth_Cons')

lemma trans_key_cong: "tx_app_idx tx' = tx_app_idx tx \<Longrightarrow> tx_sub tx' = tx_sub tx \<Longrightarrow> trans_key tx' st = trans_key tx st"
  unfolding trans_key_def by (simp only:)

lemma shares_key_holds:
  assumes "shares_key A tx B idx" and "trans_key tx (mesh A) = Some (key, aid)" and "rx_sub rx = 0" and "\<not> rx_new_key rx" and "sub (mesh B) \<noteq> []"
  shows "holds_key rx (unseg_hdr (tx_app_idx tx) aid) key idx (mesh B)"
proof (cases "tx_app_idx tx = BT_MESH_KEY_DEV")
  case True
  then show ?thesis using assms(1,2) by (simp add: shares_key_def holds_key_def unseg_hdr_bits trans_key_def)
next
  case False
  have k: "rx_app_key rx k = ak_key0 k" for k using assms(4) by (simp add: rx_app_key_def)
  show ?thesis
    using assms(1,2,3,5) False
    by (auto simp: shares_key_def holds_key_def unseg_hdr_bits k hd_conv_nth Let_def split: list.splits)
qed

lemma model_send_short:
  fixes A :: node and ctx :: bt_mesh_msg_ctx and sb :: nat and p :: mod_ptr
  defines "tx \<equiv> tx_of ctx sb (mod_addr p A)"
  assumes "bt_mesh_subnet_get (ctx_net_idx ctx) (mesh A) = Some sb"
    and "bt_mesh_model_send C E now p ctx msg room cb A = (None, A')" and "outbox (mesh A') = outbox (mesh A) @ [Adv pdu]"
    and "length msg \<le> 11" and "\<not> ctx_send_rel ctx" and "ctx_app_idx ctx \<noteq> BT_MESH_KEY_UNUSED" and "crypto_ok C" and "msg \<noteq> []"
    and "label_of (node_env E A) (ctx_addr ctx) = None"
  shows "\<exists>key aid sdu. trans_key tx (mesh A) = Some (key, aid) \<and>
    bt_mesh_app_encrypt C key (ctx_app_idx ctx = BT_MESH_KEY_DEV) False msg None (mod_addr p A) (ctx_addr ctx) (ucast (seq (mesh A)))
      (BT_MESH_NET_IVI_TX (mesh A)) = Inr sdu \<and>
    seal C (cur_keys (sub (mesh A) ! sb)) (BT_MESH_NET_IVI_TX (mesh A)) (plain_pdu (ttl_of (node_env E A) tx) (unseg_hdr (ctx_app_idx ctx) aid # sdu) (mesh A)) = Inr pdu"
proof -
  obtain ms where send: "bt_mesh_trans_send C (node_env E A) now tx msg room cb (mesh A) = (None, ms)" "outbox ms = outbox (mesh A) @ [Adv pdu]"
    using assms(2-4) by (auto simp: bt_mesh_model_send_def model_send_def tx_def split: if_splits prod.splits)
  have tx: "tx_app_idx tx = ctx_app_idx ctx" "tx_addr tx = ctx_addr ctx" "tx_src tx = mod_addr p A" "tx_sub tx = sb" "\<not> tx_send_rel tx"
    using assms(6) by (simp_all add: tx_def tx_of_def)
  show ?thesis using trans_send_short [OF send assms(5) _ _ assms(8,9)] assms(7,10) tx by auto
qed

text \<open>
  C11.  From model to model: when a model of node \<open>A\<close> sends a message of up to 11 bytes and the PDU goes on the air, every node \<open>B\<close> that is tuned to \<open>A\<close> and shares the key
  delivers exactly this message once, with the source, the destination and the index of the key, and the access layer of \<open>B\<close> calls the handler for the operation
  code in every addressed element with the parameters that \<open>A\<close> sent.
\<close>

theorem message_reaches_handler:
  fixes A B :: node and ctx :: bt_mesh_msg_ctx and p q :: mod_ptr and sb :: nat and EA EB :: mesh_env and oc :: u32 and param pdu :: "byte list"
    and C :: crypto_lib and now :: "64 word"
  defines "tx \<equiv> ttl_of (node_env EA A) (tx_of ctx sb (mod_addr p A))" and "msg \<equiv> bt_mesh_model_msg_init oc @ param"
    and "B' \<equiv> B\<lparr>mesh := mesh_recv C (node_env EB B) now pdu BT_MESH_NET_IF_ADV (mesh B)\<rparr>"
  assumes "crypto_ok C" and "bt_mesh_subnet_get (ctx_net_idx ctx) (mesh A) = Some sb"
    and "bt_mesh_model_send C EA nowA p ctx msg room cb A = (None, A')" and "outbox (mesh A') = outbox (mesh A) @ [Adv pdu]"
    and "valid_opcode oc" and "length msg \<le> 11" and "\<not> ctx_send_rel ctx" and "ctx_app_idx ctx \<noteq> BT_MESH_KEY_UNUSED"
    and "tx_ttl tx < 0x80" and "sk_nid (cur_keys (sub (mesh A) ! sb)) < 0x80" and "BT_MESH_ADDR_IS_UNICAST (tx_src tx)"
    and "tx_addr tx \<noteq> BT_MESH_ADDR_UNASSIGNED" and "\<not> BT_MESH_ADDR_IS_RFU (tx_addr tx)" and "\<not> BT_MESH_ADDR_IS_VIRTUAL (tx_addr tx)"
    and "tuned_to A tx pdu B" and "shares_key A tx B idx"
    and "elem_addressed (tx_addr tx) (fst q) B" and "fst q < length (dev_elems B)" and "op_for B idx oc q op" and "min_len op \<le> length param"
  shows "\<exists>rx. delivered (mesh B') = delivered (mesh B) @ [(rx, msg)] \<and> rx_addr rx = mod_addr p A \<and> rx_dst rx = ctx_addr ctx \<and> rx_app_idx rx = idx \<and>
    (\<forall>H. keeps_dispatch H \<longrightarrow> (op_func op, q, rx, param) \<in> set (calls (bt_mesh_model_recv H rx msg B')))"
proof -
  let ?EA = "node_env EA A" and ?EB = "node_env EB B" and ?tx0 = "tx_of ctx sb (mod_addr p A)" and ?iv = "BT_MESH_NET_IVI_TX (mesh A)"
  have tx: "tx_app_idx tx = ctx_app_idx ctx" "tx_addr tx = ctx_addr ctx" "tx_src tx = mod_addr p A" "tx_sub tx = sb"
      "tx_app_idx ?tx0 = ctx_app_idx ctx" "tx_addr ?tx0 = ctx_addr ctx" "tx_src ?tx0 = mod_addr p A" "tx_sub ?tx0 = sb" "\<not> tx_send_rel ?tx0"
    using assms(10) by (simp_all add: tx_def ttl_of_def tx_of_def)
  have ne: "msg \<noteq> []" using assms(8) get_opcode_iff [of msg oc param] by (auto simp: msg_def get_opcode_def split: if_splits)
  have lab: "label_of E (ctx_addr ctx) = None" for E using assms(17) tx(2) by (simp add: label_of_def)
  obtain key aid sdu where key: "trans_key ?tx0 (mesh A) = Some (key, aid)"
      and enc: "bt_mesh_app_encrypt C key (ctx_app_idx ctx = BT_MESH_KEY_DEV) False msg None (mod_addr p A) (ctx_addr ctx) (ucast (seq (mesh A))) ?iv = Inr sdu"
      and seal: "seal C (cur_keys (sub (mesh A) ! sb)) ?iv (plain_pdu tx (unseg_hdr (ctx_app_idx ctx) aid # sdu) (mesh A)) = Inr pdu"
    using model_send_short [OF assms(5-7,9-11,4) ne] lab by (auto simp: tx_def)
  let ?hdr = "unseg_hdr (ctx_app_idx ctx) aid"
  define h where "h = plain_pdu tx (?hdr # sdu) (mesh A)"
  note f = plain_pdu_fields [of "mesh A" tx "?hdr # sdu", folded h_def, unfolded tx(4), OF assms(13,12)]
  have sdu: "length sdu = length msg + 4" using app_round_trip(1) [OF assms(4) ne _ enc] by (simp add: APP_MIC_LEN_def)
  have mic: "NET_MIC_LEN h = 4" "\<not> CTL h" using f(3) assms(11) tx(1) mic_len_ctl [of h] by (auto simp: NET_MIC_LEN_def split: if_splits)
  have pdu: "length pdu = length h + 4" using seal_ok [OF assms(4), of h "cur_keys (sub (mesh A) ! sb)" ?iv] seal f(9) mic(1) by (auto simp: h_def)
  obtain s ss where s: "sub (mesh B) = s # ss" "net_idx s \<noteq> BT_MESH_KEY_UNUSED" "keys0 s = cur_keys (sub (mesh A) ! sb)"
    using assms(18) tx(4) by (auto simp: tuned_to_def Let_def)
  define rx where "rx = (rx_of h BT_MESH_NET_IF_ADV (iv_index (mesh B) \<noteq> ?iv) (hd (sub (mesh B))) zero_rx)\<lparr>rx_local_match := True, rx_friend_match := False\<rparr>"
  have rx: "rx_addr rx = mod_addr p A" "rx_dst rx = ctx_addr ctx" "rx_seq rx = ucast (seq (mesh A))" "rx_old_iv rx \<longleftrightarrow> iv_index (mesh B) \<noteq> ?iv"
      "rx_sub rx = 0" "\<not> rx_new_key rx"
    using f tx by (simp_all add: rx_def rx_of_def zero_rx_def)
  have ivrx: "BT_MESH_NET_IVI_RX (mesh B) rx = ?iv" using assms(18) rx(4) by (auto simp: BT_MESH_NET_IVI_RX_def tuned_to_def Let_def)
  have "trans_key tx (mesh A) = trans_key ?tx0 (mesh A)" by (rule trans_key_cong) (simp_all add: tx)
  then have "trans_key tx (mesh A) = Some (key, aid)" using key by simp
  from shares_key_holds [OF assms(19) this rx(5,6)] have hk: "holds_key rx ?hdr key idx (mesh B)" using s(1) tx(1) by simp
  have open_sdu: "sdu_opens C ?EB rx ?hdr False sdu idx msg (mesh B)"
    using opens_encrypted [OF assms(4) ne _ hk, of ?EB False sdu] enc ivrx by (simp add: rx lab unseg_hdr_bits)
  have hash: "msg_hash ?iv h = msg_hash ?iv (plain_pdu tx [] (mesh A))" unfolding h_def by (rule plain_pdu_hash)
  have open_net: "can_open (cur_keys (sub (mesh A) ! sb)) ?iv h pdu BT_MESH_NET_IF_ADV (mesh B)"
    using assms(18) s f(1,2) tx(4) hash by (simp add: can_open_def tuned_to_def Let_def msg_cache_match_def)
  have addr: "well_addressed ?EB BT_MESH_NET_IF_ADV h"
    using assms(14-16,18) f(6,7) by (simp add: well_addressed_def tuned_to_def Let_def node_env_def)
  have mine: "fixed_group_match ?EB (DST h) \<or> elem_find ?EB (DST h)" using addressed_matches [OF assms(20,21)] f(7) by (simp add: node_env_def)
  have new: "\<not> fst (is_replay rx (mesh B))"
    using assms(18) is_replay_fields [of rx "msg_from (mod_addr p A) (ucast (seq (mesh A))) (iv_index (mesh B) \<noteq> ?iv)" "mesh B"] rx tx(3)
    by (simp add: tuned_to_def Let_def msg_from_def)
  have prov: "provisioned (mesh B)" using assms(18) by (simp add: tuned_to_def Let_def)
  have d: "delivered (mesh B') = delivered (mesh B) @ [(rx\<lparr>rx_app_idx := idx\<rparr>, msg)]"
    using recv_sealed [OF assms(4) _ _ _ seal [folded h_def] open_net addr _ _ mic(2) prov mine rx_def new open_sdu, of now] ne
    by (simp add: B'_def f(8,9) mic(1) pdu sdu assms(9) unseg_hdr_bits Suc_le_eq)
  have "(op_func op, q, rx\<lparr>rx_app_idx := idx\<rparr>, param) \<in> set (calls (bt_mesh_model_recv H (rx\<lparr>rx_app_idx := idx\<rparr>) msg B'))" if "keeps_dispatch H" for H
  proof -
    have sd: "same_dispatch B B'" by (simp add: same_dispatch_def B'_def)
    have "get_opcode msg = Inr (oc, param)" using get_opcode_iff assms(8) by (simp add: msg_def)
    moreover have "elem_addressed (ctx_addr ctx) (fst q) B'" using assms(20) elem_addressed_cong [OF sd] tx(2) by simp
    moreover have "op_for B' idx oc q op" "fst q < length (dev_elems B')" using assms(21,22) by (simp_all add: op_for_def B'_def dev_elems_def)
    ultimately show ?thesis
      using recv_calls [OF that, of msg oc param "rx\<lparr>rx_app_idx := idx\<rparr>" B'] assms(23) rx(2) by (auto simp: elem_call_set)
  qed
  then show ?thesis using d rx(1,2) by (intro exI [of _ "rx\<lparr>rx_app_idx := idx\<rparr>"]) simp
qed

definition peer_node :: node where
  "peer_node = (upd_elem 0 (\<lambda>e. e\<lparr>el_addr := 2\<rparr>) boot_node)\<lparr>mesh := (mesh boot_node)\<lparr>dup_cache := [1, 2, 3, 4]\<rparr>\<rparr>"

definition onoff_ctx :: bt_mesh_msg_ctx where
  "onoff_ctx = \<lparr>ctx_net_idx = 0, ctx_app_idx = 0, ctx_addr = 2, ctx_send_rel = False, ctx_send_ttl = 4\<rparr>"

definition onoff_tx :: bt_mesh_net_tx where
  "onoff_tx = ttl_of (node_env quiet_env boot_node) (tx_of onoff_ctx 0 (mod_addr (0, False, 1) boot_node))"

lemma onoff_tx: "onoff_tx = \<lparr>tx_sub = 0, tx_app_idx = 0, tx_addr = 2, tx_ttl = 4, tx_send_rel = False, tx_src = 1, tx_aszmic = False, tx_aid = 0\<rparr>"
  by (simp add: onoff_tx_def ttl_of_def tx_of_def onoff_ctx_def mod_addr_def get_mod_def elem_mods_def boot_node_def dev_elems_def boot_comp_def)

definition onoff_pdu :: "byte list" where
  "onoff_pdu = [0x80, 4, 0, 0, 0, 0, 1, 0, 2, 0x45, 0x82, 0x02, 1, 9, 0, 0, 0, 0, 0, 0, 0, 0]"

lemma onoff_sent:
  "bt_mesh_model_send null_crypto quiet_env 0 (0, False, 1) onoff_ctx [0x82, 0x02, 1, 9] 4 False boot_node =
   (None, boot_node\<lparr>mesh := (mesh boot_node)\<lparr>seq := 1, outbox := [Adv onoff_pdu]\<rparr>\<rparr>)"
proof -
  let ?E = "node_env quiet_env boot_node" and ?tx = "onoff_tx\<lparr>tx_aid := 5, tx_aszmic := False\<rparr>" and ?pay = "[0x45, 0x82, 0x02, 1, 9, 0, 0, 0, 0] :: byte list"
  have "mod_addr (0, False, 1) boot_node = 1" by code_simp
  then have t0: "tx_of onoff_ctx 0 1 = onoff_tx" by (simp add: onoff_tx tx_of_def onoff_ctx_def)
  have b: "provisioned (mesh boot_node)" "bt_mesh_subnet_get 0 (mesh boot_node) = Some 0" "model_has_key (get_mod (0, False, 1) boot_node) 0"
    "trans_key onoff_tx (mesh boot_node) = Some (replicate 16 7, 5)" "mod_addr (0, False, 1) boot_node = 1"
    "UNSEG_HDR True 5 = 0x45" "\<not> BT_MESH_ADDR_IS_VIRTUAL 2" "fixed_group_match ?E 2 = False" "elem_find ?E 2 = False"
    by code_simp+
  have enc: "bt_mesh_app_encrypt null_crypto key False False [0x82, 0x02, 1, 9] None 1 2 sq iv = Inr [0x82, 0x02, 1, 9, 0, 0, 0, 0]" for key sq iv
    by (simp add: bt_mesh_app_encrypt_def null_ccm APP_MIC_LEN_def numeral_eq_Suc)
  have h: "plain_pdu ?tx ?pay (mesh boot_node) = [0x80, 4, 0, 0, 0, 0, 1, 0, 2] @ ?pay" by code_simp
  have mic: "NET_MIC_LEN ([0x80, 4, 0, 0, 0, 0, 1, 0, 2] @ ?pay) = 4" by code_simp
  have z: "replicate 4 (0 :: byte) = [0, 0, 0, 0]" by (simp add: numeral_eq_Suc)
  have e: "default_ttl ?E = 7" "proxy_relay ?E = (\<lambda>b a. False)" "outbox (mesh boot_node) = []" "seq (mesh boot_node) = 0"
    by (simp_all add: node_env_def quiet_env_def boot_node_def boot_mesh_fields bt_mesh_default_ttl_get_def boot_cfg_def)
  have net: "bt_mesh_net_send null_crypto ?E ?tx ?pay 11 (mesh boot_node) =
      (Inr (onoff_pdu, Queued), (mesh boot_node)\<lparr>seq := 1, outbox := [Adv onoff_pdu]\<rparr>)"
    using encode_seal_access [of 11 ?tx null_crypto ?pay "mesh boot_node"] b(8,9)
    by (simp add: bt_mesh_net_send_def onoff_tx h [unfolded onoff_tx, simplified] null_seal mic [simplified] onoff_pdu_def emit_def z e)
  have "adv_bufs ?E = 8" by (simp add: node_env_def quiet_env_def)
  then have "bt_mesh_trans_send null_crypto ?E 0 onoff_tx [0x82, 0x02, 1, 9] 4 False (mesh boot_node) =
      (None, (mesh boot_node)\<lparr>seq := 1, outbox := [Adv onoff_pdu]\<rparr>)"
    using net b(4,6,7) enc by (simp add: bt_mesh_trans_send_def send_unseg_def adv_tailroom_def onoff_tx Let_def)
  then show ?thesis
    using b(1-3,5) t0 unfolding bt_mesh_model_send_def model_send_def by (simp add: onoff_ctx_def onoff_tx)
qed

theorem message_reaches_handler_witness:
  "\<exists>rx. delivered (mesh_recv null_crypto (node_env quiet_env peer_node) 0 onoff_pdu BT_MESH_NET_IF_ADV (mesh peer_node)) = [(rx, [0x82, 0x02, 1, 9])] \<and>
     rx_addr rx = 1 \<and> rx_dst rx = 2 \<and>
     (3, (0, False, 1), rx, [1, 9]) \<in> set (calls (bt_mesh_model_recv idle_handlers rx [0x82, 0x02, 1, 9]
       (peer_node\<lparr>mesh := mesh_recv null_crypto (node_env quiet_env peer_node) 0 onoff_pdu BT_MESH_NET_IF_ADV (mesh peer_node)\<rparr>)))"
proof -
  let ?msg = "bt_mesh_model_msg_init 0x8202 @ [1, 9]" and ?op = "\<lparr>opcode = 0x8202, min_len = 2, op_func = 3\<rparr>"
  have m: "?msg = [0x82, 0x02, 1, 9]" "valid_opcode 0x8202" "mod_addr (0, False, 1) boot_node = 1" "delivered (mesh peer_node) = []"
      "bt_mesh_subnet_get 0 (mesh boot_node) = Some 0" "outbox (mesh boot_node) = []"
      "sk_nid (cur_keys (sub (mesh boot_node) ! 0)) < 0x80" "BT_MESH_ADDR_IS_UNICAST 1" "\<not> BT_MESH_ADDR_IS_RFU 2" "\<not> BT_MESH_ADDR_IS_VIRTUAL 2"
      "elem_addressed 2 0 peer_node" "length (dev_elems peer_node) = 1" "shares_key boot_node onoff_tx peer_node 0"
    by code_simp+
  have o: "op_for peer_node 0 0x8202 (0, False, 1) ?op" unfolding op_for_find by code_simp
  have "sub (mesh peer_node) = [boot_subnet]" "net_idx boot_subnet \<noteq> BT_MESH_KEY_UNUSED" "keys0 boot_subnet = cur_keys (sub (mesh boot_node) ! 0)"
      "provisioned (mesh peer_node)" "iv_index (mesh peer_node) = 5" "BT_MESH_NET_IVI_TX (mesh boot_node) = 5" "\<not> fst (check_dup onoff_pdu (mesh peer_node))"
      "\<not> fst (msg_cache_match 5 (plain_pdu onoff_tx [] (mesh boot_node)) (mesh peer_node))" "bt_mesh_elem_find 1 peer_node = None"
      "\<not> fst (is_replay (msg_from 1 (ucast (seq (mesh boot_node))) False) (mesh peer_node))"
    by code_simp+
  then have t: "tuned_to boot_node onoff_tx onoff_pdu peer_node" by (simp add: tuned_to_def onoff_tx)
  show ?thesis
    using message_reaches_handler [where C = null_crypto and ctx = onoff_ctx and A = boot_node and sb = 0 and EA = quiet_env and nowA = 0 and p = "(0, False, 1)" and
        oc = "0x8202" and param = "[1, 9]" and room = 4 and cb = False and A' = "boot_node\<lparr>mesh := (mesh boot_node)\<lparr>seq := 1, outbox := [Adv onoff_pdu]\<rparr>\<rparr>" and
        pdu = onoff_pdu and B = peer_node and idx = 0 and q = "(0, False, 1)" and op = ?op and EB = quiet_env and now = 0,
        folded onoff_tx_def, unfolded m(1)] m o t onoff_sent idle_handlers_keep
    by (simp add: onoff_tx onoff_ctx_def) blast
qed

end
