(* ===== verification/Mesh_Cfg.thy ===== *)
theory Mesh_Cfg
  imports Mesh_Access
begin

text \<open>
  The configuration server (\<^verbatim>\<open>bt_mesh/src/cfg_srv.c\<close>): the handlers with which a provisioner manages the keys, the bindings of keys to models, publication, subscription,
  the key refresh procedure, heartbeats and the features of a node; and the provisioning and the reset of the node (\<^verbatim>\<open>src/main.c\<close>).  The friend and the low-power features are off.

  Every handler gets the crypto library, the environment, the time, the storage of the Genie service, its own model, the context of the message and its parameters.  The dispatch
  has checked that the parameters are as long as the table of operations demands.  The context \<^verbatim>\<open>user_data\<close> of the model is \<^verbatim>\<open>cfg_srv\<close>.  Notifications of the Genie service (\<^verbatim>\<open>genie_event\<close>), the
  timer of the beacons and the advertising of the GATT bearer are not part of the state.
\<close>

section \<open>Status messages\<close>

abbreviation (input) STATUS_SUCCESS :: u8 where "STATUS_SUCCESS \<equiv> 0x00"
abbreviation (input) STATUS_INVALID_ADDRESS :: u8 where "STATUS_INVALID_ADDRESS \<equiv> 0x01"
abbreviation (input) STATUS_INVALID_MODEL :: u8 where "STATUS_INVALID_MODEL \<equiv> 0x02"
abbreviation (input) STATUS_INVALID_APPKEY :: u8 where "STATUS_INVALID_APPKEY \<equiv> 0x03"
abbreviation (input) STATUS_INVALID_NETKEY :: u8 where "STATUS_INVALID_NETKEY \<equiv> 0x04"
abbreviation (input) STATUS_INSUFF_RESOURCES :: u8 where "STATUS_INSUFF_RESOURCES \<equiv> 0x05"
abbreviation (input) STATUS_IDX_ALREADY_STORED :: u8 where "STATUS_IDX_ALREADY_STORED \<equiv> 0x06"
abbreviation (input) STATUS_NVAL_PUB_PARAM :: u8 where "STATUS_NVAL_PUB_PARAM \<equiv> 0x07"
abbreviation (input) STATUS_STORAGE_FAIL :: u8 where "STATUS_STORAGE_FAIL \<equiv> 0x09"
abbreviation (input) STATUS_FEAT_NOT_SUPP :: u8 where "STATUS_FEAT_NOT_SUPP \<equiv> 0x0a"
abbreviation (input) STATUS_CANNOT_UPDATE :: u8 where "STATUS_CANNOT_UPDATE \<equiv> 0x0b"
abbreviation (input) STATUS_CANNOT_REMOVE :: u8 where "STATUS_CANNOT_REMOVE \<equiv> 0x0c"
abbreviation (input) STATUS_CANNOT_BIND :: u8 where "STATUS_CANNOT_BIND \<equiv> 0x0d"
abbreviation (input) STATUS_CANNOT_SET :: u8 where "STATUS_CANNOT_SET \<equiv> 0x0f"
abbreviation (input) STATUS_UNSPECIFIED :: u8 where "STATUS_UNSPECIFIED \<equiv> 0x10"
abbreviation (input) STATUS_INVALID_BINDING :: u8 where "STATUS_INVALID_BINDING \<equiv> 0x11"

text \<open>What the handlers read from outside: the stored subscriptions of the node and of the user (\<open>None\<close> when the storage has none), and whether a reset by the hardware is under way.\<close>

record genie_io =
  stored_sub :: "u16 list option"
  stored_user_sub :: "u16 list option"
  hw_reset :: bool

type_synonym cfg_handler = "crypto_lib \<Rightarrow> mesh_env \<Rightarrow> 64 word \<Rightarrow> genie_io \<Rightarrow> mod_ptr \<Rightarrow> bt_mesh_net_rx \<Rightarrow> byte list \<Rightarrow> node \<Rightarrow> node"

text \<open>The context of a received message, with which a handler answers, and the answer from a buffer of \<open>n\<close> bytes.\<close>

definition ctx_of :: "bt_mesh_net_rx \<Rightarrow> bt_mesh_msg_ctx" where
  "ctx_of rx = \<lparr>ctx_net_idx = rx_net_idx rx, ctx_app_idx = rx_app_idx rx, ctx_addr = rx_addr rx, ctx_send_rel = False, ctx_send_ttl = rx_send_ttl rx\<rparr>"

definition reply :: "crypto_lib \<Rightarrow> mesh_env \<Rightarrow> 64 word \<Rightarrow> mod_ptr \<Rightarrow> bt_mesh_net_rx \<Rightarrow> nat \<Rightarrow> byte list \<Rightarrow> node \<Rightarrow> node" where
  "reply C E now p rx n msg st = snd (bt_mesh_model_send C E now p (ctx_of rx) msg (n - length msg) False st)"

section \<open>Key indices\<close>

definition key_idx_pack :: "u16 \<Rightarrow> u16 \<Rightarrow> byte list" where
  "key_idx_pack idx1 idx2 = sys_put_le16 (idx1 OR push_bit 12 (idx2 AND 0x00f)) @ [ucast (drop_bit 4 idx2)]"

definition key_idx_unpack :: "byte list \<Rightarrow> u16 \<times> u16" where
  "key_idx_unpack buf = (sys_get_le16 buf AND 0xfff, drop_bit 4 (sys_get_le16 (drop 1 buf)))"

text \<open>The loop that lists indices: pairs are packed into three bytes; \<open>prev\<close> is the index that waits for its partner.\<close>

fun idx_list :: "u16 option \<Rightarrow> u16 list \<Rightarrow> byte list" where
  "idx_list None [] = []"
| "idx_list (Some prev) [] = sys_put_le16 prev"
| "idx_list None (i # is) = idx_list (Some i) is"
| "idx_list (Some prev) (i # is) = key_idx_pack prev i @ idx_list None is"

abbreviation (input) IDX_LEN :: "nat \<Rightarrow> nat" where "IDX_LEN num \<equiv> num div 2 * 3 + num mod 2 * 2"

section \<open>Models\<close>

text \<open>The model that a message names, if there is one, and whether it names a vendor model.\<close>

definition get_model :: "nat \<Rightarrow> byte list \<Rightarrow> node \<Rightarrow> mod_ptr option \<times> bool" where
  "get_model i buf st =
     (let e = dev_elems st ! i in
      if length buf < 4 then (map_option (\<lambda>j. (i, False, j)) (bt_mesh_model_find e (sys_get_le16 buf)), False)
      else (map_option (\<lambda>j. (i, True, j)) (bt_mesh_model_find_vnd e (sys_get_le16 buf) (sys_get_le16 (drop 2 buf))), True))"

text \<open>The first steps of the handlers for models: the status when there is no such element or model.\<close>

definition find_model :: "u16 \<Rightarrow> byte list \<Rightarrow> node \<Rightarrow> (u8 + mod_ptr) \<times> bool" where
  "find_model elem_addr buf st =
     (case bt_mesh_elem_find elem_addr st of
        None \<Rightarrow> (Inl STATUS_INVALID_ADDRESS, length buf = 4)
      | Some i \<Rightarrow>
          (case get_model i buf st of
             (None, vnd) \<Rightarrow> (Inl STATUS_INVALID_MODEL, vnd)
           | (Some q, vnd) \<Rightarrow> (Inr q, vnd)))"

definition mod_id_bytes :: "bool \<Rightarrow> byte list \<Rightarrow> byte list" where
  "mod_id_bytes vnd b = (if vnd then take 4 b else take 2 b)"

definition app_key_is_valid :: "u16 \<Rightarrow> node \<Rightarrow> bool" where
  "app_key_is_valid app_idx st \<longleftrightarrow> (\<exists>key\<in>set (app_keys (mesh st)). ak_net_idx key \<noteq> BT_MESH_KEY_UNUSED \<and> ak_app_idx key = app_idx)"

definition mod_pub_set_param :: "mod_ptr \<Rightarrow> u16 \<Rightarrow> u16 \<Rightarrow> bool \<Rightarrow> u8 \<Rightarrow> u8 \<Rightarrow> u8 \<Rightarrow> node \<Rightarrow> u8 \<times> node" where
  "mod_pub_set_param q addr app_idx cred_flag ttl period retransmit st =
     (case mod_pub (get_mod q st) of
        None \<Rightarrow> (STATUS_NVAL_PUB_PARAM, st)
      | Some k \<Rightarrow>
          if cred_flag then (STATUS_FEAT_NOT_SUPP, st)
          else if \<not> pub_update (pubs st ! k) \<and> period \<noteq> 0 then (STATUS_NVAL_PUB_PARAM, st)
          else if addr = BT_MESH_ADDR_UNASSIGNED then
            (STATUS_SUCCESS,
             upd_pub k (\<lambda>b. b\<lparr>pub_addr := BT_MESH_ADDR_UNASSIGNED, pub_key := 0, pub_cred := False, pub_ttl := 0, pub_period := 0, pub_retransmit := 0,
                               pub_count := 0, pub_timer := (if pub_update b then None else pub_timer b)\<rparr>) st)
          else if bt_mesh_app_key_find app_idx (mesh st) = None then (STATUS_INVALID_APPKEY, st)
          else
            let st = upd_pub k (\<lambda>b. b\<lparr>pub_addr := addr, pub_key := app_idx, pub_cred := cred_flag, pub_ttl := ttl, pub_period := period,
                                       pub_retransmit := retransmit\<rparr>) st;
                period_ms = bt_mesh_model_pub_period_get q st
            in (STATUS_SUCCESS,
                if pub_update (pubs st ! k) then upd_pub k (\<lambda>b. b\<lparr>pub_timer := (if period_ms \<noteq> 0 then Some period_ms else None)\<rparr>) st else st))"

definition mod_bind :: "mod_ptr \<Rightarrow> u16 \<Rightarrow> node \<Rightarrow> u8 \<times> node" where
  "mod_bind q key_idx st =
     (if \<not> app_key_is_valid key_idx st then (STATUS_INVALID_APPKEY, st)
      else if key_idx \<in> set (mod_keys (get_mod q st)) then (STATUS_SUCCESS, st)
      else case find_index (\<lambda>k. k = BT_MESH_KEY_UNUSED) (mod_keys (get_mod q st)) of
        Some i \<Rightarrow> (STATUS_SUCCESS, upd_mod q (\<lambda>m. m\<lparr>mod_keys := (mod_keys m)[i := key_idx]\<rparr>) st)
      | None \<Rightarrow> (STATUS_INSUFF_RESOURCES, st))"

definition mod_unbind :: "mod_ptr \<Rightarrow> u16 \<Rightarrow> node \<Rightarrow> u8 \<times> node" where
  "mod_unbind q key_idx st =
     (if \<not> app_key_is_valid key_idx st then (STATUS_INVALID_APPKEY, st)
      else case find_index (\<lambda>k. k = key_idx) (mod_keys (get_mod q st)) of
        Some i \<Rightarrow>
          let st = upd_mod q (\<lambda>m. m\<lparr>mod_keys := (mod_keys m)[i := BT_MESH_KEY_UNUSED]\<rparr>) st
          in (STATUS_SUCCESS,
              case mod_pub (get_mod q st) of
                Some k \<Rightarrow> if pub_key (pubs st ! k) = key_idx then snd (mod_pub_set_param q BT_MESH_ADDR_UNASSIGNED 0 False 0 0 0 st) else st
              | None \<Rightarrow> st)
      | None \<Rightarrow> (STATUS_CANNOT_BIND, st))"

section \<open>Application keys\<close>

definition upd_mesh :: "(mesh_state \<Rightarrow> mesh_state) \<Rightarrow> node \<Rightarrow> node" where
  "upd_mesh f st = st\<lparr>mesh := f (mesh st)\<rparr>"

definition upd_key :: "nat \<Rightarrow> (bt_mesh_app_key \<Rightarrow> bt_mesh_app_key) \<Rightarrow> node \<Rightarrow> node" where
  "upd_key i f st = upd_mesh (\<lambda>m. m\<lparr>app_keys := (app_keys m)[i := f (app_keys m ! i)]\<rparr>) st"

definition app_key_idx :: "u16 \<Rightarrow> node \<Rightarrow> nat option" where
  "app_key_idx idx st = find_index (\<lambda>k. ak_net_idx k \<noteq> BT_MESH_KEY_UNUSED \<and> ak_app_idx k = idx) (app_keys (mesh st))"

text \<open>A slot of the array is the key with its own index.\<close>

definition app_key_alloc :: "u16 \<Rightarrow> node \<Rightarrow> nat option" where
  "app_key_alloc app_idx st = (if unat app_idx \<ge> length (app_keys (mesh st)) then None else Some (unat app_idx))"

text \<open>The two branches of \<open>app_key_set\<close> in front of the computation of the key identifier: the status when the function returns there, or the slot.\<close>

definition app_key_slot :: "u16 \<Rightarrow> u16 \<Rightarrow> byte list \<Rightarrow> bool \<Rightarrow> nat \<Rightarrow> node \<Rightarrow> u8 + nat" where
  "app_key_slot nidx app_idx val update s st =
     (case app_key_idx app_idx st of
        None \<Rightarrow>
          if update then Inl STATUS_INVALID_APPKEY
          else (case app_key_alloc app_idx st of None \<Rightarrow> Inl STATUS_INSUFF_RESOURCES | Some i \<Rightarrow> Inr i)
      | Some i \<Rightarrow>
          let key = app_keys (mesh st) ! i in
          if update then
            if ak_net_idx key \<noteq> nidx then Inl STATUS_INVALID_BINDING
            else if kr_phase (sub (mesh st) ! s) \<noteq> BT_MESH_KR_PHASE_1 then Inl STATUS_CANNOT_UPDATE
            else if ak_updated key then if snd (ak_key1 key) \<noteq> val then Inl STATUS_CANNOT_UPDATE else Inl STATUS_SUCCESS
            else Inr i
          else if ak_net_idx key = nidx \<and> snd (ak_key0 key) = val then Inl STATUS_SUCCESS
          else if ak_net_idx key = nidx then Inl STATUS_IDX_ALREADY_STORED
          else Inl STATUS_INVALID_NETKEY)"

definition app_key_set :: "crypto_lib \<Rightarrow> u16 \<Rightarrow> u16 \<Rightarrow> byte list \<Rightarrow> bool \<Rightarrow> node \<Rightarrow> u8 \<times> node" where
  "app_key_set C nidx app_idx val update st =
     (case bt_mesh_subnet_get nidx (mesh st) of
        None \<Rightarrow> (STATUS_INVALID_NETKEY, st)
      | Some s \<Rightarrow>
          (case app_key_slot nidx app_idx val update s st of
             Inl status \<Rightarrow> (status, st)
           | Inr i \<Rightarrow>
               (case bt_mesh_k4 C val of
                  Inl e \<Rightarrow> (STATUS_STORAGE_FAIL, if update then upd_key i (\<lambda>k. k\<lparr>ak_updated := False\<rparr>) st else st)
                | Inr aid \<Rightarrow>
                    (STATUS_SUCCESS,
                     upd_key i (\<lambda>k. (if update then k\<lparr>ak_updated := True, ak_key1 := (aid, val)\<rparr> else k\<lparr>ak_key0 := (aid, val)\<rparr>)
                                       \<lparr>ak_net_idx := nidx, ak_app_idx := app_idx\<rparr>) st))))"

text \<open>The subscriptions of the user are written from the end of the list.\<close>

fun load_user_groups :: "nat \<Rightarrow> u16 list \<Rightarrow> u16 list \<Rightarrow> u16 list" where
  "load_user_groups n [] l = l"
| "load_user_groups n (u # us) l = (if u > 0xCFFF then load_user_groups (n - 1) us (l[n - 1 := u]) else load_user_groups n us l)"

definition genie_mesh_load_group_addr :: "genie_io \<Rightarrow> node \<Rightarrow> node" where
  "genie_mesh_load_group_addr G st =
     (let n = length (g_sub_list st);
          l = (case stored_sub G of Some l \<Rightarrow> l | None \<Rightarrow> replicate n 0)
      in st\<lparr>g_sub_list := (case stored_user_sub G of Some us \<Rightarrow> load_user_groups n us l | None \<Rightarrow> l)\<rparr>)"

text \<open>Models are looked up by their identifier, so that a second model with the same one is not reached.\<close>

definition setup_mod :: "u16 \<Rightarrow> mod_ptr option \<Rightarrow> node \<Rightarrow> node" where
  "setup_mod key_idx q st =
     (case q of
        None \<Rightarrow> st
      | Some q \<Rightarrow> let st = snd (mod_bind q key_idx st) in upd_mod q (\<lambda>m. m\<lparr>mod_groups := g_sub_list st\<rparr>) st)"

definition sig_ptr :: "nat \<Rightarrow> nat \<Rightarrow> node \<Rightarrow> mod_ptr option" where
  "sig_ptr i j st = (let e = dev_elems st ! i in map_option (\<lambda>k. (i, False, k)) (bt_mesh_model_find e (sig_id (mod_id (el_models e ! j)))))"

definition vnd_ptr :: "nat \<Rightarrow> nat \<Rightarrow> node \<Rightarrow> mod_ptr option" where
  "vnd_ptr i j st =
     (let e = dev_elems st ! i in map_option (\<lambda>k. (i, True, k)) (case_prod (bt_mesh_model_find_vnd e) (vnd_id (mod_id (el_vnd_models e ! j)))))"

definition setup_elem :: "u16 \<Rightarrow> nat \<Rightarrow> node \<Rightarrow> node" where
  "setup_elem key_idx i st =
     (let st = fold (\<lambda>j st. setup_mod key_idx (sig_ptr i j st) st) [0..<length (el_models (dev_elems st ! i))] st
      in fold (\<lambda>j st. setup_mod key_idx (vnd_ptr i j st) st) [0..<length (el_vnd_models (dev_elems st ! i))] st)"

fun mesh_setup_loop :: "u16 \<Rightarrow> nat list \<Rightarrow> node \<Rightarrow> node" where
  "mesh_setup_loop key_idx [] st = st"
| "mesh_setup_loop key_idx (n # ns) st =
     (case bt_mesh_elem_find (dev_primary_addr st + of_nat n) st of
        None \<Rightarrow> st
      | Some i \<Rightarrow> mesh_setup_loop key_idx ns (setup_elem key_idx i st))"

definition genie_mesh_setup :: "u16 \<Rightarrow> node \<Rightarrow> node" where
  "genie_mesh_setup key_idx st = mesh_setup_loop key_idx [0..<length (dev_elems st)] st"

definition app_key_status :: "u8 \<Rightarrow> u16 \<Rightarrow> u16 \<Rightarrow> byte list" where
  "app_key_status status nidx app_idx = bt_mesh_model_msg_init 0x8003 @ [status] @ key_idx_pack nidx app_idx"

definition app_key_add :: cfg_handler where
  "app_key_add C E now G p rx buf st =
     (let (nidx, app_idx) = key_idx_unpack buf;
          (status, st) = app_key_set C nidx app_idx (take 16 (drop 3 buf)) False st;
          st = reply C E now p rx (2 + 4 + 4) (app_key_status status nidx app_idx) st
      in genie_mesh_setup app_idx (genie_mesh_load_group_addr G st))"

definition genie_appkey_register :: "crypto_lib \<Rightarrow> genie_io \<Rightarrow> u16 \<Rightarrow> u16 \<Rightarrow> byte list \<Rightarrow> bool \<Rightarrow> node \<Rightarrow> node" where
  "genie_appkey_register C G nidx app_idx val update st =
     genie_mesh_setup app_idx (genie_mesh_load_group_addr G (snd (app_key_set C nidx app_idx val update st)))"

definition app_key_update :: cfg_handler where
  "app_key_update C E now G p rx buf st =
     (let (nidx, app_idx) = key_idx_unpack buf;
          (status, st) = app_key_set C nidx app_idx (take 16 (drop 3 buf)) True st
      in reply C E now p rx (2 + 4 + 4) (app_key_status status nidx app_idx) st)"

text \<open>The flag \<^verbatim>\<open>updated\<close> and the index of the key stay in the slot.\<close>

definition app_key_delete :: "nat \<Rightarrow> node \<Rightarrow> node" where
  "app_key_delete i st =
     (let idx = ak_app_idx (app_keys (mesh st) ! i);
          st = bt_mesh_model_foreach (\<lambda>q st. snd (mod_unbind q idx st)) st
      in upd_key i (\<lambda>k. k\<lparr>ak_net_idx := BT_MESH_KEY_UNUSED, ak_key0 := (0, replicate 16 0), ak_key1 := (0, replicate 16 0)\<rparr>) st)"

definition app_key_del :: cfg_handler where
  "app_key_del C E now G p rx buf st =
     (let (nidx, app_idx) = key_idx_unpack buf;
          (status, st) =
            (if bt_mesh_subnet_get nidx (mesh st) = None then (STATUS_INVALID_NETKEY, st)
             else case app_key_idx app_idx st of
               None \<Rightarrow> (STATUS_SUCCESS, st)
             | Some i \<Rightarrow>
                 if ak_net_idx (app_keys (mesh st) ! i) \<noteq> nidx then (STATUS_INVALID_BINDING, st)
                 else (STATUS_SUCCESS, app_key_delete i st))
      in reply C E now p rx (2 + 4 + 4) (app_key_status status nidx app_idx) st)"

definition app_key_get :: cfg_handler where
  "app_key_get C E now G p rx buf st =
     (let get_idx = sys_get_le16 buf in
      if get_idx > 0xfff then st
      else
        let status = (if bt_mesh_subnet_get get_idx (mesh st) = None then STATUS_INVALID_NETKEY else STATUS_SUCCESS);
            msg = bt_mesh_model_msg_init 0x8002 @ [status] @ sys_put_le16 get_idx;
            keys = map ak_app_idx (filter (\<lambda>k. ak_net_idx k = get_idx) (app_keys (mesh st)))
        in reply C E now p rx (2 + 3 + 4 + IDX_LEN (length (app_keys (mesh st)))) (msg @ (if status \<noteq> STATUS_SUCCESS then [] else idx_list None keys)) st)"

section \<open>Composition\<close>

definition comp_add_elem :: "nat \<Rightarrow> bt_mesh_elem \<Rightarrow> byte list option" where
  "comp_add_elem tailroom e =
     (if tailroom < 4 + length (el_models e) * 2 + length (el_vnd_models e) * 2 then None
      else Some (sys_put_le16 (el_loc e) @ [of_nat (length (el_models e)), of_nat (length (el_vnd_models e))] @
        concat (map (\<lambda>m. sys_put_le16 (sig_id (mod_id m))) (el_models e)) @
        concat (map (\<lambda>m. sys_put_le16 (fst (vnd_id (mod_id m))) @ sys_put_le16 (snd (vnd_id (mod_id m)))) (el_vnd_models e))))"

fun comp_add_elems :: "nat \<Rightarrow> byte list \<Rightarrow> bt_mesh_elem list \<Rightarrow> byte list option" where
  "comp_add_elems n buf [] = Some buf"
| "comp_add_elems n buf (e # es) =
     (case comp_add_elem (n - length buf) e of None \<Rightarrow> None | Some b \<Rightarrow> comp_add_elems n (buf @ b) es)"

text \<open>\<open>buf\<close> is what the buffer of \<open>n\<close> bytes already holds; the features are relay and proxy; the replay list has \<^verbatim>\<open>CONFIG_BT_MESH_CRPL\<close> entries.\<close>

definition comp_get_page_0 :: "nat \<Rightarrow> byte list \<Rightarrow> node \<Rightarrow> byte list option" where
  "comp_get_page_0 n buf st =
     (case dev_comp st of
        None \<Rightarrow> None
      | Some c \<Rightarrow> comp_add_elems n (buf @ sys_put_le16 (cid c) @ sys_put_le16 (pid c) @ sys_put_le16 (vid c) @
                    sys_put_le16 (of_nat (length (rpl (mesh st)))) @ sys_put_le16 (0x01 OR 0x02)) (elems c))"

definition dev_comp_data_get :: cfg_handler where
  "dev_comp_data_get C E now G p rx buf st =
     (case comp_get_page_0 BT_MESH_TX_SDU_MAX (bt_mesh_model_msg_init 0x02 @ [0]) st of
        None \<Rightarrow> st
      | Some sdu \<Rightarrow> reply C E now p rx BT_MESH_TX_SDU_MAX sdu st)"

section \<open>Heartbeat messages\<close>

abbreviation (input) BT_MESH_FEAT_RELAY :: u16 where "BT_MESH_FEAT_RELAY \<equiv> 0x01"
abbreviation (input) BT_MESH_FEAT_PROXY :: u16 where "BT_MESH_FEAT_PROXY \<equiv> 0x02"
abbreviation (input) BT_MESH_FEAT_FRIEND :: u16 where "BT_MESH_FEAT_FRIEND \<equiv> 0x04"

definition upd_cfg :: "(bt_mesh_cfg_srv \<Rightarrow> bt_mesh_cfg_srv) \<Rightarrow> node \<Rightarrow> node" where
  "upd_cfg f st = st\<lparr>cfg_srv := f (cfg_srv st)\<rparr>"

text \<open>The callers have checked that the subnet \<open>sb\<close> exists.\<close>

definition hb_send :: "crypto_lib \<Rightarrow> mesh_env \<Rightarrow> mod_ptr \<Rightarrow> nat \<Rightarrow> node \<Rightarrow> node" where
  "hb_send C E p sb st =
     (let h = cfg_hb_pub (cfg_srv st);
          feat = (if bt_mesh_relay_get st = BT_MESH_RELAY_ENABLED then BT_MESH_FEAT_RELAY else 0) OR
                 (if bt_mesh_gatt_proxy_get st = BT_MESH_GATT_PROXY_ENABLED then BT_MESH_FEAT_PROXY else 0) OR
                 (if bt_mesh_friend_get st = BT_MESH_FRIEND_ENABLED then BT_MESH_FEAT_FRIEND else 0);
          tx = tx_of \<lparr>ctx_net_idx = hbp_net_idx h, ctx_app_idx = BT_MESH_KEY_UNUSED, ctx_addr = hbp_dst h, ctx_send_rel = False, ctx_send_ttl = hbp_ttl h\<rparr>
                 sb (mod_addr p st)
      in st\<lparr>mesh := snd (bt_mesh_ctl_send C (node_env E st) tx TRANS_CTL_OP_HEARTBEAT (hbp_ttl h # sys_put_be16 feat) (mesh st))\<rparr>)"

text \<open>A heartbeat is published when a feature changes that the configuration names.\<close>

definition hb_send_on :: "crypto_lib \<Rightarrow> mesh_env \<Rightarrow> mod_ptr \<Rightarrow> u16 \<Rightarrow> node \<Rightarrow> node" where
  "hb_send_on C E p feature st =
     (case bt_mesh_subnet_get (hbp_net_idx (cfg_hb_pub (cfg_srv st))) (mesh st) of
        None \<Rightarrow> st
      | Some sb \<Rightarrow> if hbp_feat (cfg_hb_pub (cfg_srv st)) AND feature \<noteq> 0 then hb_send C E p sb st else st)"

section \<open>Features of the node\<close>

definition bt_mesh_beacon_enable :: "crypto_lib \<Rightarrow> mesh_state \<Rightarrow> mesh_state" where
  "bt_mesh_beacon_enable C m =
     (if \<not> provisioned m then m
      else fold (\<lambda>i m. if net_idx (sub m ! i) = BT_MESH_KEY_UNUSED then m
                       else bt_mesh_net_beacon_update C i (upd_sub i (\<lambda>s. s\<lparr>beacons_last := 0, beacons_cur := 0\<rparr>) m))
             [0..<length (sub m)] m)"

definition beacon_get :: cfg_handler where
  "beacon_get C E now G p rx buf st = reply C E now p rx (2 + 1 + 4) (bt_mesh_model_msg_init 0x800b @ [bt_mesh_beacon_get st]) st"

definition beacon_set :: cfg_handler where
  "beacon_set C E now G p rx buf st =
     (let b = buf ! 0 in
      if b = 0x00 \<or> b = 0x01 then
        let st = (if b \<noteq> beacon (cfg_srv st) then
                    let st = upd_cfg (\<lambda>c. c\<lparr>beacon := b\<rparr>) st in if b \<noteq> 0 then upd_mesh (bt_mesh_beacon_enable C) st else st
                  else st)
        in reply C E now p rx (2 + 1 + 4) (bt_mesh_model_msg_init 0x800b @ [bt_mesh_beacon_get st]) st
      else st)"

definition default_ttl_get :: cfg_handler where
  "default_ttl_get C E now G p rx buf st = reply C E now p rx (2 + 1 + 4) (bt_mesh_model_msg_init 0x800e @ [bt_mesh_default_ttl_get st]) st"

definition default_ttl_set :: cfg_handler where
  "default_ttl_set C E now G p rx buf st =
     (if buf ! 0 \<le> BT_MESH_TTL_MAX \<and> buf ! 0 \<noteq> 0x01 then
        let st = upd_cfg (\<lambda>c. c\<lparr>cfg_ttl := buf ! 0\<rparr>) st
        in reply C E now p rx (2 + 1 + 4) (bt_mesh_model_msg_init 0x800e @ [bt_mesh_default_ttl_get st]) st
      else st)"

definition send_gatt_proxy_status :: "crypto_lib \<Rightarrow> mesh_env \<Rightarrow> 64 word \<Rightarrow> mod_ptr \<Rightarrow> bt_mesh_net_rx \<Rightarrow> node \<Rightarrow> node" where
  "send_gatt_proxy_status C E now p rx st = reply C E now p rx (2 + 1 + 4) (bt_mesh_model_msg_init 0x8014 @ [bt_mesh_gatt_proxy_get st]) st"

definition gatt_proxy_get :: cfg_handler where
  "gatt_proxy_get C E now G p rx buf st = send_gatt_proxy_status C E now p rx st"

definition bt_mesh_proxy_identity_start :: "64 word \<Rightarrow> nat \<Rightarrow> mesh_state \<Rightarrow> mesh_state" where
  "bt_mesh_proxy_identity_start now i m = upd_sub i (\<lambda>s. s\<lparr>node_id := 0x01, node_id_start := ucast now\<rparr>) m"

definition bt_mesh_proxy_identity_stop :: "nat \<Rightarrow> mesh_state \<Rightarrow> mesh_state" where
  "bt_mesh_proxy_identity_stop i m = upd_sub i (\<lambda>s. s\<lparr>node_id := 0x00, node_id_start := 0\<rparr>) m"

definition gatt_proxy_set :: cfg_handler where
  "gatt_proxy_set C E now G p rx buf st =
     (let b = buf ! 0 in
      if b \<noteq> 0x00 \<and> b \<noteq> 0x01 then st
      else if bt_mesh_gatt_proxy_get st = BT_MESH_GATT_PROXY_NOT_SUPPORTED then send_gatt_proxy_status C E now p rx st
      else if gatt_proxy (cfg_srv st) = b then send_gatt_proxy_status C E now p rx st
      else
        let st = upd_cfg (\<lambda>c. c\<lparr>gatt_proxy := b\<rparr>) st;
            st = (if b = 0x00 then
                    upd_mesh (\<lambda>m. fold (\<lambda>i m. if net_idx (sub m ! i) \<noteq> BT_MESH_KEY_UNUSED then bt_mesh_proxy_identity_stop i m else m)
                                    [0..<length (sub m)] m) st
                  else st)
        in send_gatt_proxy_status C E now p rx (hb_send_on C E p BT_MESH_FEAT_PROXY st))"

definition net_transmit_get :: cfg_handler where
  "net_transmit_get C E now G p rx buf st = reply C E now p rx (2 + 1 + 4) (bt_mesh_model_msg_init 0x8025 @ [bt_mesh_net_transmit_get st]) st"

definition net_transmit_set :: cfg_handler where
  "net_transmit_set C E now G p rx buf st =
     (let st = upd_cfg (\<lambda>c. c\<lparr>net_transmit := buf ! 0\<rparr>) st
      in reply C E now p rx (2 + 1 + 4) (bt_mesh_model_msg_init 0x8025 @ [bt_mesh_net_transmit_get st]) st)"

definition relay_get :: cfg_handler where
  "relay_get C E now G p rx buf st =
     reply C E now p rx (2 + 2 + 4) (bt_mesh_model_msg_init 0x8028 @ [bt_mesh_relay_get st, bt_mesh_relay_retransmit_get st]) st"

definition relay_set :: cfg_handler where
  "relay_set C E now G p rx buf st =
     (let b = buf ! 0 in
      if b = 0x00 \<or> b = 0x01 then
        let change = (relay (cfg_srv st) \<noteq> BT_MESH_RELAY_NOT_SUPPORTED \<and> relay (cfg_srv st) \<noteq> b);
            st = (if relay (cfg_srv st) = BT_MESH_RELAY_NOT_SUPPORTED then st
                  else upd_cfg (\<lambda>c. c\<lparr>relay := b, relay_retransmit := buf ! 1\<rparr>) st);
            st = (if change then hb_send_on C E p BT_MESH_FEAT_RELAY st else st)
        in reply C E now p rx (2 + 2 + 4) (bt_mesh_model_msg_init 0x8028 @ [bt_mesh_relay_get st, bt_mesh_relay_retransmit_get st]) st
      else st)"

definition send_friend_status :: "crypto_lib \<Rightarrow> mesh_env \<Rightarrow> 64 word \<Rightarrow> mod_ptr \<Rightarrow> bt_mesh_net_rx \<Rightarrow> node \<Rightarrow> node" where
  "send_friend_status C E now p rx st = reply C E now p rx (2 + 1 + 4) (bt_mesh_model_msg_init 0x8011 @ [frnd (cfg_srv st)]) st"

definition friend_get :: cfg_handler where
  "friend_get C E now G p rx buf st = send_friend_status C E now p rx st"

definition friend_set :: cfg_handler where
  "friend_set C E now G p rx buf st =
     (if buf ! 0 \<noteq> 0x00 \<and> buf ! 0 \<noteq> 0x01 then st
      else if frnd (cfg_srv st) = buf ! 0 then send_friend_status C E now p rx st
      else send_friend_status C E now p rx (hb_send_on C E p BT_MESH_FEAT_FRIEND st))"

text \<open>The macro \<^verbatim>\<open>CONFIG_BLUETOOTH_MESH_FRIEND\<close> is never defined, so that the timeout is 0.\<close>

definition lpn_timeout_get :: cfg_handler where
  "lpn_timeout_get C E now G p rx buf st =
     (if \<not> BT_MESH_ADDR_IS_UNICAST (sys_get_le16 buf) then st
      else reply C E now p rx (2 + 5 + 4) (bt_mesh_model_msg_init 0x802e @ sys_put_le16 (sys_get_le16 buf) @ [0, 0, 0]) st)"

section \<open>Publication\<close>

definition send_mod_pub_status ::
  "crypto_lib \<Rightarrow> mesh_env \<Rightarrow> 64 word \<Rightarrow> mod_ptr \<Rightarrow> bt_mesh_net_rx \<Rightarrow> u16 \<Rightarrow> u16 \<Rightarrow> bool \<Rightarrow> mod_ptr option \<Rightarrow> u8 \<Rightarrow> byte list \<Rightarrow> node \<Rightarrow> node" where
  "send_mod_pub_status C E now p rx elem_addr addr vnd q status id_bytes st =
     (let msg = bt_mesh_model_msg_init 0x8019 @ [status] @ sys_put_le16 elem_addr;
          msg = msg @ (if status \<noteq> STATUS_SUCCESS then replicate 7 0
                       else let b = pubs st ! the (mod_pub (get_mod (the q) st))
                            in sys_put_le16 addr @ sys_put_le16 (pub_key b OR push_bit 12 (of_bool (pub_cred b))) @ [pub_ttl b, pub_period b, pub_retransmit b])
      in reply C E now p rx (2 + 14 + 4) (msg @ mod_id_bytes vnd id_bytes) st)"

definition mod_pub_get :: cfg_handler where
  "mod_pub_get C E now G p rx buf st =
     (let elem_addr = sys_get_le16 buf; id_bytes = drop 2 buf in
      case find_model elem_addr id_bytes st of
        (Inl status, vnd) \<Rightarrow> send_mod_pub_status C E now p rx elem_addr 0 vnd None status id_bytes st
      | (Inr q, vnd) \<Rightarrow>
          (case mod_pub (get_mod q st) of
             None \<Rightarrow> send_mod_pub_status C E now p rx elem_addr 0 vnd (Some q) STATUS_NVAL_PUB_PARAM id_bytes st
           | Some k \<Rightarrow> send_mod_pub_status C E now p rx elem_addr (pub_addr (pubs st ! k)) vnd (Some q) STATUS_SUCCESS id_bytes st))"

definition mod_pub_set :: cfg_handler where
  "mod_pub_set C E now G p rx buf st =
     (let elem_addr = sys_get_le16 buf; addr = sys_get_le16 (drop 2 buf); w = sys_get_le16 (drop 4 buf);
          cred_flag = bit w 12; app_idx = w AND 0xfff; ttl = buf ! 6; period = buf ! 7; retransmit = buf ! 8; id_bytes = drop 9 buf
      in if ttl > BT_MESH_TTL_MAX \<and> ttl \<noteq> BT_MESH_TTL_DEFAULT then st
         else case find_model elem_addr id_bytes st of
           (Inl status, vnd) \<Rightarrow> send_mod_pub_status C E now p rx elem_addr addr vnd None status id_bytes st
         | (Inr q, vnd) \<Rightarrow>
             (case mod_pub_set_param q addr app_idx cred_flag ttl period retransmit st of
                (status, st) \<Rightarrow> send_mod_pub_status C E now p rx elem_addr addr vnd (Some q) status id_bytes st))"

text \<open>The address of a label, or 0; and the last free slot.\<close>

definition va_find :: "byte list \<Rightarrow> node \<Rightarrow> u16" where
  "va_find uuid st = (case find (\<lambda>l. BT_MESH_ADDR_IS_VIRTUAL (fst l) \<and> snd l = uuid) (labels st) of Some l \<Rightarrow> fst l | None \<Rightarrow> BT_MESH_ADDR_UNASSIGNED)"

fun last_free_label :: "nat \<Rightarrow> nat option \<Rightarrow> (u16 \<times> byte list) list \<Rightarrow> nat option" where
  "last_free_label i acc [] = acc"
| "last_free_label i acc (l # ls) = last_free_label (i + 1) (if BT_MESH_ADDR_IS_VIRTUAL (fst l) then acc else Some i) ls"

definition va_add :: "crypto_lib \<Rightarrow> byte list \<Rightarrow> node \<Rightarrow> u8 \<times> u16 \<times> node" where
  "va_add C uuid st =
     (let addr = va_find uuid st in
      if addr \<noteq> BT_MESH_ADDR_UNASSIGNED then (STATUS_SUCCESS, addr, st)
      else case last_free_label 0 None (labels st) of
        None \<Rightarrow> (STATUS_INSUFF_RESOURCES, addr, st)
      | Some i \<Rightarrow>
          (case bt_mesh_virtual_addr C uuid of
             Inl e \<Rightarrow> (STATUS_UNSPECIFIED, addr, st)
           | Inr a \<Rightarrow> (STATUS_SUCCESS, a, st\<lparr>labels := (labels st)[i := (a, uuid)]\<rparr>)))"

definition mod_pub_va_set :: cfg_handler where
  "mod_pub_va_set C E now G p rx buf st =
     (let elem_addr = sys_get_le16 buf; uuid = take 16 (drop 2 buf); w = sys_get_le16 (drop 18 buf);
          cred_flag = bit w 12; app_idx = w AND 0xfff; ttl = buf ! 20; period = buf ! 21; retransmit = buf ! 22; id_bytes = drop 23 buf
      in if ttl > BT_MESH_TTL_MAX \<and> ttl \<noteq> BT_MESH_TTL_DEFAULT then st
         else case find_model elem_addr id_bytes st of
           (Inl status, vnd) \<Rightarrow> send_mod_pub_status C E now p rx elem_addr 0 vnd None status id_bytes st
         | (Inr q, vnd) \<Rightarrow>
             (case va_add C uuid st of
                (status, addr, st) \<Rightarrow>
                  (case (if status = STATUS_SUCCESS then mod_pub_set_param q addr app_idx cred_flag ttl period retransmit st else (status, st)) of
                     (status, st) \<Rightarrow> send_mod_pub_status C E now p rx elem_addr addr vnd (Some q) status id_bytes st)))"

section \<open>Subscription\<close>

definition send_mod_sub_status ::
  "crypto_lib \<Rightarrow> mesh_env \<Rightarrow> 64 word \<Rightarrow> mod_ptr \<Rightarrow> bt_mesh_net_rx \<Rightarrow> u8 \<Rightarrow> u16 \<Rightarrow> u16 \<Rightarrow> byte list \<Rightarrow> bool \<Rightarrow> node \<Rightarrow> node" where
  "send_mod_sub_status C E now p rx status elem_addr sub_addr id_bytes vnd st =
     reply C E now p rx (2 + 9 + 4)
       (bt_mesh_model_msg_init 0x801f @ [status] @ sys_put_le16 elem_addr @ sys_put_le16 sub_addr @ mod_id_bytes vnd id_bytes) st"

definition set_groups :: "u16 list \<Rightarrow> mod_ptr option \<Rightarrow> node \<Rightarrow> node" where
  "set_groups l q st = (case q of None \<Rightarrow> st | Some q \<Rightarrow> upd_mod q (\<lambda>m. m\<lparr>mod_groups := l\<rparr>) st)"

definition elem_sub_bind :: "nat \<Rightarrow> node \<Rightarrow> node" where
  "elem_sub_bind i st =
     (let st = fold (\<lambda>j st. set_groups (g_sub_list st) (sig_ptr i j st) st) [0..<length (el_models (dev_elems st ! i))] st
      in fold (\<lambda>j st. set_groups (g_sub_list st) (vnd_ptr i j st) st) [0..<length (el_vnd_models (dev_elems st ! i))] st)"

text \<open>The list of the node is changed in its first slot that holds \<open>old\<close>, and then copied to all models of the element; \<open>False\<close> when there is no such slot.\<close>

definition replace_group :: "u16 \<Rightarrow> u16 \<Rightarrow> nat \<Rightarrow> node \<Rightarrow> bool \<times> node" where
  "replace_group old new i st =
     (case find_index (\<lambda>g. g = old) (g_sub_list st) of
        None \<Rightarrow> (False, st)
      | Some k \<Rightarrow> (True, elem_sub_bind i (st\<lparr>g_sub_list := (g_sub_list st)[k := new]\<rparr>)))"

definition mod_sub_add :: cfg_handler where
  "mod_sub_add C E now G p rx buf st =
     (let elem_addr = sys_get_le16 buf; sub_addr = sys_get_le16 (drop 2 buf); id_bytes = drop 4 buf;
          (r, vnd) = find_model elem_addr id_bytes st;
          (status, st) =
            (case r of
               Inl status \<Rightarrow> (status, st)
             | Inr q \<Rightarrow>
                 if \<not> BT_MESH_ADDR_IS_GROUP sub_addr then (STATUS_INVALID_ADDRESS, st)
                 else if bt_mesh_model_find_group (get_mod q st) sub_addr st \<noteq> None then (STATUS_SUCCESS, st)
                 else case replace_group BT_MESH_ADDR_UNASSIGNED sub_addr (fst q) st of
                   (True, st) \<Rightarrow> (STATUS_SUCCESS, st)
                 | (False, st) \<Rightarrow> (STATUS_INSUFF_RESOURCES, st))
      in send_mod_sub_status C E now p rx status elem_addr sub_addr id_bytes vnd st)"

definition mod_sub_del :: cfg_handler where
  "mod_sub_del C E now G p rx buf st =
     (let elem_addr = sys_get_le16 buf; sub_addr = sys_get_le16 (drop 2 buf); id_bytes = drop 4 buf;
          (r, vnd) = find_model elem_addr id_bytes st;
          (status, st) =
            (case r of
               Inl status \<Rightarrow> (status, st)
             | Inr q \<Rightarrow>
                 if \<not> BT_MESH_ADDR_IS_GROUP sub_addr then (STATUS_INVALID_ADDRESS, st)
                 else (STATUS_SUCCESS, snd (replace_group sub_addr BT_MESH_ADDR_UNASSIGNED (fst q) st)))
      in send_mod_sub_status C E now p rx status elem_addr sub_addr id_bytes vnd st)"

definition mod_sub_overwrite :: cfg_handler where
  "mod_sub_overwrite C E now G p rx buf st =
     (let elem_addr = sys_get_le16 buf; sub_addr = sys_get_le16 (drop 2 buf); id_bytes = drop 4 buf;
          (r, vnd) = find_model elem_addr id_bytes st;
          (status, st) =
            (case r of
               Inl status \<Rightarrow> (status, st)
             | Inr q \<Rightarrow>
                 if \<not> BT_MESH_ADDR_IS_GROUP sub_addr then (STATUS_INVALID_ADDRESS, st)
                 else
                   let st = upd_mod q (\<lambda>m. m\<lparr>mod_groups := replicate (length (mod_groups m)) 0\<rparr>) st
                   in if length (mod_groups (get_mod q st)) > 0
                      then (STATUS_SUCCESS, upd_mod q (\<lambda>m. m\<lparr>mod_groups := (mod_groups m)[0 := sub_addr]\<rparr>) st)
                      else (STATUS_INSUFF_RESOURCES, st))
      in send_mod_sub_status C E now p rx status elem_addr sub_addr id_bytes vnd st)"

definition mod_sub_del_all :: cfg_handler where
  "mod_sub_del_all C E now G p rx buf st =
     (let elem_addr = sys_get_le16 buf; id_bytes = drop 2 buf;
          (r, vnd) = find_model elem_addr id_bytes st;
          (status, st) =
            (case r of
               Inl status \<Rightarrow> (status, st)
             | Inr q \<Rightarrow> (STATUS_SUCCESS, upd_mod q (\<lambda>m. m\<lparr>mod_groups := replicate (length (mod_groups m)) 0\<rparr>) st))
      in send_mod_sub_status C E now p rx status elem_addr BT_MESH_ADDR_UNASSIGNED id_bytes vnd st)"

definition group_bytes :: "bt_mesh_model \<Rightarrow> byte list" where
  "group_bytes m = concat (map sys_put_le16 (filter (\<lambda>g. g \<noteq> BT_MESH_ADDR_UNASSIGNED) (mod_groups m)))"

definition mod_sub_get :: cfg_handler where
  "mod_sub_get C E now G p rx buf st =
     (let addr = sys_get_le16 buf; i = sys_get_le16 (drop 2 buf);
          (status, m) =
            (case bt_mesh_elem_find addr st of
               None \<Rightarrow> (STATUS_INVALID_ADDRESS, [])
             | Some e \<Rightarrow>
                 (case bt_mesh_model_find (dev_elems st ! e) i of
                    None \<Rightarrow> (STATUS_INVALID_MODEL, [])
                  | Some j \<Rightarrow> (STATUS_SUCCESS, group_bytes (get_mod (e, False, j) st))))
      in reply C E now p rx (2 + 5 + 4 + length (g_sub_list st) * 2)
           (bt_mesh_model_msg_init 0x802a @ [status] @ sys_put_le16 addr @ sys_put_le16 i @ m) st)"

definition mod_sub_get_vnd :: cfg_handler where
  "mod_sub_get_vnd C E now G p rx buf st =
     (let addr = sys_get_le16 buf; company = sys_get_le16 (drop 2 buf); i = sys_get_le16 (drop 4 buf);
          (status, m) =
            (case bt_mesh_elem_find addr st of
               None \<Rightarrow> (STATUS_INVALID_ADDRESS, [])
             | Some e \<Rightarrow>
                 (case bt_mesh_model_find_vnd (dev_elems st ! e) company i of
                    None \<Rightarrow> (STATUS_INVALID_MODEL, [])
                  | Some j \<Rightarrow> (STATUS_SUCCESS, group_bytes (get_mod (e, True, j) st))))
      in reply C E now p rx (2 + 7 + 4 + length (g_sub_list st) * 2)
           (bt_mesh_model_msg_init 0x802c @ [status] @ sys_put_le16 addr @ sys_put_le16 company @ sys_put_le16 i @ m) st)"

definition mod_sub_va_add :: cfg_handler where
  "mod_sub_va_add C E now G p rx buf st =
     (let elem_addr = sys_get_le16 buf; uuid = take 16 (drop 2 buf); id_bytes = drop 18 buf;
          (r, vnd) = find_model elem_addr id_bytes st;
          (status, sub_addr, st) =
            (case r of
               Inl status \<Rightarrow> (status, BT_MESH_ADDR_UNASSIGNED, st)
             | Inr q \<Rightarrow>
                 (case va_add C uuid st of
                    (status, sub_addr, st) \<Rightarrow>
                      if status \<noteq> STATUS_SUCCESS then (status, sub_addr, st)
                      else if bt_mesh_model_find_group (get_mod q st) sub_addr st \<noteq> None then (STATUS_SUCCESS, sub_addr, st)
                      else case find_index (\<lambda>g. g = BT_MESH_ADDR_UNASSIGNED) (mod_groups (get_mod q st)) of
                        None \<Rightarrow> (STATUS_INSUFF_RESOURCES, sub_addr, st)
                      | Some k \<Rightarrow> (STATUS_SUCCESS, sub_addr, upd_mod q (\<lambda>m. m\<lparr>mod_groups := (mod_groups m)[k := sub_addr]\<rparr>) st)))
      in send_mod_sub_status C E now p rx status elem_addr sub_addr id_bytes vnd st)"

text \<open>The pointer that \<open>bt_mesh_model_find_group\<close> returns is written through.\<close>

definition clear_group :: "mod_ptr \<Rightarrow> group_slot \<Rightarrow> node \<Rightarrow> node" where
  "clear_group q slot st =
     (case slot of
        In_Model k \<Rightarrow> upd_mod q (\<lambda>m. m\<lparr>mod_groups := (mod_groups m)[k := BT_MESH_ADDR_UNASSIGNED]\<rparr>) st
      | In_Elem \<Rightarrow> upd_elem (the (mod_elem (get_mod q st))) (\<lambda>e. e\<lparr>grop_addr := BT_MESH_ADDR_UNASSIGNED\<rparr>) st)"

definition mod_sub_va_del :: cfg_handler where
  "mod_sub_va_del C E now G p rx buf st =
     (let elem_addr = sys_get_le16 buf; uuid = take 16 (drop 2 buf); id_bytes = drop 18 buf;
          (r, vnd) = find_model elem_addr id_bytes st;
          (status, sub_addr, st) =
            (case r of
               Inl status \<Rightarrow> (status, BT_MESH_ADDR_UNASSIGNED, st)
             | Inr q \<Rightarrow>
                 let sub_addr = va_find uuid st in
                 if sub_addr = BT_MESH_ADDR_UNASSIGNED then (STATUS_CANNOT_REMOVE, sub_addr, st)
                 else case bt_mesh_model_find_group (get_mod q st) sub_addr st of
                   Some slot \<Rightarrow> (STATUS_SUCCESS, sub_addr, clear_group q slot st)
                 | None \<Rightarrow> (STATUS_CANNOT_REMOVE, sub_addr, st))
      in send_mod_sub_status C E now p rx status elem_addr sub_addr id_bytes vnd st)"

definition mod_sub_va_overwrite :: cfg_handler where
  "mod_sub_va_overwrite C E now G p rx buf st =
     (let elem_addr = sys_get_le16 buf; uuid = take 16 (drop 2 buf); id_bytes = drop 18 buf;
          (r, vnd) = find_model elem_addr id_bytes st;
          (status, sub_addr, st) =
            (case r of
               Inl status \<Rightarrow> (status, BT_MESH_ADDR_UNASSIGNED, st)
             | Inr q \<Rightarrow>
                 let st = upd_mod q (\<lambda>m. m\<lparr>mod_groups := replicate (length (mod_groups m)) 0\<rparr>) st
                 in if length (mod_groups (get_mod q st)) > 0 then
                      (case va_add C uuid st of
                         (status, sub_addr, st) \<Rightarrow>
                           (status, sub_addr, if status = STATUS_SUCCESS then upd_mod q (\<lambda>m. m\<lparr>mod_groups := (mod_groups m)[0 := sub_addr]\<rparr>) st else st))
                    else (STATUS_INSUFF_RESOURCES, BT_MESH_ADDR_UNASSIGNED, st))
      in send_mod_sub_status C E now p rx status elem_addr sub_addr id_bytes vnd st)"

section \<open>Binding\<close>

definition mod_app_status :: "u8 \<Rightarrow> u16 \<Rightarrow> u16 \<Rightarrow> bool \<Rightarrow> byte list \<Rightarrow> byte list" where
  "mod_app_status status elem_addr app_idx vnd id_bytes =
     bt_mesh_model_msg_init 0x803e @ [status] @ sys_put_le16 elem_addr @ sys_put_le16 app_idx @ mod_id_bytes vnd id_bytes"

definition mod_app_bind :: cfg_handler where
  "mod_app_bind C E now G p rx buf st =
     (let elem_addr = sys_get_le16 buf; app_idx = sys_get_le16 (drop 2 buf); id_bytes = drop 4 buf;
          (r, vnd) = find_model elem_addr id_bytes st;
          (status, st) =
            (case r of
               Inl status \<Rightarrow> (status, st)
             | Inr q \<Rightarrow> if p = q then (STATUS_CANNOT_BIND, st) else mod_bind q app_idx st)
      in reply C E now p rx (2 + 9 + 4) (mod_app_status status elem_addr app_idx vnd id_bytes) st)"

definition mod_app_unbind :: cfg_handler where
  "mod_app_unbind C E now G p rx buf st =
     (let elem_addr = sys_get_le16 buf; app_idx = sys_get_le16 (drop 2 buf); id_bytes = drop 4 buf;
          (r, vnd) = find_model elem_addr id_bytes st;
          (status, st) = (case r of Inl status \<Rightarrow> (status, st) | Inr q \<Rightarrow> mod_unbind q app_idx st)
      in reply C E now p rx (2 + 9 + 4) (mod_app_status status elem_addr app_idx vnd id_bytes) st)"

definition mod_app_get :: cfg_handler where
  "mod_app_get C E now G p rx buf st =
     (let elem_addr = sys_get_le16 buf; id_bytes = drop 2 buf;
          (r, vnd) = find_model elem_addr id_bytes st;
          (status, keys) =
            (case r of
               Inl status \<Rightarrow> (status, [])
             | Inr q \<Rightarrow> (STATUS_SUCCESS, concat (map sys_put_le16 (filter (\<lambda>k. k \<noteq> BT_MESH_KEY_UNUSED) (mod_keys (get_mod q st))))))
      in reply C E now p rx (2 + 9 + 2 * 2 + 4)
           (bt_mesh_model_msg_init (if vnd then 0x804e else 0x804c) @ [status] @ sys_put_le16 elem_addr @ mod_id_bytes vnd id_bytes @ keys) st)"

section \<open>Network keys and key refresh\<close>

abbreviation (input) BT_MESH_KR_PHASE_3 :: u8 where "BT_MESH_KR_PHASE_3 \<equiv> 3"

definition send_net_key_status :: "crypto_lib \<Rightarrow> mesh_env \<Rightarrow> 64 word \<Rightarrow> mod_ptr \<Rightarrow> bt_mesh_net_rx \<Rightarrow> u16 \<Rightarrow> u8 \<Rightarrow> node \<Rightarrow> node" where
  "send_net_key_status C E now p rx idx status st = reply C E now p rx (2 + 3 + 4) (bt_mesh_model_msg_init 0x8044 @ [status] @ sys_put_le16 idx) st"

text \<open>When the keys cannot be derived, the slot stays unused.\<close>

definition net_key_add :: cfg_handler where
  "net_key_add C E now G p rx buf st =
     (let idx = sys_get_le16 buf; key = take 16 (drop 2 buf) in
      if idx > 0xfff then st
      else case (case bt_mesh_subnet_get idx (mesh st) of
                   Some i \<Rightarrow> Some i
                 | None \<Rightarrow> find_index (\<lambda>s. net_idx s = BT_MESH_KEY_UNUSED) (sub (mesh st))) of
        None \<Rightarrow> send_net_key_status C E now p rx idx STATUS_INSUFF_RESOURCES st
      | Some i \<Rightarrow>
          if net_idx (sub (mesh st) ! i) = idx then
            send_net_key_status C E now p rx idx (if key \<noteq> sk_net (keys0 (sub (mesh st) ! i)) then STATUS_IDX_ALREADY_STORED else STATUS_SUCCESS) st
          else case bt_mesh_net_keys_create C key of
            Inl e \<Rightarrow> send_net_key_status C E now p rx idx STATUS_UNSPECIFIED st
          | Inr k \<Rightarrow>
              let st = upd_mesh (\<lambda>m. upd_sub i (\<lambda>s. s\<lparr>keys0 := k, net_idx := idx\<rparr>) m) st;
                  st = upd_mesh (bt_mesh_net_beacon_update C i) st;
                  st = upd_mesh (\<lambda>m. emit (Proxy_Beacon (Some i)) (upd_sub i (\<lambda>s. s\<lparr>node_id := 0x00\<rparr>) m)) st
              in send_net_key_status C E now p rx idx STATUS_SUCCESS st)"

text \<open>The status that the function computes is not the one that it sends.\<close>

definition net_key_update :: cfg_handler where
  "net_key_update C E now G p rx buf st =
     (let idx = sys_get_le16 buf; key = take 16 (drop 2 buf) in
      if idx > 0xfff then st
      else case bt_mesh_subnet_get idx (mesh st) of
        None \<Rightarrow> send_net_key_status C E now p rx idx STATUS_SUCCESS st
      | Some i \<Rightarrow>
          let s = sub (mesh st) ! i in
          if kr_phase s = BT_MESH_KR_NORMAL \<and> key = sk_net (keys0 s) then st
          else if kr_phase s = BT_MESH_KR_PHASE_1 \<or> kr_phase s = BT_MESH_KR_PHASE_2 \<or> kr_phase s = BT_MESH_KR_PHASE_3
          then send_net_key_status C E now p rx idx STATUS_SUCCESS st
          else case bt_mesh_net_keys_create C key of
            Inl e \<Rightarrow> send_net_key_status C E now p rx idx STATUS_SUCCESS st
          | Inr k \<Rightarrow>
              send_net_key_status C E now p rx idx STATUS_SUCCESS
                (upd_mesh (\<lambda>m. bt_mesh_net_beacon_update C i (upd_sub i (\<lambda>s. s\<lparr>keys1 := k, kr_phase := BT_MESH_KR_PHASE_1\<rparr>) m)) st))"

definition hb_pub_disable :: "bt_mesh_cfg_srv \<Rightarrow> bt_mesh_cfg_srv" where
  "hb_pub_disable c =
     c\<lparr>cfg_hb_pub := (cfg_hb_pub c)\<lparr>hbp_dst := BT_MESH_ADDR_UNASSIGNED, hbp_count := 0, hbp_ttl := 0, hbp_period := 0, hb_timer := None\<rparr>\<rparr>"

definition zero_subnet :: bt_mesh_subnet where
  "zero_subnet =
     (let k = \<lparr>sk_net = replicate 16 0, sk_nid = 0, sk_enc = replicate 16 0, sk_net_id = replicate 8 0, sk_identity = replicate 16 0,
               sk_privacy = replicate 16 0, sk_beacon = replicate 16 0\<rparr>
      in \<lparr>beacon_sent = 0, beacons_last = 0, beacons_cur = 0, beacon_cache = replicate 21 0, net_idx = BT_MESH_KEY_UNUSED, kr_flag = False,
          kr_phase = 0, node_id = 0, node_id_start = 0, sub_auth = replicate 8 0, subnet_active = False, keys0 = k, keys1 = k\<rparr>)"

definition net_key_del :: cfg_handler where
  "net_key_del C E now G p rx buf st =
     (let idx = sys_get_le16 buf in
      if idx > 0xfff then st
      else case bt_mesh_subnet_get idx (mesh st) of
        None \<Rightarrow> send_net_key_status C E now p rx idx STATUS_SUCCESS st
      | Some s \<Rightarrow>
          if rx_net_idx rx = idx then send_net_key_status C E now p rx idx STATUS_CANNOT_REMOVE st
          else
            let st = (if hbp_net_idx (cfg_hb_pub (cfg_srv st)) = idx then upd_cfg hb_pub_disable st else st);
                st = fold (\<lambda>i st. if ak_net_idx (app_keys (mesh st) ! i) = idx then app_key_delete i st else st) [0..<length (app_keys (mesh st))] st;
                st = upd_mesh (\<lambda>m. upd_sub s (\<lambda>_. zero_subnet) m) st
            in send_net_key_status C E now p rx idx STATUS_SUCCESS st)"

definition net_key_get :: cfg_handler where
  "net_key_get C E now G p rx buf st =
     reply C E now p rx (2 + 4 + IDX_LEN (length (sub (mesh st))))
       (bt_mesh_model_msg_init 0x8043 @ idx_list None (filter (\<lambda>i. i \<noteq> BT_MESH_KEY_UNUSED) (map net_idx (sub (mesh st))))) st"

definition node_identity_get :: cfg_handler where
  "node_identity_get C E now G p rx buf st =
     (let idx = sys_get_le16 buf in
      if idx > 0xfff then st
      else
        let (status, nid) = (case bt_mesh_subnet_get idx (mesh st) of None \<Rightarrow> (STATUS_INVALID_NETKEY, 0x00) | Some i \<Rightarrow> (STATUS_SUCCESS, node_id (sub (mesh st) ! i)))
        in reply C E now p rx (2 + 4 + 4) (bt_mesh_model_msg_init 0x8048 @ [status] @ sys_put_le16 idx @ [nid]) st)"

definition node_identity_set :: cfg_handler where
  "node_identity_set C E now G p rx buf st =
     (let idx = sys_get_le16 buf; nid = buf ! 2 in
      if idx > 0xfff then st
      else if nid \<noteq> 0x00 \<and> nid \<noteq> 0x01 then st
      else case bt_mesh_subnet_get idx (mesh st) of
        None \<Rightarrow> reply C E now p rx (2 + 4 + 4) (bt_mesh_model_msg_init 0x8048 @ [STATUS_INVALID_NETKEY] @ sys_put_le16 idx @ [nid]) st
      | Some i \<Rightarrow>
          let st = (if bt_mesh_gatt_proxy_get st = BT_MESH_GATT_PROXY_ENABLED
                    then upd_mesh (if nid \<noteq> 0 then bt_mesh_proxy_identity_start now i else bt_mesh_proxy_identity_stop i) st else st)
          in reply C E now p rx (2 + 4 + 4) (bt_mesh_model_msg_init 0x8048 @ [STATUS_SUCCESS] @ sys_put_le16 idx @ [node_id (sub (mesh st) ! i)]) st)"

definition send_krp_status :: "crypto_lib \<Rightarrow> mesh_env \<Rightarrow> 64 word \<Rightarrow> mod_ptr \<Rightarrow> bt_mesh_net_rx \<Rightarrow> u16 \<Rightarrow> u8 \<Rightarrow> u8 \<Rightarrow> node \<Rightarrow> node" where
  "send_krp_status C E now p rx idx phase status st =
     reply C E now p rx (2 + 4 + 4) (bt_mesh_model_msg_init 0x8017 @ [status] @ sys_put_le16 idx @ [phase]) st"

definition krp_get :: cfg_handler where
  "krp_get C E now G p rx buf st =
     (let idx = sys_get_le16 buf in
      if idx > 0xfff then st
      else case bt_mesh_subnet_get idx (mesh st) of
        None \<Rightarrow> send_krp_status C E now p rx idx 0x00 STATUS_INVALID_NETKEY st
      | Some i \<Rightarrow> send_krp_status C E now p rx idx (kr_phase (sub (mesh st) ! i)) STATUS_SUCCESS st)"

text \<open>The transition of the key refresh procedure that a message may ask for.\<close>

definition krp_transition :: "crypto_lib \<Rightarrow> nat \<Rightarrow> u8 \<Rightarrow> mesh_state \<Rightarrow> mesh_state" where
  "krp_transition C i phase m =
     (let old = kr_phase (sub m ! i) in
      if old = BT_MESH_KR_PHASE_1 \<and> phase = BT_MESH_KR_PHASE_2 then
        bt_mesh_net_beacon_update C i (upd_sub i (\<lambda>s. s\<lparr>kr_phase := BT_MESH_KR_PHASE_2, kr_flag := True\<rparr>) m)
      else if (old = BT_MESH_KR_PHASE_1 \<or> old = BT_MESH_KR_PHASE_2) \<and> phase = BT_MESH_KR_PHASE_3 then
        bt_mesh_net_beacon_update C i (upd_sub i (\<lambda>s. s\<lparr>kr_phase := BT_MESH_KR_NORMAL, kr_flag := False\<rparr>) (bt_mesh_net_revoke_keys i m))
      else m)"

definition krp_set :: cfg_handler where
  "krp_set C E now G p rx buf st =
     (let idx = sys_get_le16 buf; phase = buf ! 2 in
      if idx > 0xfff then st
      else case bt_mesh_subnet_get idx (mesh st) of
        None \<Rightarrow> send_krp_status C E now p rx idx 0x00 STATUS_INVALID_NETKEY st
      | Some i \<Rightarrow>
          if phase < BT_MESH_KR_PHASE_2 \<or> phase > BT_MESH_KR_PHASE_3 \<or>
             kr_phase (sub (mesh st) ! i) = BT_MESH_KR_NORMAL \<and> phase = BT_MESH_KR_PHASE_2 then st
          else
            let st = upd_mesh (krp_transition C i phase) st
            in send_krp_status C E now p rx idx (kr_phase (sub (mesh st) ! i)) STATUS_SUCCESS st)"

section \<open>Heartbeat publication and subscription\<close>

text \<open>\<open>bit_length v\<close> is \<^verbatim>\<open>32 - __builtin_clz(v)\<close>.\<close>

definition bit_length :: "u16 \<Rightarrow> nat" where
  "bit_length v = length (takeWhile (\<lambda>n. drop_bit n v \<noteq> 0) [0..<16])"

definition hb_log :: "u16 \<Rightarrow> u8" where
  "hb_log v = (if v = 0 then 0x00 else if v = 0xffff then 0xff else of_nat (bit_length v))"

definition hb_pub_count_log :: "u16 \<Rightarrow> u8" where
  "hb_pub_count_log v =
     (if v = 0 then 0x00 else if v = 0x01 then 0x01 else if v = 0xffff then 0xff else of_nat (bit_length (v - 1) + 1))"

definition hb_pwr2 :: "u8 \<Rightarrow> u8 \<Rightarrow> u16" where
  "hb_pwr2 v sb = (if v = 0 then 0x0000 else if v = 0xff \<or> v = 0x11 then 0xffff else push_bit (unat (v - sb)) 1)"

definition hb_pub_send_status :: "crypto_lib \<Rightarrow> mesh_env \<Rightarrow> 64 word \<Rightarrow> mod_ptr \<Rightarrow> bt_mesh_net_rx \<Rightarrow> u8 \<Rightarrow> byte list option \<Rightarrow> node \<Rightarrow> node" where
  "hb_pub_send_status C E now p rx status orig st =
     (let h = cfg_hb_pub (cfg_srv st)
      in reply C E now p rx (1 + 10 + 4) (bt_mesh_model_msg_init 0x06 @ [status] @
           (case orig of
              Some b \<Rightarrow> take 9 b
            | None \<Rightarrow> sys_put_le16 (hbp_dst h) @ [hb_pub_count_log (hbp_count h), hbp_period h, hbp_ttl h] @ sys_put_le16 (hbp_feat h) @ sys_put_le16 (hbp_net_idx h))) st)"

definition heartbeat_pub_get :: cfg_handler where
  "heartbeat_pub_get C E now G p rx buf st = hb_pub_send_status C E now p rx STATUS_SUCCESS None st"

text \<open>\<^verbatim>\<open>k_work_submit\<close> runs the work as soon as possible: a timer of 0.\<close>

definition heartbeat_pub_set :: cfg_handler where
  "heartbeat_pub_set C E now G p rx buf st =
     (let dst = sys_get_le16 buf; count_log = buf ! 2; period_log = buf ! 3; ttl = buf ! 4; feat = sys_get_le16 (drop 5 buf); idx = sys_get_le16 (drop 7 buf) in
      if BT_MESH_ADDR_IS_VIRTUAL dst then hb_pub_send_status C E now p rx STATUS_INVALID_ADDRESS (Some buf) st
      else if count_log > 0x11 \<and> count_log \<noteq> 0xff then hb_pub_send_status C E now p rx STATUS_CANNOT_SET (Some buf) st
      else if period_log > 0x10 then hb_pub_send_status C E now p rx STATUS_CANNOT_SET (Some buf) st
      else if ttl > BT_MESH_TTL_MAX \<and> ttl \<noteq> BT_MESH_TTL_DEFAULT then st
      else if idx > 0xfff then st
      else if bt_mesh_subnet_get idx (mesh st) = None then hb_pub_send_status C E now p rx STATUS_INVALID_NETKEY (Some buf) st
      else
        let st = upd_cfg (\<lambda>c. c\<lparr>cfg_hb_pub := (cfg_hb_pub c)\<lparr>hbp_dst := dst, hbp_period := period_log, hbp_feat := feat, hbp_net_idx := idx\<rparr>\<rparr>) st;
            st = (if dst = BT_MESH_ADDR_UNASSIGNED then upd_cfg hb_pub_disable st
                  else upd_cfg (\<lambda>c. c\<lparr>cfg_hb_pub := (cfg_hb_pub c)\<lparr>hbp_count := hb_pwr2 count_log 1, hbp_ttl := ttl,
                                       hb_timer := (if period_log \<noteq> 0 \<and> count_log \<noteq> 0 then Some 0 else None)\<rparr>\<rparr>) st)
        in hb_pub_send_status C E now p rx STATUS_SUCCESS None st)"

text \<open>The period of the timer is a 16-bit number of milliseconds.\<close>

definition hb_period_ms :: "u8 \<Rightarrow> u16" where
  "hb_period_ms period = hb_pwr2 period 1 * 1000"

definition hb_publish :: "crypto_lib \<Rightarrow> mesh_env \<Rightarrow> node \<Rightarrow> node" where
  "hb_publish C E st =
     (let st = upd_cfg (\<lambda>c. c\<lparr>cfg_hb_pub := (cfg_hb_pub c)\<lparr>hb_timer := None\<rparr>\<rparr>) st in
      case bt_mesh_subnet_get (hbp_net_idx (cfg_hb_pub (cfg_srv st))) (mesh st) of
        None \<Rightarrow> upd_cfg (\<lambda>c. c\<lparr>cfg_hb_pub := (cfg_hb_pub c)\<lparr>hbp_dst := BT_MESH_ADDR_UNASSIGNED\<rparr>\<rparr>) st
      | Some sb \<Rightarrow>
          let st = hb_send C E (the (cfg_model (cfg_srv st))) sb st; h = cfg_hb_pub (cfg_srv st) in
          if hbp_count h = 0 then st
          else
            let st = (if hbp_count h \<noteq> 0xffff then upd_cfg (\<lambda>c. c\<lparr>cfg_hb_pub := (cfg_hb_pub c)\<lparr>hbp_count := hbp_count (cfg_hb_pub c) - 1\<rparr>\<rparr>) st else st);
                ms = hb_period_ms (hbp_period h)
            in if ms \<noteq> 0 then upd_cfg (\<lambda>c. c\<lparr>cfg_hb_pub := (cfg_hb_pub c)\<lparr>hb_timer := Some (unat ms)\<rparr>\<rparr>) st else st)"

definition hb_sub_send_status :: "crypto_lib \<Rightarrow> mesh_env \<Rightarrow> 64 word \<Rightarrow> mod_ptr \<Rightarrow> bt_mesh_net_rx \<Rightarrow> u8 \<Rightarrow> node \<Rightarrow> node" where
  "hb_sub_send_status C E now p rx status st =
     (let h = cfg_hb_sub (cfg_srv st);
          period = (if sint now > sint (hbs_expiry h) then 0 else of_int (sint (hbs_expiry h - now) div 1000))
      in reply C E now p rx (2 + 9 + 4)
           (bt_mesh_model_msg_init 0x803c @ [status] @ sys_put_le16 (hbs_src h) @ sys_put_le16 (hbs_dst h) @
            [hb_log period, hb_log (hbs_count h), hbs_min_hops h, hbs_max_hops h]) st)"

definition heartbeat_sub_get :: cfg_handler where
  "heartbeat_sub_get C E now G p rx buf st = hb_sub_send_status C E now p rx STATUS_SUCCESS st"

definition heartbeat_sub_set :: cfg_handler where
  "heartbeat_sub_set C E now G p rx buf st =
     (let src = sys_get_le16 buf; dst = sys_get_le16 (drop 2 buf); period = buf ! 4 in
      if src \<noteq> BT_MESH_ADDR_UNASSIGNED \<and> \<not> BT_MESH_ADDR_IS_UNICAST src then st
      else if BT_MESH_ADDR_IS_VIRTUAL dst \<or> BT_MESH_ADDR_IS_RFU dst \<or> BT_MESH_ADDR_IS_UNICAST dst \<and> dst \<noteq> dev_primary_addr st then st
      else if period > 0x11 then st
      else
        let off = (src = BT_MESH_ADDR_UNASSIGNED \<or> dst = BT_MESH_ADDR_UNASSIGNED \<or> period = 0x00);
            st = upd_cfg (\<lambda>c. let h = cfg_hb_sub c in c\<lparr>cfg_hb_sub :=
                   (if off then if hbs_src h \<noteq> src \<or> hbs_dst h \<noteq> dst then h\<lparr>hbs_src := BT_MESH_ADDR_UNASSIGNED, hbs_dst := BT_MESH_ADDR_UNASSIGNED\<rparr> else h
                    else h\<lparr>hbs_src := src, hbs_dst := dst, hbs_min_hops := BT_MESH_TTL_MAX, hbs_max_hops := 0, hbs_count := 0\<rparr>)\<rparr>) st;
            period_ms = (if off then 0 else unat (hb_pwr2 period 1) * 1000);
            st = upd_mesh (\<lambda>m. m\<lparr>hb_sub_dst := hbs_dst (cfg_hb_sub (cfg_srv st))\<rparr>) st;
            st = upd_cfg (\<lambda>c. c\<lparr>cfg_hb_sub := (cfg_hb_sub c)\<lparr>hbs_expiry := (if period_ms \<noteq> 0 then now + of_nat period_ms else 0)\<rparr>\<rparr>) st
        in hb_sub_send_status C E now p rx STATUS_SUCCESS st)"

text \<open>A received heartbeat; the transport layer calls this function.\<close>

definition bt_mesh_heartbeat :: "64 word \<Rightarrow> u16 \<Rightarrow> u16 \<Rightarrow> u8 \<Rightarrow> node \<Rightarrow> node" where
  "bt_mesh_heartbeat now src dst hops st =
     (let h = cfg_hb_sub (cfg_srv st) in
      if \<not> conf st then st
      else if src \<noteq> hbs_src h \<or> dst \<noteq> hbs_dst h then st
      else if sint now > sint (hbs_expiry h) then st
      else upd_cfg (\<lambda>c. c\<lparr>cfg_hb_sub := h\<lparr>hbs_min_hops := min (hbs_min_hops h) hops, hbs_max_hops := max (hbs_max_hops h) hops,
                                           hbs_count := (if hbs_count h < 0xffff then hbs_count h + 1 else hbs_count h)\<rparr>\<rparr>) st)"

section \<open>Provisioning and reset\<close>

definition bt_mesh_cfg_reset :: "node \<Rightarrow> node" where
  "bt_mesh_cfg_reset st =
     (if \<not> conf st then st
      else
        let st = upd_mesh (\<lambda>m. m\<lparr>hb_sub_dst := BT_MESH_ADDR_UNASSIGNED\<rparr>) st;
            st = upd_cfg (\<lambda>c. hb_pub_disable (c\<lparr>cfg_hb_sub := (cfg_hb_sub c)\<lparr>hbs_src := BT_MESH_ADDR_UNASSIGNED, hbs_dst := BT_MESH_ADDR_UNASSIGNED, hbs_expiry := 0\<rparr>\<rparr>)) st;
            st = fold (\<lambda>i st. if ak_net_idx (app_keys (mesh st) ! i) \<noteq> BT_MESH_KEY_UNUSED then app_key_delete i st else st) [0..<length (app_keys (mesh st))] st;
            st = upd_mesh (\<lambda>m. m\<lparr>sub := replicate (length (sub m)) zero_subnet\<rparr>) st
        in st\<lparr>labels := replicate (length (labels st)) (0, replicate 16 0)\<rparr>)"

definition bt_mesh_hb_pub_disable :: "node \<Rightarrow> node" where
  "bt_mesh_hb_pub_disable st = (if conf st then upd_cfg hb_pub_disable st else st)"

definition bt_mesh_setup :: "crypto_lib \<Rightarrow> 24 word \<Rightarrow> u16 \<Rightarrow> node \<Rightarrow> node" where
  "bt_mesh_setup C sq addr st =
     (let st = bt_mesh_comp_provision addr (upd_mesh (\<lambda>m. m\<lparr>seq := sq\<rparr>) st);
          st = (upd_mesh (\<lambda>m. m\<lparr>provisioned := True\<rparr>) st)\<lparr>suspended := False\<rparr>
      in if bt_mesh_beacon_get st = BT_MESH_BEACON_ENABLED then upd_mesh (bt_mesh_beacon_enable C) st else st)"

definition bt_mesh_provision ::
  "crypto_lib \<Rightarrow> 64 word \<Rightarrow> byte list \<Rightarrow> u16 \<Rightarrow> u8 \<Rightarrow> u32 \<Rightarrow> 24 word \<Rightarrow> u16 \<Rightarrow> byte list \<Rightarrow> node \<Rightarrow> mesh_err option \<times> node" where
  "bt_mesh_provision C now key nidx flags iv sq addr devkey st =
     (case bt_mesh_net_create C nidx flags key iv now (mesh st) of
        (Some e, m) \<Rightarrow> (Some e, st\<lparr>mesh := m\<rparr>)
      | (None, m) \<Rightarrow> (None, bt_mesh_setup C sq addr (st\<lparr>mesh := m\<lparr>dev_key := devkey\<rparr>\<rparr>)))"

definition bt_mesh_reset :: "crypto_lib \<Rightarrow> mesh_env \<Rightarrow> 64 word \<Rightarrow> node \<Rightarrow> node" where
  "bt_mesh_reset C E now st =
     (if \<not> provisioned (mesh st) then st
      else
        let st = bt_mesh_comp_unprovision st;
            st = st\<lparr>g_sub_list := replicate (length (g_sub_list st)) 0\<rparr>;
            st = upd_mesh (\<lambda>m. m\<lparr>iv_index := 0, seq := 0, iv_update := False, pending_update := False, valid := False, last_update := 0, ivu_initiator := False,
                                  ivu_timer := False\<rparr>) st;
            st = bt_mesh_cfg_reset st;
            st = upd_mesh (\<lambda>m. bt_mesh_tx_reset C (node_env E st) now (bt_mesh_rx_reset m)) st
        in (upd_mesh (\<lambda>m. m\<lparr>dev_key := replicate 16 0, rpl := replicate (length (rpl m)) zero_rpl, provisioned := False\<rparr>) st)\<lparr>suspended := False\<rparr>)"

definition node_reset :: cfg_handler where
  "node_reset C E now G p rx buf st =
     (let st = reply C E now p rx (2 + 0 + 4) (bt_mesh_model_msg_init 0x804a) st
      in if hw_reset G then st else bt_mesh_reset C E now st)"

section \<open>Suspension\<close>

definition model_suspend :: "mod_ptr \<Rightarrow> node \<Rightarrow> node" where
  "model_suspend q st =
     (case mod_pub (get_mod q st) of
        Some k \<Rightarrow> if pub_update (pubs st ! k) then upd_pub k (\<lambda>b. b\<lparr>pub_count := 0, pub_timer := None\<rparr>) st else st
      | None \<Rightarrow> st)"

definition model_resume :: "mod_ptr \<Rightarrow> node \<Rightarrow> node" where
  "model_resume q st =
     (case mod_pub (get_mod q st) of
        Some k \<Rightarrow>
          if pub_update (pubs st ! k) then
            let period_ms = bt_mesh_model_pub_period_get q st
            in if period_ms \<noteq> 0 then upd_pub k (\<lambda>b. b\<lparr>pub_timer := Some period_ms\<rparr>) st else st
          else st
      | None \<Rightarrow> st)"

text \<open>
  \<open>scan\<close> is the error of \<^verbatim>\<open>bt_mesh_scan_disable\<close> or \<^verbatim>\<open>bt_mesh_scan_enable\<close>, if any; \<open>rx\<close> and \<open>tx\<close> say whether the network layer receives and the transport layer sends.
  The results are those of the functions.
\<close>

definition bt_mesh_suspend :: "bool \<Rightarrow> bool \<Rightarrow> bool \<Rightarrow> int option \<Rightarrow> node \<Rightarrow> int \<times> node" where
  "bt_mesh_suspend force rx tx scan st =
     (if \<not> force \<and> rx then (- 2, st)
      else if \<not> force \<and> tx then (- 3, st)
      else if suspended st then (0, st)
      else case scan of
        Some e \<Rightarrow> (e, st)
      | None \<Rightarrow> (0, (bt_mesh_model_foreach model_suspend (bt_mesh_hb_pub_disable st))\<lparr>suspended := True\<rparr>))"

definition bt_mesh_resume :: "crypto_lib \<Rightarrow> int option \<Rightarrow> node \<Rightarrow> int \<times> node" where
  "bt_mesh_resume C scan st =
     (if \<not> suspended st then (0, st)
      else case scan of
        Some e \<Rightarrow> (e, st)
      | None \<Rightarrow>
          let st = (if bt_mesh_beacon_get st = BT_MESH_BEACON_ENABLED then upd_mesh (bt_mesh_beacon_enable C) st else st)
          in (0, (bt_mesh_model_foreach model_resume st)\<lparr>suspended := False\<rparr>))"

section \<open>The table of operations\<close>

definition cfg_srv_table :: "(u32 \<times> nat \<times> cfg_handler) list" where
  "cfg_srv_table =
     [(0x8008, 1, dev_comp_data_get), (0x00, 19, app_key_add), (0x01, 19, app_key_update), (0x8000, 3, app_key_del), (0x8001, 2, app_key_get),
      (0x8009, 0, beacon_get), (0x800a, 1, beacon_set), (0x800c, 0, default_ttl_get), (0x800d, 1, default_ttl_set),
      (0x8012, 0, gatt_proxy_get), (0x8013, 1, gatt_proxy_set), (0x8023, 0, net_transmit_get), (0x8024, 1, net_transmit_set),
      (0x8026, 0, relay_get), (0x8027, 2, relay_set), (0x8018, 4, mod_pub_get), (0x03, 11, mod_pub_set), (0x801a, 24, mod_pub_va_set),
      (0x801b, 6, mod_sub_add), (0x8020, 20, mod_sub_va_add), (0x801c, 6, mod_sub_del), (0x8021, 20, mod_sub_va_del),
      (0x801e, 6, mod_sub_overwrite), (0x8022, 20, mod_sub_va_overwrite), (0x801d, 4, mod_sub_del_all), (0x8029, 4, mod_sub_get), (0x802b, 6, mod_sub_get_vnd),
      (0x8040, 18, net_key_add), (0x8045, 18, net_key_update), (0x8041, 2, net_key_del), (0x8042, 0, net_key_get),
      (0x8046, 2, node_identity_get), (0x8047, 3, node_identity_set), (0x803d, 6, mod_app_bind), (0x803f, 6, mod_app_unbind),
      (0x804b, 4, mod_app_get), (0x804d, 6, mod_app_get), (0x8049, 0, node_reset), (0x800f, 0, friend_get), (0x8010, 1, friend_set), (0x802d, 2, lpn_timeout_get),
      (0x8015, 2, krp_get), (0x8016, 3, krp_set), (0x8038, 0, heartbeat_pub_get), (0x8039, 9, heartbeat_pub_set),
      (0x803a, 0, heartbeat_sub_get), (0x803b, 5, heartbeat_sub_set)]"

text \<open>The operations of the model; the number of a handler is its place in the table.\<close>

definition bt_mesh_cfg_srv_op :: "bt_mesh_model_op list" where
  "bt_mesh_cfg_srv_op = map (\<lambda>(i, oc, n, f). \<lparr>opcode = oc, min_len = n, op_func = i\<rparr>) (enumerate 0 cfg_srv_table)"

definition cfg_srv_handlers :: "crypto_lib \<Rightarrow> mesh_env \<Rightarrow> 64 word \<Rightarrow> genie_io \<Rightarrow> handlers" where
  "cfg_srv_handlers C E now G f p rx buf st = (if f < length cfg_srv_table then snd (snd (cfg_srv_table ! f)) C E now G p rx buf st else st)"

end
