(* ===== verification/Mesh_Cfg_Inv.thy ===== *)
theory Mesh_Cfg_Inv
  imports Mesh_Cfg Mesh_Wf
begin

text \<open>
  The keys of a node as an invariant: the tables of network and application keys and the keys that are bound to the models stay consistent under everything that
  happens to the node: messages to the configuration server, provisioning, the registration of keys, timers, and the events of the lower layers.
\<close>

section \<open>Models as an array\<close>

lemma mod_ptrs_iff: "(i, v, j) \<in> set (mod_ptrs st) \<longleftrightarrow> i < length (dev_elems st) \<and> j < length (elem_mods v (dev_elems st ! i))"
  by (cases v) (auto simp: mod_ptrs_def elem_mods_def image_iff intro!: bexI [of _ i])

lemma dev_elems_upd_elem: "dev_elems (upd_elem i f st) = (dev_elems st)[i := f (dev_elems st ! i)]"
  by (cases "dev_comp st") (simp_all add: dev_elems_def upd_elem_def)

lemma mod_ptrs_upd_mod [simp]: "set (mod_ptrs (upd_mod q f st)) = set (mod_ptrs st)"
proof -
  obtain i v j where q: "q = (i, v, j)" by (cases q)
  have "(a, w, b) \<in> set (mod_ptrs (upd_mod q f st)) \<longleftrightarrow> (a, w, b) \<in> set (mod_ptrs st)" for a w b
    by (cases "i = a") (auto simp: q upd_mod_def mod_ptrs_iff dev_elems_upd_elem elem_mods_def)
  then show ?thesis by auto
qed

lemma get_upd_mod: "p \<in> set (mod_ptrs st) \<Longrightarrow> get_mod p (upd_mod q f st) = (if p = q then f (get_mod p st) else get_mod p st)"
  by (cases p; cases q; cases "fst p = fst q") (auto simp: upd_mod_def get_mod_def mod_ptrs_iff dev_elems_upd_elem elem_mods_def nth_list_update)

lemma upd_mod_fields [simp]:
  "mesh (upd_mod q f st) = mesh st" "conf (upd_mod q f st) = conf st" "cfg_srv (upd_mod q f st) = cfg_srv st" "g_sub_list (upd_mod q f st) = g_sub_list st"
  "pubs (upd_mod q f st) = pubs st" "dev_primary_addr (upd_mod q f st) = dev_primary_addr st" "labels (upd_mod q f st) = labels st"
  by (cases q, simp add: upd_mod_def upd_elem_def)+

text \<open>Two states with the same models and, for every model, the same keys.\<close>

definition same_keys :: "node \<Rightarrow> node \<Rightarrow> bool" where
  "same_keys st st' \<longleftrightarrow> set (mod_ptrs st') = set (mod_ptrs st) \<and> (\<forall>q\<in>set (mod_ptrs st). mod_keys (get_mod q st') = mod_keys (get_mod q st))"

lemma mod_ptrs_cong: "dev_comp st' = dev_comp st \<Longrightarrow> mod_ptrs st' = mod_ptrs st"
  by (simp add: mod_ptrs_def dev_elems_def)

lemma get_mod_cong: "dev_comp st' = dev_comp st \<Longrightarrow> get_mod q st' = get_mod q st"
  by (simp add: get_mod_def dev_elems_def)

lemma same_keys_comp: "dev_comp st' = dev_comp st \<Longrightarrow> same_keys st st'"
  by (simp add: same_keys_def mod_ptrs_def get_mod_def dev_elems_def)

lemma same_keys_trans: "same_keys a b \<Longrightarrow> same_keys b c \<Longrightarrow> same_keys a c"
  by (simp add: same_keys_def)

lemma same_keys_upd_mod: "(\<And>x. mod_keys (f x) = mod_keys x) \<Longrightarrow> same_keys st (upd_mod q f st)"
  by (auto simp: same_keys_def get_upd_mod)

lemma same_keys_upd_elem:
  assumes "\<And>e. el_models (f e) = el_models e" and "\<And>e. el_vnd_models (f e) = el_vnd_models e"
  shows "same_keys st (upd_elem i f st)"
proof -
  have m: "elem_mods v (dev_elems (upd_elem i f st) ! a) = elem_mods v (dev_elems st ! a)" for a v
    by (cases "i < length (dev_elems st)") (auto simp: dev_elems_upd_elem nth_list_update elem_mods_def assms list_update_beyond)
  have "(a, v, b) \<in> set (mod_ptrs (upd_elem i f st)) \<longleftrightarrow> (a, v, b) \<in> set (mod_ptrs st)" for a v b
    unfolding mod_ptrs_iff m by (simp add: dev_elems_upd_elem)
  then have "set (mod_ptrs (upd_elem i f st)) = set (mod_ptrs st)" by auto
  then show ?thesis by (auto simp: same_keys_def get_mod_def m)
qed

section \<open>The invariant\<close>

text \<open>A table of application keys has the key with index \<open>k\<close>.\<close>

definition used_key :: "(u16 \<times> u16) list \<Rightarrow> u16 \<Rightarrow> bool" where
  "used_key K k \<longleftrightarrow> (\<exists>x\<in>set K. fst x \<noteq> BT_MESH_KEY_UNUSED \<and> snd x = k)"

lemma app_key_is_valid_used: "app_key_is_valid k st \<longleftrightarrow> used_key (fst (key_table (mesh st))) k"
  by (auto simp: app_key_is_valid_def used_key_def key_table_def)

text \<open>
  Every used application key is in the slot of its own index and belongs to a network key of the node, and without a network there are none (which a reset restores at its end, as \<open>w\<close> says).
  Every key that is bound to a model is the device key or in the table, and is bound once.
\<close>

fun keys_wf :: "bool \<Rightarrow> (u16 \<times> u16) list \<times> u16 list \<times> bool \<Rightarrow> bool" where
  "keys_wf w (K, N, v) \<longleftrightarrow> length K \<le> 0x1000 \<and>
     (\<forall>i<length K. fst (K ! i) \<noteq> BT_MESH_KEY_UNUSED \<longrightarrow> unat (snd (K ! i)) = i \<and> fst (K ! i) \<in> set N) \<and>
     (w \<longrightarrow> v \<or> (\<forall>x\<in>set K. fst x = BT_MESH_KEY_UNUSED))"

definition bound_ok :: "(u16 \<times> u16) list \<Rightarrow> u16 list \<Rightarrow> bool" where
  "bound_ok K ks \<longleftrightarrow> (\<forall>k\<in>set ks. k = BT_MESH_KEY_UNUSED \<or> k = BT_MESH_KEY_DEV \<or> used_key K k) \<and> distinct (filter (\<lambda>k. k \<noteq> BT_MESH_KEY_UNUSED) ks)"

definition node_inv :: "bool \<Rightarrow> nat \<Rightarrow> node \<Rightarrow> bool" where
  "node_inv w m st \<longleftrightarrow> mesh_wf m (mesh st) \<and> conf st \<and> keys_wf w (key_table (mesh st)) \<and>
     (\<forall>q\<in>set (mod_ptrs st). bound_ok (fst (key_table (mesh st))) (mod_keys (get_mod q st)))"

named_theorems node_inv_intros

lemma node_inv_frame:
  assumes "node_inv w m st" and "mesh_ok m (mesh st) (mesh st')" and "conf st' = conf st" and "same_keys st st'"
  shows "node_inv w m st'"
  using assms by (auto simp: node_inv_def mesh_ok_def same_keys_def)

lemma node_inv_mesh [node_inv_intros]: "node_inv w m st \<Longrightarrow> mesh_ok m (mesh st) (f (mesh st)) \<Longrightarrow> node_inv w m (upd_mesh f st)"
  by (erule node_inv_frame) (auto simp: upd_mesh_def intro: same_keys_comp)

lemma node_inv_set_mesh: "node_inv w m st \<Longrightarrow> mesh_ok m (mesh st) ms \<Longrightarrow> node_inv w m (st\<lparr>mesh := ms\<rparr>)"
  using node_inv_mesh [of w m st "\<lambda>_. ms"] by (simp add: upd_mesh_def)

lemma node_inv_upd_cfg [node_inv_intros]: "node_inv w m st \<Longrightarrow> node_inv w m (upd_cfg f st)"
  by (erule node_inv_frame) (auto simp: upd_cfg_def intro: same_keys_comp)

lemma node_inv_upd_pub [node_inv_intros]: "node_inv w m st \<Longrightarrow> node_inv w m (upd_pub k f st)"
  by (erule node_inv_frame) (auto simp: upd_pub_def intro: same_keys_comp)

lemma node_inv_fields [node_inv_intros]:
  "node_inv w m st \<Longrightarrow> node_inv w m (st\<lparr>labels := l\<rparr>)" "node_inv w m st \<Longrightarrow> node_inv w m (st\<lparr>g_sub_list := g\<rparr>)" "node_inv w m st \<Longrightarrow> node_inv w m (st\<lparr>calls := c\<rparr>)"
  "node_inv w m st \<Longrightarrow> node_inv w m (st\<lparr>dev_primary_addr := a\<rparr>)" "node_inv w m st \<Longrightarrow> node_inv w m (st\<lparr>suspended := s\<rparr>)"
  by (erule node_inv_frame; auto intro: same_keys_comp)+

lemma node_inv_upd_mod [node_inv_intros]: "node_inv w m st \<Longrightarrow> (\<And>x. mod_keys (f x) = mod_keys x) \<Longrightarrow> node_inv w m (upd_mod q f st)"
  by (erule node_inv_frame) (auto intro: same_keys_upd_mod)

lemma node_inv_upd_elem [node_inv_intros]:
  "node_inv w m st \<Longrightarrow> (\<And>e. el_models (f e) = el_models e) \<Longrightarrow> (\<And>e. el_vnd_models (f e) = el_vnd_models e) \<Longrightarrow> node_inv w m (upd_elem i f st)"
  by (erule node_inv_frame) (auto simp: upd_elem_def intro: same_keys_upd_elem [unfolded upd_elem_def])

lemma node_inv_fold: "node_inv w m st \<Longrightarrow> (\<And>x s. node_inv w m s \<Longrightarrow> node_inv w m (f x s)) \<Longrightarrow> node_inv w m (fold f xs st)"
  by (induction xs arbitrary: st) auto

lemma node_inv_if [node_inv_intros]: "(b \<Longrightarrow> node_inv w m x) \<Longrightarrow> (\<not> b \<Longrightarrow> node_inv w m y) \<Longrightarrow> node_inv w m (if b then x else y)"
  by simp

section \<open>Sending\<close>

lemma subnet_get_bound: "bt_mesh_subnet_get i st = Some s \<Longrightarrow> sub st \<noteq> [] \<Longrightarrow> s < length (sub st)"
  by (auto simp: bt_mesh_subnet_get_def split: if_splits dest: find_index_Some)

lemma node_inv_model_send:
  assumes "node_inv w m st" and "tx_sub tx < length (sub (mesh st))"
  shows "node_inv w m (snd (model_send C E now mo tx ib msg room cb st))"
proof -
  have "mesh_ok m (mesh st) ms" if "bt_mesh_trans_send C (node_env E st) now tx msg room cb (mesh st) = (e, ms)" for e ms
    using mesh_ok_trans_send [OF assms(2), of m C "node_env E st" now msg room cb] that by simp
  then show ?thesis using assms(1) by (auto simp: model_send_def split: prod.splits intro!: node_inv_set_mesh)
qed

lemma node_inv_reply [node_inv_intros]:
  assumes "node_inv w m st"
  shows "node_inv w m (reply C E now p rx n msg st)"
proof -
  have "sub (mesh st) \<noteq> []" using assms by (simp add: node_inv_def mesh_wf_def net_wf_def)
  then show ?thesis
    using assms by (auto simp: reply_def bt_mesh_model_send_def tx_of_def split: option.splits intro!: node_inv_model_send dest: subnet_get_bound)
qed

section \<open>Binding\<close>

lemma node_inv_keys:
  assumes "node_inv w m st" and "q \<in> set (mod_ptrs st) \<Longrightarrow> bound_ok (fst (key_table (mesh st))) (mod_keys (f (get_mod q st)))"
  shows "node_inv w m (upd_mod q f st)"
  using assms by (auto simp: node_inv_def get_upd_mod)

lemma bound_ok_clear: "bound_ok K ks \<Longrightarrow> bound_ok K (ks[i := BT_MESH_KEY_UNUSED])"
proof (cases "i < length ks")
  case True
  assume "bound_ok K ks"
  then have "bound_ok K (take i ks @ ks ! i # drop (Suc i) ks)" by (simp add: id_take_nth_drop [OF True, symmetric])
  then show ?thesis unfolding upd_conv_take_nth_drop [OF True] bound_ok_def by (auto split: if_splits)
qed (simp add: list_update_beyond)

lemma bound_ok_bind:
  assumes "bound_ok K ks" and "used_key K k" and "k \<notin> set ks"
  shows "bound_ok K (ks[i := k])"
proof (cases "i < length ks")
  case True
  have "bound_ok K (take i ks @ ks ! i # drop (Suc i) ks)" using assms(1) by (simp add: id_take_nth_drop [OF True, symmetric])
  then show ?thesis
    using assms(2,3) in_set_takeD [of k i ks] in_set_dropD [of k "Suc i" ks] unfolding upd_conv_take_nth_drop [OF True] bound_ok_def by (auto split: if_splits)
qed (simp add: assms list_update_beyond)

lemma node_inv_mod_bind [node_inv_intros]: "node_inv w m st \<Longrightarrow> node_inv w m (snd (mod_bind q k st))"
  by (auto simp: mod_bind_def app_key_is_valid_used split: option.split intro!: node_inv_keys bound_ok_bind) (auto simp: node_inv_def)

text \<open>The parameters of publication are not part of the models.\<close>

lemma pub_set_frame: "\<exists>b. snd (mod_pub_set_param q addr app_idx cred ttl period rt st) = st\<lparr>pubs := b\<rparr>"
proof -
  have "\<exists>b. st = st\<lparr>pubs := b\<rparr>" by (rule exI [of _ "pubs st"]) simp
  then show ?thesis by (auto simp: mod_pub_set_param_def upd_pub_def Let_def split: option.split)
qed

lemma node_inv_pubs: "node_inv w m st \<Longrightarrow> node_inv w m (st\<lparr>pubs := b\<rparr>)"
  by (erule node_inv_frame) (auto intro: same_keys_comp)

lemma node_inv_pub_set [node_inv_intros]: "node_inv w m st \<Longrightarrow> node_inv w m (snd (mod_pub_set_param q addr app_idx cred ttl period rt st))"
  using pub_set_frame [of q addr app_idx cred ttl period rt st] node_inv_pubs by auto

lemma mod_unbind_frame:
  "\<exists>b. snd (mod_unbind q k st) =
     (if app_key_is_valid k st
      then (case find_index (\<lambda>x. x = k) (mod_keys (get_mod q st)) of
              Some i \<Rightarrow> upd_mod q (\<lambda>x. x\<lparr>mod_keys := (mod_keys x)[i := BT_MESH_KEY_UNUSED]\<rparr>) st
            | None \<Rightarrow> st)
      else st)\<lparr>pubs := b\<rparr>"
proof -
  have id: "\<exists>b. x = x\<lparr>pubs := b\<rparr>" for x :: node by (rule exI [of _ "pubs x"]) simp
  show ?thesis
    using pub_set_frame id by (auto simp: mod_unbind_def Let_def split: option.split)
qed

lemma node_inv_mod_unbind [node_inv_intros]: "node_inv w m st \<Longrightarrow> node_inv w m (snd (mod_unbind q k st))"
  using mod_unbind_frame [of q k st]
  by (auto intro!: node_inv_pubs node_inv_keys bound_ok_clear split: option.split) (auto simp: node_inv_def)

lemma mod_unbind_state: "mesh (snd (mod_unbind q k st)) = mesh st" "set (mod_ptrs (snd (mod_unbind q k st))) = set (mod_ptrs st)"
proof -
  have pt: "mod_ptrs (x\<lparr>pubs := b\<rparr>) = mod_ptrs x" for x b by (rule mod_ptrs_cong) simp
  show "mesh (snd (mod_unbind q k st)) = mesh st" "set (mod_ptrs (snd (mod_unbind q k st))) = set (mod_ptrs st)"
    using mod_unbind_frame [of q k st] by (cases "find_index (\<lambda>x. x = k) (mod_keys (get_mod q st))"; auto simp: pt split: if_splits)+
qed

text \<open>A key that is taken from a model is no longer among its keys, and the other models keep theirs.\<close>

lemma mod_unbind_effect:
  assumes "node_inv w m st" and "app_key_is_valid k st" and "k \<noteq> BT_MESH_KEY_UNUSED" and "p \<in> set (mod_ptrs st)"
  shows "set (mod_keys (get_mod p (snd (mod_unbind q k st)))) \<subseteq> (set (mod_keys (get_mod p st)) \<union> {BT_MESH_KEY_UNUSED}) - (if p = q then {k} else {})"
proof -
  let ?ks = "mod_keys (get_mod q st)"
  let ?st = "case find_index (\<lambda>x. x = k) ?ks of
              Some i \<Rightarrow> upd_mod q (\<lambda>x. x\<lparr>mod_keys := (mod_keys x)[i := BT_MESH_KEY_UNUSED]\<rparr>) st
            | None \<Rightarrow> st"
  obtain b where b: "snd (mod_unbind q k st) = ?st\<lparr>pubs := b\<rparr>" using mod_unbind_frame [of q k st] assms(2) by auto
  have g: "get_mod p (x\<lparr>pubs := b\<rparr>) = get_mod p x" for x by (rule get_mod_cong) simp
  show "set (mod_keys (get_mod p (snd (mod_unbind q k st)))) \<subseteq> (set (mod_keys (get_mod p st)) \<union> {BT_MESH_KEY_UNUSED}) - (if p = q then {k} else {})"
  proof (cases "find_index (\<lambda>x. x = k) ?ks")
    case None
    then have "k \<notin> set ?ks" using find_index_ex [of ?ks "\<lambda>x. x = k"] by auto
    then show ?thesis unfolding b g using None by auto
  next
    case (Some i)
    have i: "i < length ?ks" "?ks ! i = k" using find_index_Some [OF Some] by auto
    have "k \<notin> set (?ks[i := BT_MESH_KEY_UNUSED])" if "p = q"
    proof -
      have "bound_ok (fst (key_table (mesh st))) ?ks" using assms(1,4) that by (auto simp: node_inv_def)
      then have "distinct (filter (\<lambda>k. k \<noteq> BT_MESH_KEY_UNUSED) (take i ?ks @ ?ks ! i # drop (Suc i) ?ks))"
        by (simp add: bound_ok_def id_take_nth_drop [OF i(1), symmetric])
      then show ?thesis unfolding upd_conv_take_nth_drop [OF i(1)] using i assms(3) by (auto split: if_splits)
    qed
    moreover have "set (?ks[i := BT_MESH_KEY_UNUSED]) \<subseteq> insert BT_MESH_KEY_UNUSED (set ?ks)" by (rule set_update_subset_insert)
    ultimately show ?thesis unfolding b g using Some assms(4) by (auto simp: get_upd_mod)
  qed
qed

section \<open>The table of application keys\<close>

text \<open>The table after a change of slot \<open>i\<close>.\<close>

lemma key_table_upd_key:
  "key_table (mesh (upd_key i f st)) =
     ((fst (key_table (mesh st)))[i := (ak_net_idx (f (app_keys (mesh st) ! i)), ak_app_idx (f (app_keys (mesh st) ! i)))], snd (key_table (mesh st)))"
  by (simp add: key_table_def upd_key_def upd_mesh_def map_update)

lemma mesh_wf_upd_key: "mesh_wf m (mesh (upd_key i f st)) = mesh_wf m (mesh st)"
  by (simp add: upd_key_def upd_mesh_def mesh_wf_def net_wf_def)

lemma upd_key_frame [simp]: "dev_comp (upd_key i f st) = dev_comp st" "conf (upd_key i f st) = conf st" "set (mod_ptrs (upd_key i f st)) = set (mod_ptrs st)"
  "get_mod q (upd_key i f st) = get_mod q st" "sub (mesh (upd_key i f st)) = sub (mesh st)" "length (app_keys (mesh (upd_key i f st))) = length (app_keys (mesh st))"
proof -
  show c: "dev_comp (upd_key i f st) = dev_comp st" by (simp add: upd_key_def upd_mesh_def)
  show "get_mod q (upd_key i f st) = get_mod q st" by (rule get_mod_cong [OF c])
  show "set (mod_ptrs (upd_key i f st)) = set (mod_ptrs st)" by (simp add: mod_ptrs_cong [OF c])
qed (simp_all add: upd_key_def upd_mesh_def)

lemma node_inv_upd_key:
  assumes "node_inv w m st"
    and "keys_wf w ((fst (key_table (mesh st)))[i := (ak_net_idx (f (app_keys (mesh st) ! i)), ak_app_idx (f (app_keys (mesh st) ! i)))], snd (key_table (mesh st)))"
    and "\<And>q. q \<in> set (mod_ptrs st) \<Longrightarrow>
      bound_ok ((fst (key_table (mesh st)))[i := (ak_net_idx (f (app_keys (mesh st) ! i)), ak_app_idx (f (app_keys (mesh st) ! i)))]) (mod_keys (get_mod q st))"
  shows "node_inv w m (upd_key i f st)"
  using assms by (auto simp: node_inv_def mesh_wf_upd_key key_table_upd_key)

text \<open>A change that keeps the indices of the slot.\<close>

lemma node_inv_upd_key_same:
  assumes "node_inv w m st" and "i < length (app_keys (mesh st))"
    and "ak_net_idx (f (app_keys (mesh st) ! i)) = ak_net_idx (app_keys (mesh st) ! i)" and "ak_app_idx (f (app_keys (mesh st) ! i)) = ak_app_idx (app_keys (mesh st) ! i)"
  shows "node_inv w m (upd_key i f st)"
proof -
  have "(fst (key_table (mesh st)))[i := (ak_net_idx (app_keys (mesh st) ! i), ak_app_idx (app_keys (mesh st) ! i))] = fst (key_table (mesh st))"
    using assms(2) by (auto simp: key_table_def nth_list_update intro!: nth_equalityI)
  then show ?thesis using assms by (intro node_inv_upd_key) (auto simp: node_inv_def)
qed

text \<open>A new key in a free slot.\<close>

lemma key_table_add:
  assumes "keys_wf w (K, N, v)" and "i < length K" and "fst (K ! i) = BT_MESH_KEY_UNUSED" and "unat a = i" and "n = BT_MESH_KEY_UNUSED \<or> n \<in> set N" and v
  shows "keys_wf w (K[i := (n, a)], N, v)" and "bound_ok K ks \<Longrightarrow> bound_ok (K[i := (n, a)]) ks"
proof -
  show "keys_wf w (K[i := (n, a)], N, v)" using assms by (auto simp: nth_list_update)
  have "used_key (K[i := (n, a)]) k" if u: "used_key K k" for k
  proof -
    obtain x where x: "x \<in> set K" "fst x \<noteq> BT_MESH_KEY_UNUSED" "snd x = k" using u unfolding used_key_def by blast
    obtain j where j: "j < length K" "K ! j = x" using x(1) unfolding in_set_conv_nth by blast
    have "j \<noteq> i" using assms(3) j x(2) by blast
    then have "K[i := (n, a)] ! j = x" using j(2) by simp
    then have "x \<in> set (K[i := (n, a)])" using j(1) nth_mem [of j "K[i := (n, a)]"] by simp
    then show ?thesis using x unfolding used_key_def by blast
  qed
  then show "bound_ok K ks \<Longrightarrow> bound_ok (K[i := (n, a)]) ks" by (auto simp: bound_ok_def)
qed

lemma app_key_idx_Some:
  "app_key_idx a st = Some i \<Longrightarrow> i < length (app_keys (mesh st)) \<and> ak_net_idx (app_keys (mesh st) ! i) \<noteq> BT_MESH_KEY_UNUSED \<and> ak_app_idx (app_keys (mesh st) ! i) = a"
  unfolding app_key_idx_def by (drule find_index_Some) auto

lemma app_key_idx_None:
  assumes "app_key_idx a st = None" and "i < length (app_keys (mesh st))" and "ak_net_idx (app_keys (mesh st) ! i) \<noteq> BT_MESH_KEY_UNUSED"
  shows "ak_app_idx (app_keys (mesh st) ! i) \<noteq> a"
  using assms(1,3) find_index_ex [OF bexI [OF _ nth_mem [OF assms(2)]], of "\<lambda>k. ak_net_idx k \<noteq> BT_MESH_KEY_UNUSED \<and> ak_app_idx k = a"]
  by (auto simp: app_key_idx_def)

lemma node_inv_slot:
  assumes "node_inv w m st" and "i < length (app_keys (mesh st))" and "ak_net_idx (app_keys (mesh st) ! i) \<noteq> BT_MESH_KEY_UNUSED"
  shows "unat (ak_app_idx (app_keys (mesh st) ! i)) = i" and "ak_net_idx (app_keys (mesh st) ! i) \<in> set (map net_idx (sub (mesh st)))"
proof -
  have "keys_wf w (key_table (mesh st))" using assms(1) by (simp add: node_inv_def)
  then show "unat (ak_app_idx (app_keys (mesh st) ! i)) = i" "ak_net_idx (app_keys (mesh st) ! i) \<in> set (map net_idx (sub (mesh st)))"
    using assms(2,3) by (auto simp: key_table_def)
qed

lemma node_inv_app_key_add:
  assumes "node_inv w m st" and "valid (mesh st)" and "app_key_idx a st = None" and "app_key_alloc a st = Some i" and "bt_mesh_subnet_get n (mesh st) = Some s"
    and "\<And>k. ak_net_idx (f k) = n" and "\<And>k. ak_app_idx (f k) = a"
  shows "node_inv w m (upd_key i f st)"
proof -
  let ?k = "app_keys (mesh st)"
  have i: "i = unat a" "i < length ?k" using assms(4) by (auto simp: app_key_alloc_def split: if_splits)
  have "ak_net_idx (?k ! i) = BT_MESH_KEY_UNUSED"
  proof (rule ccontr)
    assume u: "ak_net_idx (?k ! i) \<noteq> BT_MESH_KEY_UNUSED"
    then have "unat (ak_app_idx (?k ! i)) = unat a" using node_inv_slot(1) [OF assms(1) i(2)] i by simp
    then have "ak_app_idx (?k ! i) = a" by (simp add: word_unat_eq_iff)
    then show False using app_key_idx_None [OF assms(3) i(2) u] by simp
  qed
  moreover have "n = BT_MESH_KEY_UNUSED \<or> n \<in> set (map net_idx (sub (mesh st)))"
    using assms(5) by (auto simp: bt_mesh_subnet_get_def split: if_splits dest: find_index_Some)
  ultimately have free: "ak_net_idx (?k ! i) = BT_MESH_KEY_UNUSED" "n = BT_MESH_KEY_UNUSED \<or> n \<in> set (map net_idx (sub (mesh st)))" by simp_all
  obtain K where K: "K = map (\<lambda>k. (ak_net_idx k, ak_app_idx k)) ?k" by simp
  have kt: "key_table (mesh st) = (K, map net_idx (sub (mesh st)), True)" using assms(2) by (simp add: K key_table_def)
  have l: "i < length K" "fst (K ! i) = BT_MESH_KEY_UNUSED" using i(2) free(1) by (simp_all add: K)
  have "keys_wf w (K, map net_idx (sub (mesh st)), True)" using assms(1) unfolding node_inv_def kt by blast
  note add = key_table_add [OF this l i(1) [symmetric] free(2) TrueI]
  show ?thesis
  proof (rule node_inv_upd_key [OF assms(1)])
    fix q assume "q \<in> set (mod_ptrs st)"
    then have "bound_ok K (mod_keys (get_mod q st))" using assms(1) unfolding node_inv_def kt by simp
    then show "bound_ok ((fst (key_table (mesh st)))[i := (ak_net_idx (f (?k ! i)), ak_app_idx (f (?k ! i)))]) (mod_keys (get_mod q st))"
      unfolding kt fst_conv assms(6,7) by (rule add(2))
  qed (simp only: kt fst_conv snd_conv assms(6,7) add(1))
qed

lemma node_inv_app_key_set:
  assumes "node_inv w m st" and "valid (mesh st)"
  shows "node_inv w m (snd (app_key_set C n a val upd st))"
proof (cases "bt_mesh_subnet_get n (mesh st)")
  case (Some s)
  show ?thesis
  proof (cases "app_key_slot n a val upd s st")
    case (Inr i)
    have cases: "upd \<and> app_key_idx a st = Some i \<and> ak_net_idx (app_keys (mesh st) ! i) = n \<or> \<not> upd \<and> app_key_idx a st = None \<and> app_key_alloc a st = Some i"
      using Inr by (auto simp: app_key_slot_def Let_def split: option.splits if_splits)
    show ?thesis
    proof (cases upd)
      case True
      then have u: "app_key_idx a st = Some i" "ak_net_idx (app_keys (mesh st) ! i) = n" using cases by auto
      have "node_inv w m (upd_key i (\<lambda>k. k\<lparr>ak_updated := False\<rparr>) st)"
        using app_key_idx_Some [OF u(1)] by (intro node_inv_upd_key_same assms) auto
      moreover have "node_inv w m (upd_key i (\<lambda>k. k\<lparr>ak_updated := True, ak_key1 := (aid, val), ak_net_idx := n, ak_app_idx := a\<rparr>) st)" for aid
        using app_key_idx_Some [OF u(1)] u(2) by (intro node_inv_upd_key_same assms) auto
      ultimately show ?thesis using Some Inr True by (simp add: app_key_set_def split: sum.split)
    next
      case False
      then have "node_inv w m (upd_key i (\<lambda>k. k\<lparr>ak_key0 := (aid, val), ak_net_idx := n, ak_app_idx := a\<rparr>) st)" for aid
        using cases by (intro node_inv_app_key_add [OF assms _ _ Some]) auto
      then show ?thesis using Some Inr False assms by (simp add: app_key_set_def split: sum.split)
    qed
  qed (use Some assms in \<open>simp add: app_key_set_def\<close>)
qed (use assms in \<open>simp add: app_key_set_def\<close>)

text \<open>The loop that takes a key from every model.\<close>

lemma unbind_loop:
  assumes "node_inv w m st" and "app_key_is_valid k st" and "k \<noteq> BT_MESH_KEY_UNUSED"
  shows "node_inv w m (fold (\<lambda>q st. snd (mod_unbind q k st)) qs st) \<and> mesh (fold (\<lambda>q st. snd (mod_unbind q k st)) qs st) = mesh st \<and>
    set (mod_ptrs (fold (\<lambda>q st. snd (mod_unbind q k st)) qs st)) = set (mod_ptrs st) \<and>
    (\<forall>p\<in>set (mod_ptrs st). p \<in> set qs \<or> k \<notin> set (mod_keys (get_mod p st)) \<longrightarrow>
       k \<notin> set (mod_keys (get_mod p (fold (\<lambda>q st. snd (mod_unbind q k st)) qs st))))"
  using assms
proof (induction qs arbitrary: st)
  case (Cons q qs)
  let ?st = "snd (mod_unbind q k st)"
  have v: "app_key_is_valid k ?st" using Cons.prems(2) by (simp add: app_key_is_valid_def mod_unbind_state)
  note IH = Cons.IH [OF node_inv_mod_unbind [OF Cons.prems(1), of q k] v Cons.prems(3)]
  have "k \<notin> set (mod_keys (get_mod p ?st))" if "p \<in> set (mod_ptrs st)" "p = q \<or> k \<notin> set (mod_keys (get_mod p st))" for p
    using mod_unbind_effect [OF Cons.prems that(1), of q] that(2) Cons.prems(3) by auto
  then show ?case using IH by (auto simp: mod_unbind_state)
qed simp

lemma key_table_del:
  assumes "keys_wf w (K, N, v)" and "i < length K" and "K ! i = (n, a)"
  shows "keys_wf w (K[i := (BT_MESH_KEY_UNUSED, a)], N, v)" and "bound_ok K ks \<Longrightarrow> a \<notin> set ks \<Longrightarrow> bound_ok (K[i := (BT_MESH_KEY_UNUSED, a)]) ks"
proof -
  show "keys_wf w (K[i := (BT_MESH_KEY_UNUSED, a)], N, v)"
    using assms set_update_subset_insert [of K i "(BT_MESH_KEY_UNUSED, a)"] by (auto simp: nth_list_update)
  have "used_key (K[i := (BT_MESH_KEY_UNUSED, a)]) k" if u: "used_key K k" "k \<noteq> a" for k
  proof -
    obtain x where x: "x \<in> set K" "fst x \<noteq> BT_MESH_KEY_UNUSED" "snd x = k" using u unfolding used_key_def by blast
    obtain j where j: "j < length K" "K ! j = x" using x(1) unfolding in_set_conv_nth by blast
    have "j \<noteq> i" using assms(3) j x(3) u(2) by auto
    then have "x \<in> set (K[i := (BT_MESH_KEY_UNUSED, a)])" using j nth_mem [of j "K[i := (BT_MESH_KEY_UNUSED, a)]"] by simp
    then show ?thesis using x unfolding used_key_def by blast
  qed
  then show "bound_ok K ks \<Longrightarrow> a \<notin> set ks \<Longrightarrow> bound_ok (K[i := (BT_MESH_KEY_UNUSED, a)]) ks" by (auto simp: bound_ok_def)
qed

lemma app_key_delete_ok:
  assumes inv: "node_inv w m st" and i: "i < length (app_keys (mesh st))" and u: "ak_net_idx (app_keys (mesh st) ! i) \<noteq> BT_MESH_KEY_UNUSED"
  shows "node_inv w m (app_key_delete i st)"
    and "app_keys (mesh (app_key_delete i st)) =
      (app_keys (mesh st))[i := (app_keys (mesh st) ! i)\<lparr>ak_net_idx := BT_MESH_KEY_UNUSED, ak_key0 := (0, replicate 16 0), ak_key1 := (0, replicate 16 0)\<rparr>]"
    and "sub (mesh (app_key_delete i st)) = sub (mesh st)"
proof -
  let ?k = "app_keys (mesh st)"
  define a where "a = ak_app_idx (?k ! i)"
  define st1 where "st1 = bt_mesh_model_foreach (\<lambda>q st. snd (mod_unbind q a st)) st"
  define f where "f = (\<lambda>k. k\<lparr>ak_net_idx := BT_MESH_KEY_UNUSED, ak_key0 := (0, replicate 16 0), ak_key1 := (0, replicate 16 0)\<rparr> :: bt_mesh_app_key)"
  have eq: "app_key_delete i st = upd_key i f st1" by (simp add: app_key_delete_def a_def st1_def f_def)
  have kw: "keys_wf w (key_table (mesh st))" using inv by (simp add: node_inv_def)
  have "unat a = i" unfolding a_def by (rule node_inv_slot(1) [OF inv i u])
  moreover have "i < 0x1000" using kw i by (simp add: key_table_def)
  ultimately have a: "a \<noteq> BT_MESH_KEY_UNUSED" by auto
  have "app_key_is_valid a st" unfolding app_key_is_valid_def using u by (intro bexI [OF _ nth_mem [OF i]]) (simp add: a_def)
  note l = unbind_loop [OF inv this a, of "mod_ptrs st", folded bt_mesh_model_foreach_def, folded st1_def]
  have m1: "mesh st1 = mesh st" using l by blast
  show "sub (mesh (app_key_delete i st)) = sub (mesh st)" by (simp add: eq m1)
  show "app_keys (mesh (app_key_delete i st)) = ?k[i := (?k ! i)\<lparr>ak_net_idx := BT_MESH_KEY_UNUSED, ak_key0 := (0, replicate 16 0), ak_key1 := (0, replicate 16 0)\<rparr>]"
    by (simp add: eq upd_key_def upd_mesh_def m1 f_def)
  obtain K N v where kt: "key_table (mesh st) = (K, N, v)" by (cases "key_table (mesh st)")
  have K: "i < length K" "K ! i = (ak_net_idx (?k ! i), a)" using kt i by (auto simp: key_table_def a_def)
  note del = key_table_del [OF kw [unfolded kt] K]
  show "node_inv w m (app_key_delete i st)"
    unfolding eq
  proof (rule node_inv_upd_key)
    show "node_inv w m st1" using l by blast
    show "keys_wf w ((fst (key_table (mesh st1)))[i := (ak_net_idx (f (app_keys (mesh st1) ! i)), ak_app_idx (f (app_keys (mesh st1) ! i)))], snd (key_table (mesh st1)))"
      using del(1) by (simp add: m1 kt f_def a_def del: keys_wf.simps)
    fix q assume q: "q \<in> set (mod_ptrs st1)"
    then have "bound_ok K (mod_keys (get_mod q st1))" using l by (auto simp: node_inv_def kt)
    moreover have "a \<notin> set (mod_keys (get_mod q st1))" using l q by auto
    ultimately show "bound_ok ((fst (key_table (mesh st1)))[i := (ak_net_idx (f (app_keys (mesh st1) ! i)), ak_app_idx (f (app_keys (mesh st1) ! i)))]) (mod_keys (get_mod q st1))"
      using del(2) by (simp add: m1 kt f_def a_def)
  qed
qed

text \<open>The loops that delete the keys of a network, or all keys.\<close>

lemma delete_loop:
  assumes "node_inv w m st" and "\<not> P BT_MESH_KEY_UNUSED" and "n \<le> length (app_keys (mesh st))"
  defines "f \<equiv> \<lambda>i st. if P (ak_net_idx (app_keys (mesh st) ! i)) then app_key_delete i st else st"
  shows "node_inv w m (fold f [0..<n] st) \<and> sub (mesh (fold f [0..<n] st)) = sub (mesh st) \<and> length (app_keys (mesh (fold f [0..<n] st))) = length (app_keys (mesh st)) \<and>
    (\<forall>i<n. \<not> P (ak_net_idx (app_keys (mesh (fold f [0..<n] st)) ! i)))"
  using assms(3)
proof (induction n)
  case 0
  then show ?case using assms(1) by simp
next
  case (Suc n)
  let ?st = "fold f [0..<n] st"
  have IH: "node_inv w m ?st" "sub (mesh ?st) = sub (mesh st)" "length (app_keys (mesh ?st)) = length (app_keys (mesh st))" "\<forall>i<n. \<not> P (ak_net_idx (app_keys (mesh ?st) ! i))"
    using Suc by auto
  show ?case
  proof (cases "P (ak_net_idx (app_keys (mesh ?st) ! n))")
    case True
    then have u: "ak_net_idx (app_keys (mesh ?st) ! n) \<noteq> BT_MESH_KEY_UNUSED" using assms(2) by metis
    have n: "n < length (app_keys (mesh ?st))" using IH(3) Suc.prems by simp
    note d = app_key_delete_ok [OF IH(1) n u]
    have "fold f [0..<Suc n] st = app_key_delete n ?st" using True by (simp add: f_def)
    then show ?thesis
      using d IH assms(2) n by (auto simp: nth_list_update less_Suc_eq)
  next
    case False
    then have "fold f [0..<Suc n] st = ?st" by (simp add: f_def)
    then show ?thesis using IH False by (auto simp: less_Suc_eq)
  qed
qed

section \<open>The handlers of the configuration server\<close>

lemma node_inv_net [node_inv_intros]: "node_inv w m st \<Longrightarrow> net_ok (mesh st) (f (mesh st)) \<Longrightarrow> node_inv w m (upd_mesh f st)"
  by (rule node_inv_mesh) (auto intro: mesh_ok_net)

lemma node_inv_hb_send [node_inv_intros]: "node_inv w m st \<Longrightarrow> node_inv w m (hb_send C E p sb st)"
  by (simp add: hb_send_def Let_def node_inv_set_mesh)

lemma node_inv_hb_send_on [node_inv_intros]: "node_inv w m st \<Longrightarrow> node_inv w m (hb_send_on C E p f st)"
  by (auto simp: hb_send_on_def intro: node_inv_intros split: option.split)

lemma node_inv_load_groups [node_inv_intros]: "node_inv w m st \<Longrightarrow> node_inv w m (genie_mesh_load_group_addr G st)"
  by (simp add: genie_mesh_load_group_addr_def Let_def node_inv_fields)

lemma node_inv_setup_mod: "node_inv w m st \<Longrightarrow> node_inv w m (setup_mod k q st)"
  by (auto simp: setup_mod_def Let_def split: option.split intro!: node_inv_intros)

lemma node_inv_setup_loop: "node_inv w m st \<Longrightarrow> node_inv w m (mesh_setup_loop k ns st)"
  by (induction k ns st rule: mesh_setup_loop.induct) (auto simp: setup_elem_def Let_def split: option.split intro!: node_inv_fold node_inv_setup_mod)

lemma node_inv_setup [node_inv_intros]: "node_inv w m st \<Longrightarrow> node_inv w m (genie_mesh_setup k st)"
  by (simp add: genie_mesh_setup_def node_inv_setup_loop)

lemma node_inv_set_groups: "node_inv w m st \<Longrightarrow> node_inv w m (set_groups l q st)"
  by (auto simp: set_groups_def split: option.split intro!: node_inv_intros)

lemma node_inv_replace_group [node_inv_intros]: "node_inv w m st \<Longrightarrow> node_inv w m (snd (replace_group old new i st))"
  by (auto simp: replace_group_def elem_sub_bind_def Let_def split: option.split intro!: node_inv_fold node_inv_set_groups node_inv_fields)

lemma node_inv_clear_group [node_inv_intros]: "node_inv w m st \<Longrightarrow> node_inv w m (clear_group q slot st)"
  by (auto simp: clear_group_def split: group_slot.split intro!: node_inv_intros)

lemma node_inv_va_add [node_inv_intros]: "node_inv w m st \<Longrightarrow> node_inv w m (snd (snd (va_add C uuid st)))"
  by (auto simp: va_add_def Let_def split: option.split sum.split intro!: node_inv_intros)

lemma net_ok_identity [simp]: "net_ok st (bt_mesh_proxy_identity_start now i st)" "net_ok st (bt_mesh_proxy_identity_stop i st)"
  by (simp_all add: bt_mesh_proxy_identity_start_def bt_mesh_proxy_identity_stop_def)

lemma net_ok_beacon_enable [simp]: "net_ok st (bt_mesh_beacon_enable C st)"
  by (auto simp: bt_mesh_beacon_enable_def intro!: net_ok_fold net_ok_trans [OF _ net_ok_beacon_update])

lemma net_ok_krp [simp]: "net_ok st (krp_transition C i ph st)"
  unfolding krp_transition_def Let_def
  by (auto intro: net_ok_trans [OF net_ok_upd_sub net_ok_beacon_update] net_ok_trans [OF net_ok_trans [OF net_ok_revoke_keys net_ok_upd_sub] net_ok_beacon_update])

text \<open>The handlers that read, or that change settings, publication and subscription.\<close>

lemmas cfg_get_defs =
  app_key_get_def dev_comp_data_get_def beacon_get_def default_ttl_get_def gatt_proxy_get_def net_transmit_get_def relay_get_def friend_get_def lpn_timeout_get_def
  mod_pub_get_def mod_sub_get_def mod_sub_get_vnd_def mod_app_get_def net_key_get_def node_identity_get_def krp_get_def heartbeat_pub_get_def heartbeat_sub_get_def
  send_gatt_proxy_status_def send_friend_status_def send_mod_pub_status_def send_krp_status_def hb_pub_send_status_def hb_sub_send_status_def

lemma node_inv_gets:
  "f \<in> {app_key_get, dev_comp_data_get, beacon_get, default_ttl_get, gatt_proxy_get, net_transmit_get, relay_get, friend_get, lpn_timeout_get, mod_pub_get,
     mod_sub_get, mod_sub_get_vnd, mod_app_get, net_key_get, node_identity_get, krp_get, heartbeat_pub_get, heartbeat_sub_get} \<Longrightarrow>
   node_inv w m st \<Longrightarrow> node_inv w m (f C E now G p rx buf st)"
  by (auto simp: cfg_get_defs Let_def split_beta split: option.split sum.split intro!: node_inv_intros)

lemma node_inv_status [node_inv_intros]:
  "node_inv w m st \<Longrightarrow> node_inv w m (send_gatt_proxy_status C E now p rx st)" "node_inv w m st \<Longrightarrow> node_inv w m (send_friend_status C E now p rx st)"
  "node_inv w m st \<Longrightarrow> node_inv w m (send_mod_pub_status C E now p rx a b c d e g st)" "node_inv w m st \<Longrightarrow> node_inv w m (send_krp_status C E now p rx i ph s st)"
  "node_inv w m st \<Longrightarrow> node_inv w m (hb_pub_send_status C E now p rx s orig st)" "node_inv w m st \<Longrightarrow> node_inv w m (hb_sub_send_status C E now p rx s st)"
  "node_inv w m st \<Longrightarrow> node_inv w m (send_mod_sub_status C E now p rx s a b g c st)" "node_inv w m st \<Longrightarrow> node_inv w m (send_net_key_status C E now p rx i s st)"
  by (simp_all add: cfg_get_defs send_mod_sub_status_def send_net_key_status_def Let_def node_inv_reply)

lemma node_inv_features:
  assumes "node_inv w m st"
  shows "node_inv w m (beacon_set C E now G p rx buf st)" "node_inv w m (default_ttl_set C E now G p rx buf st)" "node_inv w m (net_transmit_set C E now G p rx buf st)"
    "node_inv w m (relay_set C E now G p rx buf st)" "node_inv w m (friend_set C E now G p rx buf st)" "node_inv w m (gatt_proxy_set C E now G p rx buf st)"
    "node_inv w m (node_identity_set C E now G p rx buf st)" "node_inv w m (krp_set C E now G p rx buf st)" 
proof -
  show "node_inv w m (beacon_set C E now G p rx buf st)" using assms by (auto simp: beacon_set_def Let_def intro!: node_inv_intros)
  show "node_inv w m (default_ttl_set C E now G p rx buf st)" using assms by (auto simp: default_ttl_set_def Let_def intro!: node_inv_intros)
  show "node_inv w m (net_transmit_set C E now G p rx buf st)" using assms by (auto simp: net_transmit_set_def Let_def intro!: node_inv_intros)
  show "node_inv w m (relay_set C E now G p rx buf st)" using assms by (auto simp: relay_set_def Let_def intro!: node_inv_intros)
  show "node_inv w m (friend_set C E now G p rx buf st)" using assms by (auto simp: friend_set_def intro!: node_inv_intros)
  show "node_inv w m (gatt_proxy_set C E now G p rx buf st)" using assms by (auto simp: gatt_proxy_set_def Let_def intro!: node_inv_intros net_ok_fold)
  show "node_inv w m (node_identity_set C E now G p rx buf st)" using assms by (auto simp: node_identity_set_def Let_def split: option.split intro!: node_inv_intros)
  show "node_inv w m (krp_set C E now G p rx buf st)" using assms by (auto simp: krp_set_def Let_def split: option.split intro!: node_inv_intros)
qed

lemma node_inv_publication:
  assumes "node_inv w m st"
  shows "node_inv w m (mod_pub_set C E now G p rx buf st)" "node_inv w m (mod_pub_va_set C E now G p rx buf st)"
proof -
  show "node_inv w m (mod_pub_set C E now G p rx buf st)"
    using assms by (auto simp: mod_pub_set_def Let_def split_beta split: sum.split intro!: node_inv_intros)
  show "node_inv w m (mod_pub_va_set C E now G p rx buf st)"
    using assms by (auto simp: mod_pub_va_set_def Let_def split_beta split: sum.split intro!: node_inv_intros)
qed

lemma node_inv_subscription:
  assumes "node_inv w m st"
  shows "node_inv w m (mod_sub_add C E now G p rx buf st)" "node_inv w m (mod_sub_del C E now G p rx buf st)" "node_inv w m (mod_sub_overwrite C E now G p rx buf st)"
    "node_inv w m (mod_sub_del_all C E now G p rx buf st)" "node_inv w m (mod_sub_va_add C E now G p rx buf st)" "node_inv w m (mod_sub_va_del C E now G p rx buf st)"
    "node_inv w m (mod_sub_va_overwrite C E now G p rx buf st)"
proof -
  show "node_inv w m (mod_sub_add C E now G p rx buf st)"
    using assms by (auto simp: mod_sub_add_def Let_def split_beta split: sum.split bool.split intro!: node_inv_intros)
  show "node_inv w m (mod_sub_del C E now G p rx buf st)"
    using assms by (auto simp: mod_sub_del_def Let_def split_beta split: sum.split intro!: node_inv_intros)
  show "node_inv w m (mod_sub_overwrite C E now G p rx buf st)"
    using assms by (auto simp: mod_sub_overwrite_def Let_def split_beta split: sum.split intro!: node_inv_intros)
  show "node_inv w m (mod_sub_del_all C E now G p rx buf st)"
    using assms by (auto simp: mod_sub_del_all_def Let_def split_beta split: sum.split intro!: node_inv_intros)
  show "node_inv w m (mod_sub_va_add C E now G p rx buf st)"
    using assms by (auto simp: mod_sub_va_add_def Let_def split_beta split: sum.split option.split intro!: node_inv_intros)
  show "node_inv w m (mod_sub_va_del C E now G p rx buf st)"
    using assms by (auto simp: mod_sub_va_del_def Let_def split_beta split: sum.split option.split intro!: node_inv_intros)
  show "node_inv w m (mod_sub_va_overwrite C E now G p rx buf st)"
    using assms by (auto simp: mod_sub_va_overwrite_def Let_def split_beta split: sum.split intro!: node_inv_intros)
qed

lemma node_inv_binding:
  assumes "node_inv w m st"
  shows "node_inv w m (mod_app_bind C E now G p rx buf st)" "node_inv w m (mod_app_unbind C E now G p rx buf st)"
proof -
  show "node_inv w m (mod_app_bind C E now G p rx buf st)"
    using assms by (auto simp: mod_app_bind_def Let_def split_beta split: sum.split intro!: node_inv_intros)
  show "node_inv w m (mod_app_unbind C E now G p rx buf st)"
    using assms by (auto simp: mod_app_unbind_def Let_def split_beta split: sum.split intro!: node_inv_intros)
qed

lemma node_inv_app_keys:
  assumes "node_inv w m st" and "valid (mesh st)"
  shows "node_inv w m (app_key_add C E now G p rx buf st)" "node_inv w m (app_key_update C E now G p rx buf st)" "node_inv w m (app_key_del C E now G p rx buf st)"
    "node_inv w m (genie_appkey_register C G n a val upd st)"
proof -
  show "node_inv w m (app_key_add C E now G p rx buf st)"
    using assms by (auto simp: app_key_add_def Let_def split_beta intro!: node_inv_intros node_inv_app_key_set)
  show "node_inv w m (app_key_update C E now G p rx buf st)"
    using assms by (auto simp: app_key_update_def Let_def split_beta intro!: node_inv_intros node_inv_app_key_set)
  show "node_inv w m (genie_appkey_register C G n a val upd st)"
    using assms by (auto simp: genie_appkey_register_def intro!: node_inv_intros node_inv_app_key_set)
  have "node_inv w m (app_key_delete i st)" if "app_key_idx a st = Some i" for a i
    using app_key_idx_Some [OF that] by (intro app_key_delete_ok assms) auto
  then show "node_inv w m (app_key_del C E now G p rx buf st)"
    using assms by (auto simp: app_key_del_def Let_def split_beta split: option.split intro!: node_inv_intros)
qed

lemma node_inv_heartbeat:
  assumes "node_inv w m st"
  shows "node_inv w m (heartbeat_pub_set C E now G p rx buf st)" "node_inv w m (heartbeat_sub_set C E now G p rx buf st)"
    "node_inv w m (bt_mesh_heartbeat now src dst hops st)" "node_inv w m (hb_publish C E st)"
proof -
  show "node_inv w m (heartbeat_pub_set C E now G p rx buf st)" using assms by (auto simp: heartbeat_pub_set_def Let_def intro!: node_inv_intros)
  have "mesh_ok m s (s\<lparr>hb_sub_dst := a\<rparr>)" for s a by (simp add: mesh_ok_def mesh_wf_def net_wf_def)
  then show "node_inv w m (heartbeat_sub_set C E now G p rx buf st)"
    using assms unfolding heartbeat_sub_set_def Let_def by (auto intro!: node_inv_status node_inv_upd_cfg node_inv_mesh)
  show "node_inv w m (bt_mesh_heartbeat now src dst hops st)" using assms by (simp add: bt_mesh_heartbeat_def Let_def node_inv_upd_cfg)
  show "node_inv w m (hb_publish C E st)" using assms by (auto simp: hb_publish_def Let_def split: option.split intro!: node_inv_intros)
qed

section \<open>Network keys, provisioning and reset\<close>

text \<open>A change of the network keys that leaves those of the application keys.\<close>

lemma node_inv_subs:
  assumes "node_inv w m st" and "length l = length (sub (mesh st))"
    and "\<And>k. k \<in> set (app_keys (mesh st)) \<Longrightarrow> ak_net_idx k \<noteq> BT_MESH_KEY_UNUSED \<Longrightarrow> ak_net_idx k \<in> set (map net_idx (sub (mesh st))) \<Longrightarrow> ak_net_idx k \<in> set (map net_idx l)"
  shows "node_inv w m (upd_mesh (\<lambda>ms. ms\<lparr>sub := l\<rparr>) st)"
proof -
  let ?st = "upd_mesh (\<lambda>ms. ms\<lparr>sub := l\<rparr>) st"
  have f: "mesh ?st = (mesh st)\<lparr>sub := l\<rparr>" "conf ?st = conf st" "mod_ptrs ?st = mod_ptrs st" "get_mod q ?st = get_mod q st" for q
    by (simp_all add: upd_mesh_def mod_ptrs_def get_mod_def dev_elems_def)
  have wf: "mesh_wf m ((mesh st)\<lparr>sub := l\<rparr>)" using assms(1,2) by (auto simp: node_inv_def mesh_wf_def net_wf_def)
  have "keys_wf w (key_table ((mesh st)\<lparr>sub := l\<rparr>))"
    using assms(1,3) by (auto simp: node_inv_def key_table_def)
  moreover have "fst (key_table ((mesh st)\<lparr>sub := l\<rparr>)) = fst (key_table (mesh st))" by (simp add: key_table_def)
  ultimately show ?thesis using assms(1) wf unfolding node_inv_def f by (simp del: keys_wf.simps)
qed

lemma node_inv_net_key_add: "node_inv w m st \<Longrightarrow> node_inv w m (net_key_add C E now G p rx buf st)"
proof -
  assume inv: "node_inv w m st"
  let ?idx = "sys_get_le16 buf"
  have new: "node_inv w m (upd_mesh (\<lambda>ms. upd_sub i (\<lambda>s. s\<lparr>keys0 := k, net_idx := ?idx\<rparr>) ms) st)"
    if i: "i < length (sub (mesh st))" "net_idx (sub (mesh st) ! i) = BT_MESH_KEY_UNUSED" for i k
  proof -
    have "node_inv w m (upd_mesh (\<lambda>ms. ms\<lparr>sub := (sub (mesh st))[i := (sub (mesh st) ! i)\<lparr>keys0 := k, net_idx := ?idx\<rparr>]\<rparr>) st)"
    proof (rule node_inv_subs [OF inv])
      fix a assume a: "ak_net_idx a \<noteq> BT_MESH_KEY_UNUSED" "ak_net_idx a \<in> set (map net_idx (sub (mesh st)))"
      then obtain j where j: "j < length (sub (mesh st))" "net_idx (sub (mesh st) ! j) = ak_net_idx a" by (auto simp: in_set_conv_nth)
      then have "j \<noteq> i" using a(1) i(2) by metis
      then show "ak_net_idx a \<in> set (map net_idx ((sub (mesh st))[i := (sub (mesh st) ! i)\<lparr>keys0 := k, net_idx := ?idx\<rparr>]))"
        using j by (auto simp: in_set_conv_nth map_update intro!: exI [of _ j])
    qed simp
    then show ?thesis by (simp add: upd_mesh_def upd_sub_def)
  qed
  have e: "net_ok s (emit x (upd_sub i (\<lambda>s. s\<lparr>node_id := 0\<rparr>) s))" for s :: mesh_state and x i by (rule net_ok_trans [OF _ net_ok_simps(1)]) simp
  have ok: "node_inv w m (net_key_add C E now G p rx buf st)"
    if "(case bt_mesh_subnet_get ?idx (mesh st) of Some i \<Rightarrow> Some i | None \<Rightarrow> find_index (\<lambda>s. net_idx s = BT_MESH_KEY_UNUSED) (sub (mesh st))) = Some i"
      and "net_idx (sub (mesh st) ! i) \<noteq> ?idx" and "\<not> ?idx > 0xfff" for i
  proof -
    have "bt_mesh_subnet_get ?idx (mesh st) = None"
      using that by (auto simp: bt_mesh_subnet_get_def split: option.splits if_splits dest: find_index_Some)
    then have "i < length (sub (mesh st)) \<and> net_idx (sub (mesh st) ! i) = BT_MESH_KEY_UNUSED" using that(1) by (auto dest: find_index_Some)
    then have n: "node_inv w m (upd_mesh (\<lambda>ms. upd_sub i (\<lambda>s. s\<lparr>keys0 := k, net_idx := ?idx\<rparr>) ms) st)" for k using new by blast
    show ?thesis
      using that inv e unfolding net_key_add_def Let_def by (auto split: sum.split intro!: node_inv_status node_inv_net n)
  qed
  show ?thesis
  proof (cases "case bt_mesh_subnet_get ?idx (mesh st) of Some i \<Rightarrow> Some i | None \<Rightarrow> find_index (\<lambda>s. net_idx s = BT_MESH_KEY_UNUSED) (sub (mesh st))")
    case None
    then show ?thesis using inv unfolding net_key_add_def Let_def None by (auto intro!: node_inv_status)
  next
    case (Some i)
    then show ?thesis using inv ok [OF Some] unfolding net_key_add_def Let_def Some
      by (cases "net_idx (sub (mesh st) ! i) = ?idx") (auto intro!: node_inv_status)
  qed
qed

lemma node_inv_net_key_update: "node_inv w m st \<Longrightarrow> node_inv w m (net_key_update C E now G p rx buf st)"
proof -
  have "net_ok s (bt_mesh_net_beacon_update C i (upd_sub i (\<lambda>s. s\<lparr>keys1 := k, kr_phase := ph\<rparr>) s))" for s :: mesh_state and i k ph
    by (rule net_ok_trans [OF _ net_ok_beacon_update]) simp
  then show "node_inv w m st \<Longrightarrow> ?thesis"
    unfolding net_key_update_def Let_def by (auto split: option.split sum.split intro!: node_inv_status node_inv_net)
qed

lemma node_inv_net_key_del: 
  assumes "node_inv w m st"
  shows "node_inv w m (net_key_del C E now G p rx buf st)"
proof -
  let ?idx = "sys_get_le16 buf"
  have ok: "node_inv w m (upd_mesh (\<lambda>ms. upd_sub s (\<lambda>_. zero_subnet) ms)
      (fold (\<lambda>i st. if ak_net_idx (app_keys (mesh st) ! i) = ?idx then app_key_delete i st else st) [0..<length (app_keys (mesh st1))] st1))"
    if "\<not> ?idx > 0xfff" and s: "bt_mesh_subnet_get ?idx (mesh st1) = Some s" and inv: "node_inv w m st1" for s st1
  proof -
    let ?st = "fold (\<lambda>i st. if ak_net_idx (app_keys (mesh st) ! i) = ?idx then app_key_delete i st else st) [0..<length (app_keys (mesh st1))] st1"
    have ne: "?idx \<noteq> BT_MESH_KEY_UNUSED" using that(1) by auto
    have l: "node_inv w m ?st" "sub (mesh ?st) = sub (mesh st1)" "length (app_keys (mesh ?st)) = length (app_keys (mesh st1))"
      "\<forall>i<length (app_keys (mesh st1)). ak_net_idx (app_keys (mesh ?st) ! i) \<noteq> ?idx"
      using delete_loop [OF inv, of "\<lambda>x. x = ?idx" "length (app_keys (mesh st1))"] ne by auto
    have s': "net_idx (sub (mesh st1) ! s) = ?idx" using s ne by (auto simp: bt_mesh_subnet_get_def dest: find_index_Some)
    have "node_inv w m (upd_mesh (\<lambda>ms. ms\<lparr>sub := (sub (mesh ?st))[s := zero_subnet]\<rparr>) ?st)"
    proof (rule node_inv_subs [OF l(1)])
      fix a assume a: "a \<in> set (app_keys (mesh ?st))" "ak_net_idx a \<noteq> BT_MESH_KEY_UNUSED" "ak_net_idx a \<in> set (map net_idx (sub (mesh ?st)))"
      have "ak_net_idx a \<noteq> ?idx" using a(1) l(3,4) by (auto simp: in_set_conv_nth)
      obtain j where j: "j < length (sub (mesh ?st))" "net_idx (sub (mesh ?st) ! j) = ak_net_idx a" using a(3) by (auto simp: in_set_conv_nth)
      have "j \<noteq> s" using j(2) s' l(2) \<open>ak_net_idx a \<noteq> ?idx\<close> by auto
      then show "ak_net_idx a \<in> set (map net_idx ((sub (mesh ?st))[s := zero_subnet]))"
        using j by (auto simp: in_set_conv_nth map_update intro!: exI [of _ j])
    qed simp
    then show ?thesis by (simp add: upd_mesh_def upd_sub_def)
  qed
  have c: "mesh (upd_cfg g st) = mesh st" for g by (simp add: upd_cfg_def)
  have "node_inv w m (upd_cfg hb_pub_disable st)" by (rule node_inv_upd_cfg [OF assms])
  then show ?thesis
    using assms ok [OF _ _ assms] ok [OF _ _ node_inv_upd_cfg [OF assms]] unfolding net_key_del_def Let_def c
    by (auto split: option.split intro!: node_inv_status simp: c)
qed

text \<open>The initialisation of a model clears its keys; the configuration server gets the device key.\<close>

definition fresh_keys :: "u16 list \<Rightarrow> bool" where
  "fresh_keys ks \<longleftrightarrow> ks = replicate (length ks) BT_MESH_KEY_UNUSED \<or> ks = (replicate (length ks) BT_MESH_KEY_UNUSED)[0 := BT_MESH_KEY_DEV]"

lemma bound_ok_fresh:
  assumes "fresh_keys ks"
  shows "bound_ok K ks"
proof -
  have "bound_ok K (replicate n BT_MESH_KEY_UNUSED)" for n by (auto simp: bound_ok_def)
  moreover have "bound_ok K ((replicate n BT_MESH_KEY_UNUSED)[0 := BT_MESH_KEY_DEV])" for n by (cases n) (auto simp: bound_ok_def)
  ultimately show ?thesis using assms unfolding fresh_keys_def by (elim disjE) (erule ssubst, blast)+
qed

lemma mod_init_effect:
  shows "mesh (mod_init p st) = mesh st" and "set (mod_ptrs (mod_init p st)) = set (mod_ptrs st)" and "conf st \<Longrightarrow> conf (mod_init p st)"
    and "q \<in> set (mod_ptrs st) \<Longrightarrow> q \<noteq> p \<Longrightarrow> mod_keys (get_mod q (mod_init p st)) = mod_keys (get_mod q st)"
    and "p \<in> set (mod_ptrs st) \<Longrightarrow> fresh_keys (mod_keys (get_mod p (mod_init p st)))"
proof -
  let ?e = "upd_mod p (\<lambda>m. m\<lparr>mod_elem := Some (fst p)\<rparr>) st"
  let ?u = "case mod_pub (get_mod p ?e) of Some k \<Rightarrow> upd_pub k (\<lambda>b. b\<lparr>pub_mod := Some p, pub_timer := None\<rparr>) ?e | None \<Rightarrow> ?e"
  define st1 where "st1 = upd_mod p (\<lambda>m. m\<lparr>mod_keys := replicate (length (mod_keys m)) BT_MESH_KEY_UNUSED\<rparr>) ?u"
  have u: "mesh ?u = mesh st" "conf ?u = conf st" "mod_ptrs ?u = mod_ptrs ?e" "get_mod x ?u = get_mod x ?e" for x
    by (auto simp: upd_pub_def mod_ptrs_def get_mod_def dev_elems_def split: option.split)
  have s1: "mesh st1 = mesh st" "conf st1 = conf st" "set (mod_ptrs st1) = set (mod_ptrs st)" by (simp_all add: st1_def u)
  have k1: "mod_keys (get_mod x st1) = (if x = p then replicate (length (mod_keys (get_mod x st))) BT_MESH_KEY_UNUSED else mod_keys (get_mod x st))"
    if "x \<in> set (mod_ptrs st)" for x using that by (auto simp: st1_def get_upd_mod u)
  have eq: "mod_init p st = (if fst (snd p) then st1 else model_init (sig_id (mod_id (get_mod p st1))) p st1)"
    by (simp add: mod_init_def st1_def Let_def)
  have i: "mesh (model_init a p st1) = mesh st1 \<and> set (mod_ptrs (model_init a p st1)) = set (mod_ptrs st1) \<and> (conf st1 \<longrightarrow> conf (model_init a p st1)) \<and>
    (\<forall>x\<in>set (mod_ptrs st1). mod_keys (get_mod x (model_init a p st1)) = mod_keys (get_mod x st1) \<or>
       x = p \<and> mod_keys (get_mod x (model_init a p st1)) = (mod_keys (get_mod x st1))[0 := BT_MESH_KEY_DEV])" for a
  proof -
    have r: "mod_ptrs (y\<lparr>inits := l\<rparr>) = mod_ptrs y" "get_mod x (y\<lparr>inits := l\<rparr>) = get_mod x y"
      "mod_ptrs (y\<lparr>cfg_srv := c, conf := True\<rparr>) = mod_ptrs y" "get_mod x (y\<lparr>cfg_srv := c, conf := True\<rparr>) = get_mod x y" for x y l c
      by (simp_all add: mod_ptrs_def get_mod_def dev_elems_def)
    show ?thesis by (auto simp: model_init_def bt_mesh_cfg_srv_init_def Let_def r get_upd_mod)
  qed
  show "mesh (mod_init p st) = mesh st" "set (mod_ptrs (mod_init p st)) = set (mod_ptrs st)" "conf st \<Longrightarrow> conf (mod_init p st)"
    using i s1 by (auto simp: eq)
  note i' = i [of "sig_id (mod_id (get_mod p st1))"]
  show "mod_keys (get_mod q (mod_init p st)) = mod_keys (get_mod q st)" if q: "q \<in> set (mod_ptrs st)" "q \<noteq> p"
    using i' s1(3) k1 [OF q(1)] q by (cases "fst (snd p)") (auto simp: eq)
  show "fresh_keys (mod_keys (get_mod p (mod_init p st)))" if p: "p \<in> set (mod_ptrs st)"
    using i' s1(3) k1 [OF p] p by (cases "fst (snd p)") (auto simp: eq fresh_keys_def)
qed

text \<open>The loop over all models leaves only fresh keys.\<close>

lemma mod_init_loop:
  "mesh (fold mod_init qs st) = mesh st \<and> set (mod_ptrs (fold mod_init qs st)) = set (mod_ptrs st) \<and> (conf st \<longrightarrow> conf (fold mod_init qs st)) \<and>
   (\<forall>p\<in>set (mod_ptrs st). p \<in> set qs \<or> fresh_keys (mod_keys (get_mod p st)) \<longrightarrow> fresh_keys (mod_keys (get_mod p (fold mod_init qs st))))"
proof (induction qs arbitrary: st)
  case (Cons q qs)
  have "fresh_keys (mod_keys (get_mod p (mod_init q st)))" if "p \<in> set (mod_ptrs st)" "p = q \<or> fresh_keys (mod_keys (get_mod p st))" for p
    using that mod_init_effect(4) [OF that(1), of q] mod_init_effect(5) [of q st] by (cases "p = q") auto
  then show ?case using Cons.IH [of "mod_init q st"] by (auto simp: mod_init_effect(1-3))
qed simp

lemma node_inv_unprovision: "node_inv w m st \<Longrightarrow> node_inv w m (bt_mesh_comp_unprovision st)"
proof -
  assume inv: "node_inv w m st"
  let ?st = "st\<lparr>dev_primary_addr := BT_MESH_ADDR_UNASSIGNED\<rparr>"
  have "node_inv w m ?st" using inv by (rule node_inv_fields)
  then show ?thesis
    using mod_init_loop [of "mod_ptrs ?st" ?st] unfolding bt_mesh_comp_unprovision_def bt_mesh_model_foreach_def node_inv_def
    by (auto intro: bound_ok_fresh)
qed

text \<open>A node without application keys.\<close>

definition no_app_keys :: "mesh_state \<Rightarrow> bool" where
  "no_app_keys ms \<longleftrightarrow> (\<forall>k\<in>set (app_keys ms). ak_net_idx k = BT_MESH_KEY_UNUSED)"

lemma node_inv_no_keys: "no_app_keys (mesh st) \<Longrightarrow> node_inv False m st \<Longrightarrow> node_inv w m st"
  by (auto simp: node_inv_def no_app_keys_def key_table_def)

lemma cfg_reset_ok:
  assumes "node_inv False m st"
  shows "node_inv True m (bt_mesh_cfg_reset st)" and "no_app_keys (mesh (bt_mesh_cfg_reset st))"
    and "sub (mesh (bt_mesh_cfg_reset st)) = replicate (length (sub (mesh st))) zero_subnet"
proof -
  define st1 where "st1 = upd_cfg (\<lambda>c. hb_pub_disable (c\<lparr>cfg_hb_sub := (cfg_hb_sub c)\<lparr>hbs_src := BT_MESH_ADDR_UNASSIGNED, hbs_dst := BT_MESH_ADDR_UNASSIGNED, hbs_expiry := 0\<rparr>\<rparr>))
    (upd_mesh (\<lambda>m. m\<lparr>hb_sub_dst := BT_MESH_ADDR_UNASSIGNED\<rparr>) st)"
  let ?n = "length (app_keys (mesh st1))"
  define st2 where "st2 = fold (\<lambda>i st. if ak_net_idx (app_keys (mesh st) ! i) \<noteq> BT_MESH_KEY_UNUSED then app_key_delete i st else st) [0..<?n] st1"
  have "mesh_ok m s (s\<lparr>hb_sub_dst := a\<rparr>)" for s a by (simp add: mesh_ok_def mesh_wf_def net_wf_def)
  then have 1: "node_inv False m st1" unfolding st1_def using assms by (intro node_inv_upd_cfg node_inv_mesh)
  have 2: "node_inv False m st2 \<and> sub (mesh st2) = sub (mesh st1) \<and> length (app_keys (mesh st2)) = ?n \<and> (\<forall>i<?n. ak_net_idx (app_keys (mesh st2) ! i) = BT_MESH_KEY_UNUSED)"
    using delete_loop [OF 1, of "\<lambda>x. x \<noteq> BT_MESH_KEY_UNUSED" ?n] by (simp add: st2_def)
  then have no: "no_app_keys (mesh st2)" by (auto simp: no_app_keys_def in_set_conv_nth)
  let ?st3 = "upd_mesh (\<lambda>ms. ms\<lparr>sub := replicate (length (sub ms)) zero_subnet\<rparr>) st2"
  have eq: "?st3 = upd_mesh (\<lambda>ms. ms\<lparr>sub := replicate (length (sub (mesh st2))) zero_subnet\<rparr>) st2" by (simp add: upd_mesh_def)
  have "node_inv False m ?st3" unfolding eq by (rule node_inv_subs) (use 2 no in \<open>auto simp: no_app_keys_def\<close>)
  moreover have "no_app_keys (mesh ?st3)" using no by (simp add: no_app_keys_def upd_mesh_def)
  moreover have r: "bt_mesh_cfg_reset st = ?st3\<lparr>labels := replicate (length (labels ?st3)) (0, replicate 16 0)\<rparr>"
    using assms unfolding bt_mesh_cfg_reset_def Let_def st2_def st1_def by (simp add: node_inv_def)
  ultimately show "node_inv True m (bt_mesh_cfg_reset st)" "no_app_keys (mesh (bt_mesh_cfg_reset st))"
    using node_inv_fields(1) node_inv_no_keys by auto
  show "sub (mesh (bt_mesh_cfg_reset st)) = replicate (length (sub (mesh st))) zero_subnet"
    unfolding r using 2 by (simp add: upd_mesh_def st1_def upd_cfg_def)
qed

lemma node_inv_clear_net:
  assumes "node_inv w m st"
  shows "node_inv False m (upd_mesh (\<lambda>ms. ms\<lparr>iv_index := 0, seq := 0, iv_update := False, pending_update := False, valid := False, last_update := 0, ivu_initiator := False,
    ivu_timer := False\<rparr>) st)" (is "node_inv False m ?st")
proof -
  have "mod_ptrs ?st = mod_ptrs st" "get_mod q ?st = get_mod q st" for q by (simp_all add: upd_mesh_def mod_ptrs_def get_mod_def dev_elems_def)
  then show ?thesis using assms by (auto simp: node_inv_def upd_mesh_def mesh_wf_def net_wf_def key_table_def)
qed

lemma node_inv_reset: 
  assumes "node_inv True m st"
  shows "node_inv True m (bt_mesh_reset C E now st)"
proof -
  define st1 where "st1 = bt_mesh_cfg_reset (upd_mesh (\<lambda>ms. ms\<lparr>iv_index := 0, seq := 0, iv_update := False, pending_update := False, valid := False, last_update := 0,
    ivu_initiator := False, ivu_timer := False\<rparr>) ((bt_mesh_comp_unprovision st)\<lparr>g_sub_list := replicate (length (g_sub_list (bt_mesh_comp_unprovision st))) 0\<rparr>))"
  have "node_inv True m st1" unfolding st1_def by (intro cfg_reset_ok node_inv_clear_net [where w = True] node_inv_fields node_inv_unprovision assms)
  then have "node_inv True m (upd_mesh (\<lambda>ms. bt_mesh_tx_reset C (node_env E st1) now (bt_mesh_rx_reset ms)) st1)"
    by (rule node_inv_mesh) (rule mesh_ok_trans [OF mesh_ok_resets(1) mesh_ok_resets(2)])
  moreover have "mesh_ok m s (s\<lparr>dev_key := k, rpl := replicate (length (rpl s)) zero_rpl, provisioned := False\<rparr>)" for s k
    by (simp add: mesh_ok_def mesh_wf_def net_wf_def)
  ultimately have "node_inv True m (upd_mesh (\<lambda>ms. ms\<lparr>dev_key := replicate 16 0, rpl := replicate (length (rpl ms)) zero_rpl, provisioned := False\<rparr>)
    (upd_mesh (\<lambda>ms. bt_mesh_tx_reset C (node_env E st1) now (bt_mesh_rx_reset ms)) st1))" by (rule node_inv_mesh)
  then show ?thesis using assms node_inv_fields(5) unfolding bt_mesh_reset_def Let_def st1_def by simp
qed

lemma node_inv_node_reset: "node_inv True m st \<Longrightarrow> node_inv True m (node_reset C E now G p rx buf st)"
  by (auto simp: node_reset_def Let_def intro!: node_inv_reset node_inv_reply)

lemma node_inv_setup_node: "node_inv w m st \<Longrightarrow> node_inv w m (bt_mesh_setup C sq addr st)"
proof -
  have "mesh_ok m s (s\<lparr>provisioned := b\<rparr>)" for s b by (simp add: mesh_ok_def mesh_wf_def net_wf_def)
  then show "node_inv w m st \<Longrightarrow> ?thesis"
    unfolding bt_mesh_setup_def Let_def bt_mesh_comp_provision_def
    by (intro node_inv_if node_inv_mesh [of _ _ _ "\<lambda>m. m\<lparr>provisioned := True\<rparr>"] node_inv_net node_inv_fold node_inv_fields(4,5))
      (auto intro!: node_inv_upd_elem node_inv_fields node_inv_net)
qed

lemma net_create_ok:
  assumes "mesh_wf m ms" and "bt_mesh_net_create C idx flags key iv now ms = (e, ms')"
  shows "mesh_wf m ms'" and "app_keys ms' = app_keys ms" and "ms' = ms \<or> \<not> valid ms"
proof -
  let ?a = "ms\<lparr>msg_cache := replicate (length (msg_cache ms)) 0, msg_cache_next := 0\<rparr>"
  let ?b = "upd_sub 0 (\<lambda>s. s\<lparr>kr_flag := BT_MESH_KEY_REFRESH flags\<rparr>) ?a"
  let ?c = "\<lambda>k. if BT_MESH_KEY_REFRESH flags then upd_sub 0 (\<lambda>s. s\<lparr>keys1 := k, kr_phase := BT_MESH_KR_PHASE_2\<rparr>) ?b else upd_sub 0 (\<lambda>s. s\<lparr>keys0 := k\<rparr>) ?b"
  let ?d = "\<lambda>k. (upd_sub 0 (\<lambda>s. s\<lparr>net_idx := idx, node_id := 0x01, node_id_start := ucast now\<rparr>) ((?c k)\<lparr>valid := True\<rparr>))
    \<lparr>iv_index := iv, iv_update := BT_MESH_IV_UPDATE flags, last_update := now\<rparr>"
  have b: "mesh_wf m ?b" "app_keys ?b = app_keys ms" using assms(1) by (auto simp: mesh_wf_def net_wf_def upd_sub_def)
  have d: "mesh_wf m (?d k)" "app_keys (?d k) = app_keys ms" for k using assms(1) by (auto simp: mesh_wf_def net_wf_def upd_sub_def)
  have u: "mesh_wf m (bt_mesh_net_beacon_update C 0 s)" "app_keys (bt_mesh_net_beacon_update C 0 s) = app_keys s" if "mesh_wf m s" for s
    using mesh_ok_net [OF net_ok_beacon_update [of s C 0], of m] that
    by (auto simp: mesh_ok_def bt_mesh_net_beacon_update_def upd_sub_def Let_def split: sum.split)
  have "ms' = ms \<or> \<not> valid ms \<and> (ms' = ?b \<or> (\<exists>k. ms' = bt_mesh_net_beacon_update C 0 (?d k)))"
    using assms(2) unfolding bt_mesh_net_create_def Let_def by (auto split: if_splits sum.splits)
  then show "mesh_wf m ms'" "app_keys ms' = app_keys ms" "ms' = ms \<or> \<not> valid ms" using assms(1) b d u by auto
qed

lemma node_inv_provision:
  assumes "node_inv True m st"
  shows "node_inv True m (snd (bt_mesh_provision C now key idx flags iv sq addr devkey st))"
proof -
  obtain e ms where c: "bt_mesh_net_create C idx flags key iv now (mesh st) = (e, ms)" by fastforce
  have wf: "mesh_wf m (mesh st)" using assms by (simp add: node_inv_def)
  have ms: "node_inv True m (st\<lparr>mesh := ms\<rparr>)"
  proof (cases "valid (mesh st)")
    case True
    then show ?thesis using net_create_ok(3) [OF wf c] assms by simp
  next
    case False
    then have "no_app_keys (mesh st)" using assms by (auto simp: node_inv_def key_table_def no_app_keys_def)
    then have n: "no_app_keys ms" using net_create_ok(2) [OF wf c] by (simp add: no_app_keys_def)
    have "mod_ptrs (st\<lparr>mesh := ms\<rparr>) = mod_ptrs st" "get_mod q (st\<lparr>mesh := ms\<rparr>) = get_mod q st" for q by (simp_all add: mod_ptrs_def get_mod_def dev_elems_def)
    then show ?thesis
      using assms n net_create_ok(1,2) [OF wf c] by (auto simp: node_inv_def key_table_def no_app_keys_def)
  qed
  have "node_inv True m (st\<lparr>mesh := ms\<lparr>dev_key := devkey\<rparr>\<rparr>)"
    using node_inv_mesh [OF ms, of "\<lambda>s. s\<lparr>dev_key := devkey\<rparr>"] by (simp add: upd_mesh_def mesh_ok_def mesh_wf_def net_wf_def)
  then show ?thesis using c ms node_inv_setup_node by (cases e) (auto simp: bt_mesh_provision_def)
qed

section \<open>The node as a transition system\<close>

lemma node_inv_publish_sent: "node_inv w m st \<Longrightarrow> node_inv w m ((publish_sent now k ^^ n) st)"
  by (induction n) (auto simp: publish_sent_def Let_def intro!: node_inv_upd_pub)

lemma node_inv_publish:
  assumes "node_inv w m st"
  shows "node_inv w m (snd (bt_mesh_model_publish C E now p st))" and "node_inv w m (snd (publish_retransmit C E now p k st))"
proof -
  have b: "bt_mesh_subnet_get i (mesh st) = Some s \<Longrightarrow> s < length (sub (mesh st))" for i s
    using assms subnet_get_bound by (auto simp: node_inv_def mesh_wf_def net_wf_def)
  have m: "mesh (upd_pub k f x) = mesh x" for k f x by (simp add: upd_pub_def)
  have c: "bt_mesh_subnet_get i (mesh (upd_pub k f x)) = bt_mesh_subnet_get i (mesh x)" for i k f x by (simp add: m)
  show "node_inv w m (snd (bt_mesh_model_publish C E now p st))"
    unfolding bt_mesh_model_publish_def Let_def
    by (auto simp: split_beta m tx_of_def assms b split: option.split intro!: node_inv_upd_pub node_inv_publish_sent node_inv_model_send)
  have "mesh_ok m (mesh st) (snd (bt_mesh_trans_send C E' now tx msg room cb (mesh st)))" if "tx_sub tx < length (sub (mesh st))" for E' tx msg room cb
    using that by (rule mesh_ok_trans_send)
  then show "node_inv w m (snd (publish_retransmit C E now p k st))"
    unfolding publish_retransmit_def Let_def
    by (auto simp: split_beta m tx_of_def assms b split: option.split intro!: node_inv_upd_pub node_inv_publish_sent node_inv_set_mesh)
qed

lemma node_inv_suspend: "node_inv w m st \<Longrightarrow> node_inv w m (snd (bt_mesh_suspend force rx tx scan st))" "node_inv w m st \<Longrightarrow> node_inv w m (snd (bt_mesh_resume C scan st))"
  by (auto simp: bt_mesh_suspend_def bt_mesh_resume_def bt_mesh_hb_pub_disable_def bt_mesh_model_foreach_def model_suspend_def model_resume_def Let_def
      split: option.split intro!: node_inv_fields node_inv_fold node_inv_intros)

text \<open>The callback of a model that publishes writes its message.\<close>

lemma node_inv_mod_publish:
  assumes "node_inv w m st" and "\<And>p s. \<exists>b. snd (U p s) = s\<lparr>pubs := b\<rparr>"
  shows "node_inv w m (mod_publish C E now U k st)"
proof -
  have u: "node_inv w m (snd (U p s))" if "node_inv w m s" for p s using assms(2) [of p s] node_inv_pubs [OF that] by auto
  show ?thesis
    using assms(1) unfolding mod_publish_def Let_def by (auto simp: split_beta split: option.split intro!: node_inv_upd_pub node_inv_publish u)
qed

lemma cfg_table_inv:
  assumes "node_inv True m st" and "valid (mesh st)" and "(oc, n, f) \<in> set cfg_srv_table"
  shows "node_inv True m (f C E now G p rx buf st)"
  using assms unfolding cfg_srv_table_def
  by (auto simp: node_inv_gets node_inv_features node_inv_publication node_inv_subscription node_inv_binding node_inv_app_keys node_inv_heartbeat
      node_inv_net_key_add node_inv_net_key_update node_inv_net_key_del node_inv_node_reset)

text \<open>
  A node that has registered a composition with a configuration server, before it is provisioned: the tables of the stack are as at start, and no slot for an application
  key is used.
\<close>

definition node_init :: "nat \<Rightarrow> node \<Rightarrow> bool" where
  "node_init m st \<longleftrightarrow> (\<exists>c st0. mesh_init m (mesh st0) \<and> no_app_keys (mesh st0) \<and> length (app_keys (mesh st0)) \<le> 0x1000 \<and> elems c \<noteq> [] \<and>
     \<not> valid (mesh st0) \<and> st = snd (bt_mesh_comp_register c st0) \<and> conf st)"

text \<open>
  What happens to the node: it is provisioned or reset, a message for the configuration server arrives (which takes a network), the Genie service registers an application key,
  a heartbeat arrives, the node is suspended or resumed, the timers of the heartbeat or of a publication expire, or something happens to the layers below.
\<close>

inductive node_step :: "crypto_lib \<Rightarrow> nat \<Rightarrow> node \<Rightarrow> node \<Rightarrow> bool" for C m where
  provision: "node_step C m st (snd (bt_mesh_provision C now key idx flags iv sq addr devkey st))"
| reset: "node_step C m st (bt_mesh_reset C E now st)"
| message: "valid (mesh st) \<Longrightarrow> (oc, n, f) \<in> set cfg_srv_table \<Longrightarrow> n \<le> length buf \<Longrightarrow> node_step C m st (f C E now G p rx buf st)"
| register_key: "valid (mesh st) \<Longrightarrow> node_step C m st (genie_appkey_register C G idx app_idx val upd st)"
| heartbeat: "node_step C m st (bt_mesh_heartbeat now src dst hops st)"
| heartbeat_timer: "hb_timer (cfg_hb_pub (cfg_srv st)) \<noteq> None \<Longrightarrow> node_step C m st (hb_publish C E st)"
| publish_timer: "(\<And>p s. \<exists>b. snd (U p s) = s\<lparr>pubs := b\<rparr>) \<Longrightarrow> node_step C m st (mod_publish C E now U k st)"
| suspend: "node_step C m st (snd (bt_mesh_suspend force rx tx scan st))"
| resume: "node_step C m st (snd (bt_mesh_resume C scan st))"
| lower: "mesh_step C m (mesh st) ms \<Longrightarrow> node_step C m st (st\<lparr>mesh := ms\<rparr>)"

lemma node_inv_init: "node_init m st \<Longrightarrow> node_inv True m st"
proof -
  assume "node_init m st"
  then obtain c st0 where i: "mesh_init m (mesh st0)" "no_app_keys (mesh st0)" "length (app_keys (mesh st0)) \<le> 0x1000" "elems c \<noteq> []"
    and st: "st = snd (bt_mesh_comp_register c st0)" "conf st" unfolding node_init_def by blast
  let ?st = "st0\<lparr>dev_comp := Some c\<rparr>"
  have eq: "st = fold mod_init (mod_ptrs ?st) ?st" using st(1) i(4) by (simp add: bt_mesh_comp_register_def bt_mesh_model_foreach_def)
  have "mesh_wf m (mesh st0)" using mesh.reach_inv [OF i(1)] by blast
  then show ?thesis
    using mod_init_loop [of "mod_ptrs ?st" ?st, folded eq] st(2) i(2,3) unfolding node_inv_def by (auto intro: bound_ok_fresh simp: key_table_def no_app_keys_def)
qed

lemma node_step_inv: "node_step C m st st' \<Longrightarrow> node_inv True m st \<Longrightarrow> node_inv True m st'"
proof (induction rule: node_step.induct)
  case (lower st ms)
  have "mesh_wf m (mesh st)" using lower(2) by (simp add: node_inv_def)
  then show ?case using node_inv_set_mesh [OF lower(2) mesh_step_keeps [OF lower(1)]] by simp
next
  case (message st oc n f buf E now G p rx)
  then show ?case using cfg_table_inv by blast
qed (auto intro: node_inv_provision node_inv_reset node_inv_app_keys(4) node_inv_heartbeat(3,4) node_inv_mod_publish node_inv_suspend)

interpretation node: invariant_system "node_init m" "node_step C m" "node_inv True m"
  by unfold_locales (rule node_inv_init, assumption, rule node_step_inv)

end
