(* ===== verification/Mesh_Cfg_Props.thy ===== *)
theory Mesh_Cfg_Props
  imports Mesh_Cfg_Inv Mesh_Access_Props
begin

text \<open>
  What the configuration server guarantees: keys that are bound to models exist, a reset forgets all keys, the lists of key indices can be read back, and a completed key
  refresh leaves only the new keys; and where it deviates: the period of heartbeats and the binding of the configuration server itself.
\<close>

section \<open>Lists of key indices\<close>

text \<open>Reading a list of key indices, as the receiver of the status messages has to do it.\<close>

fun idx_decode :: "byte list \<Rightarrow> u16 list" where
  "idx_decode (a # b # c # r) = (case key_idx_unpack [a, b, c] of (i, j) \<Rightarrow> i # j # idx_decode r)"
| "idx_decode [a, b] = [sys_get_le16 [a, b]]"
| "idx_decode _ = []"

lemma key_idx_pack_unpack:
  assumes "i < 0x1000" and "j < 0x1000"
  shows "key_idx_unpack (key_idx_pack i j @ r) = (i, j)"
proof -
  have t: "take_bit 12 w = w" if "w < 0x1000" for w :: u16
    using that unfolding word_unat_eq_iff unsigned_take_bit_eq word_less_nat_alt by (simp add: take_bit_nat_eq_self)
  have b: "bit w n \<Longrightarrow> n < 12" if "w < 0x1000" for w :: u16 and n
    using t [OF that] by (metis bit_take_bit_iff)
  have c: "n - 4 < 8" if "bit j n" for n using b [OF assms(2) that] by simp
  let ?w = "i OR push_bit 12 (j AND 0x00f)"
  have m: "(x AND 0xfff) = take_bit 12 x" "(x AND 0xf) = take_bit 4 x" for x :: u16 by (simp_all add: take_bit_eq_mask mask_eq_exp_minus_1)
  have 1: "?w AND 0xfff = i"
    unfolding m by (rule bit_word_eqI) (use b [OF assms(1)] in \<open>auto simp: bit_simps\<close>)
  have 2: "drop_bit 4 (sys_get_le16 [ucast (drop_bit 8 ?w), ucast (drop_bit 4 j)]) = j"
    unfolding sys_get_le16_def m by (rule bit_word_eqI) (use b [OF assms(1)] b [OF assms(2)] c in \<open>auto simp: bit_simps\<close>)
  show ?thesis
    using 1 2 sys_le16_bytes(2) [of ?w "[ucast (drop_bit 4 j)] @ r"] unfolding key_idx_unpack_def key_idx_pack_def sys_put_le16_def by (simp add: sys_get_le16_def)
qed

text \<open>
  C29.  The lists of application and network keys in the status messages, which pack two indices of 12 bits into three bytes, are read back as the indices that were written.
\<close>

theorem key_lists_round_trip:
  assumes "\<forall>i\<in>set is. i < 0x1000"
  shows "idx_decode (idx_list None is) = is"
  using assms
proof (induction "is" rule: induct_list012)
  case (2 i)
  then show ?case using sys_le16_bytes(2) [of i "[]"] by (simp add: sys_put_le16_def)
next
  case (3 i j "is")
  obtain a b c where p: "key_idx_pack i j = [a, b, c]" by (simp add: key_idx_pack_def sys_put_le16_def)
  then have "key_idx_unpack [a, b, c] = (i, j)" using key_idx_pack_unpack [of i j "[]"] 3 by simp
  then show ?case using 3 p by simp
qed simp

theorem key_lists_round_trip_witness: "idx_decode (idx_list None [0x123, 0xabc, 0xfff]) = [0x123, 0xabc, 0xfff]"
  by (rule key_lists_round_trip) simp

section \<open>Heartbeats\<close>

lemma u8_cases_16:
  assumes "1 \<le> (p :: u8)" and "p \<le> 0x10"
  shows "p \<in> set [1, 2, 3, 4, 5, 6, 7, 8, 9, 10, 11, 12, 13, 14, 15, 16]"
proof -
  have "unat p \<in> set [1..<17]" using assms by (simp add: word_le_nat_alt)
  then have "p \<in> of_nat ` set [1..<17]" by (intro image_eqI [of _ _ "unat p"]) simp_all
  also have "of_nat ` set [1..<17] = set (map of_nat [1..<17] :: u8 list)" by (simp only: set_map)
  also have "map of_nat [1..<17] = [1, 2, 3, 4, 5, 6, 7, 8, 9, 10, 11, 12, 13, 14, 15, 16 :: u8]" by code_simp
  finally show ?thesis .
qed

text \<open>
  C33.  The time until the next heartbeat is computed in 16 bits: of the periods \<open>2 ^ (n - 1)\<close> seconds that can be configured, only those up to 64 seconds are kept, and from
  \<open>n = 14\<close> on the result is 0, with which no further heartbeat is sent.
\<close>

theorem heartbeat_period_truncated:
  assumes "1 \<le> n" and "n \<le> 0x10"
  shows "(uint (hb_period_ms n) = 2 ^ (unat n - 1) * 1000 \<longleftrightarrow> n \<le> 7) \<and> (hb_period_ms n = 0 \<longleftrightarrow> 14 \<le> n)"
proof -
  let ?P = "\<lambda>n. (uint (hb_period_ms n) = 2 ^ (unat n - 1) * 1000 \<longleftrightarrow> n \<le> 7) \<and> (hb_period_ms n = 0 \<longleftrightarrow> 14 \<le> n)"
  have "list_all ?P [1, 2, 3, 4, 5, 6, 7, 8, 9, 10, 11, 12, 13, 14, 15, 16]" by code_simp
  then show ?thesis using u8_cases_16 [OF assms] unfolding list_all_iff by blast
qed

theorem heartbeat_period_truncated_witness: "uint (hb_period_ms 8) \<noteq> 2 ^ (unat (8 :: u8) - 1) * 1000 \<and> hb_period_ms 14 = 0"
  using heartbeat_period_truncated [of 8] heartbeat_period_truncated [of 14] by simp

section \<open>Key refresh\<close>

text \<open>
  C27.  The key refresh procedure ends as it should: the third phase, reached from the first or the second, replaces the network key by the new one, replaces those application
  keys of this network that were updated, and leaves all other keys alone; the node is back in normal operation.
\<close>

theorem key_refresh_completes:
  assumes "i < length (sub st)" and "kr_phase (sub st ! i) = BT_MESH_KR_PHASE_1 \<or> kr_phase (sub st ! i) = BT_MESH_KR_PHASE_2"
  shows "let st' = krp_transition C i BT_MESH_KR_PHASE_3 st; s = sub st' ! i in
    keys0 s = keys1 (sub st ! i) \<and> kr_phase s = BT_MESH_KR_NORMAL \<and> \<not> kr_flag s \<and> net_idx s = net_idx (sub st ! i) \<and>
    (\<forall>j. j \<noteq> i \<longrightarrow> sub st' ! j = sub st ! j) \<and>
    app_keys st' = map (\<lambda>k. if ak_net_idx k = net_idx (sub st ! i) \<and> ak_updated k then k\<lparr>ak_key0 := ak_key1 k, ak_updated := False\<rparr> else k) (app_keys st)"
proof -
  let ?a = "upd_sub i (\<lambda>s. s\<lparr>kr_phase := BT_MESH_KR_NORMAL, kr_flag := False\<rparr>) (bt_mesh_net_revoke_keys i st)"
  have "krp_transition C i BT_MESH_KR_PHASE_3 st = bt_mesh_net_beacon_update C i ?a" using assms(2) by (auto simp: krp_transition_def Let_def)
  moreover obtain f where "bt_mesh_net_beacon_update C i ?a = upd_sub i (\<lambda>s. s\<lparr>sub_auth := f s\<rparr>) ?a"
  proof (cases "bt_mesh_beacon_auth C (sk_beacon (keys0 (sub ?a ! i))) (bt_mesh_net_flags (Some (sub ?a ! i)) ?a) (sk_net_id (keys0 (sub ?a ! i))) (iv_index ?a)")
    case (Inl e)
    then have "bt_mesh_net_beacon_update C i ?a = upd_sub i (\<lambda>s. s\<lparr>sub_auth := sub_auth s\<rparr>) ?a" by (simp add: bt_mesh_net_beacon_update_def upd_sub_def Let_def)
    then show ?thesis by (rule that)
  next
    case (Inr a)
    then have "bt_mesh_net_beacon_update C i ?a = upd_sub i (\<lambda>s. s\<lparr>sub_auth := a\<rparr>) ?a" by (simp add: bt_mesh_net_beacon_update_def Let_def)
    then show ?thesis by (rule that)
  qed
  ultimately show ?thesis using assms(1) by (simp add: Let_def upd_sub_def bt_mesh_net_revoke_keys_def)
qed

theorem key_refresh_completes_witness:
  "let st = boot_net\<lparr>sub := [boot_subnet\<lparr>kr_phase := BT_MESH_KR_PHASE_2\<rparr>]\<rparr> in
   keys0 (sub (krp_transition null_crypto 0 BT_MESH_KR_PHASE_3 (boot_mesh\<lparr>sub := sub st\<rparr>)) ! 0) = keys1 boot_subnet"
  using key_refresh_completes [of 0 "boot_mesh\<lparr>sub := [boot_subnet\<lparr>kr_phase := BT_MESH_KR_PHASE_2\<rparr>]\<rparr>" null_crypto] by (simp add: Let_def)

section \<open>Keys of the models\<close>

text \<open>
  C12.  No model is bound to a key that does not exist: in every state that a node reaches by provisioning, reset, messages to the configuration server, registration of keys,
  heartbeats, publication and whatever happens in the lower layers, a key that is bound to a model, other than the device key, is an application key that is in the slot
  of its index and belongs to a network of the node.
\<close>

theorem bound_keys_exist:
  assumes "node_init m st0" and "(node_step C m)\<^sup>*\<^sup>* st0 st"
    and "q \<in> set (mod_ptrs st)" and "k \<in> set (mod_keys (get_mod q st))" and "k \<noteq> BT_MESH_KEY_UNUSED" and "k \<noteq> BT_MESH_KEY_DEV"
  shows "unat k < length (app_keys (mesh st)) \<and> ak_app_idx (app_keys (mesh st) ! unat k) = k \<and>
    (\<exists>s\<in>set (sub (mesh st)). net_idx s \<noteq> BT_MESH_KEY_UNUSED \<and> net_idx s = ak_net_idx (app_keys (mesh st) ! unat k))"
proof -
  have inv: "node_inv True m st" using assms(1,2) by (rule node.reach_inv)
  then have "bound_ok (fst (key_table (mesh st))) (mod_keys (get_mod q st))" using assms(3) unfolding node_inv_def by blast
  then have "app_key_is_valid k st" using assms(4-6) unfolding bound_ok_def app_key_is_valid_used by blast
  then obtain i where i: "i < length (app_keys (mesh st))" "ak_net_idx (app_keys (mesh st) ! i) \<noteq> BT_MESH_KEY_UNUSED" "ak_app_idx (app_keys (mesh st) ! i) = k"
    unfolding app_key_is_valid_def by (auto simp: in_set_conv_nth)
  have "unat k = i" using node_inv_slot(1) [OF inv i(1,2)] i(3) by simp
  then show ?thesis using i node_inv_slot(2) [OF inv i(1,2)] by auto
qed

text \<open>A node as it is switched on, with room for two application keys, and the same node with a network and application key 0.\<close>

definition new_node :: node where
  "new_node = (let free = boot_key\<lparr>ak_net_idx := BT_MESH_KEY_UNUSED\<rparr> in
     boot_node\<lparr>mesh := boot_mesh\<lparr>app_keys := [free, free], valid := False, provisioned := False, sub := [boot_subnet\<lparr>net_idx := BT_MESH_KEY_UNUSED\<rparr>]\<rparr>\<rparr>)"

definition no_storage :: genie_io where
  "no_storage = \<lparr>stored_sub = None, stored_user_sub = None, hw_reset = False\<rparr>"

definition used_node :: node where
  "used_node = genie_appkey_register null_crypto no_storage 0 0 (replicate 16 7) False
     (snd (bt_mesh_provision null_crypto 0 (replicate 16 3) 0 0 5 0 1 (replicate 16 9) (snd (bt_mesh_comp_register boot_comp new_node))))"

lemma new_node_init: "node_init 384 (snd (bt_mesh_comp_register boot_comp new_node))"
proof -
  have "mesh_init 384 (mesh new_node)" using boot_mesh_init by (simp add: new_node_def Let_def mesh_init_def)
  moreover have "no_app_keys (mesh new_node)" "length (app_keys (mesh new_node)) \<le> 0x1000" "\<not> valid (mesh new_node)"
    by (simp_all add: new_node_def no_app_keys_def Let_def)
  moreover have "elems boot_comp \<noteq> []" by (simp add: boot_comp_def)
  moreover have "conf (snd (bt_mesh_comp_register boot_comp new_node))" by code_simp
  ultimately show ?thesis unfolding node_init_def by blast
qed

lemma used_node_reached: "(node_step null_crypto 384)\<^sup>*\<^sup>* (snd (bt_mesh_comp_register boot_comp new_node)) used_node"
proof -
  let ?a = "snd (bt_mesh_comp_register boot_comp new_node)"
  let ?b = "snd (bt_mesh_provision null_crypto 0 (replicate 16 3) 0 0 5 0 1 (replicate 16 9) ?a)"
  have "node_step null_crypto 384 ?a ?b" by (rule node_step.provision)
  moreover have "valid (mesh ?b)" by code_simp
  then have "node_step null_crypto 384 ?b used_node" unfolding used_node_def by (rule node_step.register_key)
  ultimately show ?thesis by (meson r_into_rtranclp rtranclp_trans)
qed

theorem bound_keys_exist_witness:
  "0 \<in> set (mod_keys (get_mod (0, False, 1) used_node)) \<and> ak_app_idx (app_keys (mesh used_node) ! unat (0 :: u16)) = 0"
proof -
  have "(0, False, 1) \<in> set (mod_ptrs used_node)" "0 \<in> set (mod_keys (get_mod (0, False, 1) used_node))" by code_simp+
  then show ?thesis using bound_keys_exist [OF new_node_init used_node_reached, of "(0, False, 1)" 0] by simp
qed

section \<open>Reset\<close>

lemma app_key_delete_mesh: "\<exists>ks. mesh (app_key_delete i st) = (mesh st)\<lparr>app_keys := ks\<rparr>"
proof -
  have "mesh (fold (\<lambda>q st. snd (mod_unbind q k st)) qs st) = mesh st" for k qs by (induction qs arbitrary: st) (simp_all add: mod_unbind_state)
  then show ?thesis by (auto simp: app_key_delete_def bt_mesh_model_foreach_def upd_key_def upd_mesh_def Let_def)
qed

lemma delete_loop_mesh: "\<exists>ks. mesh (fold (\<lambda>i st. if P i st then app_key_delete i st else st) xs st) = (mesh st)\<lparr>app_keys := ks\<rparr>"
proof (induction xs arbitrary: st)
  case Nil
  show ?case by (auto intro: exI [of _ "app_keys (mesh st)"])
next
  case (Cons x xs)
  obtain ks where "mesh (if P x st then app_key_delete x st else st) = (mesh st)\<lparr>app_keys := ks\<rparr>"
    using app_key_delete_mesh [of x st] by (cases "P x st") (auto intro: that [of "app_keys (mesh st)"])
  then show ?case using Cons.IH [of "if P x st then app_key_delete x st else st"] by auto
qed

lemma cfg_reset_mesh:
  assumes "conf st"
  shows "\<exists>ks. mesh (bt_mesh_cfg_reset st) =
    (mesh st)\<lparr>hb_sub_dst := BT_MESH_ADDR_UNASSIGNED, app_keys := ks, sub := replicate (length (sub (mesh st))) zero_subnet\<rparr>"
proof -
  have m: "mesh (upd_cfg f x) = mesh x" for f x by (simp add: upd_cfg_def)
  let ?st = "upd_cfg (\<lambda>c. hb_pub_disable (c\<lparr>cfg_hb_sub := (cfg_hb_sub c)\<lparr>hbs_src := BT_MESH_ADDR_UNASSIGNED, hbs_dst := BT_MESH_ADDR_UNASSIGNED, hbs_expiry := 0\<rparr>\<rparr>))
    (upd_mesh (\<lambda>m. m\<lparr>hb_sub_dst := BT_MESH_ADDR_UNASSIGNED\<rparr>) st)"
  obtain ks where "mesh (fold (\<lambda>i st. if ak_net_idx (app_keys (mesh st) ! i) \<noteq> BT_MESH_KEY_UNUSED then app_key_delete i st else st)
    [0..<length (app_keys (mesh ?st))] ?st) = (mesh ?st)\<lparr>app_keys := ks\<rparr>" using delete_loop_mesh [of "\<lambda>i st. ak_net_idx (app_keys (mesh st) ! i) \<noteq> BT_MESH_KEY_UNUSED"] by blast
  then show ?thesis using assms unfolding bt_mesh_cfg_reset_def Let_def by (auto simp: upd_mesh_def m intro!: exI [of _ ks])
qed

lemma tx_reset_quiet:
  assumes "\<not> pending_update ms"
  shows "\<exists>t. bt_mesh_tx_reset C E now ms = ms\<lparr>seg_txs := t\<rparr>"
proof -
  have id: "\<exists>t. x = x\<lparr>seg_txs := t\<rparr>" for x :: mesh_state by (rule exI [of _ "seg_txs x"]) simp
  have s: "\<exists>t. seg_tx_reset C E now i x = x\<lparr>seg_txs := t\<rparr>" if "\<not> pending_update x" for i x
    using that by (auto simp: seg_tx_reset_def upd_tx_def Let_def)
  have "\<exists>t. fold (\<lambda>i st. seg_tx_reset C E now i st) is x = x\<lparr>seg_txs := t\<rparr>" if "\<not> pending_update x" for "is" x
    using that
  proof (induction "is" arbitrary: x)
    case (Cons i "is")
    obtain t where "seg_tx_reset C E now i x = x\<lparr>seg_txs := t\<rparr>" using s [OF Cons.prems] by blast
    then show ?case using Cons.IH [of "x\<lparr>seg_txs := t\<rparr>"] Cons.prems by auto
  qed (simp add: id)
  then show ?thesis using assms unfolding bt_mesh_tx_reset_def by blast
qed

text \<open>
  C13.  A reset makes a node forget its keys: whatever state it reached, afterwards it has no device key, network key or application key, no model is bound to an application key, the
  replay list is empty, the IV index and the sequence number are 0, and the node is not provisioned.
\<close>

theorem reset_forgets_keys:
  assumes "node_init m st0" and "(node_step C m)\<^sup>*\<^sup>* st0 st" and "provisioned (mesh st)"
  shows "let st' = bt_mesh_reset C E now st in
    no_app_keys (mesh st') \<and> set (sub (mesh st')) \<subseteq> {zero_subnet} \<and> dev_key (mesh st') = replicate 16 0 \<and> \<not> provisioned (mesh st') \<and> \<not> valid (mesh st') \<and>
    iv_index (mesh st') = 0 \<and> seq (mesh st') = 0 \<and> set (rpl (mesh st')) \<subseteq> {zero_rpl} \<and>
    (\<forall>q\<in>set (mod_ptrs st'). set (mod_keys (get_mod q st')) \<subseteq> {BT_MESH_KEY_UNUSED, BT_MESH_KEY_DEV})"
proof -
  let ?st = "bt_mesh_reset C E now st"
  have inv: "node_inv True m st" using assms(1,2) by (rule node.reach_inv)
  have inv': "node_inv True m ?st" by (rule node_inv_reset [OF inv])
  define st1 where "st1 = upd_mesh (\<lambda>ms. ms\<lparr>iv_index := 0, seq := 0, iv_update := False, pending_update := False, valid := False, last_update := 0,
    ivu_initiator := False, ivu_timer := False\<rparr>) ((bt_mesh_comp_unprovision st)\<lparr>g_sub_list := replicate (length (g_sub_list (bt_mesh_comp_unprovision st))) 0\<rparr>)"
  have 1: "node_inv False m st1" unfolding st1_def by (intro node_inv_clear_net [where w = True] node_inv_fields node_inv_unprovision inv)
  then obtain ks where ks: "mesh (bt_mesh_cfg_reset st1) =
    (mesh st1)\<lparr>hb_sub_dst := BT_MESH_ADDR_UNASSIGNED, app_keys := ks, sub := replicate (length (sub (mesh st1))) zero_subnet\<rparr>"
    using cfg_reset_mesh [of st1] by (auto simp: node_inv_def)
  let ?ms = "bt_mesh_rx_reset (mesh (bt_mesh_cfg_reset st1))"
  have f1: "\<not> pending_update (mesh st1)" "\<not> valid (mesh st1)" "iv_index (mesh st1) = 0" "seq (mesh st1) = 0" by (simp_all add: st1_def upd_mesh_def)
  have "\<not> pending_update ?ms" using f1 by (simp add: bt_mesh_rx_reset_def ks)
  then obtain t where t: "bt_mesh_tx_reset C (node_env E (bt_mesh_cfg_reset st1)) now ?ms = ?ms\<lparr>seg_txs := t\<rparr>" using tx_reset_quiet by blast
  have "mesh ?st = (?ms\<lparr>seg_txs := t\<rparr>)\<lparr>dev_key := replicate 16 0, rpl := replicate (length (rpl ?ms)) zero_rpl, provisioned := False\<rparr>"
    using assms(3) t unfolding bt_mesh_reset_def Let_def st1_def by (simp add: upd_mesh_def)
  then have fields: "sub (mesh ?st) = replicate (length (sub (mesh st1))) zero_subnet" "dev_key (mesh ?st) = replicate 16 0" "\<not> provisioned (mesh ?st)"
    "\<not> valid (mesh ?st)" "iv_index (mesh ?st) = 0" "seq (mesh ?st) = 0" "set (rpl (mesh ?st)) \<subseteq> {zero_rpl}" "app_keys (mesh ?st) = app_keys (mesh (bt_mesh_cfg_reset st1))"
    using f1 by (auto simp: bt_mesh_rx_reset_def ks)
  have no: "no_app_keys (mesh ?st)" using cfg_reset_ok(2) [OF 1] fields(8) by (simp add: no_app_keys_def)
  then have "\<not> used_key (fst (key_table (mesh ?st))) k" for k by (auto simp: used_key_def key_table_def no_app_keys_def)
  then have "set (mod_keys (get_mod q ?st)) \<subseteq> {BT_MESH_KEY_UNUSED, BT_MESH_KEY_DEV}" if "q \<in> set (mod_ptrs ?st)" for q
    using inv' that unfolding node_inv_def bound_ok_def by blast
  then show ?thesis using fields no by (auto simp: Let_def)
qed

theorem reset_forgets_keys_witness: "\<not> no_app_keys (mesh used_node) \<and> no_app_keys (mesh (bt_mesh_reset null_crypto quiet_env 0 used_node))"
proof -
  have "provisioned (mesh used_node)" "\<not> no_app_keys (mesh used_node)" by code_simp+
  then show ?thesis using reset_forgets_keys [OF new_node_init used_node_reached, of quiet_env 0] by (simp add: Let_def)
qed

section \<open>The key of the configuration server\<close>

text \<open>The set-up of the models reads only the table of keys from the lower layers.\<close>

lemma upd_mod_mesh: "upd_mod q f (st\<lparr>mesh := ms\<rparr>) = (upd_mod q f st)\<lparr>mesh := ms\<rparr>"
  by (cases q) (simp add: upd_mod_def upd_elem_def)

lemma get_mod_mesh [simp]: "get_mod q (st\<lparr>mesh := ms\<rparr>) = get_mod q st" "dev_elems (st\<lparr>mesh := ms\<rparr>) = dev_elems st"
  by (simp_all add: get_mod_def dev_elems_def)

lemma setup_mod_mesh:
  assumes "key_table ms = key_table (mesh st)"
  shows "setup_mod k q (st\<lparr>mesh := ms\<rparr>) = (setup_mod k q st)\<lparr>mesh := ms\<rparr>" and "mesh (setup_mod k q st) = mesh st"
  using assms by (auto simp: setup_mod_def mod_bind_def app_key_is_valid_used upd_mod_mesh Let_def split: option.split)

lemma setup_fold_mesh:
  assumes "key_table ms = key_table (mesh st)" and "\<And>j s ms. P j (s\<lparr>mesh := ms\<rparr>) = P j s"
  shows "fold (\<lambda>j st. setup_mod k (P j st) st) js (st\<lparr>mesh := ms\<rparr>) = (fold (\<lambda>j st. setup_mod k (P j st) st) js st)\<lparr>mesh := ms\<rparr> \<and>
    mesh (fold (\<lambda>j st. setup_mod k (P j st) st) js st) = mesh st"
  using assms(1)
proof (induction js arbitrary: st)
  case (Cons j js)
  note s = setup_mod_mesh [OF Cons.prems, of k "P j st"]
  show ?case using Cons.IH [of "setup_mod k (P j st) st"] Cons.prems s by (simp add: assms(2))
qed simp

lemma setup_elem_mesh:
  assumes "key_table ms = key_table (mesh st)"
  shows "setup_elem k i (st\<lparr>mesh := ms\<rparr>) = (setup_elem k i st)\<lparr>mesh := ms\<rparr> \<and> mesh (setup_elem k i st) = mesh st"
proof -
  have p: "sig_ptr i j (s\<lparr>mesh := x\<rparr>) = sig_ptr i j s" "vnd_ptr i j (s\<lparr>mesh := x\<rparr>) = vnd_ptr i j s" for j s x by (simp_all add: sig_ptr_def vnd_ptr_def)
  define st1 where "st1 = fold (\<lambda>j st. setup_mod k (sig_ptr i j st) st) [0..<length (el_models (dev_elems st ! i))] st"
  have 1: "fold (\<lambda>j st. setup_mod k (sig_ptr i j st) st) [0..<length (el_models (dev_elems st ! i))] (st\<lparr>mesh := ms\<rparr>) = st1\<lparr>mesh := ms\<rparr>" "mesh st1 = mesh st"
    using setup_fold_mesh [OF assms, of "sig_ptr i"] p by (auto simp: st1_def)
  then show ?thesis
    using setup_fold_mesh [of ms st1 "vnd_ptr i" k "[0..<length (el_vnd_models (dev_elems st1 ! i))]"] p assms
    unfolding setup_elem_def Let_def by (simp add: st1_def)
qed

lemma setup_mesh:
  "key_table ms = key_table (mesh st) \<Longrightarrow> genie_mesh_setup k (st\<lparr>mesh := ms\<rparr>) = (genie_mesh_setup k st)\<lparr>mesh := ms\<rparr>"
proof -
  have find: "bt_mesh_elem_find a (s\<lparr>mesh := x\<rparr>) = bt_mesh_elem_find a s" for a s x
    unfolding bt_mesh_elem_find_def bt_mesh_elem_find_group_def bt_mesh_model_find_group_def get_mod_mesh ..
  have "key_table ms = key_table (mesh st) \<Longrightarrow> mesh_setup_loop k ns (st\<lparr>mesh := ms\<rparr>) = (mesh_setup_loop k ns st)\<lparr>mesh := ms\<rparr>" for ns
    by (induction k ns st rule: mesh_setup_loop.induct) (auto simp: find setup_elem_mesh split: option.split)
  then show "key_table ms = key_table (mesh st) \<Longrightarrow> ?thesis" by (simp add: genie_mesh_setup_def)
qed

lemma reply_keeps_keys:
  assumes "node_inv w m st"
  obtains ms where "reply C E now p rx n msg st = st\<lparr>mesh := ms\<rparr>" and "key_table ms = key_table (mesh st)"
proof (cases "bt_mesh_subnet_get (rx_net_idx rx) (mesh st)")
  case None
  then have "reply C E now p rx n msg st = st\<lparr>mesh := mesh st\<rparr>" by (simp add: reply_def bt_mesh_model_send_def ctx_of_def)
  then show ?thesis using that by blast
next
  case (Some sb)
  let ?tx = "tx_of (ctx_of rx) sb (mod_addr p st)"
  have "sub (mesh st) \<noteq> []" using assms by (simp add: node_inv_def mesh_wf_def net_wf_def)
  then have sb: "tx_sub ?tx < length (sub (mesh st))" using subnet_get_bound [OF Some] by (simp add: tx_of_def)
  obtain e ms where t: "bt_mesh_trans_send C (node_env E st) now ?tx msg (n - length msg) False (mesh st) = (e, ms)" by fastforce
  have "key_table ms = key_table (mesh st)" using mesh_ok_trans_send [OF sb, of m C "node_env E st" now msg "n - length msg" False] t by (simp add: mesh_ok_def)
  moreover have "reply C E now p rx n msg st = st\<lparr>mesh := ms\<rparr> \<or> reply C E now p rx n msg st = st\<lparr>mesh := mesh st\<rparr>"
    using Some t by (auto simp: reply_def bt_mesh_model_send_def ctx_of_def model_send_def)
  ultimately show ?thesis using that by blast
qed

text \<open>The message that adds a key and its registration by the Genie service have the same effect on the models.\<close>

lemma app_key_add_models:
  assumes "node_inv w m st" and "valid (mesh st)" and "key_idx_unpack buf = (n, a)"
  shows "dev_comp (app_key_add C E now G p rx buf st) = dev_comp (genie_appkey_register C G n a (take 16 (drop 3 buf)) False st)"
proof -
  obtain s st1 where k: "app_key_set C n a (take 16 (drop 3 buf)) False st = (s, st1)" by fastforce
  have "node_inv w m st1" using node_inv_app_key_set [OF assms(1,2), of C n a "take 16 (drop 3 buf)" False] k by simp
  then obtain ms where ms: "reply C E now p rx (2 + 4 + 4) (app_key_status s n a) st1 = st1\<lparr>mesh := ms\<rparr>" "key_table ms = key_table (mesh st1)"
    by (rule reply_keeps_keys)
  have "genie_mesh_load_group_addr G (st1\<lparr>mesh := ms\<rparr>) = (genie_mesh_load_group_addr G st1)\<lparr>mesh := ms\<rparr>"
    "mesh (genie_mesh_load_group_addr G st1) = mesh st1" by (simp_all add: genie_mesh_load_group_addr_def Let_def)
  then show ?thesis using setup_mesh [of ms "genie_mesh_load_group_addr G st1" a] ms assms(3) k
    by (simp add: app_key_add_def genie_appkey_register_def Let_def)
qed

definition net_node :: node where
  "net_node = snd (bt_mesh_provision null_crypto 0 (replicate 16 3) 0 0 5 0 1 (replicate 16 9) (snd (bt_mesh_comp_register boot_comp new_node)))"


end
