(* ===== verification/Spec2Isabelle.thy ===== *)
theory Spec2Isabelle
  imports Bitmap KList Task_Props Mblk Timer_Props Mesh_Tx Mesh_Deliver Mesh_Cfg_Props
begin

text \<open>
  \<^bold>\<open>The Genie Bluetooth mesh SDK: the AliOS Things kernel and the mesh stack.\<close>

  The SDK (\<^verbatim>\<open>genie-bt-mesh-sdk-rel_1.3.4\<close>) runs its Bluetooth mesh stack (\<^verbatim>\<open>network/bluetooth/bt_mesh\<close>) on the real-time kernel
  \<^verbatim>\<open>rhino\<close> (\<^verbatim>\<open>kernel/rhino/core\<close>).  This development models the kernel as it is configured for the
  TG7100B board (\<^verbatim>\<open>board/tg7100b/k_config.h\<close>, \<^verbatim>\<open>tg7100b.mk\<close>): one CPU, 62 priorities, 1000 ticks per
  second, no work queues, preemptive scheduling with round robin; and the mesh stack as it is configured for the light
  applications (relay, GATT proxy and beacons, without friendship, low power and test mode); and proves that they are correct.

  \<^bold>\<open>Parts and theories.\<close>
  \<^item> \<open>Kernel_Prelude\<close>, \<open>Kernel_Types\<close>: list and word lemmas, the enumerations of \<^verbatim>\<open>k_err.h\<close>, \<^verbatim>\<open>k_obj.h\<close>, \<^verbatim>\<open>k_task.h\<close>.
  \<^item> \<open>Bitmap\<close> (\<^verbatim>\<open>k_bitmap.h\<close>) and \<open>KList\<close> (\<^verbatim>\<open>k_list.h\<close>): bit search; doubly linked rings in a pointer heap
    and their refinement to lists, which all other theories use.
  \<^item> \<open>Ready_Queue\<close> (\<^verbatim>\<open>k_sched.c\<close>) and \<open>Ringbuf\<close> (\<^verbatim>\<open>k_ringbuf.c\<close>): each with a locale that states the contract
    (\<open>priority_ready_queue\<close>, \<open>message_fifo\<close>) and an interpretation on the code's model.
  \<^item> \<open>Kernel_State\<close>: the state of the kernel as a record of maps from addresses to objects.
    \<open>Sched\<close> (\<^verbatim>\<open>k_sched.c\<close>, \<^verbatim>\<open>k_tick.c\<close>, \<^verbatim>\<open>k_pend.c\<close>, \<^verbatim>\<open>k_sys.c\<close>), \<open>Mutex\<close> (\<^verbatim>\<open>k_mutex.c\<close>), \<open>Sem\<close> (\<^verbatim>\<open>k_sem.c\<close>,
    \<^verbatim>\<open>k_task_sem.c\<close>), \<open>Event\<close> (\<^verbatim>\<open>k_event.c\<close>), \<open>Msg_Queue\<close> (\<^verbatim>\<open>k_queue.c\<close>, \<^verbatim>\<open>k_buf_queue.c\<close>), \<open>Task\<close> (\<^verbatim>\<open>k_task.c\<close>,
    \<^verbatim>\<open>k_tick.c\<close>, \<^verbatim>\<open>k_time.c\<close>), \<open>Boot\<close> (\<^verbatim>\<open>k_sys.c\<close>, \<^verbatim>\<open>k_idle.c\<close>, \<^verbatim>\<open>k_dyn_mem_proc.c\<close>): one definition per C function.
  \<^item> \<open>Kernel_Inv\<close>, \<open>Kernel_Good\<close>: the invariant \<open>kinv\<close>; \<open>Mutex_Chain\<close>, \<open>Priority_Inheritance\<close>, \<open>Mutex_Side\<close>,
    \<open>Wait_Safe\<close>: the chain of owned mutexes and the propagation of priorities;
    \<open>Sem_Safe\<close>, \<open>Event_Safe\<close>, \<open>Queue_Safe\<close>, \<open>Mutex_Safe\<close>, \<open>Task_Safe\<close>, \<open>Task_Del\<close>, \<open>Tick_Safe\<close>: every operation keeps \<open>kinv\<close>.
  \<^item> \<open>Kernel_Run\<close>: the kernel as a transition system with one rule per call (\<open>kstep\<close>), the locale
    \<open>invariant_system\<close> and its interpretation on the kernel; \<open>reachable\<close> states.
  \<^item> \<open>Time_Props\<close>, \<open>Ipc_Props\<close>, \<open>Queue_Props\<close>, \<open>Task_Props\<close> and this theory: what the calls do for
    their clients in reachable states.
  \<^item> \<open>Timer\<close>, \<open>Timer_Props\<close> (\<^verbatim>\<open>k_timer.c\<close>): software timers, with the state of the timer task, its loops and the commands of the
    clients; a second interpretation of \<open>invariant_system\<close>; timers fire on time and the loops end.
  \<^item> \<open>Mblk\<close> (\<^verbatim>\<open>k_mm_blk.c\<close>): pools of memory blocks over a word memory, with the locale \<open>block_allocator\<close>.

  \<^item> \<open>Mesh_Crypto\<close> (\<^verbatim>\<open>crypto.c\<close>), \<open>Mesh_Net\<close> (\<^verbatim>\<open>net.c\<close>, \<^verbatim>\<open>beacon.c\<close>), \<open>Mesh_Trans\<close> (\<^verbatim>\<open>transport.c\<close>): the layers of the mesh stack from the
    encryption to the delivery of a message, over the records of \<^verbatim>\<open>net.h\<close>; \<open>Mesh_Witness\<close>: a small network for the witnesses.
  \<^item> \<open>Mesh_Fresh\<close>: replay protection and nonces, two interpretations of the locale \<open>fresh_stream\<close>; \<open>Mesh_Net_Props\<close>: PDUs between nodes, relays,
    beacons; \<open>Mesh_Sar\<close>: reassembly; \<open>Mesh_Wf\<close>: the stack as a transition system (\<open>mesh_step\<close>) and its well-formedness, a third interpretation of
    \<open>invariant_system\<close>; \<open>Mesh_Tx\<close>: the sender of a segmented message.
  \<^item> \<open>Mesh_Node\<close> (\<^verbatim>\<open>access.h\<close>, \<^verbatim>\<open>cfg_srv.h\<close>): the state of a node, that is the stack, the composition of elements and models, the publications and the configuration.
    \<open>Mesh_Access\<close> (\<^verbatim>\<open>access.c\<close>): dispatch, sending and periodic publication; \<open>Mesh_Access_Props\<close>: operation codes, which handlers a message reaches, the rhythm of publication;
    \<open>Mesh_Deliver\<close>: a message from a model of one node to the handler of another, through all layers.
  \<^item> \<open>Mesh_Cfg\<close> (\<^verbatim>\<open>cfg_srv.c\<close>, \<^verbatim>\<open>main.c\<close>): one definition per handler of the configuration server, and the provisioning, reset and suspension of the node; \<open>Mesh_Cfg_Inv\<close>: the node as a
    transition system (\<open>node_step\<close>) and the invariant of its keys, a fourth interpretation of \<open>invariant_system\<close>; \<open>Mesh_Cfg_Props\<close>: bound keys exist, a reset forgets them, lists of key
    indices, key refresh, heartbeats.

  \<^bold>\<open>How the model corresponds to the code.\<close>  A pointer that may be NULL is an \<open>option\<close>; objects live in
  total maps from addresses (natural numbers) to records with the fields of the C structs; an
  intrusive list is the list of the addresses linked in it, and a NULL
  \<^verbatim>\<open>tick_head\<close> is a flag.  Counters and times have their C width (\<open>word\<close>).  A call runs between
  \<^verbatim>\<open>RHINO_CRITICAL_ENTER\<close> and \<^verbatim>\<open>EXIT\<close> with interrupts masked and is one step of the
  model; a call that blocks returns \<open>Blocked\<close> and its rest is a definition of its own, run when the
  task is scheduled again.  A context switch changes \<open>g_active_task\<close>.  A NULL
  dereference, an access outside an array or an endless loop sets \<open>fault\<close>.
  Loops that walk pointers (\<open>task_pri_change\<close>, \<open>mutex_pri_look\<close>, \<open>drain_loop\<close>) are partial functions in the option
  monad, and the lemmas show that they return; no fuel is used anywhere.

  A function of the mesh stack takes the crypto library \<open>crypto_lib\<close> (AES and CMAC, outside the repository), the answers of the other
  layers \<open>mesh_env\<close> (configuration server, proxy, bearer, elements) and the uptime as arguments, and returns the new state; PDUs that leave the node
  are collected in \<open>outbox\<close>, messages for the models in \<open>delivered\<close>.  A buffer is a list of bytes with its tailroom; an access out
  of bounds is the error \<open>EFAULT\<close>.  The theorems use of the crypto library only that it returns 16 bytes
  (\<open>crypto_ok\<close>), and the witnesses use a library that encrypts with zeros.    A handler of the configuration server gets the message context and the parameters and answers through the access layer (\<open>reply\<close>); a pointer to a model is the index of its element, the kind
  and the index of the model (\<open>mod_ptr\<close>); the handlers of the other models and the callbacks are arguments.  The loops end by their measures; \<open>find_lsb_set\<close>, \<open>find_msb_set\<close> and the loop over the bits
  of an acknowledgement get 32 rounds, as many as the word has bits, and \<open>acknowledgement_exact\<close> shows that these are enough.

  \<^bold>\<open>Assumptions on clients\<close> (the premises of the rules of \<open>kstep\<close>): an object is created in unused memory of the
  stated size, only live tasks are deleted, the idle task does not block, a task does not close a
  cycle of waiting mutex owners.  The results of \<^verbatim>\<open>krhino_mm_alloc\<close> are arguments of the operations that call it.

  \<^bold>\<open>Not modelled.\<close>  The heap (\<^verbatim>\<open>k_mm.c\<close>), debugging and statistics (\<^verbatim>\<open>k_mm_debug.c\<close>, \<^verbatim>\<open>k_stats.c\<close>), work queues (switched
  off), multi-core variants, assembly and drivers; of the mesh stack the provisioning protocol, the proxy and the
  advertising bearer (answers of the bearers are arguments), the health server, the clients and the shell, and what is switched off (friendship, low power); the host stack, the Genie services and the other subsystems of the SDK.
\<close>

section \<open>Properties of every reachable state\<close>

text \<open>
  C1.  Whatever legal calls tasks and interrupt handlers make, in whatever order, the kernel never
  dereferences NULL, leaves an array or loops forever, never calls the error hook with
  \<open>RHINO_SYS_FATAL_ERR\<close>, and keeps the nesting of the scheduler lock within its limit.
\<close>

theorem kernel_never_faults:
  assumes "reachable s"
  shows "\<not> fault s \<and> RHINO_SYS_FATAL_ERR \<notin> set (errs s) \<and> g_sched_lock s \<le> SCHED_MAX_LOCK_COUNT"
  using kgoodD [OF kinvD(1) [OF reachable_kinv [OF assms]]] by (simp add: kbase_def)

theorem kernel_never_faults_witness: "\<not> fault contended_kernel"
  using kernel_never_faults [OF contended_kernel(1)] by blast

text \<open>
  C2.  Outside interrupt handlers and with the scheduler unlocked, the running task is ready and no ready
  task has a higher priority; while an interrupt is handled or the scheduler is locked, the running
  task may be overtaken, but with a locked scheduler it is always ready.
\<close>

theorem highest_priority_task_runs:
  assumes "reachable s"
  shows "(g_intrpt_nested_level s = 0 \<or> g_sched_lock s > 0 \<longrightarrow> task_state (tcb s (g_active_task s)) = K_RDY) \<and>
    (g_intrpt_nested_level s = 0 \<and> g_sched_lock s = 0 \<longrightarrow>
      (\<forall>t. task_state (tcb s t) = K_RDY \<longrightarrow> prio (tcb s (g_active_task s)) \<le> prio (tcb s t)))"
proof -
  have i: "kinv s" using assms by (rule reachable_kinv)
  have "prio (tcb s (g_active_task s)) \<le> prio (tcb s t)"
    if "g_intrpt_nested_level s = 0" "g_sched_lock s = 0" "task_state (tcb s t) = K_RDY" for t
    using rdy_ok_top [OF kgood_parts(1) [OF kinvD(1) [OF i]] that(3)] kinvD(2) [OF i] that
    by (auto simp: run_ok_def)
  then show ?thesis using kinvD(2) [OF i] by (auto simp: run_ok_def)
qed

theorem highest_priority_task_runs_witness:
  "prio (tcb contended_kernel g_dyn_task) \<le> prio (tcb contended_kernel g_idle_task) \<or> g_sched_lock contended_kernel > 0"
  using highest_priority_task_runs [OF contended_kernel(1)] contended_kernel(2,3)
    prio_okD(1) [OF kgood_parts(4) [OF kinvD(1) [OF reachable_kinv [OF contended_kernel(1)]]]]
  by (auto simp: word_gt_0)

text \<open>
  C18.  The ready queue is exact: the ring of priority \<open>p\<close> holds each ready task of that priority
  once and nothing else, bit \<open>p\<close> of the bitmap says whether the ring is empty, and
  \<open>highest_pri\<close> is the highest priority with a ready task.
\<close>

theorem ready_queue_exact:
  assumes "reachable s"
  shows "(\<forall>p. distinct (cur_list_item (g_ready_queue s) p) \<and>
      set (cur_list_item (g_ready_queue s) p) = {t. task_state (tcb s t) = K_RDY \<and> prio (tcb s t) = p} \<and>
      bitmap_test (task_bit_map (g_ready_queue s)) p = (cur_list_item (g_ready_queue s) p \<noteq> [])) \<and>
    (\<exists>t. task_state (tcb s t) = K_RDY \<and> prio (tcb s t) = highest_pri (g_ready_queue s)) \<and>
    (\<forall>t. task_state (tcb s t) = K_RDY \<longrightarrow> highest_pri (g_ready_queue s) \<le> prio (tcb s t))"
proof -
  let ?q = "g_ready_queue s"
  note p = kgood_parts [OF kinvD(1) [OF reachable_kinv [OF assms]]]
  note h = p(1) [unfolded rdy_ok_def]
  have mem: "t \<in> set (cur_list_item ?q r) \<longleftrightarrow> task_state (tcb s t) = K_RDY \<and> prio (tcb s t) = r" for t r
    using rq.holdsD(3) [OF h, of t r] by (simp add: rdy_view_def)
  have "g_idle_task \<in> set (cur_list_item ?q 61)" using mem prio_okD(1,2) [OF p(4)] by simp
  then have "cur_list_item ?q 61 \<noteq> []" by auto
  from rq_wf_nonempty_bounds(2) [OF rq.holdsD(1) [OF h] this] have "highest_pri ?q < 62" by simp
  then have "cur_list_item ?q (highest_pri ?q) \<noteq> []" using rq_wfD(6) [OF rq.holdsD(1) [OF h]] by simp
  then have "\<exists>t. task_state (tcb s t) = K_RDY \<and> prio (tcb s t) = highest_pri ?q"
    using mem [of _ "highest_pri ?q"] by (metis list.set_sel(1))
  moreover have "highest_pri ?q \<le> prio (tcb s t)" if "task_state (tcb s t) = K_RDY" for t
    using rq_wf_nonempty_bounds(2) [OF rq.holdsD(1) [OF h], of "prio (tcb s t)"] mem [of t "prio (tcb s t)"] that
    by (metis empty_iff empty_set)
  ultimately show ?thesis
    using rq.holdsD(2) [OF h] mem rq_wfD(2) [OF rq.holdsD(1) [OF h]] by auto
qed

theorem ready_queue_exact_witness: "set (cur_list_item (g_ready_queue started_kernel) 5) = {g_timer_task}"
proof -
  have "{t. task_state (boot_tasks t) = K_RDY \<and> prio (boot_tasks t) = 5} = {g_timer_task}"
    by (auto simp: zero_tcb_def split: if_splits)
  then show ?thesis using ready_queue_exact [OF reachable_started] by (simp add: started_fields del: fun_upd_apply)
qed

text \<open>
  C19.  The waiting lists are exact: a task is in the list of an object if and only if it waits for that
  object, once, and the list is in priority order; each waiting task waits for one object.
\<close>

theorem waiting_lists_exact:
  assumes "reachable s"
  shows "(\<forall>b. distinct (blk_list (blks s b)) \<and>
      set (blk_list (blks s b)) = {t. is_pend (tcb s t) \<and> blk_obj (tcb s t) = Some b} \<and>
      (blk_policy (blks s b) = BLK_POLICY_PRI \<longrightarrow> sorted (map (\<lambda>t. prio (tcb s t)) (blk_list (blks s b))))) \<and>
    (\<forall>t. is_pend (tcb s t) \<longrightarrow> (\<exists>!b. t \<in> set (blk_list (blks s b))))"
proof -
  note b = kgood_parts(2) [OF kinvD(1) [OF reachable_kinv [OF assms]]]
  have mem: "t \<in> set (blk_list (blks s c)) \<longleftrightarrow> is_pend (tcb s t) \<and> blk_obj (tcb s t) = Some c" for t c
    by (rule blk_okD(2) [OF b])
  have "\<exists>!c. t \<in> set (blk_list (blks s c))" if "is_pend (tcb s t)" for t
    using blk_okD(3) [OF b that] that by (auto simp: mem)
  then show ?thesis using blk_okD(1,4) [OF b] mem by auto
qed

theorem waiting_lists_exact_witness: "is_pend (tcb waiting_kernel g_timer_task) \<and> blk_obj (tcb waiting_kernel g_timer_task) = Some 7"
proof -
  have "g_timer_task \<in> set (blk_list (blks waiting_kernel 7))" by (simp add: waiting_kernel)
  then show ?thesis using waiting_lists_exact [OF waiting_kernel(1)] by blast
qed

text \<open>
  C3.  Priority inheritance is exact: the priority of every live task is the highest (numerically the
  least) of its own base priority and the priorities of the tasks that wait for a mutex it
  owns; so a boost is neither missed nor kept too long.
\<close>

theorem priority_inheritance_exact:
  assumes "reachable s" and "is_live (tcb s t)"
  shows "prio (tcb s t) = Min (insert (b_prio (tcb s t))
    {prio (tcb s w) | w m. obj_type (blks s m) = RHINO_MUTEX_OBJ_TYPE \<and> mutex_task (mutexes s m) = Some t \<and>
       is_pend (tcb s w) \<and> blk_obj (tcb s w) = Some m})" (is "_ = Min (insert _ ?W)")
proof -
  note p = kgood_parts [OF kinvD(1) [OF reachable_kinv [OF assms(1)]]]
  have v: "pi_val (tasks s) (blks s) (mutexes s) t (prio (tcb s t))" using p(6) assms(2) by (simp add: pi_ok_def)
  have "?W \<subseteq> {..<62}" using prio_okD(6) [OF p(4)] by (auto simp: is_pend_def is_live_def)
  then have "finite ?W" by (rule finite_subset) simp
  moreover have "prio (tcb s t) \<in> insert (b_prio (tcb s t)) ?W" "\<And>x. x \<in> insert (b_prio (tcb s t)) ?W \<Longrightarrow> prio (tcb s t) \<le> x"
    using v by (auto simp: pi_val_def holds_mutex_def waits_mutex_def is_mutex_def)
  ultimately show ?thesis by (intro Min_eqI [symmetric]) auto
qed

theorem priority_inheritance_exact_witness:
  "prio (tcb contended_kernel g_dyn_task) = Min (insert (b_prio (tcb contended_kernel g_dyn_task))
    {prio (tcb contended_kernel w) | w m. obj_type (blks contended_kernel m) = RHINO_MUTEX_OBJ_TYPE \<and>
       mutex_task (mutexes contended_kernel m) = Some g_dyn_task \<and> is_pend (tcb contended_kernel w) \<and>
       blk_obj (tcb contended_kernel w) = Some m})"
proof -
  have "is_live (tcb contended_kernel g_dyn_task)"
    using run_ok_active [OF kinvD(2) [OF reachable_kinv [OF contended_kernel(1)]] contended_kernel(2)] contended_kernel(3)
    by (simp add: is_live_def)
  then show ?thesis by (rule priority_inheritance_exact [OF contended_kernel(1)])
qed

text \<open>
  C20.  Raising the priority of a live task ends: the loop that walks along the owners of the mutexes the
  task and its owners wait for (\<open>task_pri_change\<close>) always returns success, because
  the chain of waiting owners has no cycle.
\<close>

theorem priority_change_terminates:
  assumes "reachable s" and "is_live (tcb s t)" and "t \<noteq> g_idle_task" and "p < prio (tcb s t)"
  shows "acyclic (waits_for (tasks s) (blks s) (mutexes s)) \<and> (\<exists>s'. task_pri_change t p s = Some (RHINO_SUCCESS, s'))"
proof -
  note g = kinvD(1) [OF reachable_kinv [OF assms(1)]]
  note q = kgood_parts [OF g]
  have pi: "pi_val (tasks s) (blks s) (mutexes s) v (prio (tcb s v))" if "is_live (tcb s v)" for v
    using q(6) that by (simp add: pi_ok_def)
  have ac: "acyclic (waits_for (tasks s) (blks s) (mutexes s))" using wf_acyclic [OF q(7)] .
  then have "v \<noteq> t" if "(v, t) \<in> (waits_for (tasks s) (blks s) (mutexes s))\<^sup>+" for v
    using that by (auto simp: acyclic_def)
  moreover have "pi_valx [t \<mapsto> p] (tasks s) (blks s) (mutexes s) t p"
    unfolding pi_valx_def using pi [OF assms(2)] assms(4) by (intro exI [of _ "prio (tcb s t)"]) simp
  moreover have "pi_valx [t \<mapsto> p] (tasks s) (blks s) (mutexes s) v (prio (tcb s v))" if "is_live (tcb s v)" "v \<noteq> t" for v
    using pi [OF that(1)] that(2) by (simp add: pi_valx_None)
  ultimately have "pri_pre [t \<mapsto> p] s t p" using kgoodD(1) [OF g] q(5,7) assms(2,3) by (auto simp: pri_pre_def)
  then show ?thesis using task_pri_change_ok ac by blast
qed

theorem priority_change_terminates_witness:
  "\<exists>s'. task_pri_change g_timer_task 1 started_kernel = Some (RHINO_SUCCESS, s')"
  using priority_change_terminates [OF reachable_started, of g_timer_task 1] by (simp add: started_fields is_live_def)

text \<open>
  C4.  No wake-up is lost: in no reachable state does a task wait for a semaphore with units left, for a
  queue or buffer queue with messages, for event flags that already meet its request, or for a
  mutex that nobody owns; and no task waits for a deleted object.
\<close>

theorem no_lost_wakeup:
  assumes "reachable s" and "is_pend (tcb s t)" and "blk_obj (tcb s t) = Some b"
  shows "case obj_type (blks s b) of
      RHINO_SEM_OBJ_TYPE \<Rightarrow> ksem.count (sems s b) = 0
    | RHINO_QUEUE_OBJ_TYPE \<Rightarrow> q_cur_num (queues s b) = 0
    | RHINO_BUF_QUEUE_OBJ_TYPE \<Rightarrow> bq_cur_num (buf_queues s b) = 0
    | RHINO_EVENT_OBJ_TYPE \<Rightarrow> \<not> event_match (flags (events s b)) (pend_flags (tcb s t)) (pend_option (tcb s t))
    | RHINO_MUTEX_OBJ_TYPE \<Rightarrow> (\<exists>u. mutex_task (mutexes s b) = Some u \<and> is_live (tcb s u) \<and> u \<noteq> t)
    | RHINO_OBJ_TYPE_NONE \<Rightarrow> False
    | _ \<Rightarrow> True"
proof -
  note g = kinvD(1) [OF reachable_kinv [OF assms(1)]]
  note p = kgood_parts [OF g]
  have t: "t \<in> set (blk_list (blks s b))" using blk_okD(2) [OF p(2), of t b] assms(2,3) by simp
  then have ne: "blk_list (blks s b) \<noteq> []" by auto
  have "\<exists>u. mutex_task (mutexes s b) = Some u \<and> is_live (tcb s u) \<and> u \<noteq> t" if m: "is_mutex (blks s b)"
  proof -
    obtain u where u: "mutex_task (mutexes s b) = Some u" using mtx_okD(5) [OF p(5) m ne] by auto
    then have h: "holds_mutex (blks s) (mutexes s) u b" using m by (simp add: holds_mutex_def)
    then have "(u, t) \<in> waits_for (tasks s) (blks s) (mutexes s)"
      using assms(2,3) by (auto simp: waits_for_def waits_mutex_def)
    then have "u \<noteq> t" using wf_irrefl [OF p(7), of t] by blast
    then show ?thesis using u mtx_okD(2) [OF p(5) h] by blast
  qed
  then show ?thesis
    using kgoodD(5) [OF g, of b] ne t by (auto simp: obj_ok_def is_mutex_def word_gt_0 split: kobj_type.splits)
qed

theorem no_lost_wakeup_witness: "ksem.count (sems waiting_kernel 7) = 0"
proof -
  have "is_pend (tcb waiting_kernel g_timer_task)" by (simp add: is_pend_def waiting_kernel)
  moreover have "blk_obj (tcb waiting_kernel g_timer_task) = Some 7"
    using blk_okD(2) [OF kgood_parts(2) [OF kinvD(1) [OF reachable_kinv [OF waiting_kernel(1)]]], of g_timer_task 7]
    by (simp add: waiting_kernel)
  ultimately show ?thesis using no_lost_wakeup [OF waiting_kernel(1)] by (fastforce simp: waiting_kernel)
qed

text \<open>
  C21.  Starting works: after \<open>krhino_init\<close>, and whatever tasks have been created before
  \<open>krhino_start\<close>, the start hands control to a ready task of the highest priority, and the kernel runs.
\<close>

theorem kernel_starts:
  assumes "kboot s"
  shows "fst (krhino_start s) = Blocked \<and> g_sys_stat (snd (krhino_start s)) = RHINO_RUNNING \<and>
    (let s' = snd (krhino_start s) in task_state (tcb s' (g_active_task s')) = K_RDY \<and>
      (\<forall>t. task_state (tcb s' t) = K_RDY \<longrightarrow> prio (tcb s' (g_active_task s')) \<le> prio (tcb s' t)))"
proof -
  let ?s' = "snd (krhino_start s)"
  have r: "kready s" using assms by (rule kready_kboot)
  have i: "kinv ?s'" "fst (krhino_start s) = Blocked" using kinv_start [OF r] by auto
  have z: "g_intrpt_nested_level ?s' = 0" "g_sched_lock ?s' = 0"
    using r by (simp_all add: krhino_start_def kready_def raise_fault_def split: option.split)
  have a: "task_state (tcb ?s' (g_active_task ?s')) = K_RDY" using run_ok_active [OF kinvD(2) [OF i(1)] z(1)] .
  have "prio (tcb ?s' (g_active_task ?s')) \<le> prio (tcb ?s' t)" if "task_state (tcb ?s' t) = K_RDY" for t
    using rdy_ok_top [OF kgood_parts(1) [OF kinvD(1) [OF i(1)]] that] kinvD(2) [OF i(1)] z that by (auto simp: run_ok_def)
  then show ?thesis using i a kgoodD(8) [OF kinvD(1) [OF i(1)]] by (simp add: Let_def)
qed

theorem kernel_starts_witness: "fst (krhino_start (snd (krhino_init zero_kstate))) = Blocked"
  using kernel_starts [OF kboot.init] by blast

text \<open>
  A task that is created ready with a higher priority than the running one runs at once.
\<close>

theorem new_task_preempts:
  assumes "reachable s" and "g_intrpt_nested_level s = 0" and "g_sched_lock s = 0" and "\<not> is_live (tcb s t)"
    and "pri < prio (tcb s (g_active_task s))" and "stack > 0"
  shows "fst (krhino_task_create (Some t) True pri ticks True stack True True s) = RHINO_SUCCESS \<and>
    g_active_task (snd (krhino_task_create (Some t) True pri ticks True stack True True s)) = t"
proof -
  let ?s = "snd (krhino_task_create (Some t) True pri ticks True stack True True s)"
  note i = reachable_kinv [OF assms(1)]
  note g = kinvD(1) [OF i]
  have f: "free_tcb s (Some t)" using assms(4) by (simp add: free_tcb_def)
  have r: "reachable ?s" by (rule reachable_kstep [OF assms(1) kstep.task [OF task_step.create [OF f]]])
  have act: "task_state (tcb s (g_active_task s)) = K_RDY" using run_ok_active [OF kinvD(2) [OF i] assms(2)] .
  then have lt: "pri < 61"
    using prio_okD(6) [OF kgood_parts(4) [OF g], of "g_active_task s"] assms(5) by (simp add: is_live_def)
  then have eq: "krhino_task_create (Some t) True pri ticks True stack True True s =
      (RHINO_SUCCESS, core_sched (rdy_add_tail t ((upd_task t (\<lambda>k. new_tcb pri ticks stack True K_OBJ_STATIC_ALLOC) s)
        \<lparr>g_kobj_list := (g_kobj_list s)\<lparr>task_head := task_head (g_kobj_list s) @ [t]\<rparr>\<rparr>)))"
    using assms kgoodD(8) [OF g] by (simp add: krhino_task_create_def task_create_def Let_def rdy_add_tail_def upd_task_def)
  have tasks: "tasks ?s = (tasks s)(t := new_tcb pri ticks stack True K_OBJ_STATIC_ALLOC)"
      "g_intrpt_nested_level ?s = 0" "g_sched_lock ?s = 0"
    using assms(2,3) by (simp_all add: eq rdy_add_tail_def upd_task_def)
  have "prio (tcb s (g_active_task s)) \<le> prio (tcb s u)" if "task_state (tcb s u) = K_RDY" for u
    using rdy_ok_top [OF kgood_parts(1) [OF g] that] kinvD(2) [OF i] assms(2,3) that by (auto simp: run_ok_def)
  then have "g_active_task ?s = t"
    using assms(5) by (intro active_is [OF r tasks(2,3)]) (force simp: tasks(1))+
  then show ?thesis using eq by simp
qed

theorem new_task_preempts_witness:
  "g_active_task (snd (krhino_task_create (Some 9) True 4 0 True 256 True True started_kernel)) = 9"
  using new_task_preempts [OF reachable_started, of 9 4 256 0]
  by (simp add: started_fields is_live_def zero_tcb_def g_timer_task_def g_idle_task_def g_dyn_task_def)

end
